(* ===== verification/Prelude.thy ===== *)
theory Prelude
  imports Main "HOL-Library.Word" "HOL-Library.List_Lexorder"
begin

unbundle bit_operations_syntax

text \<open>
  The shared layer of the development: the model's names for Go's machine types, the
  result type of fallible Go functions, the order on byte slices (\<^verbatim>\<open>bytes.Compare\<close>), the
  big-endian reading of byte slices, and the lemma collections the component theories use.

  Conventions.  A Go byte slice is a list of 8-bit words; \<^verbatim>\<open>nil\<close> and the empty slice are
  the same list unless a component distinguishes them, and then it uses an option.
  \<^verbatim>\<open>uint32\<close>, \<^verbatim>\<open>uint64\<close> and \<^verbatim>\<open>int64\<close> are words of their width, so arithmetic
  wraps as it does in Go; an \<^verbatim>\<open>int64\<close> is read with \<open>sint\<close> and compared with \<open><s\<close>.
  A Go \<^verbatim>\<open>int\<close> that only counts slice positions is an \<open>int\<close> or a \<open>nat\<close>.
\<close>

section \<open>Types\<close>

type_synonym byte = "8 word"
type_synonym bytes = "byte list"
type_synonym u16 = "16 word"
type_synonym u32 = "32 word"
type_synonym u64 = "64 word"
type_synonym i64 = "64 word"

text \<open>
  The outcome of a Go call: a value, an error value, or a run-time panic (an index or a slice
  bound out of range).  When a call fails, the other values Go returns beside the error are
  not part of the outcome.
\<close>

datatype ('e, 'a) result = Ok 'a | Err 'e | Panic

fun result_bind :: "('e, 'a) result \<Rightarrow> ('a \<Rightarrow> ('e, 'b) result) \<Rightarrow> ('e, 'b) result" where
  "result_bind (Ok x) f = f x"
| "result_bind (Err e) f = Err e"
| "result_bind Panic f = Panic"

lemma result_bind_Ok_iff:
  "result_bind m f = Ok y \<longleftrightarrow> (\<exists>x. m = Ok x \<and> f x = Ok y)"
  by (cases m) auto

section \<open>The order on byte slices\<close>

text \<open>
  The list order of \<open>List_Lexorder\<close> on byte lists is \<^verbatim>\<open>bytes.Compare(x, y) < 0\<close>.
  \<open>before\<close> is the part of it that does not come from one slice being a prefix of the other:
  it survives whatever is appended to either side, which is what composite keys need.
\<close>

fun before :: "'a::linorder list \<Rightarrow> 'a list \<Rightarrow> bool" where
  "before (x # xs) (y # ys) = (x < y \<or> (x = y \<and> before xs ys))"
| "before _ _ = False"

named_theorems before_intros "rules that establish before"

lemma before_Nil [simp]: "before [] ys = False" "before xs [] = False"
  by (cases ys; simp) (cases xs; simp)

lemma before_append [before_intros]: "before xs ys \<Longrightarrow> before (xs @ s) (ys @ t)"
  by (induction xs ys rule: before.induct) auto

lemma before_same_prefix [simp]: "before (p @ xs) (p @ ys) = before xs ys"
  by (induction p) auto

lemma before_less: "before xs ys \<Longrightarrow> xs < ys"
  by (induction xs ys rule: before.induct) auto

lemma before_irrefl [simp]: "\<not> before xs xs"
  by (induction xs) auto

lemma before_asym: "before xs ys \<Longrightarrow> \<not> before ys xs"
  by (blast dest: before_less order.asym)

lemma before_trans: "before xs ys \<Longrightarrow> before ys zs \<Longrightarrow> before xs zs"
proof (induction xs ys arbitrary: zs rule: before.induct)
  case (1 x xs y ys)
  then show ?case by (cases zs) auto
qed auto

lemma before_append_less: "before xs ys \<Longrightarrow> xs @ s < ys @ t"
  by (blast intro: before_less before_append)

lemma before_not_prefix: "before xs ys \<Longrightarrow> ys \<noteq> xs @ s \<and> xs \<noteq> ys @ s"
  by (induction xs ys rule: before.induct) auto

lemma before_total_eq:
  "length xs = length ys \<Longrightarrow> \<not> before xs ys \<Longrightarrow> \<not> before ys xs \<Longrightarrow> xs = ys"
  by (induction xs ys rule: list_induct2) auto

text \<open>Complementing every byte turns the order around.\<close>

lemma unat_not: "unat (NOT a) = 2 ^ LENGTH('a) - 1 - unat (a :: 'a::len word)"
proof -
  have "NOT a = - 1 - a" by (simp add: not_eq_complement)
  then show ?thesis by (simp add: unat_sub word_order.extremum unsigned_minus_1_eq_mask mask_eq_exp_minus_1)
qed

lemma not_less_not_iff [simp]: "NOT a < NOT b \<longleftrightarrow> b < (a :: 'a::len word)"
proof -
  have "unat a < 2 ^ LENGTH('a)" "unat b < 2 ^ LENGTH('a)" by (rule unsigned_less)+
  then show ?thesis unfolding word_less_nat_alt unat_not by linarith
qed

lemma before_map_not [simp]:
  "before (map (\<lambda>b. NOT b) xs) (map (\<lambda>b. NOT b) ys) = before ys (xs :: 'a::len word list)"
  by (induction ys xs rule: before.induct) auto

section \<open>Big-endian bytes\<close>

text \<open>
  \<open>be_bytes n v\<close> is the list \<^verbatim>\<open>byte(v>>(8*(n-1))), ..., byte(v>>8), byte(v)\<close> that the
  encoders append; \<open>be_fold\<close> is the decoders' loop \<^verbatim>\<open>v = (v << 8) | uint64(t)\<close>;
  \<open>be_nat\<close> is the number the bytes stand for.
\<close>

fun be_bytes :: "nat \<Rightarrow> 'a::len word \<Rightarrow> bytes" where
  "be_bytes 0 v = []"
| "be_bytes (Suc n) v = ucast (drop_bit (8 * n) v) # be_bytes n v"

fun be_fold :: "'a::len word \<Rightarrow> bytes \<Rightarrow> 'a word" where
  "be_fold v [] = v"
| "be_fold v (t # ts) = be_fold (push_bit 8 v OR ucast t) ts"

fun be_nat :: "bytes \<Rightarrow> nat" where
  "be_nat [] = 0"
| "be_nat (b # bs) = unat b * 256 ^ length bs + be_nat bs"

named_theorems big_endian "facts about big-endian bytes"

lemma length_be_bytes [simp]: "length (be_bytes n v) = n"
  by (induction n) auto

lemma unat_byte_less: "unat (b :: byte) < 256"
  using unsigned_less [of b] by simp

lemma digit_less:
  fixes a c r K :: nat
  assumes "a < c" "r < K"
  shows "a * K + r < c * K"
proof -
  have "(a + 1) * K \<le> c * K" using assms by (intro mult_le_mono1) simp
  with assms show ?thesis by simp
qed

lemma be_nat_bound: "be_nat bs < 256 ^ length bs"
proof (induction bs)
  case (Cons b bs)
  show ?case using digit_less [OF unat_byte_less Cons] by simp
qed simp

lemma be_nat_Cons_less:
  assumes "a < b" "length us = length vs"
  shows "be_nat (a # us) < be_nat (b # vs)"
proof -
  have "unat a * 256 ^ length us + be_nat us < unat b * 256 ^ length us"
    by (rule digit_less) (use assms be_nat_bound [of us] in \<open>simp_all add: word_less_nat_alt\<close>)
  with assms show ?thesis by simp
qed

lemma before_be_nat:
  "length xs = length ys \<Longrightarrow> before xs ys \<longleftrightarrow> be_nat xs < be_nat ys"
proof (induction xs ys rule: list_induct2)
  case (Cons x xs y ys)
  show ?case
  proof (cases x y rule: linorder_cases)
    case less
    then show ?thesis using be_nat_Cons_less [OF less Cons.hyps] by simp
  next
    case equal
    with Cons show ?thesis by simp
  next
    case greater
    then show ?thesis using be_nat_Cons_less [OF greater Cons.hyps [symmetric]] by auto
  qed
qed simp

lemma unat_shift: "unat (drop_bit n v) = unat v div 2 ^ n"
proof -
  have "unat (drop_bit n v) = drop_bit n (unat v)"
    by (simp add: unsigned_drop_bit_eq take_bit_nat_eq_self)
  then show ?thesis by (simp add: drop_bit_eq_div)
qed

lemma take_bit_small: "unat x < 2 ^ k \<Longrightarrow> take_bit k x = (x :: 'a::len word)"
  by (simp add: word_unat_eq_iff unsigned_take_bit_eq take_bit_nat_eq_self)

lemma unat_byte_shift: "unat (ucast (drop_bit (8 * n) v) :: byte) = unat v div 256 ^ n mod 256"
proof -
  have "unat (drop_bit (8 * n) v) = unat v div 256 ^ n" by (simp add: unat_shift power_mult)
  then show ?thesis by (simp add: unsigned_ucast_eq take_bit_eq_mod)
qed

lemma unat_ucast_byte: "unat (ucast v :: byte) = unat v mod 256"
  using unat_byte_shift [of 0 v] by simp

lemma unat_ucast_up: "unat (ucast (b :: byte) :: u64) = unat b"
proof -
  have "unat b < 2 ^ 64" using unat_byte_less [of b] by simp
  then show ?thesis by (simp add: unsigned_ucast_eq take_bit_nat_eq_self)
qed

lemma be_nat_be_bytes [big_endian]: "be_nat (be_bytes n v) = unat v mod 256 ^ n"
proof (induction n)
  case (Suc n)
  have "unat v mod (256 ^ n * 256) = 256 ^ n * (unat v div 256 ^ n mod 256) + unat v mod 256 ^ n"
    by (rule mod_mult2_eq)
  with Suc show ?case by (simp add: unat_byte_shift) (simp add: mult.commute)
qed simp

lemma before_be_bytes [big_endian]:
  "before (be_bytes n v) (be_bytes n w) \<longleftrightarrow> unat v mod 256 ^ n < unat w mod 256 ^ n"
  by (simp add: before_be_nat be_nat_be_bytes)

lemma push_bit_or_byte: "push_bit 8 v OR ucast (t :: byte) = v * 256 + (ucast t :: 'a::len word)"
proof -
  have "push_bit 8 v AND ucast t = (0 :: 'a word)"
    by (rule bit_word_eqI) (auto simp: bit_simps dest: bit_imp_le_length)
  then have "push_bit 8 v OR ucast t = push_bit 8 v + (ucast t :: 'a word)"
    by (simp add: disjunctive_add_eq_or)
  then show ?thesis by (simp add: push_bit_eq_mult)
qed

lemma be_fold_eq: "be_fold v bs = v * 256 ^ length bs + of_nat (be_nat bs)"
proof (induction bs arbitrary: v)
  case (Cons t ts)
  show ?case by (simp add: Cons push_bit_or_byte algebra_simps)
qed simp

lemma be_fold_be_bytes:
  fixes v :: "'a::len word"
  assumes "unat v < 256 ^ n"
  shows "be_fold 0 (be_bytes n v) = v"
  using assms by (simp add: be_fold_eq be_nat_be_bytes)

lemma be_bytes_not: "8 * n \<le> LENGTH('a) \<Longrightarrow> be_bytes n (NOT v) = map (\<lambda>t. NOT t) (be_bytes n (v :: 'a::len word))"
proof (induction n)
  case (Suc n)
  have "ucast (drop_bit (8 * n) (NOT v)) = (NOT (ucast (drop_bit (8 * n) v)) :: byte)"
    by (rule bit_word_eqI) (use Suc.prems in \<open>auto simp: bit_simps\<close>)
  with Suc show ?case by simp
qed simp

lemma byte_signed_shift: "n \<le> 56 \<Longrightarrow> ucast (signed_drop_bit n v) = (ucast (drop_bit n v) :: byte)" for v :: "64 word"
  by (rule bit_word_eqI) (auto simp: bit_simps min_def)
lemma be_bytes_numeral:
  "be_bytes (numeral k) v = ucast (drop_bit (8 * pred_numeral k) v) # be_bytes (pred_numeral k) v"
  by (simp add: numeral_eq_Suc)

lemma less_div_iff: "0 < k \<Longrightarrow> a < x div k \<longleftrightarrow> (a + 1) * k \<le> x" for a x k :: nat
  using less_eq_div_iff_mult_less_eq [of k "a + 1" x] by (simp add: Suc_le_eq)

section \<open>Signed 64-bit values\<close>

lemma sint_eq: "sint v = uint v - 2 ^ 64 * of_bool (bit v 63)" for v :: i64
proof -
  have "take_bit 64 (uint v) = uint v" using uint_lt2p [of v] by (simp add: take_bit_int_eq_self)
  then show ?thesis by (simp add: sint_uint signed_take_bit_eq_take_bit_minus bit_uint_iff)
qed

lemma bit63_iff: "bit v 63 \<longleftrightarrow> 2 ^ 63 \<le> uint v" for v :: u64
  using sint_ge [of v] sint_lt [of v] by (cases "bit v 63") (simp_all add: sint_eq)

lemma uint_not_64: "uint (NOT v) = 2 ^ 64 - 1 - uint v" for v :: u64
proof -
  have "unat v \<le> 2 ^ LENGTH(64) - 1" using unsigned_less [of v, where ?'a = nat] by linarith
  then have "int (2 ^ LENGTH(64) - 1 - unat v) = int (2 ^ LENGTH(64) - 1) - int (unat v)"
    by (rule of_nat_diff)
  then have "int (unat (NOT v)) = 2 ^ 64 - 1 - int (unat v)" unfolding unat_not by simp
  then show ?thesis unfolding uint_nat .
qed

lemma sint_not: "sint (NOT v) = - 1 - sint v" for v :: i64
  by (simp add: sint_eq uint_not_64 bit_not_iff)

lemma sless_not_iff: "NOT v <s NOT w \<longleftrightarrow> w <s v" for v w :: i64
  unfolding word_sless_alt sint_not by linarith

lemma sint_neg: "v <s 0 \<Longrightarrow> sint v = - 1 - uint (NOT v)" for v :: i64
proof -
  assume "v <s 0"
  then have "sint v < 0" by (simp add: word_sless_alt)
  then have "sint v = uint v - 2 ^ 64"
    using uint_nonnegative [of v] by (cases "bit v 63") (simp_all add: sint_eq)
  then show ?thesis unfolding uint_not_64 by linarith
qed

lemma sint_nonneg: "\<not> v <s 0 \<Longrightarrow> sint v = uint v" for v :: i64
  using uint_lt2p [of v] by (cases "bit v 63") (simp_all add: word_sless_alt sint_eq)

section \<open>Decimal numbers\<close>

text \<open>The \<^verbatim>\<open>%d\<close> form of a number that is not negative.\<close>

fun decimal :: "nat \<Rightarrow> bytes" where
  "decimal n = (if n < 10 then [of_nat (48 + n)] else decimal (n div 10) @ [of_nat (48 + n mod 10)])"

end
