(* ===== verification/Codec.thy ===== *)
theory Codec
  imports Prelude
begin

text \<open>
  The contract every encoder/decoder pair of \<^verbatim>\<open>util/encoding\<close> keeps, as a hierarchy of
  locales.  \<open>codec\<close>: the encoder appends to the buffer it is given, and the decoder gives back
  the value and the rest of the buffer.  \<open>ordered_codec\<close>: the encodings compare as byte
  slices the way the values compare, whatever follows them.  \<open>codec_pair\<close>: two ordered codecs
  written one after the other are an ordered codec of the pairs in lexicographic order; composite
  index keys are built from it.
\<close>

section \<open>Round trip\<close>

locale codec =
  fixes enc :: "bytes \<Rightarrow> 'a \<Rightarrow> bytes"
    and dec :: "bytes \<Rightarrow> ('e, bytes \<times> 'a) result"
    and valid :: "'a \<Rightarrow> bool"
  assumes enc_append: "enc b x = b @ enc [] x"
    and dec_enc: "valid x \<Longrightarrow> dec (enc [] x @ r) = Ok (r, x)"
begin

lemma enc_unique:
  assumes "valid x" "valid y" "enc [] x @ r = enc [] y @ s"
  shows "x = y \<and> r = s"
proof -
  have "Ok (r, x) = dec (enc [] x @ r)" by (rule dec_enc [OF assms(1), symmetric])
  also have "\<dots> = Ok (s, y)" unfolding assms(3) by (rule dec_enc [OF assms(2)])
  finally show ?thesis by simp
qed

lemma enc_eq_iff:
  assumes "valid x" "valid y"
  shows "enc b x = enc b y \<longleftrightarrow> x = y"
  using enc_unique [OF assms, of "[]" "[]"] by (auto simp: enc_append [of b])

lemma enc_extend: "enc (b @ c) x = b @ enc c x"
  by (simp add: enc_append [of "b @ c"] enc_append [of c])

end

section \<open>Order\<close>

locale ordered_codec = codec enc dec valid
  for enc :: "bytes \<Rightarrow> 'a \<Rightarrow> bytes"
    and dec :: "bytes \<Rightarrow> ('e, bytes \<times> 'a) result"
    and valid :: "'a \<Rightarrow> bool" +
  fixes lt :: "'a \<Rightarrow> 'a \<Rightarrow> bool"
  assumes enc_before: "valid x \<Longrightarrow> valid y \<Longrightarrow> lt x y \<Longrightarrow> before (enc [] x) (enc [] y)"
    and lt_total: "valid x \<Longrightarrow> valid y \<Longrightarrow> lt x y \<or> x = y \<or> lt y x"
begin

lemma enc_before_iff:
  assumes "valid x" "valid y"
  shows "before (enc [] x) (enc [] y) \<longleftrightarrow> lt x y"
  using lt_total [OF assms] enc_before [OF assms] enc_before [OF assms(2,1)] before_asym
  by fastforce

lemma lt_irrefl: "valid x \<Longrightarrow> \<not> lt x x"
  using enc_before by fastforce

lemma key_less_iff:
  assumes "valid x" "valid y" "x \<noteq> y"
  shows "enc b x @ s < enc b y @ t \<longleftrightarrow> lt x y"
proof
  assume "lt x y"
  then have "before (enc [] x) (enc [] y)" by (rule enc_before [OF assms(1,2)])
  then have "before (enc [] x @ s) (enc [] y @ t)" by (rule before_append)
  then show "enc b x @ s < enc b y @ t"
    by (simp add: enc_append [of b] before_less)
next
  assume less: "enc b x @ s < enc b y @ t"
  show "lt x y"
  proof (rule ccontr)
    assume "\<not> lt x y"
    with lt_total [OF assms(1,2)] assms(3) have "lt y x" by blast
    then have "before (enc [] y @ t) (enc [] x @ s)"
      by (intro before_append enc_before assms)
    then have "enc b y @ t < enc b x @ s"
      by (simp add: enc_append [of b] before_less)
    with less show False by (blast dest: order.asym)
  qed
qed

lemma enc_less_iff:
  assumes "valid x" "valid y"
  shows "enc b x < enc b y \<longleftrightarrow> lt x y"
  using key_less_iff [OF assms, of b "[]" "[]"] lt_irrefl [OF assms(1)] by auto

text \<open>No encoding is a proper prefix of another, so keys can be concatenated.\<close>

lemma enc_prefix_free:
  assumes "valid x" "valid y" "enc [] y = enc [] x @ s"
  shows "x = y"
  using enc_unique [OF assms(1,2), of s "[]"] assms(3) by simp

end

section \<open>Two codecs in sequence\<close>

definition pair_enc :: "(bytes \<Rightarrow> 'a \<Rightarrow> bytes) \<Rightarrow> (bytes \<Rightarrow> 'b \<Rightarrow> bytes) \<Rightarrow> bytes \<Rightarrow> 'a \<times> 'b \<Rightarrow> bytes" where
  "pair_enc e1 e2 b p = e2 (e1 b (fst p)) (snd p)"

definition pair_dec :: "(bytes \<Rightarrow> ('e, bytes \<times> 'a) result) \<Rightarrow> (bytes \<Rightarrow> ('e, bytes \<times> 'b) result)
    \<Rightarrow> bytes \<Rightarrow> ('e, bytes \<times> 'a \<times> 'b) result" where
  "pair_dec d1 d2 b = result_bind (d1 b) (\<lambda>(b', x). result_bind (d2 b') (\<lambda>(b'', y). Ok (b'', x, y)))"

definition pair_lt :: "('a \<Rightarrow> 'a \<Rightarrow> bool) \<Rightarrow> ('b \<Rightarrow> 'b \<Rightarrow> bool) \<Rightarrow> 'a \<times> 'b \<Rightarrow> 'a \<times> 'b \<Rightarrow> bool" where
  "pair_lt l1 l2 p q \<longleftrightarrow> l1 (fst p) (fst q) \<or> (fst p = fst q \<and> l2 (snd p) (snd q))"

definition pair_valid :: "('a \<Rightarrow> bool) \<Rightarrow> ('b \<Rightarrow> bool) \<Rightarrow> 'a \<times> 'b \<Rightarrow> bool" where
  "pair_valid v1 v2 p \<longleftrightarrow> v1 (fst p) \<and> v2 (snd p)"

locale codec_pair =
  c1: ordered_codec enc1 dec1 valid1 lt1 + c2: ordered_codec enc2 dec2 valid2 lt2
  for enc1 :: "bytes \<Rightarrow> 'a \<Rightarrow> bytes"
    and dec1 :: "bytes \<Rightarrow> ('e, bytes \<times> 'a) result"
    and valid1 lt1
    and enc2 :: "bytes \<Rightarrow> 'b \<Rightarrow> bytes"
    and dec2 :: "bytes \<Rightarrow> ('e, bytes \<times> 'b) result"
    and valid2 lt2
begin

lemma pair_enc_Nil: "pair_enc enc1 enc2 [] p = enc1 [] (fst p) @ enc2 [] (snd p)"
  by (simp add: pair_enc_def c2.enc_append [of "enc1 [] (fst p)"])

lemma pair_dec_enc:
  assumes "pair_valid valid1 valid2 p"
  shows "pair_dec dec1 dec2 (pair_enc enc1 enc2 [] p @ r) = Ok (r, p)"
  using assms by (simp add: pair_valid_def pair_dec_def pair_enc_Nil c1.dec_enc c2.dec_enc)

lemma pair_enc_before:
  assumes "pair_valid valid1 valid2 p" "pair_valid valid1 valid2 q" "pair_lt lt1 lt2 p q"
  shows "before (pair_enc enc1 enc2 [] p) (pair_enc enc1 enc2 [] q)"
  using assms c1.enc_before c2.enc_before
  by (auto simp: pair_valid_def pair_lt_def pair_enc_Nil intro: before_append)

end

sublocale codec_pair \<subseteq> pair: ordered_codec "pair_enc enc1 enc2" "pair_dec dec1 dec2"
  "pair_valid valid1 valid2" "pair_lt lt1 lt2"
proof unfold_locales
  fix b and p :: "'a \<times> 'b"
  show "pair_enc enc1 enc2 b p = b @ pair_enc enc1 enc2 [] p"
    by (simp add: pair_enc_def c1.enc_append [of b] c2.enc_append [of "b @ _"]
        c2.enc_append [of "enc1 [] _"])
next
  fix p q :: "'a \<times> 'b"
  assume "pair_valid valid1 valid2 p" "pair_valid valid1 valid2 q"
  then show "pair_lt lt1 lt2 p q \<or> p = q \<or> pair_lt lt1 lt2 q p"
    using c1.lt_total c2.lt_total by (auto simp: pair_valid_def pair_lt_def prod_eq_iff)
qed (blast intro: pair_dec_enc pair_enc_before)+

end
