(* ===== verification/Encoding_Fixed.thy ===== *)
theory Encoding_Fixed
  imports Codec
begin

unbundle bit_operations_syntax

text \<open>
  \<^verbatim>\<open>util/encoding/encoding.go\<close>, part 1: the tag constants, the errors, the sort direction and
  the fixed-width encodings of \<^verbatim>\<open>uint32\<close> and \<^verbatim>\<open>uint64\<close>, ascending and descending, each
  shown to be an ordered codec.
\<close>

section \<open>Tags and errors\<close>

text \<open>The untyped constants of the source are integers; a byte is made where one is used.\<close>

definition encodedNull :: byte where "encodedNull = 0x00"
definition encodedNotNull :: byte where "encodedNotNull = 0x01"
definition floatNaN :: byte where "floatNaN = encodedNotNull + 1"
definition floatNeg :: byte where "floatNeg = floatNaN + 1"
definition floatZero :: byte where "floatZero = floatNeg + 1"
definition floatPos :: byte where "floatPos = floatZero + 1"
definition floatNaNDesc :: byte where "floatNaNDesc = floatPos + 1"
definition bytesMarker :: byte where "bytesMarker = 0x12"
definition bytesDescMarker :: byte where "bytesDescMarker = bytesMarker + 1"
definition IntMin :: int where "IntMin = 0x80"
definition intMaxWidth :: int where "intMaxWidth = 8"
definition intZero :: int where "intZero = IntMin + intMaxWidth"
definition IntMax :: int where "IntMax = 0xfd"
definition intSmall :: int where "intSmall = IntMax - intZero - intMaxWidth"
definition encodedNotNullDesc :: byte where "encodedNotNullDesc = 0xfe"
definition encodedNullDesc :: byte where "encodedNullDesc = 0xff"

lemmas tag_defs = encodedNull_def encodedNotNull_def floatNaN_def floatNeg_def floatZero_def
  floatPos_def floatNaNDesc_def bytesMarker_def bytesDescMarker_def encodedNotNullDesc_def
  encodedNullDesc_def

lemmas int_tag_defs = IntMin_def intMaxWidth_def intZero_def IntMax_def intSmall_def

text \<open>One constructor per error message of the package.\<close>

datatype enc_error =
    InsufficientUint32 | InsufficientUint64 | InsufficientUvarint
  | InvalidUvarintLength int | VarintOverflow u64 | VarintLengthExceeds int int
  | MarkerNotFound byte | TerminatorNotFound byte | MalformedEscape | UnknownEscape byte
  | EmptySlice | FloatTooShort int | UnknownTag byte
  | NonsortingVarintFailed int | EmptyArray | ValueTypeMismatch | UnknownType
  | FloatMarkerNotFound | UnknownFloatPrefix | FloatValueTooShort

section \<open>Direction\<close>

datatype Direction = Ascending | Descending | InvalidDirection int

fun Reverse :: "Direction \<Rightarrow> ('e, Direction) result" where
  "Reverse Ascending = Ok Descending"
| "Reverse Descending = Ok Ascending"
| "Reverse (InvalidDirection d) = Panic"

section \<open>uint32\<close>

definition EncodeUint32Ascending :: "bytes \<Rightarrow> u32 \<Rightarrow> bytes" where
  "EncodeUint32Ascending b v =
     b @ [ucast (drop_bit 24 v), ucast (drop_bit 16 v), ucast (drop_bit 8 v), ucast v]"

definition EncodeUint32Descending :: "bytes \<Rightarrow> u32 \<Rightarrow> bytes" where
  "EncodeUint32Descending b v = EncodeUint32Ascending b (NOT v)"

definition DecodeUint32Ascending :: "bytes \<Rightarrow> (enc_error, bytes \<times> u32) result" where
  "DecodeUint32Ascending b =
     (if length b < 4 then Err InsufficientUint32
      else let v = push_bit 24 (ucast (b ! 0)) OR push_bit 16 (ucast (b ! 1)) OR
                   push_bit 8 (ucast (b ! 2)) OR ucast (b ! 3)
           in Ok (drop 4 b, v))"

definition DecodeUint32Descending :: "bytes \<Rightarrow> (enc_error, bytes \<times> u32) result" where
  "DecodeUint32Descending b =
     result_bind (DecodeUint32Ascending b) (\<lambda>(leftover, v). Ok (leftover, NOT v))"

section \<open>uint64\<close>

definition uint64AscendingEncodedLength :: int where
  "uint64AscendingEncodedLength = 8"

definition EncodeUint64Ascending :: "bytes \<Rightarrow> u64 \<Rightarrow> bytes" where
  "EncodeUint64Ascending b v =
     b @ [ucast (drop_bit 56 v), ucast (drop_bit 48 v), ucast (drop_bit 40 v), ucast (drop_bit 32 v),
          ucast (drop_bit 24 v), ucast (drop_bit 16 v), ucast (drop_bit 8 v), ucast v]"

definition EncodeUint64Descending :: "bytes \<Rightarrow> u64 \<Rightarrow> bytes" where
  "EncodeUint64Descending b v = EncodeUint64Ascending b (NOT v)"

definition DecodeUint64Ascending :: "bytes \<Rightarrow> (enc_error, bytes \<times> u64) result" where
  "DecodeUint64Ascending b =
     (if length b < 8 then Err InsufficientUint64
      else let v = push_bit 56 (ucast (b ! 0)) OR push_bit 48 (ucast (b ! 1)) OR
                   push_bit 40 (ucast (b ! 2)) OR push_bit 32 (ucast (b ! 3)) OR
                   push_bit 24 (ucast (b ! 4)) OR push_bit 16 (ucast (b ! 5)) OR
                   push_bit 8 (ucast (b ! 6)) OR ucast (b ! 7)
           in Ok (drop 8 b, v))"

definition DecodeUint64Descending :: "bytes \<Rightarrow> (enc_error, bytes \<times> u64) result" where
  "DecodeUint64Descending b =
     result_bind (DecodeUint64Ascending b) (\<lambda>(leftover, v). Ok (leftover, NOT v))"

section \<open>The encodings are big-endian bytes\<close>

lemma EncodeUint32Ascending_be: "EncodeUint32Ascending b v = b @ be_bytes 4 v"
  by (simp add: EncodeUint32Ascending_def eval_nat_numeral)

lemma EncodeUint64Ascending_be: "EncodeUint64Ascending b v = b @ be_bytes 8 v"
  by (simp add: EncodeUint64Ascending_def eval_nat_numeral)

lemma DecodeUint32Ascending_be:
  assumes "length bs = 4"
  shows "DecodeUint32Ascending (bs @ r) = Ok (r, be_fold 0 bs)"
proof -
  obtain b0 b1 b2 b3 where bs: "bs = [b0, b1, b2, b3]"
    using assms by (auto simp: length_Suc_conv eval_nat_numeral)
  show ?thesis
    by (simp add: bs DecodeUint32Ascending_def eval_nat_numeral push_bit_or ac_simps)
qed

lemma DecodeUint64Ascending_be:
  assumes "length bs = 8"
  shows "DecodeUint64Ascending (bs @ r) = Ok (r, be_fold 0 bs)"
proof -
  obtain b0 b1 b2 b3 b4 b5 b6 b7 where bs: "bs = [b0, b1, b2, b3, b4, b5, b6, b7]"
    using assms by (auto simp: length_Suc_conv eval_nat_numeral)
  show ?thesis
    by (simp add: bs DecodeUint64Ascending_def eval_nat_numeral push_bit_or ac_simps)
qed

lemma DecodeUint32Ascending_roundtrip: "DecodeUint32Ascending (be_bytes 4 v @ r) = Ok (r, v)"
  using unsigned_less [of v, where ?'a = nat]
  by (simp add: DecodeUint32Ascending_be be_fold_be_bytes)

lemma DecodeUint64Ascending_roundtrip: "DecodeUint64Ascending (be_bytes 8 v @ r) = Ok (r, v)"
  using unsigned_less [of v, where ?'a = nat]
  by (simp add: DecodeUint64Ascending_be be_fold_be_bytes)

lemma before_be_bytes_u32: "before (be_bytes 4 v) (be_bytes 4 w) \<longleftrightarrow> v < (w :: u32)"
  using unsigned_less [of v, where ?'a = nat] unsigned_less [of w, where ?'a = nat]
  by (simp add: before_be_bytes word_less_nat_alt)

lemma before_be_bytes_u64: "before (be_bytes 8 v) (be_bytes 8 w) \<longleftrightarrow> v < (w :: u64)"
  using unsigned_less [of v, where ?'a = nat] unsigned_less [of w, where ?'a = nat]
  by (simp add: before_be_bytes word_less_nat_alt)

section \<open>They are ordered codecs\<close>

interpretation uint32_asc: ordered_codec EncodeUint32Ascending DecodeUint32Ascending "\<lambda>_. True" "(<)"
  by unfold_locales
    (auto simp: EncodeUint32Ascending_be DecodeUint32Ascending_roundtrip before_be_bytes_u32)

interpretation uint32_desc: ordered_codec EncodeUint32Descending DecodeUint32Descending "\<lambda>_. True" "(>)"
  by unfold_locales
    (auto simp: EncodeUint32Descending_def DecodeUint32Descending_def EncodeUint32Ascending_be
      DecodeUint32Ascending_roundtrip before_be_bytes_u32)

interpretation uint64_asc: ordered_codec EncodeUint64Ascending DecodeUint64Ascending "\<lambda>_. True" "(<)"
  by unfold_locales
    (auto simp: EncodeUint64Ascending_be DecodeUint64Ascending_roundtrip before_be_bytes_u64)

interpretation uint64_desc: ordered_codec EncodeUint64Descending DecodeUint64Descending "\<lambda>_. True" "(>)"
  by unfold_locales
    (auto simp: EncodeUint64Descending_def DecodeUint64Descending_def EncodeUint64Ascending_be
      DecodeUint64Ascending_roundtrip before_be_bytes_u64)

section \<open>Properties\<close>

text \<open>
  Fixed-width integers.  Decoding what was encoded, with any bytes after it, returns the
  integer and those bytes, for 32 and 64 bits, ascending and descending, and the encodings
  compare as the integers do, ascending, or the other way round, descending.
\<close>

theorem uint_codecs:
  "DecodeUint32Ascending (EncodeUint32Ascending [] v @ r) = Ok (r, v) \<and>
   DecodeUint32Descending (EncodeUint32Descending [] v @ r) = Ok (r, v) \<and>
   DecodeUint64Ascending (EncodeUint64Ascending [] x @ r) = Ok (r, x) \<and>
   DecodeUint64Descending (EncodeUint64Descending [] x @ r) = Ok (r, x) \<and>
   (EncodeUint32Ascending b v < EncodeUint32Ascending b w) = (v < w) \<and>
   (EncodeUint32Descending b v < EncodeUint32Descending b w) = (w < v) \<and>
   (EncodeUint64Ascending b x < EncodeUint64Ascending b y) = (x < y) \<and>
   (EncodeUint64Descending b x < EncodeUint64Descending b y) = (y < x)"
  by (simp add: uint32_asc.dec_enc uint32_desc.dec_enc uint64_asc.dec_enc uint64_desc.dec_enc
      uint32_asc.enc_less_iff uint32_desc.enc_less_iff uint64_asc.enc_less_iff uint64_desc.enc_less_iff)

end
