(* ===== verification/Encoding_Varint.thy ===== *)
theory Encoding_Varint
  imports Encoding_Fixed
begin

unbundle bit_operations_syntax

text \<open>
  \<^verbatim>\<open>util/encoding/encoding.go\<close>, part 2: the order-preserving variable-length integers.
  \<^verbatim>\<open>uint64\<close> values are written as a tag that counts the bytes that follow (small values are in
  the tag itself), negative \<^verbatim>\<open>int64\<close> values with tags below \<^verbatim>\<open>intZero\<close>.  Both directions
  of both families are ordered codecs, and the length functions agree with the encoders.
\<close>

section \<open>The encoders\<close>

definition EncodeUvarintAscending :: "bytes \<Rightarrow> u64 \<Rightarrow> bytes" where
  "EncodeUvarintAscending b v =
     (if v \<le> word_of_int intSmall then b @ [word_of_int intZero + ucast v]
      else if v \<le> 0xff then b @ [word_of_int (IntMax - 7), ucast v]
      else if v \<le> 0xffff then b @ [word_of_int (IntMax - 6), ucast (drop_bit 8 v), ucast v]
      else if v \<le> 0xffffff then
        b @ [word_of_int (IntMax - 5), ucast (drop_bit 16 v), ucast (drop_bit 8 v), ucast v]
      else if v \<le> 0xffffffff then
        b @ [word_of_int (IntMax - 4), ucast (drop_bit 24 v), ucast (drop_bit 16 v),
             ucast (drop_bit 8 v), ucast v]
      else if v \<le> 0xffffffffff then
        b @ [word_of_int (IntMax - 3), ucast (drop_bit 32 v), ucast (drop_bit 24 v),
             ucast (drop_bit 16 v), ucast (drop_bit 8 v), ucast v]
      else if v \<le> 0xffffffffffff then
        b @ [word_of_int (IntMax - 2), ucast (drop_bit 40 v), ucast (drop_bit 32 v),
             ucast (drop_bit 24 v), ucast (drop_bit 16 v), ucast (drop_bit 8 v), ucast v]
      else if v \<le> 0xffffffffffffff then
        b @ [word_of_int (IntMax - 1), ucast (drop_bit 48 v), ucast (drop_bit 40 v),
             ucast (drop_bit 32 v), ucast (drop_bit 24 v), ucast (drop_bit 16 v),
             ucast (drop_bit 8 v), ucast v]
      else
        b @ [word_of_int IntMax, ucast (drop_bit 56 v), ucast (drop_bit 48 v),
             ucast (drop_bit 40 v), ucast (drop_bit 32 v), ucast (drop_bit 24 v),
             ucast (drop_bit 16 v), ucast (drop_bit 8 v), ucast v])"

definition EncodeUvarintDescending :: "bytes \<Rightarrow> u64 \<Rightarrow> bytes" where
  "EncodeUvarintDescending b v =
     (if v = 0 then b @ [word_of_int (IntMin + 8)]
      else if v \<le> 0xff then (let v = NOT v in b @ [word_of_int (IntMin + 7), ucast v])
      else if v \<le> 0xffff then
        (let v = NOT v in b @ [word_of_int (IntMin + 6), ucast (drop_bit 8 v), ucast v])
      else if v \<le> 0xffffff then
        (let v = NOT v in
         b @ [word_of_int (IntMin + 5), ucast (drop_bit 16 v), ucast (drop_bit 8 v), ucast v])
      else if v \<le> 0xffffffff then
        (let v = NOT v in
         b @ [word_of_int (IntMin + 4), ucast (drop_bit 24 v), ucast (drop_bit 16 v),
              ucast (drop_bit 8 v), ucast v])
      else if v \<le> 0xffffffffff then
        (let v = NOT v in
         b @ [word_of_int (IntMin + 3), ucast (drop_bit 32 v), ucast (drop_bit 24 v),
              ucast (drop_bit 16 v), ucast (drop_bit 8 v), ucast v])
      else if v \<le> 0xffffffffffff then
        (let v = NOT v in
         b @ [word_of_int (IntMin + 2), ucast (drop_bit 40 v), ucast (drop_bit 32 v),
              ucast (drop_bit 24 v), ucast (drop_bit 16 v), ucast (drop_bit 8 v), ucast v])
      else if v \<le> 0xffffffffffffff then
        (let v = NOT v in
         b @ [word_of_int (IntMin + 1), ucast (drop_bit 48 v), ucast (drop_bit 40 v),
              ucast (drop_bit 32 v), ucast (drop_bit 24 v), ucast (drop_bit 16 v),
              ucast (drop_bit 8 v), ucast v])
      else
        (let v = NOT v in
         b @ [word_of_int IntMin, ucast (drop_bit 56 v), ucast (drop_bit 48 v),
              ucast (drop_bit 40 v), ucast (drop_bit 32 v), ucast (drop_bit 24 v),
              ucast (drop_bit 16 v), ucast (drop_bit 8 v), ucast v]))"

text \<open>On an \<^verbatim>\<open>int64\<close> the shift \<^verbatim>\<open>v>>n\<close> is arithmetic.\<close>

definition EncodeVarintAscending :: "bytes \<Rightarrow> i64 \<Rightarrow> bytes" where
  "EncodeVarintAscending b v =
     (if v <s 0 then
        (if - 0xff \<le>s v then b @ [word_of_int (IntMin + 7), ucast v]
         else if - 0xffff \<le>s v then
           b @ [word_of_int (IntMin + 6), ucast (signed_drop_bit 8 v), ucast v]
         else if - 0xffffff \<le>s v then
           b @ [word_of_int (IntMin + 5), ucast (signed_drop_bit 16 v), ucast (signed_drop_bit 8 v),
                ucast v]
         else if - 0xffffffff \<le>s v then
           b @ [word_of_int (IntMin + 4), ucast (signed_drop_bit 24 v), ucast (signed_drop_bit 16 v),
                ucast (signed_drop_bit 8 v), ucast v]
         else if - 0xffffffffff \<le>s v then
           b @ [word_of_int (IntMin + 3), ucast (signed_drop_bit 32 v), ucast (signed_drop_bit 24 v),
                ucast (signed_drop_bit 16 v), ucast (signed_drop_bit 8 v), ucast v]
         else if - 0xffffffffffff \<le>s v then
           b @ [word_of_int (IntMin + 2), ucast (signed_drop_bit 40 v), ucast (signed_drop_bit 32 v),
                ucast (signed_drop_bit 24 v), ucast (signed_drop_bit 16 v),
                ucast (signed_drop_bit 8 v), ucast v]
         else if - 0xffffffffffffff \<le>s v then
           b @ [word_of_int (IntMin + 1), ucast (signed_drop_bit 48 v), ucast (signed_drop_bit 40 v),
                ucast (signed_drop_bit 32 v), ucast (signed_drop_bit 24 v),
                ucast (signed_drop_bit 16 v), ucast (signed_drop_bit 8 v), ucast v]
         else
           b @ [word_of_int IntMin, ucast (signed_drop_bit 56 v), ucast (signed_drop_bit 48 v),
                ucast (signed_drop_bit 40 v), ucast (signed_drop_bit 32 v),
                ucast (signed_drop_bit 24 v), ucast (signed_drop_bit 16 v),
                ucast (signed_drop_bit 8 v), ucast v])
      else EncodeUvarintAscending b v)"

definition EncodeVarintDescending :: "bytes \<Rightarrow> i64 \<Rightarrow> bytes" where
  "EncodeVarintDescending b v = EncodeVarintAscending b (NOT v)"

section \<open>Lengths\<close>

definition highestByteIndex :: "u64 \<Rightarrow> int" where
  "highestByteIndex v =
     (let l = 0;
          (v, l) = (if v > 0xffffffff then (drop_bit 32 v, l + 4) else (v, l));
          (v, l) = (if v > 0xffff then (drop_bit 16 v, l + 2) else (v, l));
          l = (if v > 0xff then l + 1 else l)
      in l)"

definition EncLenUvarintAscending :: "u64 \<Rightarrow> int" where
  "EncLenUvarintAscending v = (if v \<le> word_of_int intSmall then 1 else 2 + highestByteIndex v)"

definition EncLenUvarintDescending :: "u64 \<Rightarrow> int" where
  "EncLenUvarintDescending v = (if v = 0 then 1 else 2 + highestByteIndex v)"

text \<open>Called with a non-empty slice; \<^verbatim>\<open>b[0]\<close> of an empty one panics.\<close>

definition getVarintLen :: "bytes \<Rightarrow> (enc_error, int) result" where
  "getVarintLen b =
     (if b = [] then Panic
      else let len0 = uint (b ! 0) - intZero in
        if len0 \<ge> 0 \<and> len0 \<le> intSmall then Ok 1
        else let len = (if len0 \<ge> 0 then 1 + len0 - intSmall else 1 - len0)
             in if len > int (length b) then Err (VarintLengthExceeds len (int (length b)))
                else Ok len)"

section \<open>The decoders\<close>

definition DecodeUvarintAscending :: "bytes \<Rightarrow> (enc_error, bytes \<times> u64) result" where
  "DecodeUvarintAscending b0 =
     (if length b0 = 0 then Err InsufficientUvarint
      else let len = uint (b0 ! 0) - intZero;
               b = drop 1 b0
           in if len \<le> intSmall then Ok (b, word_of_int len)
              else let len = len - intSmall
                   in if len < 0 \<or> len > 8 then Err (InvalidUvarintLength len)
                      else if int (length b) < len then Err InsufficientUvarint
                      else Ok (drop (nat len) b, be_fold 0 (take (nat len) b)))"

definition DecodeUvarintDescending :: "bytes \<Rightarrow> (enc_error, bytes \<times> u64) result" where
  "DecodeUvarintDescending b0 =
     (if length b0 = 0 then Err InsufficientUvarint
      else let len = intZero - uint (b0 ! 0);
               b = drop 1 b0
           in if len < 0 \<or> len > 8 then Err (InvalidUvarintLength len)
              else if int (length b) < len then Err InsufficientUvarint
              else Ok (drop (nat len) b, be_fold 0 (map (\<lambda>t. NOT t) (take (nat len) b))))"

definition DecodeVarintAscending :: "bytes \<Rightarrow> (enc_error, bytes \<times> i64) result" where
  "DecodeVarintAscending b =
     (if length b = 0 then Err InsufficientUvarint
      else let len = uint (b ! 0) - intZero
           in if len < 0 then
                (let len = - len; remB = drop 1 b
                 in if int (length remB) < len then Err InsufficientUvarint
                    else let v = be_fold 0 (map (\<lambda>t. NOT t) (take (nat len) remB))
                         in Ok (drop (nat len) remB, NOT v))
              else result_bind (DecodeUvarintAscending b)
                (\<lambda>(remB, v). if v > 0x7fffffffffffffff then Err (VarintOverflow v)
                              else Ok (remB, v)))"

definition DecodeVarintDescending :: "bytes \<Rightarrow> (enc_error, bytes \<times> i64) result" where
  "DecodeVarintDescending b =
     result_bind (DecodeVarintAscending b) (\<lambda>(leftover, v). Ok (leftover, NOT v))"

section \<open>How long an encoding is\<close>

text \<open>
  The number of bytes after the tag.  A negative value \<open>v\<close> is stored through its complement,
  and the source's limits (\<^verbatim>\<open>-0xff\<close>, \<^verbatim>\<open>-0xffff\<close>, \<dots>) are one below a full byte range
  there.
\<close>

definition byte_len :: "u64 \<Rightarrow> nat" where
  "byte_len v =
     (if v \<le> 0xff then 1 else if v \<le> 0xffff then 2 else if v \<le> 0xffffff then 3
      else if v \<le> 0xffffffff then 4 else if v \<le> 0xffffffffff then 5
      else if v \<le> 0xffffffffffff then 6 else if v \<le> 0xffffffffffffff then 7 else 8)"

definition neg_len :: "u64 \<Rightarrow> nat" where
  "neg_len u =
     (if u \<le> 0xfe then 1 else if u \<le> 0xfffe then 2 else if u \<le> 0xfffffe then 3
      else if u \<le> 0xfffffffe then 4 else if u \<le> 0xfffffffffe then 5
      else if u \<le> 0xfffffffffffe then 6 else if u \<le> 0xfffffffffffffe then 7 else 8)"

lemma byte_len_range: "1 \<le> byte_len v" "byte_len v \<le> 8"
  by (auto simp: byte_len_def)

lemma byte_len_bound: "unat v < 256 ^ byte_len v"
  using unsigned_less [of v, where ?'a = nat]
  by (simp add: byte_len_def word_le_nat_alt)

lemma byte_len_mono: "v \<le> w \<Longrightarrow> byte_len v \<le> byte_len w"
  unfolding byte_len_def word_le_nat_alt by simp

lemma neg_len_range: "1 \<le> neg_len v" "neg_len v \<le> 8"
  by (auto simp: neg_len_def)

lemma neg_len_bound: "unat v < 256 ^ neg_len v"
  using unsigned_less [of v, where ?'a = nat]
  by (simp add: neg_len_def word_le_nat_alt)

lemma neg_len_mono: "v \<le> w \<Longrightarrow> neg_len v \<le> neg_len w"
  unfolding neg_len_def word_le_nat_alt by simp

section \<open>Unsigned: shape, round trip and order\<close>

lemma EncodeUvarintAscending_shape:
  "EncodeUvarintAscending b v =
     b @ (if v \<le> 109 then [136 + ucast v]
          else (245 + of_nat (byte_len v)) # be_bytes (byte_len v) v)"
  by (simp add: EncodeUvarintAscending_def byte_len_def int_tag_defs be_bytes_numeral)

lemma EncodeUvarintDescending_shape:
  "EncodeUvarintDescending b v =
     b @ (if v = 0 then [136] 
          else (136 - of_nat (byte_len v)) # map (\<lambda>t. NOT t) (be_bytes (byte_len v) v))"
  by (simp add: EncodeUvarintDescending_def byte_len_def int_tag_defs be_bytes_not [symmetric] Let_def be_bytes_numeral)

lemma highestByteIndex_byte_len: "highestByteIndex v = int (byte_len v) - 1"
  unfolding highestByteIndex_def byte_len_def word_le_nat_alt word_less_nat_alt
  by (simp add: Let_def unat_shift less_div_iff del: drop_bit_eq_div flip: div_mult2_eq)

lemma uint_small_tag: "v \<le> 109 \<Longrightarrow> uint (136 + ucast v :: byte) = 136 + uint (v :: u64)"
  by (simp add: uint_word_ariths unsigned_ucast_eq take_bit_eq_mod word_le_def)

lemma uint_len_tag: "n \<le> 8 \<Longrightarrow> uint (245 + of_nat n :: byte) = 245 + int n"
  by (simp add: uint_word_ariths unsigned_of_nat take_bit_eq_mod)

lemma uint_neg_tag: "n \<le> 8 \<Longrightarrow> uint (136 - of_nat n :: byte) = 136 - int n"
  by (simp add: uint_word_ariths unsigned_of_nat take_bit_eq_mod)

lemma DecodeUvarintAscending_roundtrip:
  "DecodeUvarintAscending (EncodeUvarintAscending [] v @ r) = Ok (r, v)"
proof (cases "v \<le> 109")
  case True
  then show ?thesis
    by (simp add: EncodeUvarintAscending_shape DecodeUvarintAscending_def int_tag_defs uint_small_tag
        word_le_def)
next
  case False
  then show ?thesis
    using byte_len_range [of v] byte_len_bound [of v]
    by (simp add: EncodeUvarintAscending_shape DecodeUvarintAscending_def int_tag_defs uint_len_tag
        be_fold_be_bytes)
qed

lemma EncodeUvarintAscending_before:
  assumes "v < w"
  shows "before (EncodeUvarintAscending [] v) (EncodeUvarintAscending [] w)"
proof -
  have len: "byte_len v \<le> byte_len w" by (rule byte_len_mono) (use assms in simp)
  have "uint v < uint w" using assms by (simp add: word_less_def)
  then show ?thesis
    using len assms byte_len_range [of v] byte_len_range [of w] byte_len_bound [of v] byte_len_bound [of w]
    by (auto simp: EncodeUvarintAscending_shape word_less_def [where ?'a = 8] uint_small_tag uint_len_tag word_le_def before_be_bytes word_less_nat_alt [of v w] word_uint_eq_iff[where ?'a=8])
qed

lemma DecodeUvarintDescending_roundtrip:
  "DecodeUvarintDescending (EncodeUvarintDescending [] v @ r) = Ok (r, v)"
proof (cases "v = 0")
  case True
  then show ?thesis
    by (simp add: EncodeUvarintDescending_shape DecodeUvarintDescending_def int_tag_defs)
next
  case False
  then show ?thesis
    using byte_len_range [of v] byte_len_bound [of v]
    by (simp add: EncodeUvarintDescending_shape DecodeUvarintDescending_def int_tag_defs uint_neg_tag
        be_fold_be_bytes o_def)
qed
lemma EncodeUvarintDescending_before:
  assumes "v < w"
  shows "before (EncodeUvarintDescending [] w) (EncodeUvarintDescending [] v)"
proof -
  have len: "byte_len v \<le> byte_len w" by (rule byte_len_mono) (use assms in simp)
  show ?thesis
    using len assms byte_len_range [of v] byte_len_range [of w] byte_len_bound [of v] byte_len_bound [of w]
    by (auto simp: EncodeUvarintDescending_shape word_less_def [where ?'a = 8] uint_neg_tag before_be_bytes word_less_nat_alt [of v w] word_uint_eq_iff[where ?'a=8])
qed

section \<open>Signed: shape, round trip and order\<close>

lemma EncodeVarintAscending_neg:
  assumes "v <s 0"
  shows "EncodeVarintAscending b v =
     b @ (136 - of_nat (neg_len (NOT v))) # map (\<lambda>t. NOT t) (be_bytes (neg_len (NOT v)) (NOT v))"
proof -
  have le: "(word_of_int k \<le>s v) = (NOT v \<le> word_of_int (- 1 - k))"
    if "- 72057594037927935 \<le> k" "k < 0" for k
  proof -
    have "signed_take_bit 63 k = k" using that by (intro signed_take_bit_int_eq_self) auto
    then have "sint (word_of_int k :: i64) = k"
      by (simp add: signed_of_int)
    moreover have "uint (word_of_int (- 1 - k) :: i64) = - 1 - k"
      using that by (intro word_of_int_inverse [where ?'a = 64]) auto
    ultimately show ?thesis using assms by (auto simp: word_sle_eq word_le_def sint_neg)
  qed
  show ?thesis using assms le [of "- 0xff"] le [of "- 0xffff"] le [of "- 0xffffff"] le [of "- 0xffffffff"]
      le [of "- 0xffffffffff"] le [of "- 0xffffffffffff"] le [of "- 0xffffffffffffff"]
    by (simp add: EncodeVarintAscending_def neg_len_def int_tag_defs byte_signed_shift be_bytes_not [symmetric]
        be_bytes_numeral)
qed

lemma EncodeVarintAscending_nonneg: "\<not> v <s 0 \<Longrightarrow> EncodeVarintAscending b v = EncodeUvarintAscending b v"
  by (simp add: EncodeVarintAscending_def)

lemma DecodeVarintAscending_roundtrip:
  "DecodeVarintAscending (EncodeVarintAscending [] v @ r) = Ok (r, v)"
proof (cases "v <s 0")
  case True
  then show ?thesis
    using neg_len_range [of "NOT v"] neg_len_bound [of "NOT v"]
    by (simp add: EncodeVarintAscending_neg DecodeVarintAscending_def int_tag_defs uint_neg_tag
        be_fold_be_bytes o_def)
next
  case False
  have "uint v \<le> 0x7fffffffffffffff"
    using sint_lt [of v] False by (simp add: sint_nonneg)
  then have "\<not> 0x7fffffffffffffff < v" by (simp add: word_less_def)
  moreover have "\<not> uint ((EncodeUvarintAscending [] v @ r) ! 0) < 136"
    using byte_len_range [of v] by (simp add: EncodeUvarintAscending_shape uint_small_tag uint_len_tag)
  moreover have "EncodeUvarintAscending [] v @ r \<noteq> []" by (simp add: EncodeUvarintAscending_shape)
  ultimately show ?thesis
    using False by (simp add: EncodeVarintAscending_nonneg DecodeVarintAscending_def int_tag_defs
        DecodeUvarintAscending_roundtrip)
qed

lemma EncodeVarintAscending_before:
  assumes "v <s w"
  shows "before (EncodeVarintAscending [] v) (EncodeVarintAscending [] w)"
proof (cases "w <s 0")
  case True
  with assms have neg: "v <s 0" by (rule signed.order.strict_trans)
  then have lt: "NOT w < NOT v" using assms True sint_neg [OF neg] sint_neg [OF True] unfolding word_sless_alt word_less_def by linarith
  then have "neg_len (NOT w) \<le> neg_len (NOT v)" by (intro neg_len_mono order.strict_implies_order)
  then show ?thesis
    using neg True lt neg_len_range [of "NOT v"] neg_len_range [of "NOT w"] 
      neg_len_bound [of "NOT v"] neg_len_bound [of "NOT w"]
    by (auto simp: EncodeVarintAscending_neg word_less_def [where ?'a = 8] uint_neg_tag before_be_bytes
        word_less_nat_alt [of "NOT w" "NOT v"] word_uint_eq_iff [where ?'a = 8] simp del: not_less_not_iff)
next
  case False
  show ?thesis
  proof (cases "v <s 0")
    case True
    then show ?thesis using False neg_len_range [of "NOT v"] byte_len_range [of w]
      by (auto simp: EncodeVarintAscending_neg EncodeVarintAscending_nonneg EncodeUvarintAscending_shape
          word_less_def [where ?'a = 8] uint_neg_tag uint_small_tag uint_len_tag
          intro: order.strict_trans2 [OF _ uint_nonnegative])
  next
    case nonneg: False
    then have "v < w" using assms False by (simp add: word_sless_alt sint_nonneg word_less_def)
    then show ?thesis using nonneg False
      by (simp add: EncodeVarintAscending_nonneg EncodeUvarintAscending_before)
  qed
qed

section \<open>They are ordered codecs\<close>

lemma uvarint_append:
  "EncodeUvarintAscending b v = b @ EncodeUvarintAscending [] v"
  "EncodeUvarintDescending b v = b @ EncodeUvarintDescending [] v"
  by (simp_all add: EncodeUvarintAscending_shape EncodeUvarintDescending_shape)

lemma varint_append: "EncodeVarintAscending b v = b @ EncodeVarintAscending [] v"
proof (cases "v <s 0")
  case True
  then show ?thesis by (simp add: EncodeVarintAscending_neg)
next
  case False
  then show ?thesis using uvarint_append(1) [of b v] by (simp add: EncodeVarintAscending_nonneg)
qed

interpretation uvarint_asc: ordered_codec EncodeUvarintAscending DecodeUvarintAscending "\<lambda>_. True" "(<)"
  by unfold_locales
    (auto intro: uvarint_append DecodeUvarintAscending_roundtrip EncodeUvarintAscending_before)

interpretation uvarint_desc: ordered_codec EncodeUvarintDescending DecodeUvarintDescending "\<lambda>_. True" "(>)"
  by unfold_locales
    (auto intro: uvarint_append DecodeUvarintDescending_roundtrip EncodeUvarintDescending_before)

interpretation varint_asc: ordered_codec EncodeVarintAscending DecodeVarintAscending "\<lambda>_. True" "(<s)"
  by unfold_locales
    (auto intro: varint_append DecodeVarintAscending_roundtrip EncodeVarintAscending_before)

interpretation varint_desc: ordered_codec EncodeVarintDescending DecodeVarintDescending "\<lambda>_. True" "\<lambda>v w. w <s v"
proof unfold_locales
  fix b v
  show "EncodeVarintDescending b v = b @ EncodeVarintDescending [] v"
    by (simp add: EncodeVarintDescending_def varint_append [of b])
next
  fix v r
  show "DecodeVarintDescending (EncodeVarintDescending [] v @ r) = Ok (r, v)"
    by (simp add: EncodeVarintDescending_def DecodeVarintDescending_def varint_asc.dec_enc)
next
  fix v w :: i64
  assume "w <s v"
  then show "before (EncodeVarintDescending [] v) (EncodeVarintDescending [] w)"
    by (simp add: EncodeVarintDescending_def EncodeVarintAscending_before sless_not_iff)
qed auto

section \<open>Properties\<close>

text \<open>
  C4: Order of integer keys.  Two keys that begin with the same bytes and then hold different
  integers compare as the integers do, whatever comes after: signed integers with
  EncodeVarintAscending, unsigned ones with EncodeUvarintAscending, and the other way round with
  the descending encodings.
\<close>

theorem varint_key_order:
  assumes "v \<noteq> w" "x \<noteq> y"
  shows "(EncodeVarintAscending b v @ s < EncodeVarintAscending b w @ t) = (v <s w) \<and>
    (EncodeVarintDescending b v @ s < EncodeVarintDescending b w @ t) = (w <s v) \<and>
    (EncodeUvarintAscending b x @ s < EncodeUvarintAscending b y @ t) = (x < y) \<and>
    (EncodeUvarintDescending b x @ s < EncodeUvarintDescending b y @ t) = (y < x)"
  using assms
  by (simp add: varint_asc.key_less_iff varint_desc.key_less_iff uvarint_asc.key_less_iff
      uvarint_desc.key_less_iff)

theorem varint_key_order_witness:
  "EncodeVarintAscending [] (- 1) @ [9] < EncodeVarintAscending [] 7 @ []"
proof -
  have "(- 1 :: i64) <s 7" by (simp add: word_sless_alt)
  moreover have "(- 1 :: i64) \<noteq> 7" "(1 :: u64) \<noteq> 2" by simp_all
  ultimately show ?thesis using varint_key_order [of "- 1" 7 1 2 "[]" "[9]" "[]"] by simp
qed

text \<open>
  Round trip of integers.  Decoding an encoded integer followed by any bytes returns the
  integer and those bytes, for each of the four variable-length encodings.
\<close>

theorem varint_roundtrip:
  "DecodeVarintAscending (EncodeVarintAscending [] v @ r) = Ok (r, v) \<and>
   DecodeVarintDescending (EncodeVarintDescending [] v @ r) = Ok (r, v) \<and>
   DecodeUvarintAscending (EncodeUvarintAscending [] x @ r) = Ok (r, x) \<and>
   DecodeUvarintDescending (EncodeUvarintDescending [] x @ r) = Ok (r, x)"
  by (simp add: varint_asc.dec_enc varint_desc.dec_enc uvarint_asc.dec_enc uvarint_desc.dec_enc)

text \<open>
  Lengths in advance.  EncLenUvarintAscending and EncLenUvarintDescending, which find the
  highest non-zero byte by halving, return the number of bytes the encoders append.
\<close>

theorem EncLen_exact:
  "EncLenUvarintAscending v = int (length (EncodeUvarintAscending b v)) - int (length b) \<and>
   EncLenUvarintDescending v = int (length (EncodeUvarintDescending b v)) - int (length b)"
  by (simp add: EncLenUvarintAscending_def EncLenUvarintDescending_def EncodeUvarintAscending_shape
      EncodeUvarintDescending_shape highestByteIndex_byte_len int_tag_defs)

end
