(* ===== verification/Encoding_Bytes.thy ===== *)
theory Encoding_Bytes
  imports Encoding_Varint
begin

unbundle bit_operations_syntax

text \<open>
  \<^verbatim>\<open>util/encoding/encoding.go\<close>, part 3: the escape-based encoding of byte slices and strings.
  A zero byte is written as \<^verbatim>\<open>00 ff\<close> and the value ends with \<^verbatim>\<open>00 01\<close>; the descending form is
  the byte-wise complement.  The loops of the source are the functions \<open>EncodeBytesLoop\<close>,
  \<open>decodeBytesLoop\<close> and \<open>getBytesLengthLoop\<close>; the reference \<open>escaped\<close> is the byte-by-byte
  definition they are compared with.
\<close>

section \<open>Model\<close>

text \<open>\<^verbatim>\<open>bytes.IndexByte\<close>; \<^verbatim>\<open>-1\<close> is \<open>None\<close>.\<close>

fun IndexByte :: "bytes \<Rightarrow> byte \<Rightarrow> nat option" where
  "IndexByte [] x = None"
| "IndexByte (b # bs) x = (if b = x then Some 0 else map_option Suc (IndexByte bs x))"

lemma IndexByte_bound [dest]: "IndexByte bs x = Some i \<Longrightarrow> i < length bs"
  by (induction bs arbitrary: i) (auto split: if_splits)

definition escape :: byte where "escape = 0x00"
definition escapedTerm :: byte where "escapedTerm = 0x01"
definition escaped00 :: byte where "escaped00 = 0xff"
definition escapedFF :: byte where "escapedFF = 0x00"

record escapes =
  esc_escape :: byte
  esc_escapedTerm :: byte
  esc_escaped00 :: byte
  esc_escapedFF :: byte
  esc_marker :: byte

definition ascendingEscapes :: escapes where
  "ascendingEscapes = \<lparr>esc_escape = escape, esc_escapedTerm = escapedTerm,
     esc_escaped00 = escaped00, esc_escapedFF = escapedFF, esc_marker = bytesMarker\<rparr>"

definition descendingEscapes :: escapes where
  "descendingEscapes = \<lparr>esc_escape = NOT escape, esc_escapedTerm = NOT escapedTerm,
     esc_escaped00 = NOT escaped00, esc_escapedFF = NOT escapedFF, esc_marker = bytesDescMarker\<rparr>"

lemmas escape_defs = escape_def escapedTerm_def escaped00_def escapedFF_def
  ascendingEscapes_def descendingEscapes_def

text \<open>
  \<^verbatim>\<open>onesComplement\<close> complements eight bytes at a time through a \<^verbatim>\<open>uintptr\<close> view of the slice and
  the rest byte by byte.  The byte order of the view does not matter for a complement; the model
  reads it big-endian.
\<close>

definition wordSize :: nat where "wordSize = 8"

fun onesComplementWords :: "nat \<Rightarrow> bytes \<Rightarrow> bytes" where
  "onesComplementWords 0 b = b"
| "onesComplementWords (Suc w) b =
     be_bytes wordSize (NOT (be_fold (0::u64) (take wordSize b))) @
     onesComplementWords w (drop wordSize b)"

definition onesComplement :: "bytes \<Rightarrow> bytes" where
  "onesComplement b =
     (let n = length b;
          w = n div wordSize;
          b' = (if w > 0 then onesComplementWords w b else b)
      in take (w * wordSize) b' @ map (\<lambda>t. NOT t) (drop (w * wordSize) b'))"

function EncodeBytesLoop :: "bytes \<Rightarrow> bytes \<Rightarrow> bytes" where
  "EncodeBytesLoop b data =
     (case IndexByte data escape of
        None \<Rightarrow> b @ data
      | Some i \<Rightarrow> EncodeBytesLoop (b @ take i data @ [escape, escaped00]) (drop (i + 1) data))"
  by pat_completeness auto
termination
  by (relation "measure (\<lambda>(b, data). length data)") auto

definition EncodeBytesAscending :: "bytes \<Rightarrow> bytes \<Rightarrow> bytes" where
  "EncodeBytesAscending b data = EncodeBytesLoop (b @ [bytesMarker]) data @ [escape, escapedTerm]"

definition EncodeBytesDescending :: "bytes \<Rightarrow> bytes \<Rightarrow> bytes" where
  "EncodeBytesDescending b data =
     (let n = length b;
          b' = (EncodeBytesAscending b data)[n := bytesDescMarker]
      in take (n + 1) b' @ onesComplement (drop (n + 1) b'))"

function decodeBytesLoop :: "bytes \<Rightarrow> bytes \<Rightarrow> escapes \<Rightarrow> (enc_error, bytes \<times> bytes) result" where
  "decodeBytesLoop b r e =
     (case IndexByte b (esc_escape e) of
        None \<Rightarrow> Err (TerminatorNotFound (esc_escape e))
      | Some i \<Rightarrow>
          if i + 1 \<ge> length b then Err MalformedEscape
          else let v = b ! (i + 1) in
            if v = esc_escapedTerm e then Ok (drop (i + 2) b, r @ take i b)
            else if v \<noteq> esc_escaped00 e then Err (UnknownEscape v)
            else decodeBytesLoop (drop (i + 2) b) (r @ take i b @ [esc_escapedFF e]) e)"
  by pat_completeness auto
termination
  by (relation "measure (\<lambda>(b, r, e). length b)") auto

definition decodeBytesInternal ::
    "bytes \<Rightarrow> bytes \<Rightarrow> escapes \<Rightarrow> bool \<Rightarrow> (enc_error, bytes \<times> bytes) result" where
  "decodeBytesInternal b r e expectMarker =
     (if expectMarker then
        (if length b = 0 \<or> b ! 0 \<noteq> esc_marker e then Err (MarkerNotFound (esc_marker e))
         else decodeBytesLoop (drop 1 b) r e)
      else decodeBytesLoop b r e)"

definition DecodeBytesAscending :: "bytes \<Rightarrow> bytes \<Rightarrow> (enc_error, bytes \<times> bytes) result" where
  "DecodeBytesAscending b r = decodeBytesInternal b r ascendingEscapes True"

definition DecodeBytesDescending :: "bytes \<Rightarrow> bytes \<Rightarrow> (enc_error, bytes \<times> bytes) result" where
  "DecodeBytesDescending b r =
     result_bind (decodeBytesInternal b r descendingEscapes True)
       (\<lambda>(b, r). Ok (b, onesComplement r))"

text \<open>
  \<^verbatim>\<open>getBytesLength\<close>: \<^verbatim>\<open>b[skipped:]\<close> and \<^verbatim>\<open>b[skipped-1]\<close> panic out of range.  The guard compares
  the relative position \<^verbatim>\<open>i+1\<close> with the length of the whole slice, as the source does.
\<close>

function getBytesLengthLoop :: "bytes \<Rightarrow> escapes \<Rightarrow> nat \<Rightarrow> (enc_error, int) result" where
  "getBytesLengthLoop b e skipped =
     (if skipped > length b then Panic
      else case IndexByte (drop skipped b) (esc_escape e) of
        None \<Rightarrow> Err (TerminatorNotFound (esc_escape e))
      | Some i \<Rightarrow>
          if i + 1 \<ge> length b then Err MalformedEscape
          else let skipped' = skipped + i + 2 in
            if skipped' - 1 \<ge> length b then Panic
            else if b ! (skipped' - 1) = esc_escapedTerm e then Ok (int skipped')
            else getBytesLengthLoop b e skipped')"
  by pat_completeness auto
termination
  by (relation "measure (\<lambda>(b, e, skipped). length b - skipped)") auto

definition getBytesLength :: "bytes \<Rightarrow> escapes \<Rightarrow> (enc_error, int) result" where
  "getBytesLength b e = getBytesLengthLoop b e 1"

declare EncodeBytesLoop.simps [simp del] decodeBytesLoop.simps [simp del]
  getBytesLengthLoop.simps [simp del]

text \<open>
  Go strings are byte sequences.  The string functions differ from the byte functions in how they
  get at the bytes of the string, not in what they write.
\<close>

definition EncodeStringAscending :: "bytes \<Rightarrow> bytes \<Rightarrow> bytes" where
  "EncodeStringAscending b s =
     (if length s = 0 then EncodeBytesAscending b [] else EncodeBytesAscending b s)"

definition EncodeStringDescending :: "bytes \<Rightarrow> bytes \<Rightarrow> bytes" where
  "EncodeStringDescending b s =
     (if length s = 0 then EncodeBytesDescending b [] else EncodeBytesDescending b s)"

definition DecodeUnsafeStringAscending :: "bytes \<Rightarrow> bytes \<Rightarrow> (enc_error, bytes \<times> bytes) result" where
  "DecodeUnsafeStringAscending b r = DecodeBytesAscending b r"

definition DecodeUnsafeStringDescending :: "bytes \<Rightarrow> bytes \<Rightarrow> (enc_error, bytes \<times> bytes) result" where
  "DecodeUnsafeStringDescending b r = DecodeBytesDescending b r"

section \<open>Reference definition\<close>

fun escaped :: "bytes \<Rightarrow> bytes" where
  "escaped [] = [escape, escapedTerm]"
| "escaped (x # xs) = (if x = escape then [escape, escaped00] else [x]) @ escaped xs"

section \<open>Complement\<close>

lemma be_bytes_be_fold:
  assumes "length bs = 8"
  shows "be_bytes 8 (be_fold (0::u64) bs) = bs"
proof -
  have "be_nat (be_bytes 8 (be_fold (0::u64) bs)) = be_nat bs"
    using assms be_nat_bound [of bs]
    by (simp add: be_nat_be_bytes be_fold_eq unsigned_of_nat take_bit_nat_eq_self)
  then have "\<not> before (be_bytes 8 (be_fold (0::u64) bs)) bs" "\<not> before bs (be_bytes 8 (be_fold (0::u64) bs))"
    using assms by (simp_all add: before_be_nat)
  then show ?thesis using assms by (intro before_total_eq) simp_all
qed

lemma onesComplementWords_eq:
  "8 * w \<le> length b \<Longrightarrow>
   onesComplementWords w b = map (\<lambda>t. NOT t) (take (8 * w) b) @ drop (8 * w) b"
proof (induction w arbitrary: b)
  case (Suc w)
  then have len: "length (take 8 b) = 8" and "8 * w \<le> length (drop 8 b)" by auto
  moreover have "be_bytes 8 (NOT (be_fold (0::u64) (take 8 b))) = map (\<lambda>t. NOT t) (take 8 b)"
    using be_bytes_be_fold [OF len] by (simp add: be_bytes_not)
  moreover have "take (8 + 8 * w) b = take 8 b @ take (8 * w) (drop 8 b)" by (rule take_add)
  ultimately show ?case using Suc.IH [of "drop 8 b"] by (simp add: wordSize_def add.commute)
qed simp

lemma onesComplement_eq [simp]: "onesComplement b = map (\<lambda>t. NOT t) b"
proof -
  let ?m = "8 * (length b div 8)"
  have "?m \<le> length b" by simp
  then show ?thesis
    using onesComplementWords_eq [of "length b div 8" b]
    by (auto simp: onesComplement_def wordSize_def Let_def mult.commute [of _ 8]
        map_append [symmetric] simp del: map_append)
qed

section \<open>The encoder\<close>

lemma IndexByte_None_iff: "IndexByte bs x = None \<longleftrightarrow> x \<notin> set bs"
  by (induction bs) auto

lemma IndexByte_hit [simp]: "x \<notin> set p \<Longrightarrow> IndexByte (p @ x # q) x = Some (length p)"
  by (induction p) auto

lemma IndexByte_Some:
  "IndexByte bs x = Some i \<Longrightarrow>
   bs = take i bs @ x # drop (i + 1) bs \<and> x \<notin> set (take i bs) \<and> length (take i bs) = i"
  by (induction bs arbitrary: i) (auto split: if_splits)

lemma IndexByte_map_not: "IndexByte (map (\<lambda>t. NOT t) bs) (NOT x) = IndexByte bs x"
  by (induction bs) (auto simp: bit.compl_eq_compl_iff)

lemma escaped_no_escape: "escape \<notin> set p \<Longrightarrow> escaped (p @ q) = p @ escaped q"
  by (induction p) auto

lemma EncodeBytesLoop_eq: "EncodeBytesLoop b data @ [escape, escapedTerm] = b @ escaped data"
proof (induction b data rule: EncodeBytesLoop.induct)
  case (1 b data)
  show ?case
  proof (cases "IndexByte data escape")
    case None
    then have "escape \<notin> set data" by (simp add: IndexByte_None_iff)
    then have "escaped data = data @ [escape, escapedTerm]"
      using escaped_no_escape [of data "[]"] by simp
    with None show ?thesis by (simp add: EncodeBytesLoop.simps [of b data])
  next
    case (Some i)
    then obtain q where q: "data = take i data @ escape # q" "escape \<notin> set (take i data)"
      "q = drop (i + 1) data" using IndexByte_Some by blast
    have "escaped data = take i data @ [escape, escaped00] @ escaped q"
      using escaped_no_escape [OF q(2), of "escape # q"] q(1) by simp
    with Some 1 [OF Some] q(3) show ?thesis by (simp add: EncodeBytesLoop.simps [of b data])
  qed
qed

lemma EncodeBytesAscending_eq: "EncodeBytesAscending b data = b @ bytesMarker # escaped data"
  by (simp add: EncodeBytesAscending_def EncodeBytesLoop_eq)

lemma EncodeBytesDescending_eq:
  "EncodeBytesDescending b data = b @ bytesDescMarker # map (\<lambda>t. NOT t) (escaped data)"
  by (simp add: EncodeBytesDescending_def EncodeBytesAscending_eq Let_def)

lemma EncodeString_eq:
  "EncodeStringAscending b s = EncodeBytesAscending b s"
  "EncodeStringDescending b s = EncodeBytesDescending b s"
  by (simp_all add: EncodeStringAscending_def EncodeStringDescending_def)

section \<open>Order\<close>

lemma escaped_before: "xs < ys \<Longrightarrow> before (escaped xs) (escaped ys)"
proof (induction xs arbitrary: ys)
  case Nil
  then obtain y ys' where ys: "ys = y # ys'" by (cases ys) auto
  have "escape < y" if "y \<noteq> escape" using that by (simp add: escape_def word_neq_0_conv)
  with ys show ?case by (auto simp: escapedTerm_def escaped00_def)
next
  case (Cons x xs)
  then obtain y ys' where ys: "ys = y # ys'" by (cases ys) auto
  have pos: "escape < y" if "y \<noteq> escape" using that by (simp add: escape_def word_neq_0_conv)
  have no: "\<not> y < escape" by (simp add: escape_def)
  from Cons.prems ys have "x < y \<or> (x = y \<and> xs < ys')" by auto
  then show ?case
  proof
    assume "x < y"
    with pos no show ?thesis by (auto simp: ys)
  next
    assume "x = y \<and> xs < ys'"
    with Cons.IH [of ys'] show ?thesis by (simp add: ys)
  qed
qed

section \<open>The decoder\<close>

lemma decodeBytesLoop_escaped:
  "decodeBytesLoop (escaped data @ rest) r ascendingEscapes = Ok (rest, r @ data)"
proof (induction "length data" arbitrary: data r rule: less_induct)
  case less
  show ?case
  proof (cases "IndexByte data escape")
    case None
    then have no: "escape \<notin> set data" by (simp add: IndexByte_None_iff)
    then have "escaped data = data @ [escape, escapedTerm]"
      using escaped_no_escape [of data "[]"] by simp
    with no show ?thesis
      by (simp add: decodeBytesLoop.simps ascendingEscapes_def nth_append)
  next
    case (Some i)
    then obtain q where q: "data = take i data @ escape # q" "escape \<notin> set (take i data)"
      "length (take i data) = i" "q = drop (i + 1) data" using IndexByte_Some by blast
    have esc: "escaped data @ rest = take i data @ escape # escaped00 # escaped q @ rest"
      using escaped_no_escape [OF q(2), of "escape # q"] q(1) by simp
    have hit: "IndexByte (take i data @ escape # escaped00 # escaped q @ rest) escape = Some i"
      using IndexByte_hit [OF q(2)] q(3) by simp
    have "length q < length data" using q(1) by (metis length_append length_Cons less_add_Suc2 add_Suc_right)
    then have "decodeBytesLoop (escaped q @ rest) (r @ take i data @ [escape]) ascendingEscapes
        = Ok (rest, (r @ take i data @ [escape]) @ q)" by (rule less.hyps)
    also have "(r @ take i data @ [escape]) @ q = r @ data" using q(1) by simp
    finally show ?thesis
      using hit q(3) unfolding esc
      by (subst decodeBytesLoop.simps)
        (simp add: ascendingEscapes_def nth_append escapedTerm_def escaped00_def escapedFF_def escape_def)
  qed
qed

lemma decodeBytesLoop_complement:
  "decodeBytesLoop (map (\<lambda>t. NOT t) b) (map (\<lambda>t. NOT t) r) descendingEscapes =
   (case decodeBytesLoop b r ascendingEscapes of
      Ok (rest, s) \<Rightarrow> Ok (map (\<lambda>t. NOT t) rest, map (\<lambda>t. NOT t) s)
    | Err (TerminatorNotFound x) \<Rightarrow> Err (TerminatorNotFound (NOT x))
    | Err (UnknownEscape x) \<Rightarrow> Err (UnknownEscape (NOT x))
    | Err e \<Rightarrow> Err e
    | Panic \<Rightarrow> Panic)"
proof (induction b r ascendingEscapes rule: decodeBytesLoop.induct)
  case (1 b r)
  have ix: "IndexByte (map (\<lambda>t. NOT t) b) (NOT escape) = IndexByte b escape" by (rule IndexByte_map_not)
  have neq: "escaped00 \<noteq> escapedTerm" by (simp add: escaped00_def escapedTerm_def)
  show ?case
  proof (cases "IndexByte b escape")
    case None
    then show ?thesis using ix
      by (simp add: decodeBytesLoop.simps [of b] decodeBytesLoop.simps [of "map _ b"]
          ascendingEscapes_def descendingEscapes_def)
  next
    case (Some i)
    have IH: "decodeBytesLoop (map (\<lambda>t. NOT t) (drop (i + 2) b))
        (map (\<lambda>t. NOT t) (r @ take i b @ [escapedFF])) descendingEscapes =
      (case decodeBytesLoop (drop (i + 2) b) (r @ take i b @ [escapedFF]) ascendingEscapes of
        Ok (rest, s) \<Rightarrow> Ok (map (\<lambda>t. NOT t) rest, map (\<lambda>t. NOT t) s)
      | Err (TerminatorNotFound x) \<Rightarrow> Err (TerminatorNotFound (NOT x))
      | Err (UnknownEscape x) \<Rightarrow> Err (UnknownEscape (NOT x))
      | Err e \<Rightarrow> Err e
      | Panic \<Rightarrow> Panic)"
      if "i + 1 < length b" "b ! (i + 1) = escaped00"
      using 1 [of i "b ! (i + 1)"] Some that neq by (simp add: ascendingEscapes_def)
    show ?thesis using ix Some IH neq
      by (subst (2) decodeBytesLoop.simps, subst decodeBytesLoop.simps)
        (auto simp: ascendingEscapes_def descendingEscapes_def Let_def drop_map take_map
          bit.compl_eq_compl_iff)
  qed
qed

lemma DecodeBytesAscending_roundtrip:
  "DecodeBytesAscending (EncodeBytesAscending [] data @ rest) r = Ok (rest, r @ data)"
  by (simp add: DecodeBytesAscending_def decodeBytesInternal_def EncodeBytesAscending_eq
      decodeBytesLoop_escaped) (simp add: ascendingEscapes_def)

text \<open>
  \<^verbatim>\<open>DecodeBytesDescending\<close> complements the whole result buffer, also what \<^verbatim>\<open>r\<close> held before.
\<close>

lemma DecodeBytesDescending_roundtrip:
  "DecodeBytesDescending (EncodeBytesDescending [] data @ rest) r =
   Ok (rest, map (\<lambda>t. NOT t) r @ data)"
proof -
  have inv: "map (\<lambda>t. NOT t) (map (\<lambda>t. NOT t) xs) = xs" for xs :: bytes by (simp add: o_def)
  have "map (\<lambda>t. NOT t) (escaped data) @ rest = map (\<lambda>t. NOT t) (escaped data @ map (\<lambda>t. NOT t) rest)"
    by (simp add: o_def)
  then have "decodeBytesLoop (map (\<lambda>t. NOT t) (escaped data) @ rest) r descendingEscapes =
      Ok (rest, r @ map (\<lambda>t. NOT t) data)"
    using decodeBytesLoop_complement [of "escaped data @ map (\<lambda>t. NOT t) rest" "map (\<lambda>t. NOT t) r"]
    by (simp add: decodeBytesLoop_escaped inv o_def)
  then show ?thesis
    by (simp add: DecodeBytesDescending_def decodeBytesInternal_def EncodeBytesDescending_eq o_def)
      (simp add: descendingEscapes_def)
qed

section \<open>They are ordered codecs\<close>

interpretation bytes_asc: ordered_codec EncodeBytesAscending "\<lambda>b. DecodeBytesAscending b []"
  "\<lambda>_. True" "(<)"
proof unfold_locales
  fix r x
  show "DecodeBytesAscending (EncodeBytesAscending [] x @ r) [] = Ok (r, x)"
    by (simp add: DecodeBytesAscending_roundtrip)
qed (auto simp: EncodeBytesAscending_eq escaped_before)

interpretation bytes_desc: ordered_codec EncodeBytesDescending "\<lambda>b. DecodeBytesDescending b []"
  "\<lambda>_. True" "(>)"
proof unfold_locales
  fix r x
  show "DecodeBytesDescending (EncodeBytesDescending [] x @ r) [] = Ok (r, x)"
    by (simp add: DecodeBytesDescending_roundtrip)
qed (auto simp: EncodeBytesDescending_eq escaped_before)

interpretation string_asc: ordered_codec EncodeStringAscending
  "\<lambda>b. DecodeUnsafeStringAscending b []" "\<lambda>_. True" "(<)"
  unfolding EncodeString_eq [abs_def] DecodeUnsafeStringAscending_def by (rule bytes_asc.ordered_codec_axioms)

interpretation string_desc: ordered_codec EncodeStringDescending
  "\<lambda>b. DecodeUnsafeStringDescending b []" "\<lambda>_. True" "(>)"
  unfolding EncodeString_eq [abs_def] DecodeUnsafeStringDescending_def by (rule bytes_desc.ordered_codec_axioms)

section \<open>The length of an encoding in a buffer\<close>

lemma escaped_at_term:
  assumes "IndexByte data escape = None"
  shows "escaped data = data @ [escape, escapedTerm]"
  using assms escaped_no_escape [of data "[]"] by (simp add: IndexByte_None_iff)

lemma getBytesLengthLoop_escaped:
  "getBytesLengthLoop (p @ escaped data @ rest) ascendingEscapes (length p) =
   Ok (int (length p + length (escaped data)))"
proof (induction "length data" arbitrary: data p rule: less_induct)
  case less
  show ?case
  proof (cases "IndexByte data escape")
    case None
    then have "escape \<notin> set data" by (simp add: IndexByte_None_iff)
    then show ?thesis using escaped_at_term [OF None]
      by (subst getBytesLengthLoop.simps) (simp add: ascendingEscapes_def nth_append)
  next
    case (Some i)
    then obtain q where q: "data = take i data @ escape # q" "escape \<notin> set (take i data)"
      "length (take i data) = i" "q = drop (i + 1) data" using IndexByte_Some by blast
    have esc: "escaped data = take i data @ escape # escaped00 # escaped q"
      using escaped_no_escape [OF q(2), of "escape # q"] q(1) by simp
    have "length data = length (take i data @ escape # q)" using q(1) by simp
    then have "length q < length data" by simp
    then have IH: "getBytesLengthLoop ((p @ take i data @ [escape, escaped00]) @ escaped q @ rest)
        ascendingEscapes (length (p @ take i data @ [escape, escaped00]))
      = Ok (int (length (p @ take i data @ [escape, escaped00]) + length (escaped q)))"
      by (rule less.hyps)
    have hit: "IndexByte (take i data @ escape # escaped00 # escaped q @ rest) escape = Some i"
      using IndexByte_hit [OF q(2)] q(3) by simp
    show ?thesis
      using IH hit q(3) unfolding esc
      by (subst getBytesLengthLoop.simps)
        (simp add: ascendingEscapes_def nth_append escapedTerm_def escaped00_def)
  qed
qed

lemma getBytesLengthLoop_complement:
  "getBytesLengthLoop (map (\<lambda>t. NOT t) b) descendingEscapes n =
   (case getBytesLengthLoop b ascendingEscapes n of
      Err (TerminatorNotFound x) \<Rightarrow> Err (TerminatorNotFound (NOT x)) | res \<Rightarrow> res)"
proof (induction b ascendingEscapes n rule: getBytesLengthLoop.induct)
  case (1 b n)
  have ix: "IndexByte (drop n (map (\<lambda>t. NOT t) b)) (NOT escape) = IndexByte (drop n b) escape"
    by (simp add: drop_map IndexByte_map_not)
  show ?case
  proof (cases "n > length b \<or> IndexByte (drop n b) escape = None")
    case True
    then show ?thesis using ix
      by (auto simp: getBytesLengthLoop.simps [of b] getBytesLengthLoop.simps [of "map _ b"]
          ascendingEscapes_def descendingEscapes_def)
  next
    case False
    then obtain i where i: "IndexByte (drop n b) escape = Some i" and n: "\<not> n > length b" by auto
    show ?thesis using ix i n 1 [OF n, of i "n + i + 2"]
      by (subst (2) getBytesLengthLoop.simps, subst getBytesLengthLoop.simps)
        (auto simp: ascendingEscapes_def descendingEscapes_def Let_def bit.compl_eq_compl_iff)
  qed
qed

lemma getBytesLength_asc:
  "getBytesLength (EncodeBytesAscending [] data @ rest) ascendingEscapes =
   Ok (int (length (EncodeBytesAscending [] data)))"
  using getBytesLengthLoop_escaped [of "[bytesMarker]" data rest]
  by (simp add: getBytesLength_def EncodeBytesAscending_eq)

lemma getBytesLength_desc:
  "getBytesLength (EncodeBytesDescending [] data @ rest) descendingEscapes =
   Ok (int (length (EncodeBytesDescending [] data)))"
  using getBytesLengthLoop_escaped [of "[NOT bytesDescMarker]" data "map (\<lambda>t. NOT t) rest"]
    getBytesLengthLoop_complement [of "NOT bytesDescMarker # escaped data @ map (\<lambda>t. NOT t) rest" 1]
  by (simp add: getBytesLength_def EncodeBytesDescending_eq o_def)

section \<open>Properties\<close>

text \<open>
  C15: Order of byte keys.  Keys that share their first bytes and then hold different byte strings
  compare as the strings do, also when one string is a prefix of the other or holds the escape
  byte, whatever comes after; with the descending encoding the other way round.
\<close>

theorem bytes_key_order:
  assumes "d \<noteq> e"
  shows "(EncodeBytesAscending b d @ s < EncodeBytesAscending b e @ t) = (d < e) \<and>
    (EncodeBytesDescending b d @ s < EncodeBytesDescending b e @ t) = (e < d)"
  using assms by (simp add: bytes_asc.key_less_iff bytes_desc.key_less_iff)

theorem bytes_key_order_witness:
  "EncodeBytesAscending [] [1] @ [255] < EncodeBytesAscending [] [1, 0] @ []"
  using bytes_key_order [of "[1]" "[1, 0]" "[]" "[255]" "[]"] by simp

text \<open>
  Round trip of byte strings.  The ascending decoder returns the bytes after the key and
  appends the string to the buffer it is given; the descending decoder also inverts the bits of
  what the buffer held before.
\<close>

theorem bytes_roundtrip:
  "DecodeBytesAscending (EncodeBytesAscending [] d @ rest) r = Ok (rest, r @ d) \<and>
   DecodeBytesDescending (EncodeBytesDescending [] d @ rest) r = Ok (rest, map (\<lambda>t. NOT t) r @ d)"
  by (simp add: DecodeBytesAscending_roundtrip DecodeBytesDescending_roundtrip)

text \<open>
  onesComplement, which inverts eight bytes at a time and then the rest one by one, inverts
  every byte.
\<close>

theorem onesComplement_bytewise: "onesComplement b = map (\<lambda>t. NOT t) b"
  by (rule onesComplement_eq)

end
