(* ===== verification/Encoding_Key.thy ===== *)
theory Encoding_Key
  imports Encoding_Bytes
begin

unbundle bit_operations_syntax

text \<open>
  \<^verbatim>\<open>util/encoding/encoding.go\<close>, part 4: NULL markers, floats, and the functions that look at
  an encoded key without decoding it (\<^verbatim>\<open>PeekType\<close>, \<^verbatim>\<open>PeekLength\<close>, \<^verbatim>\<open>GetMultiVarintLen\<close>).
  A \<^verbatim>\<open>float64\<close> is its IEEE 754 bit pattern, so \<^verbatim>\<open>math.Float64bits\<close> and \<^verbatim>\<open>math.Float64frombits\<close>
  are the identity.
\<close>

section \<open>Types of encoded values\<close>

text \<open>\<^verbatim>\<open>type Type int\<close>: a 64-bit integer with named values.\<close>

type_synonym Typ = i64

definition Typ_Unknown :: Typ where "Typ_Unknown = 0"
definition Typ_Null :: Typ where "Typ_Null = 1"
definition Typ_NotNull :: Typ where "Typ_NotNull = 2"
definition Typ_Int :: Typ where "Typ_Int = 3"
definition Typ_Float :: Typ where "Typ_Float = 4"
definition Typ_Bytes :: Typ where "Typ_Bytes = 5"
definition Typ_BytesDesc :: Typ where "Typ_BytesDesc = 6"
definition Typ_True :: Typ where "Typ_True = 7"
definition Typ_False :: Typ where "Typ_False = 8"
definition SentinelType :: Typ where "SentinelType = 15"

lemmas Typ_defs = Typ_Unknown_def Typ_Null_def Typ_NotNull_def Typ_Int_def Typ_Float_def
  Typ_Bytes_def Typ_BytesDesc_def Typ_True_def Typ_False_def SentinelType_def

definition PeekType :: "bytes \<Rightarrow> Typ" where
  "PeekType b =
     (if length b \<ge> 1 then
        (let m = b ! 0 in
         if m = encodedNull \<or> m = encodedNullDesc then Typ_Null
         else if m = encodedNotNull \<or> m = encodedNotNullDesc then Typ_NotNull
         else if m = bytesMarker then Typ_Bytes
         else if m = bytesDescMarker then Typ_BytesDesc
         else if m \<ge> word_of_int IntMin \<and> m \<le> word_of_int IntMax then Typ_Int
         else if m \<ge> floatNaN \<and> m \<le> floatNaNDesc then Typ_Float
         else Typ_Unknown)
      else Typ_Unknown)"

section \<open>NULL\<close>

definition EncodeNullAscending :: "bytes \<Rightarrow> bytes" where
  "EncodeNullAscending b = b @ [encodedNull]"

definition EncodeNullDescending :: "bytes \<Rightarrow> bytes" where
  "EncodeNullDescending b = b @ [encodedNullDesc]"

definition EncodeNotNullAscending :: "bytes \<Rightarrow> bytes" where
  "EncodeNotNullAscending b = b @ [encodedNotNull]"

definition EncodeNotNullDescending :: "bytes \<Rightarrow> bytes" where
  "EncodeNotNullDescending b = b @ [encodedNotNullDesc]"

definition DecodeIfNull :: "bytes \<Rightarrow> bytes \<times> bool" where
  "DecodeIfNull b = (if PeekType b = Typ_Null then (drop 1 b, True) else (b, False))"

definition DecodeIfNotNull :: "bytes \<Rightarrow> bytes \<times> bool" where
  "DecodeIfNotNull b = (if PeekType b = Typ_NotNull then (drop 1 b, True) else (b, False))"

section \<open>Floats\<close>

type_synonym f64 = u64

text \<open>\<^verbatim>\<open>math.IsNaN\<close>: all exponent bits set and a non-zero fraction.\<close>

definition IsNaN :: "f64 \<Rightarrow> bool" where
  "IsNaN f \<longleftrightarrow> f AND 0x7fffffffffffffff > 0x7ff0000000000000"

text \<open>\<^verbatim>\<open>math.NaN()\<close>.\<close>

definition NaN :: f64 where "NaN = 0x7ff8000000000001"

text \<open>The negation \<^verbatim>\<open>-f\<close> flips the sign bit.\<close>

definition f64_neg :: "f64 \<Rightarrow> f64" where
  "f64_neg f = f XOR 0x8000000000000000"

definition EncodeFloatAscending :: "bytes \<Rightarrow> f64 \<Rightarrow> bytes" where
  "EncodeFloatAscending b f =
     (let u = f in
      if IsNaN f then b @ [floatNaN]
      else if u = 0 then b @ [floatZero]
      else if u AND push_bit 63 1 \<noteq> 0 then EncodeUint64Ascending (b @ [floatNeg]) (NOT u)
      else EncodeUint64Ascending (b @ [floatPos]) u)"

definition EncodeFloatDescending :: "bytes \<Rightarrow> f64 \<Rightarrow> bytes" where
  "EncodeFloatDescending b f =
     (if IsNaN f then b @ [floatNaNDesc] else EncodeFloatAscending b (f64_neg f))"

definition DecodeFloatAscending :: "bytes \<Rightarrow> (enc_error, bytes \<times> f64) result" where
  "DecodeFloatAscending buf =
     (if PeekType buf \<noteq> Typ_Float then Err FloatMarkerNotFound
      else let m = buf ! 0 in
        if m = floatNaN \<or> m = floatNaNDesc then Ok (drop 1 buf, NaN)
        else if m = floatNeg then
          result_bind (DecodeUint64Ascending (drop 1 buf)) (\<lambda>(b, u). Ok (b, NOT u))
        else if m = floatZero then Ok (drop 1 buf, 0)
        else if m = floatPos then DecodeUint64Ascending (drop 1 buf)
        else Err UnknownFloatPrefix)"

definition DecodeFloatDescending :: "bytes \<Rightarrow> (enc_error, bytes \<times> f64) result" where
  "DecodeFloatDescending buf =
     result_bind (DecodeFloatAscending buf) (\<lambda>(b, r). Ok (b, f64_neg r))"

section \<open>Lengths\<close>

definition PeekLength :: "bytes \<Rightarrow> (enc_error, int) result" where
  "PeekLength b =
     (if length b = 0 then Err EmptySlice
      else let m = b ! 0 in
        if m \<in> {encodedNull, encodedNullDesc, encodedNotNull, encodedNotNullDesc,
                 floatNaN, floatNaNDesc, floatZero} then Ok 1
        else if m = bytesMarker then getBytesLength b ascendingEscapes
        else if m = bytesDescMarker then getBytesLength b descendingEscapes
        else if m = floatNeg \<or> m = floatPos then
          (if length b < 9 then Err (FloatTooShort (int (length b))) else Ok 9)
        else if m \<ge> word_of_int IntMin \<and> m \<le> word_of_int IntMax then getVarintLen b
        else Err (UnknownTag m))"

text \<open>The loop of \<^verbatim>\<open>GetMultiVarintLen\<close>: \<open>n\<close> is \<^verbatim>\<open>num - i\<close>.\<close>

fun GetMultiVarintLenLoop :: "nat \<Rightarrow> bytes \<Rightarrow> int \<Rightarrow> (enc_error, int) result" where
  "GetMultiVarintLenLoop 0 b p = Ok p"
| "GetMultiVarintLenLoop (Suc n) b p =
     (if p < int (length b) then
        result_bind (getVarintLen (drop (nat p) b)) (\<lambda>len. GetMultiVarintLenLoop n b (p + len))
      else Ok p)"

definition GetMultiVarintLen :: "bytes \<Rightarrow> nat \<Rightarrow> (enc_error, int) result" where
  "GetMultiVarintLen b num = GetMultiVarintLenLoop num b 1"

section \<open>The order on floats\<close>

text \<open>
  \<open>f64_less\<close> is Go's \<^verbatim>\<open><\<close> on the floats that are not NaN: sign and magnitude, with both zeros
  equal.  \<open>f64_rank\<close> separates the zeros, the negative one first, as the encoding does.
\<close>

definition f64_mag :: "f64 \<Rightarrow> int" where
  "f64_mag u = uint (u AND 0x7fffffffffffffff)"

definition f64_less :: "f64 \<Rightarrow> f64 \<Rightarrow> bool" where
  "f64_less u v \<longleftrightarrow>
     (if bit u 63 then - f64_mag u else f64_mag u) < (if bit v 63 then - f64_mag v else f64_mag v)"

definition f64_rank :: "f64 \<Rightarrow> int" where
  "f64_rank u = (if bit u 63 then - f64_mag u - 1 else f64_mag u)"

lemma f64_mag_eq: "f64_mag u = uint u - 2 ^ 63 * of_bool (bit u 63)"
proof -
  have "u AND 0x7fffffffffffffff = take_bit 63 u"
    by (simp add: take_bit_eq_mask mask_eq_exp_minus_1)
  then have "f64_mag u = take_bit 63 (uint u)"
    by (simp add: f64_mag_def unsigned_take_bit_eq)
  also have "\<dots> = take_bit 64 (uint u) - 2 ^ 63 * of_bool (bit (uint u) 63)"
    using take_bit_Suc_from_most [of 63 "uint u"] by simp
  also have "take_bit 64 (uint u) = uint u"
    using uint_lt2p [of u] by (simp add: take_bit_int_eq_self)
  finally show ?thesis by (simp add: bit_uint_iff)
qed

lemma f64_less_rank: "f64_less u v \<Longrightarrow> f64_rank u < f64_rank v"
proof -
  have "0 \<le> f64_mag w" for w by (simp add: f64_mag_def)
  from this [of u] this [of v] show "f64_less u v \<Longrightarrow> f64_rank u < f64_rank v"
    unfolding f64_less_def f64_rank_def by (auto split: if_splits)
qed

lemma f64_rank_inj:
  assumes "f64_rank u = f64_rank v"
  shows "u = v"
proof -
  have nonneg: "0 \<le> f64_mag w" for w by (simp add: f64_mag_def)
  have "bit u 63 = bit v 63"
    using assms nonneg [of u] nonneg [of v] unfolding f64_rank_def by (auto split: if_splits)
  with assms show ?thesis by (auto simp: f64_rank_def f64_mag_eq word_uint_eq_iff)
qed

lemma sign_test: "u AND push_bit 63 1 \<noteq> 0 \<longleftrightarrow> bit (u :: u64) 63"
  by (simp add: bit_iff_and_push_bit_not_eq_0)

lemma EncodeFloatAscending_cases:
  "EncodeFloatAscending b f =
     (if IsNaN f then b @ [floatNaN] else if f = 0 then b @ [floatZero]
      else if bit f 63 then b @ floatNeg # be_bytes 8 (NOT f) else b @ floatPos # be_bytes 8 f)"
  unfolding EncodeFloatAscending_def Let_def sign_test by (simp add: EncodeUint64Ascending_be)

lemma EncodeFloatAscending_before:
  assumes "\<not> IsNaN u" "\<not> IsNaN v" "f64_rank u < f64_rank v"
  shows "before (EncodeFloatAscending [] u) (EncodeFloatAscending [] v)"
proof -
  have nonneg: "0 \<le> f64_mag w" for w by (simp add: f64_mag_def)
  have zero: "f64_rank 0 = 0" by (simp add: f64_rank_def f64_mag_def)
  have tags: "floatNeg < floatZero" "floatNeg < floatPos" "floatZero < floatPos"
    by (simp_all add: tag_defs)
  consider "bit u 63" "bit v 63" | "bit u 63" "\<not> bit v 63" | "\<not> bit u 63" "\<not> bit v 63"
    using assms(3) nonneg [of u] nonneg [of v] by (force simp: f64_rank_def)
  then show ?thesis
  proof cases
    case 1
    then have "v < u" using assms(3) by (simp add: f64_rank_def f64_mag_eq word_less_def)
    with 1 assms show ?thesis by (auto simp: EncodeFloatAscending_cases before_be_bytes_u64)
  next
    case 2
    with assms tags show ?thesis by (auto simp: EncodeFloatAscending_cases)
  next
    case 3
    then have "u < v" using assms(3) by (simp add: f64_rank_def f64_mag_eq word_less_def)
    moreover from this have "v \<noteq> 0" by auto
    ultimately show ?thesis using 3 assms tags
      by (auto simp: EncodeFloatAscending_cases before_be_bytes_u64)
  qed
qed

lemma DecodeFloatAscending_roundtrip:
  assumes "\<not> IsNaN f"
  shows "DecodeFloatAscending (EncodeFloatAscending [] f @ r) = Ok (r, f)"
  using assms
  by (simp add: EncodeFloatAscending_cases DecodeFloatAscending_def PeekType_def tag_defs
      Typ_defs int_tag_defs DecodeUint64Ascending_roundtrip)

interpretation float_asc: ordered_codec EncodeFloatAscending DecodeFloatAscending
  "\<lambda>f. \<not> IsNaN f" "\<lambda>u v. f64_rank u < f64_rank v"
proof unfold_locales
  fix b and u v :: f64
  show "EncodeFloatAscending b u = b @ EncodeFloatAscending [] u"
    by (simp add: EncodeFloatAscending_cases)
  show "f64_rank u < f64_rank v \<or> u = v \<or> f64_rank v < f64_rank u"
    using f64_rank_inj [of u v] by linarith
qed (blast intro: EncodeFloatAscending_before DecodeFloatAscending_roundtrip)+

lemma f64_neg_bit: "bit (f64_neg u) 63 \<longleftrightarrow> \<not> bit u 63"
proof -
  have "(0x8000000000000000 :: u64) = push_bit 63 1" by simp
  then show ?thesis unfolding f64_neg_def by (simp only: bit_xor_iff bit_push_bit_iff) simp
qed

lemma f64_neg_mag: "f64_neg u AND 0x7fffffffffffffff = u AND 0x7fffffffffffffff"
  by (simp add: f64_neg_def bit.conj_xor_distrib2)

lemma IsNaN_neg [simp]: "IsNaN (f64_neg f) = IsNaN f"
  by (simp add: IsNaN_def f64_neg_mag)

lemma f64_neg_neg [simp]: "f64_neg (f64_neg f) = f"
  by (simp add: f64_neg_def xor.assoc)

lemma f64_rank_neg: "f64_rank (f64_neg u) = - 1 - f64_rank u"
  by (simp add: f64_rank_def f64_mag_def f64_neg_bit f64_neg_mag)

interpretation float_desc: ordered_codec EncodeFloatDescending DecodeFloatDescending
  "\<lambda>f. \<not> IsNaN f" "\<lambda>u v. f64_rank v < f64_rank u"
proof unfold_locales
  fix b and u v :: f64
  show "EncodeFloatDescending b u = b @ EncodeFloatDescending [] u"
    by (simp add: EncodeFloatDescending_def float_asc.enc_append [of b])
  show "f64_rank v < f64_rank u \<or> u = v \<or> f64_rank u < f64_rank v"
    using f64_rank_inj [of u v] by linarith
  assume "\<not> IsNaN u" "\<not> IsNaN v" "f64_rank v < f64_rank u"
  then show "before (EncodeFloatDescending [] u) (EncodeFloatDescending [] v)"
    by (simp add: EncodeFloatDescending_def EncodeFloatAscending_before f64_rank_neg)
qed (simp add: EncodeFloatDescending_def DecodeFloatDescending_def float_asc.dec_enc)

section \<open>Peeking at encoded keys\<close>

lemma uvarint_tag:
  "\<exists>t ts. EncodeUvarintAscending [] v = t # ts \<and> 136 \<le> uint t \<and> uint t \<le> 253 \<and>
     (if uint t \<le> 245 then ts = [] else length ts = nat (uint t - 245))"
  using byte_len_range [of v] uint_nonnegative [of v]
  by (auto simp: EncodeUvarintAscending_shape uint_small_tag uint_len_tag word_le_def)

lemma getVarintLen_uvarint:
  "getVarintLen (EncodeUvarintAscending [] v @ r) = Ok (int (length (EncodeUvarintAscending [] v)))"
  using uvarint_tag [of v] by (auto simp: getVarintLen_def int_tag_defs Let_def split: if_splits)

lemma getVarintLen_varint:
  "getVarintLen (EncodeVarintAscending [] v @ r) = Ok (int (length (EncodeVarintAscending [] v)))"
proof (cases "v <s 0")
  case True
  then show ?thesis using neg_len_range [of "NOT v"]
    by (simp add: EncodeVarintAscending_neg getVarintLen_def int_tag_defs uint_neg_tag)
next
  case False
  then show ?thesis by (simp add: EncodeVarintAscending_nonneg getVarintLen_uvarint)
qed

lemma varint_tag:
  "\<exists>t ts. EncodeVarintAscending [] v = t # ts \<and> 128 \<le> uint t \<and> uint t \<le> 253"
proof (cases "v <s 0")
  case True
  then show ?thesis using neg_len_range [of "NOT v"]
    by (simp add: EncodeVarintAscending_neg uint_neg_tag)
next
  case False
  then show ?thesis using uvarint_tag [of v] by (auto simp: EncodeVarintAscending_nonneg)
qed

lemma PeekLength_int_tag:
  assumes "128 \<le> uint t" "uint t \<le> 253"
  shows "PeekLength (t # ts) = getVarintLen (t # ts)" "PeekType (t # ts) = Typ_Int"
  using assms by (auto simp: PeekLength_def PeekType_def tag_defs int_tag_defs word_le_def)

lemma PeekLength_varint:
  "PeekLength (EncodeVarintAscending [] v @ r) = Ok (int (length (EncodeVarintAscending [] v)))"
  using varint_tag [of v] PeekLength_int_tag(1) getVarintLen_varint [of v r] by auto

lemma PeekLength_uvarint:
  "PeekLength (EncodeUvarintAscending [] v @ r) = Ok (int (length (EncodeUvarintAscending [] v)))"
  using uvarint_tag [of v] PeekLength_int_tag(1) getVarintLen_uvarint [of v r] by fastforce

lemma PeekLength_uvarint_desc:
  "PeekLength (EncodeUvarintDescending [] v @ r) = Ok (int (length (EncodeUvarintDescending [] v)))"
proof (cases "v = 0")
  case True
  then show ?thesis
    by (simp add: EncodeUvarintDescending_shape PeekLength_int_tag getVarintLen_def int_tag_defs)
next
  case False
  then show ?thesis using byte_len_range [of v]
    by (simp add: EncodeUvarintDescending_shape PeekLength_int_tag getVarintLen_def int_tag_defs
        uint_neg_tag)
qed

lemma PeekLength_bytes:
  "PeekLength (EncodeBytesAscending [] data @ r) = Ok (int (length (EncodeBytesAscending [] data)))"
  "PeekLength (EncodeBytesDescending [] data @ r) = Ok (int (length (EncodeBytesDescending [] data)))"
  using getBytesLength_asc [of data r] getBytesLength_desc [of data r]
  by (simp_all add: PeekLength_def EncodeBytesAscending_eq EncodeBytesDescending_eq tag_defs)

lemma PeekLength_float:
  "PeekLength (EncodeFloatAscending [] f @ r) = Ok (int (length (EncodeFloatAscending [] f)))"
  by (simp add: PeekLength_def EncodeFloatAscending_cases tag_defs)

lemma PeekLength_float_desc:
  "PeekLength (EncodeFloatDescending [] f @ r) = Ok (int (length (EncodeFloatDescending [] f)))"
  by (simp add: EncodeFloatDescending_def PeekLength_float) (simp add: PeekLength_def tag_defs)

section \<open>Properties\<close>

text \<open>
  Order of float keys.  For two floats that are not NaN with the first less than the second,
  the ascending key of the first is before that of the second, whatever follows, and the
  descending key after it.
\<close>

theorem float_key_order:
  assumes "\<not> IsNaN u" "\<not> IsNaN v" "f64_less u v"
  shows "EncodeFloatAscending b u @ s < EncodeFloatAscending b v @ t \<and>
    EncodeFloatDescending b v @ s < EncodeFloatDescending b u @ t"
proof -
  have r: "f64_rank u < f64_rank v" using assms(3) by (rule f64_less_rank)
  then have "u \<noteq> v" by auto
  with r assms show ?thesis by (simp add: float_asc.key_less_iff float_desc.key_less_iff)
qed

theorem float_key_order_witness:
  "EncodeFloatAscending [] 0xBFF0000000000000 @ [] < EncodeFloatAscending [] 0x3FF0000000000000 @ []"
proof -
  have "\<not> IsNaN 0xBFF0000000000000" "\<not> IsNaN 0x3FF0000000000000"
    "f64_less 0xBFF0000000000000 0x3FF0000000000000" by code_simp+
  from float_key_order [OF this, of "[]" "[]" "[]"] show ?thesis by simp
qed

text \<open>
  Round trip of float keys.  Every float that is not NaN, minus zero included, comes back bit
  by bit from both encodings; a NaN comes back as Go's NaN from the ascending one.
\<close>

theorem float_roundtrip:
  "DecodeFloatAscending (EncodeFloatAscending [] f @ r) = Ok (r, if IsNaN f then NaN else f) \<and>
   (\<not> IsNaN f \<longrightarrow> DecodeFloatDescending (EncodeFloatDescending [] f @ r) = Ok (r, f))"
proof -
  have "IsNaN f \<Longrightarrow> DecodeFloatAscending (EncodeFloatAscending [] f @ r) = Ok (r, NaN)"
    by (simp add: EncodeFloatAscending_cases DecodeFloatAscending_def PeekType_def tag_defs Typ_defs
        int_tag_defs)
  then show ?thesis using float_asc.dec_enc [of f r] float_desc.dec_enc [of f r] by auto
qed

theorem float_roundtrip_witness:
  "DecodeFloatDescending (EncodeFloatDescending [] 0x8000000000000000 @ [7]) = Ok ([7], 0x8000000000000000)"
proof -
  have "\<not> IsNaN 0x8000000000000000" by code_simp
  then show ?thesis using float_roundtrip [of "0x8000000000000000" "[7]"] by simp
qed

text \<open>
  PeekLength.  On any key that begins with an encoded null, integer, float or byte string,
  ascending or descending, PeekLength returns the length of that encoding.
\<close>

theorem PeekLength_agrees:
  "enc \<in> {EncodeNullAscending [], EncodeNullDescending [], EncodeNotNullAscending [],
      EncodeNotNullDescending [], EncodeVarintAscending [] i, EncodeVarintDescending [] i,
      EncodeUvarintAscending [] v, EncodeUvarintDescending [] v, EncodeFloatAscending [] f,
      EncodeFloatDescending [] f, EncodeBytesAscending [] d, EncodeBytesDescending [] d} \<Longrightarrow>
   PeekLength (enc @ r) = Ok (int (length enc))"
  by (auto simp: PeekLength_varint PeekLength_uvarint PeekLength_uvarint_desc PeekLength_bytes
      PeekLength_float PeekLength_float_desc EncodeVarintDescending_def EncodeNullAscending_def
      EncodeNullDescending_def EncodeNotNullAscending_def EncodeNotNullDescending_def)
    (simp_all add: PeekLength_def tag_defs)

theorem PeekLength_agrees_witness:
  "PeekLength (EncodeBytesDescending [] [0, 1] @ [3]) = Ok (int (length (EncodeBytesDescending [] [0, 1])))"
  using PeekLength_agrees [of "EncodeBytesDescending [] [0, 1]" 0 0 0 "[0, 1]" "[3]"] by simp

text \<open>
  PeekLength on a cut key.  A bytes key that ends right after an escape byte is not reported
  as malformed: the guard compares an offset in the rest of the key with the length of the whole
  key, so the byte after the escape is read out of range and the call panics.
\<close>

theorem PeekLength_cut_panics:
  assumes "escape \<notin> set d"
  shows "PeekLength (bytesMarker # d @ [escape]) = Panic"
proof -
  have "PeekLength (bytesMarker # d @ [escape]) =
      getBytesLengthLoop (bytesMarker # d @ [escape]) ascendingEscapes 1"
    by (simp add: PeekLength_def tag_defs getBytesLength_def)
  also have "\<dots> = Panic"
    using assms by (subst getBytesLengthLoop.simps) (simp add: ascendingEscapes_def)
  finally show ?thesis .
qed

theorem PeekLength_cut_panics_witness: "PeekLength [bytesMarker, 65, escape] = Panic"
  using PeekLength_cut_panics [of "[65]"] by (simp add: escape_def)

end
