(* ===== verification/Encoding_Value.thy ===== *)
theory Encoding_Value
  imports Encoding_Key
begin

unbundle bit_operations_syntax

text \<open>
  \<^verbatim>\<open>util/encoding/encoding.go\<close>, part 5: the \<^verbatim>\<open>value\<close> encoding, which need not sort.  The
  varints of \<^verbatim>\<open>encoding/binary\<close> (\<open>PutUvarint\<close>, \<open>PutVarint\<close>, \<open>UvarintLoop\<close>, \<open>Varint\<close>) are
  modelled from the Go standard library; \<^verbatim>\<open>EncodeNonsortingUvarint\<close> is the package's own
  most-significant-group-first form.  On top of them are the column tag and the typed values.
\<close>

section \<open>encoding/binary\<close>

function PutUvarint :: "u64 \<Rightarrow> bytes" where
  "PutUvarint x =
     (if x \<ge> 0x80 then (ucast x OR 0x80) # PutUvarint (drop_bit 7 x) else [ucast x])"
  by pat_completeness auto
termination
  by (relation "measure unat") (auto simp: unat_shift word_le_nat_alt)

declare PutUvarint.simps [simp del]

definition PutVarint :: "i64 \<Rightarrow> bytes" where
  "PutVarint x = (let ux = push_bit 1 x in PutUvarint (if x <s 0 then NOT ux else ux))"

fun UvarintLoop :: "bytes \<Rightarrow> nat \<Rightarrow> nat \<Rightarrow> u64 \<Rightarrow> u64 \<times> int" where
  "UvarintLoop [] i s x = (0, 0)"
| "UvarintLoop (b # bs) i s x =
     (if b < 0x80 then
        (if i > 9 \<or> (i = 9 \<and> b > 1) then (0, - (int i + 1))
         else (x OR push_bit s (ucast b), int i + 1))
      else UvarintLoop bs (i + 1) (s + 7) (x OR push_bit s (ucast (b AND 0x7f))))"

definition Varint :: "bytes \<Rightarrow> i64 \<times> int" where
  "Varint buf =
     (let (ux, n) = UvarintLoop buf 0 0 0;
          x = drop_bit 1 ux
      in (if ux AND 1 \<noteq> 0 then NOT x else x, n))"

section \<open>Nonsorting varints\<close>

definition EncodeNonsortingVarint :: "bytes \<Rightarrow> i64 \<Rightarrow> bytes" where
  "EncodeNonsortingVarint appendTo x = appendTo @ PutVarint x"

definition DecodeNonsortingVarint :: "bytes \<Rightarrow> (enc_error, bytes \<times> int \<times> i64) result" where
  "DecodeNonsortingVarint b =
     (let (v, len) = Varint b
      in if len \<le> 0 then Err (NonsortingVarintFailed len) else Ok (drop (nat len) b, len, v))"

fun getMultiNonsortingVarintLenLoop :: "nat \<Rightarrow> bytes \<Rightarrow> int \<Rightarrow> (enc_error, int) result" where
  "getMultiNonsortingVarintLenLoop 0 b p = Ok p"
| "getMultiNonsortingVarintLenLoop (Suc n) b p =
     (if p < int (length b) then
        result_bind (DecodeNonsortingVarint (drop (nat p) b))
          (\<lambda>(_, len, _). getMultiNonsortingVarintLenLoop n b (p + len))
      else Ok p)"

definition getMultiNonsortingVarintLen :: "bytes \<Rightarrow> nat \<Rightarrow> (enc_error, int) result" where
  "getMultiNonsortingVarintLen b num = getMultiNonsortingVarintLenLoop num b 0"

definition EncodeNonsortingUvarint :: "bytes \<Rightarrow> u64 \<Rightarrow> bytes" where
  "EncodeNonsortingUvarint appendTo x =
     (if x < push_bit 7 1 then appendTo @ [ucast x]
      else if x < push_bit 14 1 then
        appendTo @ [0x80 OR ucast (drop_bit 7 x), 0x7f AND ucast x]
      else if x < push_bit 21 1 then
        appendTo @ [0x80 OR ucast (drop_bit 14 x), 0x80 OR ucast (drop_bit 7 x), 0x7f AND ucast x]
      else if x < push_bit 28 1 then
        appendTo @ [0x80 OR ucast (drop_bit 21 x), 0x80 OR ucast (drop_bit 14 x),
          0x80 OR ucast (drop_bit 7 x), 0x7f AND ucast x]
      else if x < push_bit 35 1 then
        appendTo @ [0x80 OR ucast (drop_bit 28 x), 0x80 OR ucast (drop_bit 21 x),
          0x80 OR ucast (drop_bit 14 x), 0x80 OR ucast (drop_bit 7 x), 0x7f AND ucast x]
      else if x < push_bit 42 1 then
        appendTo @ [0x80 OR ucast (drop_bit 35 x), 0x80 OR ucast (drop_bit 28 x),
          0x80 OR ucast (drop_bit 21 x), 0x80 OR ucast (drop_bit 14 x),
          0x80 OR ucast (drop_bit 7 x), 0x7f AND ucast x]
      else if x < push_bit 49 1 then
        appendTo @ [0x80 OR ucast (drop_bit 42 x), 0x80 OR ucast (drop_bit 35 x),
          0x80 OR ucast (drop_bit 28 x), 0x80 OR ucast (drop_bit 21 x),
          0x80 OR ucast (drop_bit 14 x), 0x80 OR ucast (drop_bit 7 x), 0x7f AND ucast x]
      else if x < push_bit 56 1 then
        appendTo @ [0x80 OR ucast (drop_bit 49 x), 0x80 OR ucast (drop_bit 42 x),
          0x80 OR ucast (drop_bit 35 x), 0x80 OR ucast (drop_bit 28 x),
          0x80 OR ucast (drop_bit 21 x), 0x80 OR ucast (drop_bit 14 x),
          0x80 OR ucast (drop_bit 7 x), 0x7f AND ucast x]
      else if x < push_bit 63 1 then
        appendTo @ [0x80 OR ucast (drop_bit 56 x), 0x80 OR ucast (drop_bit 49 x),
          0x80 OR ucast (drop_bit 42 x), 0x80 OR ucast (drop_bit 35 x),
          0x80 OR ucast (drop_bit 28 x), 0x80 OR ucast (drop_bit 21 x),
          0x80 OR ucast (drop_bit 14 x), 0x80 OR ucast (drop_bit 7 x), 0x7f AND ucast x]
      else
        appendTo @ [0x80 OR ucast (drop_bit 63 x), 0x80 OR ucast (drop_bit 56 x),
          0x80 OR ucast (drop_bit 49 x), 0x80 OR ucast (drop_bit 42 x),
          0x80 OR ucast (drop_bit 35 x), 0x80 OR ucast (drop_bit 28 x),
          0x80 OR ucast (drop_bit 21 x), 0x80 OR ucast (drop_bit 14 x),
          0x80 OR ucast (drop_bit 7 x), 0x7f AND ucast x])"

text \<open>The loop never fails; without a final byte it returns length 0.\<close>

fun DecodeNonsortingUvarintLoop :: "bytes \<Rightarrow> bytes \<Rightarrow> nat \<Rightarrow> u64 \<Rightarrow> bytes \<times> int \<times> u64" where
  "DecodeNonsortingUvarintLoop buf [] i v = (buf, 0, 0)"
| "DecodeNonsortingUvarintLoop buf (b # bs) i v =
     (let v' = push_bit 7 v + ucast (b AND 0x7f)
      in if b < 0x80 then (drop (i + 1) buf, int i + 1, v')
         else DecodeNonsortingUvarintLoop buf bs (i + 1) v')"

definition DecodeNonsortingUvarint :: "bytes \<Rightarrow> bytes \<times> int \<times> u64" where
  "DecodeNonsortingUvarint buf = DecodeNonsortingUvarintLoop buf buf 0 0"

fun PeekLengthNonsortingUvarintLoop :: "bytes \<Rightarrow> nat \<Rightarrow> int" where
  "PeekLengthNonsortingUvarintLoop [] i = 0"
| "PeekLengthNonsortingUvarintLoop (b # bs) i =
     (if b AND 0x80 = 0 then int i + 1 else PeekLengthNonsortingUvarintLoop bs (i + 1))"

definition PeekLengthNonsortingUvarint :: "bytes \<Rightarrow> int" where
  "PeekLengthNonsortingUvarint buf = PeekLengthNonsortingUvarintLoop buf 0"

section \<open>Tagged values\<close>

definition NoColumnID :: u32 where "NoColumnID = 0"

definition encodeValueTag :: "bytes \<Rightarrow> u32 \<Rightarrow> Typ \<Rightarrow> bytes" where
  "encodeValueTag appendTo colID typ =
     (if SentinelType \<le>s typ then
        EncodeNonsortingUvarint
          (EncodeNonsortingUvarint appendTo (push_bit 4 (ucast colID) OR SentinelType)) typ
      else if colID = NoColumnID then appendTo @ [ucast typ]
      else EncodeNonsortingUvarint appendTo (push_bit 4 (ucast colID) OR typ))"

definition EncodeNullValue :: "bytes \<Rightarrow> u32 \<Rightarrow> bytes" where
  "EncodeNullValue appendTo colID = encodeValueTag appendTo colID Typ_Null"

definition EncodeBoolValue :: "bytes \<Rightarrow> u32 \<Rightarrow> bool \<Rightarrow> bytes" where
  "EncodeBoolValue appendTo colID b =
     (if b then encodeValueTag appendTo colID Typ_True else encodeValueTag appendTo colID Typ_False)"

definition EncodeIntValue :: "bytes \<Rightarrow> u32 \<Rightarrow> i64 \<Rightarrow> bytes" where
  "EncodeIntValue appendTo colID i =
     EncodeNonsortingVarint (encodeValueTag appendTo colID Typ_Int) i"

definition EncodeFloatValue :: "bytes \<Rightarrow> u32 \<Rightarrow> f64 \<Rightarrow> bytes" where
  "EncodeFloatValue appendTo colID f =
     EncodeUint64Ascending (encodeValueTag appendTo colID Typ_Float) f"

definition EncodeBytesValue :: "bytes \<Rightarrow> u32 \<Rightarrow> bytes \<Rightarrow> bytes" where
  "EncodeBytesValue appendTo colID data =
     EncodeNonsortingUvarint (encodeValueTag appendTo colID Typ_Bytes) (of_nat (length data)) @ data"

definition DecodeValueTag :: "bytes \<Rightarrow> (enc_error, int \<times> int \<times> u32 \<times> Typ) result" where
  "DecodeValueTag b =
     (if length b = 0 then Err EmptyArray
      else let (b', n, tag) = DecodeNonsortingUvarint b;
               colID = ucast (drop_bit 4 tag) :: u32;
               typ = tag AND 0xf;
               typeOffset = n - 1;
               dataOffset = n
           in if typ = SentinelType then
                (let (_, n', tag') = DecodeNonsortingUvarint b'
                 in Ok (typeOffset, dataOffset + n', colID, tag'))
              else Ok (typeOffset, dataOffset, colID, typ))"

definition decodeValueTypeAssert :: "bytes \<Rightarrow> Typ \<Rightarrow> (enc_error, bytes) result" where
  "decodeValueTypeAssert b expected =
     result_bind (DecodeValueTag b) (\<lambda>(_, dataOffset, _, typ).
       if typ \<noteq> expected then Err ValueTypeMismatch else Ok (drop (nat dataOffset) b))"

definition DecodeBoolValue :: "bytes \<Rightarrow> (enc_error, bytes \<times> bool) result" where
  "DecodeBoolValue buf =
     result_bind (DecodeValueTag buf) (\<lambda>(_, dataOffset, _, typ).
       let buf = drop (nat dataOffset) buf in
       if typ = Typ_True then Ok (buf, True)
       else if typ = Typ_False then Ok (buf, False)
       else Err ValueTypeMismatch)"

definition DecodeIntValue :: "bytes \<Rightarrow> (enc_error, bytes \<times> i64) result" where
  "DecodeIntValue b =
     result_bind (decodeValueTypeAssert b Typ_Int) (\<lambda>b.
       result_bind (DecodeNonsortingVarint b) (\<lambda>(b, _, i). Ok (b, i)))"

definition DecodeFloatValue :: "bytes \<Rightarrow> (enc_error, bytes \<times> f64) result" where
  "DecodeFloatValue b =
     result_bind (decodeValueTypeAssert b Typ_Float) (\<lambda>b.
       if length b < 8 then Err FloatValueTooShort else DecodeUint64Ascending b)"

text \<open>\<^verbatim>\<open>b[int(i):]\<close> panics when \<^verbatim>\<open>int(i)\<close> is negative or beyond the slice.\<close>

definition DecodeBytesValue :: "bytes \<Rightarrow> (enc_error, bytes \<times> bytes) result" where
  "DecodeBytesValue b =
     result_bind (decodeValueTypeAssert b Typ_Bytes) (\<lambda>b.
       let (b, _, i) = DecodeNonsortingUvarint b
       in if sint i < 0 \<or> sint i > int (length b) then Panic
          else Ok (drop (nat (sint i)) b, take (nat (sint i)) b))"

text \<open>The sum of the lengths is a 64-bit \<^verbatim>\<open>int\<close>.\<close>

definition wrap64 :: "int \<Rightarrow> int" where
  "wrap64 k = sint (word_of_int k :: i64)"

definition PeekValueLength :: "bytes \<Rightarrow> (enc_error, int \<times> int) result" where
  "PeekValueLength b =
     (if length b = 0 then Ok (0, 0)
      else result_bind (DecodeValueTag b) (\<lambda>(typeOffset, dataOffset, _, typ).
        let b = drop (nat dataOffset) b in
        if typ = Typ_Null then Ok (typeOffset, dataOffset)
        else if typ = Typ_True \<or> typ = Typ_False then Ok (typeOffset, dataOffset)
        else if typ = Typ_Int then
          result_bind (DecodeNonsortingVarint b) (\<lambda>(_, n, _). Ok (typeOffset, dataOffset + n))
        else if typ = Typ_Float then Ok (typeOffset, dataOffset + uint64AscendingEncodedLength)
        else if typ = Typ_Bytes then
          (let (_, n, i) = DecodeNonsortingUvarint b
           in Ok (typeOffset, wrap64 (dataOffset + n + sint i)))
        else Err UnknownType))"

definition maxVarintSize :: int where "maxVarintSize = 9"

definition UpperBoundValueEncodingSize :: "u32 \<Rightarrow> Typ \<Rightarrow> int \<Rightarrow> (enc_error, int \<times> bool) result" where
  "UpperBoundValueEncodingSize colID typ sz =
     (let encodedTag = encodeValueTag [] colID typ; n = int (length encodedTag) in
      if typ = Typ_Null \<or> typ = Typ_True \<or> typ = Typ_False then Ok (n, True)
      else if typ = Typ_Int then Ok (n + maxVarintSize, True)
      else if typ = Typ_Float then Ok (n + uint64AscendingEncodedLength, True)
      else if typ = Typ_Bytes then
        (if sz > 0 then Ok (n + maxVarintSize + sz, True) else Ok (0, False))
      else Panic)"

section \<open>Reference form of the nonsorting uvarint\<close>

text \<open>\<open>groups n x\<close>: \<open>n\<close> continuation groups and a last one, most significant first.\<close>

fun groups :: "nat \<Rightarrow> u64 \<Rightarrow> bytes" where
  "groups 0 x = [0x7f AND ucast x]"
| "groups (Suc n) x = (0x80 OR ucast (drop_bit (7 * Suc n) x)) # groups n x"

definition group_len :: "u64 \<Rightarrow> nat" where
  "group_len x =
     (if x < 0x80 then 0 else if x < 0x4000 then 1 else if x < 0x200000 then 2
      else if x < 0x10000000 then 3 else if x < 0x800000000 then 4 else if x < 0x40000000000 then 5
      else if x < 0x2000000000000 then 6 else if x < 0x100000000000000 then 7
      else if x < 0x8000000000000000 then 8 else 9)"

text \<open>The first uvarint of a tag.\<close>

definition tagUvarint :: "u32 \<Rightarrow> Typ \<Rightarrow> bytes" where
  "tagUvarint colID typ =
     EncodeNonsortingUvarint [] (push_bit 4 (ucast colID) OR (if typ < 15 then typ else 15))"

section \<open>Seven-bit groups\<close>

lemma msb_set [simp]: "\<not> (y OR 0x80 :: byte) < 0x80" "\<not> (0x80 OR y :: byte) < 0x80"
  using le_word_or1 [of "0x80 :: byte" y] by (simp_all add: not_less or.commute)

lemma low7: "y AND 0x7f = take_bit 7 (y :: byte)"
  by (simp add: take_bit_eq_mask mask_eq_exp_minus_1)

lemma low7_or: "ucast ((y OR 0x80 :: byte) AND 0x7f) = (take_bit 7 (ucast y) :: u64)"
proof -
  have m: "(0x80 :: byte) = push_bit 7 1" by simp
  show ?thesis unfolding low7 m by (rule bit_word_eqI) (auto simp only: bit_simps; simp)
qed

lemma low7_and: "ucast ((0x7f AND y :: byte) AND 0x7f) = (take_bit 7 (ucast y) :: u64)"
  unfolding low7 and.commute [of "0x7f" y] by (rule bit_word_eqI) (auto simp: bit_simps)

lemma take7_byte: "take_bit 7 (ucast (ucast (x :: u64) :: byte)) = take_bit 7 x"
  by (rule bit_word_eqI) (auto simp: bit_simps)

lemma group_less: "(0x7f AND y :: byte) < 0x80"
proof -
  have "unat (take_bit 7 y) = take_bit 7 (unat y)" by (rule unsigned_take_bit_eq)
  then show ?thesis
    using take_bit_nat_less_exp [of 7 "unat y"]
    unfolding and.commute [of "0x7f" y] low7 word_less_nat_alt by simp
qed

lemma small_byte: "x < 0x80 \<Longrightarrow> (ucast (x :: u64) :: byte) < 0x80 \<and> ucast (ucast x :: byte) = x"
  by (simp add: word_less_nat_alt word_unat_eq_iff unat_ucast_byte unat_ucast_up)

section \<open>binary.Varint\<close>

lemma split7: "push_bit s (take_bit 7 y) OR push_bit (s + 7) (drop_bit 7 y) = push_bit s (y :: u64)"
proof -
  have "take_bit 7 y OR push_bit 7 (drop_bit 7 y) = y"
    by (rule bit_word_eqI) (auto simp: bit_simps, metis le_add_diff_inverse not_less)
  then show ?thesis by (metis push_bit_or push_bit_push_bit)
qed

lemma pow7: "(2::nat) ^ (k + 7) = 2 ^ k * 128"
  by (simp add: power_add)

lemma UvarintLoop_PutUvarint:
  assumes "i \<le> 9" "unat y < 2 ^ (64 - 7 * i)"
  shows "UvarintLoop (PutUvarint y @ r) i (7 * i) x =
    (x OR push_bit (7 * i) y, int i + int (length (PutUvarint y)))"
  using assms
proof (induction y arbitrary: i x rule: PutUvarint.induct)
  case (1 y)
  show ?case
  proof (cases "y \<ge> 0x80")
    case True
    have "i \<le> 8"
    proof (rule ccontr)
      assume "\<not> i \<le> 8"
      with 1 have "i = 9" by simp
      with 1 True show False by (simp add: word_le_nat_alt)
    qed
    have "64 - 7 * i = 64 - 7 * (i + 1) + 7" using \<open>i \<le> 8\<close> by simp
    then have "(2::nat) ^ (64 - 7 * i) = 2 ^ (64 - 7 * (i + 1)) * 128" by (metis pow7)
    with 1(3) have "unat (drop_bit 7 y) < 2 ^ (64 - 7 * (i + 1))"
      by (simp add: unat_shift div_less_iff_less_mult)
    then have "UvarintLoop (PutUvarint (drop_bit 7 y) @ r) (i + 1) (7 * (i + 1)) (x OR push_bit (7 * i) (take_bit 7 y)) =
      ((x OR push_bit (7 * i) (take_bit 7 y)) OR push_bit (7 * (i + 1)) (drop_bit 7 y),
        int (i + 1) + int (length (PutUvarint (drop_bit 7 y))))"
      using \<open>i \<le> 8\<close> by (intro 1(1) [OF True]) auto
    then show ?thesis using True split7 [of "7 * i" y]
      by (simp add: PutUvarint.simps [of y] low7_or take7_byte or.assoc add.commute)
  next
    case False
    then have "y < 0x80" by simp
    moreover have "(ucast y :: byte) \<le> 1" if "i = 9"
    proof -
      have "unat y < 2" using 1(3) that by simp
      then show ?thesis by (simp add: word_le_nat_alt unsigned_ucast_eq take_bit_nat_eq_self)
    qed
    ultimately show ?thesis using False small_byte [of y] 1(2)
      by (simp add: PutUvarint.simps [of y] not_less)
  qed
qed

lemma length_PutUvarint: "unat y < 2 ^ (7 * n) \<Longrightarrow> 0 < n \<Longrightarrow> length (PutUvarint y) \<le> n"
proof (induction n arbitrary: y)
  case (Suc n)
  show ?case
  proof (cases "y \<ge> 0x80")
    case True
    have "n > 0"
    proof (rule ccontr)
      assume "\<not> n > 0"
      with Suc.prems True show False by (simp add: word_le_nat_alt)
    qed
    have "(2::nat) ^ (7 * Suc n) = 2 ^ (7 * n) * 128" using pow7 [of "7 * n"] by (simp add: add.commute)
    with Suc.prems have "unat (drop_bit 7 y) < 2 ^ (7 * n)"
      by (simp add: unat_shift div_less_iff_less_mult)
    with Suc.IH \<open>n > 0\<close> True show ?thesis by (simp add: PutUvarint.simps [of y])
  qed (simp add: PutUvarint.simps [of y])
qed simp

lemma PutUvarint_nonempty: "PutUvarint y \<noteq> []"
  by (subst PutUvarint.simps) simp

lemma Uvarint_roundtrip:
  "UvarintLoop (PutUvarint y @ r) 0 0 0 = (y, int (length (PutUvarint y)))"
  using UvarintLoop_PutUvarint [of 0 y r 0] unsigned_less [of y, where ?'a = nat] by simp

lemma sless_0_iff: "x <s 0 \<longleftrightarrow> bit x 63" for x :: i64
  using uint_nonnegative [of x] uint_lt2p [of x] by (simp add: word_sless_alt sint_eq)

lemma bit_shift_up: "bit (push_bit 1 x) (Suc n) \<longleftrightarrow> Suc n < 64 \<and> bit x n" for x :: u64
  unfolding bit_push_bit_iff by (auto dest: bit_imp_le_length)

lemma zigzag_neg: "bit x 63 \<Longrightarrow> NOT (drop_bit 1 (NOT (push_bit 1 x))) = (x :: i64)"
proof (rule bit_word_eqI)
  fix n
  assume "bit x 63" "n < LENGTH(64)"
  moreover have "bit (NOT (drop_bit 1 (NOT (push_bit 1 x)))) n \<longleftrightarrow>
      n < 64 \<and> \<not> (Suc n < 64 \<and> \<not> bit (push_bit 1 x) (Suc n))"
    by (simp only: bit_not_iff bit_drop_bit_eq o_apply) (simp del: push_bit_Suc push_bit_of_Suc_0)
  ultimately show "bit (NOT (drop_bit 1 (NOT (push_bit 1 x)))) n = bit x n"
    by (cases "n = 63") (simp_all only: bit_shift_up, simp_all)
qed

lemma zigzag_pos: "\<not> bit x 63 \<Longrightarrow> drop_bit 1 (push_bit 1 x) = (x :: i64)"
proof (rule bit_word_eqI)
  fix n
  assume "\<not> bit x 63" "n < LENGTH(64)"
  moreover have "bit (drop_bit 1 (push_bit 1 x)) n = bit (push_bit 1 x) (Suc n)"
    by (simp only: bit_drop_bit_eq o_apply) simp
  ultimately show "bit (drop_bit 1 (push_bit 1 x)) n = bit x n"
    by (cases "n = 63") (simp_all only: bit_shift_up, simp_all)
qed

lemma zigzag_parity: "NOT (push_bit 1 x) AND 1 \<noteq> (0 :: i64)" "push_bit 1 x AND 1 = (0 :: i64)"
  by (simp_all add: and_one_eq mod_2_eq_odd bit_simps flip: bit_0)

lemma Varint_roundtrip: "Varint (PutVarint x @ r) = (x, int (length (PutVarint x)))"
proof (cases "bit x 63")
  case True
  then show ?thesis
    unfolding Varint_def PutVarint_def Let_def sless_0_iff Uvarint_roundtrip
    using zigzag_parity [of x] by (simp only: if_True prod.case zigzag_neg not_False_eq_True)
next
  case False
  then show ?thesis
    unfolding Varint_def PutVarint_def Let_def sless_0_iff Uvarint_roundtrip
    using zigzag_parity [of x] by (simp only: if_False prod.case zigzag_pos simp_thms)
qed

section \<open>Nonsorting uvarint\<close>

lemma groups_numeral:
  "groups (numeral k) x = (0x80 OR ucast (drop_bit (7 * numeral k) x)) # groups (pred_numeral k) x"
  by (simp add: numeral_eq_Suc)

lemma group_len_le: "group_len x \<le> 9"
  by (simp add: group_len_def)

lemma group_len_bound: "unat x < 2 ^ (7 * (group_len x + 1))"
  using unsigned_less [of x, where ?'a = nat] by (simp add: group_len_def word_less_nat_alt)

lemma EncodeNonsortingUvarint_groups:
  "EncodeNonsortingUvarint b x = b @ groups (group_len x) x"
proof -
  have small: "0x7f AND ucast x = (ucast x :: byte)" if "x < 0x80"
  proof -
    have "take_bit 7 (ucast x :: byte) = ucast x"
      using small_byte [OF that] by (intro take_bit_small) (simp add: word_less_nat_alt)
    then show ?thesis unfolding and.commute [of "0x7f"] low7 .
  qed
  then show ?thesis
    by (simp add: EncodeNonsortingUvarint_def group_len_def groups_numeral)
qed

lemma length_groups [simp]: "length (groups n x) = n + 1"
  by (induction n) auto

lemma take_split: "push_bit m (take_bit k (drop_bit m x)) + take_bit m x = take_bit (m + k) (x :: u64)"
proof -
  have "push_bit m (take_bit k (drop_bit m x)) AND take_bit m x = 0"
    by (rule bit_word_eqI) (auto simp: bit_simps)
  then have "push_bit m (take_bit k (drop_bit m x)) + take_bit m x =
      push_bit m (take_bit k (drop_bit m x)) OR take_bit m x"
    by (rule disjunctive_add_eq_or)
  also have "\<dots> = take_bit (m + k) x"
  proof (rule bit_word_eqI)
    fix n assume "n < LENGTH(64)"
    then show "bit (push_bit m (take_bit k (drop_bit m x)) OR take_bit m x) n = bit (take_bit (m + k) x) n"
      by (cases "n < m") (auto simp: bit_simps)
  qed
  finally show ?thesis .
qed

lemma DecodeLoop_groups:
  assumes "buf = pre @ groups n x @ r" "length pre = i"
  shows "DecodeNonsortingUvarintLoop buf (groups n x @ r) i v =
     (r, int (i + n + 1), push_bit (7 * (n + 1)) v + take_bit (7 * (n + 1)) x)"
  using assms
proof (induction n arbitrary: pre i v)
  case 0
  then show ?case using group_less by (simp add: low7_and take7_byte)
next
  case (Suc n)
  have step: "ucast ((0x80 OR ucast (drop_bit (7 * Suc n) x) :: byte) AND 0x7f) =
      take_bit 7 (drop_bit (7 * Suc n) x)"
    unfolding or.commute [of "0x80"] low7_or take7_byte ..
  have "DecodeNonsortingUvarintLoop buf (groups n x @ r) (i + 1) (push_bit 7 v + take_bit 7 (drop_bit (7 * Suc n) x)) =
    (r, int (i + 1 + n + 1), push_bit (7 * (n + 1)) (push_bit 7 v + take_bit 7 (drop_bit (7 * Suc n) x)) + take_bit (7 * (n + 1)) x)"
    by (rule Suc.IH [of "pre @ [0x80 OR ucast (drop_bit (7 * Suc n) x)]"]) (use Suc.prems in simp_all)
  moreover have "push_bit (7 * (n + 1)) (push_bit 7 v + take_bit 7 (drop_bit (7 * Suc n) x)) + take_bit (7 * (n + 1)) x
     = push_bit (7 * (n + 2)) v + take_bit (7 * (n + 2)) x"
    using take_split [of "7 * (n + 1)" 7 x] by (simp add: push_bit_add add.assoc add.commute)
  ultimately show ?case using step by (simp add: Let_def)
qed

lemma DecodeNonsortingUvarint_roundtrip:
  "DecodeNonsortingUvarint (EncodeNonsortingUvarint [] x @ r) =
     (r, int (length (EncodeNonsortingUvarint [] x)), x)"
proof -
  let ?n = "group_len x"
  have "take_bit (7 * (?n + 1)) x = x"
    by (rule take_bit_small [OF group_len_bound])
  then show ?thesis
    using DecodeLoop_groups [of "groups ?n x @ r" "[]" ?n x r 0 0]
    by (simp add: DecodeNonsortingUvarint_def EncodeNonsortingUvarint_groups)
qed

section \<open>Tags\<close>

lemma nonsorting_append: "EncodeNonsortingUvarint b x = b @ EncodeNonsortingUvarint [] x"
  by (simp add: EncodeNonsortingUvarint_groups)

lemma nonsorting_nonempty: "EncodeNonsortingUvarint [] x \<noteq> []"
  by (simp add: EncodeNonsortingUvarint_groups) (metis length_groups length_0_conv add_is_0 one_neq_zero)

lemma encodeValueTag_append: "encodeValueTag b colID typ = b @ encodeValueTag [] colID typ"
  unfolding encodeValueTag_def
  by (simp add: nonsorting_append [of b] nonsorting_append [of "b @ _"] nonsorting_append [of "EncodeNonsortingUvarint _ _"])

text \<open>The packed tag: four type bits below the column id.\<close>

lemma tag_unpack:
  fixes colID :: u32 and t :: u64
  assumes "t < 16"
  shows "ucast (drop_bit 4 (push_bit 4 (ucast colID) OR t)) = colID"
    and "(push_bit 4 (ucast colID) OR t) AND 0xf = t"
proof -
  have hi: "\<not> bit t n" if "4 \<le> n" for n
  proof -
    have "take_bit 4 t = t" using assms by (intro take_bit_small) (simp add: word_less_nat_alt)
    then show ?thesis using that by (metis bit_take_bit_iff not_less)
  qed
  show "ucast (drop_bit 4 (push_bit 4 (ucast colID) OR t)) = colID"
    by (rule bit_word_eqI) (auto simp: bit_simps hi)
  have m: "x AND 0xf = take_bit 4 x" for x :: u64 by (simp add: take_bit_eq_mask mask_eq_exp_minus_1)
  show "(push_bit 4 (ucast colID) OR t) AND 0xf = t"
    unfolding m by (rule bit_word_eqI) (auto simp: bit_simps hi not_less intro: ccontr)
qed

lemma sentinel_cases:
  assumes "0 \<le>s typ"
  shows "\<not> SentinelType \<le>s typ \<longleftrightarrow> typ < 15"
proof -
  have "\<not> typ <s 0" using assms by simp
  then have "sint typ = uint typ" by (rule sint_nonneg)
  then show ?thesis by (simp add: SentinelType_def word_sle_eq word_less_def not_le)
qed

lemma encodeValueTag_small:
  assumes "typ < 15"
  shows "encodeValueTag [] colID typ = EncodeNonsortingUvarint [] (push_bit 4 (ucast colID) OR typ)"
proof -
  have u: "uint typ < 15" using assms by (simp add: word_less_def)
  then have "\<not> bit typ 63" by (simp add: bit63_iff)
  then have "\<not> SentinelType \<le>s typ"
    using u by (simp add: word_sle_eq sint_eq SentinelType_def)
  moreover have "typ < push_bit 7 1" using u by (simp add: word_less_def)
  ultimately show ?thesis
    by (simp add: encodeValueTag_def NoColumnID_def EncodeNonsortingUvarint_def)
qed

lemma DecodeValueTag_roundtrip:
  assumes "0 \<le>s typ"
  shows "DecodeValueTag (encodeValueTag [] colID typ @ r) =
     Ok (int (length (tagUvarint colID typ)) - 1, int (length (encodeValueTag [] colID typ)), colID, typ)"
proof (cases "typ < 15")
  case True
  then have "typ < 16" "typ \<noteq> 15" by (auto simp: word_less_nat_alt)
  with True show ?thesis
    by (simp add: DecodeValueTag_def encodeValueTag_small tagUvarint_def nonsorting_nonempty
        DecodeNonsortingUvarint_roundtrip tag_unpack SentinelType_def del: drop_bit_or)
next
  case False
  then have "SentinelType \<le>s typ" using sentinel_cases [OF assms] by simp
  then have enc: "encodeValueTag [] colID typ = tagUvarint colID typ @ EncodeNonsortingUvarint [] typ"
    using False by (simp add: encodeValueTag_def tagUvarint_def SentinelType_def
        nonsorting_append [of "EncodeNonsortingUvarint [] _"])
  have "DecodeNonsortingUvarint (encodeValueTag [] colID typ @ r) =
      (EncodeNonsortingUvarint [] typ @ r, int (length (tagUvarint colID typ)), push_bit 4 (ucast colID) OR 15)"
    using False DecodeNonsortingUvarint_roundtrip [of "push_bit 4 (ucast colID) OR 15"]
    by (simp add: enc tagUvarint_def)
  moreover have "encodeValueTag [] colID typ @ r \<noteq> []"
    by (simp add: enc nonsorting_nonempty)
  ultimately show ?thesis
    by (simp add: DecodeValueTag_def DecodeNonsortingUvarint_roundtrip tag_unpack SentinelType_def enc
        del: drop_bit_or)
qed

section \<open>Values\<close>

lemma Typ_tag:
  assumes "typ \<in> {Typ_Null, Typ_Int, Typ_Float, Typ_Bytes, Typ_True, Typ_False}"
  shows "DecodeValueTag (encodeValueTag [] colID typ @ r) =
    Ok (int (length (encodeValueTag [] colID typ)) - 1, int (length (encodeValueTag [] colID typ)), colID, typ)"
proof -
  have "typ < 15" "0 \<le>s typ" using assms by (auto simp: Typ_defs word_sle_eq)
  then show ?thesis
    using DecodeValueTag_roundtrip [of "typ" colID r] by (simp add: tagUvarint_def encodeValueTag_small)
qed

lemma decodeValueTypeAssert_tag:
  assumes "typ \<in> {Typ_Null, Typ_Int, Typ_Float, Typ_Bytes, Typ_True, Typ_False}"
  shows "decodeValueTypeAssert (encodeValueTag [] colID typ @ r) typ = Ok r"
  using Typ_tag [OF assms] by (simp add: decodeValueTypeAssert_def)

lemma DecodeNonsortingVarint_roundtrip:
  "DecodeNonsortingVarint (EncodeNonsortingVarint [] x @ r) =
     Ok (r, int (length (EncodeNonsortingVarint [] x)), x)"
proof -
  have "PutVarint x \<noteq> []" by (simp add: PutVarint_def PutUvarint_nonempty Let_def)
  then show ?thesis
    by (simp add: DecodeNonsortingVarint_def EncodeNonsortingVarint_def Varint_roundtrip)
qed

lemma value_append:
  "EncodeNullValue b colID = b @ EncodeNullValue [] colID"
  "EncodeBoolValue b colID x = b @ EncodeBoolValue [] colID x"
  "EncodeIntValue b colID i = b @ EncodeIntValue [] colID i"
  "EncodeFloatValue b colID f = b @ EncodeFloatValue [] colID f"
  "EncodeBytesValue b colID d = b @ EncodeBytesValue [] colID d"
  unfolding EncodeNullValue_def EncodeBoolValue_def EncodeIntValue_def EncodeFloatValue_def
    EncodeBytesValue_def EncodeNonsortingVarint_def EncodeUint64Ascending_be
  by (simp_all add: encodeValueTag_append [of b] nonsorting_append [of "b @ _"]
      nonsorting_append [of "encodeValueTag [] _ _"])

lemma DecodeIntValue_roundtrip: "DecodeIntValue (EncodeIntValue [] colID i @ r) = Ok (r, i)"
  using DecodeNonsortingVarint_roundtrip [of i r]
  by (simp add: DecodeIntValue_def EncodeIntValue_def EncodeNonsortingVarint_def decodeValueTypeAssert_tag)

lemma DecodeBoolValue_roundtrip: "DecodeBoolValue (EncodeBoolValue [] colID x @ r) = Ok (r, x)"
  by (cases x) (simp_all add: DecodeBoolValue_def EncodeBoolValue_def Typ_tag Typ_defs)

lemma DecodeFloatValue_roundtrip: "DecodeFloatValue (EncodeFloatValue [] colID f @ r) = Ok (r, f)"
  by (simp add: DecodeFloatValue_def EncodeFloatValue_def EncodeUint64Ascending_be
      decodeValueTypeAssert_tag DecodeUint64Ascending_roundtrip)

lemma sint_of_length: "length d < 2 ^ 63 \<Longrightarrow> sint (of_nat (length d) :: u64) = int (length d)"
proof -
  assume "length d < 2 ^ 63"
  then have "uint (of_nat (length d) :: u64) = int (length d)"
    by (simp add: unsigned_of_nat take_bit_nat_eq_self uint_nat)
  with \<open>length d < 2 ^ 63\<close> show ?thesis by (simp add: sint_eq bit63_iff)
qed

lemma DecodeBytesValue_roundtrip:
  assumes "length d < 2 ^ 63"
  shows "DecodeBytesValue (EncodeBytesValue [] colID d @ r) = Ok (r, d)"
proof -
  have "sint (of_nat (length d) :: u64) = int (length d)" by (rule sint_of_length [OF assms])
  then show ?thesis
    using DecodeNonsortingUvarint_roundtrip [of "of_nat (length d)" "d @ r"]
    by (simp add: DecodeBytesValue_def EncodeBytesValue_def decodeValueTypeAssert_tag
        nonsorting_append [of "encodeValueTag _ _ _"])
qed

interpretation int_value: codec "\<lambda>b. EncodeIntValue b colID" DecodeIntValue "\<lambda>_. True" for colID
  by unfold_locales (auto intro: value_append DecodeIntValue_roundtrip)

interpretation bool_value: codec "\<lambda>b. EncodeBoolValue b colID" DecodeBoolValue "\<lambda>_. True" for colID
  by unfold_locales (auto intro: value_append DecodeBoolValue_roundtrip)

interpretation float_value: codec "\<lambda>b. EncodeFloatValue b colID" DecodeFloatValue "\<lambda>_. True" for colID
  by unfold_locales (auto intro: value_append DecodeFloatValue_roundtrip)

interpretation bytes_value: codec "\<lambda>b. EncodeBytesValue b colID" DecodeBytesValue
  "\<lambda>d. length d < 2 ^ 63" for colID
  by unfold_locales (auto intro: value_append DecodeBytesValue_roundtrip simp del: power_numeral)


section \<open>Lengths\<close>

lemma length_PutVarint: "length (PutVarint x) \<le> 10"
proof -
  have "length (PutUvarint y) \<le> 10" for y
    using unsigned_less [of y, where ?'a = nat] by (intro length_PutUvarint) auto
  then show ?thesis by (simp only: PutVarint_def Let_def)
qed

lemma length_nonsorting_63: "x < 0x8000000000000000 \<Longrightarrow> length (EncodeNonsortingUvarint [] x) \<le> 9"
  by (simp add: EncodeNonsortingUvarint_groups group_len_def)

lemma wrap64_small: "0 \<le> k \<Longrightarrow> k < 2 ^ 63 \<Longrightarrow> wrap64 k = k"
  unfolding wrap64_def signed_of_int by (simp add: signed_take_bit_int_eq_self)

lemma PeekValueLength_null:
  "PeekValueLength (EncodeNullValue [] colID @ r) =
     Ok (int (length (encodeValueTag [] colID Typ_Null)) - 1, int (length (EncodeNullValue [] colID)))"
  "PeekValueLength (EncodeBoolValue [] colID x @ r) =
     Ok (int (length (EncodeBoolValue [] colID x)) - 1, int (length (EncodeBoolValue [] colID x)))"
proof -
  have ne: "encodeValueTag [] colID ty \<noteq> []" if "ty < 15" for ty
    using that by (simp add: encodeValueTag_small nonsorting_nonempty)
  show "PeekValueLength (EncodeNullValue [] colID @ r) =
     Ok (int (length (encodeValueTag [] colID Typ_Null)) - 1, int (length (EncodeNullValue [] colID)))"
    using ne [of Typ_Null] by (simp add: PeekValueLength_def EncodeNullValue_def Typ_tag Typ_defs)
  show "PeekValueLength (EncodeBoolValue [] colID x @ r) =
     Ok (int (length (EncodeBoolValue [] colID x)) - 1, int (length (EncodeBoolValue [] colID x)))"
    using ne [of Typ_True] ne [of Typ_False]
    by (cases x) (simp_all add: PeekValueLength_def EncodeBoolValue_def Typ_tag Typ_defs)
qed

lemma PeekValueLength_int:
  "PeekValueLength (EncodeIntValue [] colID i @ r) =
     Ok (int (length (encodeValueTag [] colID Typ_Int)) - 1, int (length (EncodeIntValue [] colID i)))"
proof -
  have "encodeValueTag [] colID Typ_Int \<noteq> []"
    by (simp add: encodeValueTag_small nonsorting_nonempty Typ_Int_def)
  then show ?thesis
    using DecodeNonsortingVarint_roundtrip [of i r] Typ_tag [of Typ_Int colID "PutVarint i @ r"]
    by (simp add: PeekValueLength_def EncodeIntValue_def EncodeNonsortingVarint_def Typ_defs)
qed

lemma PeekValueLength_float:
  "PeekValueLength (EncodeFloatValue [] colID f @ r) =
     Ok (int (length (encodeValueTag [] colID Typ_Float)) - 1, int (length (EncodeFloatValue [] colID f)))"
proof -
  have "encodeValueTag [] colID Typ_Float \<noteq> []"
    by (simp add: encodeValueTag_small nonsorting_nonempty Typ_Float_def)
  then show ?thesis
    using Typ_tag [of Typ_Float colID "be_bytes 8 f @ r"]
    by (simp add: PeekValueLength_def EncodeFloatValue_def EncodeUint64Ascending_be Typ_defs
        uint64AscendingEncodedLength_def)
qed

lemma tag_length: "typ < 15 \<Longrightarrow> length (encodeValueTag [] colID typ) \<le> 10"
  using group_len_le by (simp add: encodeValueTag_small EncodeNonsortingUvarint_groups)

lemma PeekValueLength_bytes:
  assumes "length d < 2 ^ 62"
  shows "PeekValueLength (EncodeBytesValue [] colID d @ r) =
     Ok (int (length (encodeValueTag [] colID Typ_Bytes)) - 1, int (length (EncodeBytesValue [] colID d)))"
proof -
  let ?t = "encodeValueTag [] colID Typ_Bytes" and ?l = "EncodeNonsortingUvarint [] (of_nat (length d) :: u64)"
  have "?t \<noteq> []" by (simp add: encodeValueTag_small nonsorting_nonempty Typ_Bytes_def)
  have "length ?t \<le> 10" by (rule tag_length) (simp add: Typ_Bytes_def)
  moreover have "length ?l \<le> 10" using group_len_le by (simp add: EncodeNonsortingUvarint_groups)
  ultimately have "wrap64 (int (length ?t) + int (length ?l) + int (length d)) =
      int (length ?t) + int (length ?l) + int (length d)"
    using assms by (intro wrap64_small) auto
  then show ?thesis
    using DecodeNonsortingUvarint_roundtrip [of "of_nat (length d)" "d @ r"] assms \<open>?t \<noteq> []\<close>
      Typ_tag [of Typ_Bytes colID "?l @ d @ r"]
    by (simp add: PeekValueLength_def EncodeBytesValue_def Typ_defs sint_of_length
        nonsorting_append [of "encodeValueTag _ _ _"])
qed

section \<open>Properties\<close>

text \<open>
  Round trip of column values.  An encoded null-free value, with any column id and any bytes
  after it, decodes to itself and those bytes: integers, booleans, the bits of floats, and byte
  strings whose length fits an int.
\<close>

theorem value_roundtrip:
  "DecodeIntValue (EncodeIntValue [] colID i @ r) = Ok (r, i) \<and>
   DecodeBoolValue (EncodeBoolValue [] colID x @ r) = Ok (r, x) \<and>
   DecodeFloatValue (EncodeFloatValue [] colID f @ r) = Ok (r, f) \<and>
   (length d < 2 ^ 63 \<longrightarrow> DecodeBytesValue (EncodeBytesValue [] colID d @ r) = Ok (r, d))"
  by (simp add: DecodeIntValue_roundtrip DecodeBoolValue_roundtrip DecodeFloatValue_roundtrip
      DecodeBytesValue_roundtrip)

theorem value_roundtrip_witness:
  "DecodeBytesValue (EncodeBytesValue [] 3 [1, 2] @ [9]) = Ok ([9], [1, 2])"
  using value_roundtrip [of 3 0 "[9]" True 0 "[1, 2]"] by simp

text \<open>
  Value tags.  DecodeValueTag returns the column id and the type that encodeValueTag was
  given, for every type that is not negative, also those beyond the sentinel, and the offset
  where the data begins is the length of the tag.
\<close>

theorem value_tag_roundtrip:
  assumes "0 \<le>s t"
  shows "DecodeValueTag (encodeValueTag [] colID t @ r) =
    Ok (int (length (tagUvarint colID t)) - 1, int (length (encodeValueTag [] colID t)), colID, t)"
  using assms by (rule DecodeValueTag_roundtrip)

theorem value_tag_roundtrip_witness:
  "DecodeValueTag (encodeValueTag [] 5 20 @ []) =
    Ok (int (length (tagUvarint 5 20)) - 1, int (length (encodeValueTag [] 5 20)), 5, 20)"
  by (rule value_tag_roundtrip) (simp add: word_sle_eq)

text \<open>
  PeekValueLength returns the length of the value at the front of the buffer, tag included,
  for nulls, booleans, integers, floats and byte strings.
\<close>

theorem PeekValueLength_agrees:
  assumes "length d < 2 ^ 62"
    and "enc \<in> {EncodeNullValue [] colID, EncodeBoolValue [] colID x, EncodeIntValue [] colID i,
      EncodeFloatValue [] colID f, EncodeBytesValue [] colID d}"
  shows "\<exists>typeOffset. PeekValueLength (enc @ r) = Ok (typeOffset, int (length enc))"
  using assms
  by (auto simp: PeekValueLength_null PeekValueLength_int PeekValueLength_float PeekValueLength_bytes)

theorem PeekValueLength_agrees_witness:
  "\<exists>typeOffset. PeekValueLength (EncodeBytesValue [] 1 [4, 5] @ [6]) =
     Ok (typeOffset, int (length (EncodeBytesValue [] 1 [4, 5])))"
  using PeekValueLength_agrees [of "[4, 5]" "EncodeBytesValue [] 1 [4, 5]" 1 True 0 0 "[6]"] by simp

text \<open>
  The upper bound is too small.  For the integer type UpperBoundValueEncodingSize allows nine
  bytes after the tag, and the least integer takes ten.
\<close>

theorem UpperBound_int_exceeded:
  "UpperBoundValueEncodingSize 0 Typ_Int 0 = Ok (10, True) \<and>
   length (EncodeIntValue [] 0 0x8000000000000000) = 11"
  by code_simp

end
