(* ===== verification/Mem_Tree.thy ===== *)
theory Mem_Tree
  imports Prelude
begin

text \<open>
  The ordered trees the in-memory stores are built on: \<^verbatim>\<open>github.com/google/btree\<close>,
  \<^verbatim>\<open>github.com/petar/GoLLRB/llrb\<close> and \<^verbatim>\<open>github.com/heidawei/gotrie/trie\<close>.  They are not part
  of the repository, so they are parameters: a record of the operations the code calls
  (\<open>tree_ops\<close> for what all three have, extended by each library's iteration functions), and
  locales that state their documented behaviour over the sorted list of items of a tree.
  An iteration function is given by the list of items it hands to its callback, in order; the
  callback's right to stop is modelled where the code passes one (\<open>visit\<close> in \<open>Mem_Scan\<close>).  A sorted association list
  is a model of all three contracts.
\<close>

section \<open>Operations\<close>

text \<open>
  \<^verbatim>\<open>ReplaceOrInsert\<close> and \<^verbatim>\<open>Delete\<close> return the item that was there before.  The values are
  \<^verbatim>\<open>interface{}\<close> values; a component that distinguishes a nil value uses an option type for them.
\<close>

record ('t, 'v) tree_ops =
  tr_New :: 't
  tr_ReplaceOrInsert :: "'t \<Rightarrow> bytes \<Rightarrow> 'v \<Rightarrow> 't \<times> 'v option"
  tr_Delete :: "'t \<Rightarrow> bytes \<Rightarrow> 't \<times> 'v option"
  tr_Get :: "'t \<Rightarrow> bytes \<Rightarrow> 'v option"

text \<open>A pivot: a key, or a limit below or above every key.\<close>

datatype pivot = NegInf | At bytes | PosInf

text \<open>\<open>key_less k p\<close>: the key is below the pivot; \<open>less_key p k\<close>: the pivot is below the key.\<close>

fun key_less :: "bytes \<Rightarrow> pivot \<Rightarrow> bool" where
  "key_less k NegInf = False"
| "key_less k (At p) = (k < p)"
| "key_less k PosInf = True"

fun less_key :: "pivot \<Rightarrow> bytes \<Rightarrow> bool" where
  "less_key NegInf k = True"
| "less_key (At p) k = (p < k)"
| "less_key PosInf k = False"

record ('t, 'v) btree_ops = "('t, 'v) tree_ops" +
  bt_AscendRange :: "'t \<Rightarrow> pivot \<Rightarrow> pivot \<Rightarrow> (bytes \<times> 'v) list"
  bt_AscendLessThan :: "'t \<Rightarrow> pivot \<Rightarrow> (bytes \<times> 'v) list"
  bt_AscendGreaterOrEqual :: "'t \<Rightarrow> pivot \<Rightarrow> (bytes \<times> 'v) list"
  bt_Ascend :: "'t \<Rightarrow> (bytes \<times> 'v) list"
  bt_DescendRange :: "'t \<Rightarrow> pivot \<Rightarrow> pivot \<Rightarrow> (bytes \<times> 'v) list"
  bt_DescendLessOrEqual :: "'t \<Rightarrow> pivot \<Rightarrow> (bytes \<times> 'v) list"
  bt_DescendGreaterThan :: "'t \<Rightarrow> pivot \<Rightarrow> (bytes \<times> 'v) list"
  bt_Descend :: "'t \<Rightarrow> (bytes \<times> 'v) list"

record ('t, 'v) llrb_ops = "('t, 'v) tree_ops" +
  ll_AscendRange :: "'t \<Rightarrow> pivot \<Rightarrow> pivot \<Rightarrow> (bytes \<times> 'v) list"
  ll_AscendGreaterOrEqual :: "'t \<Rightarrow> pivot \<Rightarrow> (bytes \<times> 'v) list"
  ll_DescendLessOrEqual :: "'t \<Rightarrow> pivot \<Rightarrow> (bytes \<times> 'v) list"

record ('t, 'v) trie_ops = "('t, 'v) tree_ops" +
  tri_PrefixSearch :: "'t \<Rightarrow> bytes \<Rightarrow> (bytes \<times> 'v) list"

section \<open>Contracts\<close>

abbreviation sorted_keys :: "(bytes \<times> 'v) list \<Rightarrow> bool" where
  "sorted_keys xs \<equiv> sorted_wrt (<) (map fst xs)"

locale mem_tree =
  fixes ops :: "('t, 'v, 'z) tree_ops_scheme"
    and inv :: "'t \<Rightarrow> bool"
    and items :: "'t \<Rightarrow> (bytes \<times> 'v) list"
  assumes New: "inv (tr_New ops)" "items (tr_New ops) = []"
    and items_sorted: "inv t \<Longrightarrow> sorted_keys (items t)"
    and Replace_inv: "inv t \<Longrightarrow> inv (fst (tr_ReplaceOrInsert ops t k v))"
    and Replace_items:
      "inv t \<Longrightarrow> map_of (items (fst (tr_ReplaceOrInsert ops t k v))) = (map_of (items t))(k \<mapsto> v)"
    and Replace_prev: "inv t \<Longrightarrow> snd (tr_ReplaceOrInsert ops t k v) = map_of (items t) k"
    and Delete_inv: "inv t \<Longrightarrow> inv (fst (tr_Delete ops t k))"
    and Delete_items:
      "inv t \<Longrightarrow> map_of (items (fst (tr_Delete ops t k))) = (map_of (items t))(k := None)"
    and Delete_prev: "inv t \<Longrightarrow> snd (tr_Delete ops t k) = map_of (items t) k"
    and Get: "inv t \<Longrightarrow> tr_Get ops t k = map_of (items t) k"

locale btree_lib = mem_tree ops inv items
  for ops :: "('t, 'v) btree_ops" and inv and items +
  assumes bt_AscendRange: "inv t \<Longrightarrow>
      bt_AscendRange ops t a b = filter (\<lambda>(k, _). \<not> key_less k a \<and> key_less k b) (items t)"
    and bt_AscendLessThan: "inv t \<Longrightarrow>
      bt_AscendLessThan ops t a = filter (\<lambda>(k, _). key_less k a) (items t)"
    and bt_AscendGreaterOrEqual: "inv t \<Longrightarrow>
      bt_AscendGreaterOrEqual ops t a = filter (\<lambda>(k, _). \<not> key_less k a) (items t)"
    and bt_Ascend: "inv t \<Longrightarrow> bt_Ascend ops t = items t"
    and bt_DescendRange: "inv t \<Longrightarrow>
      bt_DescendRange ops t a b = rev (filter (\<lambda>(k, _). \<not> less_key a k \<and> less_key b k) (items t))"
    and bt_DescendLessOrEqual: "inv t \<Longrightarrow>
      bt_DescendLessOrEqual ops t a = rev (filter (\<lambda>(k, _). \<not> less_key a k) (items t))"
    and bt_DescendGreaterThan: "inv t \<Longrightarrow>
      bt_DescendGreaterThan ops t a = rev (filter (\<lambda>(k, _). less_key a k) (items t))"
    and bt_Descend: "inv t \<Longrightarrow> bt_Descend ops t = rev (items t)"

locale llrb_lib = mem_tree ops inv items
  for ops :: "('t, 'v) llrb_ops" and inv and items +
  assumes ll_AscendRange: "inv t \<Longrightarrow>
      ll_AscendRange ops t a b = filter (\<lambda>(k, _). \<not> key_less k a \<and> key_less k b) (items t)"
    and ll_AscendGreaterOrEqual: "inv t \<Longrightarrow>
      ll_AscendGreaterOrEqual ops t a = filter (\<lambda>(k, _). \<not> key_less k a) (items t)"
    and ll_DescendLessOrEqual: "inv t \<Longrightarrow>
      ll_DescendLessOrEqual ops t a = rev (filter (\<lambda>(k, _). \<not> less_key a k) (items t))"

locale trie_lib = mem_tree ops inv items
  for ops :: "('t, 'v) trie_ops" and inv and items +
  assumes tri_PrefixSearch: "inv t \<Longrightarrow>
      tri_PrefixSearch ops t p = filter (\<lambda>(k, _). take (length p) k = p) (items t)"

section \<open>Sorted lists of items\<close>

lemma sorted_keys_distinct: "sorted_keys xs \<Longrightarrow> distinct (map fst xs)"
  by (induction xs) auto

section \<open>A sorted association list keeps the contracts\<close>

fun al_upd :: "bytes \<Rightarrow> 'v \<Rightarrow> (bytes \<times> 'v) list \<Rightarrow> (bytes \<times> 'v) list" where
  "al_upd k v [] = [(k, v)]"
| "al_upd k v ((a, b) # xs) =
     (if k < a then (k, v) # (a, b) # xs else if k = a then (k, v) # xs else (a, b) # al_upd k v xs)"

definition al_del :: "bytes \<Rightarrow> (bytes \<times> 'v) list \<Rightarrow> (bytes \<times> 'v) list" where
  "al_del k xs = filter (\<lambda>(a, _). a \<noteq> k) xs"

lemma set_al_upd: "fst ` set (al_upd k v xs) = insert k (fst ` set xs)"
  by (induction k v xs rule: al_upd.induct) auto

lemma al_upd_sorted: "sorted_keys xs \<Longrightarrow> sorted_keys (al_upd k v xs)"
proof (induction k v xs rule: al_upd.induct)
  case (2 k v a b xs)
  then show ?case using set_al_upd [of k v xs] by (auto simp del: al_upd.simps(1))
qed simp

lemma al_upd_map_of: "map_of (al_upd k v xs) = (map_of xs)(k \<mapsto> v)"
  by (induction k v xs rule: al_upd.induct) (auto simp: fun_upd_twist)

lemma al_del_sorted: "sorted_keys xs \<Longrightarrow> sorted_keys (al_del k xs)"
  by (induction xs) (auto simp: al_del_def)

lemma al_del_map_of: "map_of (al_del k xs) = (map_of xs)(k := None)"
  by (induction xs) (auto simp: al_del_def)

definition al_btree :: "((bytes \<times> 'v) list, 'v) btree_ops" where
  "al_btree = \<lparr>tr_New = [], tr_ReplaceOrInsert = (\<lambda>t k v. (al_upd k v t, map_of t k)),
     tr_Delete = (\<lambda>t k. (al_del k t, map_of t k)), tr_Get = map_of,
     bt_AscendRange = (\<lambda>t a b. filter (\<lambda>(k, _). \<not> key_less k a \<and> key_less k b) t),
     bt_AscendLessThan = (\<lambda>t a. filter (\<lambda>(k, _). key_less k a) t),
     bt_AscendGreaterOrEqual = (\<lambda>t a. filter (\<lambda>(k, _). \<not> key_less k a) t),
     bt_Ascend = (\<lambda>t. t),
     bt_DescendRange = (\<lambda>t a b. rev (filter (\<lambda>(k, _). \<not> less_key a k \<and> less_key b k) t)),
     bt_DescendLessOrEqual = (\<lambda>t a. rev (filter (\<lambda>(k, _). \<not> less_key a k) t)),
     bt_DescendGreaterThan = (\<lambda>t a. rev (filter (\<lambda>(k, _). less_key a k) t)),
     bt_Descend = rev\<rparr>"

definition al_llrb :: "((bytes \<times> 'v) list, 'v) llrb_ops" where
  "al_llrb = \<lparr>tr_New = [], tr_ReplaceOrInsert = (\<lambda>t k v. (al_upd k v t, map_of t k)),
     tr_Delete = (\<lambda>t k. (al_del k t, map_of t k)), tr_Get = map_of,
     ll_AscendRange = (\<lambda>t a b. filter (\<lambda>(k, _). \<not> key_less k a \<and> key_less k b) t),
     ll_AscendGreaterOrEqual = (\<lambda>t a. filter (\<lambda>(k, _). \<not> key_less k a) t),
     ll_DescendLessOrEqual = (\<lambda>t a. rev (filter (\<lambda>(k, _). \<not> less_key a k) t))\<rparr>"

definition al_trie :: "((bytes \<times> 'v) list, 'v) trie_ops" where
  "al_trie = \<lparr>tr_New = [], tr_ReplaceOrInsert = (\<lambda>t k v. (al_upd k v t, map_of t k)),
     tr_Delete = (\<lambda>t k. (al_del k t, map_of t k)), tr_Get = map_of,
     tri_PrefixSearch = (\<lambda>t p. filter (\<lambda>(k, _). take (length p) k = p) t)\<rparr>"

interpretation al_bt: btree_lib al_btree "\<lambda>t. sorted_keys t" "\<lambda>t. t"
  by unfold_locales (auto simp: al_btree_def al_upd_sorted al_upd_map_of al_del_sorted al_del_map_of)

interpretation al_ll: llrb_lib al_llrb "\<lambda>t. sorted_keys t" "\<lambda>t. t"
  by unfold_locales (auto simp: al_llrb_def al_upd_sorted al_upd_map_of al_del_sorted al_del_map_of)

interpretation al_tr: trie_lib al_trie "\<lambda>t. sorted_keys t" "\<lambda>t. t"
  by unfold_locales (auto simp: al_trie_def al_upd_sorted al_upd_map_of al_del_sorted al_del_map_of)

end
