(* ===== verification/Mem_Tx.thy ===== *)
theory Mem_Tx
  imports Mem_Tree "HOL-Library.AList" "HOL-Library.Multiset"
begin

text \<open>
  The transactions of the in-memory databases
  (\<^verbatim>\<open>engine/kernel/store/memstore/llrbdb/llrb.go\<close>; \<^verbatim>\<open>btreedb\<close> and \<^verbatim>\<open>triedb\<close> repeat them):
  the database with its read/write lock, the transaction with its rollback log, and
  \<^verbatim>\<open>Begin\<close>, \<^verbatim>\<open>Commit\<close>, \<^verbatim>\<open>Rollback\<close>, \<^verbatim>\<open>Set\<close>, \<^verbatim>\<open>Get\<close>, \<^verbatim>\<open>Delete\<close>, \<^verbatim>\<open>View\<close>, \<^verbatim>\<open>Update\<close> and
  \<^verbatim>\<open>Close\<close>.  The operations work on a pair of the database and the transaction.  \<open>Panic\<close> is a
  nil dereference, an explicit \<^verbatim>\<open>panic\<close> or the unlock of a lock that is not held; an
  operation that has to wait for the lock returns \<open>None\<close>.
  The lemmas relate the operations to the map of keys to values a tree stands for, for every
  tree library that keeps the contract \<open>mem_tree\<close>.
\<close>

section \<open>Data\<close>

datatype mem_error = ErrTxNotWritable | ErrTxClosed | ErrNotFound | ErrInvalid
  | ErrInvalidConfig | ErrDatabaseClosed | ErrTxIterating | ErrMsg string

text \<open>A value is an \<^verbatim>\<open>interface{}\<close>: \<open>None\<close> is nil.\<close>

type_synonym 'v iface = "'v option"

record 'v dbItem =
  item_key :: bytes
  item_value :: "'v iface"

text \<open>
  \<^verbatim>\<open>rollbackItems\<close> is a Go map, kept as an association list with distinct keys: Go does not
  say in which order \<^verbatim>\<open>range\<close> visits it, so the functions that do take the order as an argument.
\<close>

record ('t, 'v) txWriteContext =
  rbKeys :: "'t option"
  rollbackItems :: "(bytes \<times> 'v dbItem option) list"
  iterCount :: int

text \<open>\<open>tx_open\<close> is \<^verbatim>\<open>tx.db != nil\<close>.\<close>

record ('t, 'v) Tx =
  tx_open :: bool
  tx_writable :: bool
  tx_funcd :: bool
  tx_wc :: "('t, 'v) txWriteContext option"

record rwmutex =
  mu_readers :: nat
  mu_writer :: bool

record 't DB =
  db_mu :: rwmutex
  db_keys :: "'t option"
  db_closed :: bool

type_synonym ('t, 'v) tx_state = "'t DB \<times> ('t, 'v) Tx"

section \<open>The lock\<close>

definition mu_free :: rwmutex where
  "mu_free = \<lparr>mu_readers = 0, mu_writer = False\<rparr>"

text \<open>\<^verbatim>\<open>sync.RWMutex\<close>: \<open>None\<close> from \<open>Lock\<close> and \<open>RLock\<close> means the call waits, from the unlocks a fatal error.\<close>

definition Lock :: "rwmutex \<Rightarrow> rwmutex option" where
  "Lock m = (if mu_writer m \<or> 0 < mu_readers m then None else Some (m\<lparr>mu_writer := True\<rparr>))"

definition RLock :: "rwmutex \<Rightarrow> rwmutex option" where
  "RLock m = (if mu_writer m then None else Some (m\<lparr>mu_readers := mu_readers m + 1\<rparr>))"

definition Unlock :: "rwmutex \<Rightarrow> rwmutex option" where
  "Unlock m = (if mu_writer m then Some (m\<lparr>mu_writer := False\<rparr>) else None)"

definition RUnlock :: "rwmutex \<Rightarrow> rwmutex option" where
  "RUnlock m = (if 0 < mu_readers m then Some (m\<lparr>mu_readers := mu_readers m - 1\<rparr>) else None)"

definition Tx_lock :: "bool \<Rightarrow> 't DB \<Rightarrow> 't DB option" where
  "Tx_lock writable db =
     map_option (\<lambda>m. db\<lparr>db_mu := m\<rparr>) (if writable then Lock (db_mu db) else RLock (db_mu db))"

definition Tx_unlock :: "bool \<Rightarrow> 't DB \<Rightarrow> 't DB option" where
  "Tx_unlock writable db =
     map_option (\<lambda>m. db\<lparr>db_mu := m\<rparr>) (if writable then Unlock (db_mu db) else RUnlock (db_mu db))"

section \<open>The database\<close>

definition NewDB :: "('t, 'v iface, 'z) tree_ops_scheme \<Rightarrow> (mem_error, 't DB) result" where
  "NewDB ops = Ok \<lparr>db_mu = mu_free, db_keys = Some (tr_New ops), db_closed = False\<rparr>"

definition DB_Close :: "'t DB \<Rightarrow> ('t DB \<times> (mem_error, unit) result) option" where
  "DB_Close db = (case Lock (db_mu db) of
       None \<Rightarrow> None
     | Some m \<Rightarrow> (case Unlock m of
         None \<Rightarrow> Some (db\<lparr>db_mu := m\<rparr>, Panic)
       | Some m' \<Rightarrow>
           if db_closed db then Some (db\<lparr>db_mu := m'\<rparr>, Err ErrDatabaseClosed)
           else Some (db\<lparr>db_closed := True, db_keys := None, db_mu := m'\<rparr>, Ok ())))"

definition DB_insertIntoDatabase ::
  "('t, 'v iface, 'z) tree_ops_scheme \<Rightarrow> 't DB \<Rightarrow> 'v dbItem \<Rightarrow> ('t DB \<times> 'v dbItem option) option" where
  "DB_insertIntoDatabase ops db item = (case db_keys db of
       None \<Rightarrow> None
     | Some t \<Rightarrow> (case tr_ReplaceOrInsert ops t (item_key item) (item_value item) of (t', prev) \<Rightarrow>
         Some (db\<lparr>db_keys := Some t'\<rparr>,
               map_option (\<lambda>v. \<lparr>item_key = item_key item, item_value = v\<rparr>) prev)))"

definition DB_deleteFromDatabase ::
  "('t, 'v iface, 'z) tree_ops_scheme \<Rightarrow> 't DB \<Rightarrow> bytes \<Rightarrow> ('t DB \<times> 'v dbItem option) option" where
  "DB_deleteFromDatabase ops db key = (case db_keys db of
       None \<Rightarrow> None
     | Some t \<Rightarrow> (case tr_Delete ops t key of (t', prev) \<Rightarrow>
         Some (db\<lparr>db_keys := Some t'\<rparr>,
               map_option (\<lambda>v. \<lparr>item_key = key, item_value = v\<rparr>) prev)))"

definition DB_get ::
  "('t, 'v iface, 'z) tree_ops_scheme \<Rightarrow> 't DB \<Rightarrow> bytes \<Rightarrow> 'v dbItem option option" where
  "DB_get ops db key = (case db_keys db of
       None \<Rightarrow> None
     | Some t \<Rightarrow> Some (map_option (\<lambda>v. \<lparr>item_key = key, item_value = v\<rparr>) (tr_Get ops t key)))"

definition DB_Begin :: "bool \<Rightarrow> 't DB \<Rightarrow> ('t DB \<times> (mem_error, ('t, 'v) Tx) result) option" where
  "DB_Begin writable db = (case Tx_lock writable db of
       None \<Rightarrow> None
     | Some db' \<Rightarrow>
         if db_closed db' then
           (case Tx_unlock writable db' of
              None \<Rightarrow> Some (db', Panic)
            | Some db'' \<Rightarrow> Some (db'', Err ErrDatabaseClosed))
         else Some (db', Ok \<lparr>tx_open = True, tx_writable = writable, tx_funcd = False,
           tx_wc = (if writable then Some \<lparr>rbKeys = None, rollbackItems = [], iterCount = 0\<rparr>
                    else None)\<rparr>))"

section \<open>Ending a transaction\<close>

fun rollback_items ::
  "('t, 'v iface, 'z) tree_ops_scheme \<Rightarrow> (bytes \<times> 'v dbItem option) list \<Rightarrow> 't DB \<Rightarrow> 't DB option" where
  "rollback_items ops [] db = Some db"
| "rollback_items ops ((key, item) # rest) db = (case DB_deleteFromDatabase ops db key of
       None \<Rightarrow> None
     | Some (db1, _) \<Rightarrow> (case item of
         None \<Rightarrow> rollback_items ops rest db1
       | Some it \<Rightarrow> (case DB_insertIntoDatabase ops db1 it of
           None \<Rightarrow> None
         | Some (db2, _) \<Rightarrow> rollback_items ops rest db2)))"

text \<open>The order in which \<^verbatim>\<open>range\<close> visits the entries of a map.\<close>

type_synonym 'v map_order = "(bytes \<times> 'v dbItem option) list \<Rightarrow> (bytes \<times> 'v dbItem option) list"

definition Tx_rollbackInner ::
  "'v map_order \<Rightarrow> ('t, 'v iface, 'z) tree_ops_scheme \<Rightarrow> ('t, 'v) tx_state \<Rightarrow> 't DB option" where
  "Tx_rollbackInner ord ops = (\<lambda>(db, tx). case tx_wc tx of
       None \<Rightarrow> None
     | Some w \<Rightarrow> rollback_items ops (ord (rollbackItems w))
         (case rbKeys w of None \<Rightarrow> db | Some t \<Rightarrow> db\<lparr>db_keys := Some t\<rparr>))"

definition Tx_Commit :: "('t, 'v) tx_state \<Rightarrow> ('t, 'v) tx_state \<times> (mem_error, unit) result" where
  "Tx_Commit = (\<lambda>(db, tx).
     if tx_funcd tx then ((db, tx), Panic)
     else if \<not> tx_open tx then ((db, tx), Err ErrTxClosed)
     else if \<not> tx_writable tx then ((db, tx), Err ErrTxNotWritable)
     else (case Tx_unlock (tx_writable tx) db of
         None \<Rightarrow> ((db, tx), Panic)
       | Some db' \<Rightarrow> ((db', tx\<lparr>tx_open := False\<rparr>), Ok ())))"

definition Tx_Rollback ::
  "'v map_order \<Rightarrow> ('t, 'v iface, 'z) tree_ops_scheme \<Rightarrow> ('t, 'v) tx_state
   \<Rightarrow> ('t, 'v) tx_state \<times> (mem_error, unit) result" where
  "Tx_Rollback ord ops = (\<lambda>(db, tx).
     if tx_funcd tx then ((db, tx), Panic)
     else if \<not> tx_open tx then ((db, tx), Err ErrTxClosed)
     else (case (if tx_writable tx then Tx_rollbackInner ord ops (db, tx) else Some db) of
         None \<Rightarrow> ((db, tx), Panic)
       | Some db1 \<Rightarrow> (case Tx_unlock (tx_writable tx) db1 of
           None \<Rightarrow> ((db1, tx), Panic)
         | Some db2 \<Rightarrow> ((db2, tx\<lparr>tx_open := False\<rparr>), Ok ()))))"

section \<open>Reading and writing\<close>

definition Tx_Set ::
  "('t, 'v iface, 'z) tree_ops_scheme \<Rightarrow> bytes \<Rightarrow> 'v iface \<Rightarrow> ('t, 'v) tx_state
   \<Rightarrow> ('t, 'v) tx_state \<times> (mem_error, 'v iface \<times> bool) result" where
  "Tx_Set ops key value = (\<lambda>(db, tx).
     if \<not> tx_open tx then ((db, tx), Err ErrTxClosed)
     else if \<not> tx_writable tx then ((db, tx), Err ErrTxNotWritable)
     else (case tx_wc tx of
       None \<Rightarrow> ((db, tx), Panic)
     | Some w \<Rightarrow>
         if 0 < iterCount w then ((db, tx), Err ErrTxIterating)
         else (case DB_insertIntoDatabase ops db \<lparr>item_key = key, item_value = value\<rparr> of
           None \<Rightarrow> ((db, tx), Panic)
         | Some (db', prev) \<Rightarrow>
             if rbKeys w = None then
               (case prev of
                  None \<Rightarrow>
                    ((db', tx\<lparr>tx_wc := Some (w\<lparr>rollbackItems :=
                        AList.update key None (rollbackItems w)\<rparr>)\<rparr>), Ok (None, False))
                | Some p \<Rightarrow>
                    ((db', if map_of (rollbackItems w) key = None
                           then tx\<lparr>tx_wc := Some (w\<lparr>rollbackItems :=
                             AList.update key (Some p) (rollbackItems w)\<rparr>)\<rparr>
                           else tx), Ok (item_value p, True)))
             else ((db', tx), Ok (None, False)))))"

definition Tx_Get ::
  "('t, 'v iface, 'z) tree_ops_scheme \<Rightarrow> bytes \<Rightarrow> ('t, 'v) tx_state \<Rightarrow> (mem_error, 'v iface) result" where
  "Tx_Get ops key = (\<lambda>(db, tx).
     if \<not> tx_open tx then Err ErrTxClosed
     else (case DB_get ops db key of
         None \<Rightarrow> Panic
       | Some None \<Rightarrow> Err ErrNotFound
       | Some (Some item) \<Rightarrow> Ok (item_value item)))"

definition Tx_Delete ::
  "('t, 'v iface, 'z) tree_ops_scheme \<Rightarrow> bytes \<Rightarrow> ('t, 'v) tx_state
   \<Rightarrow> ('t, 'v) tx_state \<times> (mem_error, 'v iface) result" where
  "Tx_Delete ops key = (\<lambda>(db, tx).
     if \<not> tx_open tx then ((db, tx), Err ErrTxClosed)
     else if \<not> tx_writable tx then ((db, tx), Err ErrTxNotWritable)
     else (case tx_wc tx of
       None \<Rightarrow> ((db, tx), Panic)
     | Some w \<Rightarrow>
         if 0 < iterCount w then ((db, tx), Err ErrTxIterating)
         else (case DB_deleteFromDatabase ops db key of
           None \<Rightarrow> ((db, tx), Panic)
         | Some (db', None) \<Rightarrow> ((db', tx), Err ErrNotFound)
         | Some (db', Some item) \<Rightarrow>
             ((db', if rbKeys w = None \<and> map_of (rollbackItems w) key = None
                    then tx\<lparr>tx_wc := Some (w\<lparr>rollbackItems :=
                      AList.update key (Some item) (rollbackItems w)\<rparr>)\<rparr>
                    else tx), Ok (item_value item)))))"

section \<open>Managed transactions\<close>

text \<open>
  The two deferred functions run after \<open>fn\<close>, the one that clears \<open>tx_funcd\<close> first; they also run
  when \<open>fn\<close> panics, and then \<^verbatim>\<open>err\<close> is still nil.  What \<open>fn\<close> leaves in the variables of its caller
  is its result, and comes back when the transaction ends well.
\<close>

definition DB_managed ::
  "'v map_order \<Rightarrow> ('t, 'v iface, 'z) tree_ops_scheme \<Rightarrow> bool
   \<Rightarrow> (('t, 'v) tx_state \<Rightarrow> ('t, 'v) tx_state \<times> (mem_error, 'a) result)
   \<Rightarrow> 't DB \<Rightarrow> ('t DB \<times> (mem_error, 'a) result) option" where
  "DB_managed ord ops writable fn db = (case DB_Begin writable db of
       None \<Rightarrow> None
     | Some (db0, Err e) \<Rightarrow> Some (db0, Err e)
     | Some (db0, Panic) \<Rightarrow> Some (db0, Panic)
     | Some (db0, Ok tx0) \<Rightarrow> (case fn (db0, tx0\<lparr>tx_funcd := True\<rparr>) of
         ((db1, tx1), r) \<Rightarrow>
           let st = (db1, tx1\<lparr>tx_funcd := False\<rparr>)
           in (case r of
             Err e \<Rightarrow> (case Tx_Rollback ord ops st of
                 ((db2, _), Panic) \<Rightarrow> Some (db2, Panic)
               | ((db2, _), _) \<Rightarrow> Some (db2, Err e))
           | Ok a \<Rightarrow> (case (if writable then Tx_Commit st else Tx_Rollback ord ops st) of
                 ((db2, _), r2) \<Rightarrow> Some (db2, result_bind r2 (\<lambda>_. Ok a)))
           | Panic \<Rightarrow> (case (if writable then Tx_Commit st else Tx_Rollback ord ops st) of
                 ((db2, _), _) \<Rightarrow> Some (db2, Panic)))))"

definition DB_View ::
  "'v map_order \<Rightarrow> ('t, 'v iface, 'z) tree_ops_scheme
   \<Rightarrow> (('t, 'v) tx_state \<Rightarrow> ('t, 'v) tx_state \<times> (mem_error, 'a) result)
   \<Rightarrow> 't DB \<Rightarrow> ('t DB \<times> (mem_error, 'a) result) option" where
  "DB_View ord ops fn db = DB_managed ord ops False fn db"

definition DB_Update ::
  "'v map_order \<Rightarrow> ('t, 'v iface, 'z) tree_ops_scheme
   \<Rightarrow> (('t, 'v) tx_state \<Rightarrow> ('t, 'v) tx_state \<times> (mem_error, 'a) result)
   \<Rightarrow> 't DB \<Rightarrow> ('t DB \<times> (mem_error, 'a) result) option" where
  "DB_Update ord ops fn db = DB_managed ord ops True fn db"

section \<open>Scripts of writes\<close>

text \<open>
  What a writable transaction does to the database is a sequence of \<open>Set\<close> and \<open>Delete\<close> calls.
  \<open>run_writes\<close> makes the calls of a script; \<open>write_map\<close> is their effect on the map of keys to
  values.  \<open>lost_keys\<close> are the keys a script sets while they are absent although they were there
  when the transaction began, which means that the script deleted them before.
\<close>

datatype 'v mutation = WSet bytes "'v iface" | WDelete bytes

fun run_write ::
  "('t, 'v iface, 'z) tree_ops_scheme \<Rightarrow> 'v mutation \<Rightarrow> ('t, 'v) tx_state \<Rightarrow> ('t, 'v) tx_state" where
  "run_write ops (WSet k v) st = fst (Tx_Set ops k v st)"
| "run_write ops (WDelete k) st = fst (Tx_Delete ops k st)"

definition run_writes ::
  "('t, 'v iface, 'z) tree_ops_scheme \<Rightarrow> 'v mutation list \<Rightarrow> ('t, 'v) tx_state \<Rightarrow> ('t, 'v) tx_state" where
  "run_writes ops ws st = fold (run_write ops) ws st"

fun write_map :: "'v mutation \<Rightarrow> (bytes \<rightharpoonup> 'v iface) \<Rightarrow> (bytes \<rightharpoonup> 'v iface)" where
  "write_map (WSet k v) m = m(k \<mapsto> v)"
| "write_map (WDelete k) m = m(k := None)"

fun lost_step :: "(bytes \<rightharpoonup> 'v iface) \<Rightarrow> (bytes \<rightharpoonup> 'v iface) \<Rightarrow> 'v mutation \<Rightarrow> bytes set" where
  "lost_step m0 m (WSet k v) = (if m k = None \<and> m0 k \<noteq> None then {k} else {})"
| "lost_step m0 m (WDelete k) = {}"

fun lost_keys :: "(bytes \<rightharpoonup> 'v iface) \<Rightarrow> (bytes \<rightharpoonup> 'v iface) \<Rightarrow> 'v mutation list \<Rightarrow> bytes set" where
  "lost_keys m0 m [] = {}"
| "lost_keys m0 m (w # ws) = lost_step m0 m w \<union> lost_keys m0 (write_map w m) ws"

text \<open>A script that sets no key it deleted before loses nothing.\<close>

fun no_set_after_delete :: "bytes set \<Rightarrow> 'v mutation list \<Rightarrow> bool" where
  "no_set_after_delete D [] = True"
| "no_set_after_delete D (WSet k v # ws) = (k \<notin> D \<and> no_set_after_delete D ws)"
| "no_set_after_delete D (WDelete k # ws) = no_set_after_delete (insert k D) ws"

lemma no_set_after_delete_lost:
  assumes "no_set_after_delete D ws" "\<And>k. m k = None \<Longrightarrow> m0 k \<noteq> None \<Longrightarrow> k \<in> D"
  shows "lost_keys m0 m ws = {}"
  using assms
proof (induction D ws arbitrary: m rule: no_set_after_delete.induct)
  case (2 D k v ws)
  have "lost_keys m0 (m(k \<mapsto> v)) ws = {}"
    by (rule "2.IH") (use "2.prems" in \<open>auto split: if_splits\<close>)
  moreover have "m k = None \<Longrightarrow> m0 k = None" using "2.prems"(1) "2.prems"(2) [of k] by fastforce
  ultimately show ?case by (cases "m k") auto
next
  case (3 D k ws)
  have "lost_keys m0 (m(k := None)) ws = {}"
    by (rule "3.IH") (use "3.prems" in \<open>auto split: if_splits\<close>)
  then show ?case by simp
qed simp

lemma lost_keys_subset: "lost_keys m0 m ws \<subseteq> dom m0"
proof (induction ws arbitrary: m)
  case (Cons w ws)
  then show ?case by (cases w) auto
qed simp

section \<open>Rollback logs\<close>

text \<open>Undoing a log: every key of the log gets the value of its entry, whatever the order.\<close>

definition log_ok :: "(bytes \<times> 'v dbItem option) list \<Rightarrow> bool" where
  "log_ok l \<longleftrightarrow> distinct (map fst l) \<and> (\<forall>(k, x) \<in> set l. \<forall>it. x = Some it \<longrightarrow> item_key it = k)"

definition undo :: "(bytes \<times> 'v dbItem option) list \<Rightarrow> (bytes \<rightharpoonup> 'v option) \<Rightarrow> (bytes \<rightharpoonup> 'v option)" where
  "undo l m = (\<lambda>k. case map_of l k of None \<Rightarrow> m k | Some x \<Rightarrow> map_option item_value x)"

lemma log_ok_perm: "mset l = mset l' \<Longrightarrow> log_ok l = log_ok l'"
proof -
  assume l: "mset l = mset l'"
  then have "set l = set l'" by (rule mset_eq_setD)
  moreover have "distinct (map fst l) = distinct (map fst l')"
    by (rule mset_eq_imp_distinct_iff) (simp add: l)
  ultimately show ?thesis by (simp add: log_ok_def)
qed

lemma undo_perm:
  assumes "mset l = mset l'" "log_ok l"
  shows "undo l = undo l'"
proof -
  have "map_of l = map_of l'"
    using assms log_ok_perm [of l l'] mset_eq_setD [of l l'] by (simp add: log_ok_def map_of_inject_set)
  then show ?thesis by (auto simp: undo_def)
qed

lemma undo_Cons: "map_of l k = None \<Longrightarrow> undo ((k, x) # l) m = undo l (m(k := map_option item_value x))"
  by (rule ext) (auto simp: undo_def split: option.split)

lemma undo_update: "undo (AList.update k x l) (m(k := y)) = (undo l m)(k := map_option item_value x)"
  by (rule ext) (simp add: undo_def AList.update_conv' split: option.split)

lemma undo_logged: "map_of l k \<noteq> None \<Longrightarrow> undo l (m(k := y)) = undo l m"
  by (rule ext) (auto simp: undo_def split: option.split)

lemma log_ok_update:
  assumes "log_ok l" "\<And>it. x = Some it \<Longrightarrow> item_key it = k"
  shows "log_ok (AList.update k x l)"
proof -
  have "set (AList.update k x l) \<subseteq> insert (k, x) (set l)"
    by (induction l) auto
  then show ?thesis using assms distinct_update [of l k x] by (fastforce simp: log_ok_def)
qed

text \<open>
  The log of a writable transaction that began on the map \<open>m0\<close>, has made it \<open>m\<close> and has lost
  the keys \<open>L\<close>: an entry holds what the key had at the beginning, except that a lost key has a
  nil entry.
\<close>

definition log_rel ::
  "(bytes \<rightharpoonup> 'v option) \<Rightarrow> bytes set \<Rightarrow> (bytes \<times> 'v dbItem option) list \<Rightarrow> (bytes \<rightharpoonup> 'v option) \<Rightarrow> bool" where
  "log_rel m0 L l m \<longleftrightarrow> log_ok l \<and> L \<subseteq> dom m0 \<and> L \<subseteq> dom (map_of l) \<and>
     undo l m = (\<lambda>k. if k \<in> L then None else m0 k)"

lemma log_rel_empty: "log_rel m0 {} [] m0"
  by (auto simp: log_rel_def log_ok_def undo_def)

lemma log_rel_set_new:
  assumes "log_rel m0 L l m" "m k = None"
  shows "log_rel m0 (L \<union> lost_step m0 m (WSet k v)) (AList.update k None l) (m(k \<mapsto> v))"
  using assms log_ok_update [of l None k]
  by (auto simp: log_rel_def undo_update AList.update_conv')

lemma log_rel_old:
  assumes "log_rel m0 L l m" "m k = Some p" "it = \<lparr>item_key = k, item_value = p\<rparr>"
  shows "log_rel m0 L (if map_of l k = None then AList.update k (Some it) l else l) (m(k := y))"
proof (cases "map_of l k")
  case None
  then have "undo l m k = Some p" using assms(2) by (simp add: undo_def)
  then have "m0 k = Some p \<and> k \<notin> L"
    using assms(1) by (auto simp: log_rel_def split: if_splits)
  then show ?thesis
    using assms None log_ok_update [of l "Some it" k]
    by (auto simp: log_rel_def undo_update AList.update_conv')
next
  case (Some x)
  then show ?thesis using assms by (simp add: log_rel_def undo_logged)
qed

section \<open>The operations over a tree that keeps its contract\<close>

text \<open>The map a database stands for; a database is live when it is open.\<close>

definition db_view :: "('t \<Rightarrow> (bytes \<times> 'v option) list) \<Rightarrow> 't DB \<Rightarrow> bytes \<rightharpoonup> 'v option" where
  "db_view items db = (case db_keys db of None \<Rightarrow> Map.empty | Some t \<Rightarrow> map_of (items t))"

definition db_live :: "('t \<Rightarrow> bool) \<Rightarrow> 't DB \<Rightarrow> bool" where
  "db_live valid db \<longleftrightarrow> (case db_keys db of None \<Rightarrow> False | Some t \<Rightarrow> valid t) \<and> \<not> db_closed db"

locale mem_db = mem_tree ops inv items
  for ops :: "('t, 'v option, 'z) tree_ops_scheme" and inv :: "'t \<Rightarrow> bool"
    and items :: "'t \<Rightarrow> (bytes \<times> 'v option) list"
begin

abbreviation view :: "'t DB \<Rightarrow> bytes \<rightharpoonup> 'v option" where
  "view \<equiv> db_view items"

abbreviation live :: "'t DB \<Rightarrow> bool" where
  "live \<equiv> db_live inv"

lemma liveE:
  assumes "live db"
  obtains t where "db_keys db = Some t" "inv t" "\<not> db_closed db"
  using assms by (auto simp: db_live_def split: option.splits)

lemma live_mu [simp]: "live (db\<lparr>db_mu := m\<rparr>) = live db"
  by (simp add: db_live_def)

lemma view_mu [simp]: "view (db\<lparr>db_mu := m\<rparr>) = view db"
  by (simp add: db_view_def)

lemma insert_ok:
  assumes "live db"
  obtains db' where "DB_insertIntoDatabase ops db it =
      Some (db', map_option (\<lambda>v. \<lparr>item_key = item_key it, item_value = v\<rparr>) (view db (item_key it)))"
    "live db'" "view db' = (view db)(item_key it \<mapsto> item_value it)" "db_mu db' = db_mu db"
proof -
  from assms obtain t where t: "db_keys db = Some t" "inv t" "\<not> db_closed db" by (rule liveE)
  obtain t' p where e: "tr_ReplaceOrInsert ops t (item_key it) (item_value it) = (t', p)" by fastforce
  note laws = Replace_inv [of t "item_key it" "item_value it"] Replace_items [of t "item_key it" "item_value it"] Replace_prev [of t "item_key it" "item_value it"]
  show thesis
    by (rule that [of "db\<lparr>db_keys := Some t'\<rparr>"])
      (use t e laws in \<open>simp_all add: DB_insertIntoDatabase_def db_live_def db_view_def\<close>)
qed

lemma delete_ok:
  assumes "live db"
  obtains db' where "DB_deleteFromDatabase ops db k =
      Some (db', map_option (\<lambda>v. \<lparr>item_key = k, item_value = v\<rparr>) (view db k))"
    "live db'" "view db' = (view db)(k := None)" "db_mu db' = db_mu db"
proof -
  from assms obtain t where t: "db_keys db = Some t" "inv t" "\<not> db_closed db" by (rule liveE)
  obtain t' p where e: "tr_Delete ops t k = (t', p)" by fastforce
  note laws = Delete_inv [of t k] Delete_items [of t k] Delete_prev [of t k]
  show thesis
    by (rule that [of "db\<lparr>db_keys := Some t'\<rparr>"])
      (use t e laws in \<open>simp_all add: DB_deleteFromDatabase_def db_live_def db_view_def\<close>)
qed

lemma get_ok:
  "live db \<Longrightarrow>
   DB_get ops db k = Some (map_option (\<lambda>v. \<lparr>item_key = k, item_value = v\<rparr>) (view db k))"
  by (auto simp: DB_get_def db_view_def Get elim: liveE)

lemma rollback_items_ok:
  assumes "live db" "log_ok l"
  obtains db' where "rollback_items ops l db = Some db'" "live db'" "view db' = undo l (view db)"
    "db_mu db' = db_mu db"
proof -
  have "\<exists>db'. rollback_items ops l db = Some db' \<and> live db' \<and> view db' = undo l (view db)
      \<and> db_mu db' = db_mu db"
    using assms
  proof (induction l arbitrary: db)
    case (Cons e l)
    obtain k x where e: "e = (k, x)" by (cases e)
    have l: "log_ok l" "map_of l k = None" and key: "\<And>it. x = Some it \<Longrightarrow> item_key it = k"
      using Cons.prems(2) by (auto simp: log_ok_def e map_of_eq_None_iff)
    obtain db1 where db1: "DB_deleteFromDatabase ops db k =
        Some (db1, map_option (\<lambda>v. \<lparr>item_key = k, item_value = v\<rparr>) (view db k))"
      "live db1" "view db1 = (view db)(k := None)" "db_mu db1 = db_mu db"
      by (rule delete_ok [OF Cons.prems(1)])
    show ?case
    proof (cases x)
      case None
      obtain db' where "rollback_items ops l db1 = Some db'" "live db'"
        "view db' = undo l (view db1)" "db_mu db' = db_mu db1"
        using Cons.IH [OF db1(2) l(1)] by blast
      then show ?thesis using None db1 l(2) by (simp add: e undo_Cons)
    next
      case (Some it)
      obtain db2 p where db2: "DB_insertIntoDatabase ops db1 it = Some (db2, p)" "live db2"
        "view db2 = (view db1)(item_key it \<mapsto> item_value it)" "db_mu db2 = db_mu db1"
        by (rule insert_ok [OF db1(2), of it]) blast
      obtain db' where "rollback_items ops l db2 = Some db'" "live db'"
        "view db' = undo l (view db2)" "db_mu db' = db_mu db2"
        using Cons.IH [OF db2(2) l(1)] by blast
      then show ?thesis using Some db1 db2 l(2) key by (simp add: e undo_Cons)
    qed
  qed (auto simp: undo_def)
  with that show thesis by blast
qed

text \<open>An open writable transaction, not iterating, whose log fits what it has done since \<open>m0\<close>.\<close>

definition logged :: "(bytes \<rightharpoonup> 'v option) \<Rightarrow> bytes set \<Rightarrow> ('t, 'v) tx_state \<Rightarrow> bool" where
  "logged m0 L = (\<lambda>(db, tx). live db \<and> tx_open tx \<and> tx_writable tx \<and>
     (\<exists>w. tx_wc tx = Some w \<and> rbKeys w = None \<and> iterCount w = 0 \<and>
        log_rel m0 L (rollbackItems w) (view db)))"

lemma loggedE:
  assumes "logged m0 L (db, tx)"
  obtains w where "live db" "tx_open tx" "tx_writable tx" "tx_wc tx = Some w" "rbKeys w = None"
    "iterCount w = 0" "log_rel m0 L (rollbackItems w) (view db)"
  using assms by (auto simp: logged_def)

lemma Tx_Set_logged:
  assumes "logged m0 L (db, tx)"
  obtains db' tx' where
    "Tx_Set ops k v (db, tx) = ((db', tx'), Ok (case view db k of None \<Rightarrow> (None, False) | Some p \<Rightarrow> (p, True)))"
    "logged m0 (L \<union> lost_step m0 (view db) (WSet k v)) (db', tx')"
    "view db' = (view db)(k \<mapsto> v)" "db_mu db' = db_mu db" "tx_funcd tx' = tx_funcd tx"
proof -
  from assms obtain w where w: "live db" "tx_open tx" "tx_writable tx" "tx_wc tx = Some w"
      "rbKeys w = None" "iterCount w = 0" "log_rel m0 L (rollbackItems w) (view db)"
    by (rule loggedE)
  obtain db' where db': "DB_insertIntoDatabase ops db \<lparr>item_key = k, item_value = v\<rparr> =
      Some (db', map_option (\<lambda>v. \<lparr>item_key = k, item_value = v\<rparr>) (view db k))"
    "live db'" "view db' = (view db)(k \<mapsto> v)" "db_mu db' = db_mu db"
    by (rule insert_ok [OF w(1), of "\<lparr>item_key = k, item_value = v\<rparr>"]) auto
  show thesis
  proof (cases "view db k")
    case None
    let ?tx = "tx\<lparr>tx_wc := Some (w\<lparr>rollbackItems := AList.update k None (rollbackItems w)\<rparr>)\<rparr>"
    have "logged m0 (L \<union> lost_step m0 (view db) (WSet k v)) (db', ?tx)"
      unfolding logged_def using w db' log_rel_set_new [OF w(7) None, of v] by simp
    then show thesis using that [of db' ?tx] w db' None by (simp add: Tx_Set_def)
  next
    case (Some p)
    let ?it = "\<lparr>item_key = k, item_value = p\<rparr>"
    let ?tx = "if map_of (rollbackItems w) k = None
      then tx\<lparr>tx_wc := Some (w\<lparr>rollbackItems := AList.update k (Some ?it) (rollbackItems w)\<rparr>)\<rparr> else tx"
    have "logged m0 (L \<union> lost_step m0 (view db) (WSet k v)) (db', ?tx)"
      unfolding logged_def using w db' log_rel_old [OF w(7) Some refl, of "Some v"] Some
      by (auto split: if_splits)
    then show thesis using that [of db' ?tx] w db' Some by (simp add: Tx_Set_def)
  qed
qed

lemma Tx_Delete_logged:
  assumes "logged m0 L (db, tx)"
  obtains db' tx' where
    "Tx_Delete ops k (db, tx) = ((db', tx'), case view db k of None \<Rightarrow> Err ErrNotFound | Some p \<Rightarrow> Ok p)"
    "logged m0 L (db', tx')" "view db' = (view db)(k := None)" "db_mu db' = db_mu db"
    "tx_funcd tx' = tx_funcd tx"
proof -
  from assms obtain w where w: "live db" "tx_open tx" "tx_writable tx" "tx_wc tx = Some w"
      "rbKeys w = None" "iterCount w = 0" "log_rel m0 L (rollbackItems w) (view db)"
    by (rule loggedE)
  obtain db' where db': "DB_deleteFromDatabase ops db k =
      Some (db', map_option (\<lambda>v. \<lparr>item_key = k, item_value = v\<rparr>) (view db k))"
    "live db'" "view db' = (view db)(k := None)" "db_mu db' = db_mu db"
    by (rule delete_ok [OF w(1), of k])
  show thesis
  proof (cases "view db k")
    case None
    then have "view db' = view db" using db'(3) by auto
    then have "logged m0 L (db', tx)" using w db' by (simp add: logged_def)
    then show thesis using that [of db' tx] w db' None by (simp add: Tx_Delete_def)
  next
    case (Some p)
    let ?it = "\<lparr>item_key = k, item_value = p\<rparr>"
    let ?tx = "if map_of (rollbackItems w) k = None
      then tx\<lparr>tx_wc := Some (w\<lparr>rollbackItems := AList.update k (Some ?it) (rollbackItems w)\<rparr>)\<rparr> else tx"
    have "logged m0 L (db', ?tx)"
      unfolding logged_def using w db' log_rel_old [OF w(7) Some refl, of None] Some
      by (auto split: if_splits)
    then show thesis using that [of db' ?tx] w db' Some by (simp add: Tx_Delete_def)
  qed
qed

lemma run_write_logged:
  assumes "logged m0 L (db, tx)"
  obtains db' tx' where "run_write ops w (db, tx) = (db', tx')"
    "logged m0 (L \<union> lost_step m0 (view db) w) (db', tx')" "view db' = write_map w (view db)"
    "db_mu db' = db_mu db" "tx_funcd tx' = tx_funcd tx"
proof (cases w)
  case (WSet k v)
  show thesis by (rule Tx_Set_logged [OF assms, of k v]) (use that WSet in simp)
next
  case (WDelete k)
  show thesis by (rule Tx_Delete_logged [OF assms, of k]) (use that WDelete in simp)
qed

lemma run_writes_logged:
  assumes "logged m0 L (db, tx)"
  obtains db' tx' where "run_writes ops ws (db, tx) = (db', tx')"
    "logged m0 (L \<union> lost_keys m0 (view db) ws) (db', tx')" "view db' = fold write_map ws (view db)"
    "db_mu db' = db_mu db" "tx_funcd tx' = tx_funcd tx"
proof -
  have "\<exists>db' tx'. run_writes ops ws (db, tx) = (db', tx') \<and>
    logged m0 (L \<union> lost_keys m0 (view db) ws) (db', tx') \<and> view db' = fold write_map ws (view db) \<and>
    db_mu db' = db_mu db \<and> tx_funcd tx' = tx_funcd tx"
    using assms
  proof (induction ws arbitrary: L db tx)
    case (Cons w ws)
    obtain db1 tx1 where 1: "run_write ops w (db, tx) = (db1, tx1)"
      "logged m0 (L \<union> lost_step m0 (view db) w) (db1, tx1)" "view db1 = write_map w (view db)"
      "db_mu db1 = db_mu db" "tx_funcd tx1 = tx_funcd tx"
      by (rule run_write_logged [OF Cons.prems])
    show ?case using Cons.IH [OF 1(2)] 1 by (simp add: run_writes_def Un_assoc)
  qed (simp add: run_writes_def)
  with that show thesis by blast
qed

text \<open>Beginning and ending.\<close>

lemma Begin_writable:
  assumes "live db" "db_mu db = mu_free"
  obtains db' tx where "DB_Begin True db = Some (db', Ok tx)" "logged (view db) {} (db', tx)"
    "view db' = view db" "mu_writer (db_mu db')" "mu_readers (db_mu db') = 0" "\<not> tx_funcd tx"
proof -
  from assms(1) have "\<not> db_closed db" by (rule liveE)
  with assms that log_rel_empty [of "view db"] show thesis
    by (simp add: DB_Begin_def Tx_lock_def Lock_def mu_free_def logged_def)
qed

lemma Rollback_logged:
  assumes "logged m0 L (db, tx)" "\<not> tx_funcd tx" "mu_writer (db_mu db)" "\<And>l. mset (ord l) = mset l"
  obtains db' where "Tx_Rollback ord ops (db, tx) = ((db', tx\<lparr>tx_open := False\<rparr>), Ok ())" "live db'"
    "view db' = (\<lambda>k. if k \<in> L then None else m0 k)" "db_mu db' = (db_mu db)\<lparr>mu_writer := False\<rparr>"
proof -
  from assms(1) obtain w where w: "live db" "tx_open tx" "tx_writable tx" "tx_wc tx = Some w"
      "rbKeys w = None" "log_rel m0 L (rollbackItems w) (view db)"
    by (rule loggedE)
  have l: "log_ok (ord (rollbackItems w))" "undo (ord (rollbackItems w)) = undo (rollbackItems w)"
    using w(6) log_ok_perm [OF assms(4) [of "rollbackItems w"]]
      undo_perm [OF assms(4) [of "rollbackItems w"]] by (auto simp: log_rel_def)
  obtain db1 where db1: "rollback_items ops (ord (rollbackItems w)) db = Some db1" "live db1"
      "view db1 = undo (ord (rollbackItems w)) (view db)" "db_mu db1 = db_mu db"
    by (rule rollback_items_ok [OF w(1) l(1)])
  show thesis
    by (rule that [of "db1\<lparr>db_mu := (db_mu db)\<lparr>mu_writer := False\<rparr>\<rparr>"])
      (use assms w l db1 in \<open>simp_all add: Tx_Rollback_def Tx_rollbackInner_def Tx_unlock_def
         Unlock_def log_rel_def\<close>)
qed

lemma Commit_logged:
  assumes "logged m0 L (db, tx)" "\<not> tx_funcd tx" "mu_writer (db_mu db)"
  obtains db' where "Tx_Commit (db, tx) = ((db', tx\<lparr>tx_open := False\<rparr>), Ok ())" "live db'"
    "view db' = view db" "db_mu db' = (db_mu db)\<lparr>mu_writer := False\<rparr>"
  by (rule that [of "db\<lparr>db_mu := (db_mu db)\<lparr>mu_writer := False\<rparr>\<rparr>"])
    (use assms in \<open>auto simp: logged_def Tx_Commit_def Tx_unlock_def Unlock_def\<close>)

text \<open>Managed transactions: the result is the function's; an error rolls back, a panic commits.\<close>

lemma logged_funcd [simp]: "logged m0 L (db, tx\<lparr>tx_funcd := b\<rparr>) = logged m0 L (db, tx)"
  by (simp add: logged_def)

lemma Update_logged:
  assumes "live db" "db_mu db = mu_free" "\<And>l. mset (ord l) = mset l"
    and fn: "\<And>db0 tx0. logged (view db) {} (db0, tx0) \<Longrightarrow> view db0 = view db \<Longrightarrow>
      \<exists>db1 tx1. fn (db0, tx0) = ((db1, tx1), r) \<and> logged (view db) L (db1, tx1) \<and> view db1 = m1 \<and>
        db_mu db1 = db_mu db0"
  obtains db' where "DB_Update ord ops fn db = Some (db', r)" "live db'" "db_mu db' = mu_free"
    "view db' = (case r of Err _ \<Rightarrow> \<lambda>k. if k \<in> L then None else view db k | _ \<Rightarrow> m1)"
proof -
  obtain db0 tx0 where 0: "DB_Begin True db = Some (db0, Ok tx0)" "logged (view db) {} (db0, tx0)"
    "view db0 = view db" "mu_writer (db_mu db0)" "mu_readers (db_mu db0) = 0" "\<not> tx_funcd tx0"
    by (rule Begin_writable [OF assms(1,2)])
  have "logged (view db) {} (db0, tx0\<lparr>tx_funcd := True\<rparr>)" using 0(2) by simp
  from fn [OF this 0(3)] obtain db1 tx1 where 1: "fn (db0, tx0\<lparr>tx_funcd := True\<rparr>) = ((db1, tx1), r)"
    "logged (view db) L (db1, tx1)" "view db1 = m1" "db_mu db1 = db_mu db0" by blast
  let ?tx = "tx1\<lparr>tx_funcd := False\<rparr>"
  have 2: "logged (view db) L (db1, ?tx)" "\<not> tx_funcd ?tx" "mu_writer (db_mu db1)"
    using 0 1 by simp_all
  have mu: "(db_mu db1)\<lparr>mu_writer := False\<rparr> = mu_free" using 0 1 by (simp add: mu_free_def)
  show thesis
  proof (cases r)
    case (Err e)
    obtain db' where "Tx_Rollback ord ops (db1, ?tx) = ((db', ?tx\<lparr>tx_open := False\<rparr>), Ok ())" "live db'"
      "view db' = (\<lambda>k. if k \<in> L then None else view db k)" "db_mu db' = (db_mu db1)\<lparr>mu_writer := False\<rparr>"
      by (rule Rollback_logged [OF 2 assms(3)])
    then show thesis using that [of db'] 0 1 Err mu by (simp add: DB_Update_def DB_managed_def)
  next
    case (Ok a)
    obtain db' where "Tx_Commit (db1, ?tx) = ((db', ?tx\<lparr>tx_open := False\<rparr>), Ok ())" "live db'"
      "view db' = view db1" "db_mu db' = (db_mu db1)\<lparr>mu_writer := False\<rparr>"
      by (rule Commit_logged [OF 2])
    then show thesis using that [of db'] 0 1 Ok mu by (simp add: DB_Update_def DB_managed_def)
  next
    case Panic
    obtain db' where "Tx_Commit (db1, ?tx) = ((db', ?tx\<lparr>tx_open := False\<rparr>), Ok ())" "live db'"
      "view db' = view db1" "db_mu db' = (db_mu db1)\<lparr>mu_writer := False\<rparr>"
      by (rule Commit_logged [OF 2])
    then show thesis using that [of db'] 0 1 Panic mu by (simp add: DB_Update_def DB_managed_def)
  qed
qed

definition reading :: "('t, 'v) Tx" where
  "reading = \<lparr>tx_open = True, tx_writable = False, tx_funcd = False, tx_wc = None\<rparr>"

lemma Begin_reading:
  assumes "live db" "\<not> mu_writer (db_mu db)"
  shows "DB_Begin False db =
    Some (db\<lparr>db_mu := (db_mu db)\<lparr>mu_readers := Suc (mu_readers (db_mu db))\<rparr>\<rparr>, Ok reading)"
proof -
  from assms(1) have "\<not> db_closed db" by (rule liveE)
  with assms show ?thesis by (simp add: DB_Begin_def Tx_lock_def RLock_def reading_def)
qed

lemma Rollback_reading:
  "Tx_Rollback ord ops (db\<lparr>db_mu := (db_mu db)\<lparr>mu_readers := Suc (mu_readers (db_mu db))\<rparr>\<rparr>, reading) =
    ((db, reading\<lparr>tx_open := False\<rparr>), Ok ())"
  by (simp add: Tx_Rollback_def reading_def Tx_unlock_def RUnlock_def)

lemma View_reading:
  assumes "live db" "\<not> mu_writer (db_mu db)"
    and fn: "\<And>db0 tx0. live db0 \<Longrightarrow> view db0 = view db \<Longrightarrow> tx_open tx0 \<Longrightarrow>
      fn (db0, tx0) = ((db0, tx0), r)"
  shows "DB_View ord ops fn db = Some (db, r)"
proof -
  let ?db = "db\<lparr>db_mu := (db_mu db)\<lparr>mu_readers := Suc (mu_readers (db_mu db))\<rparr>\<rparr>"
  have "fn (?db, reading\<lparr>tx_funcd := True\<rparr>) = ((?db, reading\<lparr>tx_funcd := True\<rparr>), r)"
    by (rule fn) (use assms in \<open>simp_all add: reading_def\<close>)
  moreover have "reading\<lparr>tx_funcd := True, tx_funcd := False\<rparr> = reading" by (simp add: reading_def)
  ultimately show ?thesis
    by (cases r) (simp_all add: DB_View_def DB_managed_def Begin_reading [OF assms(1,2)] Rollback_reading)
qed

lemma rollback_exact:
  assumes "live db" "db_mu db = mu_free" "\<forall>l. mset (ord l) = mset l"
    and "DB_Begin True db = Some (db0, Ok tx0)"
    and "Tx_Rollback ord ops (run_writes ops ws (db0, tx0)) = ((db', tx'), r)"
  shows "r = Ok () \<and> db_mu db' = mu_free \<and> \<not> tx_open tx' \<and>
    view db' = (\<lambda>k. if k \<in> lost_keys (view db) (view db) ws then None else view db k)"
proof -
  obtain db1 tx1 where 1: "DB_Begin True db = Some (db1, Ok tx1)" "logged (view db) {} (db1, tx1)"
    "view db1 = view db" "mu_writer (db_mu db1)" "mu_readers (db_mu db1) = 0" "\<not> tx_funcd tx1"
    by (rule Begin_writable [OF assms(1,2)])
  with assms(4) have eq: "db1 = db0" "tx1 = tx0" by simp_all
  obtain db2 tx2 where 2: "run_writes ops ws (db0, tx0) = (db2, tx2)"
    "logged (view db) ({} \<union> lost_keys (view db) (view db0) ws) (db2, tx2)"
    "view db2 = fold write_map ws (view db0)" "db_mu db2 = db_mu db0" "tx_funcd tx2 = tx_funcd tx0"
    by (rule run_writes_logged [OF 1(2) [unfolded eq]])
  obtain db3 where "Tx_Rollback ord ops (db2, tx2) = ((db3, tx2\<lparr>tx_open := False\<rparr>), Ok ())"
    "view db3 = (\<lambda>k. if k \<in> {} \<union> lost_keys (view db) (view db0) ws then None else view db k)"
    "db_mu db3 = (db_mu db2)\<lparr>mu_writer := False\<rparr>"
    by (rule Rollback_logged [OF 2(2), of ord]) (use 1 2 eq assms(3) in simp_all)
  then show ?thesis using assms(5) 1 2 eq by (auto simp: mu_free_def)
qed

text \<open>Updates of a managed transaction that runs a script and then returns \<open>r\<close>.\<close>

lemma update_script:
  assumes "live db" "db_mu db = mu_free" "\<forall>l. mset (ord l) = mset l"
    and "DB_Update ord ops (\<lambda>st. (run_writes ops ws st, r)) db = Some (db', r')"
  shows "r' = r \<and> live db' \<and> db_mu db' = mu_free \<and> view db' = (case r of
      Err _ \<Rightarrow> (\<lambda>k. if k \<in> lost_keys (view db) (view db) ws then None else view db k)
    | _ \<Rightarrow> fold write_map ws (view db))"
proof -
  obtain db1 where "DB_Update ord ops (\<lambda>st. (run_writes ops ws st, r)) db = Some (db1, r)" "live db1"
    "db_mu db1 = mu_free"
    "view db1 = (case r of Err _ \<Rightarrow> \<lambda>k. if k \<in> lost_keys (view db) (view db) ws then None else view db k
      | _ \<Rightarrow> fold write_map ws (view db))"
  proof (rule Update_logged [OF assms(1,2), of ord])
    fix db0 tx0
    assume 0: "logged (view db) {} (db0, tx0)" "view db0 = view db"
    show "\<exists>db1 tx1. (run_writes ops ws (db0, tx0), r) = ((db1, tx1), r) \<and>
        logged (view db) (lost_keys (view db) (view db) ws) (db1, tx1) \<and>
        view db1 = fold write_map ws (view db) \<and> db_mu db1 = db_mu db0"
      by (rule run_writes_logged [OF 0(1), of ws]) (use 0(2) in auto)
  qed (use assms(3) in simp)
  then show ?thesis using assms(4) by simp
qed

end

section \<open>A small database over the reference tree\<close>

interpretation al_db: mem_db "al_llrb :: ((bytes \<times> nat option) list, nat option) llrb_ops"
    "\<lambda>t. sorted_keys t" "\<lambda>t. t"
  by unfold_locales

definition demo_db :: "(bytes \<times> nat option) list DB" where
  "demo_db = \<lparr>db_mu = mu_free, db_keys = Some [([1], Some 10), ([2], Some 20)], db_closed = False\<rparr>"

definition demo_locked :: "(bytes \<times> nat option) list DB" where
  "demo_locked = demo_db\<lparr>db_mu := mu_free\<lparr>mu_writer := True\<rparr>\<rparr>"

definition demo_tx :: "((bytes \<times> nat option) list, nat) Tx" where
  "demo_tx = \<lparr>tx_open = True, tx_writable = True, tx_funcd = False,
     tx_wc = Some \<lparr>rbKeys = None, rollbackItems = [], iterCount = 0\<rparr>\<rparr>"

text \<open>A script that deletes and sets again a key, and one that does not.\<close>

definition demo_script :: "nat mutation list" where
  "demo_script = [WDelete [1], WSet [1] (Some 11), WSet [2] (Some 21), WSet [3] (Some 30)]"

definition demo_script_ok :: "nat mutation list" where
  "demo_script_ok = [WSet [1] (Some 11), WDelete [1], WSet [2] (Some 21), WSet [3] (Some 30)]"

definition demo_rolled ::
  "nat mutation list \<Rightarrow> ((bytes \<times> nat option) list, nat) tx_state \<times> (mem_error, unit) result" where
  "demo_rolled ws = Tx_Rollback rev al_llrb (run_writes al_llrb ws (demo_locked, demo_tx))"

lemma demo_live: "db_live (\<lambda>t. sorted_keys t) demo_db" "db_mu demo_db = mu_free"
  by (simp_all add: db_live_def demo_db_def)

lemma demo_begin: "DB_Begin True demo_db = Some (demo_locked, Ok demo_tx)"
  by code_simp

lemma demo_rolled_eq: "Tx_Rollback rev al_llrb (run_writes al_llrb ws (demo_locked, demo_tx)) =
    ((fst (fst (demo_rolled ws)), snd (fst (demo_rolled ws))), snd (demo_rolled ws))"
  by (simp add: demo_rolled_def)

section \<open>Properties\<close>

text \<open>
  C1: Rollback, exactly.  A transaction that began on a database nobody else uses, made any
  calls of Set and Delete and is rolled back, in whatever order Go visits the rollback map, ends
  without an error, releases the lock and leaves every key as it was, except that a key that was
  there at the beginning and was deleted and then set again is gone.
\<close>

theorem Rollback_exact:
  assumes "mem_db ops valid items" "db_live valid db" "db_mu db = mu_free" "\<forall>l. mset (ord l) = mset l"
    and "DB_Begin True db = Some (db0, Ok tx0)"
    and "Tx_Rollback ord ops (run_writes ops ws (db0, tx0)) = ((db', tx'), r)"
  shows "r = Ok () \<and> db_mu db' = mu_free \<and> \<not> tx_open tx' \<and>
    db_view items db' = (\<lambda>k. if k \<in> lost_keys (db_view items db) (db_view items db) ws then None
                             else db_view items db k)"
  using assms by (rule mem_db.rollback_exact)

theorem Rollback_exact_witness:
  "db_view (\<lambda>t. t) (fst (fst (demo_rolled demo_script))) [2] = Some (Some 20) \<and>
   db_view (\<lambda>t. t) (fst (fst (demo_rolled demo_script))) [1] = None \<and>
   db_view (\<lambda>t. t) demo_db [1] = Some (Some 10)"
  using Rollback_exact [OF al_db.mem_db_axioms demo_live _ demo_begin demo_rolled_eq, of demo_script]
  by (simp add: demo_script_def demo_db_def db_view_def)

text \<open>
  Rollback restores.  When no key is set after the same transaction deleted it, the
  rollback gives back the contents the database had when the transaction began.
\<close>

theorem Rollback_restores:
  assumes "mem_db ops valid items" "db_live valid db" "db_mu db = mu_free" "\<forall>l. mset (ord l) = mset l"
    and "DB_Begin True db = Some (db0, Ok tx0)" "no_set_after_delete {} ws"
    and "Tx_Rollback ord ops (run_writes ops ws (db0, tx0)) = ((db', tx'), r)"
  shows "r = Ok () \<and> db_mu db' = mu_free \<and> db_view items db' = db_view items db"
  using mem_db.rollback_exact [OF assms(1-5,7)]
    no_set_after_delete_lost [OF assms(6), of "db_view items db" "db_view items db"] by simp

theorem Rollback_restores_witness:
  "db_view (\<lambda>t. t) (fst (fst (demo_rolled demo_script_ok))) = db_view (\<lambda>t. t) demo_db"
  using Rollback_restores [OF al_db.mem_db_axioms demo_live _ demo_begin _ demo_rolled_eq, of demo_script_ok]
  by (simp add: demo_script_ok_def)

text \<open>
  Update.  A managed write transaction whose function makes any calls of Set and Delete and
  then returns ends with the function's result and a free lock.  If the function returns without
  an error, or panics, its writes are kept; if it returns an error they are rolled back.
\<close>

theorem Update_outcome:
  assumes "mem_db ops valid items" "db_live valid db" "db_mu db = mu_free" "\<forall>l. mset (ord l) = mset l"
    and "DB_Update ord ops (\<lambda>st. (run_writes ops ws st, r)) db = Some (db', r')"
  shows "r' = r \<and> db_live valid db' \<and> db_mu db' = mu_free \<and> db_view items db' = (case r of
      Err _ \<Rightarrow> (\<lambda>k. if k \<in> lost_keys (db_view items db) (db_view items db) ws then None
                      else db_view items db k)
    | _ \<Rightarrow> fold write_map ws (db_view items db))"
  using assms by (rule mem_db.update_script)

definition demo_panicked :: "(bytes \<times> nat option) list DB \<times> (mem_error, unit) result" where
  "demo_panicked = the (DB_Update rev al_llrb (\<lambda>st. (run_writes al_llrb demo_script st, Panic)) demo_db)"

lemma demo_panicked_eq: "DB_Update rev al_llrb (\<lambda>st. (run_writes al_llrb demo_script st, Panic)) demo_db =
    Some (fst demo_panicked, snd demo_panicked)"
  by code_simp

theorem Update_outcome_witness:
  "snd demo_panicked = Panic \<and> db_view (\<lambda>t. t) (fst demo_panicked) [1] = Some (Some 11)"
  using Update_outcome [OF al_db.mem_db_axioms demo_live _ demo_panicked_eq]
  by (simp add: demo_script_def)

end
