(* ===== verification/Match.thy ===== *)
theory Match
  imports Prelude
begin

text \<open>
  The wildcard patterns of \<^verbatim>\<open>util/match/match.go\<close>, with the parts of Go's \<^verbatim>\<open>unicode/utf8\<close> it calls.
  A rune is a natural number.  The loops are recursive functions; all of them terminate.
  The lemmas are about the patterns the stores build, a literal followed by \<open>*\<close>.
\<close>

section \<open>UTF-8\<close>

definition RuneError :: nat where "RuneError = 0xFFFD"
definition MaxRune :: nat where "MaxRune = 0x10FFFF"

definition cont :: "byte \<Rightarrow> nat" where
  "cont b = unat b mod 64"

text \<open>\<^verbatim>\<open>utf8.DecodeRune\<close>: the rune and its width; a wrong encoding is \<open>(RuneError, 1)\<close>.\<close>

definition in_range :: "byte \<Rightarrow> byte \<Rightarrow> byte \<Rightarrow> bool" where
  "in_range lo b hi \<longleftrightarrow> lo \<le> b \<and> b \<le> hi"

definition DecodeRune2 :: "byte \<Rightarrow> bytes \<Rightarrow> nat \<times> nat" where
  "DecodeRune2 b p = (case p of
       c # _ \<Rightarrow> if in_range 0x80 c 0xBF then (unat b mod 32 * 64 + cont c, 2) else (RuneError, 1)
     | _ \<Rightarrow> (RuneError, 1))"

definition DecodeRune3 :: "byte \<Rightarrow> bytes \<Rightarrow> nat \<times> nat" where
  "DecodeRune3 b p = (case p of
       c # d # _ \<Rightarrow>
         if in_range (if b = 0xE0 then 0xA0 else 0x80) c (if b = 0xED then 0x9F else 0xBF) \<and>
            in_range 0x80 d 0xBF
         then (unat b mod 16 * 4096 + cont c * 64 + cont d, 3) else (RuneError, 1)
     | _ \<Rightarrow> (RuneError, 1))"

definition DecodeRune4 :: "byte \<Rightarrow> bytes \<Rightarrow> nat \<times> nat" where
  "DecodeRune4 b p = (case p of
       c # d # e # _ \<Rightarrow>
         if in_range (if b = 0xF0 then 0x90 else 0x80) c (if b = 0xF4 then 0x8F else 0xBF) \<and>
            in_range 0x80 d 0xBF \<and> in_range 0x80 e 0xBF
         then (unat b mod 8 * 262144 + cont c * 4096 + cont d * 64 + cont e, 4) else (RuneError, 1)
     | _ \<Rightarrow> (RuneError, 1))"

definition DecodeRune :: "bytes \<Rightarrow> nat \<times> nat" where
  "DecodeRune p = (case p of
       [] \<Rightarrow> (RuneError, 0)
     | b # rest \<Rightarrow>
         if b < 0x80 then (unat b, 1)
         else if in_range 0xC2 b 0xDF then DecodeRune2 b rest
         else if in_range 0xE0 b 0xEF then DecodeRune3 b rest
         else if in_range 0xF0 b 0xF4 then DecodeRune4 b rest
         else (RuneError, 1))"

definition RuneStart :: "byte \<Rightarrow> bool" where
  "RuneStart b \<longleftrightarrow> \<not> in_range 0x80 b 0xBF"

text \<open>
  \<^verbatim>\<open>utf8.DecodeLastRune\<close> walks back over at most three bytes before the last one to the first
  byte of a rune; \<open>last_start\<close> is the index it stops at.
\<close>

fun last_start :: "bytes \<Rightarrow> nat \<Rightarrow> nat \<Rightarrow> nat" where
  "last_start p 0 start = start"
| "last_start p (Suc n) start = (if RuneStart (p ! start) then start
     else if start = 0 then 0 else last_start p n (start - 1))"

definition DecodeLastRune :: "bytes \<Rightarrow> nat \<times> nat" where
  "DecodeLastRune p = (if p = [] then (RuneError, 0)
     else if last p < 0x80 then (unat (last p), 1)
     else (let start = (if length p = 1 then 0 else last_start p 3 (length p - 2))
           in (case DecodeRune (drop start p) of (r, n) \<Rightarrow>
             if start + n \<noteq> length p then (RuneError, 1) else (r, n))))"

text \<open>\<^verbatim>\<open>utf8.EncodeRune\<close>: a surrogate or a number beyond the last rune is written as \<open>RuneError\<close>.\<close>

definition byte_of :: "nat \<Rightarrow> byte" where
  "byte_of n = word_of_nat n"

definition EncodeRune :: "nat \<Rightarrow> bytes" where
  "EncodeRune r = (
     if r < 0x80 then [byte_of r]
     else if r < 0x800 then [byte_of (0xC0 + r div 64), byte_of (0x80 + r mod 64)]
     else let r = (if MaxRune < r \<or> (0xD800 \<le> r \<and> r \<le> 0xDFFF) then RuneError else r) in
       if r < 0x10000
       then [byte_of (0xE0 + r div 4096), byte_of (0x80 + r div 64 mod 64), byte_of (0x80 + r mod 64)]
       else [byte_of (0xF0 + r div 262144), byte_of (0x80 + r div 4096 mod 64),
             byte_of (0x80 + r div 64 mod 64), byte_of (0x80 + r mod 64)])"

section \<open>Match\<close>

definition star :: byte where "star = 0x2A"
definition quest :: byte where "quest = 0x3F"

text \<open>The rune read ahead at the front of a string: a byte below \<open>0x80\<close> is its own rune.\<close>

definition read_rune :: "bytes \<Rightarrow> nat \<times> nat" where
  "read_rune s = (case s of
       [] \<Rightarrow> (RuneError, 0)
     | b # _ \<Rightarrow> if 0x7F < b then DecodeRune s else (unat b, 1))"

lemma read_rune_pos: "fst (read_rune s) \<noteq> RuneError \<Longrightarrow> 0 < snd (read_rune s) \<and> s \<noteq> []"
  by (auto simp: read_rune_def DecodeRune_def DecodeRune2_def DecodeRune3_def DecodeRune4_def
      split: list.splits if_splits)

declare conj_cong [fundef_cong]

text \<open>
  The loop compares \<^verbatim>\<open>srsz\<close>, a width, with \<^verbatim>\<open>utf8.RuneError\<close>, and a width is never that number.
\<close>

function deepMatchRune :: "bytes \<Rightarrow> bytes \<Rightarrow> bool" where
  "deepMatchRune str pattern =
     (let (sr, srsz) = read_rune str; (pr, prsz) = read_rune pattern in
      if pr = RuneError then srsz = 0 \<and> prsz = 0
      else if pr = unat star then
        deepMatchRune str (drop prsz pattern) \<or>
        (0 < srsz \<and> deepMatchRune (drop srsz str) pattern)
      else if pr = unat quest then
        srsz \<noteq> RuneError \<and> deepMatchRune (drop srsz str) (drop prsz pattern)
      else srsz \<noteq> RuneError \<and> sr = pr \<and> deepMatchRune (drop srsz str) (drop prsz pattern))"
  by pat_completeness auto

lemma read_rune_nonempty: "0 < snd (read_rune s) \<Longrightarrow> s \<noteq> []"
  by (auto simp: read_rune_def)

lemma drop_rune_less:
  assumes "(r, n) = read_rune s" "0 < n"
  shows "length (drop n s) < length s"
  using assms read_rune_nonempty [of s] by (cases s) (auto simp: read_rune_def)

lemma drop_pattern_less:
  assumes "(r, n) = read_rune s" "r \<noteq> RuneError"
  shows "length (drop n s) < length s"
  using assms drop_rune_less read_rune_pos [of s] by (metis fst_conv snd_conv)

termination deepMatchRune
proof (relation "measure (\<lambda>(s, p). length s + length p)", goal_cases)
  case (2 str pattern x sr srsz y pr prsz)
  then show ?case using drop_pattern_less [of pr prsz pattern] by simp
next
  case (3 str pattern x sr srsz y pr prsz)
  then show ?case using drop_rune_less [of sr srsz str] by simp
next
  case (4 str pattern x sr srsz y pr prsz)
  then show ?case using drop_pattern_less [of pr prsz pattern] by simp
next
  case (5 str pattern x sr srsz y pr prsz)
  then show ?case using drop_pattern_less [of pr prsz pattern] by simp
qed simp

declare deepMatchRune.simps [simp del]

function deepMatch :: "bytes \<Rightarrow> bytes \<Rightarrow> bool" where
  "deepMatch str [] = (str = [])"
| "deepMatch str (p # pattern) =
     (if 0x7F < p then deepMatchRune str (p # pattern)
      else if p = quest then str \<noteq> [] \<and> deepMatch (tl str) pattern
      else if p = star then
        deepMatch str pattern \<or> (str \<noteq> [] \<and> deepMatch (tl str) (p # pattern))
      else (case str of
          [] \<Rightarrow> False
        | c # rest \<Rightarrow>
            if 0x7F < c then deepMatchRune str (p # pattern)
            else c = p \<and> deepMatch rest pattern))"
  by pat_completeness auto

termination deepMatch
  by (relation "measure (\<lambda>(s, p). length s + length p)") auto

declare deepMatch.simps(2) [simp del]

definition Match :: "bytes \<Rightarrow> bytes \<Rightarrow> bool" where
  "Match str pattern = (if pattern = [star] then True else deepMatch str pattern)"

section \<open>Allowable\<close>

definition maxRuneBytes :: bytes where
  "maxRuneBytes = EncodeRune 0x10FFFF"

text \<open>The scan of the pattern: the bounds collected and whether it stopped at a \<open>*\<close>.\<close>

fun allow_scan :: "bytes \<Rightarrow> bytes \<Rightarrow> bytes \<Rightarrow> bytes \<times> bytes \<times> bool" where
  "allow_scan [] minb maxb = (minb, maxb, False)"
| "allow_scan (p # ps) minb maxb =
     (if p = star then (minb, maxb, True)
      else if p = quest then allow_scan ps (minb @ [0]) (maxb @ maxRuneBytes)
      else allow_scan ps (minb @ [p]) (maxb @ [p]))"

definition allow_wild :: "bytes \<Rightarrow> bytes" where
  "allow_wild maxb = (case DecodeLastRune maxb of (r, n) \<Rightarrow>
     if r \<noteq> RuneError \<and> r < MaxRune then
       (if 0x7F < r + 1 then take (length maxb - n) maxb @ EncodeRune (r + 1)
        else take (length maxb - n) maxb @ [byte_of (r + 1)])
     else maxb)"

text \<open>A nil slice is \<open>None\<close>; an empty pattern that is not nil is indexed out of range.\<close>

definition Allowable :: "bytes option \<Rightarrow> (unit, bytes option \<times> bytes option) result" where
  "Allowable pattern = (case pattern of
       None \<Rightarrow> Ok (None, None)
     | Some [] \<Rightarrow> Panic
     | Some (p # ps) \<Rightarrow>
         if p = star then Ok (None, None)
         else (case allow_scan (p # ps) [] [] of (minb, maxb, wild) \<Rightarrow>
           Ok (Some minb, Some (if wild then allow_wild maxb else maxb))))"

section \<open>Literal prefixes\<close>

text \<open>An ASCII byte other than the two wildcards.\<close>

definition literal :: "byte \<Rightarrow> bool" where
  "literal b \<longleftrightarrow> b < 0x80 \<and> b \<noteq> star \<and> b \<noteq> quest"

lemma deepMatch_star: "deepMatch str [star]"
proof (induction str)
  case Nil
  show ?case by (subst deepMatch.simps) (simp add: star_def quest_def)
next
  case (Cons c str)
  then show ?case by (subst deepMatch.simps) (simp add: star_def quest_def)
qed

lemma mod_window: "a * d \<le> n \<Longrightarrow> n < a * d + d \<Longrightarrow> n mod d = n - a * d" for n :: nat
  by (metis add_diff_inverse_nat leD less_diff_conv2 mod_less mod_mult_self3 add.commute)

lemma DecodeRune2_high:
  assumes "in_range 0xC2 b 0xDF"
  shows "0x80 \<le> fst (DecodeRune2 b p)"
proof -
  have "unat b mod 32 = unat b - 6 * 32"
    by (rule mod_window) (use assms in \<open>simp_all add: in_range_def word_le_nat_alt\<close>)
  then have "2 \<le> unat b mod 32" using assms by (auto simp: in_range_def word_le_nat_alt)
  then show ?thesis by (simp add: DecodeRune2_def RuneError_def split: list.split)
qed

lemma DecodeRune3_high:
  assumes "in_range 0xE0 b 0xEF"
  shows "0x80 \<le> fst (DecodeRune3 b p)"
proof -
  have c: "128 \<le> cont c * 64" if "in_range 0xA0 c 0xBF" for c
  proof -
    have "cont c = unat c - 2 * 64" unfolding cont_def
      by (rule mod_window) (use that in \<open>simp_all add: in_range_def word_le_nat_alt\<close>)
    then show ?thesis using that by (auto simp: in_range_def word_le_nat_alt)
  qed
  have "unat b mod 16 = unat b - 14 * 16"
    by (rule mod_window) (use assms in \<open>simp_all add: in_range_def word_le_nat_alt\<close>)
  moreover have "b \<noteq> 0xE0 \<Longrightarrow> unat b \<noteq> 224" by (simp add: word_unat_eq_iff)
  ultimately have "b \<noteq> 0xE0 \<Longrightarrow> 1 \<le> unat b mod 16"
    using assms by (auto simp: in_range_def word_le_nat_alt)
  then show ?thesis
    using c by (auto simp: DecodeRune3_def RuneError_def trans_le_add1 split: list.split)
qed

lemma DecodeRune4_high:
  assumes "in_range 0xF0 b 0xF4"
  shows "0x80 \<le> fst (DecodeRune4 b p)"
proof -
  have c: "128 \<le> cont c * 4096" if "in_range 0x90 c 0xBF" for c
  proof -
    have "cont c = unat c - 2 * 64" unfolding cont_def
      by (rule mod_window) (use that in \<open>simp_all add: in_range_def word_le_nat_alt\<close>)
    then show ?thesis using that by (auto simp: in_range_def word_le_nat_alt)
  qed
  have "unat b mod 8 = unat b - 30 * 8"
    by (rule mod_window) (use assms in \<open>simp_all add: in_range_def word_le_nat_alt\<close>)
  moreover have "b \<noteq> 0xF0 \<Longrightarrow> unat b \<noteq> 240" by (simp add: word_unat_eq_iff)
  ultimately have "b \<noteq> 0xF0 \<Longrightarrow> 1 \<le> unat b mod 8"
    using assms by (auto simp: in_range_def word_le_nat_alt)
  then show ?thesis
    using c by (auto simp: DecodeRune4_def RuneError_def trans_le_add1 split: list.split)
qed

lemma DecodeRune_high:
  assumes "0x7F < c"
  shows "0x80 \<le> fst (DecodeRune (c # rest))"
proof -
  have "\<not> c < 0x80" using assms by (simp add: word_less_nat_alt)
  then show ?thesis
    by (simp add: DecodeRune_def DecodeRune2_high DecodeRune3_high DecodeRune4_high RuneError_def)
qed

text \<open>A literal followed by \<open>*\<close> matches exactly the strings that begin with it.\<close>

lemma deepMatch_prefix:
  assumes "list_all literal p"
  shows "deepMatch str (p @ [star]) \<longleftrightarrow> take (length p) str = p"
  using assms
proof (induction p arbitrary: str)
  case Nil
  then show ?case by (simp add: deepMatch_star)
next
  case (Cons a p)
  then have a: "a < 0x80" "a \<noteq> star" "a \<noteq> quest" by (auto simp: literal_def)
  then have a': "\<not> 0x7F < a" "unat a < 0x80" "unat a \<noteq> unat star" "unat a \<noteq> unat quest"
    by (auto simp: word_less_nat_alt word_unat_eq_iff)
  show ?case
  proof (cases str)
    case Nil
    then show ?thesis using a a' by (simp add: deepMatch.simps)
  next
    case (Cons c rest)
    have "0x7F < c \<Longrightarrow> \<not> deepMatchRune str (a # p @ [star])"
      using DecodeRune_high [of c rest] a a' Cons
      by (subst deepMatchRune.simps) (auto simp: read_rune_def RuneError_def split: prod.splits)
    moreover have "0x7F < c \<Longrightarrow> c \<noteq> a" using a' by auto
    ultimately show ?thesis
      using Cons Cons.IH Cons.prems a a' by (auto simp: deepMatch.simps)
  qed
qed

lemma Match_prefix:
  assumes "list_all literal p"
  shows "Match str (p @ [star]) \<longleftrightarrow> take (length p) str = p"
  using deepMatch_prefix [OF assms] by (cases p) (simp_all add: Match_def)

lemma allow_scan_prefix:
  "list_all literal p \<Longrightarrow> allow_scan (p @ [star]) a b = (a @ p, b @ p, True)"
  by (induction p arbitrary: a b) (auto simp: literal_def)

text \<open>The bounds of such a pattern hold every string that begins with the literal.\<close>

lemma allow_wild_ascii:
  assumes "b < 0x80"
  shows "allow_wild (q @ [b]) = q @ (if b = 0x7F then [0xC2, 0x80] else [b + 1])"
proof (cases "b = 0x7F")
  case True
  then show ?thesis
    by (simp add: allow_wild_def DecodeLastRune_def RuneError_def MaxRune_def EncodeRune_def byte_of_def)
next
  case False
  then have "unat b \<noteq> 127" by (simp add: word_unat_eq_iff)
  with assms have "unat b < 127" by (simp add: word_less_nat_alt)
  moreover have "byte_of (unat b + 1) = b + 1" by (simp add: byte_of_def)
  ultimately show ?thesis
    using assms False by (simp add: allow_wild_def DecodeLastRune_def RuneError_def MaxRune_def)
qed

lemma list_less_append: "a < b \<Longrightarrow> q @ a # x < q @ b # y" for a b :: byte
  by (induction q) auto

lemma le_append: "q \<le> q @ x" for q :: bytes
  by (induction q) auto

lemma Allowable_prefix:
  assumes "list_all literal p" "p \<noteq> []"
  obtains hi where "Allowable (Some (p @ [star])) = Ok (Some p, Some hi)"
    "\<forall>k. take (length p) k = p \<longrightarrow> p \<le> k \<and> k < hi"
proof -
  obtain q b where p: "p = q @ [b]" using assms(2) by (metis append_butlast_last_id)
  then have b: "b < 0x80" "unat b < 0x80" "\<And>c. c \<in> set p \<Longrightarrow> c \<noteq> star"
    using assms(1) by (auto simp: literal_def list_all_iff word_less_nat_alt)
  let ?hi = "q @ (if b = 0x7F then [0xC2, 0x80] else [b + 1])"
  obtain a r where a: "p = a # r" "a \<noteq> star" using assms(2) b(3) by (cases p) auto
  have "Allowable (Some (p @ [star])) = Ok (Some p, Some ?hi)"
    using allow_scan_prefix [OF assms(1), of "[]" "[]"] a allow_wild_ascii [OF b(1), of q] p
    by (simp add: Allowable_def)
  moreover have "p \<le> k \<and> k < ?hi" if "take (length p) k = p" for k
  proof -
    have k: "k = q @ b # drop (length p) k"
      using that p by (metis append.assoc append_Cons append_Nil append_take_drop_id)
    have "b \<noteq> 0x7F \<Longrightarrow> b < b + 1"
      using b by (simp add: word_less_nat_alt unat_word_ariths word_unat_eq_iff)
    moreover have "(0x7F :: byte) < 0xC2" by simp
    ultimately have "k < ?hi" by (subst k) (cases "b = 0x7F"; simp add: list_less_append)
    moreover have "p \<le> k"
      using le_append [of p "drop (length p) k"] k p by simp
    ultimately show ?thesis by simp
  qed
  ultimately show thesis using that by blast
qed

text \<open>A pattern whose first bytes are no rune matches nothing.\<close>

lemma DecodeRune_width: "0 < snd (DecodeRune (b # r))"
  by (simp add: DecodeRune_def DecodeRune2_def DecodeRune3_def DecodeRune4_def split: list.split)

lemma Match_bad_rune:
  assumes "0x7F < b" "fst (DecodeRune (b # ps)) = RuneError"
  shows "\<not> Match str (b # ps)"
proof -
  obtain n where n: "DecodeRune (b # ps) = (RuneError, n)" "0 < n"
    using assms(2) DecodeRune_width [of b ps] by (cases "DecodeRune (b # ps)") auto
  have "\<not> deepMatchRune str (b # ps)"
    by (subst deepMatchRune.simps) (use assms(1) n in \<open>auto simp: read_rune_def split: prod.split\<close>)
  moreover have "b \<noteq> star" using assms(1) by (auto simp: star_def)
  ultimately show ?thesis using assms(1) by (simp add: Match_def deepMatch.simps)
qed

end
