(* ===== verification/Mem_Scan.thy ===== *)
theory Mem_Scan
  imports Mem_Tx Match
begin

text \<open>
  The iterations of the in-memory databases: \<^verbatim>\<open>scan\<close> of \<^verbatim>\<open>llrbdb\<close> and of \<^verbatim>\<open>btreedb\<close>, which call
  different functions of their tree libraries, and the \<^verbatim>\<open>Ascend*\<close> and \<^verbatim>\<open>Descend*\<close> methods over it,
  which the two packages share.  A callback works on a state of its own; it gets the database
  and the transaction it may ask, and says whether the iteration goes on.
  \<open>scanner\<close> is the contract of a scan: it visits exactly the items of a range, in order, and
  leaves the transaction as it was.
\<close>

section \<open>Callbacks\<close>

type_synonym ('t, 'v, 's) IterFunc = "('t, 'v) tx_state \<Rightarrow> bytes \<Rightarrow> 'v iface \<Rightarrow> 's \<Rightarrow> bool \<times> 's"

fun visit :: "(bytes \<Rightarrow> 'w \<Rightarrow> 's \<Rightarrow> bool \<times> 's) \<Rightarrow> (bytes \<times> 'w) list \<Rightarrow> 's \<Rightarrow> 's" where
  "visit f [] s = s"
| "visit f ((k, v) # rest) s = (case f k v s of (go, s') \<Rightarrow> if go then visit f rest s' else s')"

lemma visit_filter:
  "visit (\<lambda>k v s. if P k then f k v s else (True, s)) xs s = visit f (filter (\<lambda>(k, _). P k) xs) s"
  by (induction xs arbitrary: s) (auto split: prod.split)

lemma visit_takeWhile:
  "visit (\<lambda>k v s. if P k then f k v s else (False, s)) xs s = visit f (takeWhile (\<lambda>(k, _). P k) xs) s"
  by (induction f xs s rule: visit.induct) (auto split: prod.split)

lemma visit_until:
  "visit (\<lambda>k v s. if Q k then (False, s) else f k v s) xs s = visit f (takeWhile (\<lambda>(k, _). \<not> Q k) xs) s"
  by (induction f xs s rule: visit.induct) (auto split: prod.split)

text \<open>A callback that never stops sees every item, in order.\<close>

lemma visit_all: "visit (\<lambda>k v s. (True, s @ [(k, v)])) xs s = s @ xs"
  by (induction xs arbitrary: s) auto

text \<open>While a writable transaction iterates its counter is up, which makes \<open>Set\<close> and \<open>Delete\<close> fail.\<close>

definition add_iterCount :: "int \<Rightarrow> ('t, 'v) Tx \<Rightarrow> ('t, 'v) Tx" where
  "add_iterCount d tx = (case tx_wc tx of
       None \<Rightarrow> tx
     | Some w \<Rightarrow> tx\<lparr>tx_wc := Some (w\<lparr>iterCount := iterCount w + d\<rparr>)\<rparr>)"

lemma add_iterCount_back: "add_iterCount (-1) (add_iterCount 1 tx) = tx"
  by (cases tx) (simp add: add_iterCount_def split: option.split)

definition limit_item :: "pivot \<Rightarrow> bytes option \<Rightarrow> pivot" where
  "limit_item lim b = (case b of None \<Rightarrow> lim | Some k \<Rightarrow> At k)"

section \<open>scan of llrbdb\<close>

definition llrb_descendRange ::
  "('t, 'v iface) llrb_ops \<Rightarrow> 't \<Rightarrow> pivot \<Rightarrow> pivot \<Rightarrow> (bytes \<Rightarrow> 'v iface \<Rightarrow> 's \<Rightarrow> bool \<times> 's) \<Rightarrow> 's \<Rightarrow> 's" where
  "llrb_descendRange ops t lessOrEqual gtLimit iterator s = visit
     (\<lambda>k v s. if key_less k gtLimit then (False, s)
              else if \<not> key_less k gtLimit \<and> \<not> less_key gtLimit k then (False, s)
              else iterator k v s)
     (ll_DescendLessOrEqual ops t lessOrEqual) s"

definition llrb_descendGreaterThan ::
  "('t, 'v iface) llrb_ops \<Rightarrow> 't \<Rightarrow> pivot \<Rightarrow> (bytes \<Rightarrow> 'v iface \<Rightarrow> 's \<Rightarrow> bool \<times> 's) \<Rightarrow> 's \<Rightarrow> 's" where
  "llrb_descendGreaterThan ops t gtLimit iterator s = visit
     (\<lambda>k v s. if less_key gtLimit k then iterator k v s else (False, s))
     (ll_DescendLessOrEqual ops t PosInf) s"

definition llrb_descend ::
  "('t, 'v iface) llrb_ops \<Rightarrow> 't \<Rightarrow> (bytes \<Rightarrow> 'v iface \<Rightarrow> 's \<Rightarrow> bool \<times> 's) \<Rightarrow> 's \<Rightarrow> 's" where
  "llrb_descend ops t iterator s = visit iterator (ll_DescendLessOrEqual ops t PosInf) s"

definition llrb_scan ::
  "('t, 'v iface) llrb_ops \<Rightarrow> bool \<Rightarrow> bool \<Rightarrow> bool \<Rightarrow> bytes option \<Rightarrow> bytes option \<Rightarrow> ('t, 'v, 's) IterFunc
   \<Rightarrow> ('t, 'v) tx_state \<Rightarrow> 's \<Rightarrow> ('t, 'v) tx_state \<times> (mem_error, 's) result" where
  "llrb_scan ops desc gt lt start stop iterator = (\<lambda>(db, tx) s.
     if \<not> tx_open tx then ((db, tx), Err ErrTxClosed)
     else (let itemA = limit_item NegInf start; itemB = limit_item PosInf stop;
               tx' = add_iterCount 1 tx; iter = iterator (db, tx')
           in (case db_keys db of
               None \<Rightarrow> ((db, add_iterCount (-1) tx'), Panic)
             | Some tr \<Rightarrow> ((db, add_iterCount (-1) tx'), Ok (
                 if desc then
                   (if gt then
                      (if lt then llrb_descendRange ops tr itemA itemB iter s
                       else llrb_descendGreaterThan ops tr itemA iter s)
                    else if lt then visit iter (ll_DescendLessOrEqual ops tr itemA) s
                    else llrb_descend ops tr iter s)
                 else
                   (if gt then
                      (if lt then visit iter (ll_AscendRange ops tr itemA itemB) s
                       else visit iter (ll_AscendGreaterOrEqual ops tr itemA) s)
                    else if lt then visit iter (ll_AscendRange ops tr NegInf itemA) s
                    else visit iter (ll_AscendGreaterOrEqual ops tr NegInf) s))))))"

section \<open>scan of btreedb\<close>

definition btree_scan ::
  "('t, 'v iface) btree_ops \<Rightarrow> bool \<Rightarrow> bool \<Rightarrow> bool \<Rightarrow> bytes option \<Rightarrow> bytes option \<Rightarrow> ('t, 'v, 's) IterFunc
   \<Rightarrow> ('t, 'v) tx_state \<Rightarrow> 's \<Rightarrow> ('t, 'v) tx_state \<times> (mem_error, 's) result" where
  "btree_scan ops desc gt lt start stop iterator = (\<lambda>(db, tx) s.
     if \<not> tx_open tx then ((db, tx), Err ErrTxClosed)
     else (let itemA = limit_item NegInf start; itemB = limit_item PosInf stop;
               tx' = add_iterCount 1 tx; iter = iterator (db, tx')
           in (case db_keys db of
               None \<Rightarrow> ((db, add_iterCount (-1) tx'), Panic)
             | Some tr \<Rightarrow> ((db, add_iterCount (-1) tx'), Ok (
                 if desc then
                   (if gt then
                      (if lt then visit iter (bt_DescendRange ops tr itemA itemB) s
                       else visit iter (bt_DescendGreaterThan ops tr itemA) s)
                    else if lt then visit iter (bt_DescendLessOrEqual ops tr itemA) s
                    else visit iter (bt_Descend ops tr) s)
                 else
                   (if gt then
                      (if lt then visit iter (bt_AscendRange ops tr itemA itemB) s
                       else visit iter (bt_AscendGreaterOrEqual ops tr itemA) s)
                    else if lt then visit iter (bt_AscendLessThan ops tr itemA) s
                    else visit iter (bt_Ascend ops tr) s))))))"

section \<open>The methods over scan\<close>

type_synonym ('t, 'v, 's) scan_fun =
  "bool \<Rightarrow> bool \<Rightarrow> bool \<Rightarrow> bytes option \<Rightarrow> bytes option \<Rightarrow> ('t, 'v, 's) IterFunc
   \<Rightarrow> ('t, 'v) tx_state \<Rightarrow> 's \<Rightarrow> ('t, 'v) tx_state \<times> (mem_error, 's) result"

definition Tx_Ascend :: "('t, 'v, 's) scan_fun \<Rightarrow> ('t, 'v, 's) IterFunc
    \<Rightarrow> ('t, 'v) tx_state \<Rightarrow> 's \<Rightarrow> ('t, 'v) tx_state \<times> (mem_error, 's) result" where
  "Tx_Ascend scan iterator = scan False False False None None iterator"

definition Tx_AscendGreaterOrEqual :: "('t, 'v, 's) scan_fun \<Rightarrow> bytes option \<Rightarrow> ('t, 'v, 's) IterFunc
    \<Rightarrow> ('t, 'v) tx_state \<Rightarrow> 's \<Rightarrow> ('t, 'v) tx_state \<times> (mem_error, 's) result" where
  "Tx_AscendGreaterOrEqual scan pivot iterator = scan False True False pivot None iterator"

definition Tx_AscendLessThan :: "('t, 'v, 's) scan_fun \<Rightarrow> bytes option \<Rightarrow> ('t, 'v, 's) IterFunc
    \<Rightarrow> ('t, 'v) tx_state \<Rightarrow> 's \<Rightarrow> ('t, 'v) tx_state \<times> (mem_error, 's) result" where
  "Tx_AscendLessThan scan pivot iterator = scan False False True pivot None iterator"

definition Tx_AscendRange :: "('t, 'v, 's) scan_fun \<Rightarrow> bytes option \<Rightarrow> bytes option
    \<Rightarrow> ('t, 'v, 's) IterFunc \<Rightarrow> ('t, 'v) tx_state \<Rightarrow> 's \<Rightarrow> ('t, 'v) tx_state \<times> (mem_error, 's) result" where
  "Tx_AscendRange scan greaterOrEqual ltLimit iterator =
     scan False True True greaterOrEqual ltLimit iterator"

definition Tx_Descend :: "('t, 'v, 's) scan_fun \<Rightarrow> ('t, 'v, 's) IterFunc
    \<Rightarrow> ('t, 'v) tx_state \<Rightarrow> 's \<Rightarrow> ('t, 'v) tx_state \<times> (mem_error, 's) result" where
  "Tx_Descend scan iterator = scan True False False None None iterator"

definition Tx_DescendGreaterThan :: "('t, 'v, 's) scan_fun \<Rightarrow> bytes option \<Rightarrow> ('t, 'v, 's) IterFunc
    \<Rightarrow> ('t, 'v) tx_state \<Rightarrow> 's \<Rightarrow> ('t, 'v) tx_state \<times> (mem_error, 's) result" where
  "Tx_DescendGreaterThan scan pivot iterator = scan True True False pivot None iterator"

definition Tx_DescendLessOrEqual :: "('t, 'v, 's) scan_fun \<Rightarrow> bytes option \<Rightarrow> ('t, 'v, 's) IterFunc
    \<Rightarrow> ('t, 'v) tx_state \<Rightarrow> 's \<Rightarrow> ('t, 'v) tx_state \<times> (mem_error, 's) result" where
  "Tx_DescendLessOrEqual scan pivot iterator = scan True False True pivot None iterator"

definition Tx_DescendRange :: "('t, 'v, 's) scan_fun \<Rightarrow> bytes option \<Rightarrow> bytes option
    \<Rightarrow> ('t, 'v, 's) IterFunc \<Rightarrow> ('t, 'v) tx_state \<Rightarrow> 's \<Rightarrow> ('t, 'v) tx_state \<times> (mem_error, 's) result" where
  "Tx_DescendRange scan lessOrEqual gtLimit iterator =
     scan True True True lessOrEqual gtLimit iterator"

text \<open>\<^verbatim>\<open>bytes.Compare\<close> takes a nil slice for an empty one.\<close>

definition slice :: "bytes option \<Rightarrow> bytes" where
  "slice b = (case b of None \<Rightarrow> [] | Some k \<Rightarrow> k)"

definition Tx_AscendEqual :: "('t, 'v, 's) scan_fun \<Rightarrow> bytes option \<Rightarrow> ('t, 'v, 's) IterFunc
    \<Rightarrow> ('t, 'v) tx_state \<Rightarrow> 's \<Rightarrow> ('t, 'v) tx_state \<times> (mem_error, 's) result" where
  "Tx_AscendEqual scan pivot iterator = Tx_AscendGreaterOrEqual scan pivot
     (\<lambda>st k v s. if k = slice pivot then iterator st k v s else (False, s))"

definition Tx_DescendEqual :: "('t, 'v, 's) scan_fun \<Rightarrow> bytes option \<Rightarrow> ('t, 'v, 's) IterFunc
    \<Rightarrow> ('t, 'v) tx_state \<Rightarrow> 's \<Rightarrow> ('t, 'v) tx_state \<times> (mem_error, 's) result" where
  "Tx_DescendEqual scan pivot iterator = Tx_DescendLessOrEqual scan pivot
     (\<lambda>st k v s. if k = slice pivot then iterator st k v s else (False, s))"

definition Tx_AscendKeys :: "('t, 'v, 's) scan_fun \<Rightarrow> bytes option \<Rightarrow> ('t, 'v, 's) IterFunc
    \<Rightarrow> ('t, 'v) tx_state \<Rightarrow> 's \<Rightarrow> ('t, 'v) tx_state \<times> (mem_error, 's) result" where
  "Tx_AscendKeys scan pattern iterator st s = (case slice pattern of
       [] \<Rightarrow> (st, Ok s)
     | c # _ \<Rightarrow>
         if c = star then
           (if slice pattern = [star] then Tx_Ascend scan iterator st s
            else Tx_Ascend scan
              (\<lambda>st k v s. if Match k (slice pattern) then iterator st k v s else (True, s)) st s)
         else (case Allowable pattern of
             Ok (mn, mx) \<Rightarrow> Tx_AscendGreaterOrEqual scan mn
               (\<lambda>st k v s. if slice mx < k then (False, s)
                  else if Match k (slice pattern) then iterator st k v s else (True, s)) st s
           | _ \<Rightarrow> (st, Panic)))"

text \<open>\<^verbatim>\<open>DescendKeys\<close> tests the pattern for nil only: an empty one is indexed out of range.\<close>

definition Tx_DescendKeys :: "('t, 'v, 's) scan_fun \<Rightarrow> bytes option \<Rightarrow> ('t, 'v, 's) IterFunc
    \<Rightarrow> ('t, 'v) tx_state \<Rightarrow> 's \<Rightarrow> ('t, 'v) tx_state \<times> (mem_error, 's) result" where
  "Tx_DescendKeys scan pattern iterator st s = (case pattern of
       None \<Rightarrow> (st, Ok s)
     | Some [] \<Rightarrow> (st, Panic)
     | Some (c # cs) \<Rightarrow>
         if c = star then
           (if cs = [] then Tx_Descend scan iterator st s
            else Tx_Descend scan
              (\<lambda>st k v s. if Match k (c # cs) then iterator st k v s else (True, s)) st s)
         else (case Allowable pattern of
             Ok (mn, mx) \<Rightarrow> Tx_DescendLessOrEqual scan mx
               (\<lambda>st k v s. if k < slice mn then (False, s)
                  else if Match k (c # cs) then iterator st k v s else (True, s)) st s
           | _ \<Rightarrow> (st, Panic)))"

section \<open>The contract of a scan\<close>

text \<open>The items of a sorted list a scan visits, in the order it visits them.\<close>

definition scan_range ::
  "bool \<Rightarrow> bool \<Rightarrow> bool \<Rightarrow> bytes option \<Rightarrow> bytes option \<Rightarrow> (bytes \<times> 'w) list \<Rightarrow> (bytes \<times> 'w) list" where
  "scan_range desc gt lt start stop xs =
     (let a = limit_item NegInf start; b = limit_item PosInf stop in
      if desc then rev (filter (\<lambda>(k, _).
        (lt \<longrightarrow> \<not> less_key a k) \<and> (gt \<longrightarrow> less_key (if lt then b else a) k)) xs)
      else filter (\<lambda>(k, _).
        (gt \<longrightarrow> \<not> key_less k a) \<and> (lt \<longrightarrow> key_less k (if gt then b else a))) xs)"

locale scanner = mem_db ops inv items
  for ops :: "('t, 'v option, 'z) tree_ops_scheme" and inv and items +
  fixes scan :: "('t, 'v, 's) scan_fun"
  assumes scan_live: "live db \<Longrightarrow> db_keys db = Some t \<Longrightarrow> tx_open tx \<Longrightarrow>
      scan desc gt lt start stop f (db, tx) s =
      ((db, tx), Ok (visit (f (db, add_iterCount 1 tx)) (scan_range desc gt lt start stop (items t)) s))"
    and scan_closed: "\<not> tx_open tx \<Longrightarrow>
      scan desc gt lt start stop f (db, tx) s = ((db, tx), Err ErrTxClosed)"

text \<open>The items whose key begins with a prefix.\<close>

abbreviation prefixed :: "bytes \<Rightarrow> (bytes \<times> 'w) list \<Rightarrow> (bytes \<times> 'w) list" where
  "prefixed p xs \<equiv> filter (\<lambda>(k, _). take (length p) k = p) xs"

lemma takeWhile_up:
  assumes "sorted_keys xs"
  shows "takeWhile (\<lambda>(k, _). \<not> hi < k) xs = filter (\<lambda>(k, _). \<not> hi < k) xs"
  using assms
proof (induction xs)
  case (Cons x xs)
  have "hi < fst x \<Longrightarrow> \<forall>y \<in> set xs. hi < fst y" using Cons.prems by (auto dest: less_trans)
  then show ?case using Cons by (cases "hi < fst x") (auto simp: filter_empty_conv split_def)
qed simp

text \<open>A bounded walk that filters by the prefix sees what a filter of everything sees.\<close>

lemma prefix_walk:
  assumes "sorted_keys xs" "\<forall>k. take (length p) k = p \<longrightarrow> p \<le> k \<and> k < hi"
  shows "filter (\<lambda>(k, _). take (length p) k = p)
      (takeWhile (\<lambda>(k, _). \<not> hi < k) (filter (\<lambda>(k, _). \<not> k < p) xs)) = prefixed p xs"
proof -
  have "sorted_keys (filter (\<lambda>(k, _). \<not> k < p) xs)" using assms(1) by (induction xs) auto
  note e = takeWhile_up [OF this, of hi]
  have "take (length p) k = p \<Longrightarrow> \<not> hi < k \<and> \<not> k < p" for k
    using assms(2) by (auto dest: order.asym)
  then show ?thesis unfolding e by (auto intro!: filter_cong simp: case_prod_unfold)
qed

lemma visit_idle: "visit (\<lambda>k v s. if Q k then (False, s) else (True, s)) xs s = s"
  by (induction xs) auto

context scanner
begin

lemma AscendKeys_bad_rune:
  assumes "live db" "db_keys db = Some t" "tx_open tx" "0x7F < b" "fst (DecodeRune (b # ps)) = RuneError"
  shows "Tx_AscendKeys scan (Some (b # ps)) f (db, tx) s = ((db, tx), Ok s)"
proof -
  have b: "b \<noteq> star" using assms(4) by (auto simp: star_def)
  then obtain mn mx where a: "Allowable (Some (b # ps)) = Ok (mn, mx)"
    by (cases "allow_scan (b # ps) [] []") (simp add: Allowable_def)
  have m: "Match k (b # ps) = False" for k using Match_bad_rune [OF assms(4,5)] by simp
  show ?thesis
    unfolding Tx_AscendKeys_def slice_def option.case a m if_False
    using assms b by (simp add: Tx_AscendGreaterOrEqual_def scan_live visit_idle)
qed

lemma AscendKeys_prefix:
  assumes "live db" "db_keys db = Some t" "tx_open tx" "list_all literal p"
  shows "Tx_AscendKeys scan (Some (p @ [star])) f (db, tx) s =
    ((db, tx), Ok (visit (f (db, add_iterCount 1 tx)) (prefixed p (items t)) s))"
proof (cases "p = []")
  case True
  then show ?thesis
    using assms by (simp add: Tx_AscendKeys_def slice_def Tx_Ascend_def scan_live scan_range_def Let_def)
next
  case False
  obtain hi where hi: "Allowable (Some (p @ [star])) = Ok (Some p, Some hi)"
    "\<forall>k. take (length p) k = p \<longrightarrow> p \<le> k \<and> k < hi"
    by (rule Allowable_prefix [OF assms(4) False])
  obtain c cs where c: "p = c # cs" "c \<noteq> star"
    using assms(4) False by (cases p) (auto simp: literal_def)
  have inv: "inv t" using assms(1,2) by (simp add: db_live_def)
  have "Tx_AscendKeys scan (Some (p @ [star])) f (db, tx) s = Tx_AscendGreaterOrEqual scan (Some p)
      (\<lambda>st k v s. if hi < k then (False, s) else if take (length p) k = p then f st k v s
         else (True, s)) (db, tx) s"
    unfolding Tx_AscendKeys_def slice_def option.case Match_prefix [OF assms(4)] hi(1)
    using c by simp
  also have "\<dots> = ((db, tx), Ok (visit (\<lambda>k v s. if hi < k then (False, s)
        else if take (length p) k = p then f (db, add_iterCount 1 tx) k v s else (True, s))
      (filter (\<lambda>(k, _). \<not> k < p) (items t)) s))"
    using assms by (simp add: Tx_AscendGreaterOrEqual_def scan_live scan_range_def limit_item_def Let_def)
  also have "\<dots> = ((db, tx), Ok (visit (f (db, add_iterCount 1 tx)) (prefixed p (items t)) s))"
    by (simp add: visit_until visit_filter prefix_walk [OF items_sorted [OF inv] hi(2)])
  finally show ?thesis .
qed

end

lemma takeWhile_down:
  assumes "sorted_keys xs"
  shows "takeWhile (\<lambda>(k, _). less_key b k) (rev xs) = rev (filter (\<lambda>(k, _). less_key b k) xs)"
  using assms
proof (induction xs)
  case (Cons x xs)
  have "less_key b (fst x) \<Longrightarrow> \<forall>y \<in> set xs. less_key b (fst y)"
    using Cons.prems by (cases b) (auto dest: less_trans)
  then show ?case using Cons
    by (cases "less_key b (fst x)") (auto simp: takeWhile_append filter_empty_conv split_def)
qed simp

lemma sorted_keys_filter: "sorted_keys xs \<Longrightarrow> sorted_keys (filter P xs)"
  by (induction xs) auto

locale llrb_db = llrb_lib ops inv items
  for ops :: "('t, 'v option) llrb_ops" and inv and items
begin

text \<open>The two descending scans \<^verbatim>\<open>llrbdb\<close> builds itself stop where the range ends.\<close>

lemma descendRange_eq:
  assumes "inv t"
  shows "llrb_descendRange ops t a b f s =
    visit f (rev (filter (\<lambda>(k, _). \<not> less_key a k \<and> less_key b k) (items t))) s"
proof -
  have "llrb_descendRange ops t a b f s =
      visit (\<lambda>k v s. if less_key b k then f k v s else (False, s)) (ll_DescendLessOrEqual ops t a) s"
    unfolding llrb_descendRange_def
    by (rule arg_cong [where f = "\<lambda>g. visit g _ _"], intro ext, cases b) auto
  then show ?thesis
    using takeWhile_down [OF sorted_keys_filter [OF items_sorted [OF assms]]]
    by (simp add: visit_takeWhile ll_DescendLessOrEqual [OF assms] case_prod_unfold)
qed

lemma descendGreaterThan_eq:
  assumes "inv t"
  shows "llrb_descendGreaterThan ops t a f s =
    visit f (rev (filter (\<lambda>(k, _). less_key a k) (items t))) s"
  using takeWhile_down [OF items_sorted [OF assms]]
  by (simp add: llrb_descendGreaterThan_def visit_takeWhile ll_DescendLessOrEqual [OF assms]
      case_prod_unfold)

end

sublocale llrb_db \<subseteq> scanner ops inv items "llrb_scan ops"
proof (unfold_locales, goal_cases)
  case (1 db t tx desc gt lt start stop f s)
  then have "inv t" by (simp add: db_live_def)
  then show ?case
    using 1 by (simp add: llrb_scan_def Let_def add_iterCount_back scan_range_def descendRange_eq
      descendGreaterThan_eq llrb_descend_def ll_AscendRange ll_AscendGreaterOrEqual
      ll_DescendLessOrEqual case_prod_unfold)
next
  case (2 tx desc gt lt start stop f db s)
  then show ?case by (simp add: llrb_scan_def)
qed

locale btree_db = btree_lib ops inv items
  for ops :: "('t, 'v option) btree_ops" and inv and items

sublocale btree_db \<subseteq> scanner ops inv items "btree_scan ops"
proof (unfold_locales, goal_cases)
  case (1 db t tx desc gt lt start stop f s)
  then have "inv t" by (simp add: db_live_def)
  then show ?case
    using 1 by (simp add: btree_scan_def Let_def add_iterCount_back scan_range_def bt_AscendRange
      bt_AscendLessThan bt_AscendGreaterOrEqual bt_Ascend bt_DescendRange bt_DescendLessOrEqual
      bt_DescendGreaterThan bt_Descend case_prod_unfold)
next
  case (2 tx desc gt lt start stop f db s)
  then show ?case by (simp add: btree_scan_def)
qed

end
