(* ===== verification/Mem_Store.thy ===== *)
theory Mem_Store
  imports Mem_Scan
begin

text \<open>
  The stores: \<^verbatim>\<open>memstore/batch.go\<close> and the methods of \<^verbatim>\<open>llrbdb/store.go\<close>, which \<^verbatim>\<open>btreedb/store.go\<close>
  repeats over its own scan.  A store is a database or nil.  \<open>memstore\<close> is the contract of the
  interface \<^verbatim>\<open>MemStore\<close> over the map a store stands for.
\<close>

section \<open>Batches\<close>

record 'v op =
  op_K :: bytes
  op_V :: "'v iface"

record 'v Batch =
  Ops :: "'v op list"

definition NewBatch :: "'v Batch" where
  "NewBatch = \<lparr>Ops = []\<rparr>"

definition Batch_Set :: "bytes \<Rightarrow> 'v iface \<Rightarrow> 'v Batch \<Rightarrow> 'v Batch" where
  "Batch_Set key val b = b\<lparr>Ops := Ops b @ [\<lparr>op_K = key, op_V = val\<rparr>]\<rparr>"

definition Batch_Delete :: "bytes \<Rightarrow> 'v Batch \<Rightarrow> 'v Batch" where
  "Batch_Delete key b = b\<lparr>Ops := Ops b @ [\<lparr>op_K = key, op_V = None\<rparr>]\<rparr>"

definition Batch_Reset :: "'v Batch \<Rightarrow> 'v Batch" where
  "Batch_Reset b = b\<lparr>Ops := []\<rparr>"

section \<open>The store\<close>

type_synonym 't Store = "'t DB option"

definition Store_Put ::
  "'v map_order \<Rightarrow> ('t, 'v iface, 'z) tree_ops_scheme \<Rightarrow> bytes \<Rightarrow> 'v iface
   \<Rightarrow> 't Store \<Rightarrow> ('t Store \<times> (mem_error, unit) result) option" where
  "Store_Put ord ops key value s = (case s of
       None \<Rightarrow> Some (None, Ok ())
     | Some db \<Rightarrow> map_option (\<lambda>(db', r). (Some db', r)) (DB_Update ord ops
         (\<lambda>st. case Tx_Set ops key value st of (st', r) \<Rightarrow> (st', result_bind r (\<lambda>_. Ok ()))) db))"

text \<open>\<^verbatim>\<open>Get\<close> of a nil store returns a nil value and no error.\<close>

definition Store_Get ::
  "'v map_order \<Rightarrow> ('t, 'v iface, 'z) tree_ops_scheme \<Rightarrow> bytes
   \<Rightarrow> 't Store \<Rightarrow> ('t Store \<times> (mem_error, 'v iface) result) option" where
  "Store_Get ord ops key s = (case s of
       None \<Rightarrow> Some (None, Ok None)
     | Some db \<Rightarrow> map_option (\<lambda>(db', r). (Some db', r))
         (DB_View ord ops (\<lambda>st. (st, Tx_Get ops key st)) db))"

definition Store_Delete ::
  "'v map_order \<Rightarrow> ('t, 'v iface, 'z) tree_ops_scheme \<Rightarrow> bytes
   \<Rightarrow> 't Store \<Rightarrow> ('t Store \<times> (mem_error, unit) result) option" where
  "Store_Delete ord ops key s = (case s of
       None \<Rightarrow> Some (None, Ok ())
     | Some db \<Rightarrow> map_option (\<lambda>(db', r). (Some db', r)) (DB_Update ord ops
         (\<lambda>st. case Tx_Delete ops key st of (st', r) \<Rightarrow> (st', result_bind r (\<lambda>_. Ok ()))) db))"

text \<open>
  An iteration of a store: a read-only transaction around \<open>body\<close>, rolled back when it returns; the
  error of \<^verbatim>\<open>Rollback\<close> is dropped.
\<close>

definition with_reader ::
  "'v map_order \<Rightarrow> ('t, 'v iface, 'z) tree_ops_scheme
   \<Rightarrow> (('t, 'v) tx_state \<Rightarrow> ('t, 'v) tx_state \<times> (mem_error, 's) result)
   \<Rightarrow> 't DB \<Rightarrow> ('t Store \<times> (mem_error, 's) result) option" where
  "with_reader ord ops body db = (case DB_Begin False db of
       None \<Rightarrow> None
     | Some (db0, Err e) \<Rightarrow> Some (Some db0, Err e)
     | Some (db0, Panic) \<Rightarrow> Some (Some db0, Panic)
     | Some (db0, Ok tx) \<Rightarrow> (case body (db0, tx) of (st, r) \<Rightarrow>
         (case Tx_Rollback ord ops st of ((db1, _), rr) \<Rightarrow>
            Some (Some db1, if rr = Panic then Panic else r))))"

definition Store_PrefixIterator ::
  "'v map_order \<Rightarrow> ('t, 'v iface, 'z) tree_ops_scheme \<Rightarrow> ('t, 'v, 's) scan_fun \<Rightarrow> bytes
   \<Rightarrow> (bytes \<Rightarrow> 'v iface \<Rightarrow> 's \<Rightarrow> bool \<times> 's) option \<Rightarrow> 't Store \<Rightarrow> 's
   \<Rightarrow> ('t Store \<times> (mem_error, 's) result) option" where
  "Store_PrefixIterator ord ops scan prefix iter s acc = (case (s, iter) of
       (Some db, Some it) \<Rightarrow> with_reader ord ops
         (\<lambda>st. Tx_AscendKeys scan (Some (prefix @ [star])) (\<lambda>_. it) st acc) db
     | _ \<Rightarrow> Some (s, Ok acc))"

definition Store_RangeIterator ::
  "'v map_order \<Rightarrow> ('t, 'v iface, 'z) tree_ops_scheme \<Rightarrow> ('t, 'v, 's) scan_fun \<Rightarrow> bytes option \<Rightarrow> bytes option
   \<Rightarrow> (bytes \<Rightarrow> 'v iface \<Rightarrow> 's \<Rightarrow> bool \<times> 's) option \<Rightarrow> 't Store \<Rightarrow> 's
   \<Rightarrow> ('t Store \<times> (mem_error, 's) result) option" where
  "Store_RangeIterator ord ops scan start stop iter s acc = (case (s, iter) of
       (Some db, Some it) \<Rightarrow> with_reader ord ops
         (\<lambda>st. Tx_AscendRange scan start stop (\<lambda>_. it) st acc) db
     | _ \<Rightarrow> Some (s, Ok acc))"

fun exec_ops ::
  "('t, 'v iface, 'z) tree_ops_scheme \<Rightarrow> 'v op list \<Rightarrow> ('t, 'v) tx_state
   \<Rightarrow> ('t, 'v) tx_state \<times> (mem_error, unit) result" where
  "exec_ops ops [] st = (st, Ok ())"
| "exec_ops ops (oper # rest) st = (case op_V oper of
       Some v \<Rightarrow> (case Tx_Set ops (op_K oper) (Some v) st of
           (st', Ok _) \<Rightarrow> exec_ops ops rest st'
         | (st', Err e) \<Rightarrow> (st', Err e)
         | (st', Panic) \<Rightarrow> (st', Panic))
     | None \<Rightarrow> (case Tx_Delete ops (op_K oper) st of
           (st', Ok _) \<Rightarrow> exec_ops ops rest st'
         | (st', Err e) \<Rightarrow> (st', Err e)
         | (st', Panic) \<Rightarrow> (st', Panic)))"

definition Store_ExecuteBatch ::
  "'v map_order \<Rightarrow> ('t, 'v iface, 'z) tree_ops_scheme \<Rightarrow> 'v Batch option
   \<Rightarrow> 't Store \<Rightarrow> ('t Store \<times> (mem_error, unit) result) option" where
  "Store_ExecuteBatch ord ops batch s = (case (s, batch) of
       (Some db, Some b) \<Rightarrow> (case DB_Begin True db of
           None \<Rightarrow> None
         | Some (db0, Err e) \<Rightarrow> Some (Some db0, Err e)
         | Some (db0, Panic) \<Rightarrow> Some (Some db0, Panic)
         | Some (db0, Ok tx) \<Rightarrow> (case exec_ops ops (Ops b) (db0, tx) of
             (st, Ok _) \<Rightarrow> (case Tx_Commit st of ((db1, _), r) \<Rightarrow> Some (Some db1, r))
           | (st, Err e) \<Rightarrow> (case Tx_Rollback ord ops st of ((db1, _), rr) \<Rightarrow>
               Some (Some db1, if rr = Panic then Panic else Err e))
           | (st, Panic) \<Rightarrow> (case Tx_Commit st of ((db1, _), _) \<Rightarrow> Some (Some db1, Panic))))
     | _ \<Rightarrow> Some (s, Ok ()))"

definition Store_Close :: "'t Store \<Rightarrow> ('t Store \<times> (mem_error, unit) result) option" where
  "Store_Close s = (case s of
       None \<Rightarrow> Some (None, Ok ())
     | Some db \<Rightarrow> map_option (\<lambda>(db', r). (Some db', r)) (DB_Close db))"

section \<open>What a batch means\<close>

definition op_write :: "'v op \<Rightarrow> 'v mutation" where
  "op_write oper = (case op_V oper of Some v \<Rightarrow> WSet (op_K oper) (Some v) | None \<Rightarrow> WDelete (op_K oper))"

text \<open>The operations before the first delete of an absent key.\<close>

fun executed :: "(bytes \<rightharpoonup> 'v iface) \<Rightarrow> 'v op list \<Rightarrow> 'v mutation list" where
  "executed m [] = []"
| "executed m (oper # rest) =
     (if op_V oper = None \<and> m (op_K oper) = None then []
      else op_write oper # executed (write_map (op_write oper) m) rest)"

fun batch_ok :: "(bytes \<rightharpoonup> 'v iface) \<Rightarrow> 'v op list \<Rightarrow> bool" where
  "batch_ok m [] = True"
| "batch_ok m (oper # rest) =
     ((op_V oper = None \<longrightarrow> m (op_K oper) \<noteq> None) \<and> batch_ok (write_map (op_write oper) m) rest)"

lemma executed_all: "batch_ok m os \<Longrightarrow> executed m os = map op_write os"
  by (induction m os rule: batch_ok.induct) auto

section \<open>The methods over a tree that keeps its contract\<close>

context mem_db
begin

lemma Put_live:
  assumes "live db" "db_mu db = mu_free" "\<And>l. mset (ord l) = mset l"
  obtains db' where "Store_Put ord ops k v (Some db) = Some (Some db', Ok ())" "live db'"
    "db_mu db' = mu_free" "view db' = (view db)(k \<mapsto> v)"
proof -
  obtain db' where "DB_Update ord ops (\<lambda>st. case Tx_Set ops k v st of (st', r) \<Rightarrow>
      (st', result_bind r (\<lambda>_. Ok ()))) db = Some (db', Ok ())" "live db'" "db_mu db' = mu_free"
    "view db' = (case Ok () :: (mem_error, unit) result of
       Err _ \<Rightarrow> \<lambda>k'. if k' \<in> lost_step (view db) (view db) (WSet k v) then None else view db k'
     | _ \<Rightarrow> (view db)(k \<mapsto> v))"
  proof (rule Update_logged [OF assms])
    fix db0 tx0
    assume 0: "logged (view db) {} (db0, tx0)" "view db0 = view db"
    obtain db' tx' where "Tx_Set ops k v (db0, tx0) =
        ((db', tx'), Ok (case view db0 k of None \<Rightarrow> (None, False) | Some p \<Rightarrow> (p, True)))"
      "logged (view db) ({} \<union> lost_step (view db) (view db0) (WSet k v)) (db', tx')"
      "view db' = (view db0)(k \<mapsto> v)" "db_mu db' = db_mu db0" "tx_funcd tx' = tx_funcd tx0"
      by (rule Tx_Set_logged [OF 0(1)])
    with 0(2) show "\<exists>db1 tx1. (case Tx_Set ops k v (db0, tx0) of (st', r) \<Rightarrow>
        (st', result_bind r (\<lambda>_. Ok ()))) = ((db1, tx1), Ok ()) \<and>
        logged (view db) (lost_step (view db) (view db) (WSet k v)) (db1, tx1) \<and>
        view db1 = (view db)(k \<mapsto> v) \<and> db_mu db1 = db_mu db0" by simp
  qed
  then show thesis using that [of db'] by (simp add: Store_Put_def)
qed

lemma Get_live:
  assumes "live db" "\<not> mu_writer (db_mu db)"
  shows "Store_Get ord ops k (Some db) =
    Some (Some db, case view db k of None \<Rightarrow> Err ErrNotFound | Some v \<Rightarrow> Ok v)"
proof -
  have "DB_View ord ops (\<lambda>st. (st, Tx_Get ops k st)) db =
      Some (db, case view db k of None \<Rightarrow> Err ErrNotFound | Some v \<Rightarrow> Ok v)"
    by (rule View_reading [OF assms]) (simp add: Tx_Get_def get_ok split: option.split)
  then show ?thesis by (simp add: Store_Get_def)
qed

lemma Delete_live:
  assumes "live db" "db_mu db = mu_free" "\<And>l. mset (ord l) = mset l"
  obtains db' where "Store_Delete ord ops k (Some db) =
      Some (Some db', if view db k = None then Err ErrNotFound else Ok ())" "live db'"
    "db_mu db' = mu_free" "view db' = (view db)(k := None)"
proof -
  let ?r = "if view db k = None then Err ErrNotFound else Ok () :: (mem_error, unit) result"
  obtain db' where "DB_Update ord ops (\<lambda>st. case Tx_Delete ops k st of (st', r) \<Rightarrow>
      (st', result_bind r (\<lambda>_. Ok ()))) db = Some (db', ?r)" "live db'" "db_mu db' = mu_free"
    "view db' = (case ?r of Err _ \<Rightarrow> \<lambda>k'. if k' \<in> {} then None else view db k'
     | _ \<Rightarrow> (view db)(k := None))"
  proof (rule Update_logged [OF assms])
    fix db0 tx0
    assume 0: "logged (view db) {} (db0, tx0)" "view db0 = view db"
    obtain db' tx' where "Tx_Delete ops k (db0, tx0) =
        ((db', tx'), case view db0 k of None \<Rightarrow> Err ErrNotFound | Some p \<Rightarrow> Ok p)"
      "logged (view db) {} (db', tx')"
      "view db' = (view db0)(k := None)" "db_mu db' = db_mu db0" "tx_funcd tx' = tx_funcd tx0"
      by (rule Tx_Delete_logged [OF 0(1)])
    with 0(2) show "\<exists>db1 tx1. (case Tx_Delete ops k (db0, tx0) of (st', r) \<Rightarrow>
        (st', result_bind r (\<lambda>_. Ok ()))) = ((db1, tx1), ?r) \<and>
        logged (view db) {} (db1, tx1) \<and>
        view db1 = (view db)(k := None) \<and> db_mu db1 = db_mu db0" by (auto split: option.split)
  qed
  moreover have "view db k = None \<Longrightarrow> (view db)(k := None) = view db" by (simp add: fun_upd_idem)
  ultimately show thesis using that [of db'] by (auto simp: Store_Delete_def split: if_splits)
qed

lemma exec_ops_logged:
  assumes "logged m0 L (db, tx)"
  obtains db' tx' where "exec_ops ops os (db, tx) =
      ((db', tx'), if batch_ok (view db) os then Ok () else Err ErrNotFound)"
    "logged m0 (L \<union> lost_keys m0 (view db) (executed (view db) os)) (db', tx')"
    "view db' = fold write_map (executed (view db) os) (view db)"
    "db_mu db' = db_mu db" "tx_funcd tx' = tx_funcd tx"
proof -
  have "\<exists>db' tx'. exec_ops ops os (db, tx) =
      ((db', tx'), if batch_ok (view db) os then Ok () else Err ErrNotFound) \<and>
    logged m0 (L \<union> lost_keys m0 (view db) (executed (view db) os)) (db', tx') \<and>
    view db' = fold write_map (executed (view db) os) (view db) \<and>
    db_mu db' = db_mu db \<and> tx_funcd tx' = tx_funcd tx"
    using assms
  proof (induction os arbitrary: L db tx)
    case (Cons a os)
    show ?case
    proof (cases "op_V a")
      case None
      obtain db1 tx1 where 1: "Tx_Delete ops (op_K a) (db, tx) =
          ((db1, tx1), case view db (op_K a) of None \<Rightarrow> Err ErrNotFound | Some p \<Rightarrow> Ok p)"
        "logged m0 L (db1, tx1)" "view db1 = (view db)(op_K a := None)" "db_mu db1 = db_mu db"
        "tx_funcd tx1 = tx_funcd tx"
        by (rule Tx_Delete_logged [OF Cons.prems])
      have wm: "write_map (op_write a) (view db) = view db1" using None 1(3) by (simp add: op_write_def)
      have same: "view db (op_K a) = None \<Longrightarrow> view db1 = view db" using 1(3) by (simp add: fun_upd_idem)
      have "op_write a = WDelete (op_K a)" using None by (simp add: op_write_def)
      then show ?thesis
        using None 1(1,2,4,5) Cons.IH [OF 1(2)] same wm by (cases "view db (op_K a)") simp_all
    next
      case (Some v)
      obtain db1 tx1 where 1: "Tx_Set ops (op_K a) (Some v) (db, tx) = ((db1, tx1),
          Ok (case view db (op_K a) of None \<Rightarrow> (None, False) | Some p \<Rightarrow> (p, True)))"
        "logged m0 (L \<union> lost_step m0 (view db) (WSet (op_K a) (Some v))) (db1, tx1)"
        "view db1 = (view db)(op_K a \<mapsto> Some v)" "db_mu db1 = db_mu db" "tx_funcd tx1 = tx_funcd tx"
        by (rule Tx_Set_logged [OF Cons.prems])
      have w: "op_write a = WSet (op_K a) (Some v)" using Some by (simp add: op_write_def)
      with 1(3) have "write_map (WSet (op_K a) (Some v)) (view db) = view db1" by simp
      with Some w 1(1,2,4,5) Cons.IH [OF 1(2)] show ?thesis
        by (simp add: Un_assoc del: write_map.simps lost_step.simps)
    qed
  qed simp
  with that show thesis by blast
qed

lemma ExecuteBatch_live:
  assumes "live db" "db_mu db = mu_free" "\<And>l. mset (ord l) = mset l"
  obtains db' where "Store_ExecuteBatch ord ops (Some b) (Some db) =
      Some (Some db', if batch_ok (view db) (Ops b) then Ok () else Err ErrNotFound)"
    "live db'" "db_mu db' = mu_free"
    "view db' = (if batch_ok (view db) (Ops b) then fold write_map (map op_write (Ops b)) (view db)
       else (\<lambda>k. if k \<in> lost_keys (view db) (view db) (executed (view db) (Ops b)) then None
                 else view db k))"
proof -
  obtain db0 tx0 where 0: "DB_Begin True db = Some (db0, Ok tx0)" "logged (view db) {} (db0, tx0)"
    "view db0 = view db" "mu_writer (db_mu db0)" "mu_readers (db_mu db0) = 0" "\<not> tx_funcd tx0"
    by (rule Begin_writable [OF assms(1,2)])
  let ?ws = "executed (view db) (Ops b)"
  obtain db1 tx1 where 1: "exec_ops ops (Ops b) (db0, tx0) =
      ((db1, tx1), if batch_ok (view db) (Ops b) then Ok () else Err ErrNotFound)"
    "logged (view db) (lost_keys (view db) (view db) ?ws) (db1, tx1)"
    "view db1 = fold write_map ?ws (view db)" "db_mu db1 = db_mu db0" "tx_funcd tx1 = tx_funcd tx0"
    using exec_ops_logged [OF 0(2), of "Ops b"] 0(3) by auto
  have 2: "\<not> tx_funcd tx1" "mu_writer (db_mu db1)" "(db_mu db1)\<lparr>mu_writer := False\<rparr> = mu_free"
    using 0 1 by (simp_all add: mu_free_def)
  show thesis
  proof (cases "batch_ok (view db) (Ops b)")
    case True
    obtain db' where "Tx_Commit (db1, tx1) = ((db', tx1\<lparr>tx_open := False\<rparr>), Ok ())" "live db'"
      "view db' = view db1" "db_mu db' = (db_mu db1)\<lparr>mu_writer := False\<rparr>"
      by (rule Commit_logged [OF 1(2) 2(1,2)])
    then show thesis
      using that [of db'] True 0 1 2 executed_all [OF True] by (simp add: Store_ExecuteBatch_def)
  next
    case False
    obtain db' where "Tx_Rollback ord ops (db1, tx1) = ((db', tx1\<lparr>tx_open := False\<rparr>), Ok ())" "live db'"
      "view db' = (\<lambda>k. if k \<in> lost_keys (view db) (view db) ?ws then None else view db k)"
      "db_mu db' = (db_mu db1)\<lparr>mu_writer := False\<rparr>"
      by (rule Rollback_logged [OF 1(2) 2(1,2) assms(3)])
    then show thesis using that [of db'] False 0 1 2 by (simp add: Store_ExecuteBatch_def)
  qed
qed

lemma Close_live:
  assumes "live db" "db_mu db = mu_free"
  shows "Store_Close (Some db) = Some (Some (db\<lparr>db_closed := True, db_keys := None\<rparr>), Ok ())"
proof -
  from assms(1) have "\<not> db_closed db" by (rule liveE)
  with assms show ?thesis by (simp add: Store_Close_def DB_Close_def Lock_def Unlock_def mu_free_def)
qed

end

text \<open>A closed database refuses every transaction and keeps its lock free.\<close>

lemma Begin_closed:
  assumes "db_closed db" "db_mu db = mu_free"
  shows "DB_Begin w db = Some (db, Err ErrDatabaseClosed)"
  using assms
  by (cases db) (auto simp: DB_Begin_def Tx_lock_def Tx_unlock_def Lock_def RLock_def Unlock_def RUnlock_def mu_free_def)

section \<open>Iterations\<close>

context mem_db
begin

lemma with_reader_live:
  assumes "live db" "\<not> mu_writer (db_mu db)"
    and body: "\<And>db0 tx0. live db0 \<Longrightarrow> db_keys db0 = db_keys db \<Longrightarrow> tx_open tx0 \<Longrightarrow>
      body (db0, tx0) = ((db0, tx0), r)"
  shows "with_reader ord ops body db = Some (Some db, r)"
proof -
  have "body (db\<lparr>db_mu := (db_mu db)\<lparr>mu_readers := Suc (mu_readers (db_mu db))\<rparr>\<rparr>, reading) =
      ((db\<lparr>db_mu := (db_mu db)\<lparr>mu_readers := Suc (mu_readers (db_mu db))\<rparr>\<rparr>, reading), r)"
    by (rule body) (use assms in \<open>simp_all add: reading_def\<close>)
  then show ?thesis by (simp add: with_reader_def Begin_reading [OF assms(1,2)] Rollback_reading)
qed

end

context scanner
begin

lemma PrefixIterator_live:
  assumes "live db" "db_keys db = Some t" "\<not> mu_writer (db_mu db)" "list_all literal p"
  shows "Store_PrefixIterator ord ops scan p (Some it) (Some db) s =
    Some (Some db, Ok (visit it (prefixed p (items t)) s))"
proof -
  have "with_reader ord ops (\<lambda>st. Tx_AscendKeys scan (Some (p @ [star])) (\<lambda>_. it) st s) db =
      Some (Some db, Ok (visit it (prefixed p (items t)) s))"
    by (rule with_reader_live [OF assms(1,3)]) (simp add: AscendKeys_prefix assms(2,4))
  then show ?thesis by (simp add: Store_PrefixIterator_def)
qed

lemma PrefixIterator_bad_rune:
  assumes "live db" "db_keys db = Some t" "\<not> mu_writer (db_mu db)" "0x7F < b"
    "fst (DecodeRune (b # q @ [star])) = RuneError"
  shows "Store_PrefixIterator ord ops scan (b # q) (Some it) (Some db) s = Some (Some db, Ok s)"
proof -
  have "with_reader ord ops (\<lambda>st. Tx_AscendKeys scan (Some ((b # q) @ [star])) (\<lambda>_. it) st s) db =
      Some (Some db, Ok s)"
    by (rule with_reader_live [OF assms(1,3)]) (simp add: AscendKeys_bad_rune assms(2,4,5))
  then show ?thesis by (simp add: Store_PrefixIterator_def)
qed

lemma RangeIterator_live:
  assumes "live db" "db_keys db = Some t" "\<not> mu_writer (db_mu db)"
  shows "Store_RangeIterator ord ops scan start stop (Some it) (Some db) s =
    Some (Some db, Ok (visit it (scan_range False True True start stop (items t)) s))"
proof -
  have "with_reader ord ops (\<lambda>st. Tx_AscendRange scan start stop (\<lambda>_. it) st s) db =
      Some (Some db, Ok (visit it (scan_range False True True start stop (items t)) s))"
    by (rule with_reader_live [OF assms(1,3)]) (simp add: Tx_AscendRange_def scan_live assms(2))
  then show ?thesis by (simp add: Store_RangeIterator_def)
qed

end

section \<open>The interface\<close>

text \<open>
  What \<^verbatim>\<open>MemStore\<close> promises of a store that is open and idle: its methods do not wait, keep it so and
  act on the map it stands for.
\<close>

locale memstore =
  fixes idle :: "'st \<Rightarrow> bool"
    and contents :: "'st \<Rightarrow> bytes \<rightharpoonup> 'v option"
    and Put :: "bytes \<Rightarrow> 'v option \<Rightarrow> 'st \<Rightarrow> ('st \<times> (mem_error, unit) result) option"
    and Get :: "bytes \<Rightarrow> 'st \<Rightarrow> ('st \<times> (mem_error, 'v option) result) option"
    and Delete :: "bytes \<Rightarrow> 'st \<Rightarrow> ('st \<times> (mem_error, unit) result) option"
  assumes Put_law: "idle s \<Longrightarrow>
      \<exists>s'. Put k v s = Some (s', Ok ()) \<and> idle s' \<and> contents s' = (contents s)(k \<mapsto> v)"
    and Get_law: "idle s \<Longrightarrow>
      Get k s = Some (s, case contents s k of None \<Rightarrow> Err ErrNotFound | Some v \<Rightarrow> Ok v)"
    and Delete_law: "idle s \<Longrightarrow>
      \<exists>s'. Delete k s = Some (s', if contents s k = None then Err ErrNotFound else Ok ()) \<and> idle s' \<and>
        contents s' = (contents s)(k := None)"
begin

lemma Get_after_Put:
  assumes "idle s" "Put k v s = Some (s', r)"
  shows "r = Ok () \<and> Get k' s' = Some (s', if k' = k then Ok v
    else case contents s k' of None \<Rightarrow> Err ErrNotFound | Some v \<Rightarrow> Ok v)"
  using assms Put_law [OF assms(1), of k v] Get_law [of s' k'] by auto

lemma Get_after_Delete:
  assumes "idle s" "Delete k s = Some (s', r)"
  shows "Get k' s' = Some (s', if k' = k then Err ErrNotFound
    else case contents s k' of None \<Rightarrow> Err ErrNotFound | Some v \<Rightarrow> Ok v)"
  using assms Delete_law [OF assms(1), of k] Get_law [of s' k'] by auto

lemma Put_then_Delete:
  assumes "idle s" "Put k v s = Some (s1, r1)" "Delete k s1 = Some (s2, r2)"
  shows "r2 = Ok () \<and> idle s2 \<and> contents s2 = (contents s)(k := None)"
  using assms Put_law [OF assms(1), of k v] Delete_law [of s1 k] by auto

end

locale ordered_db = mem_db ops inv items
  for ops :: "('t, 'v option, 'z) tree_ops_scheme" and inv and items +
  fixes ord :: "'v map_order"
  assumes ord_perm: "mset (ord l) = mset l"

definition store_idle :: "('t \<Rightarrow> bool) \<Rightarrow> 't Store \<Rightarrow> bool" where
  "store_idle valid s = (case s of None \<Rightarrow> False | Some db \<Rightarrow> db_live valid db \<and> db_mu db = mu_free)"

definition store_view :: "('t \<Rightarrow> (bytes \<times> 'v option) list) \<Rightarrow> 't Store \<Rightarrow> bytes \<rightharpoonup> 'v option" where
  "store_view items s = (case s of None \<Rightarrow> Map.empty | Some db \<Rightarrow> db_view items db)"

lemma store_idleE:
  assumes "store_idle valid s"
  obtains db where "s = Some db" "db_live valid db" "db_mu db = mu_free"
  using assms by (auto simp: store_idle_def split: option.splits)

sublocale ordered_db \<subseteq> st: memstore "store_idle inv" "store_view items" "Store_Put ord ops"
    "Store_Get ord ops" "Store_Delete ord ops"
proof (unfold_locales, goal_cases)
  case (1 s k v)
  then obtain db where db: "s = Some db" "live db" "db_mu db = mu_free" by (rule store_idleE)
  show ?case
    by (rule Put_live [OF db(2,3), of ord k v]) (auto simp: ord_perm db(1) store_idle_def store_view_def)
next
  case (2 s k)
  then obtain db where db: "s = Some db" "live db" "db_mu db = mu_free" by (rule store_idleE)
  then show ?case using Get_live [OF db(2), of ord k] by (simp add: store_view_def mu_free_def)
next
  case (3 s k)
  then obtain db where db: "s = Some db" "live db" "db_mu db = mu_free" by (rule store_idleE)
  show ?case
    by (rule Delete_live [OF db(2,3), of ord k]) (auto simp: ord_perm db(1) store_idle_def store_view_def)
qed

context ordered_db
begin

lemmas Put_law = st.Put_law
lemmas Delete_law = st.Delete_law
lemmas Get_after_Put = st.Get_after_Put

end

context llrb_db
begin

lemmas llrb_PrefixIterator = PrefixIterator_live
lemmas llrb_RangeIterator = RangeIterator_live
lemmas llrb_PrefixIterator_bad_rune = PrefixIterator_bad_rune

end

context btree_db
begin

lemmas btree_PrefixIterator = PrefixIterator_live
lemmas btree_RangeIterator = RangeIterator_live

end

interpretation al_store: ordered_db "al_llrb :: ((bytes \<times> nat option) list, nat option) llrb_ops"
    "\<lambda>t. sorted_keys t" "\<lambda>t. t" rev
  by unfold_locales simp

interpretation al_llrb_db: llrb_db "al_llrb :: ((bytes \<times> nat option) list, nat option) llrb_ops"
    "\<lambda>t. sorted_keys t" "\<lambda>t. t"
  by unfold_locales

interpretation al_btree_db: btree_db "al_btree :: ((bytes \<times> nat option) list, nat option) btree_ops"
    "\<lambda>t. sorted_keys t" "\<lambda>t. t"
  by unfold_locales

lemma demo_idle: "store_idle (\<lambda>t. sorted_keys t) (Some demo_db)"
  by (simp add: store_idle_def demo_live)

section \<open>Properties\<close>

text \<open>
  C17: A store is a map.  On an open store nobody else uses, Put, Get and Delete return at once,
  leave it open and idle, and do to the map of keys and values what their names say: Get returns
  the last value put under the key or ErrNotFound, Delete of an absent key is ErrNotFound.
\<close>

theorem Store_refines_map:
  assumes "ordered_db ops valid items ord" "store_idle valid s"
  shows "\<exists>s1 s2. Store_Put ord ops k v s = Some (s1, Ok ()) \<and> store_idle valid s1 \<and>
    store_view items s1 = (store_view items s)(k \<mapsto> v) \<and>
    Store_Get ord ops k' s1 = Some (s1, if k' = k then Ok v
      else case store_view items s k' of None \<Rightarrow> Err ErrNotFound | Some v \<Rightarrow> Ok v) \<and>
    Store_Delete ord ops k' s =
      Some (s2, if store_view items s k' = None then Err ErrNotFound else Ok ()) \<and>
    store_idle valid s2 \<and> store_view items s2 = (store_view items s)(k' := None)"
proof -
  obtain s1 where 1: "Store_Put ord ops k v s = Some (s1, Ok ())" "store_idle valid s1"
      "store_view items s1 = (store_view items s)(k \<mapsto> v)"
    using ordered_db.Put_law [OF assms] by blast
  obtain s2 where 2: "Store_Delete ord ops k' s =
        Some (s2, if store_view items s k' = None then Err ErrNotFound else Ok ())"
      "store_idle valid s2" "store_view items s2 = (store_view items s)(k' := None)"
    using ordered_db.Delete_law [OF assms] by blast
  show ?thesis
    using 1 2 ordered_db.Get_after_Put [OF assms 1(1), of k'] by auto
qed

theorem Store_refines_map_witness:
  "\<exists>s1. Store_Put rev al_llrb [7] (Some 70) (Some demo_db) = Some (s1, Ok ()) \<and>
     Store_Get rev al_llrb [2] s1 = Some (s1, Ok (Some 20))"
proof -
  obtain s1 where "Store_Put rev al_llrb [7] (Some 70) (Some demo_db) = Some (s1, Ok ())"
    "Store_Get rev al_llrb [2] s1 = Some (s1, if [2] = ([7] :: bytes) then Ok (Some 70)
      else case store_view (\<lambda>t. t) (Some demo_db) [2] of None \<Rightarrow> Err ErrNotFound | Some v \<Rightarrow> Ok v)"
    using Store_refines_map [OF al_store.ordered_db_axioms demo_idle, of "[7]" "Some 70" "[2]"] by blast
  then show ?thesis by (simp add: store_view_def db_view_def demo_db_def)
qed

text \<open>
  C6: ExecuteBatch.  A batch is applied as a whole when each of its deletes finds its key.
  Otherwise the call returns ErrNotFound, the store is idle again and every key has the value it
  had before, except the keys that the executed part of the batch deleted and then set again.
\<close>

theorem ExecuteBatch_outcome:
  assumes "ordered_db ops valid items ord" "store_idle valid s"
  shows "\<exists>s'. Store_ExecuteBatch ord ops (Some b) s =
      Some (s', if batch_ok (store_view items s) (Ops b) then Ok () else Err ErrNotFound) \<and>
    store_idle valid s' \<and>
    store_view items s' = (if batch_ok (store_view items s) (Ops b)
      then fold write_map (map op_write (Ops b)) (store_view items s)
      else (\<lambda>k. if k \<in> lost_keys (store_view items s) (store_view items s)
                        (executed (store_view items s) (Ops b)) then None
                else store_view items s k))"
proof -
  obtain db where db: "s = Some db" "db_live valid db" "db_mu db = mu_free"
    using assms(2) by (rule store_idleE)
  show ?thesis
    by (rule mem_db.ExecuteBatch_live [OF ordered_db.axioms(1) [OF assms(1)] db(2,3), of ord b])
      (auto simp: db(1) store_view_def store_idle_def ordered_db.ord_perm [OF assms(1)])
qed

definition demo_batch :: "nat Batch" where
  "demo_batch = Batch_Delete [9] (Batch_Set [1] (Some 11) (Batch_Delete [1] NewBatch))"

theorem ExecuteBatch_outcome_witness:
  "\<exists>s'. Store_ExecuteBatch rev al_llrb (Some demo_batch) (Some demo_db) = Some (s', Err ErrNotFound) \<and>
     store_view (\<lambda>t. t) s' [1] = None \<and> store_view (\<lambda>t. t) (Some demo_db) [1] = Some (Some 10)"
proof -
  let ?m = "store_view (\<lambda>t. t) (Some demo_db)"
  have m: "?m = [[1] \<mapsto> Some 10, [2] \<mapsto> Some 20]"
    by (rule ext) (simp add: store_view_def db_view_def demo_db_def)
  have b: "\<not> batch_ok ?m (Ops demo_batch)" "[1] \<in> lost_keys ?m ?m (executed ?m (Ops demo_batch))"
    by (simp_all add: m demo_batch_def Batch_Set_def Batch_Delete_def NewBatch_def op_write_def)
  obtain s' where "Store_ExecuteBatch rev al_llrb (Some demo_batch) (Some demo_db) = Some (s', Err ErrNotFound)"
    "store_view (\<lambda>t. t) s' [1] = None"
    using ExecuteBatch_outcome [OF al_store.ordered_db_axioms demo_idle, of demo_batch] b by auto
  with m show ?thesis by simp
qed

text \<open>
  A batch without a set after a delete of the same key is all or nothing.
\<close>

theorem ExecuteBatch_atomic:
  assumes "ordered_db ops valid items ord" "store_idle valid s"
    and "no_set_after_delete {} (executed (store_view items s) (Ops b))"
    and "Store_ExecuteBatch ord ops (Some b) s = Some (s', r)"
  shows "r = Ok () \<and> store_view items s' = fold write_map (map op_write (Ops b)) (store_view items s) \<or>
    r = Err ErrNotFound \<and> store_view items s' = store_view items s"
proof -
  obtain db where db: "s = Some db" "db_live valid db" "db_mu db = mu_free"
    using assms(2) by (rule store_idleE)
  have "lost_keys (store_view items s) (store_view items s) (executed (store_view items s) (Ops b)) = {}"
    by (rule no_set_after_delete_lost [OF assms(3)]) simp
  then have lost: "lost_keys (db_view items db) (db_view items db) (executed (db_view items db) (Ops b)) = {}"
    by (simp add: db(1) store_view_def)
  obtain db' where "Store_ExecuteBatch ord ops (Some b) (Some db) =
      Some (Some db', if batch_ok (db_view items db) (Ops b) then Ok () else Err ErrNotFound)"
    "db_view items db' = (if batch_ok (db_view items db) (Ops b)
      then fold write_map (map op_write (Ops b)) (db_view items db) else db_view items db)"
    by (rule mem_db.ExecuteBatch_live [OF ordered_db.axioms(1) [OF assms(1)] db(2,3), of ord b])
      (simp_all add: ordered_db.ord_perm [OF assms(1)] lost)
  then show ?thesis using assms(4) by (auto simp: db(1) store_view_def split: if_splits)
qed

definition demo_batch_ok :: "nat Batch" where
  "demo_batch_ok = Batch_Delete [9] (Batch_Delete [1] (Batch_Set [1] (Some 11) NewBatch))"

theorem ExecuteBatch_atomic_witness:
  "\<exists>s'. Store_ExecuteBatch rev al_llrb (Some demo_batch_ok) (Some demo_db) = Some (s', Err ErrNotFound) \<and>
     store_view (\<lambda>t. t) s' = store_view (\<lambda>t. t) (Some demo_db)"
proof -
  let ?m = "store_view (\<lambda>t. t) (Some demo_db)"
  let ?x = "Store_ExecuteBatch rev al_llrb (Some demo_batch_ok) (Some demo_db)"
  have m: "?m = [[1] \<mapsto> Some 10, [2] \<mapsto> Some 20]"
    by (rule ext) (simp add: store_view_def db_view_def demo_db_def)
  have n: "no_set_after_delete {} (executed ?m (Ops demo_batch_ok))"
    by (simp add: m demo_batch_ok_def Batch_Set_def Batch_Delete_def NewBatch_def op_write_def)
  have r: "?x = Some (fst (the ?x), Err ErrNotFound)" by code_simp
  show ?thesis
    using ExecuteBatch_atomic [OF al_store.ordered_db_axioms demo_idle n r] r by auto
qed

text \<open>
  PrefixIterator.  Over llrbdb and over btreedb, for a prefix of ASCII bytes without the
  wildcards, the iteration hands to the callback exactly the items whose key begins with the
  prefix, in ascending order, until the callback stops, and leaves the database as it was.
\<close>

theorem PrefixIterator_visits:
  assumes "llrb_db lops lvalid litems" "db_live lvalid ldb" "db_keys ldb = Some lt" "\<not> mu_writer (db_mu ldb)"
    and "btree_db bops bvalid bitems" "db_live bvalid bdb" "db_keys bdb = Some bt" "\<not> mu_writer (db_mu bdb)"
    and "list_all literal p"
  shows "Store_PrefixIterator ord lops (llrb_scan lops) p (Some it) (Some ldb) s =
      Some (Some ldb, Ok (visit it (prefixed p (litems lt)) s)) \<and>
    Store_PrefixIterator ord bops (btree_scan bops) p (Some it) (Some bdb) s =
      Some (Some bdb, Ok (visit it (prefixed p (bitems bt)) s))"
  by (simp add: llrb_db.llrb_PrefixIterator [OF assms(1-4,9)] btree_db.btree_PrefixIterator [OF assms(5-9)])

text \<open>The callback that collects what it is given.\<close>

definition collect :: "bytes \<Rightarrow> 'v iface \<Rightarrow> (bytes \<times> 'v iface) list \<Rightarrow> bool \<times> (bytes \<times> 'v iface) list" where
  "collect k v acc = (True, acc @ [(k, v)])"

definition demo_text :: "(bytes \<times> nat option) list DB" where
  "demo_text = \<lparr>db_mu = mu_free, db_keys = Some [([0x61], Some 1), ([0x61, 0xFF], Some 2), ([0x62], Some 3)],
     db_closed = False\<rparr>"

lemma demo_text_live: "db_live (\<lambda>t. sorted_keys t) demo_text" "\<not> mu_writer (db_mu demo_text)"
    "db_keys demo_text = Some [([0x61], Some 1), ([0x61, 0xFF], Some 2), ([0x62], Some 3)]"
  by (simp_all add: db_live_def demo_text_def mu_free_def)

theorem PrefixIterator_visits_witness:
  "Store_PrefixIterator rev al_llrb (llrb_scan al_llrb) [0x61] (Some collect) (Some demo_text) [] =
     Some (Some demo_text, Ok [([0x61], Some 1), ([0x61, 0xFF], Some 2)])"
proof -
  have "list_all literal [0x61]" by (simp add: literal_def star_def quest_def)
  then show ?thesis
    using PrefixIterator_visits [OF al_llrb_db.llrb_db_axioms demo_text_live(1,3,2)
        al_btree_db.btree_db_axioms demo_text_live(1,3,2), of "[0x61]" rev collect "[]"]
    by (simp add: collect_def)
qed

text \<open>
  RangeIterator.  Over llrbdb and over btreedb the iteration hands to the callback exactly the
  items with start at most the key and the key below end, in ascending order, until the callback
  stops; a nil bound is no bound.
\<close>

theorem RangeIterator_visits:
  assumes "llrb_db lops lvalid litems" "db_live lvalid ldb" "db_keys ldb = Some lt" "\<not> mu_writer (db_mu ldb)"
    and "btree_db bops bvalid bitems" "db_live bvalid bdb" "db_keys bdb = Some bt" "\<not> mu_writer (db_mu bdb)"
  shows "Store_RangeIterator ord lops (llrb_scan lops) start stop (Some it) (Some ldb) s =
      Some (Some ldb, Ok (visit it (filter (\<lambda>(k, _). (\<forall>a. start = Some a \<longrightarrow> a \<le> k) \<and>
        (\<forall>b. stop = Some b \<longrightarrow> k < b)) (litems lt)) s)) \<and>
    Store_RangeIterator ord bops (btree_scan bops) start stop (Some it) (Some bdb) s =
      Some (Some bdb, Ok (visit it (filter (\<lambda>(k, _). (\<forall>a. start = Some a \<longrightarrow> a \<le> k) \<and>
        (\<forall>b. stop = Some b \<longrightarrow> k < b)) (bitems bt)) s))"
proof -
  have "scan_range False True True start stop xs = filter (\<lambda>(k, _). (\<forall>a. start = Some a \<longrightarrow> a \<le> k) \<and>
      (\<forall>b. stop = Some b \<longrightarrow> k < b)) xs" for xs :: "(bytes \<times> 'w) list"
    by (cases start; cases stop) (simp_all add: scan_range_def limit_item_def not_less)
  note r = this
  show ?thesis
    by (simp add: llrb_db.llrb_RangeIterator [OF assms(1-4)] btree_db.btree_RangeIterator [OF assms(5-8)] r)
qed

theorem RangeIterator_visits_witness:
  "Store_RangeIterator rev al_llrb (llrb_scan al_llrb) (Some [0x61, 0]) None (Some collect) (Some demo_text) [] =
     Some (Some demo_text, Ok [([0x61, 0xFF], Some 2), ([0x62], Some 3)])"
  using RangeIterator_visits [OF al_llrb_db.llrb_db_axioms demo_text_live(1,3,2)
      al_btree_db.btree_db_axioms demo_text_live(1,3,2), of rev "Some [0x61, 0]" None collect "[]"]
  by (simp add: collect_def)

text \<open>
  PrefixIterator over bytes that are not text.  When the prefix begins with a byte that
  begins no UTF-8 sequence of the pattern, the iteration of llrbdb visits nothing, whatever keys
  with that prefix the store holds.
\<close>

theorem PrefixIterator_misses:
  assumes "llrb_db ops valid items" "db_live valid db" "db_keys db = Some t" "\<not> mu_writer (db_mu db)"
    and "0x7F < b" "fst (DecodeRune (b # q @ [star])) = RuneError"
  shows "Store_PrefixIterator ord ops (llrb_scan ops) (b # q) (Some it) (Some db) s = Some (Some db, Ok s)"
  by (rule llrb_db.llrb_PrefixIterator_bad_rune [OF assms])

definition demo_binary :: "(bytes \<times> nat option) list DB" where
  "demo_binary = \<lparr>db_mu = mu_free, db_keys = Some [([0x88, 1], Some 1)], db_closed = False\<rparr>"

lemma demo_binary_live: "db_live (\<lambda>t. sorted_keys t) demo_binary"
    "db_keys demo_binary = Some [([0x88, 1], Some 1)]" "\<not> mu_writer (db_mu demo_binary)"
  by (simp_all add: db_live_def demo_binary_def mu_free_def)

theorem PrefixIterator_misses_witness:
  "Store_PrefixIterator rev al_llrb (llrb_scan al_llrb) [0x88] (Some collect) (Some demo_binary) [] =
     Some (Some demo_binary, Ok [])"
proof -
  have r: "fst (DecodeRune (0x88 # [] @ [star])) = RuneError"
    by (simp add: DecodeRune_def in_range_def)
  have b: "0x7F < (0x88 :: byte)" by simp
  show ?thesis by (rule PrefixIterator_misses [OF al_llrb_db.llrb_db_axioms demo_binary_live b r])
qed

end
