(* ===== verification/Mem_Trie.thy ===== *)
theory Mem_Trie
  imports Mem_Store
begin

text \<open>
  What \<^verbatim>\<open>triedb\<close> does differently from the other two packages: \<^verbatim>\<open>Get\<close> takes a nil value for a
  missing key, and every iteration is a search by prefix
  (\<^verbatim>\<open>engine/kernel/store/memstore/triedb/trie.go\<close>, \<^verbatim>\<open>triedb/store.go\<close>).
\<close>

section \<open>Operations\<close>

definition trie_get :: "('t, 'v iface) trie_ops \<Rightarrow> 't DB \<Rightarrow> bytes \<Rightarrow> 'v iface option" where
  "trie_get ops db key = (case db_keys db of
       None \<Rightarrow> None
     | Some t \<Rightarrow> Some (case tr_Get ops t key of None \<Rightarrow> None | Some v \<Rightarrow> v))"

definition trie_Tx_Get ::
  "('t, 'v iface) trie_ops \<Rightarrow> bytes \<Rightarrow> ('t, 'v) tx_state \<Rightarrow> (mem_error, 'v iface) result" where
  "trie_Tx_Get ops key = (\<lambda>(db, tx).
     if \<not> tx_open tx then Err ErrTxClosed
     else (case trie_get ops db key of
         None \<Rightarrow> Panic
       | Some None \<Rightarrow> Err ErrNotFound
       | Some (Some v) \<Rightarrow> Ok (Some v)))"

text \<open>A nil prefix is the empty one.\<close>

definition trie_AscendPrefixKeys ::
  "('t, 'v iface) trie_ops \<Rightarrow> bytes option \<Rightarrow> ('t, 'v, 's) IterFunc \<Rightarrow> ('t, 'v) tx_state \<Rightarrow> 's
   \<Rightarrow> ('t, 'v) tx_state \<times> (mem_error, 's) result" where
  "trie_AscendPrefixKeys ops pattern iterator = (\<lambda>(db, tx) s.
     if \<not> tx_open tx then ((db, tx), Err ErrTxClosed)
     else (let tx' = add_iterCount 1 tx in
       (case db_keys db of
          None \<Rightarrow> ((db, add_iterCount (-1) tx'), Panic)
        | Some tr \<Rightarrow> ((db, add_iterCount (-1) tx'),
            Ok (visit (iterator (db, tx')) (tri_PrefixSearch ops tr (slice pattern)) s)))))"

definition trie_Ascend ::
  "('t, 'v iface) trie_ops \<Rightarrow> ('t, 'v, 's) IterFunc \<Rightarrow> ('t, 'v) tx_state \<Rightarrow> 's
   \<Rightarrow> ('t, 'v) tx_state \<times> (mem_error, 's) result" where
  "trie_Ascend ops iterator = trie_AscendPrefixKeys ops None iterator"

text \<open>\<^verbatim>\<open>AscendLessThan\<close> and \<^verbatim>\<open>AscendRange\<close> drop the error of the search and return nil.\<close>

definition drop_error :: "'s \<Rightarrow> (mem_error, 's) result \<Rightarrow> (mem_error, 's) result" where
  "drop_error s r = (case r of Err _ \<Rightarrow> Ok s | _ \<Rightarrow> r)"

definition trie_AscendLessThan ::
  "('t, 'v iface) trie_ops \<Rightarrow> bytes option \<Rightarrow> ('t, 'v, 's) IterFunc \<Rightarrow> ('t, 'v) tx_state \<Rightarrow> 's
   \<Rightarrow> ('t, 'v) tx_state \<times> (mem_error, 's) result" where
  "trie_AscendLessThan ops pivot iterator st s = (case trie_AscendPrefixKeys ops None
       (\<lambda>st k v s. if pivot \<noteq> None \<and> \<not> k < slice pivot then (False, s) else iterator st k v s) st s of
     (st', r) \<Rightarrow> (st', drop_error s r))"

definition HasPrefix :: "bytes \<Rightarrow> bytes \<Rightarrow> bool" where
  "HasPrefix s p \<longleftrightarrow> length p \<le> length s \<and> take (length p) s = p"

definition trie_AscendRange ::
  "('t, 'v iface) trie_ops \<Rightarrow> bytes option \<Rightarrow> bytes option \<Rightarrow> ('t, 'v, 's) IterFunc
   \<Rightarrow> ('t, 'v) tx_state \<Rightarrow> 's \<Rightarrow> ('t, 'v) tx_state \<times> (mem_error, 's) result" where
  "trie_AscendRange ops start limit iterator st s =
     (if start \<noteq> None \<and> limit \<noteq> None \<and> \<not> HasPrefix (slice limit) (slice start)
      then (st, Err (ErrMsg ''invalid range''))
      else (case trie_AscendPrefixKeys ops start
         (\<lambda>st k v s. if limit \<noteq> None \<and> \<not> k < slice limit then (False, s) else iterator st k v s) st s of
       (st', r) \<Rightarrow> (st', drop_error s r)))"

definition trie_AscendEqual ::
  "('t, 'v iface) trie_ops \<Rightarrow> bytes option \<Rightarrow> ('t, 'v, 's) IterFunc \<Rightarrow> ('t, 'v) tx_state \<Rightarrow> 's
   \<Rightarrow> ('t, 'v) tx_state \<times> (mem_error, 's) result" where
  "trie_AscendEqual ops pivot iterator = trie_AscendPrefixKeys ops pivot
     (\<lambda>st k v s. if k = slice pivot then iterator st k v s else (False, s))"

section \<open>The store\<close>

definition trie_Store_Get ::
  "'v map_order \<Rightarrow> ('t, 'v iface) trie_ops \<Rightarrow> bytes
   \<Rightarrow> 't Store \<Rightarrow> ('t Store \<times> (mem_error, 'v iface) result) option" where
  "trie_Store_Get ord ops key s = (case s of
       None \<Rightarrow> Some (None, Ok None)
     | Some db \<Rightarrow> map_option (\<lambda>(db', r). (Some db', r))
         (DB_View ord ops (\<lambda>st. (st, trie_Tx_Get ops key st)) db))"

definition trie_Store_PrefixIterator ::
  "'v map_order \<Rightarrow> ('t, 'v iface) trie_ops \<Rightarrow> bytes
   \<Rightarrow> (bytes \<Rightarrow> 'v iface \<Rightarrow> 's \<Rightarrow> bool \<times> 's) option \<Rightarrow> 't Store \<Rightarrow> 's
   \<Rightarrow> ('t Store \<times> (mem_error, 's) result) option" where
  "trie_Store_PrefixIterator ord ops prefix iter s acc = (case (s, iter) of
       (Some db, Some it) \<Rightarrow> with_reader ord ops
         (\<lambda>st. trie_AscendPrefixKeys ops (Some prefix) (\<lambda>_. it) st acc) db
     | _ \<Rightarrow> Some (s, Ok acc))"

definition trie_Store_RangeIterator ::
  "'v map_order \<Rightarrow> ('t, 'v iface) trie_ops \<Rightarrow> bytes option \<Rightarrow> bytes option
   \<Rightarrow> (bytes \<Rightarrow> 'v iface \<Rightarrow> 's \<Rightarrow> bool \<times> 's) option \<Rightarrow> 't Store \<Rightarrow> 's
   \<Rightarrow> ('t Store \<times> (mem_error, 's) result) option" where
  "trie_Store_RangeIterator ord ops start stop iter s acc = (case (s, iter) of
       (Some db, Some it) \<Rightarrow> with_reader ord ops
         (\<lambda>st. trie_AscendRange ops start stop (\<lambda>_. it) st acc) db
     | _ \<Rightarrow> Some (s, Ok acc))"

section \<open>Searches by prefix\<close>

text \<open>Between a string and an extension of it, every string has it as a prefix.\<close>

lemma between_prefix: "\<not> k < p \<Longrightarrow> k < p @ x \<Longrightarrow> take (length p) k = p" for k p x :: bytes
proof (induction p arbitrary: k)
  case (Cons a p)
  then show ?case by (cases k) auto
qed simp

lemma prefix_not_less: "take (length p) k = p \<Longrightarrow> \<not> k < p" for k p :: bytes
proof (induction p arbitrary: k)
  case (Cons a p)
  then show ?case by (cases k) auto
qed simp

lemma takeWhile_less:
  assumes "sorted_keys xs"
  shows "takeWhile (\<lambda>(k, _). k < hi) xs = filter (\<lambda>(k, _). k < hi) xs"
  using assms
proof (induction xs)
  case (Cons x xs)
  have "\<not> fst x < hi \<Longrightarrow> \<forall>y \<in> set xs. \<not> fst y < hi" using Cons.prems by (auto dest: less_trans)
  then show ?case using Cons by (cases "fst x < hi") (auto simp: filter_empty_conv split_def)
qed simp

locale trie_db = trie_lib ops inv items
  for ops :: "('t, 'v option) trie_ops" and inv and items

sublocale trie_db \<subseteq> mem_db ops inv items
  by unfold_locales

context trie_db
begin

lemma AscendPrefixKeys_live:
  assumes "live db" "db_keys db = Some t" "tx_open tx"
  shows "trie_AscendPrefixKeys ops p f (db, tx) s =
    ((db, tx), Ok (visit (f (db, add_iterCount 1 tx)) (prefixed (slice p) (items t)) s))"
  using assms
  by (simp add: trie_AscendPrefixKeys_def Let_def add_iterCount_back tri_PrefixSearch db_live_def)

lemma AscendRange_live:
  assumes "live db" "db_keys db = Some t" "tx_open tx" "HasPrefix limit start"
  shows "trie_AscendRange ops (Some start) (Some limit) f (db, tx) s =
    ((db, tx), Ok (visit (f (db, add_iterCount 1 tx))
       (scan_range False True True (Some start) (Some limit) (items t)) s))"
proof -
  obtain x where x: "limit = start @ x"
    using assms(4) unfolding HasPrefix_def by (metis append_take_drop_id)
  have srt: "sorted_keys (prefixed start (items t))"
    using assms(1,2) items_sorted by (simp add: db_live_def sorted_keys_filter)
  have "(k < limit \<and> take (length start) k = start) = (\<not> k < start \<and> k < limit)" for k
    using between_prefix [of k start x] prefix_not_less [of start k] x by auto
  then have "filter (\<lambda>(k, _). k < limit) (prefixed start (items t)) =
      scan_range False True True (Some start) (Some limit) (items t)"
    by (simp add: scan_range_def limit_item_def case_prod_unfold conj_commute cong: filter_cong)
  then show ?thesis
    using assms takeWhile_less [OF srt, of limit]
    by (simp add: trie_AscendRange_def AscendPrefixKeys_live slice_def visit_until drop_error_def)
qed

lemma trie_Get_live:
  assumes "live db" "\<not> mu_writer (db_mu db)"
  shows "trie_Store_Get ord ops k (Some db) =
    Some (Some db, case view db k of Some (Some v) \<Rightarrow> Ok (Some v) | _ \<Rightarrow> Err ErrNotFound)"
proof -
  have "DB_View ord ops (\<lambda>st. (st, trie_Tx_Get ops k st)) db =
      Some (db, case view db k of Some (Some v) \<Rightarrow> Ok (Some v) | _ \<Rightarrow> Err ErrNotFound)"
  proof (rule View_reading [OF assms])
    fix db0 :: "'t DB" and tx0 :: "('t, 'v) Tx"
    assume 0: "live db0" "view db0 = view db" "tx_open tx0"
    then obtain t where t: "db_keys db0 = Some t" "inv t" by (auto elim: liveE)
    then have "map_of (items t) = view db" using 0(2) by (simp add: db_view_def)
    then show "((db0, tx0), trie_Tx_Get ops k (db0, tx0)) = ((db0, tx0),
        case view db k of Some (Some v) \<Rightarrow> Ok (Some v) | _ \<Rightarrow> Err ErrNotFound)"
      using 0 t by (simp add: trie_Tx_Get_def trie_get_def Get split: option.split)
  qed
  then show ?thesis by (simp add: trie_Store_Get_def)
qed

lemma trie_PrefixIterator_live:
  assumes "live db" "db_keys db = Some t" "\<not> mu_writer (db_mu db)"
  shows "trie_Store_PrefixIterator ord ops p (Some it) (Some db) s =
    Some (Some db, Ok (visit it (prefixed p (items t)) s))"
proof -
  have "with_reader ord ops (\<lambda>st. trie_AscendPrefixKeys ops (Some p) (\<lambda>_. it) st s) db =
      Some (Some db, Ok (visit it (prefixed p (items t)) s))"
    by (rule with_reader_live [OF assms(1,3)]) (simp add: AscendPrefixKeys_live assms(2) slice_def)
  then show ?thesis by (simp add: trie_Store_PrefixIterator_def)
qed

lemma trie_RangeIterator_live:
  assumes "live db" "db_keys db = Some t" "\<not> mu_writer (db_mu db)" "HasPrefix stop start"
  shows "trie_Store_RangeIterator ord ops (Some start) (Some stop) (Some it) (Some db) s =
    Some (Some db, Ok (visit it (scan_range False True True (Some start) (Some stop) (items t)) s))"
proof -
  have "with_reader ord ops (\<lambda>st. trie_AscendRange ops (Some start) (Some stop) (\<lambda>_. it) st s) db =
      Some (Some db, Ok (visit it (scan_range False True True (Some start) (Some stop) (items t)) s))"
    by (rule with_reader_live [OF assms(1,3)]) (simp add: AscendRange_live assms(2,4))
  then show ?thesis by (simp add: trie_Store_RangeIterator_def)
qed

end

interpretation al_trie_db: trie_db "al_trie :: ((bytes \<times> nat option) list, nat option) trie_ops"
    "\<lambda>t. sorted_keys t" "\<lambda>t. t"
  by unfold_locales

section \<open>Properties\<close>

text \<open>
  Iterations of triedb.  PrefixIterator hands out exactly the items whose key begins with the
  prefix, for every prefix; RangeIterator, which searches by prefix, hands out exactly the items
  from start up to end when start is a prefix of end; both in ascending order until the callback
  stops.
\<close>

theorem trie_iterators_visit:
  assumes "trie_db ops valid items" "db_live valid db" "db_keys db = Some t" "\<not> mu_writer (db_mu db)"
    and "HasPrefix stop start"
  shows "trie_Store_PrefixIterator ord ops p (Some it) (Some db) s =
      Some (Some db, Ok (visit it (prefixed p (items t)) s)) \<and>
    trie_Store_RangeIterator ord ops (Some start) (Some stop) (Some it) (Some db) s =
      Some (Some db, Ok (visit it (filter (\<lambda>(k, _). start \<le> k \<and> k < stop) (items t)) s))"
  by (simp add: trie_db.trie_PrefixIterator_live [OF assms(1-4)]
      trie_db.trie_RangeIterator_live [OF assms] scan_range_def limit_item_def not_less)

theorem trie_iterators_visit_witness:
  "trie_Store_RangeIterator rev al_trie (Some [0x61]) (Some [0x61, 0xFF]) (Some collect) (Some demo_text) [] =
     Some (Some demo_text, Ok [([0x61], Some 1)])"
proof -
  have "HasPrefix [0x61, 0xFF] [0x61]" by (simp add: HasPrefix_def)
  from trie_iterators_visit [OF al_trie_db.trie_db_axioms demo_text_live(1,3,2) this, of rev "[]" collect "[]"]
  show ?thesis by (simp add: collect_def)
qed

text \<open>
  A nil value in triedb.  Get returns the value under the key, but a key put with a nil value
  is reported as not found, and the same key is found by llrbdb and btreedb, whose Get returns
  the nil value.
\<close>

theorem trie_Get_nil:
  assumes "trie_db ops valid items" "db_live valid db" "\<not> mu_writer (db_mu db)"
    and "llrb_db lops lvalid litems" "db_live lvalid ldb" "\<not> mu_writer (db_mu ldb)"
  shows "trie_Store_Get ord ops k (Some db) = Some (Some db,
      case db_view items db k of Some (Some v) \<Rightarrow> Ok (Some v) | _ \<Rightarrow> Err ErrNotFound) \<and>
    Store_Get ord lops k (Some ldb) = Some (Some ldb,
      case db_view litems ldb k of Some v \<Rightarrow> Ok v | None \<Rightarrow> Err ErrNotFound)"
proof -
  have "mem_db lops lvalid litems"
    using assms(4) by (simp add: llrb_db_def llrb_lib_def mem_db_def)
  from mem_db.Get_live [OF this assms(5,6)] show ?thesis
    by (simp add: trie_db.trie_Get_live [OF assms(1-3)] split: option.split)
qed

definition demo_nil :: "(bytes \<times> nat option) list DB" where
  "demo_nil = \<lparr>db_mu = mu_free, db_keys = Some [([1], None)], db_closed = False\<rparr>"

lemma demo_nil_live: "db_live (\<lambda>t. sorted_keys t) demo_nil" "\<not> mu_writer (db_mu demo_nil)"
  by (simp_all add: db_live_def demo_nil_def mu_free_def)

theorem trie_Get_nil_witness:
  "trie_Store_Get rev al_trie [1] (Some demo_nil) = Some (Some demo_nil, Err ErrNotFound) \<and>
   Store_Get rev al_llrb [1] (Some demo_nil) = Some (Some demo_nil, Ok None)"
proof -
  have "db_view (\<lambda>t. t) demo_nil [1] = Some None" by (simp add: db_view_def demo_nil_def)
  then show ?thesis
    using trie_Get_nil [OF al_trie_db.trie_db_axioms demo_nil_live al_llrb_db.llrb_db_axioms demo_nil_live,
        of rev "[1]"] by simp
qed

end
