(* ===== verification/Mem_Lock.thy ===== *)
theory Mem_Lock
  imports Mem_Store
begin

text \<open>
  Several transactions on one database, as interleaved calls: the state is the database and the
  transactions handed out so far, a step is one call of \<^verbatim>\<open>Begin\<close>, \<^verbatim>\<open>Set\<close>, \<^verbatim>\<open>Delete\<close>, \<^verbatim>\<open>Commit\<close>,
  \<^verbatim>\<open>Rollback\<close> or \<^verbatim>\<open>Close\<close> that does not have to wait.  The invariant ties the read/write lock to
  the open transactions; from it follow the exclusion of writers, that no call panics and that
  the database does not change under a reader.
\<close>

record ('t, 'v) sys =
  sys_db :: "'t DB"
  sys_txs :: "nat \<rightharpoonup> ('t, 'v) Tx"

definition open_readers :: "(nat \<rightharpoonup> ('t, 'v) Tx) \<Rightarrow> nat set" where
  "open_readers txs = {i. \<exists>tx. txs i = Some tx \<and> tx_open tx \<and> \<not> tx_writable tx}"

definition open_writers :: "(nat \<rightharpoonup> ('t, 'v) Tx) \<Rightarrow> nat set" where
  "open_writers txs = {i. \<exists>tx. txs i = Some tx \<and> tx_open tx \<and> tx_writable tx}"

lemma open_readers_upd: "open_readers (txs(i \<mapsto> tx)) =
    (if tx_open tx \<and> \<not> tx_writable tx then insert i (open_readers txs) else open_readers txs - {i})"
  by (auto simp: open_readers_def)

lemma open_writers_upd: "open_writers (txs(i \<mapsto> tx)) =
    (if tx_open tx \<and> tx_writable tx then insert i (open_writers txs) else open_writers txs - {i})"
  by (auto simp: open_writers_def)

lemma open_readers_dom: "open_readers txs \<subseteq> dom txs"
  by (auto simp: open_readers_def)

inductive sys_step ::
  "('t, 'v iface, 'z) tree_ops_scheme \<Rightarrow> ('t, 'v) sys \<Rightarrow> (mem_error, unit) result \<Rightarrow> ('t, 'v) sys \<Rightarrow> bool"
  for ops where
  begin_ok: "\<lbrakk>DB_Begin w (sys_db s) = Some (db', Ok tx); sys_txs s i = None\<rbrakk> \<Longrightarrow>
     sys_step ops s (Ok ()) \<lparr>sys_db = db', sys_txs = (sys_txs s)(i \<mapsto> tx)\<rparr>"
| begin_err: "DB_Begin w (sys_db s) = Some (db', Err e :: (mem_error, ('t, 'v) Tx) result) \<Longrightarrow>
     sys_step ops s (Err e) (s\<lparr>sys_db := db'\<rparr>)"
| begin_panic: "DB_Begin w (sys_db s) = Some (db', Panic :: (mem_error, ('t, 'v) Tx) result) \<Longrightarrow>
     sys_step ops s Panic (s\<lparr>sys_db := db'\<rparr>)"
| set: "\<lbrakk>sys_txs s i = Some tx; Tx_Set ops k v (sys_db s, tx) = ((db', tx'), r)\<rbrakk> \<Longrightarrow>
     sys_step ops s (result_bind r (\<lambda>_. Ok ())) \<lparr>sys_db = db', sys_txs = (sys_txs s)(i \<mapsto> tx')\<rparr>"
| delete: "\<lbrakk>sys_txs s i = Some tx; Tx_Delete ops k (sys_db s, tx) = ((db', tx'), r)\<rbrakk> \<Longrightarrow>
     sys_step ops s (result_bind r (\<lambda>_. Ok ())) \<lparr>sys_db = db', sys_txs = (sys_txs s)(i \<mapsto> tx')\<rparr>"
| commit: "\<lbrakk>sys_txs s i = Some tx; Tx_Commit (sys_db s, tx) = ((db', tx'), r)\<rbrakk> \<Longrightarrow>
     sys_step ops s r \<lparr>sys_db = db', sys_txs = (sys_txs s)(i \<mapsto> tx')\<rparr>"
| rollback: "\<lbrakk>sys_txs s i = Some tx; Tx_Rollback ord ops (sys_db s, tx) = ((db', tx'), r);
     \<forall>l. mset (ord l) = mset l\<rbrakk> \<Longrightarrow>
     sys_step ops s r \<lparr>sys_db = db', sys_txs = (sys_txs s)(i \<mapsto> tx')\<rparr>"
| close: "DB_Close (sys_db s) = Some (db', r) \<Longrightarrow> sys_step ops s r (s\<lparr>sys_db := db'\<rparr>)"

definition sys_init :: "'t DB \<Rightarrow> ('t, 'v) sys" where
  "sys_init db = \<lparr>sys_db = db, sys_txs = Map.empty\<rparr>"

inductive sys_reach :: "('t, 'v iface, 'z) tree_ops_scheme \<Rightarrow> ('t, 'v) sys \<Rightarrow> bool" for ops where
  init: "NewDB ops = Ok db \<Longrightarrow> sys_reach ops (sys_init db)"
| step: "sys_reach ops s \<Longrightarrow> sys_step ops s r s' \<Longrightarrow> sys_reach ops s'"

context mem_db
begin

text \<open>
  The lock counts the open readers and is held for writing by the one open writer, if any; open
  transactions have an open database, and an open writer a log that fits its writes.
\<close>

definition sys_inv :: "('t, 'v) sys \<Rightarrow> bool" where
  "sys_inv s \<longleftrightarrow> finite (dom (sys_txs s)) \<and>
     mu_readers (db_mu (sys_db s)) = card (open_readers (sys_txs s)) \<and>
     (mu_writer (db_mu (sys_db s)) \<longleftrightarrow> open_writers (sys_txs s) \<noteq> {}) \<and>
     (\<forall>i \<in> open_writers (sys_txs s). open_writers (sys_txs s) = {i} \<and> open_readers (sys_txs s) = {}) \<and>
     (db_closed (sys_db s) \<and> open_readers (sys_txs s) = {} \<and> open_writers (sys_txs s) = {}
      \<or> live (sys_db s)) \<and>
     (\<forall>i tx. sys_txs s i = Some tx \<longrightarrow> \<not> tx_funcd tx \<and>
        (tx_open tx \<and> tx_writable tx \<longrightarrow> (\<exists>m0 L. logged m0 L (sys_db s, tx))))"

lemma sys_invD:
  assumes "sys_inv s"
  shows "finite (open_readers (sys_txs s))"
    and "sys_txs s i = Some tx \<Longrightarrow> tx_open tx \<Longrightarrow> live (sys_db s)"
  using assms finite_subset [OF open_readers_dom [of "sys_txs s"]]
  by (auto simp: sys_inv_def open_readers_def open_writers_def)

text \<open>A call on the one open writer leaves the lock and the set of open transactions.\<close>

lemma writer_call_inv:
  assumes "sys_inv s" "sys_txs s i = Some tx" "tx_open tx" "tx_writable tx"
    and "logged m0 L (db', tx')" "db_mu db' = db_mu (sys_db s)" "tx_funcd tx' = tx_funcd tx"
  shows "sys_inv \<lparr>sys_db = db', sys_txs = (sys_txs s)(i \<mapsto> tx')\<rparr>"
proof -
  have i: "i \<in> open_writers (sys_txs s)" using assms(2-4) by (auto simp: open_writers_def)
  then have w: "open_writers (sys_txs s) = {i}" "open_readers (sys_txs s) = {}"
    using assms(1) by (auto simp: sys_inv_def)
  have tx': "tx_open tx'" "tx_writable tx'" "live db'" using assms(5) by (auto simp: logged_def)
  have other: "\<not> (tx_open tx'' \<and> tx_writable tx'')" if "sys_txs s j = Some tx''" "j \<noteq> i" for j tx''
    using w(1) that by (auto simp: open_writers_def)
  show ?thesis
    using assms i w tx' other
    by (auto simp: sys_inv_def open_readers_upd open_writers_upd)
qed

text \<open>The end of the writer, and of a reader.\<close>

lemma writer_end_inv:
  assumes "sys_inv s" "sys_txs s i = Some tx" "tx_open tx" "tx_writable tx"
    and "live db'" "db_mu db' = (db_mu (sys_db s))\<lparr>mu_writer := False\<rparr>"
  shows "sys_inv \<lparr>sys_db = db', sys_txs = (sys_txs s)(i \<mapsto> tx\<lparr>tx_open := False\<rparr>)\<rparr>"
proof -
  have i: "i \<in> open_writers (sys_txs s)" using assms(2-4) by (auto simp: open_writers_def)
  then have w: "open_writers (sys_txs s) = {i}" "open_readers (sys_txs s) = {}"
    using assms(1) by (auto simp: sys_inv_def)
  have other: "\<not> (tx_open tx'' \<and> tx_writable tx'')" if "sys_txs s j = Some tx''" "j \<noteq> i" for j tx''
    using w(1) that by (auto simp: open_writers_def)
  show ?thesis
    using assms w other by (auto simp: sys_inv_def open_readers_upd open_writers_upd)
qed

lemma reader_end_inv:
  assumes "sys_inv s" "sys_txs s i = Some tx" "tx_open tx" "\<not> tx_writable tx"
  shows "sys_inv \<lparr>sys_db = (sys_db s)\<lparr>db_mu := (db_mu (sys_db s))\<lparr>mu_readers := mu_readers (db_mu (sys_db s)) - 1\<rparr>\<rparr>,
    sys_txs = (sys_txs s)(i \<mapsto> tx\<lparr>tx_open := False\<rparr>)\<rparr>"
proof -
  have i: "i \<in> open_readers (sys_txs s)" using assms(2-4) by (auto simp: open_readers_def)
  moreover have "open_writers (sys_txs s) = {}" using i assms(1) by (auto simp: sys_inv_def)
  moreover have "live (sys_db s)" using sys_invD(2) [OF assms(1-3)] .
  moreover have "\<not> (tx_open tx'' \<and> tx_writable tx'')" if "sys_txs s j = Some tx''" for j tx''
    using \<open>open_writers (sys_txs s) = {}\<close> that by (auto simp: open_writers_def)
  ultimately show ?thesis
    using assms sys_invD(1) [OF assms(1)]
    by (auto simp: sys_inv_def open_readers_upd open_writers_upd card_Diff_singleton)
qed

lemma same_sys: "sys_txs s i = Some tx \<Longrightarrow> \<lparr>sys_db = sys_db s, sys_txs = (sys_txs s)(i \<mapsto> tx)\<rparr> = s"
  by (cases s) auto

text \<open>What a step keeps: the invariant, no panic, and the contents while a reader is open.\<close>

definition step_ok :: "('t, 'v) sys \<Rightarrow> (mem_error, unit) result \<Rightarrow> ('t, 'v) sys \<Rightarrow> bool" where
  "step_ok s r s' \<longleftrightarrow> sys_inv s' \<and> r \<noteq> Panic \<and>
     (open_readers (sys_txs s) \<noteq> {} \<longrightarrow> view (sys_db s') = view (sys_db s))"

lemma step_ok_same: "sys_inv s \<Longrightarrow> r \<noteq> Panic \<Longrightarrow> sys_txs s i = Some tx \<Longrightarrow>
    step_ok s r \<lparr>sys_db = sys_db s, sys_txs = (sys_txs s)(i \<mapsto> tx)\<rparr>"
  by (simp add: step_ok_def same_sys)

lemma writer_logged:
  assumes "sys_inv s" "sys_txs s i = Some tx" "tx_open tx" "tx_writable tx"
  obtains m0 L where "logged m0 L (sys_db s, tx)" "mu_writer (db_mu (sys_db s))" "\<not> tx_funcd tx"
    "open_readers (sys_txs s) = {}"
proof -
  have i: "i \<in> open_writers (sys_txs s)" using assms(2-4) by (auto simp: open_writers_def)
  then have "mu_writer (db_mu (sys_db s))" "open_readers (sys_txs s) = {}" "\<not> tx_funcd tx"
    "\<exists>m0 L. logged m0 L (sys_db s, tx)"
    using assms by (auto simp: sys_inv_def)
  with that show thesis by blast
qed

lemma set_ok:
  assumes "sys_inv s" "sys_txs s i = Some tx" "Tx_Set ops k v (sys_db s, tx) = ((db', tx'), r)"
  shows "step_ok s (result_bind r (\<lambda>_. Ok ())) \<lparr>sys_db = db', sys_txs = (sys_txs s)(i \<mapsto> tx')\<rparr>"
proof (cases "tx_open tx \<and> tx_writable tx")
  case True
  then obtain m0 L where l: "logged m0 L (sys_db s, tx)" "open_readers (sys_txs s) = {}"
    using writer_logged [OF assms(1,2)] by blast
  obtain db1 tx1 where e: "Tx_Set ops k v (sys_db s, tx) = ((db1, tx1),
      Ok (case view (sys_db s) k of None \<Rightarrow> (None, False) | Some p \<Rightarrow> (p, True)))"
    "logged m0 (L \<union> lost_step m0 (view (sys_db s)) (WSet k v)) (db1, tx1)"
    "view db1 = (view (sys_db s))(k \<mapsto> v)" "db_mu db1 = db_mu (sys_db s)" "tx_funcd tx1 = tx_funcd tx"
    by (rule Tx_Set_logged [OF l(1)])
  then show ?thesis
    using writer_call_inv [OF assms(1,2) _ _ e(2,4,5)] True assms(3) l(2) by (simp add: step_ok_def)
next
  case False
  then show ?thesis
    using assms(3) step_ok_same [OF assms(1) _ assms(2)] by (auto simp: Tx_Set_def split: if_splits)
qed

lemma delete_ok_step:
  assumes "sys_inv s" "sys_txs s i = Some tx" "Tx_Delete ops k (sys_db s, tx) = ((db', tx'), r)"
  shows "step_ok s (result_bind r (\<lambda>_. Ok ())) \<lparr>sys_db = db', sys_txs = (sys_txs s)(i \<mapsto> tx')\<rparr>"
proof (cases "tx_open tx \<and> tx_writable tx")
  case True
  then obtain m0 L where l: "logged m0 L (sys_db s, tx)" "open_readers (sys_txs s) = {}"
    using writer_logged [OF assms(1,2)] by blast
  obtain db1 tx1 where e: "Tx_Delete ops k (sys_db s, tx) =
      ((db1, tx1), case view (sys_db s) k of None \<Rightarrow> Err ErrNotFound | Some p \<Rightarrow> Ok p)"
    "logged m0 L (db1, tx1)" "view db1 = (view (sys_db s))(k := None)" "db_mu db1 = db_mu (sys_db s)"
    "tx_funcd tx1 = tx_funcd tx"
    by (rule Tx_Delete_logged [OF l(1)])
  moreover have "r \<noteq> Panic" using e(1) assms(3) by (auto split: option.splits)
  ultimately show ?thesis
    using writer_call_inv [OF assms(1,2) _ _ e(2,4,5)] True assms(3) l(2)
    by (cases "view (sys_db s) k") (simp_all add: step_ok_def)
next
  case False
  then show ?thesis
    using assms(3) step_ok_same [OF assms(1) _ assms(2)] by (auto simp: Tx_Delete_def split: if_splits)
qed

lemma commit_ok:
  assumes "sys_inv s" "sys_txs s i = Some tx" "Tx_Commit (sys_db s, tx) = ((db', tx'), r)"
  shows "step_ok s r \<lparr>sys_db = db', sys_txs = (sys_txs s)(i \<mapsto> tx')\<rparr>"
proof (cases "tx_open tx \<and> tx_writable tx")
  case True
  then obtain m0 L where l: "logged m0 L (sys_db s, tx)" "mu_writer (db_mu (sys_db s))"
      "\<not> tx_funcd tx" "open_readers (sys_txs s) = {}"
    using writer_logged [OF assms(1,2)] by blast
  then show ?thesis
    using Commit_logged [OF l(1,3,2)] writer_end_inv [OF assms(1,2)] True assms(3)
    by (fastforce simp: step_ok_def)
next
  case False
  moreover have "\<not> tx_funcd tx" using assms(1,2) by (auto simp: sys_inv_def)
  ultimately show ?thesis
    using assms step_ok_same [OF assms(1) _ assms(2)] by (auto simp: Tx_Commit_def split: if_splits)
qed

lemma rollback_ok:
  assumes "sys_inv s" "sys_txs s i = Some tx" "Tx_Rollback ord ops (sys_db s, tx) = ((db', tx'), r)"
    "\<forall>l. mset (ord l) = mset l"
  shows "step_ok s r \<lparr>sys_db = db', sys_txs = (sys_txs s)(i \<mapsto> tx')\<rparr>"
proof -
  have f: "\<not> tx_funcd tx" using assms(1,2) by (auto simp: sys_inv_def)
  consider "\<not> tx_open tx" | "tx_open tx" "tx_writable tx" | "tx_open tx" "\<not> tx_writable tx" by blast
  then show ?thesis
  proof cases
    case 1
    then show ?thesis
      using assms f step_ok_same [OF assms(1) _ assms(2)] by (auto simp: Tx_Rollback_def)
  next
    case 2
    then obtain m0 L where l: "logged m0 L (sys_db s, tx)" "mu_writer (db_mu (sys_db s))"
        "open_readers (sys_txs s) = {}"
      using writer_logged [OF assms(1,2)] by blast
    then show ?thesis
      using Rollback_logged [OF l(1) f l(2), of ord] writer_end_inv [OF assms(1,2)] 2 assms(3,4)
      by (fastforce simp: step_ok_def)
  next
    case 3
    then have "i \<in> open_readers (sys_txs s)" using assms(2) by (auto simp: open_readers_def)
    then have "0 < mu_readers (db_mu (sys_db s))"
      using assms(1) sys_invD(1) [OF assms(1)] by (auto simp: sys_inv_def card_gt_0_iff)
    then show ?thesis
      using assms 3 f reader_end_inv [OF assms(1,2) 3]
      by (auto simp: Tx_Rollback_def Tx_unlock_def RUnlock_def step_ok_def)
  qed
qed

lemma live_unlock: "live db \<Longrightarrow> \<not> db_closed db"
  by (rule liveE)

lemma begin_ok_step:
  assumes "sys_inv s" "DB_Begin w (sys_db s) = Some (db', Ok tx)" "sys_txs s i = None"
  shows "step_ok s (Ok ()) \<lparr>sys_db = db', sys_txs = (sys_txs s)(i \<mapsto> tx)\<rparr>"
proof -
  have c: "\<not> db_closed (sys_db s)" "live (sys_db s)"
    using assms(1,2) live_unlock
    by (auto simp: DB_Begin_def Tx_lock_def Tx_unlock_def Lock_def RLock_def Unlock_def RUnlock_def
        sys_inv_def split: option.splits if_splits)
  have i: "i \<notin> open_readers (sys_txs s)" "i \<notin> open_writers (sys_txs s)"
    using assms(3) by (auto simp: open_readers_def open_writers_def)
  show ?thesis
  proof (cases w)
    case True
    then have free: "\<not> mu_writer (db_mu (sys_db s))" "mu_readers (db_mu (sys_db s)) = 0"
      using assms(2) by (auto simp: DB_Begin_def Tx_lock_def Lock_def split: if_splits)
    then have e: "open_readers (sys_txs s) = {}" "open_writers (sys_txs s) = {}"
      using assms(1) sys_invD(1) [OF assms(1)] by (auto simp: sys_inv_def)
    then have other: "\<not> (tx_open tx'' \<and> tx_writable tx'')" if "sys_txs s j = Some tx''" for j tx''
      using that by (auto simp: open_writers_def)
    have "logged (view (sys_db s)) {} (db', tx)"
      using assms(2) True c free log_rel_empty [of "view (sys_db s)"]
      by (auto simp: DB_Begin_def Tx_lock_def Lock_def logged_def)
    then show ?thesis
      using assms True c e free other
      by (auto simp: step_ok_def sys_inv_def DB_Begin_def Tx_lock_def Lock_def open_readers_upd
          open_writers_upd)
  next
    case False
    then have free: "\<not> mu_writer (db_mu (sys_db s))"
      using assms(2) by (auto simp: DB_Begin_def Tx_lock_def RLock_def split: if_splits)
    then have e: "open_writers (sys_txs s) = {}" using assms(1) by (auto simp: sys_inv_def)
    then have other: "\<not> (tx_open tx'' \<and> tx_writable tx'')" if "sys_txs s j = Some tx''" for j tx''
      using that by (auto simp: open_writers_def)
    then show ?thesis
      using assms False c e free i sys_invD(1) [OF assms(1)]
      by (auto simp: step_ok_def sys_inv_def DB_Begin_def Tx_lock_def RLock_def open_readers_upd
          open_writers_upd)
  qed
qed

lemma begin_err_step:
  assumes "sys_inv s" "DB_Begin w (sys_db s) = Some (db', r :: (mem_error, ('t, 'v) Tx) result)" "\<forall>tx. r \<noteq> Ok tx"
  shows "db' = sys_db s \<and> r \<noteq> Panic"
  using assms(2,3)
  by (cases "sys_db s"; cases "db_mu (sys_db s)")
    (auto simp: DB_Begin_def Tx_lock_def Tx_unlock_def Lock_def RLock_def
      Unlock_def RUnlock_def split: if_splits)

lemma close_ok:
  assumes "sys_inv s" "DB_Close (sys_db s) = Some (db', r)"
  shows "step_ok s r (s\<lparr>sys_db := db'\<rparr>)"
proof -
  have free: "\<not> mu_writer (db_mu (sys_db s))" "mu_readers (db_mu (sys_db s)) = 0"
    using assms(2) by (auto simp: DB_Close_def Lock_def split: if_splits)
  then have e: "open_readers (sys_txs s) = {}" "open_writers (sys_txs s) = {}"
    using assms(1) sys_invD(1) [OF assms(1)] by (auto simp: sys_inv_def)
  then have other: "\<not> (tx_open tx'' \<and> tx_writable tx'')" if "sys_txs s j = Some tx''" for j tx''
    using that by (auto simp: open_writers_def)
  then show ?thesis
    using assms e free
    by (auto simp: step_ok_def sys_inv_def DB_Close_def Lock_def Unlock_def split: if_splits)
qed

lemma sys_step_ok: "sys_inv s \<Longrightarrow> sys_step ops s r s' \<Longrightarrow> step_ok s r s'"
proof (erule sys_step.cases, goal_cases)
  case (2 w s db' e)
  then show ?case using begin_err_step [of s w db' "Err e"] by (simp add: step_ok_def)
next
  case (3 w s db')
  then show ?case using begin_err_step [of s w db' Panic] by simp
qed (simp_all add: begin_ok_step set_ok delete_ok_step commit_ok rollback_ok close_ok)

lemma sys_reach_inv: "sys_reach ops s \<Longrightarrow> sys_inv s"
proof (induction rule: sys_reach.induct)
  case (init db)
  then show ?case
    by (auto simp: NewDB_def sys_init_def sys_inv_def mu_free_def open_readers_def open_writers_def
        db_live_def New)
next
  case (step s r s')
  then show ?case using sys_step_ok by (auto simp: step_ok_def)
qed

end

section \<open>Properties\<close>

text \<open>
  C16: One writer.  In every interleaving of calls, while a writable transaction is open no other
  transaction is, neither a reader nor a writer.
\<close>

theorem writer_alone:
  assumes "mem_db ops valid items" "sys_reach ops s"
    and "sys_txs s i = Some tx" "tx_open tx" "tx_writable tx"
    and "sys_txs s j = Some tx'" "tx_open tx'"
  shows "j = i"
proof -
  have "i \<in> open_writers (sys_txs s)" using assms(3-5) by (auto simp: open_writers_def)
  then have "open_writers (sys_txs s) = {i} \<and> open_readers (sys_txs s) = {}"
    using mem_db.sys_reach_inv [OF assms(1,2)] by (auto simp: mem_db.sys_inv_def [OF assms(1)])
  then show ?thesis using assms(6,7) by (auto simp: open_writers_def open_readers_def)
qed

definition demo_new :: "(bytes \<times> nat option) list DB" where
  "demo_new = \<lparr>db_mu = mu_free, db_keys = Some [], db_closed = False\<rparr>"

definition demo_sys :: "((bytes \<times> nat option) list, nat) sys" where
  "demo_sys = \<lparr>sys_db = demo_new\<lparr>db_mu := mu_free\<lparr>mu_writer := True\<rparr>\<rparr>, sys_txs = [0 \<mapsto> demo_tx]\<rparr>"

lemma demo_begin_step:
  "sys_step (al_llrb :: ((bytes \<times> nat option) list, nat option) llrb_ops) (sys_init demo_new) (Ok ()) demo_sys"
proof -
  have "DB_Begin True (sys_db (sys_init demo_new)) =
      Some (demo_new\<lparr>db_mu := mu_free\<lparr>mu_writer := True\<rparr>\<rparr>, Ok demo_tx)"
    by (simp add: sys_init_def) code_simp
  from sys_step.begin_ok [OF this, of 0 al_llrb] show ?thesis
    by (simp add: sys_init_def demo_sys_def)
qed

lemma demo_init: "sys_reach (al_llrb :: ((bytes \<times> nat option) list, nat option) llrb_ops) (sys_init demo_new)"
  by (rule sys_reach.init) (simp add: NewDB_def demo_new_def al_llrb_def)

lemma demo_reach: "sys_reach (al_llrb :: ((bytes \<times> nat option) list, nat option) llrb_ops) demo_sys"
  by (rule sys_reach.step [OF demo_init demo_begin_step])

theorem writer_alone_witness: "\<exists>tx. sys_txs demo_sys 0 = Some tx \<and> tx_open tx \<and> tx_writable tx \<and> (0::nat) = 0"
proof -
  have tx: "sys_txs demo_sys 0 = Some demo_tx" "tx_open demo_tx" "tx_writable demo_tx"
    by (simp_all add: demo_sys_def demo_tx_def)
  have "(0::nat) = 0" by (rule writer_alone [OF al_db.mem_db_axioms demo_reach tx tx(1,2)])
  with tx show ?thesis by blast
qed


definition demo_reader :: "((bytes \<times> nat option) list, nat) Tx" where
  "demo_reader = \<lparr>tx_open = True, tx_writable = False, tx_funcd = False, tx_wc = None\<rparr>"

definition demo_read :: "((bytes \<times> nat option) list, nat) sys" where
  "demo_read = \<lparr>sys_db = demo_new\<lparr>db_mu := \<lparr>mu_readers = 1, mu_writer = False\<rparr>\<rparr>, sys_txs = [0 \<mapsto> demo_reader]\<rparr>"

definition demo_read2 :: "((bytes \<times> nat option) list, nat) sys" where
  "demo_read2 = \<lparr>sys_db = demo_new\<lparr>db_mu := \<lparr>mu_readers = 2, mu_writer = False\<rparr>\<rparr>,
     sys_txs = [0 \<mapsto> demo_reader, 1 \<mapsto> demo_reader]\<rparr>"

lemma demo_read_step:
  "sys_step (al_llrb :: ((bytes \<times> nat option) list, nat option) llrb_ops) (sys_init demo_new) (Ok ()) demo_read"
  "sys_step (al_llrb :: ((bytes \<times> nat option) list, nat option) llrb_ops) demo_read (Ok ()) demo_read2"
proof -
  have "DB_Begin False (sys_db (sys_init demo_new)) =
      Some (demo_new\<lparr>db_mu := \<lparr>mu_readers = 1, mu_writer = False\<rparr>\<rparr>, Ok demo_reader)"
    by (simp add: sys_init_def) code_simp
  from sys_step.begin_ok [OF this, of 0 al_llrb]
  show "sys_step al_llrb (sys_init demo_new) (Ok ()) demo_read" by (simp add: sys_init_def demo_read_def)
  have "DB_Begin False (sys_db demo_read) =
      Some (demo_new\<lparr>db_mu := \<lparr>mu_readers = 2, mu_writer = False\<rparr>\<rparr>, Ok demo_reader)"
    by (simp add: demo_read_def) code_simp
  from sys_step.begin_ok [OF this, of 1 al_llrb]
  show "sys_step al_llrb demo_read (Ok ()) demo_read2" by (simp add: demo_read_def demo_read2_def)
qed


end
