(* ===== verification/Index_Keys.thy ===== *)
theory Index_Keys
  imports Encoding_Value
begin

text \<open>
  The keys and rows of the inverted index (\<^verbatim>\<open>engine/kernel/index/indexImpl/encoding.go\<close>): stored
  fields, postings, positions and the list of terms of a field, built from the encodings of
  \<^verbatim>\<open>util/encoding\<close>.  The lemmas show how the keys sort, that a prefix selects the postings of a
  term, and what the decoders give back.
\<close>

section \<open>Data\<close>

definition KEY_TYPE_F :: byte where "KEY_TYPE_F = 0x46"
definition KEY_TYPE_I :: byte where "KEY_TYPE_I = 0x49"
definition KEY_TYPE_P :: byte where "KEY_TYPE_P = 0x50"
definition KEY_TYPE_T :: byte where "KEY_TYPE_T = 0x54"

definition FIELD_TYPE_U :: byte where "FIELD_TYPE_U = 0x55"
definition FIELD_TYPE_S :: byte where "FIELD_TYPE_S = 0x53"
definition FIELD_TYPE_I :: byte where "FIELD_TYPE_I = 0x49"
definition FIELD_TYPE_F :: byte where "FIELD_TYPE_F = 0x46"
definition FIELD_TYPE_D :: byte where "FIELD_TYPE_D = 0x44"
definition FIELD_TYPE_BOOL :: byte where "FIELD_TYPE_BOOL = 0x62"
definition FIELD_TYPE_N :: byte where "FIELD_TYPE_N = 0x4E"
definition FIELD_TYPE_T :: byte where "FIELD_TYPE_T = 0x54"
definition FIELD_TYPE_B :: byte where "FIELD_TYPE_B = 0x42"

lemmas field_type_defs = FIELD_TYPE_U_def FIELD_TYPE_S_def FIELD_TYPE_I_def FIELD_TYPE_F_def
  FIELD_TYPE_D_def FIELD_TYPE_BOOL_def FIELD_TYPE_N_def FIELD_TYPE_T_def FIELD_TYPE_B_def

text \<open>The value types of the wire format; \<open>VOther\<close> is any number without a name.\<close>

datatype ValueType = VUnknown | VString | VInt | VFloat | VDecimal | VBool | VNull | VTime | VBlob
  | VOther int

record Field =
  fld_Id :: u32
  fld_Type :: ValueType
  fld_Stored :: bool
  fld_Data :: bytes

datatype index_error = InvalidFieldKey | InvalidFieldRow | NoTerms | InvalidTermAbstractKey
  | EncErr enc_error

fun lift_enc :: "(enc_error, 'a) result \<Rightarrow> (index_error, 'a) result" where
  "lift_enc (Ok x) = Ok x"
| "lift_enc (Err e) = Err (EncErr e)"
| "lift_enc Panic = Panic"

definition fieldTypeOuter :: "byte \<Rightarrow> ValueType" where
  "fieldTypeOuter t =
     (if t = FIELD_TYPE_S then VString
      else if t = FIELD_TYPE_I then VInt
      else if t = FIELD_TYPE_F then VFloat
      else if t = FIELD_TYPE_D then VDecimal
      else if t = FIELD_TYPE_BOOL then VBool
      else if t = FIELD_TYPE_N then VNull
      else if t = FIELD_TYPE_T then VTime
      else if t = FIELD_TYPE_B then VBlob
      else VUnknown)"

fun fieldTypeInner :: "ValueType \<Rightarrow> byte" where
  "fieldTypeInner VString = FIELD_TYPE_S"
| "fieldTypeInner VInt = FIELD_TYPE_I"
| "fieldTypeInner VFloat = FIELD_TYPE_F"
| "fieldTypeInner VDecimal = FIELD_TYPE_D"
| "fieldTypeInner VBool = FIELD_TYPE_BOOL"
| "fieldTypeInner VNull = FIELD_TYPE_N"
| "fieldTypeInner VTime = FIELD_TYPE_T"
| "fieldTypeInner VBlob = FIELD_TYPE_B"
| "fieldTypeInner _ = FIELD_TYPE_U"

section \<open>Stored fields\<close>

definition encodeStoreFieldKey :: "bytes \<Rightarrow> u32 \<Rightarrow> bytes" where
  "encodeStoreFieldKey docID fieldId =
     (let key = EncodeBytesAscending [KEY_TYPE_F] docID
      in if fieldId > 0 then EncodeUint32Ascending key fieldId else key)"

definition decodeStoreFieldKey :: "bytes \<Rightarrow> (index_error, bytes \<times> u32) result" where
  "decodeStoreFieldKey key =
     (if length key \<le> 2 then Err InvalidFieldKey
      else if key ! 0 \<noteq> KEY_TYPE_F then Err InvalidFieldKey
      else result_bind (lift_enc (DecodeBytesAscending (drop 1 key) []))
        (\<lambda>(key, docId). result_bind (lift_enc (DecodeUint32Ascending key))
          (\<lambda>(_, fileId). Ok (docId, fileId))))"

text \<open>A field that is not stored has neither a key nor a row.\<close>

definition encodeStoreField :: "bytes \<Rightarrow> Field \<Rightarrow> (bytes \<times> bytes) option" where
  "encodeStoreField docID field =
     (if \<not> fld_Stored field then None
      else let fieldType = fieldTypeInner (fld_Type field);
               row = [fieldType]
           in Some (encodeStoreFieldKey docID (fld_Id field),
                    if length (fld_Data field) > 0 then row @ fld_Data field else row))"

text \<open>The decoded field has no descriptor, so that it counts as not stored.\<close>

definition decodeStoreField :: "u32 \<Rightarrow> bytes \<Rightarrow> (index_error, Field) result" where
  "decodeStoreField fieldId row =
     (if length row = 0 then Err InvalidFieldRow
      else let fieldType = row ! 0;
               field = \<lparr>fld_Id = fieldId, fld_Type = fieldTypeOuter fieldType, fld_Stored = False,
                        fld_Data = []\<rparr>
           in if fieldType = FIELD_TYPE_N then Ok field
              else if length (drop 1 row) = 0 then Err InvalidFieldRow
              else Ok (field\<lparr>fld_Data := drop 1 row\<rparr>))"

section \<open>Postings and positions\<close>

definition encodeIndexKey :: "bytes \<Rightarrow> u32 \<Rightarrow> bytes \<Rightarrow> bytes" where
  "encodeIndexKey docID fieldId term =
     EncodeBytesAscending (EncodeBytesAscending (EncodeUint32Ascending [KEY_TYPE_I] fieldId) term) docID"

definition encodeIndex :: "bytes \<Rightarrow> u32 \<Rightarrow> bytes \<Rightarrow> i64 \<Rightarrow> bytes \<times> bytes" where
  "encodeIndex docID fieldId term freq =
     (encodeIndexKey docID fieldId term, EncodeIntValue [] 0 freq)"

text \<open>A position is an \<^verbatim>\<open>int\<close>; its lower half goes into the key.\<close>

definition encodeIndexPositionKey :: "bytes \<Rightarrow> u32 \<Rightarrow> bytes \<Rightarrow> i64 \<Rightarrow> bytes" where
  "encodeIndexPositionKey docID fieldId term pos =
     (let key = EncodeBytesAscending (EncodeBytesAscending
            (EncodeUint32Ascending [KEY_TYPE_P] fieldId) term) docID
      in if 0 <s pos then EncodeUint32Ascending key (ucast pos) else key)"

definition encodeIndexPosition ::
    "bytes \<Rightarrow> u32 \<Rightarrow> bytes \<Rightarrow> i64 \<Rightarrow> i64 \<Rightarrow> i64 \<Rightarrow> bytes \<times> bytes" where
  "encodeIndexPosition docID fieldId term pos start stop =
     (let row = EncodeIntValue [] 0 pos
      in (encodeIndexPositionKey docID fieldId term pos,
          if 0 <s stop then EncodeIntValue (EncodeIntValue row 1 start) 2 stop else row))"

section \<open>The terms of a field\<close>

definition encodeFieldTermAbstractKey :: "bytes \<Rightarrow> u32 \<Rightarrow> bytes" where
  "encodeFieldTermAbstractKey docID fieldId =
     (let key = EncodeBytesAscending [KEY_TYPE_T] docID
      in if fieldId > 0 then EncodeUint32Ascending key fieldId else key)"

fun encodeTerms :: "bytes \<Rightarrow> nat \<Rightarrow> bytes list \<Rightarrow> bytes" where
  "encodeTerms row i [] = row"
| "encodeTerms row i (term # terms) =
     encodeTerms (EncodeBytesValue row (word_of_nat i) term) (i + 1) terms"

definition encodeFieldTermAbstract ::
    "bytes \<Rightarrow> u32 \<Rightarrow> bytes list \<Rightarrow> (index_error, bytes \<times> bytes) result" where
  "encodeFieldTermAbstract docID fieldId terms =
     (if length terms = 0 then Err NoTerms
      else Ok (encodeFieldTermAbstractKey docID fieldId, encodeTerms [] 0 terms))"

definition decodeFieldTermAbstractKey :: "bytes \<Rightarrow> (index_error, bytes \<times> u32) result" where
  "decodeFieldTermAbstractKey key =
     (if length key \<le> 1 \<or> key ! 0 \<noteq> KEY_TYPE_T then Err InvalidTermAbstractKey
      else result_bind (lift_enc (DecodeBytesAscending (drop 1 key) []))
        (\<lambda>(key, docID). result_bind (lift_enc (DecodeUint32Ascending key))
          (\<lambda>(_, fieldId). Ok (docID, fieldId))))"

text \<open>Every round of the loop that decodes the terms consumes at least one byte.\<close>

lemma NonsortingLoop_pos:
  "DecodeNonsortingUvarintLoop buf bs i v = (r, n, t) \<Longrightarrow> t \<noteq> 0 \<Longrightarrow> 0 < n"
  by (induction buf bs i v rule: DecodeNonsortingUvarintLoop.induct) (auto simp: Let_def split: if_splits)

lemma NonsortingLoop_nonneg: "DecodeNonsortingUvarintLoop buf bs i v = (r, n, t) \<Longrightarrow> 0 \<le> n"
  by (induction buf bs i v rule: DecodeNonsortingUvarintLoop.induct) (auto simp: Let_def split: if_splits)

lemma NonsortingLoop_rest: "DecodeNonsortingUvarintLoop buf bs i v = (r, n, t) \<Longrightarrow> length r \<le> length buf"
  by (induction buf bs i v rule: DecodeNonsortingUvarintLoop.induct) (auto simp: Let_def split: if_splits)

lemma DecodeValueTag_pos:
  assumes "DecodeValueTag b = Ok (a, off, c, t)" "t \<noteq> 0"
  shows "0 < off"
proof -
  obtain r n g where 1: "DecodeNonsortingUvarint b = (r, n, g)" by (cases "DecodeNonsortingUvarint b")
  obtain r' n' g' where 2: "DecodeNonsortingUvarint r = (r', n', g')" by (cases "DecodeNonsortingUvarint r")
  have "g \<noteq> 0" using assms 1 2 by (auto simp: DecodeValueTag_def Let_def SentinelType_def split: if_splits)
  then have "0 < n" using 1 NonsortingLoop_pos by (simp add: DecodeNonsortingUvarint_def)
  moreover have "0 \<le> n'" using 2 NonsortingLoop_nonneg by (simp add: DecodeNonsortingUvarint_def)
  ultimately show ?thesis
    using assms 1 2 by (auto simp: DecodeValueTag_def Let_def split: if_splits)
qed

lemma DecodeBytesValue_shorter:
  assumes "DecodeBytesValue b = Ok (rest, d)"
  shows "length rest < length b"
proof -
  obtain b1 where b1: "decodeValueTypeAssert b Typ_Bytes = Ok b1"
    using assms by (cases "decodeValueTypeAssert b Typ_Bytes") (auto simp: DecodeBytesValue_def)
  obtain r n i where r: "DecodeNonsortingUvarint b1 = (r, n, i)" by (cases "DecodeNonsortingUvarint b1")
  have "length r \<le> length b1" using r NonsortingLoop_rest by (simp add: DecodeNonsortingUvarint_def)
  moreover have "length rest \<le> length r"
    using assms b1 r by (auto simp: DecodeBytesValue_def split: if_splits)
  moreover have "length b1 < length b"
  proof -
    obtain a off c t where t: "DecodeValueTag b = Ok (a, off, c, t)"
      using b1 by (cases "DecodeValueTag b") (auto simp: decodeValueTypeAssert_def)
    then have e: "t = Typ_Bytes" "b1 = drop (nat off) b"
      using b1 by (auto simp: decodeValueTypeAssert_def split: if_splits)
    then have "0 < off" using DecodeValueTag_pos [OF t] by (simp add: Typ_defs)
    moreover have "b \<noteq> []" using t by (auto simp: DecodeValueTag_def)
    ultimately show ?thesis using e by simp
  qed
  ultimately show ?thesis by simp
qed

function decodeFieldTermAbstractValue :: "bytes \<Rightarrow> bytes list \<Rightarrow> (index_error, bytes list) result" where
  "decodeFieldTermAbstractValue value terms =
     (if length value > 0 then
        (case DecodeBytesValue value of
           Ok (value', term) \<Rightarrow> decodeFieldTermAbstractValue value' (terms @ [term])
         | Err e \<Rightarrow> Err (EncErr e)
         | Panic \<Rightarrow> Panic)
      else Ok terms)"
  by pat_completeness auto

termination decodeFieldTermAbstractValue
  by (relation "measure (\<lambda>(value, _). length value)") (auto dest: DecodeBytesValue_shorter)

declare decodeFieldTermAbstractValue.simps [simp del]

section \<open>Composite keys\<close>

interpretation term_doc: codec_pair EncodeBytesAscending "\<lambda>b. DecodeBytesAscending b []" "\<lambda>_. True" "(<)"
    EncodeBytesAscending "\<lambda>b. DecodeBytesAscending b []" "\<lambda>_. True" "(<)"
  by unfold_locales

interpretation field_term: codec_pair EncodeUint32Ascending DecodeUint32Ascending "\<lambda>_. True" "(<)"
    EncodeBytesAscending "\<lambda>b. DecodeBytesAscending b []" "\<lambda>_. True" "(<)"
  by unfold_locales

interpretation posting: codec_pair EncodeUint32Ascending DecodeUint32Ascending "\<lambda>_. True" "(<)"
    "pair_enc EncodeBytesAscending EncodeBytesAscending"
    "pair_dec (\<lambda>b. DecodeBytesAscending b []) (\<lambda>b. DecodeBytesAscending b [])"
    "pair_valid (\<lambda>_. True) (\<lambda>_. True)" "pair_lt (<) (<)"
  by unfold_locales

lemma pair_valid_True [simp]: "pair_valid (\<lambda>_. True) (\<lambda>_. True) p"
  by (simp add: pair_valid_def)

lemma pair_valid_True2 [simp]: "pair_valid (\<lambda>_. True) (pair_valid (\<lambda>_. True) (\<lambda>_. True)) p"
  by (simp add: pair_valid_def)

definition posting_enc :: "bytes \<Rightarrow> u32 \<times> bytes \<times> bytes \<Rightarrow> bytes" where
  "posting_enc = pair_enc EncodeUint32Ascending (pair_enc EncodeBytesAscending EncodeBytesAscending)"

lemma encodeIndexKey_posting: "encodeIndexKey d f t = posting_enc [KEY_TYPE_I] (f, t, d)"
  by (simp add: encodeIndexKey_def posting_enc_def pair_enc_def)

lemma posting_append: "posting_enc b p = b @ posting_enc [] p"
  unfolding posting_enc_def by (rule posting.pair.enc_append)

lemma posting_unique: "posting_enc [] p @ r = posting_enc [] q @ s \<Longrightarrow> p = q \<and> r = s"
  using posting.pair.enc_unique [of p q r s] by (simp add: posting_enc_def)

lemma encodeIndexPositionKey_posting: "encodeIndexPositionKey d f t pos =
    [KEY_TYPE_P] @ posting_enc [] (f, t, d) @ (if 0 <s pos then be_bytes 4 (ucast pos :: u32) else [])"
proof -
  have "EncodeBytesAscending (EncodeBytesAscending (EncodeUint32Ascending [KEY_TYPE_P] f) t) d =
      [KEY_TYPE_P] @ posting_enc [] (f, t, d)"
    using posting_append [of "[KEY_TYPE_P]" "(f, t, d)"] by (simp add: posting_enc_def pair_enc_def)
  then show ?thesis by (simp add: encodeIndexPositionKey_def EncodeUint32Ascending_be)
qed

text \<open>The bytes every posting key of a term begins with.\<close>

definition termPrefix :: "u32 \<Rightarrow> bytes \<Rightarrow> bytes" where
  "termPrefix fieldId term = EncodeBytesAscending (EncodeUint32Ascending [KEY_TYPE_I] fieldId) term"

lemma termPrefix_pair:
  "termPrefix f t = [KEY_TYPE_I] @ pair_enc EncodeUint32Ascending EncodeBytesAscending [] (f, t)"
  using field_term.pair.enc_append [of "[KEY_TYPE_I]" "(f, t)"] by (simp add: termPrefix_def pair_enc_def)

lemma encodeIndexKey_term: "encodeIndexKey d f t = termPrefix f t @ EncodeBytesAscending [] d"
  using bytes_asc.enc_append [of "termPrefix f t" d] by (simp add: encodeIndexKey_def termPrefix_def)

lemma termPrefix_unique: "termPrefix f t @ r = termPrefix f' t' @ s \<Longrightarrow> f = f' \<and> t = t' \<and> r = s"
  using field_term.pair.enc_unique [of "(f, t)" "(f', t')" r s] by (simp add: termPrefix_pair)

lemma encodeTerms_append: "encodeTerms row i ts = row @ encodeTerms [] i ts"
proof (induction ts arbitrary: row i)
  case (Cons t ts)
  show ?case
    using Cons [of "EncodeBytesValue row (word_of_nat i) t" "i + 1"]
      Cons [of "EncodeBytesValue [] (word_of_nat i) t" "i + 1"] value_append(5) [of row "word_of_nat i" t]
    by simp
qed simp

lemma EncodeBytesValue_nonempty: "EncodeBytesValue [] c d \<noteq> []"
  using DecodeBytesValue_shorter [of "EncodeBytesValue [] c d"] nonsorting_nonempty
  by (auto simp: EncodeBytesValue_def nonsorting_append [of "encodeValueTag [] c Typ_Bytes"])

lemma decodeTerms:
  assumes "\<forall>t \<in> set ts. length t < 2 ^ 63"
  shows "decodeFieldTermAbstractValue (encodeTerms [] i ts) acc = Ok (acc @ ts)"
  using assms
proof (induction ts arbitrary: i acc)
  case Nil
  show ?case by (subst decodeFieldTermAbstractValue.simps) simp
next
  case (Cons t ts)
  have e: "encodeTerms [] i (t # ts) = EncodeBytesValue [] (word_of_nat i) t @ encodeTerms [] (i + 1) ts"
    using encodeTerms_append [of "EncodeBytesValue [] (word_of_nat i) t"] by simp
  have "DecodeBytesValue (encodeTerms [] i (t # ts)) = Ok (encodeTerms [] (i + 1) ts, t)"
    unfolding e by (rule DecodeBytesValue_roundtrip) (use Cons.prems in simp)
  moreover have "encodeTerms [] i (t # ts) \<noteq> []" unfolding e by (simp add: EncodeBytesValue_nonempty)
  ultimately show ?case
    using Cons by (subst decodeFieldTermAbstractValue.simps) simp
qed

lemma fieldType_inverse: "fieldTypeOuter (fieldTypeInner t) = (case t of VOther _ \<Rightarrow> VUnknown | _ \<Rightarrow> t)"
  by (cases t) (simp_all add: fieldTypeOuter_def field_type_defs)

lemma fieldType_null: "fieldTypeInner t = FIELD_TYPE_N \<longleftrightarrow> t = VNull"
  by (cases t) (simp_all add: field_type_defs)

section \<open>Properties\<close>

text \<open>
  Order of the index.  The posting keys sort by field, then term, then document, and the keys
  of one field and term are exactly the keys that begin with the encoded field and term.
\<close>

theorem index_key_order:
  "(encodeIndexKey d f t < encodeIndexKey d' f' t') = (f < f' \<or> f = f' \<and> (t < t' \<or> t = t' \<and> d < d')) \<and>
   (take (length (termPrefix f t)) (encodeIndexKey d' f' t') = termPrefix f t) = (f' = f \<and> t' = t)"
proof
  show "(encodeIndexKey d f t < encodeIndexKey d' f' t') = (f < f' \<or> f = f' \<and> (t < t' \<or> t = t' \<and> d < d'))"
    using posting.pair.enc_less_iff [of "(f, t, d)" "(f', t', d')" "[KEY_TYPE_I]"]
    by (simp add: encodeIndexKey_posting posting_enc_def pair_lt_def)
  have "f' = f \<and> t' = t" if "take (length (termPrefix f t)) (encodeIndexKey d' f' t') = termPrefix f t"
  proof -
    have "encodeIndexKey d' f' t' =
        termPrefix f t @ drop (length (termPrefix f t)) (encodeIndexKey d' f' t')"
      using that by (metis append_take_drop_id)
    then show ?thesis using termPrefix_unique [of f' t' _ f t] by (metis encodeIndexKey_term)
  qed
  then show "(take (length (termPrefix f t)) (encodeIndexKey d' f' t') = termPrefix f t) = (f' = f \<and> t' = t)"
    by (auto simp: encodeIndexKey_term)
qed

text \<open>
  Keys of stored fields and of the terms of a field.  The decoders return the document and
  the field id, unless the field id is 0, which is left out of the key: then the decoders fail.
\<close>

theorem field_key_roundtrip:
  "decodeStoreFieldKey (encodeStoreFieldKey d f) =
     (if f = 0 then Err (EncErr InsufficientUint32) else Ok (d, f)) \<and>
   decodeFieldTermAbstractKey (encodeFieldTermAbstractKey d f) =
     (if f = 0 then Err (EncErr InsufficientUint32) else Ok (d, f))"
proof -
  have a: "EncodeBytesAscending [c] d = c # EncodeBytesAscending [] d" for c
    using bytes_asc.enc_append [of "[c]" d] by simp
  have l: "2 \<le> length (EncodeBytesAscending [] d)"
    by (cases d) (simp_all add: EncodeBytesAscending_eq)
  have n: "DecodeBytesAscending (EncodeBytesAscending [] d) [] = Ok ([], d)"
    using DecodeBytesAscending_roundtrip [of d "[]" "[]"] by simp
  have u: "EncodeUint32Ascending (c # EncodeBytesAscending [] d) f =
      c # EncodeBytesAscending [] d @ be_bytes 4 f" for c
    by (simp add: EncodeUint32Ascending_be)
  show ?thesis
    using l n DecodeBytesAscending_roundtrip [of d "be_bytes 4 f" "[]"]
      DecodeUint32Ascending_roundtrip [of f "[]"]
    by (auto simp: decodeStoreFieldKey_def encodeStoreFieldKey_def decodeFieldTermAbstractKey_def
        encodeFieldTermAbstractKey_def a u DecodeUint32Ascending_def word_gt_0)
qed

text \<open>
  Rows of stored fields.  Decoding the row of a stored field returns its type and data if the
  data is not empty or the type is null; a stored field of another type with empty data is
  written but cannot be read back.
\<close>

theorem store_field_roundtrip:
  assumes "encodeStoreField d fld = Some (key, row)" "\<And>n. fld_Type fld \<noteq> VOther n"
  shows "decodeStoreField (fld_Id fld) row =
    (if fld_Type fld = VNull then Ok (fld\<lparr>fld_Stored := False, fld_Data := []\<rparr>)
     else if fld_Data fld = [] then Err InvalidFieldRow
     else Ok (fld\<lparr>fld_Stored := False\<rparr>))"
proof -
  have t: "fieldTypeOuter (fieldTypeInner (fld_Type fld)) = fld_Type fld"
    using assms(2) by (simp add: fieldType_inverse split: ValueType.split)
  have "fld_Stored fld" using assms(1) by (simp add: encodeStoreField_def split: if_splits)
  then have row: "row = fieldTypeInner (fld_Type fld) # fld_Data fld"
    using assms(1) by (auto simp: encodeStoreField_def Let_def)
  show ?thesis
    using t by (cases fld) (simp add: decodeStoreField_def row fieldType_null)
qed

theorem store_field_roundtrip_witness:
  "decodeStoreField 7 [FIELD_TYPE_S] = Err InvalidFieldRow"
proof -
  let ?f = "\<lparr>fld_Id = 7, fld_Type = VString, fld_Stored = True, fld_Data = []\<rparr>"
  have "encodeStoreField [1] ?f = Some (encodeStoreFieldKey [1] 7, [FIELD_TYPE_S])"
    by (simp add: encodeStoreField_def)
  from store_field_roundtrip [OF this] show ?thesis by simp
qed

text \<open>
  The terms of a field.  The loop that decodes a row of terms always ends, and gives back the
  terms that were encoded, in order.
\<close>

theorem field_terms_roundtrip:
  assumes "encodeFieldTermAbstract d f terms = Ok (key, row)" "\<forall>t \<in> set terms. length t < 2 ^ 63"
  shows "decodeFieldTermAbstractValue row [] = Ok terms"
  using assms decodeTerms [OF assms(2), of 0 "[]"]
  by (auto simp: encodeFieldTermAbstract_def split: if_splits)

theorem field_terms_roundtrip_witness:
  "decodeFieldTermAbstractValue (encodeTerms [] 0 [[1], []]) [] = Ok [[1], []]"
proof -
  have "encodeFieldTermAbstract [9] 2 [[1], []] =
      Ok (encodeFieldTermAbstractKey [9] 2, encodeTerms [] 0 [[1], []])"
    by (simp add: encodeFieldTermAbstract_def del: encodeTerms.simps)
  from field_terms_roundtrip [OF this] show ?thesis by simp
qed

text \<open>
  Position keys.  Two position keys are equal only for the same field, term, document and
  position, as long as the positions are not negative and fit 32 bits.
\<close>

theorem position_key_unique:
  assumes "0 \<le>s p" "p < 0x100000000" "0 \<le>s q" "q < 0x100000000"
    and "encodeIndexPositionKey d f t p = encodeIndexPositionKey d' f' t' q"
  shows "d = d' \<and> f = f' \<and> t = t' \<and> p = q"
proof -
  define suf where "suf x = (if 0 <s x then be_bytes 4 (ucast x :: u32) else [])" for x :: i64
  have "posting_enc [] (f, t, d) @ suf p = posting_enc [] (f', t', d') @ suf q"
    using assms(5) by (simp add: encodeIndexPositionKey_posting suf_def)
  then have e: "(f, t, d) = (f', t', d')" "suf p = suf q" using posting_unique by blast+
  have l: "be_bytes 4 (x :: u32) \<noteq> []" for x by (simp add: be_bytes_numeral)
  have zero: "x = 0" if "\<not> 0 <s x" "0 \<le>s x" for x :: i64
  proof -
    have "sint x = sint (0 :: i64)" using that by (simp add: word_sless_alt word_sle_eq)
    then show ?thesis by (simp only: signed_word_eqI)
  qed
  have narrow: "x < 0x100000000 \<Longrightarrow> ucast (ucast x :: u32) = x" for x :: i64
    using take_bit_small [of x 32] by (simp add: unsigned_ucast_eq word_less_nat_alt)
  have "p = q"
  proof (cases "0 <s p")
    case True
    then have q: "0 <s q" using e(2) l [of "ucast p"] by (cases "0 <s q") (simp_all add: suf_def)
    with True e(2) have "be_bytes 4 (ucast p :: u32) = be_bytes 4 (ucast q :: u32)"
      by (simp only: suf_def if_True)
    then have "DecodeUint32Ascending (be_bytes 4 (ucast p :: u32) @ []) =
        DecodeUint32Ascending (be_bytes 4 (ucast q :: u32) @ [])"
      by simp
    then have "(ucast p :: u32) = ucast q" unfolding DecodeUint32Ascending_roundtrip by simp
    then show ?thesis using narrow [OF assms(2)] narrow [OF assms(4)] by metis
  next
    case False
    then have "\<not> 0 <s q" using e(2) l [of "ucast q"] by (cases "0 <s q") (simp_all add: suf_def)
    with False show ?thesis using zero assms(1,3) by simp
  qed
  with e(1) show ?thesis by simp
qed

theorem position_key_unique_witness:
  "encodeIndexPositionKey [1] 2 [3] 4 \<noteq> encodeIndexPositionKey [1] 2 [3] 5"
proof
  assume "encodeIndexPositionKey [1] 2 [3] 4 = encodeIndexPositionKey [1] 2 [3] 5"
  from position_key_unique [OF _ _ _ _ this] show False by (simp add: word_sle_eq)
qed

end
