(* ===== verification/Index_Writer.thy ===== *)
theory Index_Writer
  imports Index_Keys
begin

text \<open>
  Writing and reading documents (\<^verbatim>\<open>engine/kernel/index/writer.go\<close>, \<^verbatim>\<open>reader.go\<close>, \<^verbatim>\<open>analysis/freq.go\<close>, \<^verbatim>\<open>store/kvstore/batch.go\<close>):
  a document becomes a batch of writes under the keys of \<open>Index_Keys\<close>, which a transaction of the key-value store applies.

  The key-value store is a driver over boltdb or badger; here it is a record of operations, with the contract of
  \<^verbatim>\<open>kvstore.go\<close> and \<^verbatim>\<open>transaction.go\<close> as the locale \<open>kv_driver\<close>.  The analysers are an argument: the contents of the registry.
\<close>

section \<open>Batches of a key-value store\<close>

record kvop =
  kop_K :: bytes
  kop_V :: "bytes option"

definition KVBatch_Set :: "bytes \<Rightarrow> bytes \<Rightarrow> kvop list \<Rightarrow> kvop list" where
  "KVBatch_Set key val batch = (if key = [] \<or> val = [] then batch else batch @ [\<lparr>kop_K = key, kop_V = Some val\<rparr>])"

definition KVBatch_Delete :: "bytes \<Rightarrow> kvop list \<Rightarrow> kvop list" where
  "KVBatch_Delete key batch = batch @ [\<lparr>kop_K = key, kop_V = None\<rparr>]"

text \<open>A nil value is the empty slice; an iterator is the list of pairs it visits, \<open>None\<close> a nil iterator.\<close>

record ('s, 't) kv_ops =
  kv_Get :: "'s \<Rightarrow> bytes \<Rightarrow> (string, bytes) result"
  kv_Put :: "bytes \<Rightarrow> bytes \<Rightarrow> 's \<Rightarrow> 's \<times> (string, unit) result"
  kv_PrefixIterator :: "'s \<Rightarrow> bytes \<Rightarrow> (bytes \<times> bytes) list option"
  kv_NewTransaction :: "'s \<Rightarrow> bool \<Rightarrow> (string, 't) result"
  ktx_Get :: "'t \<Rightarrow> bytes \<Rightarrow> (string, bytes) result"
  ktx_Put :: "bytes \<Rightarrow> bytes \<Rightarrow> 't \<Rightarrow> 't \<times> (string, unit) result"
  ktx_Delete :: "bytes \<Rightarrow> 't \<Rightarrow> 't \<times> (string, unit) result"
  ktx_Commit :: "'s \<Rightarrow> 't \<Rightarrow> 's \<times> 't \<times> (string, unit) result"
  ktx_Rollback :: "'t \<Rightarrow> 't \<times> (string, unit) result"

section \<open>Term frequencies\<close>

text \<open>A location (\<^verbatim>\<open>TermLocation\<close>) is kept as the token it was made from; its field id is never read here.\<close>

record Token =
  tok_Term :: bytes
  tok_Start :: i64
  tok_End :: i64
  tok_Position :: i64

record TokenFreq =
  tf_Term :: bytes
  tf_Locations :: "Token list"
  tf_frequency :: i64

text \<open>The Go map as an association list with distinct keys, in the order of the first occurrence.\<close>

fun count_token :: "bool \<Rightarrow> Token \<Rightarrow> (bytes \<times> TokenFreq) list \<Rightarrow> (bytes \<times> TokenFreq) list" where
  "count_token includeTermVectors token [] =
     [(tok_Term token, \<lparr>tf_Term = tok_Term token, tf_Locations = (if includeTermVectors then [token] else []), tf_frequency = 1\<rparr>)]"
| "count_token includeTermVectors token ((k, tf) # rv) =
     (if k = tok_Term token then
        (k, tf\<lparr>tf_Locations := (if includeTermVectors then tf_Locations tf @ [token] else tf_Locations tf),
              tf_frequency := tf_frequency tf + 1\<rparr>) # rv
      else (k, tf) # count_token includeTermVectors token rv)"

definition TokenFrequency :: "Token list \<Rightarrow> bool \<Rightarrow> (bytes \<times> TokenFreq) list" where
  "TokenFrequency tokens includeTermVectors = fold (count_token includeTermVectors) tokens []"

section \<open>Documents\<close>

datatype IndexOption = DOCS | DOCS_FREQ | DOCS_FREQ_POSITION | DOCS_FREQ_POSITION_OFFSET

record DocField = Field +
  fld_Tokenized :: bool
  fld_Analyzer :: string
  fld_IndexOption :: IndexOption

record Document =
  doc_Id :: bytes
  doc_Fields :: "DocField list"

datatype writer_error = WIndex index_error | UnknownAnalyzer string | DriverError | KVErr string

type_synonym registry = "string \<Rightarrow> (bytes \<Rightarrow> Token list) option"
type_synonym freq_order = "(bytes \<times> TokenFreq) list \<Rightarrow> (bytes \<times> TokenFreq) list"

fun lift_w :: "('e \<Rightarrow> writer_error) \<Rightarrow> ('e, 'a) result \<Rightarrow> (writer_error, 'a) result" where
  "lift_w f (Ok x) = Ok x"
| "lift_w f (Err e) = Err (f e)"
| "lift_w f Panic = Panic"

definition includesVectors :: "IndexOption \<Rightarrow> bool" where
  "includesVectors opt = (case opt of DOCS \<Rightarrow> False | DOCS_FREQ \<Rightarrow> False | _ \<Rightarrow> True)"

fun add_positions :: "bytes \<Rightarrow> u32 \<Rightarrow> bytes \<Rightarrow> Token list \<Rightarrow> kvop list \<Rightarrow> kvop list" where
  "add_positions docId fieldId term [] batch = batch"
| "add_positions docId fieldId term (pos # locs) batch =
     (let (indexPosKey, indexPosRow) = encodeIndexPosition docId fieldId term (tok_Position pos) (tok_Start pos) (tok_End pos)
      in add_positions docId fieldId term locs (KVBatch_Set indexPosKey indexPosRow batch))"

fun add_terms :: "bytes \<Rightarrow> u32 \<Rightarrow> bool \<Rightarrow> (bytes \<times> TokenFreq) list \<Rightarrow> kvop list \<Rightarrow> bytes list \<Rightarrow> kvop list \<times> bytes list" where
  "add_terms docId fieldId vectors [] batch terms = (batch, terms)"
| "add_terms docId fieldId vectors ((_, tokenF) # rest) batch terms =
     (let (indexKey, indexRow) = encodeIndex docId fieldId (tf_Term tokenF) (tf_frequency tokenF);
          batch = KVBatch_Set indexKey indexRow batch;
          batch = (if vectors then add_positions docId fieldId (tf_Term tokenF) (tf_Locations tokenF) batch else batch)
      in add_terms docId fieldId vectors rest batch (terms @ [tf_Term tokenF]))"

text \<open>One value of a tokenized field: its postings, its positions and its list of terms.\<close>

definition add_value :: "freq_order \<Rightarrow> (bytes \<Rightarrow> Token list) \<Rightarrow> bytes \<Rightarrow> DocField \<Rightarrow> bytes \<Rightarrow> kvop list
    \<Rightarrow> kvop list \<times> (writer_error, unit) result" where
  "add_value ord analyzer docId field fData batch =
     (let vectors = includesVectors (fld_IndexOption field);
          tokenFreq = TokenFrequency (analyzer fData) vectors;
          (batch, terms) = add_terms docId (fld_Id field) vectors (ord tokenFreq) batch []
      in case encodeFieldTermAbstract docId (fld_Id field) terms of
           Ok (key, val) \<Rightarrow> (KVBatch_Set key val batch, Ok ())
         | Err e \<Rightarrow> (batch, Err (WIndex e))
         | Panic \<Rightarrow> (batch, Panic))"

text \<open>The data of a field is a sequence of encoded values.\<close>

function add_values :: "freq_order \<Rightarrow> (bytes \<Rightarrow> Token list) \<Rightarrow> bytes \<Rightarrow> DocField \<Rightarrow> bytes \<Rightarrow> kvop list
    \<Rightarrow> kvop list \<times> (writer_error, unit) result" where
  "add_values ord analyzer docId field data batch =
     (if data = [] then (batch, Ok ())
      else case DecodeBytesValue data of
        Ok (data, fData) \<Rightarrow>
          (case add_value ord analyzer docId field fData batch of
             (batch, Ok _) \<Rightarrow> add_values ord analyzer docId field data batch
           | (batch, Err e) \<Rightarrow> (batch, Err e)
           | (batch, Panic) \<Rightarrow> (batch, Panic))
      | Err e \<Rightarrow> (batch, Err (WIndex (EncErr e)))
      | Panic \<Rightarrow> (batch, Panic))"
  by pat_completeness auto
termination
  by (relation "measure (\<lambda>(ord, analyzer, docId, field, data, batch). length data)") (auto dest: DecodeBytesValue_shorter)

declare add_values.simps [simp del]

definition add_field :: "freq_order \<Rightarrow> registry \<Rightarrow> bytes \<Rightarrow> DocField \<Rightarrow> kvop list \<Rightarrow> kvop list \<times> (writer_error, unit) result" where
  "add_field ord reg docId field batch =
     (let batch = (case encodeStoreField docId (Field.truncate field) of None \<Rightarrow> batch | Some (fk, fv) \<Rightarrow> KVBatch_Set fk fv batch)
      in if fld_Tokenized field then
           (case reg (fld_Analyzer field) of
              None \<Rightarrow> (batch, Err (UnknownAnalyzer (fld_Analyzer field)))
            | Some analyzer \<Rightarrow> add_values ord analyzer docId field (fld_Data field) batch)
         else (batch, Ok ()))"

fun add_fields :: "freq_order \<Rightarrow> registry \<Rightarrow> bytes \<Rightarrow> DocField list \<Rightarrow> kvop list \<Rightarrow> kvop list \<times> (writer_error, unit) result" where
  "add_fields ord reg docId [] batch = (batch, Ok ())"
| "add_fields ord reg docId (field # flds) batch =
     (case add_field ord reg docId field batch of
        (batch, Ok _) \<Rightarrow> add_fields ord reg docId flds batch
      | (batch, Err e) \<Rightarrow> (batch, Err e)
      | (batch, Panic) \<Rightarrow> (batch, Panic))"

section \<open>Write batches\<close>

text \<open>The batch of a document index; the store it points to is passed along with it.\<close>

record 't IBatch =
  ib_batch :: "kvop list"
  ib_tx :: "'t option"

definition NewIBatch :: "'t IBatch" where
  "NewIBatch = \<lparr>ib_batch = [], ib_tx = None\<rparr>"

type_synonym ('s, 't, 'a) ib_op = "'s \<times> 't IBatch \<Rightarrow> ('s \<times> 't IBatch) \<times> (writer_error, 'a) result"

text \<open>The errors of the single writes are dropped.\<close>

fun apply_batch :: "('s, 't) kv_ops \<Rightarrow> kvop list \<Rightarrow> 't \<Rightarrow> 't" where
  "apply_batch ops [] tx = tx"
| "apply_batch ops (p # batch) tx =
     apply_batch ops batch (case kop_V p of None \<Rightarrow> fst (ktx_Delete ops (kop_K p) tx) | Some v \<Rightarrow> fst (ktx_Put ops (kop_K p) v tx))"

definition IBatch_Commit :: "('s, 't) kv_ops \<Rightarrow> ('s, 't, unit) ib_op" where
  "IBatch_Commit ops = (\<lambda>(s, b).
     case (case ib_tx b of Some tx \<Rightarrow> Ok tx | None \<Rightarrow> kv_NewTransaction ops s True) of
       Err e \<Rightarrow> ((s, b), Err (KVErr e))
     | Panic \<Rightarrow> ((s, b), Panic)
     | Ok tx \<Rightarrow>
         (case ktx_Commit ops s (apply_batch ops (ib_batch b) tx) of
            (s, tx, r) \<Rightarrow> ((s, b\<lparr>ib_tx := Some tx\<rparr>), lift_w KVErr r)))"

definition IBatch_Rollback :: "('s, 't) kv_ops \<Rightarrow> ('s, 't, unit) ib_op" where
  "IBatch_Rollback ops = (\<lambda>(s, b).
     case ib_tx b of
       None \<Rightarrow> ((s, b), Ok ())
     | Some tx \<Rightarrow> (case ktx_Rollback ops tx of (tx, r) \<Rightarrow> ((s, b\<lparr>ib_tx := Some tx\<rparr>), lift_w KVErr r)))"

definition RAFT_APPLY_ID :: bytes where
  "RAFT_APPLY_ID = [0x52, 0x61, 0x66, 0x74, 0x5F, 0x61, 0x70, 0x70, 0x6C, 0x79, 0x5F, 0x69, 0x64]"

definition IBatch_SetApplyID :: "u64 \<Rightarrow> ('s, 't, unit) ib_op" where
  "IBatch_SetApplyID applyID = (\<lambda>(s, b).
     ((s, if applyID > 0 then b\<lparr>ib_batch := KVBatch_Set RAFT_APPLY_ID (be_bytes 8 applyID) (ib_batch b)\<rparr> else b), Ok ()))"

definition addDocument :: "('s, 't) kv_ops \<Rightarrow> freq_order \<Rightarrow> registry \<Rightarrow> Document \<Rightarrow> bool \<Rightarrow> ('s, 't, unit) ib_op" where
  "addDocument ops ord reg doc forceCommit = (\<lambda>(s, b).
     case add_fields ord reg (doc_Id doc) (doc_Fields doc) (ib_batch b) of
       (batch, Ok _) \<Rightarrow>
         if forceCommit then IBatch_Commit ops (s, b\<lparr>ib_batch := batch\<rparr>) else ((s, b\<lparr>ib_batch := batch\<rparr>), Ok ())
     | (batch, Err e) \<Rightarrow> ((s, b\<lparr>ib_batch := batch\<rparr>), Err e)
     | (batch, Panic) \<Rightarrow> ((s, b\<lparr>ib_batch := batch\<rparr>), Panic))"

definition isDocExist :: "('s, 't) kv_ops \<Rightarrow> 's \<Rightarrow> bytes \<Rightarrow> bool" where
  "isDocExist ops s docID = (case kv_PrefixIterator ops s (encodeStoreFieldKey docID 0) of None \<Rightarrow> False | Some xs \<Rightarrow> xs \<noteq> [])"

fun delete_positions :: "('s, 't) kv_ops \<Rightarrow> 's \<Rightarrow> bytes \<Rightarrow> u32 \<Rightarrow> bytes list \<Rightarrow> kvop list \<Rightarrow> kvop list \<times> (writer_error, unit) result" where
  "delete_positions ops s docID fieldId [] batch = (batch, Ok ())"
| "delete_positions ops s docID fieldId (term # terms) batch =
     (let batch = KVBatch_Delete (encodeIndexKey docID fieldId term) batch
      in case kv_PrefixIterator ops s (encodeIndexPositionKey docID fieldId term 0) of
           None \<Rightarrow> (batch, Err DriverError)
         | Some xs \<Rightarrow> delete_positions ops s docID fieldId terms (fold (\<lambda>(k, _). KVBatch_Delete k) xs batch))"

fun delete_terms :: "('s, 't) kv_ops \<Rightarrow> 's \<Rightarrow> bytes \<Rightarrow> (bytes \<times> bytes) list \<Rightarrow> kvop list \<Rightarrow> kvop list \<times> (writer_error, unit) result" where
  "delete_terms ops s docID [] batch = (batch, Ok ())"
| "delete_terms ops s docID ((key, val) # rest) batch =
     (case lift_w WIndex (result_bind (decodeFieldTermAbstractKey key)
         (\<lambda>(_, fieldId). result_bind (decodeFieldTermAbstractValue val []) (\<lambda>terms. Ok (fieldId, terms)))) of
        Err e \<Rightarrow> (batch, Err e)
      | Panic \<Rightarrow> (batch, Panic)
      | Ok (fieldId, terms) \<Rightarrow>
          (case delete_positions ops s docID fieldId terms (KVBatch_Delete key batch) of
             (batch, Ok _) \<Rightarrow> delete_terms ops s docID rest batch
           | (batch, Err e) \<Rightarrow> (batch, Err e)
           | (batch, Panic) \<Rightarrow> (batch, Panic)))"

text \<open>The flag \<^verbatim>\<open>forceCommit\<close> of the code is never read: a document that is found is always committed.\<close>

definition deleteDocument :: "('s, 't) kv_ops \<Rightarrow> bytes \<Rightarrow> bool \<Rightarrow> ('s, 't, nat) ib_op" where
  "deleteDocument ops docID forceCommit = (\<lambda>(s, b).
     case kv_PrefixIterator ops s (encodeStoreFieldKey docID 0) of
       None \<Rightarrow> ((s, b), Err DriverError)
     | Some fieldIter \<Rightarrow>
         let b = b\<lparr>ib_batch := fold (\<lambda>(k, _). KVBatch_Delete k) fieldIter (ib_batch b)\<rparr> in
         if fieldIter = [] then ((s, b), Ok 0)
         else (case kv_PrefixIterator ops s (encodeFieldTermAbstractKey docID 0) of
             None \<Rightarrow> ((s, b), Err DriverError)
           | Some fieldTermIter \<Rightarrow>
               (case delete_terms ops s docID fieldTermIter (ib_batch b) of
                  (batch, Ok _) \<Rightarrow>
                    (case IBatch_Commit ops (s, b\<lparr>ib_batch := batch\<rparr>) of
                       (sb, Ok _) \<Rightarrow> (sb, Ok 1)
                     | (sb, Err e) \<Rightarrow> (sb, Err e)
                     | (sb, Panic) \<Rightarrow> (sb, Panic))
                | (batch, Err e) \<Rightarrow> ((s, b\<lparr>ib_batch := batch\<rparr>), Err e)
                | (batch, Panic) \<Rightarrow> ((s, b\<lparr>ib_batch := batch\<rparr>), Panic))))"

text \<open>With \<^verbatim>\<open>forceCommit\<close> the error of \<^verbatim>\<open>addDocument\<close> is replaced by that of \<^verbatim>\<open>Commit\<close>.\<close>

definition updateDocument :: "('s, 't) kv_ops \<Rightarrow> freq_order \<Rightarrow> registry \<Rightarrow> Document \<Rightarrow> bool \<Rightarrow> bool \<Rightarrow> ('s, 't, bool) ib_op" where
  "updateDocument ops ord reg doc upsert forceCommit = (\<lambda>(s, b).
     let found = isDocExist ops s (doc_Id doc) in
     if \<not> found \<and> \<not> upsert then ((s, b), Ok False)
     else (case (if found then deleteDocument ops (doc_Id doc) False (s, b) else ((s, b), Ok 0)) of
         (sb, Err e) \<Rightarrow> (sb, Err e)
       | (sb, Panic) \<Rightarrow> (sb, Panic)
       | (sb, Ok _) \<Rightarrow>
           (case addDocument ops ord reg doc False sb of
              (sb, Panic) \<Rightarrow> (sb, Panic)
            | (sb, r) \<Rightarrow>
                (case (if forceCommit then IBatch_Commit ops sb else (sb, r)) of
                   (sb, Ok _) \<Rightarrow> (sb, Ok found)
                 | (sb, Err e) \<Rightarrow> (sb, Err e)
                 | (sb, Panic) \<Rightarrow> (sb, Panic)))))"

section \<open>The index driver\<close>

definition SetApplyID :: "('s, 't) kv_ops \<Rightarrow> u64 \<Rightarrow> 's \<Rightarrow> 's \<times> (writer_error, unit) result" where
  "SetApplyID ops applyID s =
     (if applyID > 0 then (case kv_Put ops RAFT_APPLY_ID (be_bytes 8 applyID) s of (s, r) \<Rightarrow> (s, lift_w KVErr r)) else (s, Ok ()))"

definition AddDocument :: "('s, 't) kv_ops \<Rightarrow> freq_order \<Rightarrow> registry \<Rightarrow> Document \<Rightarrow> 's \<Rightarrow> 's \<times> (writer_error, unit) result" where
  "AddDocument ops ord reg doc s = (case addDocument ops ord reg doc True (s, NewIBatch) of ((s, _), r) \<Rightarrow> (s, r))"

definition UpdateDocument :: "('s, 't) kv_ops \<Rightarrow> freq_order \<Rightarrow> registry \<Rightarrow> Document \<Rightarrow> bool \<Rightarrow> 's \<Rightarrow> 's \<times> (writer_error, bool) result" where
  "UpdateDocument ops ord reg doc upsert s =
     (case updateDocument ops ord reg doc upsert True (s, NewIBatch) of ((s, _), r) \<Rightarrow> (s, r))"

definition DeleteDocument :: "('s, 't) kv_ops \<Rightarrow> bytes \<Rightarrow> 's \<Rightarrow> 's \<times> (writer_error, nat) result" where
  "DeleteDocument ops docID s = (case deleteDocument ops docID True (s, NewIBatch) of ((s, _), r) \<Rightarrow> (s, r))"

text \<open>\<open>GetApplyID\<close> of a driver that is not nil; \<open>None\<close> is the error for a value of a wrong length.\<close>

definition GetApplyID :: "('s, 't) kv_ops \<Rightarrow> 's \<Rightarrow> (string, u64 option) result" where
  "GetApplyID ops s = result_bind (kv_Get ops s RAFT_APPLY_ID) (\<lambda>v.
     Ok (if v = [] then Some 0 else if length v \<noteq> 8 then None else Some (be_fold 0 v)))"

fun get_fields :: "('s, 't) kv_ops \<Rightarrow> 't \<Rightarrow> bytes \<Rightarrow> u32 list \<Rightarrow> (u32 \<times> ValueType \<times> bytes) list \<Rightarrow> (u32 \<times> ValueType \<times> bytes) list option" where
  "get_fields ops tx docID [] acc = Some acc"
| "get_fields ops tx docID (fieldId # ids) acc =
     (case ktx_Get ops tx (encodeStoreFieldKey docID fieldId) of
        Ok val \<Rightarrow>
          (case decodeStoreField fieldId val of
             Ok field \<Rightarrow> get_fields ops tx docID ids (acc @ [(fieldId, fld_Type field, fld_Data field)])
           | _ \<Rightarrow> None)
      | _ \<Rightarrow> None)"

text \<open>\<open>None\<close> is not found: no transaction, an error, or no field asked for.\<close>

definition GetDocument :: "('s, 't) kv_ops \<Rightarrow> bytes \<Rightarrow> u32 list \<Rightarrow> 's \<Rightarrow> (u32 \<rightharpoonup> ValueType \<times> bytes) option" where
  "GetDocument ops docID ids s =
     (case kv_NewTransaction ops s False of
        Ok tx \<Rightarrow> (case get_fields ops tx docID ids [] of
                   None \<Rightarrow> None | Some [] \<Rightarrow> None | Some acc \<Rightarrow> Some (map_of (rev acc)))
      | _ \<Rightarrow> None)"

section \<open>The contract of the drivers\<close>

text \<open>
  \<open>view\<close> is what the store holds and \<open>tview\<close> what a transaction sees.  \<open>fits\<close> are the pairs a driver takes; both drivers
  limit the size of a key.  A transaction that was committed takes no more writes, and committing it again is an error.
\<close>

locale kv_driver =
  fixes ops :: "('s, 't) kv_ops"
    and view :: "'s \<Rightarrow> bytes \<rightharpoonup> bytes"
    and tview :: "'t \<Rightarrow> bytes \<rightharpoonup> bytes"
    and topen :: "'t \<Rightarrow> bool"
    and fits :: "bytes \<Rightarrow> bytes \<Rightarrow> bool"
  assumes prefix_all: "kv_PrefixIterator ops s p = Some xs \<Longrightarrow>
      (k, v) \<in> set xs \<longleftrightarrow> view s k = Some v \<and> take (length p) k = p"
    and begin_view: "kv_NewTransaction ops s w = Ok tx \<Longrightarrow> topen tx \<and> tview tx = view s"
    and put_open: "topen tx \<Longrightarrow> fits k v \<Longrightarrow> topen (fst (ktx_Put ops k v tx)) \<and> tview (fst (ktx_Put ops k v tx)) = (tview tx)(k \<mapsto> v)"
    and delete_open: "topen tx \<Longrightarrow> topen (fst (ktx_Delete ops k tx)) \<and> tview (fst (ktx_Delete ops k tx)) = (tview tx)(k := None)"
    and put_closed: "\<not> topen tx \<Longrightarrow> \<not> topen (fst (ktx_Put ops k v tx))"
    and delete_closed: "\<not> topen tx \<Longrightarrow> \<not> topen (fst (ktx_Delete ops k tx))"
    and commit_open: "topen tx \<Longrightarrow> ktx_Commit ops s tx = (s', tx', r) \<Longrightarrow>
      \<not> topen tx' \<and> (r = Ok () \<and> view s' = tview tx \<or> (\<exists>e. r = Err e) \<and> view s' = view s)"
    and commit_closed: "\<not> topen tx \<Longrightarrow> \<exists>e. ktx_Commit ops s tx = (s, tx, Err e)"
    and get_value: "topen tx \<Longrightarrow> ktx_Get ops tx k = Ok (case tview tx k of None \<Rightarrow> [] | Some v \<Rightarrow> v)"

text \<open>What a batch does to the contents.\<close>

fun batch_effect :: "kvop list \<Rightarrow> (bytes \<rightharpoonup> bytes) \<Rightarrow> (bytes \<rightharpoonup> bytes)" where
  "batch_effect [] m = m"
| "batch_effect (p # batch) m = batch_effect batch (m(kop_K p := kop_V p))"

lemma batch_effect_append: "batch_effect (xs @ ys) m = batch_effect ys (batch_effect xs m)"
  by (induction xs arbitrary: m) auto

lemma batch_effect_other: "k \<notin> kop_K ` set batch \<Longrightarrow> batch_effect batch m k = m k"
  by (induction batch arbitrary: m) auto

lemma batch_effect_same:
  "k \<in> kop_K ` set batch \<Longrightarrow> \<forall>p \<in> set batch. kop_K p = k \<longrightarrow> kop_V p = v \<Longrightarrow> batch_effect batch m k = v"
proof (induction batch arbitrary: m)
  case (Cons p batch)
  then show ?case using batch_effect_other [of k batch] by (cases "k \<in> kop_K ` set batch") auto
qed simp

definition batch_fits :: "(bytes \<Rightarrow> bytes \<Rightarrow> bool) \<Rightarrow> kvop list \<Rightarrow> bool" where
  "batch_fits fits batch \<longleftrightarrow> (\<forall>p \<in> set batch. \<forall>v. kop_V p = Some v \<longrightarrow> fits (kop_K p) v)"

context kv_driver
begin

lemma apply_batch_open:
  "topen tx \<Longrightarrow> batch_fits fits batch \<Longrightarrow>
     topen (apply_batch ops batch tx) \<and> tview (apply_batch ops batch tx) = batch_effect batch (tview tx)"
proof (induction batch arbitrary: tx)
  case (Cons p batch)
  then show ?case
    using put_open [of tx "kop_K p"] delete_open [of tx "kop_K p"] by (cases "kop_V p") (auto simp: batch_fits_def)
qed simp

lemma apply_batch_closed: "\<not> topen tx \<Longrightarrow> \<not> topen (apply_batch ops batch tx)"
  by (induction batch arbitrary: tx) (auto simp: put_closed delete_closed split: option.split)

lemma commit_fresh:
  assumes "ib_tx b = None" "batch_fits fits (ib_batch b)" "IBatch_Commit ops (s, b) = ((s', b'), r)"
  shows "(r = Ok () \<and> view s' = batch_effect (ib_batch b) (view s) \<and> (\<exists>tx. ib_tx b' = Some tx \<and> \<not> topen tx)) \<or>
    (r \<noteq> Ok () \<and> view s' = view s)"
proof (cases "kv_NewTransaction ops s True")
  case (Ok tx)
  let ?t = "apply_batch ops (ib_batch b) tx"
  obtain s1 tx1 r1 where c: "ktx_Commit ops s ?t = (s1, tx1, r1)" by (cases "ktx_Commit ops s ?t") auto
  have "topen ?t" "tview ?t = batch_effect (ib_batch b) (view s)"
    using begin_view [OF Ok] apply_batch_open [OF _ assms(2)] by auto
  then show ?thesis using commit_open [OF _ c] assms(1,3) Ok c by (auto simp: IBatch_Commit_def)
qed (use assms(1,3) in \<open>auto simp: IBatch_Commit_def\<close>)

lemma commit_again:
  assumes "ib_tx b = Some tx" "\<not> topen tx"
  shows "\<exists>b' e. IBatch_Commit ops (s, b) = ((s, b'), Err (KVErr e))"
  using commit_closed [OF apply_batch_closed [OF assms(2)], of s "ib_batch b"] assms(1) by (auto simp: IBatch_Commit_def)

end

end
