(* ===== verification/Index_Docs.thy ===== *)
theory Index_Docs
  imports Index_Writer "HOL-Library.AList"
begin

text \<open>
  What \<open>Index_Writer\<close> does to the store: an added document can be read back, a deleted one leaves nothing that its term lists
  name and nothing of another document is touched, and the update of an existing document deletes it and then fails.
\<close>

section \<open>What adding a document writes\<close>

definition posting_op :: "kvop \<Rightarrow> bool" where
  "posting_op p \<longleftrightarrow> kop_V p \<noteq> None \<and> kop_K p \<noteq> [] \<and> hd (kop_K p) \<noteq> KEY_TYPE_F"

definition appends :: "kvop list \<Rightarrow> kvop list \<Rightarrow> bool" where
  "appends batch batch' \<longleftrightarrow> (\<exists>ps. batch' = batch @ ps \<and> list_all posting_op ps)"

lemma appends_refl [simp]: "appends b b"
  by (simp add: appends_def)

lemma appends_trans: "appends a b \<Longrightarrow> appends b c \<Longrightarrow> appends a c"
  by (auto simp: appends_def)

lemma appends_Set: "k \<noteq> [] \<Longrightarrow> hd k \<noteq> KEY_TYPE_F \<Longrightarrow> appends b (KVBatch_Set k v b)"
  by (auto simp: appends_def KVBatch_Set_def posting_op_def)

lemma key_types [simp]: "KEY_TYPE_I \<noteq> KEY_TYPE_F" "KEY_TYPE_P \<noteq> KEY_TYPE_F" "KEY_TYPE_T \<noteq> KEY_TYPE_F"
  by (simp_all add: KEY_TYPE_I_def KEY_TYPE_P_def KEY_TYPE_T_def KEY_TYPE_F_def)

lemma encodeBytes_Cons: "EncodeBytesAscending [c] d = c # EncodeBytesAscending [] d"
  using bytes_asc.enc_append [of "[c]" d] by simp

lemma store_key: "encodeStoreFieldKey d f = KEY_TYPE_F # EncodeBytesAscending [] d @ (if f > 0 then be_bytes 4 f else [])"
  by (simp add: encodeStoreFieldKey_def encodeBytes_Cons EncodeUint32Ascending_be)

lemma term_key: "encodeFieldTermAbstractKey d f = KEY_TYPE_T # EncodeBytesAscending [] d @ (if f > 0 then be_bytes 4 f else [])"
  by (simp add: encodeFieldTermAbstractKey_def encodeBytes_Cons EncodeUint32Ascending_be)

lemma posting_key: "encodeIndexKey d f t = KEY_TYPE_I # posting_enc [] (f, t, d)"
  using posting_append [of "[KEY_TYPE_I]" "(f, t, d)"] by (simp add: encodeIndexKey_posting)

lemma position_key: "encodeIndexPositionKey d f t p =
    KEY_TYPE_P # posting_enc [] (f, t, d) @ (if 0 <s p then be_bytes 4 (ucast p :: u32) else [])"
  by (simp add: encodeIndexPositionKey_posting)

lemma appends_positions: "appends batch (add_positions d f t locs batch)"
proof (induction locs arbitrary: batch)
  case (Cons pos locs)
  obtain k v where kv: "encodeIndexPosition d f t (tok_Position pos) (tok_Start pos) (tok_End pos) = (k, v)" by fastforce
  then have "k \<noteq> []" "hd k \<noteq> KEY_TYPE_F" by (auto simp: encodeIndexPosition_def Let_def position_key split: if_splits)
  then have "appends batch (KVBatch_Set k v batch)" by (rule appends_Set)
  then show ?case using appends_trans Cons.IH kv by simp
qed simp

lemma appends_terms: "appends batch (fst (add_terms d f vec tfs batch ts))"
proof (induction tfs arbitrary: batch ts)
  case (Cons tf tfs)
  obtain k v where tf: "tf = (k, v)" by fastforce
  let ?b = "KVBatch_Set (encodeIndexKey d f (tf_Term v)) (EncodeIntValue [] 0 (tf_frequency v)) batch"
  let ?c = "if vec then add_positions d f (tf_Term v) (tf_Locations v) ?b else ?b"
  have "appends batch ?b" by (rule appends_Set) (simp_all add: posting_key)
  then have c: "appends batch ?c" by (cases vec) (auto intro: appends_trans [OF _ appends_positions])
  have "add_terms d f vec (tf # tfs) batch ts = add_terms d f vec tfs ?c (ts @ [tf_Term v])"
    by (simp add: tf encodeIndex_def Let_def)
  then show ?case using appends_trans [OF c Cons.IH] by (simp only:)
qed simp

lemma appends_value: "appends batch (fst (add_value ord an d field x batch))"
proof -
  let ?vec = "includesVectors (fld_IndexOption field)"
  obtain b ts where t: "add_terms d (fld_Id field) ?vec (ord (TokenFrequency (an x) ?vec)) batch [] = (b, ts)" by fastforce
  then have b: "appends batch b" using appends_terms [of batch d "fld_Id field" ?vec] by (metis fst_conv)
  moreover have "appends b (KVBatch_Set (encodeFieldTermAbstractKey d (fld_Id field)) v b)" for v
    by (rule appends_Set) (simp_all add: term_key)
  ultimately show ?thesis
    using t by (auto simp: add_value_def Let_def encodeFieldTermAbstract_def intro: appends_trans split: result.split)
qed

lemma appends_values: "appends batch (fst (add_values ord an d field data batch))"
proof (induction ord an d field data batch rule: add_values.induct)
  case (1 ord an d field data batch)
  show ?case
  proof (cases "data = []")
    case False
    then show ?thesis
    proof (cases "DecodeBytesValue data")
      case (Ok p)
      obtain rest x where p: "p = (rest, x)" by fastforce
      obtain b r where v: "add_value ord an d field x batch = (b, r)" by fastforce
      then have b: "appends batch b" using appends_value [of batch ord an d field x] by simp
      show ?thesis
      proof (cases r)
        case (Ok u)
        then show ?thesis
          using 1 [OF False \<open>DecodeBytesValue data = Ok p\<close> p [symmetric] v [symmetric] Ok] False \<open>DecodeBytesValue data = Ok p\<close> p v b
          by (auto simp: add_values.simps [of ord an d field data batch] intro: appends_trans)
      qed (use False Ok p v b in \<open>simp_all add: add_values.simps [of ord an d field data batch]\<close>)
    qed (simp_all add: add_values.simps [of ord an d field data batch])
  qed (simp add: add_values.simps)
qed

text \<open>The write of a stored field.\<close>

definition store_op :: "bytes \<Rightarrow> DocField \<Rightarrow> kvop list" where
  "store_op d field = (if fld_Stored field
     then [\<lparr>kop_K = encodeStoreFieldKey d (fld_Id field), kop_V = Some (fieldTypeInner (fld_Type field) # fld_Data field)\<rparr>] else [])"

lemma store_op_Set:
  "(case encodeStoreField d (Field.truncate field) of None \<Rightarrow> batch | Some (fk, fv) \<Rightarrow> KVBatch_Set fk fv batch) = batch @ store_op d field"
  by (auto simp: encodeStoreField_def store_op_def KVBatch_Set_def store_key Field.truncate_def Let_def)

lemma add_field_ops:
  "\<exists>ps. fst (add_field ord reg d field batch) = batch @ store_op d field @ ps \<and> list_all posting_op ps"
proof -
  have "appends (batch @ store_op d field) (fst (add_field ord reg d field batch))"
    using appends_values by (auto simp: add_field_def store_op_Set Let_def split: option.split)
  then show ?thesis by (auto simp: appends_def)
qed

text \<open>All writes of a document: its stored fields, and writes under other kinds of keys.\<close>

lemma add_fields_ops:
  assumes "add_fields ord reg d fs batch = (batch', Ok u)"
  shows "\<exists>ps. batch' = batch @ ps \<and> (\<forall>p \<in> set ps. posting_op p \<or> (\<exists>f \<in> set fs. p \<in> set (store_op d f))) \<and>
    (\<forall>f \<in> set fs. set (store_op d f) \<subseteq> set ps)"
  using assms
proof (induction fs arbitrary: batch)
  case (Cons f fs)
  obtain b r where f: "add_field ord reg d f batch = (b, r)" by fastforce
  obtain ps where b: "b = batch @ store_op d f @ ps" "list_all posting_op ps"
    using add_field_ops [of ord reg d f batch] f by auto
  obtain v where "r = Ok v" using Cons.prems f by (cases r) auto
  then obtain qs where "batch' = b @ qs" "\<forall>p \<in> set qs. posting_op p \<or> (\<exists>f \<in> set fs. p \<in> set (store_op d f))"
      "\<forall>f \<in> set fs. set (store_op d f) \<subseteq> set qs"
    using Cons.IH [of b] Cons.prems f by auto
  then show ?case using b by (intro exI [of _ "store_op d f @ ps @ qs"]) (auto simp: list_all_iff)
qed simp

lemma store_key_eq: "encodeStoreFieldKey d f = encodeStoreFieldKey d' f' \<longleftrightarrow> d = d' \<and> f = f'"
proof -
  have l: "be_bytes 4 (x :: u32) \<noteq> []" for x by (simp add: be_bytes_numeral)
  have b: "be_bytes 4 (x :: u32) = be_bytes 4 y \<Longrightarrow> x = y" for x y
    using DecodeUint32Ascending_roundtrip [of x "[]"] DecodeUint32Ascending_roundtrip [of y "[]"] by simp
  define suf where "suf x = (if x > 0 then be_bytes 4 x else [])" for x :: u32
  have inj: "suf f = suf f' \<Longrightarrow> f = f'"
    using l [of f] l [of f'] b [of f f'] by (auto simp: suf_def word_gt_0 split: if_splits)
  show ?thesis
    using bytes_asc.enc_unique [of d "suf f" d' "suf f'"] inj by (auto simp: store_key simp flip: suf_def)
qed

lemma batch_store_field:
  assumes "add_fields ord reg d fs [] = (batch, Ok u)" "f \<in> set fs" "fld_Stored f" "distinct (map fld_Id fs)"
  shows "batch_effect batch m (encodeStoreFieldKey d (fld_Id f)) = Some (fieldTypeInner (fld_Type f) # fld_Data f)"
proof (rule batch_effect_same)
  obtain ps where ps: "batch = ps" "\<forall>p \<in> set ps. posting_op p \<or> (\<exists>f \<in> set fs. p \<in> set (store_op d f))"
      "\<forall>f \<in> set fs. set (store_op d f) \<subseteq> set ps"
    using add_fields_ops [OF assms(1)] by auto
  show "encodeStoreFieldKey d (fld_Id f) \<in> kop_K ` set batch" using ps(1,3) assms(2,3) by (force simp: store_op_def)
  have "kop_V p = Some (fieldTypeInner (fld_Type f) # fld_Data f)" if p: "p \<in> set batch" "kop_K p = encodeStoreFieldKey d (fld_Id f)" for p
  proof -
    have "\<not> posting_op p" using p(2) by (simp add: posting_op_def store_key)
    then obtain g where g: "g \<in> set fs" "p \<in> set (store_op d g)" using ps(1,2) p(1) by auto
    then have "fld_Id g = fld_Id f" using p(2) by (auto simp: store_op_def store_key_eq split: if_splits)
    then have "g = f" using assms(2,4) g(1) by (metis distinct_map inj_onD)
    then show ?thesis using g(2) assms(3) by (simp add: store_op_def)
  qed
  then show "\<forall>p \<in> set batch. kop_K p = encodeStoreFieldKey d (fld_Id f) \<longrightarrow> kop_V p = Some (fieldTypeInner (fld_Type f) # fld_Data f)" by blast
qed

section \<open>Reading a document back\<close>

definition read_back :: "DocField \<Rightarrow> ValueType \<times> bytes" where
  "read_back f = (fieldTypeOuter (fieldTypeInner (fld_Type f)), if fld_Type f = VNull then [] else fld_Data f)"

lemma decode_stored:
  assumes "fld_Type f = VNull \<or> fld_Data f \<noteq> []"
  shows "\<exists>field. decodeStoreField i (fieldTypeInner (fld_Type f) # fld_Data f) = Ok field \<and> (fld_Type field, fld_Data field) = read_back f"
  using assms fieldType_null [of "fld_Type f"] by (auto simp: decodeStoreField_def read_back_def Let_def)

definition readable :: "DocField list \<Rightarrow> u32 \<Rightarrow> bool" where
  "readable fs i \<longleftrightarrow> (\<exists>f \<in> set fs. fld_Id f = i \<and> fld_Stored f \<and> (fld_Type f = VNull \<or> fld_Data f \<noteq> []))"

context kv_driver
begin

lemma get_fields_all:
  assumes "topen tx" "\<forall>i \<in> set ids. \<exists>f. fld_Id f = i \<and> g i = read_back f \<and> (fld_Type f = VNull \<or> fld_Data f \<noteq> []) \<and>
      tview tx (encodeStoreFieldKey d i) = Some (fieldTypeInner (fld_Type f) # fld_Data f)"
  shows "get_fields ops tx d ids acc = Some (acc @ map (\<lambda>i. (i, g i)) ids)"
  using assms(2)
proof (induction ids arbitrary: acc)
  case (Cons i ids)
  then obtain f where f: "g i = read_back f" "fld_Type f = VNull \<or> fld_Data f \<noteq> []"
      "tview tx (encodeStoreFieldKey d i) = Some (fieldTypeInner (fld_Type f) # fld_Data f)"
    by auto
  then show ?case
    using Cons.IH [of "acc @ [(i, g i)]"] Cons.prems decode_stored [OF f(2), of i] get_value [OF assms(1), of "encodeStoreFieldKey d i"]
    by auto
qed simp

lemma add_then_get:
  assumes "distinct (map fld_Id (doc_Fields doc))" "AddDocument ops ord reg doc s = (s', Ok ())"
    and "batch_fits fits (fst (add_fields ord reg (doc_Id doc) (doc_Fields doc) []))"
    and "kv_NewTransaction ops s' False = Ok tx" "ids \<noteq> []" "\<forall>i \<in> set ids. readable (doc_Fields doc) i"
  shows "\<exists>m. GetDocument ops (doc_Id doc) ids s' = Some m \<and> dom m = set ids \<and>
    (\<forall>f \<in> set (doc_Fields doc). fld_Id f \<in> set ids \<longrightarrow> m (fld_Id f) = Some (read_back f))"
proof -
  let ?fs = "doc_Fields doc" and ?d = "doc_Id doc"
  obtain batch u where a: "add_fields ord reg ?d ?fs [] = (batch, Ok u)"
    using assms(2) by (cases "add_fields ord reg ?d ?fs []" rule: prod.exhaust)
      (auto simp: AddDocument_def addDocument_def NewIBatch_def split: result.splits)
  obtain b' where c: "IBatch_Commit ops (s, \<lparr>ib_batch = batch, ib_tx = None\<rparr>) = ((s', b'), Ok ())"
    using assms(2) a by (auto simp: AddDocument_def addDocument_def NewIBatch_def split: prod.splits)
  have v: "view s' = batch_effect batch (view s)"
    using commit_fresh [OF _ _ c] assms(3) a by simp
  define g where "g i = read_back (the (find (\<lambda>f. fld_Id f = i) ?fs))" for i
  have g: "g (fld_Id f) = read_back f" if f: "f \<in> set ?fs" for f
  proof -
    obtain h where h: "find (\<lambda>h. fld_Id h = fld_Id f) ?fs = Some h" using f
      by (cases "find (\<lambda>h. fld_Id h = fld_Id f) ?fs") (auto simp: find_None_iff)
    then have "h \<in> set ?fs" "fld_Id h = fld_Id f" by (auto simp: find_Some_iff)
    then have "h = f" using assms(1) f by (metis distinct_map inj_onD)
    then show ?thesis by (simp add: g_def h)
  qed
  have "topen tx" "tview tx = view s'" using begin_view [OF assms(4)] by auto
  moreover have "\<forall>i \<in> set ids. \<exists>f. fld_Id f = i \<and> g i = read_back f \<and> (fld_Type f = VNull \<or> fld_Data f \<noteq> []) \<and>
      view s' (encodeStoreFieldKey ?d i) = Some (fieldTypeInner (fld_Type f) # fld_Data f)"
    using assms(6) g batch_store_field [OF a _ _ assms(1), of _ "view s"] unfolding v readable_def by metis
  ultimately have "get_fields ops tx ?d ids [] = Some ([] @ map (\<lambda>i. (i, g i)) ids)"
    by (intro get_fields_all) simp_all
  then have "GetDocument ops ?d ids s' = Some (map_of (rev (map (\<lambda>i. (i, g i)) ids)))"
    using assms(4,5) by (cases ids) (simp_all add: GetDocument_def)
  moreover have "map_of (rev (map (\<lambda>i. (i, g i)) ids)) = (\<lambda>i. if i \<in> set ids then Some (g i) else None)"
    by (rule ext) (simp add: map_of_map_restrict rev_map restrict_map_def)
  ultimately show ?thesis using g by (auto simp: dom_def)
qed

end

section \<open>Deleting a document\<close>

text \<open>The keys of a document.\<close>

definition doc_key :: "bytes \<Rightarrow> bytes \<Rightarrow> bool" where
  "doc_key d k \<longleftrightarrow> (\<exists>f. k = encodeStoreFieldKey d f) \<or> (\<exists>f. k = encodeFieldTermAbstractKey d f) \<or>
     (\<exists>f t. k = encodeIndexKey d f t) \<or> (\<exists>f t p. k = encodeIndexPositionKey d f t p)"

text \<open>Keys that begin like one of the document.\<close>

definition owned :: "bytes \<Rightarrow> bytes \<Rightarrow> bool" where
  "owned d k \<longleftrightarrow> k \<noteq> [] \<and>
     (hd k \<in> {KEY_TYPE_F, KEY_TYPE_T} \<and> (\<exists>r. tl k = EncodeBytesAscending [] d @ r) \<or>
      hd k \<in> {KEY_TYPE_I, KEY_TYPE_P} \<and> (\<exists>f t r. tl k = posting_enc [] (f, t, d) @ r))"

lemma key_types_distinct [simp]: "KEY_TYPE_I \<noteq> KEY_TYPE_T" "KEY_TYPE_P \<noteq> KEY_TYPE_T" "KEY_TYPE_I \<noteq> KEY_TYPE_P"
  by (simp_all add: KEY_TYPE_I_def KEY_TYPE_P_def KEY_TYPE_T_def KEY_TYPE_F_def)

lemma owned_doc: "c = KEY_TYPE_F \<or> c = KEY_TYPE_T \<Longrightarrow> owned d (c # EncodeBytesAscending [] d @ r)"
  by (auto simp: owned_def)

lemma owned_posting: "c = KEY_TYPE_I \<or> c = KEY_TYPE_P \<Longrightarrow> owned d (c # posting_enc [] (f, t, d) @ r)"
  unfolding owned_def by auto

lemma doc_key_owned: "doc_key d k \<Longrightarrow> owned d k"
  using owned_posting [of KEY_TYPE_I d _ _ "[]", unfolded append_Nil2]
  by (auto simp: doc_key_def store_key term_key posting_key position_key simp del: append_Nil2 intro: owned_doc owned_posting)

lemma owned_unique:
  assumes "owned d k" "owned d' k"
  shows "d = d'"
proof (cases "hd k \<in> {KEY_TYPE_F, KEY_TYPE_T}")
  case True
  then have "hd k \<notin> {KEY_TYPE_I, KEY_TYPE_P}" by (auto simp: KEY_TYPE_I_def KEY_TYPE_P_def KEY_TYPE_T_def KEY_TYPE_F_def)
  then obtain r r' where "tl k = EncodeBytesAscending [] d @ r" "tl k = EncodeBytesAscending [] d' @ r'"
    using assms unfolding owned_def by blast
  then show ?thesis using bytes_asc.enc_unique [of d r d' r'] by simp
next
  case False
  then obtain f t r f' t' r' where "tl k = posting_enc [] (f, t, d) @ r" "tl k = posting_enc [] (f', t', d') @ r'"
    using assms unfolding owned_def by blast
  then show ?thesis using posting_unique [of "(f, t, d)" r "(f', t', d')" r'] by simp
qed

lemma prefix_owned:
  assumes "take (length p) k = p" "p = KEY_TYPE_F # EncodeBytesAscending [] d \<or> p = KEY_TYPE_T # EncodeBytesAscending [] d \<or>
      p = KEY_TYPE_P # posting_enc [] (f, t, d)"
  shows "owned d k"
proof -
  have k: "k = p @ drop (length p) k" using assms(1) by (metis append_take_drop_id)
  from assms(2) show ?thesis
    by (elim disjE; subst k) (simp_all only: append_Cons owned_doc owned_posting simp_thms)
qed

lemma fold_Delete: "fold (\<lambda>(k, _). KVBatch_Delete k) xs batch = batch @ map (\<lambda>(k, _). \<lparr>kop_K = k, kop_V = None\<rparr>) xs"
  by (induction xs arbitrary: batch) (auto simp: KVBatch_Delete_def)

definition deletes :: "bytes set \<Rightarrow> kvop list \<Rightarrow> bool" where
  "deletes ks ps \<longleftrightarrow> (\<forall>p \<in> set ps. kop_V p = None) \<and> kop_K ` set ps = ks"

lemma deletes_effect: "deletes ks ps \<Longrightarrow> batch_effect ps m = (\<lambda>k. if k \<in> ks then None else m k)"
  using batch_effect_other batch_effect_same by (fastforce simp: deletes_def)

lemma deletes_append: "deletes ks ps \<Longrightarrow> deletes ls qs \<Longrightarrow> deletes (ks \<union> ls) (ps @ qs)"
  by (auto simp: deletes_def)

context kv_driver
begin

definition pos_keys :: "'s \<Rightarrow> bytes \<Rightarrow> u32 \<Rightarrow> bytes \<Rightarrow> bytes set" where
  "pos_keys s d f t = {k. view s k \<noteq> None \<and> take (length (encodeIndexPositionKey d f t 0)) k = encodeIndexPositionKey d f t 0}"

lemma iter_keys: "kv_PrefixIterator ops s p = Some xs \<Longrightarrow>
    deletes {k. view s k \<noteq> None \<and> take (length p) k = p} (map (\<lambda>(k, _). \<lparr>kop_K = k, kop_V = None\<rparr>) xs)"
  using prefix_all [of s p xs] by (force simp: deletes_def image_def)

lemma delete_positions_ops:
  assumes "delete_positions ops s d f terms batch = (batch', Ok u)"
  shows "\<exists>ps. batch' = batch @ ps \<and> deletes (\<Union>t \<in> set terms. insert (encodeIndexKey d f t) (pos_keys s d f t)) ps"
  using assms
proof (induction terms arbitrary: batch)
  case (Cons t terms)
  let ?b = "KVBatch_Delete (encodeIndexKey d f t) batch"
  obtain xs where xs: "kv_PrefixIterator ops s (encodeIndexPositionKey d f t 0) = Some xs"
    using Cons.prems by (cases "kv_PrefixIterator ops s (encodeIndexPositionKey d f t 0)") auto
  obtain ps where ps: "batch' = fold (\<lambda>(k, _). KVBatch_Delete k) xs ?b @ ps"
      "deletes (\<Union>t \<in> set terms. insert (encodeIndexKey d f t) (pos_keys s d f t)) ps"
    using Cons.IH [of "fold (\<lambda>(k, _). KVBatch_Delete k) xs ?b"] Cons.prems xs by auto
  let ?q = "\<lparr>kop_K = encodeIndexKey d f t, kop_V = None\<rparr> # map (\<lambda>(k, _). \<lparr>kop_K = k, kop_V = None\<rparr>) xs"
  have "deletes (insert (encodeIndexKey d f t) (pos_keys s d f t)) ?q"
    using iter_keys [OF xs] by (simp add: deletes_def pos_keys_def)
  from deletes_append [OF this ps(2)] show ?case
    using ps(1) by (intro exI [of _ "?q @ ps"]) (simp add: fold_Delete KVBatch_Delete_def Un_ac)
qed (simp add: deletes_def)

definition term_keys :: "'s \<Rightarrow> bytes \<Rightarrow> bytes \<times> bytes \<Rightarrow> bytes set" where
  "term_keys s d = (\<lambda>(key, val).
     case (decodeFieldTermAbstractKey key, decodeFieldTermAbstractValue val []) of
       (Ok (_, f), Ok terms) \<Rightarrow> insert key (\<Union>t \<in> set terms. insert (encodeIndexKey d f t) (pos_keys s d f t))
     | _ \<Rightarrow> {})"

lemma delete_terms_ops:
  assumes "delete_terms ops s d iter batch = (batch', Ok u)"
  shows "\<exists>ps. batch' = batch @ ps \<and> deletes (\<Union>kv \<in> set iter. term_keys s d kv) ps \<and>
    (\<forall>(key, val) \<in> set iter. \<exists>x f terms. decodeFieldTermAbstractKey key = Ok (x, f) \<and> decodeFieldTermAbstractValue val [] = Ok terms)"
  using assms
proof (induction iter arbitrary: batch)
  case (Cons kv iter)
  obtain key val where kv: "kv = (key, val)" by fastforce
  obtain x f terms where dec: "decodeFieldTermAbstractKey key = Ok (x, f)" "decodeFieldTermAbstractValue val [] = Ok terms"
    using Cons.prems kv by (cases "decodeFieldTermAbstractKey key"; cases "decodeFieldTermAbstractValue val []") auto
  obtain b r where b: "delete_positions ops s d f terms (KVBatch_Delete key batch) = (b, r)" by fastforce
  obtain v where r: "r = Ok v" using Cons.prems kv dec b by (cases r) auto
  obtain ps where ps: "b = KVBatch_Delete key batch @ ps"
      "deletes (\<Union>t \<in> set terms. insert (encodeIndexKey d f t) (pos_keys s d f t)) ps"
    using delete_positions_ops b r by blast
  obtain qs where qs: "batch' = b @ qs" "deletes (\<Union>kv \<in> set iter. term_keys s d kv) qs"
      "\<forall>(key, val) \<in> set iter. \<exists>x f terms. decodeFieldTermAbstractKey key = Ok (x, f) \<and> decodeFieldTermAbstractValue val [] = Ok terms"
    using Cons.IH [of b] Cons.prems kv dec b r by auto
  let ?p = "\<lparr>kop_K = key, kop_V = None\<rparr> # ps"
  have "deletes (term_keys s d kv) ?p" using ps(2) kv dec by (simp add: deletes_def term_keys_def)
  from deletes_append [OF this qs(2)] show ?case
    using ps(1) qs(1,3) kv dec by (intro exI [of _ "?p @ qs"]) (simp add: KVBatch_Delete_def)
qed (simp add: deletes_def)

lemma term_keys_owned:
  assumes "k \<in> term_keys s d (key, val)" "owned d key"
  shows "owned d k"
proof -
  have "owned d (encodeIndexKey d f t)" for f t by (rule doc_key_owned) (auto simp: doc_key_def)
  moreover have "owned d k" if "k \<in> pos_keys s d f t" for f t
    using that prefix_owned [of "encodeIndexPositionKey d f t 0" k d f t] by (simp add: pos_keys_def position_key)
  ultimately show ?thesis using assms by (auto simp: term_keys_def split: result.splits)
qed

text \<open>The keys a deletion removes.\<close>

definition doc_keys :: "'s \<Rightarrow> bytes \<Rightarrow> (bytes \<times> bytes) list \<Rightarrow> bytes set" where
  "doc_keys s d iter = {k. view s k \<noteq> None \<and> take (length (encodeStoreFieldKey d 0)) k = encodeStoreFieldKey d 0} \<union>
     (\<Union>kv \<in> set iter. term_keys s d kv)"

lemma deleteDocument_cases:
  assumes "deleteDocument ops d fc (s, NewIBatch) = ((s', b'), Ok n)"
  obtains (missing) "kv_PrefixIterator ops s (encodeStoreFieldKey d 0) = Some []" "s' = s" "n = 0"
  | (found) fieldIter iter tx where "kv_PrefixIterator ops s (encodeStoreFieldKey d 0) = Some fieldIter" "fieldIter \<noteq> []" "n = 1"
      "kv_PrefixIterator ops s (encodeFieldTermAbstractKey d 0) = Some iter"
      "\<forall>(key, val) \<in> set iter. \<exists>x f terms. decodeFieldTermAbstractKey key = Ok (x, f) \<and> decodeFieldTermAbstractValue val [] = Ok terms"
      "view s' = (\<lambda>k. if k \<in> doc_keys s d iter then None else view s k)" "ib_tx b' = Some tx" "\<not> topen tx"
proof -
  have "kv_PrefixIterator ops s (encodeStoreFieldKey d 0) \<noteq> None"
    by (rule notI) (use assms in \<open>simp add: deleteDocument_def\<close>)
  then obtain xs where xs: "kv_PrefixIterator ops s (encodeStoreFieldKey d 0) = Some xs" by blast
  show thesis
  proof (cases "xs = []")
    case True
    then have "deleteDocument ops d fc (s, NewIBatch) = ((s, NewIBatch), Ok 0)"
      using xs by (simp add: deleteDocument_def NewIBatch_def)
    then have "s' = s" "n = 0" using assms by simp_all
    then show thesis using missing xs True by blast
  next
    case False
    let ?b0 = "map (\<lambda>(k, _). \<lparr>kop_K = k, kop_V = None\<rparr>) xs :: kvop list"
    have "kv_PrefixIterator ops s (encodeFieldTermAbstractKey d 0) \<noteq> None"
      by (rule notI) (use assms xs False in \<open>simp add: deleteDocument_def Let_def\<close>)
    then obtain iter where iter: "kv_PrefixIterator ops s (encodeFieldTermAbstractKey d 0) = Some iter" by blast
    obtain batch r where del: "delete_terms ops s d iter ?b0 = (batch, r)" by fastforce
    obtain u where r: "r = Ok u"
      using assms xs False iter del by (cases r) (simp_all add: deleteDocument_def NewIBatch_def fold_Delete Let_def)
    obtain s1 b1 r1 where c: "IBatch_Commit ops (s, \<lparr>ib_batch = batch, ib_tx = None\<rparr>) = ((s1, b1), r1)"
      by (cases "IBatch_Commit ops (s, \<lparr>ib_batch = batch, ib_tx = None\<rparr>)") (metis surj_pair)
    have "deleteDocument ops d fc (s, NewIBatch) =
        (case r1 of Ok _ \<Rightarrow> ((s1, b1), Ok 1) | Err e \<Rightarrow> ((s1, b1), Err e) | Panic \<Rightarrow> ((s1, b1), Panic))"
      using xs False iter del r c by (simp add: deleteDocument_def NewIBatch_def fold_Delete Let_def del: One_nat_def)
    then have res: "s1 = s'" "b1 = b'" "r1 = Ok ()" "n = 1" using assms by (simp_all split: result.splits)
    obtain ps where ps: "batch = ?b0 @ ps" "deletes (\<Union>kv \<in> set iter. term_keys s d kv) ps"
      "\<forall>(key, val) \<in> set iter. \<exists>x f terms. decodeFieldTermAbstractKey key = Ok (x, f) \<and> decodeFieldTermAbstractValue val [] = Ok terms"
      using delete_terms_ops [OF del [unfolded r]] by blast
    have ks: "deletes (doc_keys s d iter) batch"
      unfolding ps(1) doc_keys_def by (rule deletes_append [OF iter_keys [OF xs] ps(2)])
    then have "batch_fits fits batch" by (auto simp: deletes_def batch_fits_def)
    then have "view s' = batch_effect batch (view s)" "\<exists>tx. ib_tx b' = Some tx \<and> \<not> topen tx"
      using commit_fresh [OF _ _ c] res by auto
    then show thesis using found [OF xs False res(4) iter ps(3)] deletes_effect [OF ks] by auto
  qed
qed

lemma deleteDocument_exact:
  assumes "DeleteDocument ops d s = (s', Ok n)"
  shows "n = 0 \<and> s' = s \<and> (\<forall>f. view s (encodeStoreFieldKey d f) = None) \<or>
    n = 1 \<and> (\<forall>f. view s' (encodeStoreFieldKey d f) = None \<and> view s' (encodeFieldTermAbstractKey d f) = None) \<and>
    (\<forall>f row terms t p. view s (encodeFieldTermAbstractKey d f) = Some row \<longrightarrow> decodeFieldTermAbstractValue row [] = Ok terms \<longrightarrow>
       t \<in> set terms \<longrightarrow> view s' (encodeIndexKey d f t) = None \<and> view s' (encodeIndexPositionKey d f t p) = None) \<and>
    (\<forall>d' k. d' \<noteq> d \<longrightarrow> doc_key d' k \<longrightarrow> view s' k = view s k)"
proof -
  obtain b' where del: "deleteDocument ops d True (s, NewIBatch) = ((s', b'), Ok n)"
    using assms by (auto simp: DeleteDocument_def split: prod.splits)
  have pre: "take (length (encodeStoreFieldKey d 0)) (encodeStoreFieldKey d f) = encodeStoreFieldKey d 0"
    "take (length (encodeFieldTermAbstractKey d 0)) (encodeFieldTermAbstractKey d f) = encodeFieldTermAbstractKey d 0"
    "take (length (encodeIndexPositionKey d f t 0)) (encodeIndexPositionKey d f t p) = encodeIndexPositionKey d f t 0" for f t p
    by (simp_all add: store_key term_key position_key)
  from del show ?thesis
  proof (cases rule: deleteDocument_cases)
    case missing
    have "view s (encodeStoreFieldKey d f) = None" for f
      using prefix_all [OF missing(1), of "encodeStoreFieldKey d f"] pre(1) [of f] by (cases "view s (encodeStoreFieldKey d f)") auto
    then show ?thesis using missing by simp
  next
    case (found fieldIter iter tx)
    note v = found(6)
    have iter: "(k, x) \<in> set iter \<longleftrightarrow> view s k = Some x \<and> take (length (encodeFieldTermAbstractKey d 0)) k = encodeFieldTermAbstractKey d 0" for k x
      by (rule prefix_all [OF found(4)])
    have F: "view s' (encodeStoreFieldKey d f) = None" for f using pre(1) [of f] by (auto simp: v doc_keys_def)
    have terms: "\<exists>terms. decodeFieldTermAbstractKey (encodeFieldTermAbstractKey d f) = Ok (d, f) \<and>
        decodeFieldTermAbstractValue row [] = Ok terms" if "view s (encodeFieldTermAbstractKey d f) = Some row" for f row
    proof -
      have "(encodeFieldTermAbstractKey d f, row) \<in> set iter" using iter pre(2) that by simp
      then obtain x g ts where "decodeFieldTermAbstractKey (encodeFieldTermAbstractKey d f) = Ok (x, g)"
          "decodeFieldTermAbstractValue row [] = Ok ts"
        using found(5) by fastforce
      then show ?thesis using field_key_roundtrip [of d f] by (auto split: if_splits)
    qed
    have keys: "term_keys s d (encodeFieldTermAbstractKey d f, row) \<subseteq> doc_keys s d iter"
      if "view s (encodeFieldTermAbstractKey d f) = Some row" for f row
      using iter [of "encodeFieldTermAbstractKey d f" row] pre(2) [of f] that by (auto simp: doc_keys_def)
    have T: "view s' (encodeFieldTermAbstractKey d f) = None" for f
    proof (cases "view s (encodeFieldTermAbstractKey d f)")
      case (Some row)
      then show ?thesis using terms [OF Some] keys [OF Some] by (auto simp: v term_keys_def)
    qed (simp add: v)
    have I: "view s' (encodeIndexKey d f t) = None \<and> view s' (encodeIndexPositionKey d f t p) = None"
      if "view s (encodeFieldTermAbstractKey d f) = Some row" "decodeFieldTermAbstractValue row [] = Ok ts" "t \<in> set ts" for f row ts t p
    proof -
      have "insert (encodeIndexKey d f t) (pos_keys s d f t) \<subseteq> term_keys s d (encodeFieldTermAbstractKey d f, row)"
        using terms [OF that(1)] that(2,3) by (auto simp: term_keys_def)
      then have sub: "insert (encodeIndexKey d f t) (pos_keys s d f t) \<subseteq> doc_keys s d iter" using keys [OF that(1)] by blast
      have "encodeIndexPositionKey d f t p \<in> pos_keys s d f t \<or> view s (encodeIndexPositionKey d f t p) = None"
        using pre(3) [of f t p] by (auto simp: pos_keys_def)
      then show ?thesis using sub by (auto simp: v)
    qed
    have "owned d k" if "k \<in> doc_keys s d iter" for k
      using that prefix_owned [of "encodeStoreFieldKey d 0" k d] prefix_owned [of "encodeFieldTermAbstractKey d 0" _ d] iter
        term_keys_owned by (fastforce simp: doc_keys_def store_key term_key)
    then have "view s' k = view s k" if "d' \<noteq> d" "doc_key d' k" for d' k
      using that owned_unique [OF doc_key_owned [OF that(2)]] by (auto simp: v)
    then show ?thesis using found(3) F T I by blast
  qed
qed

lemma updateDocument_fails:
  assumes "isDocExist ops s (doc_Id doc)" "DeleteDocument ops (doc_Id doc) s = (s1, Ok n)"
  shows "\<exists>r. UpdateDocument ops ord reg doc upsert s = (s1, r) \<and> (\<forall>x. r \<noteq> Ok x)"
proof -
  obtain b1 where del: "deleteDocument ops (doc_Id doc) False (s, NewIBatch) = ((s1, b1), Ok n)"
    using assms(2) by (auto simp: DeleteDocument_def deleteDocument_def split: prod.splits)
  then obtain tx where tx: "ib_tx b1 = Some tx" "\<not> topen tx"
    by (cases rule: deleteDocument_cases) (use assms(1) in \<open>auto simp: isDocExist_def\<close>)
  obtain b r where add: "add_fields ord reg (doc_Id doc) (doc_Fields doc) (ib_batch b1) = (b, r)" by fastforce
  let ?b = "b1\<lparr>ib_batch := b\<rparr>"
  obtain b' e where c: "IBatch_Commit ops (s1, ?b) = ((s1, b'), Err (KVErr e))"
    using commit_again [of ?b tx s1] tx by auto
  have "addDocument ops ord reg doc False (s1, b1) = ((s1, ?b), r)"
    using add by (cases r) (simp_all add: addDocument_def)
  then show ?thesis using assms(1) del c by (cases r) (simp_all add: UpdateDocument_def updateDocument_def)
qed

end

section \<open>A driver over association lists\<close>

definition tx_closed :: string where
  "tx_closed = ''tx closed''"

definition al_kv :: "((bytes \<times> bytes) list, (bytes \<times> bytes) list \<times> bool) kv_ops" where
  "al_kv = \<lparr>kv_Get = (\<lambda>m k. Ok (case map_of m k of None \<Rightarrow> [] | Some v \<Rightarrow> v)),
     kv_Put = (\<lambda>k v m. (AList.update k v m, Ok ())),
     kv_PrefixIterator = (\<lambda>m p. Some (filter (\<lambda>(k, _). take (length p) k = p) (AList.clearjunk m))),
     kv_NewTransaction = (\<lambda>m _. Ok (m, True)),
     ktx_Get = (\<lambda>(m, _) k. Ok (case map_of m k of None \<Rightarrow> [] | Some v \<Rightarrow> v)),
     ktx_Put = (\<lambda>k v (m, opened). if opened then ((AList.update k v m, True), Ok ()) else ((m, False), Err tx_closed)),
     ktx_Delete = (\<lambda>k (m, opened). if opened then ((AList.delete k m, True), Ok ()) else ((m, False), Err tx_closed)),
     ktx_Commit = (\<lambda>s (m, opened). if opened then (m, (m, False), Ok ()) else (s, (m, False), Err tx_closed)),
     ktx_Rollback = (\<lambda>(m, opened). if opened then ((m, False), Ok ()) else ((m, False), Err tx_closed))\<rparr>"

interpretation al_driver: kv_driver al_kv map_of "\<lambda>tx. map_of (fst tx)" snd "\<lambda>_ _. True"
proof (unfold_locales, goal_cases)
  case (1 s p xs k v)
  have "(k, v) \<in> set (AList.clearjunk s) \<longleftrightarrow> map_of s k = Some v"
    using map_of_eq_Some_iff [OF distinct_clearjunk, of s k v] by (simp add: map_of_clearjunk)
  then show ?case using 1 by (auto simp: al_kv_def)
qed (auto simp: al_kv_def update_conv' delete_conv' split: prod.splits if_splits)

text \<open>A document with one stored field, and the store that holds it.\<close>

definition demo_doc :: Document where
  "demo_doc = \<lparr>doc_Id = [1], doc_Fields = [\<lparr>fld_Id = 7, fld_Type = VString, fld_Stored = True, fld_Data = [104],
     fld_Tokenized = False, fld_Analyzer = [], fld_IndexOption = DOCS\<rparr>]\<rparr>"

definition demo_store :: "(bytes \<times> bytes) list" where
  "demo_store = [(encodeStoreFieldKey [1] 7, [FIELD_TYPE_S, 104])]"

lemma demo_ops: "add_fields ord reg [1] (doc_Fields demo_doc) [] =
    ([\<lparr>kop_K = encodeStoreFieldKey [1] 7, kop_V = Some [FIELD_TYPE_S, 104]\<rparr>], Ok ())"
  by (simp add: demo_doc_def add_field_def store_op_Set store_op_def)

lemma demo_add: "AddDocument al_kv ord reg demo_doc [] = (demo_store, Ok ())"
  using demo_ops [of ord reg]
  by (simp add: AddDocument_def addDocument_def NewIBatch_def IBatch_Commit_def al_kv_def demo_store_def)
    (simp add: demo_doc_def)

lemma demo_prefix: "take (length (encodeStoreFieldKey [1] 0)) (encodeStoreFieldKey [1] 7) = encodeStoreFieldKey [1] 0"
  "take (length (encodeFieldTermAbstractKey [1] 0)) (encodeStoreFieldKey [1] 7) \<noteq> encodeFieldTermAbstractKey [1] 0"
  using key_types(3) [symmetric] by (simp_all add: store_key term_key)

lemma demo_delete: "DeleteDocument al_kv [1] demo_store = ([], Ok 1)"
  using demo_prefix
  by (simp add: DeleteDocument_def deleteDocument_def demo_store_def al_kv_def NewIBatch_def KVBatch_Delete_def IBatch_Commit_def)

section \<open>Documents\<close>







text \<open>A tokenized field with two values: the list of terms holds those of the last value only, so that a deletion does not find
  the postings of the first.\<close>

lemma add_terms_terms: "snd (add_terms d f vec tfs batch ts) = ts @ map (\<lambda>(_, tf). tf_Term tf) tfs"
  by (induction tfs arbitrary: batch ts) (auto simp: encodeIndex_def Let_def)

definition value_terms :: "freq_order \<Rightarrow> (bytes \<Rightarrow> Token list) \<Rightarrow> DocField \<Rightarrow> bytes \<Rightarrow> bytes list" where
  "value_terms ord an field x = map (\<lambda>(_, tf). tf_Term tf) (ord (TokenFrequency (an x) (includesVectors (fld_IndexOption field))))"

lemma encodeTerms_nonempty: "ts \<noteq> [] \<Longrightarrow> encodeTerms [] i ts \<noteq> []"
proof (cases ts)
  case (Cons t us)
  then show ?thesis
    using EncodeBytesValue_nonempty encodeTerms_append [of "EncodeBytesValue [] (word_of_nat i) t" "i + 1" us] by simp
qed simp

lemma add_value_terms:
  assumes "add_value ord an d field x batch = (batch', Ok u)"
  shows "batch_effect batch' m (encodeFieldTermAbstractKey d (fld_Id field)) = Some (encodeTerms [] 0 (value_terms ord an field x))"
proof -
  let ?vec = "includesVectors (fld_IndexOption field)"
  obtain b ts where t: "add_terms d (fld_Id field) ?vec (ord (TokenFrequency (an x) ?vec)) batch [] = (b, ts)" by fastforce
  then have ts: "ts = value_terms ord an field x"
    using add_terms_terms [of d "fld_Id field" ?vec _ batch "[]"] by (simp add: value_terms_def) (metis snd_conv)
  have ne: "ts \<noteq> []" using assms t by (auto simp: add_value_def Let_def encodeFieldTermAbstract_def)
  then have "batch' = b @ [\<lparr>kop_K = encodeFieldTermAbstractKey d (fld_Id field), kop_V = Some (encodeTerms [] 0 ts)\<rparr>]"
    using assms t encodeTerms_nonempty [OF ne, of 0]
    by (simp add: add_value_def Let_def encodeFieldTermAbstract_def KVBatch_Set_def term_key)
  then show ?thesis by (simp add: batch_effect_append ts)
qed

theorem later_value_hides_terms:
  assumes "DecodeBytesValue data = Ok (data2, x1)" "DecodeBytesValue data2 = Ok ([], x2)"
    and "add_values ord an d field data batch = (batch', Ok u)"
  shows "batch_effect batch' m (encodeFieldTermAbstractKey d (fld_Id field)) = Some (encodeTerms [] 0 (value_terms ord an field x2))"
proof -
  have ne: "data \<noteq> []" "data2 \<noteq> []" using DecodeBytesValue_shorter assms(1,2) by force+
  obtain b1 r1 where b1: "add_value ord an d field x1 batch = (b1, r1)" by fastforce
  obtain b2 r2 where b2: "add_value ord an d field x2 b1 = (b2, r2)" by fastforce
  obtain v1 where "r1 = Ok v1" using assms b1 ne by (cases r1) (simp_all add: add_values.simps [of ord an d field data])
  moreover from this obtain v2 where "r2 = Ok v2" "batch' = b2"
    using assms b1 b2 ne
    by (cases r2) (simp_all add: add_values.simps [of ord an d field data] add_values.simps [of ord an d field data2]
        add_values.simps [of ord an d field "[]"])
  ultimately show ?thesis using add_value_terms b2 by blast
qed

end
