(* ===== verification/Mysql_Encoding.thy ===== *)
theory Mysql_Encoding
  imports Encoding_Value
begin

text \<open>
  The packet encoding of the MySQL gateway (\<^verbatim>\<open>mygate/mysql/server/encoding.go\<close>).  A writer takes
  the buffer and a position and returns the changed buffer and the next position; a reader
  returns the value and the next position.  \<open>Err ()\<close> is the \<^verbatim>\<open>ok\<close> flag being false, \<open>Panic\<close> an index
  or a slice out of range.  Positions are \<^verbatim>\<open>int\<close>: their sums wrap at 64 bits (\<open>wrap64\<close>).
\<close>

section \<open>Buffers\<close>

fun put_bytes :: "bytes \<Rightarrow> int \<Rightarrow> bytes \<Rightarrow> (unit, bytes) result" where
  "put_bytes data pos [] = Ok data"
| "put_bytes data pos (v # vs) =
     (if 0 \<le> pos \<and> pos < int (length data) then put_bytes (data[nat pos := v]) (pos + 1) vs else Panic)"

definition at_pos :: "bytes \<Rightarrow> int \<Rightarrow> (unit, byte) result" where
  "at_pos data pos = (if 0 \<le> pos \<and> pos < int (length data) then Ok (data ! nat pos) else Panic)"

definition go_slice :: "bytes \<Rightarrow> int \<Rightarrow> int \<Rightarrow> (unit, bytes) result" where
  "go_slice data a b =
     (if 0 \<le> a \<and> a \<le> b \<and> b \<le> int (length data) then Ok (take (nat (b - a)) (drop (nat a) data)) else Panic)"

text \<open>\<^verbatim>\<open>copy(data[pos:], value)\<close>: the buffer and the number of bytes copied.\<close>

definition go_copy :: "bytes \<Rightarrow> int \<Rightarrow> bytes \<Rightarrow> (unit, bytes \<times> int) result" where
  "go_copy data pos value =
     (if 0 \<le> pos \<and> pos \<le> int (length data) then
        (let n = min (length data - nat pos) (length value)
         in Ok (take (nat pos) data @ take n value @ drop (nat pos + n) data, int n))
      else Panic)"

section \<open>Writers\<close>

definition lenEncIntSize :: "u64 \<Rightarrow> int" where
  "lenEncIntSize i = (if i < 251 then 1 else if i < 0x10000 then 3 else if i < 0x1000000 then 4 else 9)"

definition writeLenEncInt :: "bytes \<Rightarrow> int \<Rightarrow> u64 \<Rightarrow> (unit, bytes \<times> int) result" where
  "writeLenEncInt data pos i =
     (if i < 251 then result_bind (put_bytes data pos [ucast i]) (\<lambda>data. Ok (data, wrap64 (pos + 1)))
      else if i < 0x10000 then
        result_bind (put_bytes data pos [0xfc, ucast i, ucast (drop_bit 8 i)])
          (\<lambda>data. Ok (data, wrap64 (pos + 3)))
      else if i < 0x1000000 then
        result_bind (put_bytes data pos [0xfd, ucast i, ucast (drop_bit 8 i), ucast (drop_bit 16 i)])
          (\<lambda>data. Ok (data, wrap64 (pos + 4)))
      else
        result_bind (put_bytes data pos [0xfe, ucast i, ucast (drop_bit 8 i), ucast (drop_bit 16 i),
            ucast (drop_bit 24 i), ucast (drop_bit 32 i), ucast (drop_bit 40 i), ucast (drop_bit 48 i),
            ucast (drop_bit 56 i)])
          (\<lambda>data. Ok (data, wrap64 (pos + 9))))"

definition lenNullString :: "bytes \<Rightarrow> int" where
  "lenNullString value = int (length value) + 1"

definition writeNullString :: "bytes \<Rightarrow> int \<Rightarrow> bytes \<Rightarrow> (unit, bytes \<times> int) result" where
  "writeNullString data pos value =
     result_bind (go_copy data pos value) (\<lambda>(data, n).
       result_bind (put_bytes data (wrap64 (pos + n)) [0]) (\<lambda>data. Ok (data, wrap64 (pos + n + 1))))"

definition writeEOFString :: "bytes \<Rightarrow> int \<Rightarrow> bytes \<Rightarrow> (unit, bytes \<times> int) result" where
  "writeEOFString data pos value =
     result_bind (go_copy data pos value) (\<lambda>(data, n). Ok (data, wrap64 (pos + n)))"

definition writeByte :: "bytes \<Rightarrow> int \<Rightarrow> byte \<Rightarrow> (unit, bytes \<times> int) result" where
  "writeByte data pos value = result_bind (put_bytes data pos [value]) (\<lambda>data. Ok (data, wrap64 (pos + 1)))"

definition writeUint16 :: "bytes \<Rightarrow> int \<Rightarrow> u16 \<Rightarrow> (unit, bytes \<times> int) result" where
  "writeUint16 data pos value =
     result_bind (put_bytes data pos [ucast value, ucast (drop_bit 8 value)])
       (\<lambda>data. Ok (data, wrap64 (pos + 2)))"

definition writeUint32 :: "bytes \<Rightarrow> int \<Rightarrow> u32 \<Rightarrow> (unit, bytes \<times> int) result" where
  "writeUint32 data pos value =
     result_bind (put_bytes data pos [ucast value, ucast (drop_bit 8 value), ucast (drop_bit 16 value),
         ucast (drop_bit 24 value)])
       (\<lambda>data. Ok (data, wrap64 (pos + 4)))"

definition writeUint64 :: "bytes \<Rightarrow> int \<Rightarrow> u64 \<Rightarrow> (unit, bytes \<times> int) result" where
  "writeUint64 data pos value =
     result_bind (put_bytes data pos [ucast value, ucast (drop_bit 8 value), ucast (drop_bit 16 value),
         ucast (drop_bit 24 value), ucast (drop_bit 32 value), ucast (drop_bit 40 value),
         ucast (drop_bit 48 value), ucast (drop_bit 56 value)])
       (\<lambda>data. Ok (data, wrap64 (pos + 8)))"

definition lenEncStringSize :: "bytes \<Rightarrow> int" where
  "lenEncStringSize value = lenEncIntSize (word_of_nat (length value)) + int (length value)"

definition writeLenEncString :: "bytes \<Rightarrow> int \<Rightarrow> bytes \<Rightarrow> (unit, bytes \<times> int) result" where
  "writeLenEncString data pos value =
     result_bind (writeLenEncInt data pos (word_of_nat (length value)))
       (\<lambda>(data, pos). writeEOFString data pos value)"

definition writeZeroes :: "bytes \<Rightarrow> int \<Rightarrow> int \<Rightarrow> (unit, bytes \<times> int) result" where
  "writeZeroes data pos n =
     result_bind (put_bytes data pos (replicate (nat n) 0)) (\<lambda>data. Ok (data, wrap64 (pos + n)))"

section \<open>Readers\<close>

definition readByte :: "bytes \<Rightarrow> int \<Rightarrow> (unit, byte \<times> int) result" where
  "readByte data pos =
     (if pos \<ge> int (length data) then Err ()
      else result_bind (at_pos data pos) (\<lambda>b. Ok (b, wrap64 (pos + 1))))"

definition readBytes :: "bytes \<Rightarrow> int \<Rightarrow> int \<Rightarrow> (unit, bytes \<times> int) result" where
  "readBytes data pos n =
     (if wrap64 (pos + n - 1) \<ge> int (length data) then Err ()
      else result_bind (go_slice data pos (wrap64 (pos + n))) (\<lambda>bs. Ok (bs, wrap64 (pos + n))))"

text \<open>\<^verbatim>\<open>make([]byte, size)\<close> with a negative size panics.\<close>

definition readBytesCopy :: "bytes \<Rightarrow> int \<Rightarrow> int \<Rightarrow> (unit, bytes \<times> int) result" where
  "readBytesCopy data pos n =
     (if wrap64 (pos + n - 1) \<ge> int (length data) then Err ()
      else if n < 0 then Panic
      else result_bind (go_slice data pos (wrap64 (pos + n))) (\<lambda>bs. Ok (bs, wrap64 (pos + n))))"

definition readNullString :: "bytes \<Rightarrow> int \<Rightarrow> (unit, bytes \<times> int) result" where
  "readNullString data pos =
     result_bind (go_slice data pos (int (length data))) (\<lambda>rest.
       case IndexByte rest 0 of
         None \<Rightarrow> Err ()
       | Some n \<Rightarrow> result_bind (go_slice data pos (pos + int n)) (\<lambda>s. Ok (s, wrap64 (pos + int n + 1))))"

text \<open>The numbers bytes stand for, as \<^verbatim>\<open>binary.LittleEndian\<close> computes them.\<close>

definition from_le16 :: "bytes \<Rightarrow> u16" where
  "from_le16 b = ucast (b ! 0) OR push_bit 8 (ucast (b ! 1))"

definition from_le32 :: "bytes \<Rightarrow> u32" where
  "from_le32 b = ucast (b ! 0) OR push_bit 8 (ucast (b ! 1)) OR push_bit 16 (ucast (b ! 2)) OR push_bit 24 (ucast (b ! 3))"

definition from_le64 :: "bytes \<Rightarrow> u64" where
  "from_le64 b = ucast (b ! 0) OR push_bit 8 (ucast (b ! 1)) OR push_bit 16 (ucast (b ! 2)) OR push_bit 24 (ucast (b ! 3)) OR push_bit 32 (ucast (b ! 4)) OR push_bit 40 (ucast (b ! 5)) OR push_bit 48 (ucast (b ! 6)) OR push_bit 56 (ucast (b ! 7))"

definition readUint16 :: "bytes \<Rightarrow> int \<Rightarrow> (unit, u16 \<times> int) result" where
  "readUint16 data pos =
     (if wrap64 (pos + 1) \<ge> int (length data) then Err ()
      else result_bind (go_slice data pos (wrap64 (pos + 2))) (\<lambda>b. Ok (from_le16 b, wrap64 (pos + 2))))"

definition readUint32 :: "bytes \<Rightarrow> int \<Rightarrow> (unit, u32 \<times> int) result" where
  "readUint32 data pos =
     (if wrap64 (pos + 3) \<ge> int (length data) then Err ()
      else result_bind (go_slice data pos (wrap64 (pos + 4))) (\<lambda>b. Ok (from_le32 b, wrap64 (pos + 4))))"

definition readUint64 :: "bytes \<Rightarrow> int \<Rightarrow> (unit, u64 \<times> int) result" where
  "readUint64 data pos =
     (if wrap64 (pos + 7) \<ge> int (length data) then Err ()
      else result_bind (go_slice data pos (wrap64 (pos + 8))) (\<lambda>b. Ok (from_le64 b, wrap64 (pos + 8))))"

text \<open>The bytes of \<open>data\<close> after \<open>pos\<close>, read one by one.\<close>

fun read_at :: "bytes \<Rightarrow> int \<Rightarrow> nat \<Rightarrow> (unit, bytes) result" where
  "read_at data pos 0 = Ok []"
| "read_at data pos (Suc n) =
     result_bind (at_pos data pos) (\<lambda>b. result_bind (read_at data (pos + 1) n) (\<lambda>bs. Ok (b # bs)))"

definition readLenEncInt :: "bytes \<Rightarrow> int \<Rightarrow> (unit, u64 \<times> int) result" where
  "readLenEncInt data pos =
     (if pos \<ge> int (length data) then Err ()
      else result_bind (at_pos data pos) (\<lambda>t.
        if t = 0xfc then
          (if wrap64 (pos + 2) \<ge> int (length data) then Err ()
           else result_bind (read_at data (pos + 1) 2) (\<lambda>b.
             Ok (ucast (b ! 0) OR push_bit 8 (ucast (b ! 1)), wrap64 (pos + 3))))
        else if t = 0xfd then
          (if wrap64 (pos + 3) \<ge> int (length data) then Err ()
           else result_bind (read_at data (pos + 1) 3) (\<lambda>b.
             Ok (ucast (b ! 0) OR push_bit 8 (ucast (b ! 1)) OR push_bit 16 (ucast (b ! 2)),
                 wrap64 (pos + 4))))
        else if t = 0xfe then
          (if wrap64 (pos + 8) \<ge> int (length data) then Err ()
           else result_bind (read_at data (pos + 1) 8) (\<lambda>b.
             Ok (ucast (b ! 0) OR push_bit 8 (ucast (b ! 1)) OR push_bit 16 (ucast (b ! 2)) OR
                 push_bit 24 (ucast (b ! 3)) OR push_bit 32 (ucast (b ! 4)) OR push_bit 40 (ucast (b ! 5)) OR
                 push_bit 48 (ucast (b ! 6)) OR push_bit 56 (ucast (b ! 7)), wrap64 (pos + 9))))
        else Ok (ucast t, wrap64 (pos + 1))))"

text \<open>The size is an unsigned 64-bit number turned into an \<^verbatim>\<open>int\<close>.\<close>

definition readLenEncStringAsBytes :: "bytes \<Rightarrow> int \<Rightarrow> (unit, bytes \<times> int) result" where
  "readLenEncStringAsBytes data pos =
     result_bind (readLenEncInt data pos) (\<lambda>(n, pos).
       let s = sint n in
       if wrap64 (pos + s - 1) \<ge> int (length data) then Err ()
       else result_bind (go_slice data pos (wrap64 (pos + s))) (\<lambda>bs. Ok (bs, wrap64 (pos + s))))"

definition readLenEncString :: "bytes \<Rightarrow> int \<Rightarrow> (unit, bytes \<times> int) result" where
  "readLenEncString data pos =
     result_bind (readLenEncInt data pos) (\<lambda>(n, pos).
       let s = sint n in
       if wrap64 (pos + s - 1) \<ge> int (length data) then Err ()
       else result_bind (go_slice data pos (wrap64 (pos + s))) (\<lambda>bs. Ok (bs, wrap64 (pos + s))))"

definition skipLenEncString :: "bytes \<Rightarrow> int \<Rightarrow> (unit, int) result" where
  "skipLenEncString data pos =
     result_bind (readLenEncInt data pos) (\<lambda>(n, pos).
       let s = sint n in
       if wrap64 (pos + s - 1) \<ge> int (length data) then Err () else Ok (wrap64 (pos + s)))"

section \<open>Writers that fill a hole, readers that take a field\<close>

text \<open>
  \<open>puts f bs\<close>: the writer \<open>f\<close> replaces as many bytes as \<open>bs\<close> has at its position by \<open>bs\<close>, touches nothing
  else and returns the next position.  \<open>gets r bs v\<close>: the reader \<open>r\<close> at the position of \<open>bs\<close> returns \<open>v\<close> and
  the position after it.  Both hold in every buffer shorter than \<open>2^63\<close>.
\<close>

definition puts :: "(bytes \<Rightarrow> int \<Rightarrow> (unit, bytes \<times> int) result) \<Rightarrow> bytes \<Rightarrow> bool" where
  "puts f bs \<longleftrightarrow> (\<forall>pre mid post. length mid = length bs \<longrightarrow> int (length (pre @ mid @ post)) < 2 ^ 63 \<longrightarrow>
     f (pre @ mid @ post) (int (length pre)) = Ok (pre @ bs @ post, int (length (pre @ bs))))"

definition gets :: "(bytes \<Rightarrow> int \<Rightarrow> (unit, 'a \<times> int) result) \<Rightarrow> bytes \<Rightarrow> 'a \<Rightarrow> bool" where
  "gets r bs v \<longleftrightarrow> (\<forall>pre post. int (length (pre @ bs @ post)) < 2 ^ 63 \<longrightarrow>
     r (pre @ bs @ post) (int (length pre)) = Ok (v, int (length (pre @ bs))))"

named_theorems puts_intros "what the writers put"
named_theorems gets_intros "what the readers get"

lemma putsI:
  assumes "\<And>pre mid post. length mid = length bs \<Longrightarrow> int (length (pre @ mid @ post)) < 2 ^ 63 \<Longrightarrow>
    f (pre @ mid @ post) (int (length pre)) = Ok (pre @ bs @ post, int (length (pre @ bs)))"
  shows "puts f bs"
  using assms unfolding puts_def by blast

lemma putsD:
  assumes "puts f bs" "length mid = length bs" "int (length (pre @ mid @ post)) < 2 ^ 63"
  shows "f (pre @ mid @ post) (int (length pre)) = Ok (pre @ bs @ post, int (length (pre @ bs)))"
  using assms unfolding puts_def by blast

lemma getsI:
  assumes "\<And>pre post. int (length (pre @ bs @ post)) < 2 ^ 63 \<Longrightarrow>
    r (pre @ bs @ post) (int (length pre)) = Ok (v, int (length (pre @ bs)))"
  shows "gets r bs v"
  using assms unfolding gets_def by blast

lemma getsD:
  assumes "gets r bs v" "data = pre @ bs @ post" "int (length data) < 2 ^ 63" "k = int (length pre)"
  shows "r data k = Ok (v, int (length (pre @ bs)))"
  using assms unfolding gets_def by blast

lemma wrap64_len: "k = int (length bs) \<Longrightarrow> int (length (pre @ bs @ post)) < 2 ^ 63 \<Longrightarrow>
    wrap64 (int (length pre) + k) = int (length (pre @ bs))"
  by (subst wrap64_small) auto

lemma wrap64_in: "0 \<le> k \<Longrightarrow> k \<le> int (length bs) \<Longrightarrow> int (length (pre @ bs @ post)) < 2 ^ 63 \<Longrightarrow>
    wrap64 (int (length pre) + k) = int (length pre) + k"
  by (rule wrap64_small) auto

lemma put_bytes_hole:
  "length bs = length mid \<Longrightarrow> put_bytes (pre @ mid @ post) (int (length pre)) bs = Ok (pre @ bs @ post)"
proof (induction bs arbitrary: pre mid)
  case (Cons b bs)
  then obtain m mid' where m: "mid = m # mid'" "length bs = length mid'" by (cases mid) auto
  have "put_bytes ((pre @ [b]) @ mid' @ post) (int (length (pre @ [b]))) bs = Ok ((pre @ [b]) @ bs @ post)"
    by (rule Cons.IH) (simp add: m)
  then show ?case by (simp add: m list_update_append add.commute)
qed simp

text \<open>Every writer of a fixed number of bytes is \<open>put_bytes\<close> and a step.\<close>

lemma puts_put_bytes:
  assumes "k = int (length bs)"
  shows "puts (\<lambda>data pos. result_bind (put_bytes data pos bs) (\<lambda>data. Ok (data, wrap64 (pos + k)))) bs"
proof (rule putsI)
  fix pre mid post :: bytes
  assume a: "length mid = length bs" "int (length (pre @ mid @ post)) < 2 ^ 63"
  then have "wrap64 (int (length pre) + k) = int (length (pre @ bs))"
    by (intro wrap64_len [where post = post]) (auto simp: assms)
  with a show "result_bind (put_bytes (pre @ mid @ post) (int (length pre)) bs)
      (\<lambda>data. Ok (data, wrap64 (int (length pre) + k))) = Ok (pre @ bs @ post, int (length (pre @ bs)))"
    by (simp add: put_bytes_hole)
qed

lemma go_slice_mid:
  "go_slice (pre @ mid @ post) (int (length pre)) (int (length (pre @ mid))) = Ok mid"
  by (simp add: go_slice_def nat_add_distrib)

lemma at_pos_mid: "at_pos (pre @ x # post) (int (length pre)) = Ok x"
  by (simp add: at_pos_def nth_append)

lemma read_at_mid: "read_at (pre @ mid @ post) (int (length pre)) (length mid) = Ok mid"
proof (induction mid arbitrary: pre)
  case (Cons m mid)
  have "read_at ((pre @ [m]) @ mid @ post) (int (length (pre @ [m]))) (length mid) = Ok mid" by (rule Cons)
  then show ?case using at_pos_mid [of pre m "mid @ post"] by (simp add: ac_simps)
qed simp

lemma read_after: "length mid = n \<Longrightarrow> read_at (pre @ t # mid @ post) (int (length pre) + 1) n = Ok mid"
  using read_at_mid [of "pre @ [t]" mid post] by (simp add: add.commute)

section \<open>Little-endian bytes\<close>

lemma le_first: "ucast (ucast v :: byte) = (take_bit 8 v :: 'a::len word)"
  by (rule bit_word_eqI) (auto simp: bit_simps)

lemma le_step: "take_bit n v OR push_bit n (take_bit 8 (drop_bit n v)) = (take_bit (n + 8) v :: 'a::len word)"
  by (rule bit_word_eqI) (auto simp: bit_simps)

lemmas le_steps = le_first le_step or.assoc [symmetric]

lemma take_all: "take_bit LENGTH('a) v = (v :: 'a::len word)"
  by (rule take_bit_small) (rule unsigned_less)

lemmas take_all_sizes [simp] = take_all [where 'a = 16, simplified] take_all [where 'a = 32, simplified]
  take_all [where 'a = 64, simplified]

definition le16 :: "u16 \<Rightarrow> bytes" where
  "le16 v = [ucast v, ucast (drop_bit 8 v)]"

definition le32 :: "u32 \<Rightarrow> bytes" where
  "le32 v = [ucast v, ucast (drop_bit 8 v), ucast (drop_bit 16 v), ucast (drop_bit 24 v)]"

definition le64 :: "u64 \<Rightarrow> bytes" where
  "le64 v = [ucast v, ucast (drop_bit 8 v), ucast (drop_bit 16 v), ucast (drop_bit 24 v),
     ucast (drop_bit 32 v), ucast (drop_bit 40 v), ucast (drop_bit 48 v), ucast (drop_bit 56 v)]"

lemma length_le [simp]: "length (le16 v2) = 2" "length (le32 v4) = 4" "length (le64 v8) = 8"
  by (simp_all add: le16_def le32_def le64_def)

lemma puts_writeByte [puts_intros]: "puts (\<lambda>data pos. writeByte data pos b) [b]"
  unfolding writeByte_def by (rule puts_put_bytes) simp

lemma puts_writeUint16 [puts_intros]: "puts (\<lambda>data pos. writeUint16 data pos v) (le16 v)"
  unfolding writeUint16_def le16_def by (rule puts_put_bytes) simp

lemma puts_writeUint32 [puts_intros]: "puts (\<lambda>data pos. writeUint32 data pos v) (le32 v)"
  unfolding writeUint32_def le32_def by (rule puts_put_bytes) simp

lemma puts_writeUint64 [puts_intros]: "puts (\<lambda>data pos. writeUint64 data pos v) (le64 v)"
  unfolding writeUint64_def le64_def by (rule puts_put_bytes) simp

lemma puts_writeZeroes [puts_intros]: "0 \<le> n \<Longrightarrow> puts (\<lambda>data pos. writeZeroes data pos n) (replicate (nat n) 0)"
  unfolding writeZeroes_def by (rule puts_put_bytes) simp

lemma gets_readByte [gets_intros]: "gets readByte [b] b"
proof (rule getsI)
  fix pre post :: bytes
  assume "int (length (pre @ [b] @ post)) < 2 ^ 63"
  then have "wrap64 (int (length pre) + 1) = int (length (pre @ [b]))" by (intro wrap64_len) auto
  then show "readByte (pre @ [b] @ post) (int (length pre)) = Ok (b, int (length (pre @ [b])))"
    by (simp add: readByte_def at_pos_mid)
qed

text \<open>A reader that checks the last byte is there, slices and computes.\<close>

lemma gets_slice:
  assumes "\<And>data pos. r data pos = (if wrap64 (pos + kl) \<ge> int (length data) then Err ()
      else result_bind (go_slice data pos (wrap64 (pos + k))) (\<lambda>b. Ok (g b, wrap64 (pos + k))))"
    and "k = int (length bs)" "kl = k - 1" "0 < k"
  shows "gets r bs (g bs)"
proof (rule getsI)
  fix pre post :: bytes
  assume s: "int (length (pre @ bs @ post)) < 2 ^ 63"
  have "wrap64 (int (length pre) + k) = int (length (pre @ bs))"
    by (rule wrap64_len [OF _ s]) (simp add: assms)
  moreover have "wrap64 (int (length pre) + kl) = int (length pre) + kl"
    by (rule wrap64_in [OF _ _ s]) (use assms in auto)
  ultimately show "r (pre @ bs @ post) (int (length pre)) = Ok (g bs, int (length (pre @ bs)))"
    using assms(2-) go_slice_mid [of pre bs post] by (simp add: assms(1))
qed

lemma from_le16: "from_le16 (le16 v) = v"
  by (simp add: from_le16_def le16_def le_steps)

lemma from_le32: "from_le32 (le32 v) = v"
  by (simp add: from_le32_def le32_def le_steps)

lemma from_le64: "from_le64 (le64 v) = v"
  by (simp add: from_le64_def le64_def le_steps)

lemma gets_readUint16 [gets_intros]: "gets readUint16 (le16 v) v"
proof -
  have "gets readUint16 (le16 v) (from_le16 (le16 v))"
    by (rule gets_slice [OF readUint16_def]) simp_all
  then show ?thesis by (simp add: from_le16)
qed

lemma gets_readUint32 [gets_intros]: "gets readUint32 (le32 v) v"
proof -
  have "gets readUint32 (le32 v) (from_le32 (le32 v))"
    by (rule gets_slice [OF readUint32_def]) simp_all
  then show ?thesis by (simp add: from_le32)
qed

lemma gets_readUint64 [gets_intros]: "gets readUint64 (le64 v) v"
proof -
  have "gets readUint64 (le64 v) (from_le64 (le64 v))"
    by (rule gets_slice [OF readUint64_def]) simp_all
  then show ?thesis by (simp add: from_le64)
qed

lemma gets_readBytes:
  assumes "k = int (length bs)" "0 < k"
  shows "gets (\<lambda>data pos. readBytes data pos k) bs bs"
proof (rule gets_slice [where g = "\<lambda>b. b" and k = k and kl = "k - 1"])
  show "readBytes data pos k = (if wrap64 (pos + (k - 1)) \<ge> int (length data) then Err ()
      else result_bind (go_slice data pos (wrap64 (pos + k))) (\<lambda>b. Ok (b, wrap64 (pos + k))))" for data pos
    by (simp add: readBytes_def add_diff_eq)
qed (use assms in auto)

lemma gets_readBytesCopy:
  assumes "k = int (length bs)"
  shows "gets (\<lambda>data pos. readBytesCopy data pos k) bs bs"
proof (rule getsI)
  fix pre post :: bytes
  assume s: "int (length (pre @ bs @ post)) < 2 ^ 63"
  have "wrap64 (int (length pre) + k - 1) < int (length (pre @ bs @ post))"
  proof (cases "int (length pre) + k = 0")
    case True
    then show ?thesis by (simp add: wrap64_def signed_minus_1)
  next
    case False
    then have "wrap64 (int (length pre) + k - 1) = int (length pre) + k - 1"
      using s assms by (intro wrap64_small) auto
    then show ?thesis using assms by simp
  qed
  moreover have "wrap64 (int (length pre) + k) = int (length (pre @ bs))"
    by (rule wrap64_len [OF _ s]) (simp add: assms)
  ultimately show "readBytesCopy (pre @ bs @ post) (int (length pre)) k = Ok (bs, int (length (pre @ bs)))"
    using go_slice_mid [of pre bs post] assms by (simp add: readBytesCopy_def)
qed

section \<open>Strings\<close>

lemma puts_seq:
  assumes "puts f as" "puts g bs"
  shows "puts (\<lambda>data pos. result_bind (f data pos) (\<lambda>(data, pos). g data pos)) (as @ bs)"
proof (rule putsI)
  fix pre mid post :: bytes
  assume a: "length mid = length (as @ bs)" "int (length (pre @ mid @ post)) < 2 ^ 63"
  define m1 m2 where "m1 = take (length as) mid" and "m2 = drop (length as) mid"
  with a have m: "mid = m1 @ m2" "length m1 = length as" "length m2 = length bs" by auto
  have "f (pre @ m1 @ m2 @ post) (int (length pre)) = Ok (pre @ as @ m2 @ post, int (length (pre @ as)))"
    by (rule putsD [OF assms(1)]) (use a m in auto)
  moreover have "g ((pre @ as) @ m2 @ post) (int (length (pre @ as))) = Ok ((pre @ as) @ bs @ post, int (length ((pre @ as) @ bs)))"
    by (rule putsD [OF assms(2)]) (use a m in auto)
  ultimately show "result_bind (f (pre @ mid @ post) (int (length pre))) (\<lambda>(data, pos). g data pos) =
      Ok (pre @ (as @ bs) @ post, int (length (pre @ as @ bs)))"
    by (simp add: m(1))
qed

lemma puts_writeEOFString [puts_intros]: "puts (\<lambda>data pos. writeEOFString data pos s) s"
proof (rule putsI)
  fix pre mid post :: bytes
  assume a: "length mid = length s" "int (length (pre @ mid @ post)) < 2 ^ 63"
  then have "go_copy (pre @ mid @ post) (int (length pre)) s = Ok (pre @ s @ post, int (length s))"
    by (simp add: go_copy_def Let_def min_def)
  moreover have "wrap64 (int (length pre) + int (length s)) = int (length (pre @ s))"
    by (rule wrap64_len [where post = post]) (use a in auto)
  ultimately show "writeEOFString (pre @ mid @ post) (int (length pre)) s = Ok (pre @ s @ post, int (length (pre @ s)))"
    by (simp add: writeEOFString_def)
qed

lemma wrap64_wrap64_add: "wrap64 (wrap64 a + b) = wrap64 (a + b)"
  by (simp add: wrap64_def)

lemma writeNullString_alt:
  "writeNullString data pos s = result_bind (writeEOFString data pos s) (\<lambda>(data, pos). writeByte data pos 0)"
proof (cases "go_copy data pos s")
  case (Ok a)
  then show ?thesis by (simp add: writeNullString_def writeEOFString_def writeByte_def wrap64_wrap64_add split: prod.split)
qed (simp_all add: writeNullString_def writeEOFString_def)

lemma puts_writeNullString [puts_intros]: "puts (\<lambda>data pos. writeNullString data pos s) (s @ [0])"
  unfolding writeNullString_alt by (intro puts_seq puts_intros)

lemma gets_readNullString [gets_intros]:
  assumes "0 \<notin> set s"
  shows "gets readNullString (s @ [0]) s"
proof (rule getsI)
  fix pre post :: bytes
  assume a: "int (length (pre @ (s @ [0]) @ post)) < 2 ^ 63"
  have "go_slice (pre @ s @ 0 # post) (int (length pre)) (int (length (pre @ s @ 0 # post))) = Ok (s @ 0 # post)"
    using go_slice_mid [of pre "s @ 0 # post" "[]"] by simp
  moreover have "go_slice (pre @ s @ 0 # post) (int (length pre)) (int (length (pre @ s))) = Ok s"
    using go_slice_mid [of pre s "0 # post"] by simp
  moreover have "wrap64 (int (length pre) + int (length (s @ [0]))) = int (length (pre @ s @ [0]))"
    by (rule wrap64_len [OF refl a])
  ultimately show "readNullString (pre @ (s @ [0]) @ post) (int (length pre)) = Ok (s, int (length (pre @ s @ [0])))"
    using assms by (simp add: readNullString_def add_ac)
qed

section \<open>Integers and strings with their length\<close>

definition lenEncInt_bytes :: "u64 \<Rightarrow> bytes" where
  "lenEncInt_bytes i =
     (if i < 251 then [ucast i]
      else if i < 0x10000 then [0xfc, ucast i, ucast (drop_bit 8 i)]
      else if i < 0x1000000 then [0xfd, ucast i, ucast (drop_bit 8 i), ucast (drop_bit 16 i)]
      else [0xfe, ucast i, ucast (drop_bit 8 i), ucast (drop_bit 16 i), ucast (drop_bit 24 i),
            ucast (drop_bit 32 i), ucast (drop_bit 40 i), ucast (drop_bit 48 i), ucast (drop_bit 56 i)])"

definition lenEncString_bytes :: "bytes \<Rightarrow> bytes" where
  "lenEncString_bytes s = lenEncInt_bytes (word_of_nat (length s)) @ s"

lemma length_lenEncInt_bytes: "int (length (lenEncInt_bytes i)) = lenEncIntSize i"
  by (simp add: lenEncInt_bytes_def lenEncIntSize_def)

lemma length_lenEncString_bytes: "int (length (lenEncString_bytes s)) = lenEncStringSize s"
  by (simp add: lenEncString_bytes_def lenEncStringSize_def length_lenEncInt_bytes)

lemma lenEncIntSize_pos: "0 < lenEncIntSize i"
  by (simp add: lenEncIntSize_def)

lemma puts_writeLenEncInt [puts_intros]: "puts (\<lambda>data pos. writeLenEncInt data pos i) (lenEncInt_bytes i)"
proof -
  have "puts (\<lambda>data pos. result_bind (put_bytes data pos (lenEncInt_bytes i))
      (\<lambda>data. Ok (data, wrap64 (pos + lenEncIntSize i)))) (lenEncInt_bytes i)"
    by (rule puts_put_bytes) (simp add: length_lenEncInt_bytes)
  then show ?thesis
    unfolding writeLenEncInt_def lenEncInt_bytes_def lenEncIntSize_def by (simp cong: if_cong split: if_splits)
qed

lemma puts_writeLenEncString [puts_intros]: "puts (\<lambda>data pos. writeLenEncString data pos s) (lenEncString_bytes s)"
  unfolding writeLenEncString_def lenEncString_bytes_def by (intro puts_seq puts_intros)

lemma gets_readLenEncInt [gets_intros]: "gets readLenEncInt (lenEncInt_bytes i) i"
proof (rule getsI)
  fix pre post :: bytes
  assume s: "int (length (pre @ lenEncInt_bytes i @ post)) < 2 ^ 63"
  have w: "wrap64 (int (length pre) + k) = int (length pre) + k" if "0 \<le> k" "k \<le> int (length (lenEncInt_bytes i))" for k
    by (rule wrap64_in [OF that s])
  note defs = readLenEncInt_def lenEncInt_bytes_def at_pos_mid le_steps
  consider "i < 251" | "\<not> i < 251" "i < 0x10000" | "\<not> i < 0x10000" "i < 0x1000000" | "\<not> i < 0x1000000" by blast
  then show "readLenEncInt (pre @ lenEncInt_bytes i @ post) (int (length pre)) = Ok (i, int (length (pre @ lenEncInt_bytes i)))"
  proof cases
    case 1
    then have "(ucast i :: byte) < 251" by (simp add: word_less_nat_alt unat_ucast_byte)
    then have "(ucast i :: byte) \<noteq> 0xfc" "(ucast i :: byte) \<noteq> 0xfd" "(ucast i :: byte) \<noteq> 0xfe" by auto
    moreover have "take_bit 8 i = i" by (rule take_bit_small) (use 1 in \<open>simp add: word_less_nat_alt\<close>)
    ultimately show ?thesis using 1 w [of 1] by (simp add: defs)
  next
    case 2
    have "take_bit 16 i = i" by (rule take_bit_small) (use 2 in \<open>simp add: word_less_nat_alt\<close>)
    with 2 w [of 2] w [of 3] read_after [of "[ucast i, ucast (drop_bit 8 i)]" 2 pre "0xfc" post]
    show ?thesis by (simp add: defs)
  next
    case 3
    have "take_bit 24 i = i" by (rule take_bit_small) (use 3 in \<open>simp add: word_less_nat_alt\<close>)
    moreover have "\<not> i < 251" using 3 by (auto simp: word_less_nat_alt)
    ultimately show ?thesis using 3 w [of 3] w [of 4]
        read_after [of "[ucast i, ucast (drop_bit 8 i), ucast (drop_bit 16 i)]" 3 pre "0xfd" post]
      by (simp add: defs)
  next
    case 4
    then have "\<not> i < 251" "\<not> i < 0x10000" by (auto simp: word_less_nat_alt)
    then show ?thesis using 4 w [of 8] w [of 9]
        read_after [of "[ucast i, ucast (drop_bit 8 i), ucast (drop_bit 16 i), ucast (drop_bit 24 i),
            ucast (drop_bit 32 i), ucast (drop_bit 40 i), ucast (drop_bit 48 i), ucast (drop_bit 56 i)]" 8 pre "0xfe" post]
      by (simp add: defs)
  qed
qed

text \<open>What the three readers of a string with its length compute on a well-formed one.\<close>

lemma lenEncString_fields:
  fixes pre post s :: bytes
  defines "h \<equiv> lenEncInt_bytes (word_of_nat (length s))"
  assumes "int (length (pre @ lenEncString_bytes s @ post)) < 2 ^ 63"
  shows "readLenEncInt (pre @ h @ s @ post) (int (length pre)) = Ok (word_of_nat (length s), int (length (pre @ h)))"
    and "sint (word_of_nat (length s) :: u64) = int (length s)"
    and "wrap64 (int (length (pre @ h)) + int (length s) - 1) = int (length (pre @ h)) + int (length s) - 1"
    and "wrap64 (int (length (pre @ h)) + int (length s)) = int (length (pre @ h @ s))"
    and "go_slice (pre @ h @ s @ post) (int (length (pre @ h))) (int (length (pre @ h @ s))) = Ok s"
proof -
  have len: "0 < int (length h)" unfolding h_def length_lenEncInt_bytes by (rule lenEncIntSize_pos)
  have small: "int (length (pre @ h @ s @ post)) < 2 ^ 63" using assms(2) by (simp add: lenEncString_bytes_def h_def)
  show "readLenEncInt (pre @ h @ s @ post) (int (length pre)) = Ok (word_of_nat (length s), int (length (pre @ h)))"
    unfolding h_def by (rule getsD [OF gets_readLenEncInt]) (use small h_def in auto)
  show "sint (word_of_nat (length s) :: u64) = int (length s)"
    using small by (simp add: signed_of_nat signed_take_bit_int_eq_self)
  show "wrap64 (int (length (pre @ h)) + int (length s) - 1) = int (length (pre @ h)) + int (length s) - 1"
    by (rule wrap64_small; use small len in \<open>unfold length_append of_nat_add\<close>; linarith)
  show "wrap64 (int (length (pre @ h)) + int (length s)) = int (length (pre @ h @ s))"
    by (subst wrap64_small) (use small in auto)
  show "go_slice (pre @ h @ s @ post) (int (length (pre @ h))) (int (length (pre @ h @ s))) = Ok s"
    using go_slice_mid [of "pre @ h" s post] by simp
qed

lemma gets_readLenEncStringAsBytes [gets_intros]: "gets readLenEncStringAsBytes (lenEncString_bytes s) s"
  by (rule getsI) (use lenEncString_fields in \<open>simp add: readLenEncStringAsBytes_def Let_def lenEncString_bytes_def\<close>)

lemma gets_readLenEncString [gets_intros]: "gets readLenEncString (lenEncString_bytes s) s"
  by (rule getsI) (use lenEncString_fields in \<open>simp add: readLenEncString_def Let_def lenEncString_bytes_def\<close>)

lemma skipLenEncString_field:
  assumes "data = pre @ lenEncString_bytes s @ post" "int (length data) < 2 ^ 63" "k = int (length pre)"
  shows "skipLenEncString data k = Ok (int (length (pre @ lenEncString_bytes s)))"
  using assms lenEncString_fields [of pre s post]
  by (simp add: skipLenEncString_def Let_def lenEncString_bytes_def)

section \<open>The contract of a field\<close>

text \<open>
  \<open>reads_back w r n x\<close>: the value \<open>x\<close> written by \<open>w\<close> into \<open>n x\<close> bytes reserved for it changes nothing else and is
  read back by \<open>r\<close>, and both return the position after it.
\<close>

definition reads_back :: "(bytes \<Rightarrow> int \<Rightarrow> 'a \<Rightarrow> (unit, bytes \<times> int) result) \<Rightarrow>
    (bytes \<Rightarrow> int \<Rightarrow> (unit, 'a \<times> int) result) \<Rightarrow> ('a \<Rightarrow> int) \<Rightarrow> 'a \<Rightarrow> bool" where
  "reads_back w r n x \<longleftrightarrow> (\<forall>pre mid post. int (length mid) = n x \<longrightarrow> int (length (pre @ mid @ post)) < 2 ^ 63 \<longrightarrow>
     (\<exists>bs. length bs = length mid \<and>
        w (pre @ mid @ post) (int (length pre)) x = Ok (pre @ bs @ post, int (length pre) + n x) \<and>
        r (pre @ bs @ post) (int (length pre)) = Ok (x, int (length pre) + n x)))"

locale packet_field =
  fixes w :: "bytes \<Rightarrow> int \<Rightarrow> 'a \<Rightarrow> (unit, bytes \<times> int) result"
    and r :: "bytes \<Rightarrow> int \<Rightarrow> (unit, 'a \<times> int) result"
    and enc :: "'a \<Rightarrow> bytes"
    and width :: "'a \<Rightarrow> int"
    and valid :: "'a \<Rightarrow> bool"
  assumes put: "puts (\<lambda>data pos. w data pos x) (enc x)"
    and get: "valid x \<Longrightarrow> gets r (enc x) x"
    and width: "int (length (enc x)) = width x"
begin

lemma roundtrip: "valid x \<Longrightarrow> reads_back w r width x"
  unfolding reads_back_def
proof (intro allI impI exI [of _ "enc x"] conjI)
  fix pre mid post :: bytes
  assume v: "valid x" and a: "int (length mid) = width x" "int (length (pre @ mid @ post)) < 2 ^ 63"
  show l: "length (enc x) = length mid" using a(1) width [of x] by simp
  show "w (pre @ mid @ post) (int (length pre)) x = Ok (pre @ enc x @ post, int (length pre) + width x)"
    using putsD [OF put l [symmetric] a(2)] width [of x] by simp
  have "r (pre @ enc x @ post) (int (length pre)) = Ok (x, int (length (pre @ enc x)))"
    by (rule getsD [OF get [OF v] refl]) (use a l in auto)
  then show "r (pre @ enc x @ post) (int (length pre)) = Ok (x, int (length pre) + width x)"
    using width [of x] by simp
qed

text \<open>No field is a prefix of another one of the same kind.\<close>

lemma enc_unique:
  assumes "valid x" "valid y" "enc x @ a = enc y @ b" "int (length (enc x @ a)) < 2 ^ 63"
  shows "x = y \<and> a = b"
proof -
  have "r (enc x @ a) 0 = Ok (x, int (length (enc x)))"
    using getsD [OF get [OF assms(1)], of "enc x @ a" "[]" a 0] assms(4) by simp
  moreover have "r (enc y @ b) 0 = Ok (y, int (length (enc y)))"
    using getsD [OF get [OF assms(2)], of "enc y @ b" "[]" b 0] assms(3,4) by simp
  ultimately show ?thesis using assms(3) by auto
qed

end

interpretation pf_byte: packet_field writeByte readByte "\<lambda>b. [b]" "\<lambda>_. 1" "\<lambda>_. True"
  by unfold_locales (simp_all add: puts_intros gets_intros)

interpretation pf_u16: packet_field writeUint16 readUint16 le16 "\<lambda>_. 2" "\<lambda>_. True"
  by unfold_locales (simp_all add: puts_intros gets_intros)

interpretation pf_u32: packet_field writeUint32 readUint32 le32 "\<lambda>_. 4" "\<lambda>_. True"
  by unfold_locales (simp_all add: puts_intros gets_intros)

interpretation pf_u64: packet_field writeUint64 readUint64 le64 "\<lambda>_. 8" "\<lambda>_. True"
  by unfold_locales (simp_all add: puts_intros gets_intros)

interpretation pf_int: packet_field writeLenEncInt readLenEncInt lenEncInt_bytes lenEncIntSize "\<lambda>_. True"
  by unfold_locales (simp_all add: puts_intros gets_intros length_lenEncInt_bytes)

interpretation pf_str: packet_field writeLenEncString readLenEncString lenEncString_bytes lenEncStringSize "\<lambda>_. True"
  by unfold_locales (simp_all add: puts_intros gets_intros length_lenEncString_bytes)

interpretation pf_raw: packet_field writeLenEncString readLenEncStringAsBytes lenEncString_bytes lenEncStringSize "\<lambda>_. True"
  by unfold_locales (simp_all add: puts_intros gets_intros length_lenEncString_bytes)

interpretation pf_null: packet_field writeNullString readNullString "\<lambda>s. s @ [0]" lenNullString "\<lambda>s. 0 \<notin> set s"
  by unfold_locales (simp_all add: puts_intros gets_intros lenNullString_def)

text \<open>
  Every kind of packet field is read back as it was written, whatever stands around it: bytes, 16, 32 and 64
  bit integers, integers and strings with their length, and zero-terminated strings without a zero byte.  The
  size functions give exactly the room the writers need.\<close>

theorem packet_fields_roundtrip:
  "reads_back writeByte readByte (\<lambda>_. 1) b \<and> reads_back writeUint16 readUint16 (\<lambda>_. 2) v16 \<and>
   reads_back writeUint32 readUint32 (\<lambda>_. 4) v32 \<and> reads_back writeUint64 readUint64 (\<lambda>_. 8) v64 \<and>
   reads_back writeLenEncInt readLenEncInt lenEncIntSize i \<and>
   reads_back writeLenEncString readLenEncString lenEncStringSize s \<and>
   reads_back writeLenEncString readLenEncStringAsBytes lenEncStringSize s \<and>
   (0 \<notin> set s \<longrightarrow> reads_back writeNullString readNullString lenNullString s)"
  using pf_byte.roundtrip pf_u16.roundtrip pf_u32.roundtrip pf_u64.roundtrip pf_int.roundtrip pf_str.roundtrip
    pf_raw.roundtrip pf_null.roundtrip by blast

theorem packet_fields_roundtrip_witness: "reads_back writeNullString readNullString lenNullString [65, 66]"
  using packet_fields_roundtrip [where s = "[65, 66]"] by simp

section \<open>Sizes from the wire that do not fit\<close>

lemma wrap64_id: "- (2 ^ 63) \<le> k \<Longrightarrow> k < 2 ^ 63 \<Longrightarrow> wrap64 k = k"
  unfolding wrap64_def signed_of_int by (simp add: signed_take_bit_int_eq_self)

text \<open>
  A length of \<open>2^63\<close> or more in a packet turns negative as an \<^verbatim>\<open>int\<close> and passes the bounds check: the two string
  readers panic, and \<open>skipLenEncString\<close> reports success with a position before the string.\<close>

theorem lenEnc_size_wraps:
  assumes "data = pre @ lenEncInt_bytes n @ post" "int (length data) < 2 ^ 63"
    and "sint n < 0" "- (2 ^ 63) < int (length (pre @ lenEncInt_bytes n)) + sint n"
  shows "readLenEncString data (int (length pre)) = Panic \<and> readLenEncStringAsBytes data (int (length pre)) = Panic \<and>
    skipLenEncString data (int (length pre)) = Ok (int (length (pre @ lenEncInt_bytes n)) + sint n)"
proof (intro conjI)
  let ?p = "int (length (pre @ lenEncInt_bytes n))"
  have r: "readLenEncInt data (int (length pre)) = Ok (n, ?p)"
    by (rule getsD [OF gets_readLenEncInt]) (use assms in auto)
  have le: "?p \<le> int (length data)" by (simp add: assms(1))
  have w: "wrap64 (?p + sint n) = ?p + sint n" "wrap64 (?p + sint n - 1) = ?p + sint n - 1"
    by (rule wrap64_id; use assms(2-4) le in linarith)+
  have sl: "go_slice data ?p (?p + sint n) = Panic" using assms(3) by (simp add: go_slice_def)
  have lt: "\<not> int (length data) \<le> ?p + sint n - 1" using le assms(3) by linarith
  show "readLenEncString data (int (length pre)) = Panic"
    using r w sl lt by (simp add: readLenEncString_def Let_def)
  show "readLenEncStringAsBytes data (int (length pre)) = Panic"
    using r w sl lt by (simp add: readLenEncStringAsBytes_def Let_def)
  show "skipLenEncString data (int (length pre)) = Ok (?p + sint n)"
    using r w lt by (simp add: skipLenEncString_def Let_def)
qed

theorem lenEnc_size_wraps_witness:
  "readLenEncString [0xfe, 0xff, 0xff, 0xff, 0xff, 0xff, 0xff, 0xff, 0xff] 0 = Panic"
  using lenEnc_size_wraps [of "[0xfe, 0xff, 0xff, 0xff, 0xff, 0xff, 0xff, 0xff, 0xff]" "[]" "0xFFFFFFFFFFFFFFFF" "[]"]
  by (simp add: lenEncInt_bytes_def)

section \<open>Sequences of writes\<close>

text \<open>A run of \<^verbatim>\<open>pos = write(data, pos, value)\<close> statements.\<close>

fun writes :: "(bytes \<Rightarrow> int \<Rightarrow> (unit, bytes \<times> int) result) list \<Rightarrow> bytes \<Rightarrow> int \<Rightarrow> (unit, bytes \<times> int) result" where
  "writes [] data pos = Ok (data, pos)"
| "writes (f # fs) data pos = result_bind (f data pos) (\<lambda>(data, pos). writes fs data pos)"

lemma puts_writes: "list_all2 puts fs bss \<Longrightarrow> puts (writes fs) (concat bss)"
proof (induction fs bss rule: list_all2_induct)
  case Nil
  show ?case by (rule putsI) simp
next
  case (Cons f fs bs bss)
  have "puts (\<lambda>data pos. result_bind (f data pos) (\<lambda>(data, pos). writes fs data pos)) (bs @ concat bss)"
    by (rule puts_seq) (use Cons in simp_all)
  then show ?case by (simp add: fun_eq_iff [symmetric])
qed

lemma writes_fill:
  assumes "list_all2 puts fs bss" "length data = length (concat bss)" "int (length data) < 2 ^ 63"
  shows "writes fs data 0 = Ok (concat bss, int (length (concat bss)))"
  using putsD [OF puts_writes [OF assms(1)], of data "[]" "[]"] assms(2,3) by simp

end
