(* ===== verification/Sqltypes.thy ===== *)
theory Sqltypes
  imports Mysql_Encoding
begin

text \<open>
  The column types of the MySQL gateway (\<^verbatim>\<open>mygate/mysql/sqltypes/type.go\<close>) and its values (\<^verbatim>\<open>value.go\<close>).  The
  numbers behind the types, whose bits classify them, are those of \<^verbatim>\<open>proto/mysqlpb/query.pb.go\<close>.
\<close>

section \<open>Types\<close>

datatype querypb_Type = T_Null | T_Int8 | T_Uint8 | T_Int16 | T_Uint16 | T_Int24 | T_Uint24 | T_Int32 | T_Uint32 |
  T_Int64 | T_Uint64 | T_Float32 | T_Float64 | T_Timestamp | T_Date | T_Time | T_Datetime |
  T_Year | T_Decimal | T_Text | T_Blob | T_VarChar | T_VarBinary | T_Char | T_Binary | T_Bit |
  T_Enum | T_Set | T_Tuple | T_Geometry | T_TypeJSON | T_Expression

definition type_num :: "querypb_Type \<Rightarrow> int" where
  "type_num t = (case t of
     T_Null \<Rightarrow> 0 | T_Int8 \<Rightarrow> 257 | T_Uint8 \<Rightarrow> 770 | T_Int16
     \<Rightarrow> 259 | T_Uint16 \<Rightarrow> 772 | T_Int24 \<Rightarrow> 261 | T_Uint24 \<Rightarrow>
     774 | T_Int32 \<Rightarrow> 263 | T_Uint32 \<Rightarrow> 776 | T_Int64 \<Rightarrow> 265 | T_Uint64
     \<Rightarrow> 778 | T_Float32 \<Rightarrow> 1035 | T_Float64 \<Rightarrow> 1036 | T_Timestamp
     \<Rightarrow> 2061 | T_Date \<Rightarrow> 2062 | T_Time \<Rightarrow> 2063 | T_Datetime
     \<Rightarrow> 2064 | T_Year \<Rightarrow> 785 | T_Decimal \<Rightarrow> 18 | T_Text \<Rightarrow>
     6163 | T_Blob \<Rightarrow> 10260 | T_VarChar \<Rightarrow> 6165 | T_VarBinary \<Rightarrow> 10262 |
     T_Char \<Rightarrow> 6167 | T_Binary \<Rightarrow> 10264 | T_Bit \<Rightarrow> 2073 | T_Enum
     \<Rightarrow> 2074 | T_Set \<Rightarrow> 2075 | T_Tuple \<Rightarrow> 28 | T_Geometry \<Rightarrow>
     2077 | T_TypeJSON \<Rightarrow> 2078 | T_Expression \<Rightarrow> 31)"

definition flagIsIntegral :: int where "flagIsIntegral = 256"
definition flagIsUnsigned :: int where "flagIsUnsigned = 512"
definition flagIsFloat :: int where "flagIsFloat = 1024"
definition flagIsQuoted :: int where "flagIsQuoted = 2048"
definition flagIsText :: int where "flagIsText = 4096"
definition flagIsBinary :: int where "flagIsBinary = 8192"

definition IsIntegral :: "querypb_Type \<Rightarrow> bool" where
  "IsIntegral t \<longleftrightarrow> type_num t AND flagIsIntegral = flagIsIntegral"

definition IsSigned :: "querypb_Type \<Rightarrow> bool" where
  "IsSigned t \<longleftrightarrow> type_num t AND (flagIsIntegral OR flagIsUnsigned) = flagIsIntegral"

definition IsUnsigned :: "querypb_Type \<Rightarrow> bool" where
  "IsUnsigned t \<longleftrightarrow> type_num t AND (flagIsIntegral OR flagIsUnsigned) = flagIsIntegral OR flagIsUnsigned"

definition IsFloat :: "querypb_Type \<Rightarrow> bool" where
  "IsFloat t \<longleftrightarrow> type_num t AND flagIsFloat = flagIsFloat"

definition IsQuoted :: "querypb_Type \<Rightarrow> bool" where
  "IsQuoted t \<longleftrightarrow> type_num t AND flagIsQuoted = flagIsQuoted"

definition IsText :: "querypb_Type \<Rightarrow> bool" where
  "IsText t \<longleftrightarrow> type_num t AND flagIsText = flagIsText"

definition IsBinary :: "querypb_Type \<Rightarrow> bool" where
  "IsBinary t \<longleftrightarrow> type_num t AND flagIsBinary = flagIsBinary"

definition isNumber :: "querypb_Type \<Rightarrow> bool" where
  "isNumber t \<longleftrightarrow> IsIntegral t \<or> IsFloat t \<or> t = T_Decimal"

section \<open>Types on the wire\<close>

definition mysqlUnsigned :: int where "mysqlUnsigned = 32"
definition mysqlBinary :: int where "mysqlBinary = 128"
definition mysqlEnum :: int where "mysqlEnum = 256"
definition mysqlSet :: int where "mysqlSet = 2048"

definition mysqlToType :: "int \<Rightarrow> querypb_Type option" where
  "mysqlToType = map_of
    [(1, T_Int8), (2, T_Int16), (3, T_Int32), (4, T_Float32), (5, T_Float64), (6, T_Null), (7,
     T_Timestamp), (8, T_Int64), (9, T_Int24), (10, T_Date), (11, T_Time), (12, T_Datetime), (13,
     T_Year), (16, T_Bit), (245, T_TypeJSON), (246, T_Decimal), (249, T_Text), (250, T_Text), (251,
     T_Text), (252, T_Text), (253, T_VarChar), (254, T_Char), (255, T_Geometry)]"

definition modifyType :: "querypb_Type \<Rightarrow> int \<Rightarrow> querypb_Type" where
  "modifyType typ flags =
     (case typ of
        T_Int8 \<Rightarrow> if flags AND mysqlUnsigned \<noteq> 0 then T_Uint8 else T_Int8
      | T_Int16 \<Rightarrow> if flags AND mysqlUnsigned \<noteq> 0 then T_Uint16 else T_Int16
      | T_Int32 \<Rightarrow> if flags AND mysqlUnsigned \<noteq> 0 then T_Uint32 else T_Int32
      | T_Int64 \<Rightarrow> if flags AND mysqlUnsigned \<noteq> 0 then T_Uint64 else T_Int64
      | T_Int24 \<Rightarrow> if flags AND mysqlUnsigned \<noteq> 0 then T_Uint24 else T_Int24
      | T_Text \<Rightarrow> if flags AND mysqlBinary \<noteq> 0 then T_Blob else T_Text
      | T_VarChar \<Rightarrow> if flags AND mysqlBinary \<noteq> 0 then T_VarBinary else T_VarChar
      | T_Char \<Rightarrow> if flags AND mysqlBinary \<noteq> 0 then T_Binary
          else if flags AND mysqlEnum \<noteq> 0 then T_Enum
          else if flags AND mysqlSet \<noteq> 0 then T_Set else T_Char
      | _ \<Rightarrow> typ)"

text \<open>\<open>None\<close> is the error \<^verbatim>\<open>unsupported type\<close>.\<close>

definition MySQLToType :: "int \<Rightarrow> int \<Rightarrow> querypb_Type option" where
  "MySQLToType mysqlType flags = map_option (\<lambda>result. modifyType result flags) (mysqlToType mysqlType)"

definition typeToMySQL :: "querypb_Type \<Rightarrow> (int \<times> int) option" where
  "typeToMySQL = map_of
    [(T_Int8, 1, 0), (T_Uint8, 1, mysqlUnsigned), (T_Int16, 2, 0), (T_Uint16, 2, mysqlUnsigned),
     (T_Int32, 3, 0), (T_Uint32, 3, mysqlUnsigned), (T_Float32, 4, 0), (T_Float64, 5, 0), (T_Null, 6,
     mysqlBinary), (T_Timestamp, 7, 0), (T_Int64, 8, 0), (T_Uint64, 8, mysqlUnsigned), (T_Int24, 9, 0),
     (T_Uint24, 9, mysqlUnsigned), (T_Date, 10, mysqlBinary), (T_Time, 11, mysqlBinary), (T_Datetime, 12,
     mysqlBinary), (T_Year, 13, mysqlUnsigned), (T_Bit, 16, mysqlUnsigned), (T_TypeJSON, 245, 0),
     (T_Decimal, 246, 0), (T_Text, 252, 0), (T_Blob, 252, mysqlBinary), (T_VarChar, 253, 0),
     (T_VarBinary, 253, mysqlBinary), (T_Char, 254, 0), (T_Binary, 254, mysqlBinary), (T_Enum, 254,
     mysqlEnum), (T_Set, 254, mysqlSet), (T_Geometry, 255, 0)]"

text \<open>A type that is not in the map gives the zero entry.\<close>

definition TypeToMySQL :: "querypb_Type \<Rightarrow> int \<times> int" where
  "TypeToMySQL typ = (case typeToMySQL typ of None \<Rightarrow> (0, 0) | Some val \<Rightarrow> val)"

section \<open>Values\<close>

record SqlValue =
  v_typ :: querypb_Type
  v_val :: bytes

definition NULL_value :: SqlValue where
  "NULL_value = \<lparr>v_typ = T_Null, v_val = []\<rparr>"

definition MakeTrusted :: "querypb_Type \<Rightarrow> bytes \<Rightarrow> SqlValue" where
  "MakeTrusted typ val = (if typ = T_Null then NULL_value else \<lparr>v_typ = typ, v_val = val\<rparr>)"

definition IsNull :: "SqlValue \<Rightarrow> bool" where
  "IsNull v \<longleftrightarrow> v_typ v = T_Null"

definition value_Raw :: "SqlValue \<Rightarrow> bytes" where
  "value_Raw v = v_val v"

section \<open>Properties\<close>

lemmas type_flag_defs = type_num_def flagIsIntegral_def flagIsUnsigned_def flagIsFloat_def flagIsQuoted_def
  flagIsText_def flagIsBinary_def



lemma type_table:
  "typeToMySQL t = Some (k, flags) \<Longrightarrow> TypeToMySQL t = (k, flags) \<and> MySQLToType k flags = Some t \<and>
     0 \<le> k \<and> k < 256 \<and> 0 \<le> flags \<and> flags < 2 ^ 16"
  unfolding TypeToMySQL_def typeToMySQL_def
  by (cases t) (auto simp: MySQLToType_def mysqlToType_def modifyType_def mysqlUnsigned_def mysqlBinary_def
      mysqlEnum_def mysqlSet_def)

text \<open>
  The number and flags \<open>TypeToMySQL\<close> gives for a type fit in a byte and in 16 bits, and \<open>MySQLToType\<close> turns
  them back into the type, for every type with an entry.\<close>

theorem type_roundtrip:
  "typeToMySQL t = Some (k, flags) \<Longrightarrow> TypeToMySQL t = (k, flags) \<and> MySQLToType k flags = Some t \<and>
     0 \<le> k \<and> k < 256 \<and> 0 \<le> flags \<and> flags < 2 ^ 16"
  by (rule type_table)

theorem type_roundtrip_witness: "MySQLToType 254 mysqlEnum = Some T_Enum"
  using type_roundtrip [of T_Enum 254 mysqlEnum] by (simp add: typeToMySQL_def)

end
