(* ===== verification/Mysql_Conn.thy ===== *)
theory Mysql_Conn
  imports Sqltypes
begin

text \<open>
  The packet layer of a connection (\<^verbatim>\<open>mygate/mysql/server/conn.go\<close>): packets are cut into frames of at most
  \<open>MaxPacketSize\<close> bytes with a header of three length bytes and a sequence number, and put together again.

  The network is the input the peer has sent, with what a read reports once it is used up, and the output
  that has reached the wire.  Both \<^verbatim>\<open>bufio\<close> buffers have the size \<open>connBufferSize\<close>; the reader's is not
  visible (reads take the bytes in order whoever asks; the one direct read, \<open>readPacketDirect\<close>, is the first
  read of a connection), the writer's is \<open>c_wbuf\<close>.  While the connection is down every write to it fails.
  The pool of read buffers is left out: a buffer taken from it is cut to length and overwritten.
\<close>

section \<open>State\<close>

datatype net_err = Net_EOF | UnexpectedEOF | ConnReset | NetErr

datatype ephemeral_policy = ephemeralUnused | ephemeralWriteGlobalBuffer | ephemeralWriteSingleBuffer
  | ephemeralWriteBigBuffer | ephemeralReadGlobalBuffer | ephemeralReadSingleBuffer | ephemeralReadBigBuffer

text \<open>An error value; the message of an SQL error is a text from the wire, another error, or a fixed text.\<close>

datatype conn_error = E_EOF | E_header net_err | E_sequence byte byte | E_body nat net_err | E_direct
  | E_write | E_flush | E_text string | SQLError int bytes message
and message = Raw bytes | OfErr conn_error | Lit string

record querypb_Field =
  f_Name :: bytes
  f_Type :: querypb_Type
  f_Table :: bytes
  f_OrgTable :: bytes
  f_Database :: bytes
  f_OrgName :: bytes
  f_ColumnLength :: u32
  f_Charset :: u32
  f_Decimals :: u32
  f_Flags :: u32

record Conn =
  c_input :: bytes
  c_end :: net_err
  c_output :: bytes
  c_down :: bool
  c_wbuf :: bytes
  c_werr :: bool
  c_sequence :: byte
  c_buffer :: bytes
  c_buflen :: nat
  c_policy :: ephemeral_policy
  c_packet :: bytes
  c_ConnectionID :: u32
  c_Closed :: bool
  c_Capabilities :: u32
  c_CharacterSet :: byte
  c_User :: bytes
  c_UserData :: bytes
  c_SchemaName :: bytes
  c_ServerVersion :: bytes
  c_StatusFlags :: u16
  c_fields :: "querypb_Field list option"

type_synonym 'a conn_op = "Conn \<Rightarrow> Conn \<times> (conn_error, 'a) result"

definition connBufferSize :: nat where
  "connBufferSize = 16 * 1024"

definition MaxPacketSize :: nat where
  "MaxPacketSize = 2 ^ 24 - 1"

definition newConn :: "bytes \<Rightarrow> net_err \<Rightarrow> Conn" where
  "newConn inp e = \<lparr>c_input = inp, c_end = e, c_output = [], c_down = False, c_wbuf = [], c_werr = False,
     c_sequence = 0, c_buffer = replicate connBufferSize 0, c_buflen = connBufferSize,
     c_policy = ephemeralUnused, c_packet = [], c_ConnectionID = 0, c_Closed = False, c_Capabilities = 0, c_CharacterSet = 0,
     c_User = [], c_UserData = [], c_SchemaName = [], c_ServerVersion = [], c_StatusFlags = 0, c_fields = None\<rparr>"

section \<open>Sequencing\<close>

definition okC :: "'a \<Rightarrow> 's \<Rightarrow> 's \<times> ('e, 'a) result" where
  "okC x s = (s, Ok x)"

definition failC :: "'e \<Rightarrow> 's \<Rightarrow> 's \<times> ('e, 'a) result" where
  "failC e s = (s, Err e)"

definition panicC :: "'s \<Rightarrow> 's \<times> ('e, 'a) result" where
  "panicC s = (s, Panic)"

definition bindC :: "('s \<Rightarrow> 's \<times> ('e, 'a) result) \<Rightarrow> ('a \<Rightarrow> 's \<Rightarrow> 's \<times> ('e, 'b) result) \<Rightarrow> 's \<Rightarrow> 's \<times> ('e, 'b) result" where
  "bindC m f s = (case m s of (s', Ok x) \<Rightarrow> f x s' | (s', Err e) \<Rightarrow> (s', Err e) | (s', Panic) \<Rightarrow> (s', Panic))"

text \<open>\<^verbatim>\<open>if err != nil { return g(err) }\<close>\<close>

definition wrapErr :: "('e \<Rightarrow> 'd) \<Rightarrow> ('s \<Rightarrow> 's \<times> ('e, 'a) result) \<Rightarrow> 's \<Rightarrow> 's \<times> ('d, 'a) result" where
  "wrapErr g m s = (case m s of (s', Ok x) \<Rightarrow> (s', Ok x) | (s', Err e) \<Rightarrow> (s', Err (g e)) | (s', Panic) \<Rightarrow> (s', Panic))"

lemma bindC_simps [simp]:
  "m s = (s', Ok x) \<Longrightarrow> bindC m f s = f x s'"
  "m s = (s', Err e) \<Longrightarrow> bindC m f s = (s', Err e)"
  "m s = (s', Panic) \<Longrightarrow> bindC m f s = (s', Panic)"
  by (simp_all add: bindC_def)

lemma wrapErr_simps [simp]:
  "m s = (s', Ok x) \<Longrightarrow> wrapErr g m s = (s', Ok x)"
  "m s = (s', Err e) \<Longrightarrow> wrapErr g m s = (s', Err (g e))"
  "m s = (s', Panic) \<Longrightarrow> wrapErr g m s = (s', Panic)"
  by (simp_all add: wrapErr_def)

lemma baseC_simps [simp]: "okC x s = (s, Ok x)" "failC e s = (s, Err e)" "panicC s = (s, Panic)"
  by (simp_all add: okC_def failC_def panicC_def)

lemma bindC_Ok_iff: "bindC m f s = (t, Ok y) \<longleftrightarrow> (\<exists>s' x. m s = (s', Ok x) \<and> f x s' = (t, Ok y))"
  by (cases "m s"; cases "snd (m s)") (auto simp: bindC_def)

lemma wrapErr_Ok_iff: "wrapErr g m s = (t, Ok y) \<longleftrightarrow> m s = (t, Ok y)"
  by (cases "m s"; cases "snd (m s)") (auto simp: wrapErr_def)

section \<open>Reading\<close>

text \<open>\<^verbatim>\<open>io.ReadFull\<close>: all the bytes asked for, or the error at the end of the input; at the plain end after
  some bytes it is \<^verbatim>\<open>io.ErrUnexpectedEOF\<close>.\<close>

definition ReadFull :: "nat \<Rightarrow> Conn \<Rightarrow> Conn \<times> (net_err, bytes) result" where
  "ReadFull n c =
     (if n \<le> length (c_input c) then (c\<lparr>c_input := drop n (c_input c)\<rparr>, Ok (take n (c_input c)))
      else (c\<lparr>c_input := []\<rparr>,
            Err (if c_end c = Net_EOF \<and> c_input c \<noteq> [] then UnexpectedEOF else c_end c)))"

text \<open>The same into \<^verbatim>\<open>c.buffer[:length]\<close>, whose array keeps what was read even when the read fails.\<close>

definition ReadFullBuffer :: "nat \<Rightarrow> Conn \<Rightarrow> Conn \<times> (net_err, bytes) result" where
  "ReadFullBuffer n c =
     (let got = take n (c_input c) in
      ReadFull n (c\<lparr>c_buffer := got @ drop (length got) (c_buffer c), c_buflen := n\<rparr>))"

definition packet_length :: "bytes \<Rightarrow> nat" where
  "packet_length h = unat (ucast (h ! 0) OR push_bit 8 (ucast (h ! 1)) OR push_bit 16 (ucast (h ! 2)) :: u32)"

text \<open>The start of every read: header, sequence check, length.  \<open>herr\<close> is how the caller reports a failed read.\<close>

definition readHeader :: "(net_err \<Rightarrow> conn_error) \<Rightarrow> nat conn_op" where
  "readHeader herr =
     bindC (wrapErr herr (ReadFull 4)) (\<lambda>header c.
       let seqn = header ! 3 in
       if seqn \<noteq> c_sequence c then (c, Err (E_sequence (c_sequence c) seqn))
       else (c\<lparr>c_sequence := c_sequence c + 1\<rparr>, Ok (packet_length header)))"

definition header_err :: "net_err \<Rightarrow> conn_error" where
  "header_err e = (if e = Net_EOF then E_EOF else if e = ConnReset then E_EOF else E_header e)"

definition readPacketDirect :: "bytes conn_op" where
  "readPacketDirect =
     bindC (readHeader header_err) (\<lambda>len c.
       if len \<le> length (c_buffer c) then wrapErr (E_body len) (ReadFullBuffer len) c
       else if len = MaxPacketSize then (c, Err E_direct)
       else wrapErr (E_body len) (ReadFull len) c)"

definition readOnePacket :: "bytes conn_op" where
  "readOnePacket =
     bindC (readHeader E_header) (\<lambda>len. if len = 0 then okC [] else wrapErr (E_body len) (ReadFull len))"

lemma ReadFull_input: "ReadFull n c = (c', Ok d) \<Longrightarrow> length (c_input c) = n + length (c_input c')"
  by (auto simp: ReadFull_def split: if_splits)

lemma readOnePacket_consumes: "readOnePacket c = (c', Ok d) \<Longrightarrow> length (c_input c') < length (c_input c)"
  by (auto simp: readOnePacket_def readHeader_def bindC_Ok_iff wrapErr_Ok_iff Let_def
      dest!: ReadFull_input split: if_splits)

text \<open>The loop that puts a packet of several frames together; each turn takes at least a header.\<close>

function readMore :: "bytes \<Rightarrow> bytes conn_op" where
  "readMore data c =
     (case readOnePacket c of
        (c', Err e) \<Rightarrow> (c', Err e)
      | (c', Panic) \<Rightarrow> (c', Panic)
      | (c', Ok next) \<Rightarrow>
          if next = [] then (c', Ok data)
          else if length next < MaxPacketSize then (c', Ok (data @ next))
          else readMore (data @ next) c')"
  by pat_completeness auto

termination
  by (relation "measure (\<lambda>(data, c). length (c_input c))") (auto dest: readOnePacket_consumes [OF sym])

declare readMore.simps [simp del]

definition readPacket :: "bytes conn_op" where
  "readPacket = bindC readOnePacket (\<lambda>data. if length data < MaxPacketSize then okC data else readMore data)"

definition CRServerLost :: int where "CRServerLost = 2013"
definition SSUnknownSQLState :: bytes where "SSUnknownSQLState = [72, 89, 48, 48, 48]"

definition NewSQLError :: "int \<Rightarrow> bytes \<Rightarrow> message \<Rightarrow> conn_error" where
  "NewSQLError number sqlState msg = SQLError number (if sqlState = [] then SSUnknownSQLState else sqlState) msg"

definition ReadPacket :: "bytes conn_op" where
  "ReadPacket = wrapErr (\<lambda>e. NewSQLError CRServerLost SSUnknownSQLState (OfErr e)) readPacket"

definition readEphemeralPacket :: "bytes conn_op" where
  "readEphemeralPacket c =
     (if c_policy c \<noteq> ephemeralUnused then (c, Panic)
      else bindC (readHeader header_err) (\<lambda>len c.
        if len = 0 then (c, Ok [])
        else if len \<le> length (c_buffer c) then
          wrapErr (E_body len) (ReadFullBuffer len) (c\<lparr>c_policy := ephemeralReadGlobalBuffer\<rparr>)
        else if len < MaxPacketSize then
          wrapErr (E_body len) (ReadFull len) (c\<lparr>c_policy := ephemeralReadSingleBuffer\<rparr>)
        else
          bindC (wrapErr (E_body len) (ReadFull len)) readMore (c\<lparr>c_policy := ephemeralReadBigBuffer\<rparr>)) c)"

definition recycleReadPacket :: "unit conn_op" where
  "recycleReadPacket c =
     (case c_policy c of
        ephemeralReadGlobalBuffer \<Rightarrow> (c\<lparr>c_policy := ephemeralUnused\<rparr>, Ok ())
      | ephemeralReadSingleBuffer \<Rightarrow> (c\<lparr>c_policy := ephemeralUnused\<rparr>, Ok ())
      | ephemeralReadBigBuffer \<Rightarrow> (c\<lparr>c_policy := ephemeralUnused\<rparr>, Ok ())
      | _ \<Rightarrow> (c, Panic))"

section \<open>Writing\<close>

text \<open>A write to the network, and \<^verbatim>\<open>bufio.Writer\<close>'s \<^verbatim>\<open>Flush\<close> and \<^verbatim>\<open>Write\<close>: a write that does not fit fills the
  buffer and flushes it, one that does not fit an empty buffer goes out directly; an error sticks.\<close>

definition connWrite :: "bytes \<Rightarrow> unit conn_op" where
  "connWrite p c = (if c_down c then (c, Err E_write) else (c\<lparr>c_output := c_output c @ p\<rparr>, Ok ()))"

definition bufioFlush :: "unit conn_op" where
  "bufioFlush c =
     (if c_werr c then (c, Err E_write)
      else if c_wbuf c = [] then (c, Ok ())
      else if c_down c then (c\<lparr>c_werr := True\<rparr>, Err E_write)
      else (c\<lparr>c_output := c_output c @ c_wbuf c, c_wbuf := []\<rparr>, Ok ()))"

definition bufioDirect :: "bytes \<Rightarrow> unit conn_op" where
  "bufioDirect p c =
     (if length p \<le> connBufferSize then (c\<lparr>c_wbuf := p\<rparr>, Ok ())
      else if c_down c then (c\<lparr>c_werr := True\<rparr>, Err E_write)
      else (c\<lparr>c_output := c_output c @ p\<rparr>, Ok ()))"

definition bufioWrite :: "bytes \<Rightarrow> unit conn_op" where
  "bufioWrite p c =
     (if c_werr c then (c, Err E_write)
      else if c_wbuf c = [] then bufioDirect p c
      else let avail = connBufferSize - length (c_wbuf c) in
        if length p \<le> avail then (c\<lparr>c_wbuf := c_wbuf c @ p\<rparr>, Ok ())
        else bindC bufioFlush (\<lambda>_. bufioDirect (drop avail p)) (c\<lparr>c_wbuf := c_wbuf c @ take avail p\<rparr>))"

definition flush :: "unit conn_op" where
  "flush = wrapErr (\<lambda>_. E_flush) bufioFlush"

definition header_of :: "nat \<Rightarrow> byte \<Rightarrow> bytes" where
  "header_of n s = [of_nat n, of_nat (n div 2 ^ 8), of_nat (n div 2 ^ 16), s]"

text \<open>The loop of \<open>writePacket\<close> on the data not yet written.\<close>

function writePacketLoop :: "bytes \<Rightarrow> unit conn_op" where
  "writePacketLoop data c =
     (let packetLength = min (length data) MaxPacketSize;
          rest = drop packetLength data in
      case bufioWrite (header_of packetLength (c_sequence c)) c of
        (c, Ok _) \<Rightarrow> (case bufioWrite (take packetLength data) c of
            (c, Ok _) \<Rightarrow>
              (let c = c\<lparr>c_sequence := c_sequence c + 1\<rparr> in
               if rest = [] then
                 (if packetLength = MaxPacketSize then
                    (case bufioWrite (header_of 0 (c_sequence c)) c of
                       (c, Ok _) \<Rightarrow> (c\<lparr>c_sequence := c_sequence c + 1\<rparr>, Ok ())
                     | (c, r) \<Rightarrow> (c, r))
                  else (c, Ok ()))
               else writePacketLoop rest c)
          | (c, r) \<Rightarrow> (c, r))
      | (c, r) \<Rightarrow> (c, r))"
  by pat_completeness auto

termination
  by (relation "measure (\<lambda>(data, c). length data)") (auto simp: MaxPacketSize_def)

declare writePacketLoop.simps [simp del]

definition writePacket :: "bytes \<Rightarrow> unit conn_op" where
  "writePacket data = writePacketLoop data"

text \<open>\<open>startEphemeralPacket\<close> returns the part of the buffer that the caller fills; \<open>storePacket\<close> is the effect
  of the caller's writes to it.\<close>

definition startEphemeralPacket :: "nat \<Rightarrow> bytes conn_op" where
  "startEphemeralPacket n c =
     (if c_policy c \<noteq> ephemeralUnused then (c, Panic)
      else if n + 4 \<le> length (c_buffer c) then
        (c\<lparr>c_policy := ephemeralWriteGlobalBuffer, c_buflen := n + 4,
           c_buffer := header_of n (c_sequence c) @ drop 4 (c_buffer c), c_sequence := c_sequence c + 1\<rparr>,
         Ok (take n (drop 4 (c_buffer c))))
      else if n < MaxPacketSize then
        (c\<lparr>c_policy := ephemeralWriteSingleBuffer, c_packet := header_of n (c_sequence c) @ replicate n 0,
           c_sequence := c_sequence c + 1\<rparr>,
         Ok (replicate n 0))
      else (c\<lparr>c_policy := ephemeralWriteBigBuffer, c_packet := replicate n 0\<rparr>, Ok (replicate n 0)))"

definition storePacket :: "bytes \<Rightarrow> Conn \<Rightarrow> Conn" where
  "storePacket data c =
     (case c_policy c of
        ephemeralWriteGlobalBuffer \<Rightarrow>
          c\<lparr>c_buffer := take 4 (c_buffer c) @ data @ drop (4 + length data) (c_buffer c)\<rparr>
      | ephemeralWriteSingleBuffer \<Rightarrow> c\<lparr>c_packet := take 4 (c_packet c) @ data\<rparr>
      | ephemeralWriteBigBuffer \<Rightarrow> c\<lparr>c_packet := data\<rparr>
      | _ \<Rightarrow> c)"

definition writeTo :: "bool \<Rightarrow> bytes \<Rightarrow> unit conn_op" where
  "writeTo direct p = (if direct then connWrite p else bufioWrite p)"

definition writeEphemeralPacket :: "bool \<Rightarrow> unit conn_op" where
  "writeEphemeralPacket direct c =
     (let unused = (\<lambda>(c, r). (c\<lparr>c_policy := ephemeralUnused\<rparr>, r)) in
      unused (case c_policy c of
        ephemeralWriteGlobalBuffer \<Rightarrow> writeTo direct (take (c_buflen c) (c_buffer c)) c
      | ephemeralWriteSingleBuffer \<Rightarrow> writeTo direct (c_packet c) c
      | ephemeralWriteBigBuffer \<Rightarrow>
          bindC (writePacket (c_packet c)) (\<lambda>_. if direct then flush else okC ()) c
      | _ \<Rightarrow> (c, Panic)))"

section \<open>The wire format\<close>

text \<open>\<open>frames s data\<close> is the packet \<open>data\<close> on the wire when its first frame has the sequence number \<open>s\<close>;
  \<open>stream\<close> is a run of packets.  A packet takes \<open>length data div MaxPacketSize + 1\<close> numbers.\<close>

lemma MaxPacketSize_pos [simp]: "0 < MaxPacketSize"
  by (simp add: MaxPacketSize_def)

function frames :: "byte \<Rightarrow> bytes \<Rightarrow> bytes" where
  "frames s data =
     (if length data < MaxPacketSize then header_of (length data) s @ data
      else header_of MaxPacketSize s @ take MaxPacketSize data @ frames (s + 1) (drop MaxPacketSize data))"
  by pat_completeness auto

termination
proof (relation "measure (\<lambda>(s, data). length data)", simp)
  fix s :: byte and data :: bytes
  assume "\<not> length data < MaxPacketSize"
  then show "((s + 1, drop MaxPacketSize data), (s, data)) \<in> measure (\<lambda>(s, data). length data)"
    using MaxPacketSize_pos by (simp del: MaxPacketSize_pos)
qed

declare frames.simps [simp del]

definition after_packet :: "byte \<Rightarrow> bytes \<Rightarrow> byte" where
  "after_packet s data = s + of_nat (length data div MaxPacketSize + 1)"

lemma after_packet_small: "length data < MaxPacketSize \<Longrightarrow> after_packet s data = s + 1"
  by (simp add: after_packet_def)

lemma after_packet_big:
  assumes "\<not> length data < MaxPacketSize"
  shows "after_packet s data = after_packet (s + 1) (drop MaxPacketSize data)"
proof -
  have "length data div MaxPacketSize = (length data - MaxPacketSize) div MaxPacketSize + 1"
    using assms le_div_geq [of MaxPacketSize "length data"] by simp
  then show ?thesis by (simp add: after_packet_def)
qed

fun stream :: "byte \<Rightarrow> bytes list \<Rightarrow> bytes" where
  "stream s [] = []"
| "stream s (p # ps) = frames s p @ stream (after_packet s p) ps"

fun after_packets :: "byte \<Rightarrow> bytes list \<Rightarrow> byte" where
  "after_packets s [] = s"
| "after_packets s (p # ps) = after_packets (after_packet s p) ps"

lemma after_packets_append: "after_packets s (ps @ qs) = after_packets (after_packets s ps) qs"
  by (induction ps arbitrary: s) simp_all

lemma stream_append: "stream s (ps @ qs) = stream s ps @ stream (after_packets s ps) qs"
  by (induction ps arbitrary: s) simp_all

lemma length_header_of [simp]: "length (header_of n s) = 4"
  by (simp add: header_of_def)

lemma header_of_seq [simp]: "header_of n s ! 3 = s"
  by (simp add: header_of_def)

lemma byte_of_shift: "ucast (drop_bit k v) = (of_nat (unat v div 2 ^ k) :: byte)" for v :: u32
proof (rule word_unat_eq_iff [THEN iffD2])
  show "unat (ucast (drop_bit k v) :: byte) = unat (of_nat (unat v div 2 ^ k) :: byte)"
    unfolding unsigned_ucast_eq unat_shift unsigned_of_nat by simp
qed

lemma packet_length_header: "n < 2 ^ 24 \<Longrightarrow> packet_length (header_of n s) = n"
proof -
  assume n: "n < 2 ^ 24"
  define v where "v = (of_nat n :: u32)"
  have v: "unat v = n" unfolding v_def using n by (simp add: unsigned_of_nat take_bit_nat_eq_self)
  have "take_bit 24 v = v" by (rule take_bit_small) (use v n in simp)
  moreover have "header_of n s = [ucast v, ucast (drop_bit 8 v), ucast (drop_bit 16 v), s]"
    using byte_of_shift [of 0 v] by (simp add: header_of_def byte_of_shift [of 8 v] byte_of_shift [of 16 v] v)
  ultimately show ?thesis unfolding packet_length_def by (simp add: le_steps v)
qed

lemma packet_length_Max: "n \<le> MaxPacketSize \<Longrightarrow> packet_length (header_of n s) = n"
  by (rule packet_length_header) (simp add: MaxPacketSize_def)

section \<open>Reading gives back what the frames hold\<close>

lemma readHeader_frame:
  assumes "c_input c = header_of n (c_sequence c) @ rest" "n \<le> MaxPacketSize"
  shows "readHeader herr c = (c\<lparr>c_input := rest, c_sequence := c_sequence c + 1\<rparr>, Ok n)"
  using assms by (simp add: readHeader_def ReadFull_def packet_length_Max)

lemma ReadFull_exact:
  "c_input c = d @ rest \<Longrightarrow> length d = n \<Longrightarrow> ReadFull n c = (c\<lparr>c_input := rest\<rparr>, Ok d)"
  by (simp add: ReadFull_def)

lemma readOnePacket_frame:
  assumes "c_input c = header_of (length d) (c_sequence c) @ d @ rest" "length d \<le> MaxPacketSize"
  shows "readOnePacket c = (c\<lparr>c_input := rest, c_sequence := c_sequence c + 1\<rparr>, Ok d)"
  using assms by (simp add: readOnePacket_def readHeader_frame ReadFull_exact)

lemma frames_small: "length d < MaxPacketSize \<Longrightarrow> frames s d = header_of (length d) s @ d"
  by (simp add: frames.simps [of s d])

lemma frames_big:
  assumes "length d1 = MaxPacketSize"
  shows "frames s (d1 @ d2) = header_of (length d1) s @ d1 @ frames (s + 1) d2"
  by (subst frames.simps) (simp add: assms)

lemma after_packet_split: "length d1 = MaxPacketSize \<Longrightarrow> after_packet s (d1 @ d2) = after_packet (s + 1) d2"
  by (subst after_packet_big) simp_all

lemma split_packet:
  obtains (small) "length d < MaxPacketSize" | (big) d1 d2 where "d = d1 @ d2" "length d1 = MaxPacketSize"
proof (cases "length d < MaxPacketSize")
  case False
  then show ?thesis using big [of "take MaxPacketSize d" "drop MaxPacketSize d"] by simp
qed (rule small)

lemma readMore_frames:
  assumes "c_input c = frames (c_sequence c) d @ rest"
  shows "readMore pre c = (c\<lparr>c_input := rest, c_sequence := after_packet (c_sequence c) d\<rparr>, Ok (pre @ d))"
  using assms
proof (induction "length d" arbitrary: d pre c rule: less_induct)
  case less
  show ?case
  proof (cases d rule: split_packet)
    case small
    then have "readOnePacket c = (c\<lparr>c_input := rest, c_sequence := c_sequence c + 1\<rparr>, Ok d)"
      using less.prems by (intro readOnePacket_frame) (simp_all add: frames_small)
    with small show ?thesis by (simp add: readMore.simps [of _ c] after_packet_small)
  next
    case (big d1 d2)
    let ?c = "c\<lparr>c_input := frames (c_sequence c + 1) d2 @ rest, c_sequence := c_sequence c + 1\<rparr>"
    have one: "readOnePacket c = (?c, Ok d1)"
      by (rule readOnePacket_frame) (use less.prems big in \<open>simp_all add: frames_big\<close>)
    have ne: "d1 \<noteq> []" using big(2) MaxPacketSize_pos by (metis list.size(3) less_irrefl)
    have "readMore (pre @ d1) ?c =
        (?c\<lparr>c_input := rest, c_sequence := after_packet (c_sequence ?c) d2\<rparr>, Ok ((pre @ d1) @ d2))"
      by (rule less.hyps) (use big ne in simp_all)
    then show ?thesis using big one ne by (simp add: readMore.simps [of _ c] after_packet_split)
  qed
qed

lemma readPacket_frames:
  assumes "c_input c = frames (c_sequence c) d @ rest"
  shows "readPacket c = (c\<lparr>c_input := rest, c_sequence := after_packet (c_sequence c) d\<rparr>, Ok d)"
proof (cases d rule: split_packet)
  case small
  then have "readOnePacket c = (c\<lparr>c_input := rest, c_sequence := c_sequence c + 1\<rparr>, Ok d)"
    using assms by (intro readOnePacket_frame) (simp_all add: frames_small)
  with small show ?thesis by (simp add: readPacket_def after_packet_small)
next
  case (big d1 d2)
  let ?c = "c\<lparr>c_input := frames (c_sequence c + 1) d2 @ rest, c_sequence := c_sequence c + 1\<rparr>"
  have one: "readOnePacket c = (?c, Ok d1)"
    by (rule readOnePacket_frame) (use assms big in \<open>simp_all add: frames_big\<close>)
  have "readMore d1 ?c = (?c\<lparr>c_input := rest, c_sequence := after_packet (c_sequence ?c) d2\<rparr>, Ok (d1 @ d2))"
    by (rule readMore_frames) simp
  then show ?thesis using big one by (simp add: readPacket_def after_packet_split)
qed

section \<open>Writing produces the frames\<close>

definition wire :: "Conn \<Rightarrow> bytes" where
  "wire c = c_output c @ c_wbuf c"

text \<open>The part of the state that sending packets leaves alone.\<close>

definition others :: "Conn \<Rightarrow> Conn" where
  "others c = c\<lparr>c_output := [], c_wbuf := [], c_sequence := 0, c_buffer := [], c_buflen := 0, c_packet := []\<rparr>"

definition up :: "Conn \<Rightarrow> bool" where
  "up c \<longleftrightarrow> \<not> c_down c \<and> \<not> c_werr c \<and> length (c_wbuf c) \<le> connBufferSize"

definition ready :: "Conn \<Rightarrow> bool" where
  "ready c \<longleftrightarrow> up c \<and> c_policy c = ephemeralUnused \<and> length (c_buffer c) = connBufferSize"

lemma bufioDirect_up:
  assumes "up c" "c_wbuf c = []"
  shows "\<exists>out b. bufioDirect p c = (c\<lparr>c_output := out, c_wbuf := b\<rparr>, Ok ()) \<and> out @ b = wire c @ p \<and> length b \<le> connBufferSize"
proof (cases "length p \<le> connBufferSize")
  case True
  then have "bufioDirect p c = (c\<lparr>c_output := c_output c, c_wbuf := p\<rparr>, Ok ())" by (simp add: bufioDirect_def)
  with True assms show ?thesis by - (rule exI [of _ "c_output c"], rule exI [of _ p], simp add: wire_def)
next
  case False
  then have "bufioDirect p c = (c\<lparr>c_output := c_output c @ p, c_wbuf := []\<rparr>, Ok ())"
    using assms by (simp add: bufioDirect_def up_def)
  with assms show ?thesis by - (rule exI [of _ "c_output c @ p"], rule exI [of _ "[]"], simp add: wire_def)
qed

lemma bufioWrite_up:
  assumes "up c"
  shows "\<exists>out b. bufioWrite p c = (c\<lparr>c_output := out, c_wbuf := b\<rparr>, Ok ()) \<and> out @ b = wire c @ p \<and> length b \<le> connBufferSize"
proof (cases "c_wbuf c = []")
  case True
  then show ?thesis using bufioDirect_up [OF assms True] assms by (simp add: bufioWrite_def up_def)
next
  case ne: False
  let ?a = "connBufferSize - length (c_wbuf c)"
  show ?thesis
  proof (cases "length p \<le> ?a")
    case True
    have "bufioWrite p c = (c\<lparr>c_output := c_output c, c_wbuf := c_wbuf c @ p\<rparr>, Ok ())"
      using ne True assms by (simp add: bufioWrite_def up_def)
    moreover have "length (c_wbuf c @ p) \<le> connBufferSize" using True assms by (auto simp: up_def)
    ultimately show ?thesis
      by - (rule exI [of _ "c_output c"], rule exI [of _ "c_wbuf c @ p"], simp add: wire_def)
  next
    case False
    let ?c = "c\<lparr>c_output := c_output c @ c_wbuf c @ take ?a p, c_wbuf := []\<rparr>"
    have "bufioWrite p c = bufioDirect (drop ?a p) ?c"
      using ne False assms by (simp add: bufioWrite_def up_def bufioFlush_def Let_def)
    moreover have "up ?c" using assms by (simp add: up_def)
    ultimately show ?thesis using bufioDirect_up [of ?c "drop ?a p"] by (auto simp: wire_def)
  qed
qed

lemma flush_up: "up c \<Longrightarrow> flush c = (c\<lparr>c_output := wire c, c_wbuf := []\<rparr>, Ok ())"
  by (cases "c_wbuf c = []") (simp_all add: flush_def bufioFlush_def wrapErr_def up_def wire_def)

lemma writePacketLoop_small:
  assumes "length d < MaxPacketSize" "bufioWrite (header_of (length d) (c_sequence c)) c = (c1, Ok ())"
    "bufioWrite d c1 = (c2, Ok ())"
  shows "writePacketLoop d c = (c2\<lparr>c_sequence := c_sequence c2 + 1\<rparr>, Ok ())"
  using assms by (subst writePacketLoop.simps) (simp add: Let_def min_def)

lemma writePacketLoop_big:
  assumes "length d1 = MaxPacketSize" "bufioWrite (header_of (length d1) (c_sequence c)) c = (c1, Ok ())"
    "bufioWrite d1 c1 = (c2, Ok ())"
  shows "writePacketLoop (d1 @ d2) c =
    (if d2 = [] then bindC (bufioWrite (header_of 0 (c_sequence c2 + 1))) (\<lambda>_ c. (c\<lparr>c_sequence := c_sequence c + 1\<rparr>, Ok ()))
         (c2\<lparr>c_sequence := c_sequence c2 + 1\<rparr>)
     else writePacketLoop d2 (c2\<lparr>c_sequence := c_sequence c2 + 1\<rparr>))"
  using assms by (subst writePacketLoop.simps) (simp add: Let_def min_def bindC_def split: result.splits)

lemma writePacketLoop_up:
  assumes "up c"
  shows "\<exists>out b. writePacketLoop d c = (c\<lparr>c_output := out, c_wbuf := b, c_sequence := after_packet (c_sequence c) d\<rparr>, Ok ()) \<and>
    out @ b = wire c @ frames (c_sequence c) d \<and> length b \<le> connBufferSize"
  using assms
proof (induction "length d" arbitrary: d c rule: less_induct)
  case less
  let ?n = "min (length d) MaxPacketSize"
  obtain o1 b1 where w1: "bufioWrite (header_of ?n (c_sequence c)) c = (c\<lparr>c_output := o1, c_wbuf := b1\<rparr>, Ok ())"
    "o1 @ b1 = wire c @ header_of ?n (c_sequence c)" "length b1 \<le> connBufferSize"
    using bufioWrite_up [OF less.prems] by blast
  have u1: "up (c\<lparr>c_output := o1, c_wbuf := b1\<rparr>)" using w1(3) less.prems by (simp add: up_def)
  obtain o2 b2 where w2: "bufioWrite (take ?n d) (c\<lparr>c_output := o1, c_wbuf := b1\<rparr>) = (c\<lparr>c_output := o2, c_wbuf := b2\<rparr>, Ok ())"
    "o2 @ b2 = wire c @ header_of ?n (c_sequence c) @ take ?n d" "length b2 \<le> connBufferSize"
    using bufioWrite_up [OF u1, of "take ?n d"] w1(2) by (auto simp: wire_def)
  let ?c = "c\<lparr>c_output := o2, c_wbuf := b2, c_sequence := c_sequence c + 1\<rparr>"
  have u2: "up ?c" using w2(3) less.prems by (simp add: up_def)
  show ?case
  proof (cases d rule: split_packet)
    case small
    then show ?thesis
      using writePacketLoop_small [OF small] w1 w2
      by - (rule exI [of _ o2], rule exI [of _ b2], simp add: frames_small after_packet_small min_def)
  next
    case (big d1 d2)
    then have n: "?n = length d1" "take ?n d = d1" by simp_all
    note step = writePacketLoop_big [OF big(2) w1(1) [unfolded n] w2(1) [unfolded n(2)], of d2]
    show ?thesis
    proof (cases "d2 = []")
      case True
      obtain o3 b3 where w3: "bufioWrite (header_of 0 (c_sequence c + 1)) ?c = (?c\<lparr>c_output := o3, c_wbuf := b3\<rparr>, Ok ())"
        "o3 @ b3 = wire ?c @ header_of 0 (c_sequence c + 1)" "length b3 \<le> connBufferSize"
        using bufioWrite_up [OF u2] by blast
      have "frames (c_sequence c + 1) [] = header_of 0 (c_sequence c + 1)" by (simp add: frames_small)
      with True big step w2 w3 n show ?thesis
        by - (rule exI [of _ o3], rule exI [of _ b3], simp add: frames_big wire_def after_packet_split [of d1 _ "[]", simplified] after_packet_small
            frames_big [of d1 _ "[]", simplified])
    next
      case False
      have "d1 \<noteq> []" using big(2) MaxPacketSize_pos by (metis list.size(3) less_irrefl)
      then obtain o3 b3 where "writePacketLoop d2 ?c =
          (?c\<lparr>c_output := o3, c_wbuf := b3, c_sequence := after_packet (c_sequence ?c) d2\<rparr>, Ok ())"
        "o3 @ b3 = wire ?c @ frames (c_sequence ?c) d2" "length b3 \<le> connBufferSize"
        using less.hyps [OF _ u2, of d2] big by auto
      with False big step w2 n show ?thesis
        by - (rule exI [of _ o3], rule exI [of _ b3], simp add: frames_big wire_def after_packet_split)
    qed
  qed
qed

section \<open>Packets built in place\<close>

lemma ready_up: "ready c \<Longrightarrow> up c"
  by (simp add: ready_def)

lemma writeTo_up:
  assumes "up c" "direct \<Longrightarrow> c_wbuf c = []"
  shows "\<exists>out b. writeTo direct p c = (c\<lparr>c_output := out, c_wbuf := b\<rparr>, Ok ()) \<and> out @ b = wire c @ p \<and>
    length b \<le> connBufferSize \<and> (direct \<longrightarrow> b = [])"
proof (cases direct)
  case True
  then have "writeTo direct p c = (c\<lparr>c_output := c_output c @ p, c_wbuf := []\<rparr>, Ok ())"
    using assms by (simp add: writeTo_def connWrite_def up_def)
  then show ?thesis using True assms(2)
    by - (rule exI [of _ "c_output c @ p"], rule exI [of _ "[]"], simp add: wire_def)
next
  case False
  then show ?thesis using bufioWrite_up [OF assms(1)] by (simp add: writeTo_def)
qed

text \<open>The outcome every way of sending the packets \<open>ps\<close> shares.\<close>

definition sent :: "bool \<Rightarrow> bytes list \<Rightarrow> Conn \<Rightarrow> Conn \<Rightarrow> bool" where
  "sent direct ps c c' \<longleftrightarrow> ready c' \<and> wire c' = wire c @ stream (c_sequence c) ps \<and>
     c_sequence c' = after_packets (c_sequence c) ps \<and> others c' = others c \<and> (direct \<longrightarrow> c_wbuf c' = [])"

lemma writeEphemeral_sent:
  assumes "ready c" "direct \<Longrightarrow> c_wbuf c = []"
  shows "\<exists>c1 area c'. startEphemeralPacket (length d) c = (c1, Ok area) \<and> length area = length d \<and>
    writeEphemeralPacket direct (storePacket d c1) = (c', Ok ()) \<and> sent direct [d] c c'"
proof -
  let ?h = "header_of (length d) (c_sequence c)"
  consider (glob) "length d + 4 \<le> connBufferSize"
    | (single) "\<not> length d + 4 \<le> connBufferSize" "length d < MaxPacketSize"
    | (many) "\<not> length d + 4 \<le> connBufferSize" "\<not> length d < MaxPacketSize" by blast
  then show ?thesis
  proof cases
    case glob
    let ?b = "?h @ d @ drop (4 + length d) (c_buffer c)"
    let ?c = "c\<lparr>c_policy := ephemeralWriteGlobalBuffer, c_buflen := length d + 4, c_sequence := c_sequence c + 1, c_buffer := ?b\<rparr>"
    obtain out b where w: "writeTo direct (?h @ d) ?c = (?c\<lparr>c_output := out, c_wbuf := b\<rparr>, Ok ())"
      "out @ b = wire ?c @ ?h @ d" "length b \<le> connBufferSize" "direct \<longrightarrow> b = []"
      using writeTo_up [of ?c direct "?h @ d"] assms by (auto simp: ready_def up_def)
    moreover have "length d < MaxPacketSize" using glob by (simp add: connBufferSize_def MaxPacketSize_def)
    ultimately show ?thesis using glob assms(1)
      by (simp add: startEphemeralPacket_def storePacket_def writeEphemeralPacket_def ready_def sent_def
          Let_def wire_def frames_small after_packet_small up_def others_def add.commute)
  next
    case single
    let ?c = "c\<lparr>c_policy := ephemeralWriteSingleBuffer, c_sequence := c_sequence c + 1, c_packet := ?h @ d\<rparr>"
    obtain out b where w: "writeTo direct (?h @ d) ?c = (?c\<lparr>c_output := out, c_wbuf := b\<rparr>, Ok ())"
      "out @ b = wire ?c @ ?h @ d" "length b \<le> connBufferSize" "direct \<longrightarrow> b = []"
      using writeTo_up [of ?c direct "?h @ d"] assms by (auto simp: ready_def up_def)
    then show ?thesis using single assms(1)
      by (simp add: startEphemeralPacket_def storePacket_def writeEphemeralPacket_def ready_def sent_def
          Let_def wire_def frames_small after_packet_small up_def others_def)
  next
    case many
    let ?c = "c\<lparr>c_policy := ephemeralWriteBigBuffer, c_packet := d\<rparr>"
    let ?s = "after_packet (c_sequence c) d"
    have u: "up ?c" using assms(1) by (simp add: ready_def up_def)
    obtain out b where w: "writePacketLoop d ?c = (?c\<lparr>c_output := out, c_wbuf := b, c_sequence := ?s\<rparr>, Ok ())"
      "out @ b = wire c @ frames (c_sequence c) d" "length b \<le> connBufferSize"
      using writePacketLoop_up [OF u, of d] by (auto simp: wire_def)
    have "flush (?c\<lparr>c_output := out, c_wbuf := b, c_sequence := ?s\<rparr>) = (?c\<lparr>c_output := out @ b, c_wbuf := [], c_sequence := ?s\<rparr>, Ok ())"
      by (subst flush_up) (use u w(3) in \<open>simp_all add: up_def wire_def\<close>)
    with w show ?thesis using many assms(1)
      by (simp add: startEphemeralPacket_def storePacket_def writeEphemeralPacket_def ready_def sent_def
          Let_def wire_def up_def others_def writePacket_def)
  qed
qed

text \<open>\<open>sends P direct m ps\<close>: from every ready connection whose settings satisfy \<open>P\<close> the operation \<open>m\<close> succeeds and
  puts the packets \<open>ps\<close> on the wire.  A packet is filled by a run of writes from position 0; \<open>fill\<close> returns the position it ends at.\<close>

definition fill :: "(bytes \<Rightarrow> int \<Rightarrow> (unit, bytes \<times> int) result) list \<Rightarrow> bytes \<Rightarrow> int conn_op" where
  "fill fs data c = (case writes fs data 0 of Ok (data, pos) \<Rightarrow> (storePacket data c, Ok pos) | _ \<Rightarrow> (c, Panic))"

definition sends :: "(Conn \<Rightarrow> bool) \<Rightarrow> bool \<Rightarrow> unit conn_op \<Rightarrow> bytes list \<Rightarrow> bool" where
  "sends P direct m ps \<longleftrightarrow> (\<forall>c. P (others c) \<longrightarrow> ready c \<longrightarrow> (direct \<longrightarrow> c_wbuf c = []) \<longrightarrow> (\<exists>c'. m c = (c', Ok ()) \<and> sent direct ps c c'))"

named_theorems sends_intros "the packets an operation sends"

lemma sends_fill:
  assumes "list_all2 puts fs bss" "int (length (concat bss)) = n" "n < 2 ^ 63"
    and "\<And>data. length data = nat n \<Longrightarrow> k data n = writeEphemeralPacket direct"
  shows "sends P direct (bindC (startEphemeralPacket (nat n)) (\<lambda>data. bindC (fill fs data) (k data))) [concat bss]"
  unfolding sends_def
proof (intro allI impI)
  fix c
  assume c: "P (others c)" "ready c" "direct \<longrightarrow> c_wbuf c = []"
  have n: "nat n = length (concat bss)" using assms(2) by simp
  obtain c1 area c' where s: "startEphemeralPacket (length (concat bss)) c = (c1, Ok area)" "length area = length (concat bss)"
    "writeEphemeralPacket direct (storePacket (concat bss) c1) = (c', Ok ())" "sent direct [concat bss] c c'"
    using writeEphemeral_sent [of c direct "concat bss"] c by blast
  have "writes fs area 0 = Ok (concat bss, n)"
    using writes_fill [OF assms(1) s(2)] assms(2,3) s(2) by simp
  then have "fill fs area c1 = (storePacket (concat bss) c1, Ok n)" by (simp add: fill_def)
  with s assms(4) [of area] show "\<exists>c'. bindC (startEphemeralPacket (nat n)) (\<lambda>data. bindC (fill fs data) (k data)) c = (c', Ok ()) \<and>
      sent direct [concat bss] c c'"
    unfolding n by simp
qed

lemma sent_trans: "sent False ps c c1 \<Longrightarrow> sent False qs c1 c2 \<Longrightarrow> sent False (ps @ qs) c c2"
  by (simp add: sent_def stream_append after_packets_append)

lemma sends_bind:
  assumes "sends P False m ps" "sends P False n qs"
  shows "sends P False (bindC m (\<lambda>_. n)) (ps @ qs)"
  unfolding sends_def
proof (intro allI impI)
  fix c
  assume c: "P (others c)" "ready c"
  then obtain c1 where 1: "m c = (c1, Ok ())" "sent False ps c c1" using assms(1) by (auto simp: sends_def)
  then have "ready c1" "P (others c1)" using c by (simp_all add: sent_def)
  then obtain c2 where "n c1 = (c2, Ok ())" "sent False qs c1 c2" using assms(2) by (auto simp: sends_def)
  with 1 show "\<exists>c'. bindC m (\<lambda>_. n) c = (c', Ok ()) \<and> sent False (ps @ qs) c c'" by (auto intro: sent_trans)
qed

section \<open>Receiving\<close>

definition read_ready :: "Conn \<Rightarrow> bool" where
  "read_ready c \<longleftrightarrow> c_policy c = ephemeralUnused \<and> length (c_buffer c) = connBufferSize"

definition others_in :: "Conn \<Rightarrow> Conn" where
  "others_in c = c\<lparr>c_input := [], c_sequence := 0, c_buffer := [], c_buflen := 0\<rparr>"

definition received :: "bytes list \<Rightarrow> bytes \<Rightarrow> Conn \<Rightarrow> Conn \<Rightarrow> bool" where
  "received ps rest c c' \<longleftrightarrow> read_ready c' \<and> c_input c' = rest \<and>
     c_sequence c' = after_packets (c_sequence c) ps \<and> others_in c' = others_in c"

definition receives :: "(Conn \<Rightarrow> bool) \<Rightarrow> 'a conn_op \<Rightarrow> bytes list \<Rightarrow> 'a \<Rightarrow> bool" where
  "receives P m ps v \<longleftrightarrow> (\<forall>c rest. P (others_in c) \<longrightarrow> read_ready c \<longrightarrow> c_input c = stream (c_sequence c) ps @ rest \<longrightarrow>
     (\<exists>c'. m c = (c', Ok v) \<and> received ps rest c c'))"

named_theorems receives_intros "what an operation receives"

lemma receivesD:
  assumes "receives P m ps v" "P (others_in c)" "read_ready c" "c_input c = stream (c_sequence c) ps @ rest"
  obtains c' where "m c = (c', Ok v)" "received ps rest c c'"
  using assms unfolding receives_def by blast

lemma receives_readPacket [receives_intros]: "receives P readPacket [d] d"
  unfolding receives_def by (auto simp: readPacket_frames received_def read_ready_def others_in_def)

lemma receives_ReadPacket [receives_intros]: "receives P ReadPacket [d] d"
  unfolding receives_def ReadPacket_def
  by (auto simp: readPacket_frames wrapErr_def received_def read_ready_def others_in_def)

lemma receives_bind:
  assumes "receives P m ps v" "receives P (f v) qs w"
  shows "receives P (bindC m f) (ps @ qs) w"
  unfolding receives_def
proof (intro allI impI)
  fix c rest
  assume c: "P (others_in c)" "read_ready c" "c_input c = stream (c_sequence c) (ps @ qs) @ rest"
  then have "c_input c = stream (c_sequence c) ps @ stream (after_packets (c_sequence c) ps) qs @ rest"
    by (simp add: stream_append)
  from receivesD [OF assms(1) c(1,2) this]
  obtain c1 where 1: "m c = (c1, Ok v)" "received ps (stream (after_packets (c_sequence c) ps) qs @ rest) c c1" .
  then have "P (others_in c1)" "read_ready c1" "c_input c1 = stream (c_sequence c1) qs @ rest"
    using c(1) by (simp_all add: received_def)
  from receivesD [OF assms(2) this] obtain c2 where "f v c1 = (c2, Ok w)" "received qs rest c1 c2" .
  with 1 show "\<exists>c'. bindC m f c = (c', Ok w) \<and> received (ps @ qs) rest c c'"
    by (auto simp: received_def after_packets_append)
qed

lemma receives_okC: "receives P (okC v) [] v"
  by (simp add: receives_def received_def)

text \<open>\<^verbatim>\<open>readEphemeralPacket\<close> with \<^verbatim>\<open>defer c.recycleReadPacket()\<close>: the data is used, then the packet is recycled, which
  panics when there is nothing to recycle.\<close>

definition readRecycled :: "(conn_error \<Rightarrow> conn_error) \<Rightarrow> (bytes \<Rightarrow> (conn_error, 'a) result) \<Rightarrow> 'a conn_op" where
  "readRecycled g f = bindC (wrapErr g readEphemeralPacket) (\<lambda>data c. case recycleReadPacket c of
       (c', Ok _) \<Rightarrow> (c', f data) | (c', Err e) \<Rightarrow> (c', Err e) | (c', Panic) \<Rightarrow> (c', Panic))"

lemma readEphemeral_frames:
  assumes "read_ready c" "c_input c = frames (c_sequence c) d @ rest" "d \<noteq> []"
  shows "\<exists>c1 c'. readEphemeralPacket c = (c1, Ok d) \<and> recycleReadPacket c1 = (c', Ok ()) \<and> received [d] rest c c'"
proof (cases "length d < MaxPacketSize")
  case True
  have h: "readHeader header_err c = (c\<lparr>c_input := d @ rest, c_sequence := c_sequence c + 1\<rparr>, Ok (length d))"
    by (rule readHeader_frame) (use assms True in \<open>simp_all add: frames_small\<close>)
  show ?thesis
  proof (cases "length d \<le> connBufferSize")
    case True
    with assms h \<open>length d < MaxPacketSize\<close> show ?thesis
      by (simp add: readEphemeralPacket_def read_ready_def ReadFullBuffer_def Let_def ReadFull_def recycleReadPacket_def
          received_def others_in_def after_packet_small)
  next
    case False
    with assms h True show ?thesis
      by (simp add: readEphemeralPacket_def read_ready_def ReadFull_def recycleReadPacket_def
          received_def others_in_def after_packet_small)
  qed
next
  case False
  then obtain d1 d2 where d: "d = d1 @ d2" "length d1 = MaxPacketSize" by (cases d rule: split_packet) auto
  let ?c = "c\<lparr>c_input := d1 @ frames (c_sequence c + 1) d2 @ rest, c_sequence := c_sequence c + 1\<rparr>"
  have h: "readHeader header_err c = (?c, Ok (length d1))"
    by (rule readHeader_frame) (use assms d in \<open>simp_all add: frames_big\<close>)
  let ?c2 = "?c\<lparr>c_policy := ephemeralReadBigBuffer, c_input := frames (c_sequence c + 1) d2 @ rest\<rparr>"
  have m: "readMore d1 ?c2 = (?c2\<lparr>c_input := rest, c_sequence := after_packet (c_sequence ?c2) d2\<rparr>, Ok (d1 @ d2))"
    by (rule readMore_frames) simp
  have big: "\<not> MaxPacketSize \<le> connBufferSize" by (simp add: MaxPacketSize_def connBufferSize_def)
  with assms(1) h m d show ?thesis
    by (simp add: readEphemeralPacket_def read_ready_def ReadFull_def recycleReadPacket_def
        received_def others_in_def after_packet_split)
qed

lemma receives_readRecycled:
  assumes "d \<noteq> []" "f d = Ok v"
  shows "receives P (readRecycled g f) [d] v"
  unfolding receives_def
proof (intro allI impI)
  fix c rest
  assume "read_ready c" "c_input c = stream (c_sequence c) [d] @ rest"
  then obtain c1 c' where "readEphemeralPacket c = (c1, Ok d)" "recycleReadPacket c1 = (c', Ok ())" "received [d] rest c c'"
    using readEphemeral_frames [of c d rest] assms(1) by auto
  then show "\<exists>c'. readRecycled g f c = (c', Ok v) \<and> received [d] rest c c'"
    by (simp add: readRecycled_def assms(2))
qed

section \<open>Packets over the wire\<close>

text \<open>
  C14: What \<open>writePacket\<close> adds to the wire is read by \<open>readPacket\<close> on the other side as the same packet, of any
  size, when the two sides agree on the sequence number; they agree on it afterwards, and bytes that follow
  stay unread.  A packet of exactly \<open>MaxPacketSize\<close> bytes, or a multiple, needs the empty frame at the end.\<close>

theorem packet_roundtrip:
  assumes "up c"
  shows "\<exists>c' w. writePacket data c = (c', Ok ()) \<and> wire c' = wire c @ w \<and>
    (\<forall>d rest. c_sequence d = c_sequence c \<longrightarrow> c_input d = w @ rest \<longrightarrow>
       readPacket d = (d\<lparr>c_input := rest, c_sequence := c_sequence c'\<rparr>, Ok data))"
proof -
  obtain out b where w: "writePacketLoop data c = (c\<lparr>c_output := out, c_wbuf := b, c_sequence := after_packet (c_sequence c) data\<rparr>, Ok ())"
    "out @ b = wire c @ frames (c_sequence c) data"
    using writePacketLoop_up [OF assms] by blast
  show ?thesis
  proof (intro exI conjI allI impI)
    show "writePacket data c = (c\<lparr>c_output := out, c_wbuf := b, c_sequence := after_packet (c_sequence c) data\<rparr>, Ok ())"
      by (simp add: writePacket_def w)
    show "wire (c\<lparr>c_output := out, c_wbuf := b, c_sequence := after_packet (c_sequence c) data\<rparr>) =
        wire c @ frames (c_sequence c) data"
      using w(2) by (simp add: wire_def)
  next
    fix d :: Conn and rest
    assume "c_sequence d = c_sequence c" "c_input d = frames (c_sequence c) data @ rest"
    then show "readPacket d = (d\<lparr>c_input := rest, c_sequence := c_sequence (c\<lparr>c_output := out, c_wbuf := b,
        c_sequence := after_packet (c_sequence c) data\<rparr>)\<rparr>, Ok data)"
      by (simp add: readPacket_frames)
  qed
qed

lemma newConn_ready: "ready (newConn inp e)"
  by (simp add: newConn_def ready_def up_def)

theorem packet_roundtrip_witness:
  "\<exists>c' w. writePacket [3, 65] (newConn [] Net_EOF) = (c', Ok ()) \<and> wire c' = wire (newConn [] Net_EOF) @ w \<and>
    (\<forall>d rest. c_sequence d = c_sequence (newConn [] Net_EOF) \<longrightarrow> c_input d = w @ rest \<longrightarrow>
       readPacket d = (d\<lparr>c_input := rest, c_sequence := c_sequence c'\<rparr>, Ok [3, 65]))"
  by (rule packet_roundtrip [OF ready_up [OF newConn_ready]])

text \<open>
  A packet built in place (\<open>startEphemeralPacket\<close>, the caller's writes, \<open>writeEphemeralPacket\<close>) puts on the
  wire exactly what \<open>writePacket\<close> would, for each of the three kinds of buffer, and leaves the same sequence
  number; a direct write needs the write buffer to be empty.\<close>

theorem ephemeral_as_writePacket:
  assumes "ready c" "direct \<longrightarrow> c_wbuf c = []"
  shows "\<exists>c1 area c2 c3. startEphemeralPacket (length data) c = (c1, Ok area) \<and> length area = length data \<and>
    writeEphemeralPacket direct (storePacket data c1) = (c2, Ok ()) \<and> writePacket data c = (c3, Ok ()) \<and>
    wire c2 = wire c3 \<and> c_sequence c2 = c_sequence c3 \<and> ready c2"
proof -
  obtain c1 area c2 where 1: "startEphemeralPacket (length data) c = (c1, Ok area)" "length area = length data"
    "writeEphemeralPacket direct (storePacket data c1) = (c2, Ok ())" "sent direct [data] c c2"
    using writeEphemeral_sent [of c direct data] assms by blast
  obtain out b where 2: "writePacketLoop data c = (c\<lparr>c_output := out, c_wbuf := b, c_sequence := after_packet (c_sequence c) data\<rparr>, Ok ())"
    "out @ b = wire c @ frames (c_sequence c) data"
    using writePacketLoop_up [OF ready_up [OF assms(1)]] by blast
  show ?thesis
    using 1 2
    by - (rule exI [of _ c1], rule exI [of _ area], rule exI [of _ c2],
        auto simp: writePacket_def sent_def wire_def)
qed

theorem ephemeral_as_writePacket_witness:
  "\<exists>c1 area c2 c3. startEphemeralPacket (length [1, 2 :: byte]) (newConn [] Net_EOF) = (c1, Ok area) \<and> length area = length [1, 2 :: byte] \<and>
    writeEphemeralPacket True (storePacket [1, 2] c1) = (c2, Ok ()) \<and> writePacket [1, 2] (newConn [] Net_EOF) = (c3, Ok ()) \<and>
    wire c2 = wire c3 \<and> c_sequence c2 = c_sequence c3 \<and> ready c2"
  by (rule ephemeral_as_writePacket [OF newConn_ready]) (simp add: newConn_def)

text \<open>
  \<open>readEphemeralPacket\<close> returns the packet \<open>readPacket\<close> would return; a packet that is not empty can then be
  recycled, and the connection is ready again.  After an empty packet \<open>recycleReadPacket\<close> panics.\<close>

theorem ephemeral_read:
  assumes "read_ready c" "c_input c = frames (c_sequence c) data @ rest"
  shows "\<exists>c1. readEphemeralPacket c = (c1, Ok data) \<and> snd (readPacket c) = Ok data \<and>
    (data \<noteq> [] \<longrightarrow> (\<exists>c2. recycleReadPacket c1 = (c2, Ok ()) \<and> received [data] rest c c2)) \<and>
    (data = [] \<longrightarrow> recycleReadPacket c1 = (c1, Panic))"
proof (cases "data = []")
  case True
  then have "readHeader header_err c = (c\<lparr>c_input := rest, c_sequence := c_sequence c + 1\<rparr>, Ok 0)"
    by (intro readHeader_frame) (use assms(2) in \<open>simp_all add: frames_small\<close>)
  then show ?thesis using True assms
    by (simp add: readEphemeralPacket_def read_ready_def recycleReadPacket_def readPacket_frames)
next
  case False
  then show ?thesis using readEphemeral_frames [OF assms] readPacket_frames [OF assms(2)] by auto
qed

theorem ephemeral_read_witness:
  "\<exists>c1. readEphemeralPacket (newConn [0, 0, 0, 0] Net_EOF) = (c1, Ok []) \<and> recycleReadPacket c1 = (c1, Panic)"
proof -
  have "frames 0 [] = [0, 0, 0, 0]" by (simp add: frames_small header_of_def)
  then have "c_input (newConn [0, 0, 0, 0] Net_EOF) = frames (c_sequence (newConn [0, 0, 0, 0] Net_EOF)) [] @ []"
    "read_ready (newConn [0, 0, 0, 0] Net_EOF)"
    by (simp_all add: newConn_def read_ready_def)
  then show ?thesis using ephemeral_read [of "newConn [0, 0, 0, 0] Net_EOF" "[]" "[]"] by auto
qed

end
