(* ===== verification/Mysql_Query.thy ===== *)
theory Mysql_Query
  imports Mysql_Conn
begin

text \<open>
  The packets of the query protocol: OK, error and EOF packets (\<^verbatim>\<open>conn.go\<close>), commands, column definitions,
  rows and whole results (\<^verbatim>\<open>query.go\<close>).  A packet writer computes the length, starts a packet, fills it and
  sends it; a packet parser reads field by field.  \<open>try_read r e k\<close> is the Go idiom
  \<^verbatim>\<open>x, pos, ok := read(data, pos); if !ok { return e }\<close>.
\<close>

section \<open>Constants\<close>

definition OKPacket :: byte where "OKPacket = 0x00"
definition EOFPacket :: byte where "EOFPacket = 0xfe"
definition ErrPacket :: byte where "ErrPacket = 0xff"
definition NullValue :: byte where "NullValue = 0xfb"
definition ComQuit :: byte where "ComQuit = 0x01"
definition ComInitDB :: byte where "ComInitDB = 0x02"
definition ComQuery :: byte where "ComQuery = 0x03"
definition ComPing :: byte where "ComPing = 0x0e"
definition ComSetOption :: byte where "ComSetOption = 0x1b"
definition CRUnknownError :: int where "CRUnknownError = 2000"
definition CRServerGone :: int where "CRServerGone = 2006"
definition CRMalformedPacket :: int where "CRMalformedPacket = 2027"
definition ERVitessMaxRowsExceeded :: int where "ERVitessMaxRowsExceeded = 10001"
definition ERUnknownError :: int where "ERUnknownError = 1105"
definition CapabilityClientDeprecateEOF :: u32 where "CapabilityClientDeprecateEOF = push_bit 24 1"
definition ServerMoreResultsExists :: u16 where "ServerMoreResultsExists = 8"
definition MySqlFlag_NUM_FLAG :: u32 where "MySqlFlag_NUM_FLAG = 32768"

definition bytes_of :: "string \<Rightarrow> bytes" where
  "bytes_of s = map (\<lambda>ch. of_nat (of_char ch)) s"

definition serverLost :: "conn_error \<Rightarrow> conn_error" where
  "serverLost e = NewSQLError CRServerLost SSUnknownSQLState (OfErr e)"

definition malformed :: "string \<Rightarrow> conn_error" where
  "malformed what = NewSQLError CRMalformedPacket SSUnknownSQLState (Lit what)"

fun try_read :: "(unit, 'a) result \<Rightarrow> 'e \<Rightarrow> ('a \<Rightarrow> ('e, 'b) result) \<Rightarrow> ('e, 'b) result" where
  "try_read (Ok x) e k = k x"
| "try_read (Err _) e k = Err e"
| "try_read Panic e k = Panic"

section \<open>OK, error and EOF packets\<close>

definition writeOKPacket :: "u64 \<Rightarrow> u64 \<Rightarrow> u16 \<Rightarrow> u16 \<Rightarrow> unit conn_op" where
  "writeOKPacket affectedRows lastInsertID flags warnings =
     bindC (startEphemeralPacket (nat (1 + lenEncIntSize affectedRows + lenEncIntSize lastInsertID + 2 + 2))) (\<lambda>data.
     bindC (fill [\<lambda>d p. writeByte d p OKPacket, \<lambda>d p. writeLenEncInt d p affectedRows,
             \<lambda>d p. writeLenEncInt d p lastInsertID, \<lambda>d p. writeUint16 d p flags, \<lambda>d p. writeUint16 d p warnings] data)
       (\<lambda>pos. writeEphemeralPacket True))"

definition writeOKPacketWithEOFHeader :: "u64 \<Rightarrow> u64 \<Rightarrow> u16 \<Rightarrow> u16 \<Rightarrow> unit conn_op" where
  "writeOKPacketWithEOFHeader affectedRows lastInsertID flags warnings =
     bindC (bindC (startEphemeralPacket (nat (1 + lenEncIntSize affectedRows + lenEncIntSize lastInsertID + 2 + 2))) (\<lambda>data.
     bindC (fill [\<lambda>d p. writeByte d p EOFPacket, \<lambda>d p. writeLenEncInt d p affectedRows,
             \<lambda>d p. writeLenEncInt d p lastInsertID, \<lambda>d p. writeUint16 d p flags, \<lambda>d p. writeUint16 d p warnings] data)
       (\<lambda>pos. writeEphemeralPacket False))) (\<lambda>_. flush)"

text \<open>The message is the formatted text; a state that does not have five characters panics after the packet was
  started.\<close>

definition writeErrorPacket :: "u16 \<Rightarrow> bytes \<Rightarrow> bytes \<Rightarrow> unit conn_op" where
  "writeErrorPacket errorCode sqlState errorMessage =
     (let sqlState = if sqlState = [] then SSUnknownSQLState else sqlState in
      bindC (startEphemeralPacket (nat (1 + 2 + 1 + 5 + int (length errorMessage)))) (\<lambda>data.
        if length sqlState \<noteq> 5 then panicC else
        bindC (fill [\<lambda>d p. writeByte d p ErrPacket, \<lambda>d p. writeUint16 d p errorCode, \<lambda>d p. writeByte d p 35,
                \<lambda>d p. writeEOFString d p sqlState, \<lambda>d p. writeEOFString d p errorMessage] data)
          (\<lambda>pos. writeEphemeralPacket True)))"

text \<open>\<open>render\<close> formats a message (\<^verbatim>\<open>fmt.Sprintf\<close>).\<close>

definition writeErrorPacketFromError :: "(message \<Rightarrow> bytes) \<Rightarrow> conn_error \<Rightarrow> unit conn_op" where
  "writeErrorPacketFromError render err =
     (case err of
        SQLError num state msg \<Rightarrow> writeErrorPacket (of_int num) state (render msg)
      | _ \<Rightarrow> writeErrorPacket (of_int ERUnknownError) SSUnknownSQLState (bytes_of ''unknown error: '' @ render (OfErr err)))"

definition writeEOFPacket :: "u16 \<Rightarrow> u16 \<Rightarrow> unit conn_op" where
  "writeEOFPacket flags warnings =
     bindC (startEphemeralPacket (nat 5)) (\<lambda>data.
     bindC (fill [\<lambda>d p. writeByte d p EOFPacket, \<lambda>d p. writeUint16 d p warnings, \<lambda>d p. writeUint16 d p flags] data)
       (\<lambda>pos. writeEphemeralPacket False))"

fun isEOFPacket :: "bytes \<Rightarrow> (conn_error, bool) result" where
  "isEOFPacket [] = Panic"
| "isEOFPacket (b # bs) = Ok (b = EOFPacket \<and> length (b # bs) < 9)"

fun isErrorPacket :: "bytes \<Rightarrow> (conn_error, bool) result" where
  "isErrorPacket [] = Panic"
| "isErrorPacket (b # bs) = Ok (b = ErrPacket)"

definition parseOKPacket :: "bytes \<Rightarrow> (conn_error, u64 \<times> u64 \<times> u16 \<times> u16) result" where
  "parseOKPacket data =
     try_read (readLenEncInt data 1) (E_text ''invalid OK packet affectedRows'') (\<lambda>(affectedRows, pos).
     try_read (readLenEncInt data pos) (E_text ''invalid OK packet lastInsertID'') (\<lambda>(lastInsertID, pos).
     try_read (readUint16 data pos) (E_text ''invalid OK packet statusFlags'') (\<lambda>(statusFlags, pos).
     try_read (readUint16 data pos) (E_text ''invalid OK packet warnings'') (\<lambda>(warnings, pos).
       Ok (affectedRows, lastInsertID, statusFlags, warnings)))))"

text \<open>Always an error value, or a panic.\<close>

definition ParseErrorPacket :: "bytes \<Rightarrow> (conn_error, 'a) result" where
  "ParseErrorPacket data =
     try_read (readUint16 data 1) (NewSQLError CRUnknownError SSUnknownSQLState (Lit ''invalid error packet code'')) (\<lambda>(code, pos).
     try_read (readBytes data (wrap64 (pos + 1)) 5)
         (NewSQLError CRUnknownError SSUnknownSQLState (Lit ''invalid error packet sqlState'')) (\<lambda>(sqlState, pos).
     try_read (go_slice data pos (int (length data))) E_EOF (\<lambda>msg.
       Err (NewSQLError (uint code) sqlState (Raw msg)))))"

section \<open>Commands\<close>

definition serverGone :: "conn_error \<Rightarrow> conn_error" where
  "serverGone e = NewSQLError CRServerGone SSUnknownSQLState (OfErr e)"

definition WriteComQuery :: "bytes \<Rightarrow> unit conn_op" where
  "WriteComQuery query c =
     bindC (startEphemeralPacket (nat (int (length query) + 1))) (\<lambda>data.
     bindC (fill [\<lambda>d p. writeByte d p ComQuery, \<lambda>d p. writeEOFString d p query] data)
       (\<lambda>pos. wrapErr serverGone (writeEphemeralPacket True))) (c\<lparr>c_sequence := 0\<rparr>)"

definition writeComInitDB :: "bytes \<Rightarrow> unit conn_op" where
  "writeComInitDB db =
     bindC (startEphemeralPacket (nat (int (length db) + 1))) (\<lambda>data.
     bindC (fill [\<lambda>d p. writeByte d p ComInitDB, \<lambda>d p. writeEOFString d p db] data)
       (\<lambda>pos. wrapErr serverGone (writeEphemeralPacket True)))"

text \<open>17 bytes are sent and only three of them written.\<close>

definition writeComSetOption :: "u16 \<Rightarrow> unit conn_op" where
  "writeComSetOption operation =
     bindC (startEphemeralPacket (16 + 1)) (\<lambda>data.
     bindC (fill [\<lambda>d p. writeByte d p ComSetOption, \<lambda>d p. writeUint16 d p operation] data)
       (\<lambda>pos. wrapErr serverGone (writeEphemeralPacket True)))"

definition parseComQuery :: "bytes \<Rightarrow> (unit, bytes) result" where
  "parseComQuery data = go_slice data 1 (int (length data))"

definition parseComSetOption :: "bytes \<Rightarrow> (unit, u16 \<times> int) result" where
  "parseComSetOption data = readUint16 data 1"

definition parseComInitDB :: "bytes \<Rightarrow> (unit, bytes) result" where
  "parseComInitDB data = go_slice data 1 (int (length data))"

definition sendColumnCount :: "u64 \<Rightarrow> unit conn_op" where
  "sendColumnCount count =
     bindC (startEphemeralPacket (nat (lenEncIntSize count))) (\<lambda>data.
     bindC (fill [\<lambda>d p. writeLenEncInt d p count] data) (\<lambda>pos. writeEphemeralPacket False))"

section \<open>Columns\<close>

definition IsNum :: "byte \<Rightarrow> bool" where
  "IsNum typ \<longleftrightarrow> (typ \<le> 9 \<and> typ \<noteq> 7) \<or> typ = 13 \<or> typ = 246"

definition writeColumnDefinition :: "querypb_Field \<Rightarrow> unit conn_op" where
  "writeColumnDefinition field =
     (let len = 4 + lenEncStringSize (f_Database field) + lenEncStringSize (f_Table field) +
            lenEncStringSize (f_OrgTable field) + lenEncStringSize (f_Name field) + lenEncStringSize (f_OrgName field) +
            1 + 2 + 4 + 1 + 2 + 1 + 2;
          (typ, flags) = TypeToMySQL (f_Type field);
          flags = (if f_Flags field \<noteq> 0 then uint (f_Flags field) else flags)
      in bindC (startEphemeralPacket (nat len)) (\<lambda>data.
         bindC (fill [\<lambda>d p. writeLenEncString d p (bytes_of ''def''),
             \<lambda>d p. writeLenEncString d p (f_Database field), \<lambda>d p. writeLenEncString d p (f_Table field),
             \<lambda>d p. writeLenEncString d p (f_OrgTable field), \<lambda>d p. writeLenEncString d p (f_Name field),
             \<lambda>d p. writeLenEncString d p (f_OrgName field), \<lambda>d p. writeByte d p 0x0c,
             \<lambda>d p. writeUint16 d p (ucast (f_Charset field)), \<lambda>d p. writeUint32 d p (f_ColumnLength field),
             \<lambda>d p. writeByte d p (of_int typ), \<lambda>d p. writeUint16 d p (of_int flags),
             \<lambda>d p. writeByte d p (ucast (f_Decimals field)), \<lambda>d p. writeUint16 d p 0] data)
         (\<lambda>pos. if pos \<noteq> int (length data) then failC (E_text ''packing of column definition'')
                 else writeEphemeralPacket False)))"

definition parseColumnDefinition :: "querypb_Field \<Rightarrow> bytes \<Rightarrow> (conn_error, querypb_Field) result" where
  "parseColumnDefinition field colDef =
     try_read (skipLenEncString colDef 0) (malformed ''catalog'') (\<lambda>pos.
     try_read (readLenEncString colDef pos) (malformed ''schema'') (\<lambda>(database, pos).
     try_read (readLenEncString colDef pos) (malformed ''table'') (\<lambda>(table, pos).
     try_read (readLenEncString colDef pos) (malformed ''org_table'') (\<lambda>(orgTable, pos).
     try_read (readLenEncString colDef pos) (malformed ''name'') (\<lambda>(name, pos).
     try_read (readLenEncString colDef pos) (malformed ''org_name'') (\<lambda>(orgName, pos).
     try_read (readUint16 colDef (wrap64 (pos + 1))) (malformed ''characterSet'') (\<lambda>(characterSet, pos).
     try_read (readUint32 colDef pos) (malformed ''columnLength'') (\<lambda>(columnLength, pos).
     try_read (readByte colDef pos) (malformed ''type'') (\<lambda>(t, pos).
     try_read (readUint16 colDef pos) (malformed ''flags'') (\<lambda>(flags, pos).
     case MySQLToType (uint t) (uint flags) of
       None \<Rightarrow> Err (malformed ''MySQLToType'')
     | Some typ \<Rightarrow>
     try_read (readByte colDef pos) (malformed ''decimals'') (\<lambda>(decimals, pos).
       let field = field\<lparr>f_Database := database, f_Table := table, f_OrgTable := orgTable, f_Name := name,
             f_OrgName := orgName, f_Charset := ucast characterSet, f_ColumnLength := columnLength,
             f_Type := typ, f_Decimals := ucast decimals\<rparr> in
       Ok (if f_ColumnLength field \<noteq> 0 \<or> f_Charset field \<noteq> 0
           then field\<lparr>f_Flags := (if IsNum t then ucast flags OR MySqlFlag_NUM_FLAG else ucast flags)\<rparr>
           else field))))))))))))"

definition readColumnDefinition :: "querypb_Field \<Rightarrow> querypb_Field conn_op" where
  "readColumnDefinition field = readRecycled serverLost (parseColumnDefinition field)"

definition parseColumnDefinitionType :: "querypb_Field \<Rightarrow> bytes \<Rightarrow> (conn_error, querypb_Field) result" where
  "parseColumnDefinitionType field colDef =
     try_read (skipLenEncString colDef 0) (malformed ''catalog'') (\<lambda>pos.
     try_read (skipLenEncString colDef pos) (malformed ''schema'') (\<lambda>pos.
     try_read (skipLenEncString colDef pos) (malformed ''table'') (\<lambda>pos.
     try_read (skipLenEncString colDef pos) (malformed ''org_table'') (\<lambda>pos.
     try_read (skipLenEncString colDef pos) (malformed ''name'') (\<lambda>pos.
     try_read (skipLenEncString colDef pos) (malformed ''org_name'') (\<lambda>pos.
     try_read (readUint16 colDef (wrap64 (pos + 1))) (malformed ''characterSet'') (\<lambda>(_, pos).
     try_read (readUint32 colDef pos) (malformed ''columnLength'') (\<lambda>(_, pos).
     try_read (readByte colDef pos) (malformed ''type'') (\<lambda>(t, pos).
     try_read (readUint16 colDef pos) (malformed ''flags'') (\<lambda>(flags, pos).
     case MySQLToType (uint t) (uint flags) of
       None \<Rightarrow> Err (malformed ''MySQLToType'')
     | Some typ \<Rightarrow> Ok (field\<lparr>f_Type := typ\<rparr>)))))))))))"

definition readColumnDefinitionType :: "querypb_Field \<Rightarrow> querypb_Field conn_op" where
  "readColumnDefinitionType field = readRecycled serverLost (parseColumnDefinitionType field)"

section \<open>Rows\<close>

definition row_length :: "SqlValue list \<Rightarrow> int" where
  "row_length row = sum_list (map (\<lambda>val. if IsNull val then 1
     else lenEncIntSize (word_of_nat (length (value_Raw val))) + int (length (value_Raw val))) row)"

definition row_writes :: "SqlValue list \<Rightarrow> (bytes \<Rightarrow> int \<Rightarrow> (unit, bytes \<times> int) result) list" where
  "row_writes row = concat (map (\<lambda>val. if IsNull val then [\<lambda>d p. writeByte d p NullValue]
     else [\<lambda>d p. writeLenEncInt d p (word_of_nat (length (value_Raw val))), \<lambda>d p. writeEOFString d p (value_Raw val)]) row)"

definition writeRow :: "SqlValue list \<Rightarrow> unit conn_op" where
  "writeRow row =
     bindC (startEphemeralPacket (nat (row_length row))) (\<lambda>data.
     bindC (fill (row_writes row) data) (\<lambda>pos.
       if pos \<noteq> row_length row then failC (E_text ''packet row'') else writeEphemeralPacket False))"

text \<open>The loop of \<open>parseRow\<close>, over the fields.\<close>

fun parseRowLoop :: "bytes \<Rightarrow> int \<Rightarrow> querypb_Field list \<Rightarrow> (conn_error, SqlValue list) result" where
  "parseRowLoop data pos [] = Ok []"
| "parseRowLoop data pos (f # fs) =
     try_read (at_pos data pos) E_EOF (\<lambda>b.
       if b = 0xfb then
         result_bind (parseRowLoop data (wrap64 (pos + 1)) fs) (\<lambda>vs. Ok (NULL_value # vs))
       else
         try_read (readLenEncStringAsBytes data pos) (malformed ''decoding string failed'') (\<lambda>(s, pos).
           result_bind (parseRowLoop data pos fs) (\<lambda>vs. Ok (MakeTrusted (f_Type f) s # vs))))"

definition parseRow :: "bytes \<Rightarrow> querypb_Field list \<Rightarrow> (conn_error, SqlValue list) result" where
  "parseRow data fs = parseRowLoop data 0 fs"

section \<open>Results\<close>

record Result =
  r_Fields :: "querypb_Field list"
  r_RowsAffected :: u64
  r_InsertID :: u64
  r_Rows :: "SqlValue list list"

fun writeColumns :: "querypb_Field list \<Rightarrow> unit conn_op" where
  "writeColumns [] = okC ()"
| "writeColumns (f # fs) = bindC (writeColumnDefinition f) (\<lambda>_. writeColumns fs)"

definition writeFields :: "Result \<Rightarrow> unit conn_op" where
  "writeFields result =
     bindC (sendColumnCount (word_of_nat (length (r_Fields result)))) (\<lambda>_.
     bindC (writeColumns (r_Fields result)) (\<lambda>_ c.
       if c_Capabilities c AND CapabilityClientDeprecateEOF = 0 then writeEOFPacket (c_StatusFlags c) 0 c
       else (c, Ok ())))"

fun writeRowsLoop :: "SqlValue list list \<Rightarrow> unit conn_op" where
  "writeRowsLoop [] = okC ()"
| "writeRowsLoop (row # rows) = bindC (writeRow row) (\<lambda>_. writeRowsLoop rows)"

definition writeRows :: "Result \<Rightarrow> unit conn_op" where
  "writeRows result = writeRowsLoop (r_Rows result)"

definition writeEndResult :: "bool \<Rightarrow> unit conn_op" where
  "writeEndResult hasMore c =
     (let flag = (if hasMore then c_StatusFlags c OR ServerMoreResultsExists else c_StatusFlags c) in
      if c_Capabilities c AND CapabilityClientDeprecateEOF = 0 then bindC (writeEOFPacket flag 0) (\<lambda>_. flush) c
      else writeOKPacketWithEOFHeader 0 0 flag 0 c)"

definition parseComQueryResponse :: "bytes \<Rightarrow> (conn_error, u64 \<times> u64 \<times> int) result" where
  "parseComQueryResponse data =
     (if data = [] then Err (malformed ''invalid empty COM_QUERY response packet'')
      else if hd data = OKPacket then
        result_bind (parseOKPacket data) (\<lambda>(affectedRows, lastInsertID, _). Ok (affectedRows, lastInsertID, 0))
      else if hd data = ErrPacket then ParseErrorPacket data
      else if hd data = 0xfb then Err (E_text ''not implemented'')
      else try_read (readLenEncInt data 0) (malformed ''cannot get column number'') (\<lambda>(n, pos).
        if pos \<noteq> int (length data) then Err (malformed ''extra data in COM_QUERY response'')
        else Ok (0, 0, sint n)))"

definition readComQueryResponse :: "(u64 \<times> u64 \<times> int) conn_op" where
  "readComQueryResponse = readRecycled serverLost parseComQueryResponse"

definition zero_Field :: querypb_Field where
  "zero_Field = \<lparr>f_Name = [], f_Type = T_Null, f_Table = [], f_OrgTable = [], f_Database = [], f_OrgName = [],
     f_ColumnLength = 0, f_Charset = 0, f_Decimals = 0, f_Flags = 0\<rparr>"

fun readColumns :: "bool \<Rightarrow> nat \<Rightarrow> querypb_Field list conn_op" where
  "readColumns wantfields 0 = okC []"
| "readColumns wantfields (Suc n) =
     bindC (if wantfields then readColumnDefinition zero_Field else readColumnDefinitionType zero_Field) (\<lambda>f.
     bindC (readColumns wantfields n) (\<lambda>fs. okC (f # fs)))"

text \<open>The EOF packet after the columns, unless it is deprecated.  The packet is recycled on every path that looks
  at it, but \<open>isEOFPacket\<close> panics on an empty one.\<close>

definition readFieldsEOF :: "unit conn_op" where
  "readFieldsEOF c =
     (if c_Capabilities c AND CapabilityClientDeprecateEOF = 0 then
        bindC (wrapErr serverLost readEphemeralPacket) (\<lambda>data c.
          case isEOFPacket data of
            Ok True \<Rightarrow> recycleReadPacket c
          | Ok False \<Rightarrow> (case isErrorPacket data of
                Ok True \<Rightarrow> bindC recycleReadPacket (\<lambda>_ c. (c, ParseErrorPacket data)) c
              | Ok False \<Rightarrow> bindC recycleReadPacket (\<lambda>_. failC (E_text ''unexpected packet after fields'')) c
              | _ \<Rightarrow> (c, Panic))
          | _ \<Rightarrow> (c, Panic)) c
      else (c, Ok ()))"

lemma readMore_consumes: "readMore data c = (c', Ok d) \<Longrightarrow> length (c_input c') < length (c_input c)"
proof (induction data c rule: readMore.induct)
  case (1 data c)
  obtain c1 r where one: "readOnePacket c = (c1, r)" by (cases "readOnePacket c")
  show ?case
  proof (cases r)
    case (Ok nxt)
    then have less: "length (c_input c1) < length (c_input c)" using one by (auto intro: readOnePacket_consumes)
    show ?thesis
    proof (cases "nxt = [] \<or> length nxt < MaxPacketSize")
      case True
      then show ?thesis using 1(2) one Ok less by (auto simp: readMore.simps [of _ c] split: if_splits)
    next
      case False
      then have "readMore (data @ nxt) c1 = (c', Ok d)" using 1(2) one Ok by (simp add: readMore.simps [of _ c])
      then have "length (c_input c') < length (c_input c1)" using 1(1) one Ok False by simp
      with less show ?thesis by simp
    qed
  qed (use 1(2) one in \<open>simp_all add: readMore.simps [of _ c]\<close>)
qed

lemma readPacket_consumes: "readPacket c = (c', Ok d) \<Longrightarrow> length (c_input c') < length (c_input c)"
  by (auto simp: readPacket_def bindC_Ok_iff dest!: readOnePacket_consumes readMore_consumes split: if_splits)

lemma ReadPacket_consumes: "ReadPacket c = (c', Ok d) \<Longrightarrow> length (c_input c') < length (c_input c)"
  by (simp add: ReadPacket_def wrapErr_Ok_iff readPacket_consumes)

lemma readEphemeral_consumes: "readEphemeralPacket c = (c', Ok d) \<Longrightarrow> length (c_input c') < length (c_input c)"
  by (auto simp: readEphemeralPacket_def readHeader_def ReadFullBuffer_def bindC_Ok_iff wrapErr_Ok_iff Let_def
      dest!: ReadFull_input readMore_consumes split: if_splits)

lemma recycle_input: "recycleReadPacket c = (c', r) \<Longrightarrow> c_input c' = c_input c"
  by (auto simp: recycleReadPacket_def split: ephemeral_policy.splits)

lemma ephemeral_step_consumes:
  "(c1, Ok data) = wrapErr g readEphemeralPacket c \<Longrightarrow> (c2, r) = recycleReadPacket c1 \<Longrightarrow>
    length (c_input c2) < length (c_input c)"
  using readEphemeral_consumes [of c c1 data] recycle_input [of c1 c2 r] by (simp add: wrapErr_Ok_iff eq_commute)

function drainResults :: "unit conn_op" where
  "drainResults c =
     (case wrapErr serverLost readEphemeralPacket c of
        (c1, Ok data) \<Rightarrow> (case isEOFPacket data of
            Ok True \<Rightarrow> recycleReadPacket c1
          | Ok False \<Rightarrow> (case isErrorPacket data of
                Ok True \<Rightarrow> bindC recycleReadPacket (\<lambda>_ c. (c, ParseErrorPacket data)) c1
              | Ok False \<Rightarrow> (case recycleReadPacket c1 of
                    (c2, Ok _) \<Rightarrow> drainResults c2
                  | (c2, r) \<Rightarrow> (c2, r))
              | _ \<Rightarrow> (c1, Panic))
          | _ \<Rightarrow> (c1, Panic))
      | (c1, Err e) \<Rightarrow> (c1, Err e)
      | (c1, Panic) \<Rightarrow> (c1, Panic))"
  by pat_completeness auto

termination
  by (relation "measure (\<lambda>c. length (c_input c))") (auto intro: ephemeral_step_consumes)

declare drainResults.simps [simp del]

text \<open>The loop over the rows; \<open>maxrows\<close> is compared with the number of rows read so far.\<close>

function readRows :: "int \<Rightarrow> querypb_Field list \<Rightarrow> SqlValue list list \<Rightarrow> SqlValue list list conn_op" where
  "readRows maxrows flds rows c =
     (case ReadPacket c of
        (c1, Ok data) \<Rightarrow> (case isEOFPacket data of
            Ok True \<Rightarrow> (c1, Ok rows)
          | Ok False \<Rightarrow> (case isErrorPacket data of
                Ok True \<Rightarrow> (c1, ParseErrorPacket data)
              | Ok False \<Rightarrow>
                  if int (length rows) = maxrows then
                    bindC drainResults
                      (\<lambda>_. failC (NewSQLError ERVitessMaxRowsExceeded SSUnknownSQLState (Lit ''Row count exceeded''))) c1
                  else (case parseRow data flds of
                      Ok row \<Rightarrow> readRows maxrows flds (rows @ [row]) c1
                    | Err e \<Rightarrow> (c1, Err e)
                    | Panic \<Rightarrow> (c1, Panic))
              | _ \<Rightarrow> (c1, Panic))
          | _ \<Rightarrow> (c1, Panic))
      | (c1, Err e) \<Rightarrow> (c1, Err e)
      | (c1, Panic) \<Rightarrow> (c1, Panic))"
  by pat_completeness auto

termination
  by (relation "measure (\<lambda>(maxrows, flds, rows, c). length (c_input c))") (auto dest: ReadPacket_consumes [OF sym])

declare readRows.simps [simp del]

text \<open>\<^verbatim>\<open>make([]querypb.Field, colNumber)\<close> panics on a negative count.\<close>

definition ReadQueryResult :: "int \<Rightarrow> bool \<Rightarrow> Result conn_op" where
  "ReadQueryResult maxrows wantfields =
     bindC readComQueryResponse (\<lambda>(affectedRows, lastInsertID, colNumber).
       if colNumber = 0 then
         okC \<lparr>r_Fields = [], r_RowsAffected = affectedRows, r_InsertID = lastInsertID, r_Rows = []\<rparr>
       else if colNumber < 0 then panicC
       else bindC (readColumns wantfields (nat colNumber)) (\<lambda>flds.
         bindC readFieldsEOF (\<lambda>_.
         bindC (readRows maxrows flds []) (\<lambda>rows.
           okC \<lparr>r_Fields = (if wantfields then flds else []), r_RowsAffected = word_of_nat (length rows),
             r_InsertID = 0, r_Rows = rows\<rparr>))))"

definition ExecuteFetch :: "bytes \<Rightarrow> int \<Rightarrow> bool \<Rightarrow> Result conn_op" where
  "ExecuteFetch query maxrows wantfields =
     bindC (WriteComQuery query) (\<lambda>_. ReadQueryResult maxrows wantfields)"

section \<open>Streaming queries\<close>

definition CRCommandsOutOfSync :: int where "CRCommandsOutOfSync = 2014"

definition outOfSync :: "string \<Rightarrow> conn_error" where
  "outOfSync what = NewSQLError CRCommandsOutOfSync SSUnknownSQLState (Lit what)"

text \<open>The EOF packet after the columns of a streaming query: here the recycling is deferred, and an unexpected
  packet is an SQL error.\<close>

definition streamFieldsEOF :: "unit conn_op" where
  "streamFieldsEOF c =
     (if c_Capabilities c AND CapabilityClientDeprecateEOF = 0 then
        readRecycled serverLost (\<lambda>data.
          result_bind (isEOFPacket data) (\<lambda>eof. if eof then Ok () else
          result_bind (isErrorPacket data) (\<lambda>isErr. if isErr then ParseErrorPacket data
            else Err (outOfSync ''unexpected packet after fields'')))) c
      else (c, Ok ()))"

definition ExecuteStreamFetch :: "bytes \<Rightarrow> unit conn_op" where
  "ExecuteStreamFetch query c =
     (if c_fields c \<noteq> None then (c, Err (outOfSync ''streaming query already in progress''))
      else bindC (WriteComQuery query) (\<lambda>_.
        bindC readComQueryResponse (\<lambda>(_, _, colNumber).
          if colNumber = 0 then (\<lambda>c. (c\<lparr>c_fields := Some []\<rparr>, Ok ()))
          else if colNumber < 0 then panicC
          else bindC (readColumns True (nat colNumber)) (\<lambda>flds.
            bindC streamFieldsEOF (\<lambda>_ c. (c\<lparr>c_fields := Some flds\<rparr>, Ok ()))))) c)"

definition conn_Fields :: "Conn \<Rightarrow> (conn_error, querypb_Field list) result" where
  "conn_Fields c = (case c_fields c of None \<Rightarrow> Err (outOfSync ''no streaming query in progress'') | Some flds \<Rightarrow> Ok flds)"

text \<open>\<open>Ok None\<close> is \<^verbatim>\<open>nil, nil\<close>: nothing more to read.\<close>

definition FetchNext :: "SqlValue list option conn_op" where
  "FetchNext c =
     (case c_fields c of
        None \<Rightarrow> (c, Err (outOfSync ''no streaming query in progress''))
      | Some [] \<Rightarrow> (c, Ok None)
      | Some flds \<Rightarrow> bindC ReadPacket (\<lambda>data c.
          case isEOFPacket data of
            Ok True \<Rightarrow> (c\<lparr>c_fields := None\<rparr>, Ok None)
          | Ok False \<Rightarrow> (case isErrorPacket data of
                Ok True \<Rightarrow> (c, ParseErrorPacket data)
              | Ok False \<Rightarrow> (c, result_bind (parseRow data flds) (\<lambda>row. Ok (Some row)))
              | _ \<Rightarrow> (c, Panic))
          | _ \<Rightarrow> (c, Panic)) c)"

lemma ParseErrorPacket_not_Ok: "ParseErrorPacket data \<noteq> Ok x"
proof -
  have go: "try_read r e (\<lambda>msg. Err (f msg)) \<noteq> Ok x" for r and e :: conn_error and f :: "bytes \<Rightarrow> conn_error"
    by (cases r) simp_all
  have "try_read r e (\<lambda>(s, pos). try_read (go_slice data pos n) E_EOF (\<lambda>msg. Err (f s msg))) \<noteq> Ok x"
    for r :: "(unit, bytes \<times> int) result" and e :: conn_error and n and f :: "bytes \<Rightarrow> bytes \<Rightarrow> conn_error"
    by (cases r) (auto simp: go)
  then show ?thesis
    unfolding ParseErrorPacket_def by (cases "readUint16 data 1") auto
qed

lemma FetchNext_consumes:
  assumes "FetchNext c = (c', Ok (Some row))"
  shows "length (c_input c') < length (c_input c)"
proof -
  obtain f fs where f: "c_fields c = Some (f # fs)"
    using assms by (auto simp: FetchNext_def split: option.splits list.splits)
  obtain c1 data where r: "ReadPacket c = (c1, Ok data)"
    using assms f by (auto simp: FetchNext_def bindC_Ok_iff)
  have "c_input c' = c_input c1"
    using assms by (simp add: FetchNext_def f r) (auto split: result.splits bool.splits)
  with ReadPacket_consumes [OF r] show ?thesis by simp
qed

function CloseResult :: "Conn \<Rightarrow> Conn option" where
  "CloseResult c =
     (if c_fields c = None then Some c
      else case FetchNext c of
          (c1, Ok (Some row)) \<Rightarrow> CloseResult c1
        | (c1, Ok None) \<Rightarrow> CloseResult (c1\<lparr>c_fields := None\<rparr>)
        | (c1, Err e) \<Rightarrow> CloseResult (c1\<lparr>c_fields := None\<rparr>)
        | (c1, Panic) \<Rightarrow> None)"
  by pat_completeness auto

termination
  by (relation "measure (\<lambda>c. if c_fields c = None then 0 else Suc (length (c_input c)))")
    (auto dest: FetchNext_consumes [OF sym])

declare CloseResult.simps [simp del]

end
