(* ===== verification/Mysql_Auth.thy ===== *)
theory Mysql_Auth
  imports Mysql_Query
begin

text \<open>
  Authentication (\<^verbatim>\<open>auth_server.go\<close>, \<^verbatim>\<open>auth_server_static.go\<close>): the salt, the scrambled password of the client,
  the two checks of the server, and the static table of users.  SHA-1 and hexadecimal decoding are those of the
  Go library.
\<close>

section \<open>SHA-1\<close>

definition rotl :: "nat \<Rightarrow> u32 \<Rightarrow> u32" where
  "rotl n w = push_bit n w OR drop_bit (32 - n) w"

definition be32 :: "u32 \<Rightarrow> bytes" where
  "be32 w = [ucast (drop_bit 24 w), ucast (drop_bit 16 w), ucast (drop_bit 8 w), ucast w]"

fun words_of :: "bytes \<Rightarrow> u32 list" where
  "words_of (a # b # c # d # rest) =
     (push_bit 24 (ucast a) OR push_bit 16 (ucast b) OR push_bit 8 (ucast c) OR ucast d) # words_of rest"
| "words_of _ = []"

definition sha1_pad :: "bytes \<Rightarrow> bytes" where
  "sha1_pad msg =
     (let bits = word_of_nat (8 * length msg) :: u64
      in msg @ [0x80] @ replicate ((119 - length msg mod 64) mod 64) 0 @
         be32 (ucast (drop_bit 32 bits)) @ be32 (ucast bits))"

text \<open>The message schedule, kept newest word first.\<close>

fun sha1_schedule :: "nat \<Rightarrow> u32 list \<Rightarrow> u32 list" where
  "sha1_schedule 0 ws = ws"
| "sha1_schedule (Suc n) ws =
     sha1_schedule n (rotl 1 (ws ! 2 XOR ws ! 7 XOR ws ! 13 XOR ws ! 15) # ws)"

type_synonym sha1_state = "u32 \<times> u32 \<times> u32 \<times> u32 \<times> u32"

fun sha1_round :: "nat \<Rightarrow> u32 \<Rightarrow> sha1_state \<Rightarrow> sha1_state" where
  "sha1_round i w (a, b, c, d, e) =
     (let (f, k) = (if i < 20 then ((b AND c) OR (NOT b AND d), 0x5A827999)
                    else if i < 40 then (b XOR c XOR d, 0x6ED9EBA1)
                    else if i < 60 then ((b AND c) OR (b AND d) OR (c AND d), 0x8F1BBCDC)
                    else (b XOR c XOR d, 0xCA62C1D6))
      in (rotl 5 a + f + e + k + w, a, rotl 30 b, c, d))"

fun sha1_rounds :: "nat \<Rightarrow> u32 list \<Rightarrow> sha1_state \<Rightarrow> sha1_state" where
  "sha1_rounds i [] s = s"
| "sha1_rounds i (w # ws) s = sha1_rounds (Suc i) ws (sha1_round i w s)"

fun sha1_block :: "bytes \<Rightarrow> sha1_state \<Rightarrow> sha1_state" where
  "sha1_block block (h0, h1, h2, h3, h4) =
     (case sha1_rounds 0 (rev (sha1_schedule 64 (rev (words_of block)))) (h0, h1, h2, h3, h4) of
        (a, b, c, d, e) \<Rightarrow> (h0 + a, h1 + b, h2 + c, h3 + d, h4 + e))"

fun sha1_blocks :: "nat \<Rightarrow> bytes \<Rightarrow> sha1_state \<Rightarrow> sha1_state" where
  "sha1_blocks 0 msg s = s"
| "sha1_blocks (Suc n) msg s = sha1_blocks n (drop 64 msg) (sha1_block (take 64 msg) s)"

definition sha1 :: "bytes \<Rightarrow> bytes" where
  "sha1 msg =
     (let p = sha1_pad msg in
      case sha1_blocks (length p div 64) p (0x67452301, 0xEFCDAB89, 0x98BADCFE, 0x10325476, 0xC3D2E1F0) of
        (h0, h1, h2, h3, h4) \<Rightarrow> be32 h0 @ be32 h1 @ be32 h2 @ be32 h3 @ be32 h4)"

lemma length_sha1 [simp]: "length (sha1 msg) = 20"
  by (simp add: sha1_def be32_def Let_def split: prod.split)

section \<open>Salt and scrambled password\<close>

text \<open>\<open>NewSalt\<close> from the 20 random bytes it draws; \<open>None\<close> is a failed \<^verbatim>\<open>rand.Read\<close>.\<close>

definition salt_byte :: "byte \<Rightarrow> byte" where
  "salt_byte b = (let b = b AND 0x7f in if b = 0 \<or> b = 36 then b + 1 else b)"

definition NewSalt :: "bytes option \<Rightarrow> (conn_error, bytes) result" where
  "NewSalt rnd = (case rnd of None \<Rightarrow> Err (E_text ''rand'') | Some bs \<Rightarrow> Ok (map salt_byte bs))"

definition xor_bytes :: "bytes \<Rightarrow> bytes \<Rightarrow> bytes" where
  "xor_bytes xs ys = map2 (XOR) xs ys"

definition scramblePassword :: "bytes \<Rightarrow> bytes \<Rightarrow> bytes" where
  "scramblePassword salt password =
     (if password = [] then []
      else let stage1 = sha1 password; hash = sha1 stage1; scramble = sha1 (salt @ hash)
           in xor_bytes scramble stage1)"

definition hex_digit :: "byte \<Rightarrow> byte option" where
  "hex_digit ch =
     (if 48 \<le> ch \<and> ch \<le> 57 then Some (ch - 48)
      else if 97 \<le> ch \<and> ch \<le> 102 then Some (ch - 97 + 10)
      else if 65 \<le> ch \<and> ch \<le> 70 then Some (ch - 65 + 10) else None)"

fun hex_DecodeString :: "bytes \<Rightarrow> bytes option" where
  "hex_DecodeString [] = Some []"
| "hex_DecodeString [_] = None"
| "hex_DecodeString (a # b # rest) =
     (case hex_digit a of None \<Rightarrow> None | Some x \<Rightarrow>
      case hex_digit b of None \<Rightarrow> None | Some y \<Rightarrow>
      map_option (\<lambda>bs. (push_bit 4 x OR y) # bs) (hex_DecodeString rest))"

text \<open>The reply is indexed with the positions of a 20 byte hash: a shorter one panics.\<close>

definition isPassScrambleMysqlNativePassword :: "bytes \<Rightarrow> bytes \<Rightarrow> bytes \<Rightarrow> (conn_error, bool) result" where
  "isPassScrambleMysqlNativePassword reply salt mysqlNativePassword =
     (if reply = [] then Ok False
      else if mysqlNativePassword = [] then Ok False
      else let native = (if 42 \<in> set mysqlNativePassword then tl mysqlNativePassword else mysqlNativePassword) in
        case hex_DecodeString native of
          None \<Rightarrow> Ok False
        | Some hash \<Rightarrow>
            let scramble = sha1 (salt @ hash) in
            if length reply < length scramble then Panic
            else let hashStage1 = xor_bytes scramble reply; candidateHash2 = sha1 hashStage1
                 in Ok (candidateHash2 = hash))"

section \<open>The static table of users\<close>

record AuthServerStaticEntry =
  e_MysqlNativePassword :: bytes
  e_Password :: bytes
  e_UserData :: bytes
  e_SourceHost :: bytes

record AuthServerStatic =
  a_Method :: bytes
  a_Entries :: "bytes \<Rightarrow> AuthServerStaticEntry list option"

definition MysqlNativePassword :: bytes where "MysqlNativePassword = bytes_of ''mysql_native_password''"
definition MysqlClearPassword :: bytes where "MysqlClearPassword = bytes_of ''mysql_clear_password''"
definition MysqlDialog :: bytes where "MysqlDialog = bytes_of ''dialog''"
definition localhostName :: bytes where "localhostName = bytes_of ''localhost''"
definition ERAccessDeniedError :: int where "ERAccessDeniedError = 1045"
definition SSAccessDeniedError :: bytes where "SSAccessDeniedError = bytes_of ''28000''"

definition NewAuthServerStatic :: AuthServerStatic where
  "NewAuthServerStatic = \<lparr>a_Method = MysqlNativePassword, a_Entries = (\<lambda>_. None)\<rparr>"

text \<open>\<open>validateConfig\<close> on the entries of the configuration, user by user.\<close>

definition validateConfig :: "AuthServerStaticEntry list list \<Rightarrow> (conn_error, unit) result" where
  "validateConfig config =
     (if \<exists>entry \<in> set (concat config). e_SourceHost entry \<noteq> [] \<and> e_SourceHost entry \<noteq> localhostName
      then Err (E_text ''Invalid SourceHost found'') else Ok ())"

text \<open>\<open>unix\<close>: the remote address is a Unix socket.\<close>

definition matchSourceHost :: "bool \<Rightarrow> bytes \<Rightarrow> bool" where
  "matchSourceHost unix targetSourceHost \<longleftrightarrow> targetSourceHost = [] \<or> (unix \<and> targetSourceHost = localhostName)"

definition accessDenied :: conn_error where
  "accessDenied = NewSQLError ERAccessDeniedError SSAccessDeniedError (Lit ''Access denied for user'')"

definition AuthMethod :: "AuthServerStatic \<Rightarrow> bytes \<Rightarrow> (conn_error, bytes) result" where
  "AuthMethod a user = Ok (a_Method a)"

definition AuthServerStatic_Salt :: "bytes option \<Rightarrow> (conn_error, bytes) result" where
  "AuthServerStatic_Salt rnd = NewSalt rnd"

fun validateEntries :: "bytes \<Rightarrow> bytes \<Rightarrow> bool \<Rightarrow> AuthServerStaticEntry list \<Rightarrow> (conn_error, bytes) result" where
  "validateEntries salt authResponse unix [] = Err accessDenied"
| "validateEntries salt authResponse unix (entry # entries) =
     result_bind (if e_MysqlNativePassword entry \<noteq> []
                  then isPassScrambleMysqlNativePassword authResponse salt (e_MysqlNativePassword entry) else Ok False) (\<lambda>isPass.
       if matchSourceHost unix (e_SourceHost entry) \<and> isPass then Ok (e_UserData entry)
       else if matchSourceHost unix (e_SourceHost entry) \<and> authResponse = scramblePassword salt (e_Password entry)
         then Ok (e_UserData entry)
       else validateEntries salt authResponse unix entries)"

definition ValidateHash :: "AuthServerStatic \<Rightarrow> bytes \<Rightarrow> bytes \<Rightarrow> bytes \<Rightarrow> bool \<Rightarrow> (conn_error, bytes) result" where
  "ValidateHash a salt user authResponse unix =
     (case a_Entries a user of None \<Rightarrow> Err accessDenied | Some entries \<Rightarrow> validateEntries salt authResponse unix entries)"

definition AuthServerReadPacketString :: "bytes conn_op" where
  "AuthServerReadPacketString =
     bindC ReadPacket (\<lambda>data. if data = [] \<or> last data \<noteq> 0 then failC (E_text ''received invalid response packet'')
       else okC (butlast data))"

definition AuthServerNegotiateClearOrDialog :: "bytes \<Rightarrow> bytes conn_op" where
  "AuthServerNegotiateClearOrDialog method =
     (if method = MysqlClearPassword then AuthServerReadPacketString
      else if method = MysqlDialog then AuthServerReadPacketString
      else failC (E_text ''unrecognized method''))"

definition Negotiate :: "AuthServerStatic \<Rightarrow> bytes \<Rightarrow> bool \<Rightarrow> bytes conn_op" where
  "Negotiate a user unix =
     bindC (AuthServerNegotiateClearOrDialog (a_Method a)) (\<lambda>password.
       case a_Entries a user of
         None \<Rightarrow> failC accessDenied
       | Some entries \<Rightarrow>
           (case find (\<lambda>entry. matchSourceHost unix (e_SourceHost entry) \<and> e_Password entry = password) entries of
              None \<Rightarrow> failC accessDenied
            | Some entry \<Rightarrow> okC (e_UserData entry)))"

definition authServerDialogSwitchData :: bytes where
  "authServerDialogSwitchData = 0x04 # bytes_of ''Enter password: '' @ [0]"

section \<open>Lemmas\<close>

lemma length_xor_bytes [simp]: "length (xor_bytes xs ys) = min (length xs) (length ys)"
  by (simp add: xor_bytes_def)

lemma xor_bytes_cancel: "length ys \<le> length xs \<Longrightarrow> xor_bytes xs (xor_bytes xs ys) = ys"
proof (induction xs ys rule: list_induct2')
  case (4 x xs y ys)
  then show ?case by (simp add: xor_bytes_def xor.assoc [symmetric])
qed (simp_all add: xor_bytes_def)

lemma length_scramble: "length (scramblePassword salt pw) = (if pw = [] then 0 else 20)"
  by (simp add: scramblePassword_def Let_def)

text \<open>The stored form of a password: a star and the hexadecimal digits of its double hash.\<close>

definition hex_char :: "byte \<Rightarrow> byte" where
  "hex_char n = (if n < 10 then 48 + n else 55 + n)"

definition hex_upper :: "bytes \<Rightarrow> bytes" where
  "hex_upper bs = concat (map (\<lambda>b. [hex_char (drop_bit 4 b), hex_char (b AND 15)]) bs)"

definition native_form :: "bytes \<Rightarrow> bytes" where
  "native_form pw = 42 # hex_upper (sha1 (sha1 pw))"

lemma unat_add_small: "unat (a :: byte) + unat b < 256 \<Longrightarrow> unat (a + b) = unat a + unat b"
  by (simp add: unat_word_ariths)

lemma hex_digit_char: "n < 16 \<Longrightarrow> hex_digit (hex_char n) = Some n"
proof -
  assume n: "n < 16"
  then have u: "unat n < 16" by (simp add: word_less_nat_alt)
  show ?thesis
  proof (cases "n < 10")
    case True
    then have "unat (48 + n) = 48 + unat n" "unat n < 10"
      using u by (subst unat_add_small, simp_all add: word_less_nat_alt)
    then show ?thesis using True by (simp add: hex_digit_def hex_char_def word_le_nat_alt)
  next
    case False
    then have "unat (55 + n) = 55 + unat n" "10 \<le> unat n"
      using u by (subst unat_add_small, simp_all add: word_less_nat_alt)
    then show ?thesis using False u by (simp add: hex_digit_def hex_char_def word_le_nat_alt)
  qed
qed

lemma low_nibble: "b AND 15 = take_bit 4 (b :: byte)"
  by (simp add: take_bit_eq_mask mask_eq_exp_minus_1)

lemma nibbles: "push_bit 4 (drop_bit 4 b) OR (b AND 15) = (b :: byte)"
  unfolding low_nibble by (rule bit_word_eqI) (auto simp: bit_simps)

lemma nibble_less: "drop_bit 4 b < 16" "b AND 15 < (16 :: byte)"
  using unat_byte_less [of b] take_bit_nat_less_exp [of 4 "unat b"]
  by (simp_all add: low_nibble word_less_nat_alt unat_shift unsigned_take_bit_eq)

lemma hex_decode_upper: "hex_DecodeString (hex_upper bs) = Some bs"
proof (induction bs)
  case (Cons b bs)
  then show ?case by (simp add: hex_upper_def hex_digit_char nibbles nibble_less)
qed (simp add: hex_upper_def)

lemma isPass_native:
  assumes "pw \<noteq> []"
  shows "isPassScrambleMysqlNativePassword (scramblePassword salt pw) salt (native_form pw) = Ok True"
proof -
  have "scramblePassword salt pw \<noteq> []" using length_scramble [of salt pw] assms by auto
  moreover have "xor_bytes (sha1 (salt @ sha1 (sha1 pw))) (scramblePassword salt pw) = sha1 pw"
    using assms by (simp add: scramblePassword_def Let_def xor_bytes_cancel)
  ultimately show ?thesis
    using assms by (simp add: isPassScrambleMysqlNativePassword_def native_form_def hex_decode_upper Let_def length_scramble)
qed

lemma isPass_no_panic:
  "reply = [] \<or> length reply = 20 \<Longrightarrow> \<exists>b. isPassScrambleMysqlNativePassword reply salt native = Ok b"
  by (auto simp: isPassScrambleMysqlNativePassword_def Let_def split: option.split)

lemma validateEntries_accepts:
  assumes "reply = [] \<or> length reply = 20" "entry \<in> set entries" "matchSourceHost unix (e_SourceHost entry)"
    and "reply = scramblePassword salt (e_Password entry) \<or>
      e_MysqlNativePassword entry \<noteq> [] \<and> isPassScrambleMysqlNativePassword reply salt (e_MysqlNativePassword entry) = Ok True"
  shows "\<exists>ud. validateEntries salt reply unix entries = Ok ud"
  using assms(2)
proof (induction entries)
  case (Cons e es)
  obtain b where "(if e_MysqlNativePassword e \<noteq> [] then isPassScrambleMysqlNativePassword reply salt (e_MysqlNativePassword e)
      else Ok False) = Ok b"
    using isPass_no_panic [OF assms(1), of salt "e_MysqlNativePassword e"] by (cases "e_MysqlNativePassword e = []") auto
  then show ?case using Cons assms(3,4) by (cases "entry = e") auto
qed simp

lemma ValidateHash_accepts:
  assumes "a_Entries a user = Some entries" "entry \<in> set entries" "matchSourceHost unix (e_SourceHost entry)"
    and "e_Password entry = pw \<or> pw \<noteq> [] \<and> e_MysqlNativePassword entry = native_form pw"
  shows "\<exists>ud. ValidateHash a salt user (scramblePassword salt pw) unix = Ok ud"
proof -
  have "scramblePassword salt pw = [] \<or> length (scramblePassword salt pw) = 20" by (simp add: scramblePassword_def Let_def)
  then have "\<exists>ud. validateEntries salt (scramblePassword salt pw) unix entries = Ok ud"
    by (rule validateEntries_accepts [OF _ assms(2,3)]) (use assms(4) isPass_native [of pw salt] in \<open>auto simp: native_form_def\<close>)
  then show ?thesis by (simp add: ValidateHash_def assms(1))
qed

section \<open>Properties\<close>

text \<open>
  A client that knows the password is let in: its scrambled password is accepted for a user with an entry for that
  host that holds the password in clear text, or its double hash in MySQL's native form, whatever other entries the
  user has.\<close>

theorem password_accepted:
  assumes "a_Entries a user = Some entries" "entry \<in> set entries" "matchSourceHost unix (e_SourceHost entry)"
    and "e_Password entry = pw \<or> pw \<noteq> [] \<and> e_MysqlNativePassword entry = native_form pw"
  shows "\<exists>ud. ValidateHash a salt user (scramblePassword salt pw) unix = Ok ud"
  by (rule ValidateHash_accepts [OF assms])

definition sample_auth :: "bytes \<Rightarrow> bytes \<Rightarrow> AuthServerStatic" where
  "sample_auth native pw = NewAuthServerStatic\<lparr>a_Entries := [bytes_of ''u'' \<mapsto>
     [\<lparr>e_MysqlNativePassword = native, e_Password = pw, e_UserData = bytes_of ''data'', e_SourceHost = []\<rparr>]]\<rparr>"

theorem password_accepted_witness:
  "\<exists>ud. ValidateHash (sample_auth (native_form [112, 119]) []) [1, 2, 3] (bytes_of ''u'') (scramblePassword [1, 2, 3] [112, 119]) False = Ok ud"
  by (rule password_accepted) (auto simp: sample_auth_def matchSourceHost_def NewAuthServerStatic_def)

text \<open>
  An entry that holds only the native form of a password, and no password in clear text, lets in a client that sends
  no password at all.\<close>

theorem native_entry_admits_empty_password:
  assumes "a_Entries a user = Some (entry # entries)" "matchSourceHost unix (e_SourceHost entry)" "e_Password entry = []"
  shows "ValidateHash a salt user [] unix = Ok (e_UserData entry)"
  using assms by (simp add: ValidateHash_def isPassScrambleMysqlNativePassword_def scramblePassword_def)

theorem native_entry_admits_empty_password_witness:
  "ValidateHash (sample_auth (native_form [112, 119]) []) [1, 2, 3] (bytes_of ''u'') [] False = Ok (bytes_of ''data'')"
  by (subst native_entry_admits_empty_password) (auto simp: sample_auth_def matchSourceHost_def NewAuthServerStatic_def)

text \<open>
  A non-empty auth response shorter than 20 bytes makes the check of a native password panic.\<close>

theorem short_reply_panics:
  assumes "reply \<noteq> []" "length reply < 20"
  shows "isPassScrambleMysqlNativePassword reply salt (native_form pw) = Panic"
  using assms by (simp add: isPassScrambleMysqlNativePassword_def native_form_def hex_decode_upper Let_def)

theorem short_reply_panics_witness: "isPassScrambleMysqlNativePassword [1] [2] (native_form [3]) = Panic"
  by (rule short_reply_panics) simp_all

end
