(* ===== verification/Mysql_Result.thy ===== *)
theory Mysql_Result
  imports Mysql_Query
begin

text \<open>
  What the packets of the query protocol carry: for each writer of \<open>Mysql_Query\<close> the bytes it sends (\<open>sends\<close>), for
  each parser what it makes of them (\<open>receives\<close>), and the composition of both for a whole query result.
\<close>

section \<open>Reading the fields of a packet one after the other\<close>

text \<open>\<open>off bss i\<close> is the position of the \<open>i\<close>-th field of the packet \<open>concat bss\<close>.\<close>

definition off :: "bytes list \<Rightarrow> nat \<Rightarrow> int" where
  "off bss i = int (length (concat (take i bss)))"

lemma off_0 [simp]: "off bss 0 = 0"
  by (simp add: off_def)

lemma off_Suc: "i < length bss \<Longrightarrow> off bss (Suc i) = off bss i + int (length (bss ! i))"
  by (simp add: off_def take_Suc_conv_app_nth)

lemma off_length: "off bss (length bss) = int (length (concat bss))"
  by (simp add: off_def)

lemma concat_at:
  "i < length bss \<Longrightarrow> concat bss = concat (take i bss) @ bss ! i @ concat (drop (Suc i) bss)"
  by (metis append_take_drop_id concat.simps(2) concat_append Cons_nth_drop_Suc)

lemma read_off:
  assumes "gets r (bss ! i) v" "i < length bss" "int (length (concat bss)) < 2 ^ 63"
  shows "r (concat bss) (off bss i) = Ok (v, off bss (Suc i))"
proof -
  have "r (concat bss) (off bss i) = Ok (v, int (length (concat (take i bss) @ bss ! i)))"
    by (rule getsD [OF assms(1) concat_at [OF assms(2)] assms(3)]) (simp add: off_def)
  then show ?thesis using assms(2) by (simp add: off_Suc) (simp add: off_def)
qed

lemma read_off_to: "gets r (bss ! i) v \<Longrightarrow> i < length bss \<Longrightarrow> int (length (concat bss)) < 2 ^ 63 \<Longrightarrow> j = Suc i \<Longrightarrow>
    r (concat bss) (off bss i) = Ok (v, off bss j)"
  by (simp add: read_off)

lemma skip_off:
  assumes "bss ! i = lenEncString_bytes s" "i < length bss" "int (length (concat bss)) < 2 ^ 63"
  shows "skipLenEncString (concat bss) (off bss i) = Ok (off bss (Suc i))"
proof -
  have "skipLenEncString (concat bss) (off bss i) = Ok (int (length (concat (take i bss) @ lenEncString_bytes s)))"
    by (rule skipLenEncString_field [OF _ assms(3)]) (use concat_at [OF assms(2)] assms(1) in \<open>simp_all add: off_def\<close>)
  then show ?thesis using assms(1,2) by (simp add: off_Suc) (simp add: off_def)
qed

lemma off_skip_byte:
  assumes "length (bss ! i) = 1" "i < length bss" "int (length (concat bss)) < 2 ^ 63"
  shows "wrap64 (off bss i + 1) = off bss (Suc i)"
proof -
  have "off bss (Suc i) = off bss i + 1" using assms(1,2) by (simp add: off_Suc)
  moreover have "off bss (Suc i) \<le> int (length (concat bss))"
    using concat_at [OF assms(2)] assms(2) unfolding off_Suc [OF assms(2)] by (simp add: off_def)
  moreover have "0 \<le> off bss i" by (simp add: off_def)
  ultimately show ?thesis using assms(3) by (simp add: wrap64_small)
qed

section \<open>OK, error and EOF packets\<close>

lemma lenEncIntSize_le: "lenEncIntSize i \<le> 9"
  by (simp add: lenEncIntSize_def)

lemma two63: "(n :: int) \<le> 100 \<Longrightarrow> n < 2 ^ 63"
  by simp

definition ok_fields :: "byte \<Rightarrow> u64 \<Rightarrow> u64 \<Rightarrow> u16 \<Rightarrow> u16 \<Rightarrow> bytes list" where
  "ok_fields h affectedRows lastInsertID flags warnings =
     [[h], lenEncInt_bytes affectedRows, lenEncInt_bytes lastInsertID, le16 flags, le16 warnings]"

definition eof_fields :: "u16 \<Rightarrow> u16 \<Rightarrow> bytes list" where
  "eof_fields flags warnings = [[EOFPacket], le16 warnings, le16 flags]"

lemma length_ok_fields:
  "int (length (concat (ok_fields h a l f w))) = 1 + lenEncIntSize a + lenEncIntSize l + 2 + 2"
  by (simp add: ok_fields_def length_lenEncInt_bytes)

lemma ok_fields_small: "1 + lenEncIntSize a + lenEncIntSize l + 2 + 2 < 2 ^ 63"
  by (rule two63) (use lenEncIntSize_le [of a] lenEncIntSize_le [of l] in linarith)

lemma sends_writeOKPacket [sends_intros]:
  "sends P True (writeOKPacket a l f w) [concat (ok_fields OKPacket a l f w)]"
  unfolding writeOKPacket_def
  by (rule sends_fill [OF _ length_ok_fields ok_fields_small]) (simp_all add: ok_fields_def puts_intros)

lemma sends_flush:
  assumes "sends P False m ps" "P (others c)" "ready c"
  shows "\<exists>c'. bindC m (\<lambda>_. flush) c = (c', Ok ()) \<and> sent True ps c c'"
proof -
  obtain c1 where 1: "m c = (c1, Ok ())" "sent False ps c c1" using assms by (auto simp: sends_def)
  then have "up c1" by (simp add: sent_def ready_def)
  with 1 show ?thesis
    by (simp add: flush_up sent_def) (auto simp: wire_def ready_def up_def others_def)
qed

lemma sends_eof_header:
  "sends P False (bindC (startEphemeralPacket (nat (1 + lenEncIntSize a + lenEncIntSize l + 2 + 2))) (\<lambda>data.
     bindC (fill [\<lambda>d p. writeByte d p EOFPacket, \<lambda>d p. writeLenEncInt d p a,
             \<lambda>d p. writeLenEncInt d p l, \<lambda>d p. writeUint16 d p f, \<lambda>d p. writeUint16 d p w] data)
       (\<lambda>pos. writeEphemeralPacket False))) [concat (ok_fields EOFPacket a l f w)]"
  by (rule sends_fill [OF _ length_ok_fields ok_fields_small]) (simp_all add: ok_fields_def puts_intros)

lemma sends_writeEOFPacket [sends_intros]: "sends P False (writeEOFPacket f w) [concat (eof_fields f w)]"
  unfolding writeEOFPacket_def by (rule sends_fill) (simp_all add: eof_fields_def puts_intros)

lemma parseOKPacket_fields: "parseOKPacket (concat (ok_fields h a l f w)) = Ok (a, l, f, w)"
proof -
  let ?b = "ok_fields h a l f w"
  have small: "int (length (concat ?b)) < 2 ^ 63" unfolding length_ok_fields by (rule ok_fields_small)
  have one: "off ?b (Suc 0) = 1" by (simp add: off_def ok_fields_def)
  have "readLenEncInt (concat ?b) (off ?b (Suc 0)) = Ok (a, off ?b (Suc (Suc 0)))"
    "readLenEncInt (concat ?b) (off ?b (Suc (Suc 0))) = Ok (l, off ?b (Suc (Suc (Suc 0))))"
    "readUint16 (concat ?b) (off ?b (Suc (Suc (Suc 0)))) = Ok (f, off ?b (Suc (Suc (Suc (Suc 0)))))"
    "readUint16 (concat ?b) (off ?b (Suc (Suc (Suc (Suc 0))))) = Ok (w, off ?b (Suc (Suc (Suc (Suc (Suc 0))))))"
    by (rule read_off [OF _ _ small]; simp add: ok_fields_def gets_intros)+
  then show ?thesis by (simp add: parseOKPacket_def one)
qed

definition error_fields :: "u16 \<Rightarrow> bytes \<Rightarrow> bytes \<Rightarrow> bytes list" where
  "error_fields code state msg = [[ErrPacket], le16 code, [35], state, msg]"

lemma sends_writeErrorPacket [sends_intros]:
  assumes "length state = 5" "int (length msg) + 9 < 2 ^ 63"
  shows "sends P True (writeErrorPacket code state msg) [concat (error_fields code state msg)]"
proof -
  have ne: "state \<noteq> []" using assms(1) by auto
  let ?n = "1 + 2 + 1 + 5 + int (length msg)"
  have "sends P True (bindC (startEphemeralPacket (nat ?n)) (\<lambda>data. bindC (fill [\<lambda>d p. writeByte d p ErrPacket,
      \<lambda>d p. writeUint16 d p code, \<lambda>d p. writeByte d p 35, \<lambda>d p. writeEOFString d p state, \<lambda>d p. writeEOFString d p msg] data)
      (\<lambda>pos. writeEphemeralPacket True))) [concat (error_fields code state msg)]"
    by (rule sends_fill) (use assms in \<open>simp_all add: error_fields_def puts_intros\<close>)
  then show ?thesis using assms(1) ne by (simp add: writeErrorPacket_def Let_def)
qed

lemma ParseErrorPacket_fields:
  assumes "length state = 5" "int (length msg) + 9 < 2 ^ 63"
  shows "ParseErrorPacket (concat (error_fields code state msg)) = Err (SQLError (uint code) state (Raw msg))"
proof -
  let ?b = "error_fields code state msg"
  have small: "int (length (concat ?b)) < 2 ^ 63" using assms by (simp add: error_fields_def)
  have one: "off ?b (Suc 0) = 1" by (simp add: off_def error_fields_def)
  have "readUint16 (concat ?b) (off ?b (Suc 0)) = Ok (code, off ?b (Suc (Suc 0)))"
    by (rule read_off [OF _ _ small]; simp add: error_fields_def gets_intros)
  moreover have "wrap64 (off ?b (Suc (Suc 0)) + 1) = off ?b (Suc (Suc (Suc 0)))"
    by (rule off_skip_byte [OF _ _ small]; simp add: error_fields_def)
  moreover have "readBytes (concat ?b) (off ?b (Suc (Suc (Suc 0)))) 5 = Ok (state, off ?b (Suc (Suc (Suc (Suc 0)))))"
    using read_off [where r = "\<lambda>d p. readBytes d p 5", OF gets_readBytes _ small] assms(1)
    by (simp add: error_fields_def)
  moreover have "go_slice (concat ?b) (off ?b (Suc (Suc (Suc (Suc 0))))) (int (length (concat ?b))) = Ok msg"
    using go_slice_mid [of "concat (butlast ?b)" msg "[]"] by (simp add: off_def error_fields_def)
  moreover have "state \<noteq> []" using assms(1) by auto
  ultimately show ?thesis by (simp add: ParseErrorPacket_def one NewSQLError_def)
qed

section \<open>Columns\<close>

definition column_type :: "querypb_Field \<Rightarrow> byte" where
  "column_type field = of_int (fst (TypeToMySQL (f_Type field)))"

definition column_flags :: "querypb_Field \<Rightarrow> u16" where
  "column_flags field = (if f_Flags field \<noteq> 0 then ucast (f_Flags field) else of_int (snd (TypeToMySQL (f_Type field))))"

definition column_fields :: "querypb_Field \<Rightarrow> bytes list" where
  "column_fields field =
     [lenEncString_bytes (bytes_of ''def''), lenEncString_bytes (f_Database field), lenEncString_bytes (f_Table field),
      lenEncString_bytes (f_OrgTable field), lenEncString_bytes (f_Name field), lenEncString_bytes (f_OrgName field),
      [0x0c], le16 (ucast (f_Charset field)), le32 (f_ColumnLength field), [column_type field],
      le16 (column_flags field), [ucast (f_Decimals field)], le16 0]"

text \<open>The field the other side gets: character set and decimals are cut to the width they have on the wire, the
  flags come only with a column length or a character set, and the type follows from the wire type and flags.\<close>

definition received_field :: "querypb_Field \<Rightarrow> querypb_Field" where
  "received_field field =
     (let charset = ucast (ucast (f_Charset field) :: u16) in
      field\<lparr>f_Charset := charset, f_Decimals := ucast (ucast (f_Decimals field) :: byte),
        f_Type := the (MySQLToType (uint (column_type field)) (uint (column_flags field))),
        f_Flags := (if f_ColumnLength field \<noteq> 0 \<or> charset \<noteq> 0
          then (if IsNum (column_type field) then ucast (column_flags field) OR MySqlFlag_NUM_FLAG
                else ucast (column_flags field)) else 0)\<rparr>)"

definition column_ok :: "querypb_Field \<Rightarrow> bool" where
  "column_ok field \<longleftrightarrow> typeToMySQL (f_Type field) \<noteq> None \<and> int (length (concat (column_fields field))) < 2 ^ 63"

lemma def_size: "lenEncStringSize (bytes_of ''def'') = 4"
  by (simp add: bytes_of_def lenEncStringSize_def lenEncIntSize_def)

lemma of_int_uint: "of_int (uint (v :: u32)) = (ucast v :: u16)"
  by (simp add: unsigned_ucast_eq flip: ucast_eq)

lemma sends_writeColumnDefinition [sends_intros]:
  assumes "int (length (concat (column_fields field))) < 2 ^ 63"
  shows "sends P False (writeColumnDefinition field) [concat (column_fields field)]"
proof -
  obtain ty flags where t: "TypeToMySQL (f_Type field) = (ty, flags)" by (cases "TypeToMySQL (f_Type field)")
  let ?n = "4 + lenEncStringSize (f_Database field) + lenEncStringSize (f_Table field) +
            lenEncStringSize (f_OrgTable field) + lenEncStringSize (f_Name field) + lenEncStringSize (f_OrgName field) +
            1 + 2 + 4 + 1 + 2 + 1 + 2"
  have len: "int (length (concat (column_fields field))) = ?n"
    by (simp add: column_fields_def length_lenEncString_bytes def_size)
  have fl: "(of_int (if f_Flags field \<noteq> 0 then uint (f_Flags field) else flags) :: u16) = column_flags field"
    by (simp add: column_flags_def t of_int_uint)
  have ct: "of_int ty = column_type field" by (simp add: column_type_def t)
  show ?thesis
    unfolding writeColumnDefinition_def t Let_def prod.case fl ct
    by (rule sends_fill [OF _ len]) (use assms len in \<open>simp_all add: column_fields_def puts_intros\<close>)
qed

lemma MySQLToType_column:
  assumes "column_ok field"
  obtains t where "MySQLToType (uint (column_type field)) (uint (column_flags field)) = Some t"
proof -
  obtain k fl where k: "typeToMySQL (f_Type field) = Some (k, fl)" using assms by (auto simp: column_ok_def)
  then have r: "TypeToMySQL (f_Type field) = (k, fl)" "MySQLToType k fl = Some (f_Type field)" "0 \<le> k" "k < 256"
    using type_table [OF k] by auto
  then have "uint (column_type field) = k"
    by (simp add: column_type_def unsigned_of_int take_bit_int_eq_self)
  with r(2) that show thesis by (auto simp: MySQLToType_def)
qed

text \<open>The positions in a column definition, as both parsers find them.\<close>

lemma column_reads:
  assumes "int (length (concat (column_fields field))) < 2 ^ 63"
  defines "b \<equiv> column_fields field"
  shows "readLenEncString (concat b) (off b 1) = Ok (f_Database field, off b 2)"
    and "readLenEncString (concat b) (off b 2) = Ok (f_Table field, off b 3)"
    and "readLenEncString (concat b) (off b 3) = Ok (f_OrgTable field, off b 4)"
    and "readLenEncString (concat b) (off b 4) = Ok (f_Name field, off b 5)"
    and "readLenEncString (concat b) (off b 5) = Ok (f_OrgName field, off b 6)"
    and "wrap64 (off b 6 + 1) = off b 7"
    and "readUint16 (concat b) (off b 7) = Ok (ucast (f_Charset field), off b 8)"
    and "readUint32 (concat b) (off b 8) = Ok (f_ColumnLength field, off b 9)"
    and "readByte (concat b) (off b 9) = Ok (column_type field, off b 10)"
    and "readUint16 (concat b) (off b 10) = Ok (column_flags field, off b 11)"
    and "readByte (concat b) (off b 11) = Ok (ucast (f_Decimals field), off b 12)"
proof -
  have small: "int (length (concat b)) < 2 ^ 63" using assms by simp
  have len: "length b = 13" by (simp add: b_def column_fields_def)
  have at: "b ! 1 = lenEncString_bytes (f_Database field)" "b ! 2 = lenEncString_bytes (f_Table field)"
    "b ! 3 = lenEncString_bytes (f_OrgTable field)" "b ! 4 = lenEncString_bytes (f_Name field)"
    "b ! 5 = lenEncString_bytes (f_OrgName field)" "b ! 6 = [0x0c]" "b ! 7 = le16 (ucast (f_Charset field))"
    "b ! 8 = le32 (f_ColumnLength field)" "b ! 9 = [column_type field]" "b ! 10 = le16 (column_flags field)"
    "b ! 11 = [ucast (f_Decimals field)]"
    by (simp_all add: b_def column_fields_def)
  note to = read_off_to [OF _ _ small]
  show "readLenEncString (concat b) (off b 1) = Ok (f_Database field, off b 2)"
    "readLenEncString (concat b) (off b 2) = Ok (f_Table field, off b 3)"
    "readLenEncString (concat b) (off b 3) = Ok (f_OrgTable field, off b 4)"
    "readLenEncString (concat b) (off b 4) = Ok (f_Name field, off b 5)"
    "readLenEncString (concat b) (off b 5) = Ok (f_OrgName field, off b 6)"
    by (rule to; simp only: at gets_intros len; simp)+
  have "wrap64 (off b 6 + 1) = off b (Suc 6)" by (rule off_skip_byte [OF _ _ small]) (simp_all add: at len)
  then show "wrap64 (off b 6 + 1) = off b 7" by simp
  show "readUint16 (concat b) (off b 7) = Ok (ucast (f_Charset field), off b 8)"
    "readUint32 (concat b) (off b 8) = Ok (f_ColumnLength field, off b 9)"
    "readByte (concat b) (off b 9) = Ok (column_type field, off b 10)"
    "readUint16 (concat b) (off b 10) = Ok (column_flags field, off b 11)"
    "readByte (concat b) (off b 11) = Ok (ucast (f_Decimals field), off b 12)"
    by (rule to; simp only: at gets_intros len; simp)+
qed

lemma column_skips:
  assumes "int (length (concat (column_fields field))) < 2 ^ 63"
  defines "b \<equiv> column_fields field"
  shows "skipLenEncString (concat b) 0 = Ok (off b 1)"
    and "skipLenEncString (concat b) (off b 1) = Ok (off b 2)"
    and "skipLenEncString (concat b) (off b 2) = Ok (off b 3)"
    and "skipLenEncString (concat b) (off b 3) = Ok (off b 4)"
    and "skipLenEncString (concat b) (off b 4) = Ok (off b 5)"
    and "skipLenEncString (concat b) (off b 5) = Ok (off b 6)"
proof -
  have small: "int (length (concat b)) < 2 ^ 63" using assms by simp
  have to: "skipLenEncString (concat b) (off b i) = Ok (off b j)" if "i \<le> 5" "j = Suc i" for i j
  proof -
    have "i = 0 \<or> i = 1 \<or> i = 2 \<or> i = 3 \<or> i = 4 \<or> i = 5" using that by linarith
    then have "\<exists>s. b ! i = lenEncString_bytes s" "i < length b"
      using that by (auto simp: b_def column_fields_def)
    then show ?thesis using skip_off [OF _ _ small] that(2) by blast
  qed
  show "skipLenEncString (concat b) 0 = Ok (off b 1)" using to [of 0 1] by simp
  show "skipLenEncString (concat b) (off b 1) = Ok (off b 2)"
    "skipLenEncString (concat b) (off b 2) = Ok (off b 3)" "skipLenEncString (concat b) (off b 3) = Ok (off b 4)"
    "skipLenEncString (concat b) (off b 4) = Ok (off b 5)" "skipLenEncString (concat b) (off b 5) = Ok (off b 6)"
    by (rule to; simp)+
qed

lemma parseColumnDefinition_fields:
  assumes "column_ok field"
  shows "parseColumnDefinition zero_Field (concat (column_fields field)) = Ok (received_field field)"
proof -
  obtain t where t: "MySQLToType (uint (column_type field)) (uint (column_flags field)) = Some t"
    by (rule MySQLToType_column [OF assms])
  have small: "int (length (concat (column_fields field))) < 2 ^ 63" using assms by (simp add: column_ok_def)
  show ?thesis
    unfolding parseColumnDefinition_def received_field_def Let_def
    by (simp add: column_reads [OF small] column_skips(1) [OF small] t zero_Field_def del: One_nat_def)
qed

lemma parseColumnDefinitionType_fields:
  assumes "column_ok field"
  shows "parseColumnDefinitionType zero_Field (concat (column_fields field)) =
    Ok (zero_Field\<lparr>f_Type := f_Type (received_field field)\<rparr>)"
proof -
  obtain t where t: "MySQLToType (uint (column_type field)) (uint (column_flags field)) = Some t"
    by (rule MySQLToType_column [OF assms])
  have small: "int (length (concat (column_fields field))) < 2 ^ 63" using assms by (simp add: column_ok_def)
  show ?thesis
    unfolding parseColumnDefinitionType_def received_field_def Let_def
    by (simp add: column_reads [OF small] column_skips [OF small] t del: One_nat_def)
qed

section \<open>Rows\<close>

definition value_bytes :: "SqlValue \<Rightarrow> bytes" where
  "value_bytes v = (if IsNull v then [NullValue] else lenEncString_bytes (value_Raw v))"

definition row_bytes :: "SqlValue list \<Rightarrow> bytes" where
  "row_bytes row = concat (map value_bytes row)"

text \<open>A value comes back with the type of its column.\<close>

definition received_value :: "querypb_Field \<Rightarrow> SqlValue \<Rightarrow> SqlValue" where
  "received_value f v = (if IsNull v then NULL_value else MakeTrusted (f_Type f) (value_Raw v))"

definition received_row :: "querypb_Field list \<Rightarrow> SqlValue list \<Rightarrow> SqlValue list" where
  "received_row flds row = map2 received_value flds row"

lemma length_row_bytes: "int (length (row_bytes row)) = row_length row"
  by (induction row) (simp_all add: row_bytes_def row_length_def value_bytes_def length_lenEncString_bytes lenEncStringSize_def)

lemma sends_writeRow [sends_intros]:
  assumes "int (length (row_bytes row)) < 2 ^ 63"
  shows "sends P False (writeRow row) [row_bytes row]"
proof -
  define bss where "bss = concat (map (\<lambda>v. if IsNull v then [[NullValue]]
    else [lenEncInt_bytes (word_of_nat (length (value_Raw v))), value_Raw v]) row)"
  have c: "concat bss = row_bytes row"
    unfolding bss_def by (induction row) (simp_all add: row_bytes_def value_bytes_def lenEncString_bytes_def)
  have "list_all2 puts (row_writes row) bss"
    unfolding bss_def row_writes_def by (induction row) (simp_all add: puts_intros list_all2_append)
  then have "sends P False (writeRow row) [concat bss]"
    unfolding writeRow_def by (rule sends_fill) (use assms in \<open>simp_all add: c length_row_bytes\<close>)
  then show ?thesis by (simp add: c)
qed

text \<open>The first byte of an integer with its length is never the null marker nor the error header, and it is the EOF
  header only for an integer of eight bytes.\<close>

lemma lenEncInt_first:
  "lenEncInt_bytes i = b # bs \<Longrightarrow> b \<noteq> 0xfb \<and> b \<noteq> 0xff \<and> (b = 0xfe \<longrightarrow> 0x1000000 \<le> i) \<and> (b = 0 \<longrightarrow> i = 0)"
proof -
  assume l: "lenEncInt_bytes i = b # bs"
  show ?thesis
  proof (cases "i < 251")
    case True
    then have u: "unat (ucast i :: byte) = unat i" by (simp add: word_less_nat_alt unat_ucast_byte)
    have "unat i < 251" using True by (simp add: word_less_nat_alt)
    moreover have "b = ucast i" using l True by (simp add: lenEncInt_bytes_def)
    ultimately show ?thesis using u by (auto simp: unat_eq_zero [symmetric])
  next
    case False
    then show ?thesis using l by (auto simp: lenEncInt_bytes_def split: if_splits)
  qed
qed

lemma lenEncInt_Cons: "\<exists>b bs. lenEncInt_bytes i = b # bs"
  by (simp add: lenEncInt_bytes_def)

lemma value_bytes_first:
  obtains b bs where "value_bytes v = b # bs" "b \<noteq> 0xff" "b = 0xfb \<longleftrightarrow> IsNull v" "b = 0xfe \<longrightarrow> 9 \<le> length (value_bytes v)"
proof (cases "IsNull v")
  case True
  then show thesis using that [of "0xfb" "[]"] by (simp add: value_bytes_def NullValue_def)
next
  case False
  let ?i = "word_of_nat (length (value_Raw v)) :: u64"
  obtain b bs where b: "lenEncInt_bytes ?i = b # bs" using lenEncInt_Cons by blast
  have "9 \<le> length (value_bytes v)" if "b = 0xfe"
  proof -
    have "0x1000000 \<le> ?i" using lenEncInt_first [OF b] that by blast
    then have "\<not> ?i < 251" "\<not> ?i < 0x10000" "\<not> ?i < 0x1000000" by (auto simp: word_less_nat_alt word_le_nat_alt)
    then have "length (lenEncInt_bytes ?i) = 9" by (simp add: lenEncInt_bytes_def)
    then show ?thesis using False by (simp add: value_bytes_def lenEncString_bytes_def)
  qed
  then show thesis using that [of b "bs @ value_Raw v"] lenEncInt_first [OF b] False b
    by (simp add: value_bytes_def lenEncString_bytes_def)
qed

lemma parseRowLoop_row:
  assumes "length flds = length row" "int (length (pre @ row_bytes row @ post)) < 2 ^ 63"
  shows "parseRowLoop (pre @ row_bytes row @ post) (int (length pre)) flds = Ok (received_row flds row)"
  using assms
proof (induction flds row arbitrary: pre rule: list_induct2)
  case (Cons f fs v vs)
  let ?data = "pre @ value_bytes v @ row_bytes vs @ post"
  have data: "row_bytes (v # vs) = value_bytes v @ row_bytes vs" by (simp add: row_bytes_def)
  have small: "int (length ?data) < 2 ^ 63" using Cons.prems by (simp add: data)
  have ih: "parseRowLoop ?data (int (length (pre @ value_bytes v))) fs = Ok (received_row fs vs)"
    using Cons.IH [of "pre @ value_bytes v"] small by simp
  obtain b bs where b: "value_bytes v = b # bs" "b = 0xfb \<longleftrightarrow> IsNull v" by (rule value_bytes_first)
  have at: "at_pos ?data (int (length pre)) = Ok b" using at_pos_mid [of pre b] by (simp add: b)
  show ?case
  proof (cases "IsNull v")
    case True
    then have "value_bytes v = [0xfb]" by (simp add: value_bytes_def NullValue_def)
    moreover from this have "wrap64 (int (length pre) + 1) = int (length (pre @ value_bytes v))"
      using small by (simp add: wrap64_small)
    ultimately show ?thesis using True ih at b by (simp add: data received_row_def received_value_def)
  next
    case False
    then have v: "value_bytes v = lenEncString_bytes (value_Raw v)" by (simp add: value_bytes_def)
    have "b \<noteq> 0xfb" using b False by simp
    moreover have "readLenEncStringAsBytes ?data (int (length pre)) = Ok (value_Raw v, int (length (pre @ value_bytes v)))"
      using getsD [OF gets_readLenEncStringAsBytes [of "value_Raw v"], of ?data pre "row_bytes vs @ post"] small v by simp
    ultimately show ?thesis using False ih at by (simp add: data received_row_def received_value_def)
  qed
qed (simp add: received_row_def)

lemma row_packet_kind:
  assumes "row \<noteq> []"
  shows "isEOFPacket (row_bytes row) = Ok False" "isErrorPacket (row_bytes row) = Ok False"
proof -
  obtain v vs where row: "row = v # vs" using assms by (cases row) auto
  obtain b bs where b: "value_bytes v = b # bs" "b \<noteq> 0xff" "b = 0xfe \<longrightarrow> 9 \<le> length (value_bytes v)"
    by (rule value_bytes_first)
  have r: "row_bytes row = b # bs @ row_bytes vs" by (simp add: row row_bytes_def b)
  show "isEOFPacket (row_bytes row) = Ok False" using b by (auto simp: r EOFPacket_def)
  show "isErrorPacket (row_bytes row) = Ok False" using b by (simp add: r ErrPacket_def)
qed

section \<open>Sending a result\<close>

definition settings :: "u32 \<Rightarrow> u16 \<Rightarrow> Conn \<Rightarrow> bool" where
  "settings cap fl c \<longleftrightarrow> c_Capabilities c = cap \<and> c_StatusFlags c = fl"

lemma settings_others [simp]: "settings cap fl (others c) = settings cap fl c"
  by (simp add: settings_def others_def)

lemma sent_settings: "sent direct ps c c' \<Longrightarrow> settings cap fl c' = settings cap fl c"
  unfolding sent_def by (metis settings_others)

definition keepsEOF :: "u32 \<Rightarrow> bool" where
  "keepsEOF cap \<longleftrightarrow> cap AND CapabilityClientDeprecateEOF = 0"

definition eof_packets :: "u32 \<Rightarrow> u16 \<Rightarrow> bytes list" where
  "eof_packets cap fl = (if keepsEOF cap then [concat (eof_fields fl 0)] else [])"

definition end_packet :: "u32 \<Rightarrow> u16 \<Rightarrow> bytes" where
  "end_packet cap fl = (if keepsEOF cap then concat (eof_fields fl 0) else concat (ok_fields EOFPacket 0 0 fl 0))"

definition result_packets :: "u32 \<Rightarrow> u16 \<Rightarrow> Result \<Rightarrow> bytes list" where
  "result_packets cap fl r =
     [lenEncInt_bytes (word_of_nat (length (r_Fields r)))] @ map (\<lambda>f. concat (column_fields f)) (r_Fields r) @
     eof_packets cap fl @ map row_bytes (r_Rows r) @ [end_packet cap fl]"

lemma sends_okC: "sends P False (okC ()) []"
  by (auto simp: sends_def sent_def)

lemma sends_sendColumnCount [sends_intros]: "sends P False (sendColumnCount n) [lenEncInt_bytes n]"
proof -
  have "lenEncIntSize n < 2 ^ 63" by (rule two63) (use lenEncIntSize_le [of n] in linarith)
  then show ?thesis
    unfolding sendColumnCount_def
    using sends_fill [of "[\<lambda>d p. writeLenEncInt d p n]" "[lenEncInt_bytes n]" "lenEncIntSize n"
        "\<lambda>_ _. writeEphemeralPacket False" False P]
    by (simp add: puts_intros length_lenEncInt_bytes)
qed

lemma sends_writeColumns:
  "\<forall>f \<in> set fs. column_ok f \<Longrightarrow> sends P False (writeColumns fs) (map (\<lambda>f. concat (column_fields f)) fs)"
proof (induction fs)
  case (Cons f fs)
  have "sends P False (bindC (writeColumnDefinition f) (\<lambda>_. writeColumns fs))
      ([concat (column_fields f)] @ map (\<lambda>f. concat (column_fields f)) fs)"
    by (rule sends_bind) (use Cons in \<open>simp_all add: sends_writeColumnDefinition column_ok_def\<close>)
  then show ?case by simp
qed (simp add: sends_okC)

lemma sends_writeRowsLoop:
  "\<forall>row \<in> set rows. int (length (row_bytes row)) < 2 ^ 63 \<Longrightarrow> sends P False (writeRowsLoop rows) (map row_bytes rows)"
proof (induction rows)
  case (Cons row rows)
  have "sends P False (bindC (writeRow row) (\<lambda>_. writeRowsLoop rows)) ([row_bytes row] @ map row_bytes rows)"
    by (rule sends_bind) (use Cons in \<open>simp_all add: sends_writeRow\<close>)
  then show ?case by simp
qed (simp add: sends_okC)

lemma sends_fieldsEOF:
  "sends (settings cap fl) False (\<lambda>c. if c_Capabilities c AND CapabilityClientDeprecateEOF = 0
     then writeEOFPacket (c_StatusFlags c) 0 c else (c, Ok ())) (eof_packets cap fl)"
  using sends_writeEOFPacket [of "settings cap fl" fl 0] sends_okC [of "settings cap fl"]
  by (auto simp: sends_def settings_def eof_packets_def keepsEOF_def others_def)

lemma sends_writeFields:
  assumes "\<forall>f \<in> set (r_Fields r). column_ok f"
  shows "sends (settings cap fl) False (writeFields r)
    ([lenEncInt_bytes (word_of_nat (length (r_Fields r)))] @ map (\<lambda>f. concat (column_fields f)) (r_Fields r) @ eof_packets cap fl)"
  unfolding writeFields_def
  by (intro sends_bind sends_sendColumnCount sends_writeColumns [OF assms] sends_fieldsEOF)

lemma writeEndResult_sent:
  assumes "settings cap fl c" "ready c"
  shows "\<exists>c'. writeEndResult False c = (c', Ok ()) \<and> sent True [end_packet cap fl] c c'"
proof (cases "keepsEOF cap")
  case True
  have "writeEndResult False c = bindC (writeEOFPacket fl 0) (\<lambda>_. flush) c"
    using assms(1) True by (simp add: writeEndResult_def settings_def keepsEOF_def)
  then show ?thesis
    using sends_flush [OF sends_writeEOFPacket [of "\<lambda>_. True"], of c fl 0] assms(2) True by (simp add: end_packet_def)
next
  case False
  have "writeEndResult False c = writeOKPacketWithEOFHeader 0 0 fl 0 c"
    using assms(1) False by (simp add: writeEndResult_def settings_def keepsEOF_def)
  then show ?thesis
    using sends_flush [OF sends_eof_header [of "\<lambda>_. True"], of c 0 0 fl 0] assms(2) False
    by (simp add: end_packet_def writeOKPacketWithEOFHeader_def)
qed

lemma result_sent:
  assumes "settings cap fl c" "ready c" "\<forall>f \<in> set (r_Fields r). column_ok f"
    "\<forall>row \<in> set (r_Rows r). int (length (row_bytes row)) < 2 ^ 63"
  shows "\<exists>c'. bindC (writeFields r) (\<lambda>_. bindC (writeRows r) (\<lambda>_. writeEndResult False)) c = (c', Ok ()) \<and>
    sent True (result_packets cap fl r) c c'"
proof -
  obtain c1 where 1: "writeFields r c = (c1, Ok ())" "sent False ([lenEncInt_bytes (word_of_nat (length (r_Fields r)))] @
      map (\<lambda>f. concat (column_fields f)) (r_Fields r) @ eof_packets cap fl) c c1"
    using sends_writeFields [OF assms(3), of cap fl] assms(1,2) by (auto simp: sends_def)
  have s: "settings cap fl c1" "ready c1" using sent_settings [OF 1(2)] 1(2) assms(1) by (simp_all add: sent_def)
  obtain c2 where 2: "writeRows r c1 = (c2, Ok ())" "sent False (map row_bytes (r_Rows r)) c1 c2"
    using sends_writeRowsLoop [OF assms(4), of "settings cap fl"] s by (auto simp: sends_def writeRows_def)
  have s2: "settings cap fl c2" "ready c2" using sent_settings [OF 2(2)] 2(2) s(1) by (simp_all add: sent_def)
  obtain c3 where 3: "writeEndResult False c2 = (c3, Ok ())" "sent True [end_packet cap fl] c2 c3"
    using writeEndResult_sent [OF s2] by blast
  have "sent True (result_packets cap fl r) c c3"
    using 1(2) 2(2) 3(2) by (simp add: sent_def result_packets_def stream_append after_packets_append)
  with 1(1) 2(1) 3(1) show ?thesis by simp
qed

section \<open>Receiving a result\<close>

definition eof_mode :: "bool \<Rightarrow> Conn \<Rightarrow> bool" where
  "eof_mode e c \<longleftrightarrow> keepsEOF (c_Capabilities c) = e"

lemma eof_mode_others [simp]: "eof_mode e (others_in c) = eof_mode e c"
  by (simp add: eof_mode_def others_in_def)

lemma column_packet_ne: "concat (column_fields f) \<noteq> []"
  by (simp add: column_fields_def)

lemma receives_columnCount:
  assumes "0 < n" "int n < 2 ^ 63"
  shows "receives P readComQueryResponse [lenEncInt_bytes (word_of_nat n)] (0, 0, int n)"
  unfolding readComQueryResponse_def
proof (rule receives_readRecycled)
  let ?i = "word_of_nat n :: u64"
  let ?d = "lenEncInt_bytes ?i"
  obtain b bs where b: "?d = b # bs" using lenEncInt_Cons by blast
  have sz: "int (length ?d) < 2 ^ 63"
    unfolding length_lenEncInt_bytes by (rule two63) (use lenEncIntSize_le [of ?i] in linarith)
  have "?i \<noteq> 0" using assms by (simp add: word_unat_eq_iff unsigned_of_nat take_bit_nat_eq_self)
  then have k: "b \<noteq> OKPacket" "b \<noteq> ErrPacket" "b \<noteq> 0xfb"
    using lenEncInt_first [OF b] by (auto simp: OKPacket_def ErrPacket_def)
  have "readLenEncInt ?d 0 = Ok (?i, int (length ?d))"
    using getsD [OF gets_readLenEncInt [of ?i], of ?d "[]" "[]" 0] sz by simp
  moreover have "sint ?i = int n" using assms by (simp add: signed_of_nat signed_take_bit_int_eq_self)
  ultimately show "parseComQueryResponse ?d = Ok (0, 0, int n)"
    using k by (simp add: parseComQueryResponse_def b)
  show "?d \<noteq> []" by (simp add: b)
qed

lemma receives_readColumns:
  "\<forall>f \<in> set fs. column_ok f \<Longrightarrow>
    receives P (readColumns True (length fs)) (map (\<lambda>f. concat (column_fields f)) fs) (map received_field fs)"
proof (induction fs)
  case (Cons f fs)
  have "receives P (readColumnDefinition zero_Field) [concat (column_fields f)] (received_field f)"
    unfolding readColumnDefinition_def
    by (rule receives_readRecycled [OF column_packet_ne], rule parseColumnDefinition_fields) (use Cons.prems in simp)
  moreover have "receives P (bindC (readColumns True (length fs)) (\<lambda>fs. okC (received_field f # fs)))
      (map (\<lambda>f. concat (column_fields f)) fs @ []) (received_field f # map received_field fs)"
    by (rule receives_bind [OF Cons.IH receives_okC]) (use Cons.prems in simp)
  ultimately have "receives P (bindC (readColumnDefinition zero_Field)
      (\<lambda>f. bindC (readColumns True (length fs)) (\<lambda>fs. okC (f # fs))))
      ([concat (column_fields f)] @ map (\<lambda>f. concat (column_fields f)) fs @ []) (received_field f # map received_field fs)"
    by (rule receives_bind)
  then show ?case by simp
qed (simp add: receives_okC)

lemma isEOF_eof_fields: "isEOFPacket (concat (eof_fields f w)) = Ok True"
  by (simp add: eof_fields_def EOFPacket_def)

lemma isEOF_end_packet: "isEOFPacket (end_packet cap fl) = Ok True"
  by (simp add: end_packet_def isEOF_eof_fields ok_fields_def EOFPacket_def lenEncInt_bytes_def)

lemma receives_fieldsEOF: "receives (eof_mode (keepsEOF cap)) readFieldsEOF (eof_packets cap fl) ()"
  unfolding receives_def
proof (intro allI impI)
  fix c rest
  assume a: "eof_mode (keepsEOF cap) (others_in c)" "read_ready c" "c_input c = stream (c_sequence c) (eof_packets cap fl) @ rest"
  show "\<exists>c'. readFieldsEOF c = (c', Ok ()) \<and> received (eof_packets cap fl) rest c c'"
  proof (cases "keepsEOF cap")
    case True
    let ?d = "concat (eof_fields fl 0)"
    have ne: "?d \<noteq> []" by (simp add: eof_fields_def)
    have "c_input c = frames (c_sequence c) ?d @ rest" using a(3) True by (simp add: eof_packets_def)
    then obtain c1 c' where r: "readEphemeralPacket c = (c1, Ok ?d)" "recycleReadPacket c1 = (c', Ok ())" "received [?d] rest c c'"
      using readEphemeral_frames [OF a(2), of ?d rest] ne by blast
    moreover have "c_Capabilities c AND CapabilityClientDeprecateEOF = 0"
      using a(1) True by (simp add: eof_mode_def others_in_def keepsEOF_def)
    ultimately show ?thesis using True by (simp add: readFieldsEOF_def isEOF_eof_fields eof_packets_def)
  next
    case False
    then show ?thesis using a
      by (simp add: readFieldsEOF_def eof_mode_def others_in_def keepsEOF_def eof_packets_def received_def)
  qed
qed

definition row_ok :: "nat \<Rightarrow> SqlValue list \<Rightarrow> bool" where
  "row_ok n row \<longleftrightarrow> length row = n \<and> int (length (row_bytes row)) < 2 ^ 63"

lemma receives_readRows:
  assumes "flds \<noteq> []" "\<forall>row \<in> set rows. row_ok (length flds) row" "isEOFPacket last_packet = Ok True"
    "maxrows < 0 \<or> int (length acc + length rows) \<le> maxrows"
  shows "receives P (readRows maxrows flds acc) (map row_bytes rows @ [last_packet]) (acc @ map (received_row flds) rows)"
  using assms(2,4)
proof (induction rows arbitrary: acc)
  case Nil
  show ?case
    unfolding receives_def
  proof (intro allI impI)
    fix c rest
    assume a: "P (others_in c)" "read_ready c" "c_input c = stream (c_sequence c) (map row_bytes [] @ [last_packet]) @ rest"
    then obtain c' where "ReadPacket c = (c', Ok last_packet)" "received [last_packet] rest c c'"
      using receivesD [OF receives_ReadPacket [of P last_packet], of c rest] by auto
    then show "\<exists>c'. readRows maxrows flds acc c = (c', Ok (acc @ map (received_row flds) [])) \<and>
        received (map row_bytes [] @ [last_packet]) rest c c'"
      by (simp add: readRows.simps [of _ _ _ c] assms(3))
  qed
next
  case (Cons row rows)
  have ok: "length flds = length row" "int (length (row_bytes row)) < 2 ^ 63" "row \<noteq> []"
    using Cons.prems(1) assms(1) by (auto simp: row_ok_def)
  have p: "parseRow (row_bytes row) flds = Ok (received_row flds row)"
    using parseRowLoop_row [of flds row "[]" "[]"] ok by (simp add: parseRow_def)
  have n: "int (length acc) \<noteq> maxrows" using Cons.prems(2) by auto
  have ih: "receives P (readRows maxrows flds (acc @ [received_row flds row])) (map row_bytes rows @ [last_packet])
      ((acc @ [received_row flds row]) @ map (received_row flds) rows)"
    by (rule Cons.IH) (use Cons.prems in auto)
  have step: "readRows maxrows flds acc c = readRows maxrows flds (acc @ [received_row flds row]) c1"
    if "ReadPacket c = (c1, Ok (row_bytes row))" for c c1
    using that n by (simp add: readRows.simps [of _ _ _ c] row_packet_kind [OF ok(3)] p)
  have bind: "receives P (bindC ReadPacket (\<lambda>_. readRows maxrows flds (acc @ [received_row flds row])))
      ([row_bytes row] @ map row_bytes rows @ [last_packet]) ((acc @ [received_row flds row]) @ map (received_row flds) rows)"
    by (rule receives_bind [OF receives_ReadPacket ih])
  show ?case
    unfolding receives_def
  proof (intro allI impI)
    fix c rest
    assume a: "P (others_in c)" "read_ready c" "c_input c = stream (c_sequence c) (map row_bytes (row # rows) @ [last_packet]) @ rest"
    obtain c1 where one: "ReadPacket c = (c1, Ok (row_bytes row))"
      using receivesD [OF receives_ReadPacket [of P "row_bytes row"] a(1,2)] a(3) by auto
    from receivesD [OF bind a(1,2), of rest] a(3)
    show "\<exists>c'. readRows maxrows flds acc c = (c', Ok (acc @ map (received_row flds) (row # rows))) \<and>
        received (map row_bytes (row # rows) @ [last_packet]) rest c c'"
      using one step [OF one] by auto
  qed
qed

definition received_result :: "Result \<Rightarrow> Result" where
  "received_result r =
     (let flds = map received_field (r_Fields r) in
      \<lparr>r_Fields = flds, r_RowsAffected = word_of_nat (length (r_Rows r)), r_InsertID = 0,
       r_Rows = map (received_row flds) (r_Rows r)\<rparr>)"

definition result_ok :: "Result \<Rightarrow> bool" where
  "result_ok r \<longleftrightarrow> r_Fields r \<noteq> [] \<and> int (length (r_Fields r)) < 2 ^ 63 \<and> (\<forall>f \<in> set (r_Fields r). column_ok f) \<and>
     (\<forall>row \<in> set (r_Rows r). row_ok (length (r_Fields r)) row)"

lemma receives_ReadQueryResult:
  assumes "result_ok r" "maxrows < 0 \<or> int (length (r_Rows r)) \<le> maxrows"
  shows "receives (eof_mode (keepsEOF cap)) (ReadQueryResult maxrows True) (result_packets cap fl r) (received_result r)"
proof -
  let ?P = "eof_mode (keepsEOF cap)"
  let ?n = "length (r_Fields r)"
  let ?flds = "map received_field (r_Fields r)"
  let ?mk = "\<lambda>flds rows. okC \<lparr>r_Fields = (if True then flds else []), r_RowsAffected = word_of_nat (length rows),
             r_InsertID = 0, r_Rows = rows\<rparr>"
  let ?rows = "map (received_row ?flds) (r_Rows r)"
  have ne: "r_Fields r \<noteq> []" using assms(1) by (simp add: result_ok_def)
  have rows: "receives ?P (readRows maxrows ?flds []) (map row_bytes (r_Rows r) @ [end_packet cap fl]) ([] @ ?rows)"
    by (rule receives_readRows) (use assms isEOF_end_packet in \<open>auto simp: result_ok_def\<close>)
  have ok: "receives ?P (?mk ?flds ([] @ ?rows)) [] (received_result r)"
    by (simp add: received_result_def Let_def receives_okC [simplified okC_def] okC_def)
  have "receives ?P (bindC readFieldsEOF (\<lambda>_. bindC (readRows maxrows ?flds []) (?mk ?flds)))
      (eof_packets cap fl @ (map row_bytes (r_Rows r) @ [end_packet cap fl]) @ []) (received_result r)"
    by (rule receives_bind [OF receives_fieldsEOF], rule receives_bind [OF rows], rule ok)
  then have "receives ?P (bindC (readColumns True ?n) (\<lambda>flds. bindC readFieldsEOF (\<lambda>_. bindC (readRows maxrows flds []) (?mk flds))))
      (map (\<lambda>f. concat (column_fields f)) (r_Fields r) @ eof_packets cap fl @ (map row_bytes (r_Rows r) @ [end_packet cap fl]) @ [])
      (received_result r)"
    by (intro receives_bind [OF receives_readColumns]) (use assms in \<open>auto simp: result_ok_def\<close>)
  then have "receives ?P ((\<lambda>(affectedRows, lastInsertID, colNumber).
       if colNumber = 0 then okC \<lparr>r_Fields = [], r_RowsAffected = affectedRows, r_InsertID = lastInsertID, r_Rows = []\<rparr>
       else if colNumber < 0 then panicC
       else bindC (readColumns True (nat colNumber)) (\<lambda>flds. bindC readFieldsEOF (\<lambda>_. bindC (readRows maxrows flds []) (?mk flds))))
         (0, 0, int ?n))
      (map (\<lambda>f. concat (column_fields f)) (r_Fields r) @ eof_packets cap fl @ map row_bytes (r_Rows r) @ [end_packet cap fl])
      (received_result r)"
    using ne by simp
  then have "receives ?P (ReadQueryResult maxrows True) ([lenEncInt_bytes (word_of_nat ?n)] @
      map (\<lambda>f. concat (column_fields f)) (r_Fields r) @ eof_packets cap fl @ map row_bytes (r_Rows r) @ [end_packet cap fl])
      (received_result r)"
    unfolding ReadQueryResult_def
    by (intro receives_bind [OF receives_columnCount]) (use assms in \<open>auto simp: result_ok_def\<close>)
  then show ?thesis by (simp add: result_packets_def)
qed

section \<open>Properties\<close>

text \<open>
  C26: A result with at least one column that the server sends with \<open>writeFields\<close>, \<open>writeRows\<close> and \<open>writeEndResult\<close> is what
  the client's \<open>ReadQueryResult\<close> returns, packet by packet over the wire, with and without the deprecated EOF packets, when
  both sides agree on that and on the sequence number: the same columns up to what \<open>received_field\<close> loses, the same rows
  with nulls as nulls and values typed by their column, and nothing after the result is read.\<close>

theorem query_result_roundtrip:
  assumes "ready c" "result_ok r" "maxrows < 0 \<or> int (length (r_Rows r)) \<le> maxrows"
  shows "\<exists>c' w. bindC (writeFields r) (\<lambda>_. bindC (writeRows r) (\<lambda>_. writeEndResult False)) c = (c', Ok ()) \<and>
    c_output c' = wire c @ w \<and> c_wbuf c' = [] \<and>
    (\<forall>d rest. read_ready d \<longrightarrow> c_sequence d = c_sequence c \<longrightarrow>
       keepsEOF (c_Capabilities d) = keepsEOF (c_Capabilities c) \<longrightarrow> c_input d = w @ rest \<longrightarrow>
       (\<exists>d'. ReadQueryResult maxrows True d = (d', Ok (received_result r)) \<and> c_input d' = rest \<and>
         c_sequence d' = c_sequence c' \<and> read_ready d'))"
proof -
  let ?cap = "c_Capabilities c" and ?fl = "c_StatusFlags c"
  let ?ps = "result_packets ?cap ?fl r"
  obtain c' where 1: "bindC (writeFields r) (\<lambda>_. bindC (writeRows r) (\<lambda>_. writeEndResult False)) c = (c', Ok ())"
    "sent True ?ps c c'"
    using result_sent [of ?cap ?fl c r] assms(1,2) by (auto simp: settings_def result_ok_def row_ok_def)
  have "\<exists>d'. ReadQueryResult maxrows True d = (d', Ok (received_result r)) \<and> c_input d' = rest \<and>
      c_sequence d' = c_sequence c' \<and> read_ready d'"
    if "read_ready d" "c_sequence d = c_sequence c" "keepsEOF (c_Capabilities d) = keepsEOF ?cap"
      "c_input d = stream (c_sequence c) ?ps @ rest" for d rest
  proof -
    have "eof_mode (keepsEOF ?cap) (others_in d)" "c_input d = stream (c_sequence d) ?ps @ rest"
      using that by (simp_all add: eof_mode_def others_in_def)
    from receivesD [OF receives_ReadQueryResult [OF assms(2,3)] this(1) that(1) this(2)]
    obtain d' where "ReadQueryResult maxrows True d = (d', Ok (received_result r))" "received ?ps rest d d'" .
    then show ?thesis using that(2) 1(2) by (auto simp: received_def sent_def)
  qed
  then show ?thesis using 1 by (intro exI [of _ c'] exI [of _ "stream (c_sequence c) ?ps"]) (auto simp: sent_def wire_def)
qed

definition sample_field :: querypb_Field where
  "sample_field = zero_Field\<lparr>f_Name := bytes_of ''id'', f_Type := T_Int32\<rparr>"

definition sample_result :: Result where
  "sample_result = \<lparr>r_Fields = [sample_field], r_RowsAffected = 1, r_InsertID = 0,
     r_Rows = [[\<lparr>v_typ = T_Int32, v_val = bytes_of ''7''\<rparr>], [NULL_value]]\<rparr>"

lemma sample_result_ok: "result_ok sample_result"
  by (simp add: result_ok_def sample_result_def sample_field_def column_ok_def row_ok_def typeToMySQL_def
      column_fields_def lenEncString_bytes_def zero_Field_def bytes_of_def row_bytes_def value_bytes_def IsNull_def
      NULL_value_def value_Raw_def lenEncInt_bytes_def)

theorem query_result_roundtrip_witness:
  "\<exists>c' w. bindC (writeFields sample_result) (\<lambda>_. bindC (writeRows sample_result) (\<lambda>_. writeEndResult False))
      (newConn [] Net_EOF) = (c', Ok ()) \<and>
    c_output c' = wire (newConn [] Net_EOF) @ w \<and> c_wbuf c' = [] \<and>
    (\<forall>d rest. read_ready d \<longrightarrow> c_sequence d = c_sequence (newConn [] Net_EOF) \<longrightarrow>
       keepsEOF (c_Capabilities d) = keepsEOF (c_Capabilities (newConn [] Net_EOF)) \<longrightarrow> c_input d = w @ rest \<longrightarrow>
       (\<exists>d'. ReadQueryResult (- 1) True d = (d', Ok (received_result sample_result)) \<and> c_input d' = rest \<and>
         c_sequence d' = c_sequence c' \<and> read_ready d'))"
  by (rule query_result_roundtrip [OF newConn_ready sample_result_ok]) simp

text \<open>
  A column without flags, column length and character set arrives unchanged, if its type has a wire form and its
  decimals fit in a byte; with them the name fields still arrive unchanged.\<close>

theorem received_column:
  assumes "column_ok f"
  shows "f_Name (received_field f) = f_Name f \<and> f_Table (received_field f) = f_Table f \<and>
    f_OrgTable (received_field f) = f_OrgTable f \<and> f_Database (received_field f) = f_Database f \<and>
    f_OrgName (received_field f) = f_OrgName f \<and> f_ColumnLength (received_field f) = f_ColumnLength f"
    and "f_Flags f = 0 \<Longrightarrow> f_Type (received_field f) = f_Type f"
    and "f_Flags f = 0 \<Longrightarrow> f_ColumnLength f = 0 \<Longrightarrow> f_Charset f = 0 \<Longrightarrow> f_Decimals f < 256 \<Longrightarrow> received_field f = f"
proof -
  obtain k fl where k: "typeToMySQL (f_Type f) = Some (k, fl)" using assms by (auto simp: column_ok_def)
  note tab = type_table [OF k]
  show t: "f_Type (received_field f) = f_Type f" if "f_Flags f = 0"
    using tab that
    by (simp add: received_field_def Let_def column_type_def column_flags_def unsigned_of_int take_bit_int_eq_self)
  show "received_field f = f" if "f_Flags f = 0" "f_ColumnLength f = 0" "f_Charset f = 0" "f_Decimals f < 256"
  proof -
    have "take_bit 8 (f_Decimals f) = f_Decimals f"
      by (rule take_bit_small) (use that(4) in \<open>simp add: word_less_nat_alt\<close>)
    then show ?thesis using t [OF that(1)] that
      by (cases f) (simp add: received_field_def Let_def le_first)
  qed
qed (simp add: received_field_def Let_def)

theorem received_column_witness: "received_field sample_field = sample_field"
  by (rule received_column(3))
    (simp_all add: sample_field_def column_ok_def typeToMySQL_def column_fields_def lenEncString_bytes_def
      zero_Field_def bytes_of_def lenEncInt_bytes_def)

text \<open>
  OK and error packets carry their contents: what \<open>writeOKPacket\<close> or \<open>writeErrorPacket\<close> puts on the wire, read with
  \<open>readPacket\<close>, is parsed to the same numbers, or to the SQL error with the same code, state and message.\<close>

theorem ok_error_roundtrip:
  assumes "ready c" "c_wbuf c = []" "length state = 5" "int (length msg) + 9 < 2 ^ 63"
  shows "\<exists>c' w. writeOKPacket affectedRows lastInsertID flags warnings c = (c', Ok ()) \<and> wire c' = wire c @ w \<and>
      (\<forall>d rest. c_sequence d = c_sequence c \<longrightarrow> c_input d = w @ rest \<longrightarrow>
        (\<exists>d' p. readPacket d = (d', Ok p) \<and> parseOKPacket p = Ok (affectedRows, lastInsertID, flags, warnings)))"
    and "\<exists>c' w. writeErrorPacket code state msg c = (c', Ok ()) \<and> wire c' = wire c @ w \<and>
      (\<forall>d rest. c_sequence d = c_sequence c \<longrightarrow> c_input d = w @ rest \<longrightarrow>
        (\<exists>d' p. readPacket d = (d', Ok p) \<and>
          ParseErrorPacket p = (Err (SQLError (uint code) state (Raw msg)) :: (conn_error, unit) result)))"
proof -
  have send: "\<exists>c' w. m c = (c', Ok ()) \<and> wire c' = wire c @ w \<and> (\<forall>d rest. c_sequence d = c_sequence c \<longrightarrow>
      c_input d = w @ rest \<longrightarrow> (\<exists>d' p. readPacket d = (d', Ok p) \<and> Q p))"
    if s: "sends (\<lambda>_. True) True m [p]" and q: "Q p" for m p Q
  proof -
    obtain c' where "m c = (c', Ok ())" "wire c' = wire c @ frames (c_sequence c) p"
      using s assms(1,2) by (auto simp: sends_def sent_def)
    moreover have "readPacket d = (d\<lparr>c_input := rest, c_sequence := after_packet (c_sequence d) p\<rparr>, Ok p)"
      if "c_sequence d = c_sequence c" "c_input d = frames (c_sequence c) p @ rest" for d rest
      by (rule readPacket_frames) (use that in simp)
    ultimately show ?thesis using q by blast
  qed
  show "\<exists>c' w. writeOKPacket affectedRows lastInsertID flags warnings c = (c', Ok ()) \<and> wire c' = wire c @ w \<and>
      (\<forall>d rest. c_sequence d = c_sequence c \<longrightarrow> c_input d = w @ rest \<longrightarrow>
        (\<exists>d' p. readPacket d = (d', Ok p) \<and> parseOKPacket p = Ok (affectedRows, lastInsertID, flags, warnings)))"
    by (rule send [OF sends_writeOKPacket]) (rule parseOKPacket_fields)
  show "\<exists>c' w. writeErrorPacket code state msg c = (c', Ok ()) \<and> wire c' = wire c @ w \<and>
      (\<forall>d rest. c_sequence d = c_sequence c \<longrightarrow> c_input d = w @ rest \<longrightarrow>
        (\<exists>d' p. readPacket d = (d', Ok p) \<and>
          ParseErrorPacket p = (Err (SQLError (uint code) state (Raw msg)) :: (conn_error, unit) result)))"
    by (rule send [OF sends_writeErrorPacket [OF assms(3,4)]]) (rule ParseErrorPacket_fields [OF assms(3,4)])
qed

theorem ok_error_roundtrip_witness:
  "\<exists>c' w. writeErrorPacket 1105 SSUnknownSQLState [65] (newConn [] Net_EOF) = (c', Ok ()) \<and>
      wire c' = wire (newConn [] Net_EOF) @ w \<and>
      (\<forall>d rest. c_sequence d = c_sequence (newConn [] Net_EOF) \<longrightarrow> c_input d = w @ rest \<longrightarrow>
        (\<exists>d' p. readPacket d = (d', Ok p) \<and>
          ParseErrorPacket p = (Err (SQLError (uint (1105 :: u16)) SSUnknownSQLState (Raw [65])) :: (conn_error, unit) result)))"
  by (rule ok_error_roundtrip(2) [OF newConn_ready]) (simp_all add: newConn_def SSUnknownSQLState_def)

end
