(* ===== verification/Mysql_Handshake.thy ===== *)
theory Mysql_Handshake
  imports Mysql_Auth Mysql_Result
begin

text \<open>
  The handshake (\<^verbatim>\<open>server.go\<close>, \<^verbatim>\<open>client.go\<close>): the server's initial packet, the client's response, and both parsers.
  The parsers store what they learn in the connection as they go, so they are connection operations.  TLS only swaps
  the streams below the connection; here it is the flag \<open>CapabilityClientSSL\<close>.
\<close>

section \<open>Constants\<close>

definition protocolVersion :: byte where "protocolVersion = 10"
definition CharacterSetUtf8 :: byte where "CharacterSetUtf8 = 33"
definition AuthSwitchRequestPacket :: byte where "AuthSwitchRequestPacket = 0xfe"
definition CRVersionError :: int where "CRVersionError = 2007"
definition CRServerHandshakeErr :: int where "CRServerHandshakeErr = 2012"
definition CRSSLConnectionError :: int where "CRSSLConnectionError = 2026"
definition CapabilityClientLongPassword :: u32 where "CapabilityClientLongPassword = 1"
definition CapabilityClientFoundRows :: u32 where "CapabilityClientFoundRows = push_bit 1 1"
definition CapabilityClientLongFlag :: u32 where "CapabilityClientLongFlag = push_bit 2 1"
definition CapabilityClientConnectWithDB :: u32 where "CapabilityClientConnectWithDB = push_bit 3 1"
definition CapabilityClientProtocol41 :: u32 where "CapabilityClientProtocol41 = push_bit 9 1"
definition CapabilityClientSSL :: u32 where "CapabilityClientSSL = push_bit 11 1"
definition CapabilityClientTransactions :: u32 where "CapabilityClientTransactions = push_bit 13 1"
definition CapabilityClientSecureConnection :: u32 where "CapabilityClientSecureConnection = push_bit 15 1"
definition CapabilityClientMultiStatements :: u32 where "CapabilityClientMultiStatements = push_bit 16 1"
definition CapabilityClientMultiResults :: u32 where "CapabilityClientMultiResults = push_bit 17 1"
definition CapabilityClientPluginAuth :: u32 where "CapabilityClientPluginAuth = push_bit 19 1"
definition CapabilityClientPluginAuthLenencClientData :: u32 where
  "CapabilityClientPluginAuthLenencClientData = push_bit 21 1"

record ConnParams =
  p_Host :: bytes
  p_Uname :: bytes
  p_Pass :: bytes
  p_DbName :: bytes
  p_Flags :: u64

definition EnableSSL :: "ConnParams \<Rightarrow> ConnParams" where
  "EnableSSL cp = cp\<lparr>p_Flags := p_Flags cp OR ucast CapabilityClientSSL\<rparr>"

definition SslEnabled :: "ConnParams \<Rightarrow> bool" where
  "SslEnabled cp \<longleftrightarrow> 0 < p_Flags cp AND ucast CapabilityClientSSL"

definition EnableClientFoundRows :: "ConnParams \<Rightarrow> ConnParams" where
  "EnableClientFoundRows cp = cp\<lparr>p_Flags := p_Flags cp OR ucast CapabilityClientFoundRows\<rparr>"

definition tryC :: "(unit, 'a) result \<Rightarrow> conn_error \<Rightarrow> ('a \<Rightarrow> 'b conn_op) \<Rightarrow> 'b conn_op" where
  "tryC r e k c = (case r of Ok x \<Rightarrow> k x c | Err _ \<Rightarrow> (c, Err e) | Panic \<Rightarrow> (c, Panic))"

definition setC :: "(Conn \<Rightarrow> Conn) \<Rightarrow> 'b conn_op \<Rightarrow> 'b conn_op" where
  "setC f k c = k (f c)"

section \<open>The server's initial packet\<close>

definition server_capabilities :: "bool \<Rightarrow> u32" where
  "server_capabilities enableTLS =
     (let capabilities = CapabilityClientLongPassword OR CapabilityClientLongFlag OR CapabilityClientConnectWithDB OR
            CapabilityClientProtocol41 OR CapabilityClientTransactions OR CapabilityClientSecureConnection OR
            CapabilityClientMultiStatements OR CapabilityClientMultiResults OR CapabilityClientPluginAuth OR
            CapabilityClientPluginAuthLenencClientData OR CapabilityClientDeprecateEOF
      in if enableTLS then capabilities OR CapabilityClientSSL else capabilities)"

text \<open>\<open>saltResult\<close> is what \<^verbatim>\<open>authServer.Salt()\<close> returns.  The ten reserved bytes are skipped, not written.\<close>

definition writeHandshakeV10 :: "bytes \<Rightarrow> (conn_error, bytes) result \<Rightarrow> bool \<Rightarrow> bytes conn_op" where
  "writeHandshakeV10 serverVersion saltResult enableTLS c =
     (let capabilities = server_capabilities enableTLS;
          len = 1 + lenNullString serverVersion + 4 + 8 + 1 + 2 + 1 + 2 + 2 + 1 + 10 + 13 + lenNullString MysqlNativePassword
      in bindC (startEphemeralPacket (nat len)) (\<lambda>data.
         case saltResult of
           Err e \<Rightarrow> failC e
         | Panic \<Rightarrow> panicC
         | Ok salt \<Rightarrow>
             if length salt < 8 then panicC else
             bindC (fill
               [\<lambda>d p. writeByte d p protocolVersion, \<lambda>d p. writeNullString d p serverVersion,
                \<lambda>d p. writeUint32 d p (c_ConnectionID c), \<lambda>d p. writeEOFString d p (take 8 salt),
                \<lambda>d p. writeByte d p 0, \<lambda>d p. writeUint16 d p (ucast capabilities),
                \<lambda>d p. writeByte d p CharacterSetUtf8, \<lambda>d p. writeUint16 d p (c_StatusFlags c),
                \<lambda>d p. writeUint16 d p (ucast (drop_bit 16 capabilities)), \<lambda>d p. writeByte d p 21,
                \<lambda>d p. Ok (d, wrap64 (p + 10)), \<lambda>d p. writeEOFString d p (drop 8 salt),
                \<lambda>d p. writeByte d p 0, \<lambda>d p. writeNullString d p MysqlNativePassword] data) (\<lambda>pos.
             if pos \<noteq> int (length data) then failC (E_text ''error building Handshake packet'')
             else bindC (writeEphemeralPacket True) (\<lambda>_. okC salt))) c)"

text \<open>The client appends the second part of the salt to a slice of the packet; the bytes that overwrites have been
  read before.\<close>

definition parseAuthPlugin :: "bytes \<Rightarrow> u32 \<Rightarrow> bytes \<Rightarrow> int \<Rightarrow> (u32 \<times> bytes) conn_op" where
  "parseAuthPlugin data capabilities authPluginData pos =
     (if capabilities AND CapabilityClientPluginAuth \<noteq> 0 then
        tryC (case readNullString data pos of
                Ok (name, _) \<Rightarrow> Ok name
              | Err _ \<Rightarrow> go_slice data pos (int (length data) - 1)
              | Panic \<Rightarrow> Panic) E_EOF (\<lambda>name.
          if name \<noteq> MysqlNativePassword then failC (malformed ''only support mysql_native_password auth plugin name'')
          else okC (capabilities, authPluginData))
      else okC (capabilities, authPluginData))"

definition parseAuthData :: "bytes \<Rightarrow> u32 \<Rightarrow> bytes \<Rightarrow> int \<Rightarrow> int \<Rightarrow> (u32 \<times> bytes) conn_op" where
  "parseAuthData data capabilities authPluginData authPluginDataLength pos =
     (if capabilities AND CapabilityClientSecureConnection \<noteq> 0 then
        let l = (if authPluginDataLength - 8 > 13 then 13 else authPluginDataLength - 8) in
        tryC (readBytes data pos l) (malformed ''packet has no auth-plugin-data-part-2'') (\<lambda>(part2, pos).
        tryC (at_pos part2 (l - 1)) E_EOF (\<lambda>b.
        if b \<noteq> 0 then failC (malformed ''auth-plugin-data-part-2 is not 0 terminated'')
        else parseAuthPlugin data capabilities (authPluginData @ take (nat (l - 1)) part2) pos))
      else parseAuthPlugin data capabilities authPluginData pos)"

definition parseInitialHandshakePacket :: "bytes \<Rightarrow> (u32 \<times> bytes) conn_op" where
  "parseInitialHandshakePacket data =
     tryC (readByte data 0) (NewSQLError CRVersionError SSUnknownSQLState (Lit ''packet has no protocol version'')) (\<lambda>(pver, pos).
     if pver \<noteq> protocolVersion then failC (NewSQLError CRVersionError SSUnknownSQLState (Lit ''bad protocol version'')) else
     tryC (readNullString data pos) (malformed ''packet has no server version'') (\<lambda>(serverVersion, pos).
     setC (\<lambda>c. c\<lparr>c_ServerVersion := serverVersion\<rparr>) (
     tryC (readUint32 data pos) (malformed ''packet has no connection id'') (\<lambda>(connectionID, pos).
     setC (\<lambda>c. c\<lparr>c_ConnectionID := connectionID\<rparr>) (
     tryC (readBytes data pos 8) (malformed ''packet has no auth-plugin-data-part-1'') (\<lambda>(authPluginData, pos).
     tryC (readByte data pos) (malformed ''packet has no filler'') (\<lambda>(_, pos).
     tryC (readUint16 data pos) (malformed ''packet has no capability flags (lower 2 bytes)'') (\<lambda>(capLower, pos).
     if pos = int (length data) then okC (ucast capLower, authPluginData) else
     tryC (readByte data pos) (malformed ''packet has no character set'') (\<lambda>(characterSet, pos).
     setC (\<lambda>c. c\<lparr>c_CharacterSet := characterSet\<rparr>) (
     tryC (readUint16 data pos) (malformed ''packet has no status flags'') (\<lambda>(_, pos).
     tryC (readUint16 data pos) (malformed ''packet has no capability flags (upper 2 bytes)'') (\<lambda>(capUpper, pos).
     let capabilities = ucast capLower + push_bit 16 (ucast capUpper) in
     tryC (readByte data pos) (malformed ''packet has no length of auth-plugin-data'') (\<lambda>(len, pos).
     parseAuthData data capabilities authPluginData
       (if capabilities AND CapabilityClientPluginAuth \<noteq> 0 then uint len else 0) (wrap64 (pos + 10)))))))))))))))"

section \<open>The client's response\<close>

definition client_flags :: "Conn \<Rightarrow> ConnParams \<Rightarrow> u32 \<Rightarrow> u32" where
  "client_flags c params extra =
     CapabilityClientLongPassword OR CapabilityClientLongFlag OR CapabilityClientProtocol41 OR
     CapabilityClientTransactions OR CapabilityClientSecureConnection OR CapabilityClientMultiStatements OR
     CapabilityClientMultiResults OR CapabilityClientPluginAuth OR CapabilityClientPluginAuthLenencClientData OR extra OR
     (c_Capabilities c AND CapabilityClientDeprecateEOF) OR (CapabilityClientFoundRows AND ucast (p_Flags params))"

text \<open>The database is named in the response only if the server supports that.\<close>

definition with_db :: "u32 \<Rightarrow> ConnParams \<Rightarrow> bool" where
  "with_db capabilities params \<longleftrightarrow> p_DbName params \<noteq> [] \<and> capabilities AND CapabilityClientConnectWithDB \<noteq> 0"

definition writeSSLRequest :: "u32 \<Rightarrow> byte \<Rightarrow> ConnParams \<Rightarrow> unit conn_op" where
  "writeSSLRequest capabilities characterSet params c =
     (let flags = client_flags c params CapabilityClientSSL OR
            (if with_db capabilities params then CapabilityClientConnectWithDB else 0)
      in bindC (startEphemeralPacket (4 + 4 + 1 + 23)) (\<lambda>data.
         bindC (fill [\<lambda>d p. writeUint32 d p flags, \<lambda>d p. writeZeroes d p 4, \<lambda>d p. writeByte d p characterSet] data)
           (\<lambda>pos. wrapErr serverLost (writeEphemeralPacket True))) c)"

definition writeHandshakeResponse41 :: "u32 \<Rightarrow> bytes \<Rightarrow> byte \<Rightarrow> ConnParams \<Rightarrow> unit conn_op" where
  "writeHandshakeResponse41 capabilities scrambledPassword characterSet params c =
     (let lenenc = capabilities AND CapabilityClientPluginAuthLenencClientData \<noteq> 0;
          db = with_db capabilities params;
          flags = client_flags c params 0 OR (if db then CapabilityClientConnectWithDB else 0);
          len = 4 + 4 + 1 + 23 + lenNullString (p_Uname params) + int (length scrambledPassword) + 21 + 1 +
            (if db then lenNullString (p_DbName params) else 0) +
            (if lenenc then lenEncIntSize (word_of_nat (length scrambledPassword)) else 1)
      in bindC (startEphemeralPacket (nat len)) (\<lambda>data.
         bindC (fill
           ([\<lambda>d p. writeUint32 d p flags, \<lambda>d p. writeZeroes d p 4, \<lambda>d p. writeByte d p characterSet,
             \<lambda>d p. writeZeroes d p 23, \<lambda>d p. writeNullString d p (p_Uname params),
             if lenenc then (\<lambda>d p. writeLenEncInt d p (word_of_nat (length scrambledPassword)))
             else (\<lambda>d p. writeByte d p (word_of_nat (length scrambledPassword))),
             \<lambda>d p. writeEOFString d p scrambledPassword] @
            (if db then [\<lambda>d p. writeNullString d p (p_DbName params)] else []) @
            [\<lambda>d p. writeNullString d p MysqlNativePassword]) data) (\<lambda>pos c.
         let c = (if db then c\<lparr>c_SchemaName := p_DbName params\<rparr> else c) in
         if pos \<noteq> int (length data) then (c, Err (malformed ''writeHandshakeResponse41''))
         else wrapErr serverLost (writeEphemeralPacket True) c)) c)"

text \<open>The result is the user, the authentication method and the response; \<open>tlsConfigured\<close> is \<^verbatim>\<open>l.TLSConfig != nil\<close>.\<close>

definition parseAuthResponse :: "bytes \<Rightarrow> u32 \<Rightarrow> int \<Rightarrow> (conn_error, bytes \<times> int) result" where
  "parseAuthResponse data clientFlags pos =
     (if clientFlags AND CapabilityClientPluginAuthLenencClientData \<noteq> 0 then
        try_read (readLenEncInt data pos) (E_text ''can't read auth-response variable length'') (\<lambda>(l, pos).
        try_read (readBytesCopy data pos (sint l)) (E_text ''can't read auth-response'') Ok)
      else if clientFlags AND CapabilityClientSecureConnection \<noteq> 0 then
        try_read (readByte data pos) (E_text ''can't read auth-response length'') (\<lambda>(l, pos).
        try_read (readBytesCopy data pos (uint l)) (E_text ''can't read auth-response'') Ok)
      else try_read (readNullString data pos) (E_text ''can't read auth-response'') Ok)"

definition parseAuthMethod :: "bytes \<Rightarrow> u32 \<Rightarrow> int \<Rightarrow> (unit, bytes \<times> int) result" where
  "parseAuthMethod data clientFlags pos =
     (if clientFlags AND CapabilityClientPluginAuth \<noteq> 0 then readNullString data pos else Ok (MysqlNativePassword, pos))"

definition remember_flags :: "bool \<Rightarrow> u32 \<Rightarrow> Conn \<Rightarrow> Conn" where
  "remember_flags firstTime clientFlags c =
     (let c = (if firstTime
               then c\<lparr>c_Capabilities := clientFlags AND (CapabilityClientDeprecateEOF OR CapabilityClientFoundRows)\<rparr> else c)
      in if 0 < clientFlags AND CapabilityClientMultiStatements
         then c\<lparr>c_Capabilities := c_Capabilities c OR CapabilityClientMultiStatements\<rparr> else c)"

definition parseClientHandshakePacket :: "bool \<Rightarrow> bool \<Rightarrow> bytes \<Rightarrow> (bytes \<times> bytes \<times> bytes) conn_op" where
  "parseClientHandshakePacket tlsConfigured firstTime data =
     tryC (readUint32 data 0) (E_text ''can't read client flags'') (\<lambda>(clientFlags, pos).
     if clientFlags AND CapabilityClientProtocol41 = 0 then failC (E_text ''only support protocol 4.1'') else
     setC (remember_flags firstTime clientFlags) (
     tryC (readUint32 data pos) (E_text ''can't read maxPacketSize'') (\<lambda>(_, pos).
     tryC (readByte data pos) (E_text ''can't read characterSet'') (\<lambda>(characterSet, pos).
     setC (\<lambda>c. c\<lparr>c_CharacterSet := characterSet\<rparr>) (
     if firstTime \<and> tlsConfigured \<and> 0 < clientFlags AND CapabilityClientSSL
     then setC (\<lambda>c. c\<lparr>c_Capabilities := c_Capabilities c OR CapabilityClientSSL\<rparr>) (okC ([], [], [])) else
     tryC (readNullString data (wrap64 (pos + 23))) (E_text ''can't read username'') (\<lambda>(username, pos).
     bindC (\<lambda>c. (c, parseAuthResponse data clientFlags pos)) (\<lambda>(authResponse, pos).
     let finish = (\<lambda>pos. tryC (parseAuthMethod data clientFlags pos) (E_text ''can't read authMethod'') (\<lambda>(authMethod, _).
           okC (username, if authMethod = [] then MysqlNativePassword else authMethod, authResponse)))
     in if clientFlags AND CapabilityClientConnectWithDB \<noteq> 0 then
          tryC (readNullString data pos) (E_text ''can't read dbname'') (\<lambda>(dbname, pos).
          setC (\<lambda>c. c\<lparr>c_SchemaName := dbname\<rparr>) (finish pos))
        else finish pos)))))))"

section \<open>Switching the method\<close>

definition writeAuthSwitchRequest :: "bytes \<Rightarrow> bytes \<Rightarrow> unit conn_op" where
  "writeAuthSwitchRequest pluginName pluginData =
     bindC (startEphemeralPacket (1 + length pluginName + 1 + length pluginData)) (\<lambda>data.
     bindC (fill [\<lambda>d p. writeByte d p AuthSwitchRequestPacket, \<lambda>d p. writeNullString d p pluginName,
             \<lambda>d p. writeEOFString d p pluginData] data) (\<lambda>pos.
       if pos \<noteq> int (length data) then failC (E_text ''error building AuthSwitchRequestPacket packet'')
       else writeEphemeralPacket True))"

definition parseAuthSwitchRequest :: "bytes \<Rightarrow> (conn_error, bytes \<times> bytes) result" where
  "parseAuthSwitchRequest data =
     try_read (readNullString data 1) (E_text ''cannot get plugin name from AuthSwitchRequest'') (\<lambda>(pluginName, pos).
     try_read (go_slice data pos (int (length data))) E_EOF (\<lambda>rest. Ok (pluginName, rest)))"

definition writeClearTextPassword :: "ConnParams \<Rightarrow> unit conn_op" where
  "writeClearTextPassword params =
     bindC (startEphemeralPacket (length (p_Pass params) + 1)) (\<lambda>data.
     bindC (fill [\<lambda>d p. writeNullString d p (p_Pass params)] data) (\<lambda>pos.
       if pos \<noteq> int (length data) then failC (E_text ''error building ClearTextPassword packet'')
       else writeEphemeralPacket True))"

section \<open>Lemmas\<close>

lemma tryC_simps [simp]:
  "tryC (Ok x) e k c = k x c" "tryC (Err u) e k c = (c, Err e)" "tryC Panic e k c = (c, Panic)" "setC f m c = m (f c)"
  by (simp_all add: tryC_def setC_def)

lemmas capability_defs = CapabilityClientLongPassword_def CapabilityClientFoundRows_def CapabilityClientLongFlag_def
  CapabilityClientConnectWithDB_def CapabilityClientProtocol41_def CapabilityClientSSL_def
  CapabilityClientTransactions_def CapabilityClientSecureConnection_def CapabilityClientMultiStatements_def
  CapabilityClientMultiResults_def CapabilityClientPluginAuth_def CapabilityClientPluginAuthLenencClientData_def
  CapabilityClientDeprecateEOF_def

lemma flag_bit: "v AND push_bit k 1 = 0 \<longleftrightarrow> \<not> bit (v :: u32) k"
  by (simp add: push_bit_eq_mult and_exp_eq_0_iff_not_bit)

lemma flag_pos: "0 < v AND push_bit k 1 \<longleftrightarrow> bit (v :: u32) k"
  using flag_bit [of v k] by (simp add: word_gt_0)

lemma off_skip:
  assumes "int (length (bss ! i)) = k" "i < length bss" "int (length (concat bss)) < 2 ^ 63" "j = Suc i"
  shows "wrap64 (off bss i + k) = off bss j"
proof -
  have "off bss (Suc i) = off bss i + k" using assms(1,2) by (simp add: off_Suc)
  moreover have "off bss (Suc i) \<le> int (length (concat bss))"
    using concat_at [OF assms(2)] assms(2) unfolding off_Suc [OF assms(2)] by (simp add: off_def)
  moreover have "0 \<le> off bss i" by (simp add: off_def)
  ultimately show ?thesis using assms(1,3,4) by (simp add: wrap64_small)
qed

lemma writes_append: "writes (fs @ gs) d p = result_bind (writes fs d p) (\<lambda>(d, p). writes gs d p)"
proof (induction fs arbitrary: d p)
  case (Cons f fs)
  show ?case by (cases "f d p") (auto simp: Cons)
qed simp

lemma writes_skip:
  assumes "list_all2 puts fs as" "list_all2 puts gs bs"
    and "length area = length (concat as) + k + length (concat bs)" "int (length area) < 2 ^ 63"
  shows "\<exists>stale. length stale = k \<and> writes (fs @ (\<lambda>d p. Ok (d, wrap64 (p + int k))) # gs) area 0 =
    Ok (concat as @ stale @ concat bs, int (length area))"
proof -
  define a1 a2 a3 where "a1 = take (length (concat as)) area" and "a2 = take k (drop (length (concat as)) area)"
    and "a3 = drop (length (concat as) + k) area"
  have a: "area = a1 @ a2 @ a3" "length a1 = length (concat as)" "length a2 = k" "length a3 = length (concat bs)"
    using assms(3) unfolding a1_def a2_def a3_def by (simp_all add: add.commute flip: drop_drop)
  have "writes fs (a1 @ a2 @ a3) 0 = Ok (concat as @ a2 @ a3, int (length (concat as)))"
    using putsD [OF puts_writes [OF assms(1)], of a1 "[]" "a2 @ a3"] a assms(4) by simp
  moreover have "wrap64 (int (length (concat as)) + int k) = int (length (concat as @ a2))"
    using a assms(4) by (simp add: wrap64_small)
  moreover have "writes gs ((concat as @ a2) @ a3 @ []) (int (length (concat as @ a2))) =
      Ok ((concat as @ a2) @ concat bs @ [], int (length ((concat as @ a2) @ concat bs)))"
    by (rule putsD [OF puts_writes [OF assms(2)]]) (use a assms(4) in auto)
  ultimately show ?thesis using a by (intro exI [of _ a2]) (simp add: writes_append)
qed

lemma halves: "(ucast (ucast v :: u16) :: u32) + push_bit 16 (ucast (ucast (drop_bit 16 v) :: u16)) = v"
proof -
  have "(ucast (ucast v :: u16) :: u32) AND push_bit 16 (ucast (ucast (drop_bit 16 v) :: u16)) = 0"
    by (rule bit_word_eqI) (auto simp: bit_simps)
  then have "(ucast (ucast v :: u16) :: u32) + push_bit 16 (ucast (ucast (drop_bit 16 v) :: u16)) =
      ucast (ucast v :: u16) OR push_bit 16 (ucast (ucast (drop_bit 16 v) :: u16))"
    by (simp add: disjunctive_add_eq_or)
  also have "\<dots> = v" by (rule bit_word_eqI) (auto simp: bit_simps)
  finally show ?thesis .
qed

section \<open>The initial packet over the wire\<close>

definition handshake_fields :: "bytes \<Rightarrow> u32 \<Rightarrow> bytes \<Rightarrow> u32 \<Rightarrow> u16 \<Rightarrow> bytes \<Rightarrow> bytes list" where
  "handshake_fields version connID salt capabilities status stale =
     [[protocolVersion], version @ [0], le32 connID, take 8 salt, [0], le16 (ucast capabilities), [CharacterSetUtf8],
      le16 status, le16 (ucast (drop_bit 16 capabilities)), [21], stale, drop 8 salt @ [0], MysqlNativePassword @ [0]]"

lemma native_name: "length MysqlNativePassword = 21" "0 \<notin> set MysqlNativePassword"
  by (simp_all add: MysqlNativePassword_def bytes_of_def)

lemma writeHandshakeV10_sent:
  assumes "ready c" "c_wbuf c = []" "length salt = 20" "int (length version) < 2 ^ 62"
  shows "\<exists>c' stale. length stale = 10 \<and> writeHandshakeV10 version (Ok salt) tls c = (c', Ok salt) \<and>
    sent True [concat (handshake_fields version (c_ConnectionID c) salt (server_capabilities tls) (c_StatusFlags c) stale)] c c'"
proof -
  let ?cap = "server_capabilities tls"
  let ?fs = "[\<lambda>d p. writeByte d p protocolVersion, \<lambda>d p. writeNullString d p version,
                \<lambda>d p. writeUint32 d p (c_ConnectionID c), \<lambda>d p. writeEOFString d p (take 8 salt),
                \<lambda>d p. writeByte d p 0, \<lambda>d p. writeUint16 d p (ucast ?cap),
                \<lambda>d p. writeByte d p CharacterSetUtf8, \<lambda>d p. writeUint16 d p (c_StatusFlags c),
                \<lambda>d p. writeUint16 d p (ucast (drop_bit 16 ?cap)), \<lambda>d p. writeByte d p 21]"
  let ?gs = "[\<lambda>d p. writeEOFString d p (drop 8 salt), \<lambda>d p. writeByte d p 0, \<lambda>d p. writeNullString d p MysqlNativePassword]"
  let ?as = "[[protocolVersion], version @ [0], le32 (c_ConnectionID c), take 8 salt, [0], le16 (ucast ?cap), [CharacterSetUtf8],
      le16 (c_StatusFlags c), le16 (ucast (drop_bit 16 ?cap)), [21]]"
  let ?bs = "[drop 8 salt, [0], MysqlNativePassword @ [0]]"
  let ?n = "length version + 68"
  obtain stale where st: "length (stale :: bytes) = 10" by (metis length_replicate)
  let ?d = "\<lambda>st. concat (handshake_fields version (c_ConnectionID c) salt ?cap (c_StatusFlags c) st)"
  have len: "length (?d st) = ?n" if "length st = 10" for st
    using that assms(3) by (simp add: handshake_fields_def native_name)
  have n: "nat (1 + lenNullString version + 4 + 8 + 1 + 2 + 1 + 2 + 2 + 1 + 10 + 13 + lenNullString MysqlNativePassword) = ?n"
    by (simp add: lenNullString_def native_name)
  obtain c1 area where s: "startEphemeralPacket ?n c = (c1, Ok area)" "length area = ?n"
    using writeEphemeral_sent [OF assms(1), of True "?d stale"] len [OF st] assms(2) by auto
  obtain stale' where w: "length stale' = 10"
    "writes (?fs @ (\<lambda>d p. Ok (d, wrap64 (p + int 10))) # ?gs) area 0 = Ok (concat ?as @ stale' @ concat ?bs, int (length area))"
    using writes_skip [of ?fs ?as ?gs ?bs area 10] s(2) assms(3,4) by (auto simp: puts_intros native_name)
  have c: "concat ?as @ stale' @ concat ?bs = ?d stale'" by (simp add: handshake_fields_def)
  have f: "fill (?fs @ (\<lambda>d p. Ok (d, wrap64 (p + 10))) # ?gs) area c1 = (storePacket (?d stale') c1, Ok (int (length area)))"
    using w(2) unfolding c fill_def by simp
  obtain c1' c' where s': "startEphemeralPacket ?n c = (c1', Ok area)"
    "writeEphemeralPacket True (storePacket (?d stale') c1') = (c', Ok ())" "sent True [?d stale'] c c'"
    using writeEphemeral_sent [OF assms(1), of True "?d stale'"] len [OF w(1)] assms(2) s(1) by auto
  then have "c1' = c1" using s(1) by simp
  with s s' w(1) f have "writeHandshakeV10 version (Ok salt) tls c = (c', Ok salt)"
    unfolding writeHandshakeV10_def Let_def n using assms(3) by simp
  with w(1) s'(3) show ?thesis by blast
qed

lemma server_capabilities_bits:
  "server_capabilities tls AND CapabilityClientPluginAuth \<noteq> 0" "server_capabilities tls AND CapabilityClientSecureConnection \<noteq> 0"
  "server_capabilities tls AND CapabilityClientProtocol41 \<noteq> 0" "server_capabilities tls AND CapabilityClientConnectWithDB \<noteq> 0"
  "server_capabilities tls AND CapabilityClientPluginAuthLenencClientData \<noteq> 0"
  by (simp_all add: server_capabilities_def capability_defs)

lemma parse_handshake_fields:
  fixes tls :: bool
  assumes "0 \<notin> set version" "length salt = 20" "length stale = 10" "int (length version) < 2 ^ 62"
  defines "cap \<equiv> server_capabilities tls"
  shows "parseInitialHandshakePacket (concat (handshake_fields version connID salt cap status stale)) c =
    (c\<lparr>c_ServerVersion := version, c_ConnectionID := connID, c_CharacterSet := CharacterSetUtf8\<rparr>, Ok (cap, salt))"
proof -
  define b where "b = handshake_fields version connID salt cap status stale"
  have small: "int (length (concat b)) < 2 ^ 63" using assms(2-4) by (simp add: b_def handshake_fields_def native_name)
  have len: "length b = 13" by (simp add: b_def handshake_fields_def)
  have at: "b ! 0 = [protocolVersion]" "b ! 1 = version @ [0]" "b ! 2 = le32 connID" "b ! 3 = take 8 salt" "b ! 4 = [0]"
    "b ! 5 = le16 (ucast cap)" "b ! 6 = [CharacterSetUtf8]" "b ! 7 = le16 status" "b ! 8 = le16 (ucast (drop_bit 16 cap))"
    "b ! 9 = [21]" "b ! 10 = stale" "b ! 11 = drop 8 salt @ [0]" "b ! 12 = MysqlNativePassword @ [0]"
    by (simp_all add: b_def handshake_fields_def)
  note to = read_off_to [OF _ _ small]
  have r0: "readByte (concat b) 0 = Ok (protocolVersion, off b 1)"
    using to [of readByte 0 protocolVersion 1] len at(1) by (cases b) (simp_all add: gets_intros del: One_nat_def)
  have rs: "readNullString (concat b) (off b 1) = Ok (version, off b 2)" "readNullString (concat b) (off b 12) = Ok (MysqlNativePassword, off b 13)"
    by (rule to; simp only: at len; simp add: gets_readNullString assms(1) native_name)+
  have ri: "readUint32 (concat b) (off b 2) = Ok (connID, off b 3)" "readByte (concat b) (off b 4) = Ok (0, off b 5)"
    "readUint16 (concat b) (off b 5) = Ok (ucast cap, off b 6)" "readByte (concat b) (off b 6) = Ok (CharacterSetUtf8, off b 7)"
    "readUint16 (concat b) (off b 7) = Ok (status, off b 8)" "readUint16 (concat b) (off b 8) = Ok (ucast (drop_bit 16 cap), off b 9)"
    "readByte (concat b) (off b 9) = Ok (21, off b 10)"
    by (rule to; simp only: at gets_intros len; simp)+
  have rb: "readBytes (concat b) (off b 3) 8 = Ok (take 8 salt, off b 4)"
    "readBytes (concat b) (off b 11) 13 = Ok (drop 8 salt @ [0], off b 12)"
    by (rule to [where r = "\<lambda>d p. readBytes d p _"]; simp only: at len; simp add: gets_readBytes assms(2))+
  have sk: "wrap64 (off b 10 + 10) = off b 11" by (rule off_skip [OF _ _ small]) (simp_all add: at len assms(3))
  have "off b (Suc 6) = off b 6 + 1" by (subst off_Suc) (simp_all add: at len)
  moreover have "off b 7 \<le> int (length (concat b))"
    using concat_at [of 6 b] off_Suc [of 6 b] len unfolding off_def by (simp add: at)
  ultimately have ne: "off b 6 \<noteq> int (length (concat b))" by simp
  have z: "at_pos (drop 8 salt @ [0]) 12 = Ok 0" using assms(2) by (simp add: at_pos_def nth_append)
  have salt: "take 8 salt @ take 12 (drop 8 salt @ [0]) = salt" using assms(2) by simp
  note bits = server_capabilities_bits [of tls, folded cap_def]
  have plug: "parseAuthPlugin (concat b) cap salt (off b 12) = okC (cap, salt)"
    by (simp add: parseAuthPlugin_def bits rs fun_eq_iff)
  have auth: "parseAuthData (concat b) cap (take 8 salt) 21 (off b 11) = okC (cap, salt)"
    by (simp add: parseAuthData_def bits rb z salt plug Let_def fun_eq_iff del: take_append)
  show ?thesis
    unfolding b_def [symmetric] parseInitialHandshakePacket_def Let_def
    by (simp add: r0 rs ri rb sk ne halves bits auth del: One_nat_def)
qed

text \<open>
  The server's initial handshake packet, read from the wire by the client, gives the client the server's
  capabilities and salt, and its version, connection id and character set.\<close>

theorem handshake_initial:
  assumes "ready c" "c_wbuf c = []" "length salt = 20" "0 \<notin> set version" "int (length version) < 2 ^ 62"
  shows "\<exists>c' w. writeHandshakeV10 version (Ok salt) tls c = (c', Ok salt) \<and> wire c' = wire c @ w \<and>
    (\<forall>d rest. c_sequence d = c_sequence c \<longrightarrow> c_input d = w @ rest \<longrightarrow>
      (\<exists>d1 p. readPacket d = (d1, Ok p) \<and> c_input d1 = rest \<and> parseInitialHandshakePacket p d1 =
        (d1\<lparr>c_ServerVersion := version, c_ConnectionID := c_ConnectionID c, c_CharacterSet := CharacterSetUtf8\<rparr>,
         Ok (server_capabilities tls, salt))))"
proof -
  obtain c' stale where s: "length stale = 10" "writeHandshakeV10 version (Ok salt) tls c = (c', Ok salt)"
    "sent True [concat (handshake_fields version (c_ConnectionID c) salt (server_capabilities tls) (c_StatusFlags c) stale)] c c'"
    using writeHandshakeV10_sent [OF assms(1-3,5)] by blast
  let ?p = "concat (handshake_fields version (c_ConnectionID c) salt (server_capabilities tls) (c_StatusFlags c) stale)"
  show ?thesis
  proof (intro exI conjI allI impI)
    show "wire c' = wire c @ frames (c_sequence c) ?p" using s(3) by (simp add: sent_def)
  next
    fix d :: Conn and rest
    assume "c_sequence d = c_sequence c" "c_input d = frames (c_sequence c) ?p @ rest"
    then show "readPacket d = (d\<lparr>c_input := rest, c_sequence := after_packet (c_sequence d) ?p\<rparr>, Ok ?p)"
      by (intro readPacket_frames) simp
  qed (simp_all add: s(2) parse_handshake_fields [OF assms(4,3) s(1) assms(5)])
qed

theorem handshake_initial_witness:
  "\<exists>c' w. writeHandshakeV10 [53] (Ok (replicate 20 1)) False (newConn [] Net_EOF) = (c', Ok (replicate 20 1)) \<and>
    wire c' = wire (newConn [] Net_EOF) @ w \<and>
    (\<forall>d rest. c_sequence d = c_sequence (newConn [] Net_EOF) \<longrightarrow> c_input d = w @ rest \<longrightarrow>
      (\<exists>d1 p. readPacket d = (d1, Ok p) \<and> c_input d1 = rest \<and> parseInitialHandshakePacket p d1 =
        (d1\<lparr>c_ServerVersion := [53], c_ConnectionID := c_ConnectionID (newConn [] Net_EOF), c_CharacterSet := CharacterSetUtf8\<rparr>,
         Ok (server_capabilities False, replicate 20 1))))"
  by (rule handshake_initial [OF newConn_ready]) (simp_all add: newConn_def)

text \<open>
  When the server announces the secure connection but gives eight or fewer bytes as the length of the salt, which is
  what a server without plugin authentication does, the client panics on the second part, although the comment in the
  source asks for at least 13 bytes.\<close>

theorem short_auth_data_panics:
  assumes "capabilities AND CapabilityClientSecureConnection \<noteq> 0" "0 \<le> len" "len \<le> 8"
    and "8 \<le> pos" "pos \<le> int (length data)" "int (length data) < 2 ^ 63"
  shows "parseAuthData data capabilities part1 len pos c = (c, Panic)"
proof -
  have w: "wrap64 (pos + (len - 8)) = pos + (len - 8)"
    by (rule wrap64_small) (use assms in auto)
  have w1: "wrap64 (pos + (len - 8) - 1) = pos + (len - 8) - 1"
    by (rule wrap64_id) (use assms in auto)
  consider "len = 8" | "len < 8" using assms(3) by linarith
  then have "tryC (readBytes data pos (len - 8)) e (\<lambda>(part2, pos). tryC (at_pos part2 (len - 8 - 1)) E_EOF (f pos part2)) c = (c, Panic)"
    for e and f :: "int \<Rightarrow> bytes \<Rightarrow> byte \<Rightarrow> (u32 \<times> bytes) conn_op"
  proof cases
    case 1
    then show ?thesis using w w1 assms(4,5) by (simp add: readBytes_def go_slice_def at_pos_def)
  next
    case 2
    then show ?thesis using w w1 assms(4,5) by (simp add: readBytes_def go_slice_def)
  qed
  then show ?thesis using assms(1,3) unfolding parseAuthData_def Let_def by simp
qed

theorem short_auth_data_panics_witness:
  "parseAuthData (replicate 40 0) CapabilityClientSecureConnection [1, 2, 3, 4, 5, 6, 7, 8] 0 32 (newConn [] Net_EOF) =
    (newConn [] Net_EOF, Panic)"
  by (rule short_auth_data_panics) (simp_all add: CapabilityClientSecureConnection_def)

section \<open>The response over the wire\<close>

definition response_flags :: "Conn \<Rightarrow> u32 \<Rightarrow> ConnParams \<Rightarrow> u32" where
  "response_flags c capabilities params =
     client_flags c params 0 OR (if with_db capabilities params then CapabilityClientConnectWithDB else 0)"

definition response_fields :: "u32 \<Rightarrow> u32 \<Rightarrow> bytes \<Rightarrow> byte \<Rightarrow> ConnParams \<Rightarrow> bytes list" where
  "response_fields flags capabilities scrambled characterSet params =
     [le32 flags, replicate 4 0, [characterSet], replicate 23 0, p_Uname params @ [0],
      lenEncInt_bytes (word_of_nat (length scrambled)), scrambled] @
     (if with_db capabilities params then [p_DbName params @ [0]] else []) @ [MysqlNativePassword @ [0]]"

text \<open>Names without a zero byte, a packet of one frame, and a password length that both forms write alike.\<close>

definition response_ok :: "u32 \<Rightarrow> bytes \<Rightarrow> ConnParams \<Rightarrow> bool" where
  "response_ok capabilities scrambled params \<longleftrightarrow> 0 \<notin> set (p_Uname params) \<and> 0 \<notin> set (p_DbName params) \<and>
     length (p_Uname params) + length (p_DbName params) + length scrambled + 100 < MaxPacketSize \<and>
     (capabilities AND CapabilityClientPluginAuthLenencClientData \<noteq> 0 \<or> length scrambled < 251)"

lemma response_length:
  assumes "response_ok capabilities scrambled params"
  shows "length (concat (response_fields flags capabilities scrambled characterSet params)) < MaxPacketSize"
proof -
  have "length (lenEncInt_bytes i) \<le> 9" for i
    using length_lenEncInt_bytes [of i] lenEncIntSize_le [of i] by linarith
  from this [of "word_of_nat (length scrambled)"] show ?thesis
    using assms by (simp add: response_fields_def response_ok_def native_name)
qed

lemma Max_small: "n < MaxPacketSize \<Longrightarrow> int n < 2 ^ 63"
  by (simp add: MaxPacketSize_def)

lemma start_schema: "startEphemeralPacket n c = (c1, r) \<Longrightarrow>
    startEphemeralPacket n (c\<lparr>c_SchemaName := x\<rparr>) = (c1\<lparr>c_SchemaName := x\<rparr>, r)"
  by (auto simp: startEphemeralPacket_def split: if_splits)

lemma store_schema: "(storePacket d c)\<lparr>c_SchemaName := x\<rparr> = storePacket d (c\<lparr>c_SchemaName := x\<rparr>)"
  by (simp add: storePacket_def split: ephemeral_policy.split)

lemma short_lenEnc:
  assumes "n < 251"
  shows "lenEncInt_bytes (word_of_nat n) = [word_of_nat n]" "lenEncIntSize (word_of_nat n) = 1"
proof -
  have u: "unat (word_of_nat n :: u64) = n" using assms by (simp add: unsigned_of_nat take_bit_nat_eq_self)
  then have l: "(word_of_nat n :: u64) < 251" using assms by (simp add: word_less_nat_alt)
  have "(ucast (word_of_nat n :: u64) :: byte) = word_of_nat n"
    using assms by (simp add: word_unat_eq_iff unat_ucast_byte unsigned_of_nat take_bit_nat_eq_self)
  with l show "lenEncInt_bytes (word_of_nat n) = [word_of_nat n]" by (simp add: lenEncInt_bytes_def)
  from l show "lenEncIntSize (word_of_nat n) = 1" by (simp add: lenEncIntSize_def)
qed

lemma writeHandshakeResponse41_sent:
  assumes "ready c" "c_wbuf c = []" "response_ok cap scr params"
  defines "d \<equiv> c\<lparr>c_SchemaName := (if with_db cap params then p_DbName params else c_SchemaName c)\<rparr>"
  shows "\<exists>c'. writeHandshakeResponse41 cap scr cs params c = (c', Ok ()) \<and>
    sent True [concat (response_fields (response_flags c cap params) cap scr cs params)] d c'"
proof -
  let ?db = "with_db cap params" and ?lenenc = "cap AND CapabilityClientPluginAuthLenencClientData \<noteq> 0"
  let ?b = "response_fields (response_flags c cap params) cap scr cs params"
  define fs where "fs = [\<lambda>d p. writeUint32 d p (response_flags c cap params), \<lambda>d p. writeZeroes d p 4, \<lambda>d p. writeByte d p cs,
             \<lambda>d p. writeZeroes d p 23, \<lambda>d p. writeNullString d p (p_Uname params),
             if ?lenenc then (\<lambda>d p. writeLenEncInt d p (word_of_nat (length scr)))
             else (\<lambda>d p. writeByte d p (word_of_nat (length scr))),
             \<lambda>d p. writeEOFString d p scr] @
            (if ?db then [\<lambda>d p. writeNullString d p (p_DbName params)] else []) @
            [\<lambda>d p. writeNullString d p MysqlNativePassword]"
  let ?n = "4 + 4 + 1 + 23 + lenNullString (p_Uname params) + int (length scr) + 21 + 1 +
            (if ?db then lenNullString (p_DbName params) else 0) +
            (if ?lenenc then lenEncIntSize (word_of_nat (length scr)) else 1)"
  have short: "\<not> ?lenenc \<Longrightarrow> length scr < 251" using assms(3) by (auto simp: response_ok_def)
  have len: "int (length (concat ?b)) = ?n"
    using short_lenEnc [OF short] by (cases ?lenenc) (simp_all add: response_fields_def length_lenEncInt_bytes lenNullString_def native_name)
  have zero: "puts (\<lambda>d p. writeZeroes d p 4) (replicate 4 0)" "puts (\<lambda>d p. writeZeroes d p 23) (replicate 23 0)"
    using puts_writeZeroes [of 4] puts_writeZeroes [of 23] by simp_all
  have puts: "list_all2 puts fs ?b"
    using short_lenEnc(1) [OF short] by (cases ?lenenc) (simp_all add: fs_def response_fields_def puts_intros zero)
  have "ready d" "c_wbuf d = []" using assms(1,2) by (simp_all add: d_def ready_def up_def)
  then obtain c1 area c' where s: "startEphemeralPacket (length (concat ?b)) d = (c1, Ok area)" "length area = length (concat ?b)"
    "writeEphemeralPacket True (storePacket (concat ?b) c1) = (c', Ok ())" "sent True [concat ?b] d c'"
    using writeEphemeral_sent [of d True "concat ?b"] by blast
  have "int (length area) < 2 ^ 63" unfolding s(2) by (rule Max_small [OF response_length [OF assms(3)]])
  then have w: "writes fs area 0 = Ok (concat ?b, int (length area))"
    using writes_fill [OF puts s(2)] s(2) by simp
  obtain c0 where c0: "startEphemeralPacket (length (concat ?b)) c = (c0, Ok area)"
    and c1: "c1 = c0\<lparr>c_SchemaName := c_SchemaName d\<rparr>"
  proof -
    obtain c0 r where r: "startEphemeralPacket (length (concat ?b)) c = (c0, r)" by fastforce
    have "startEphemeralPacket (length (concat ?b)) d = (c0\<lparr>c_SchemaName := c_SchemaName d\<rparr>, r)"
      using start_schema [OF r, of "c_SchemaName d"] by (simp add: d_def)
    with s(1) r that show thesis by auto
  qed
  have n: "nat ?n = length (concat ?b)" using len by linarith
  have same: "c0\<lparr>c_SchemaName := c_SchemaName c\<rparr> = c0"
    using c0 by (auto simp: startEphemeralPacket_def split: if_splits)
  have "storePacket (concat ?b) c1 = (if ?db then (storePacket (concat ?b) c0)\<lparr>c_SchemaName := p_DbName params\<rparr> else storePacket (concat ?b) c0)"
    by (simp add: c1 d_def store_schema same)
  moreover have "fill fs area c0 = (storePacket (concat ?b) c0, Ok (int (length area)))"
    using w by (simp only: fill_def result.case prod.case)
  ultimately have "writeHandshakeResponse41 cap scr cs params c = (c', Ok ())"
    unfolding writeHandshakeResponse41_def Let_def n response_flags_def [symmetric] fs_def [symmetric]
    using c0 s(3) by (simp add: wrapErr_def bindC_def)
  with s(4) show ?thesis by blast
qed

lemma keepsEOF_bit: "keepsEOF v \<longleftrightarrow> \<not> bit v 24"
  unfolding keepsEOF_def CapabilityClientDeprecateEOF_def flag_bit ..

lemma response_flag_bits:
  fixes c :: Conn and cap :: u32 and params :: ConnParams
  defines "f \<equiv> response_flags c cap params"
  shows "f AND CapabilityClientProtocol41 \<noteq> 0" "0 < f AND CapabilityClientMultiStatements"
    "f AND CapabilityClientPluginAuthLenencClientData \<noteq> 0" "f AND CapabilityClientPluginAuth \<noteq> 0"
    "f AND CapabilityClientConnectWithDB = 0 \<longleftrightarrow> \<not> with_db cap params"
    "bit f 24 \<longleftrightarrow> bit (c_Capabilities c) 24"
  unfolding f_def response_flags_def client_flags_def capability_defs flag_bit flag_pos
  by (simp_all add: bit_or_iff bit_and_iff bit_push_bit_iff bit_simps)

text \<open>What the server keeps of the client's flags.\<close>

definition session_flags :: "u32 \<Rightarrow> u32" where
  "session_flags clientFlags =
     clientFlags AND (CapabilityClientDeprecateEOF OR CapabilityClientFoundRows) OR CapabilityClientMultiStatements"

lemma session_flags_bits:
  "keepsEOF (session_flags (response_flags c cap params)) = keepsEOF (c_Capabilities c)"
  "\<not> 0 < session_flags (response_flags c cap params) AND CapabilityClientSSL"
  using response_flag_bits(6) [of c cap params] unfolding session_flags_def keepsEOF_bit capability_defs flag_pos
  by (simp_all add: bit_or_iff bit_and_iff bit_push_bit_iff bit_simps)

lemma parse_response_fields:
  fixes c :: Conn and cap :: u32 and params :: ConnParams
  assumes "response_ok cap scr params" and that: "\<not> tls"
  defines "f \<equiv> response_flags c cap params"
  shows "parseClientHandshakePacket tls True (concat (response_fields f cap scr cs params)) d =
    (d\<lparr>c_Capabilities := session_flags f, c_CharacterSet := cs,
       c_SchemaName := (if with_db cap params then p_DbName params else c_SchemaName d)\<rparr>,
     Ok (p_Uname params, MysqlNativePassword, scr))"
proof -
  define b where "b = response_fields f cap scr cs params"
  note small = Max_small [OF response_length [OF assms(1), of f cs], folded b_def]
  note bits = response_flag_bits [of c cap params, folded f_def]
  have len: "7 < length b" by (simp add: b_def response_fields_def)
  have at: "b ! 0 = le32 f" "b ! 1 = replicate 4 0" "b ! 2 = [cs]" "b ! 3 = replicate 23 0" "b ! 4 = p_Uname params @ [0]"
    "b ! 5 = lenEncInt_bytes (word_of_nat (length scr))" "b ! 6 = scr"
    by (simp_all add: b_def response_fields_def)
  note to = read_off_to [OF _ _ small]
  have r0: "readUint32 (concat b) 0 = Ok (f, off b 1)"
    using to [of readUint32 0 f 1] len at(1) by (cases b) (simp_all add: gets_intros del: One_nat_def)
  have z: "replicate 4 0 = le32 0" by (simp add: le32_def eval_nat_numeral)
  have ri: "readUint32 (concat b) (off b 1) = Ok (0, off b 2)" "readByte (concat b) (off b 2) = Ok (cs, off b 3)"
    "readNullString (concat b) (off b 4) = Ok (p_Uname params, off b 5)"
    "readLenEncInt (concat b) (off b 5) = Ok (word_of_nat (length scr), off b 6)"
    by (rule to; use assms(1) len in \<open>simp add: at z gets_intros response_ok_def del: One_nat_def\<close>)+
  have sk: "wrap64 (off b 3 + 23) = off b 4" by (rule off_skip [OF _ _ small]) (use len in \<open>simp_all add: at\<close>)
  have "length scr < MaxPacketSize" using assms(1) by (simp add: response_ok_def)
  then have sn: "sint (word_of_nat (length scr) :: u64) = int (length scr)"
    using Max_small by (simp add: signed_of_nat signed_take_bit_int_eq_self)
  have rs: "readBytesCopy (concat b) (off b 6) (int (length scr)) = Ok (scr, off b 7)"
    by (rule to [where r = "\<lambda>d p. readBytesCopy d p _"]) (use len in \<open>simp_all add: at gets_readBytesCopy\<close>)
  have auth: "parseAuthResponse (concat b) f (off b 5) = Ok (scr, off b 7)"
    using bits(3) by (simp add: parseAuthResponse_def ri sn rs)
  have rem: "remember_flags True f d = d\<lparr>c_Capabilities := session_flags f\<rparr>"
    using bits(2) by (simp add: remember_flags_def session_flags_def Let_def)
  let ?d = "d\<lparr>c_Capabilities := session_flags f, c_CharacterSet := cs\<rparr>"
  show ?thesis
  proof (cases "with_db cap params")
    case True
    then have l: "length b = 9" "b ! 7 = p_DbName params @ [0]" "b ! 8 = MysqlNativePassword @ [0]"
      by (simp_all add: b_def response_fields_def)
    have rd: "readNullString (concat b) (off b 7) = Ok (p_DbName params, off b 8)"
      "readNullString (concat b) (off b 8) = Ok (MysqlNativePassword, off b 9)"
      by (rule to; use assms(1) in \<open>simp add: l gets_readNullString response_ok_def native_name\<close>)+
    have "parseClientHandshakePacket tls True (concat b) d =
        (?d\<lparr>c_SchemaName := p_DbName params\<rparr>, Ok (p_Uname params, MysqlNativePassword, scr))"
      using bits True that native_name(1)
      by (simp add: parseClientHandshakePacket_def rem r0 ri sk auth parseAuthMethod_def rd Let_def bindC_def del: One_nat_def)
    then show ?thesis using True by (simp add: b_def)
  next
    case False
    then have l: "length b = 8" "b ! 7 = MysqlNativePassword @ [0]"
      by (simp_all add: b_def response_fields_def)
    have rd: "readNullString (concat b) (off b 7) = Ok (MysqlNativePassword, off b 8)"
      by (rule to; simp add: l gets_readNullString native_name)
    have "parseClientHandshakePacket tls True (concat b) d = (?d, Ok (p_Uname params, MysqlNativePassword, scr))"
      using bits False that native_name(1)
      by (simp add: parseClientHandshakePacket_def rem r0 ri sk auth parseAuthMethod_def rd Let_def bindC_def del: One_nat_def)
    then show ?thesis using False by (simp add: b_def)
  qed
qed

lemma others_in_fields:
  assumes "others_in c' = others_in c"
  shows "c_output c' = c_output c" "c_wbuf c' = c_wbuf c" "c_down c' = c_down c" "c_werr c' = c_werr c"
    "c_Capabilities c' = c_Capabilities c" "c_StatusFlags c' = c_StatusFlags c" "c_SchemaName c' = c_SchemaName c"
    "c_User c' = c_User c"
  using arg_cong [OF assms, of c_output] arg_cong [OF assms, of c_wbuf] arg_cong [OF assms, of c_down]
    arg_cong [OF assms, of c_werr] arg_cong [OF assms, of c_Capabilities] arg_cong [OF assms, of c_StatusFlags]
    arg_cong [OF assms, of c_SchemaName] arg_cong [OF assms, of c_User]
  by (simp_all add: others_in_def)

lemma readPacketDirect_frames:
  assumes "read_ready c" "c_input c = frames (c_sequence c) d @ rest" "length d < MaxPacketSize"
  shows "\<exists>c'. readPacketDirect c = (c', Ok d) \<and> received [d] rest c c'"
proof -
  have "readHeader header_err c = (c\<lparr>c_input := d @ rest, c_sequence := c_sequence c + 1\<rparr>, Ok (length d))"
    by (rule readHeader_frame) (use assms in \<open>simp_all add: frames_small\<close>)
  then show ?thesis using assms(1,3)
    by (simp add: readPacketDirect_def ReadFullBuffer_def Let_def ReadFull_def received_def read_ready_def others_in_def
        after_packet_small)
qed

text \<open>
  The client's handshake response, read by the server, gives the server the user, the native password method, the
  scrambled password, the character set and, when the server supports it, the database; afterwards both sides agree
  whether EOF packets are used.\<close>

theorem handshake_response:
  assumes "ready c" "c_wbuf c = []" "response_ok cap scr params"
  shows "\<exists>c' w. writeHandshakeResponse41 cap scr cs params c = (c', Ok ()) \<and> wire c' = wire c @ w \<and>
    (\<forall>d rest. read_ready d \<longrightarrow> c_sequence d = c_sequence c \<longrightarrow> c_input d = w @ rest \<longrightarrow>
      (\<exists>d1 p d2. readPacketDirect d = (d1, Ok p) \<and> c_input d1 = rest \<and>
        parseClientHandshakePacket False True p d1 = (d2, Ok (p_Uname params, MysqlNativePassword, scr)) \<and>
        c_SchemaName d2 = (if with_db cap params then p_DbName params else c_SchemaName d) \<and> c_CharacterSet d2 = cs \<and>
        keepsEOF (c_Capabilities d2) = keepsEOF (c_Capabilities c)))"
proof -
  let ?f = "response_flags c cap params"
  let ?p = "concat (response_fields ?f cap scr cs params)"
  obtain c' where s: "writeHandshakeResponse41 cap scr cs params c = (c', Ok ())"
    "sent True [?p] (c\<lparr>c_SchemaName := (if with_db cap params then p_DbName params else c_SchemaName c)\<rparr>) c'"
    using writeHandshakeResponse41_sent [OF assms] by blast
  have w: "wire c' = wire c @ frames (c_sequence c) ?p" using s(2) by (auto simp: sent_def wire_def)
  have "\<exists>d1 p d2. readPacketDirect d = (d1, Ok p) \<and> c_input d1 = rest \<and>
        parseClientHandshakePacket False True p d1 = (d2, Ok (p_Uname params, MysqlNativePassword, scr)) \<and>
        c_SchemaName d2 = (if with_db cap params then p_DbName params else c_SchemaName d) \<and> c_CharacterSet d2 = cs \<and>
        keepsEOF (c_Capabilities d2) = keepsEOF (c_Capabilities c)"
    if dh: "read_ready d" "c_sequence d = c_sequence c" "c_input d = frames (c_sequence c) ?p @ rest" for d rest
  proof -
    obtain d1 where d1: "readPacketDirect d = (d1, Ok ?p)" "received [?p] rest d d1"
      using readPacketDirect_frames [of d ?p rest, OF _ _ response_length [OF assms(3)]] dh by auto
    have "c_SchemaName d1 = c_SchemaName d" "c_input d1 = rest"
      using d1(2) others_in_fields(7) [of d1 d] by (simp_all add: received_def)
    then show ?thesis using d1(1) parse_response_fields [OF assms(3), of False c cs d1] session_flags_bits(1) [of c cap params] by simp
  qed
  with s(1) w show ?thesis by blast
qed

definition sample_params :: ConnParams where
  "sample_params = \<lparr>p_Host = [], p_Uname = [117], p_Pass = [112], p_DbName = [100], p_Flags = 0\<rparr>"

theorem handshake_response_witness:
  "\<exists>c' w. writeHandshakeResponse41 (server_capabilities False) [1, 2] 33 sample_params (newConn [] Net_EOF) = (c', Ok ()) \<and>
    wire c' = wire (newConn [] Net_EOF) @ w \<and>
    (\<forall>d rest. read_ready d \<longrightarrow> c_sequence d = c_sequence (newConn [] Net_EOF) \<longrightarrow> c_input d = w @ rest \<longrightarrow>
      (\<exists>d1 p d2. readPacketDirect d = (d1, Ok p) \<and> c_input d1 = rest \<and>
        parseClientHandshakePacket False True p d1 = (d2, Ok (p_Uname sample_params, MysqlNativePassword, [1, 2])) \<and>
        c_SchemaName d2 = (if with_db (server_capabilities False) sample_params then p_DbName sample_params else c_SchemaName d) \<and>
        c_CharacterSet d2 = 33 \<and> keepsEOF (c_Capabilities d2) = keepsEOF (c_Capabilities (newConn [] Net_EOF))))"
  by (rule handshake_response [OF newConn_ready])
    (simp_all add: newConn_def response_ok_def sample_params_def MaxPacketSize_def)

end
