(* ===== verification/Mysql_Server.thy ===== *)
theory Mysql_Server
  imports Mysql_Handshake
begin

text \<open>
  The two programs that run over a connection: the server's \<open>handle\<close> (\<^verbatim>\<open>server.go\<close>), which greets and authenticates a
  client and then serves its commands one by one, and the client's side of the handshake (\<^verbatim>\<open>client.go\<close>).

  The interfaces \<open>AuthServer\<close> and \<open>Handler\<close> are arguments: the first is a record of its methods, with an instance for each
  of the two implementations; of the second \<^verbatim>\<open>ComQuery\<close> is a function that may call the callback any number of times.
  Logging, timings and counters are left out; TLS is transparent.
\<close>

section \<open>The interface of the authentication servers\<close>

record AuthServer =
  as_Salt :: "(conn_error, bytes) result"
  as_AuthMethod :: "bytes \<Rightarrow> (conn_error, bytes) result"
  as_ValidateHash :: "bytes \<Rightarrow> bytes \<Rightarrow> bytes \<Rightarrow> bool \<Rightarrow> (conn_error, bytes) result"
  as_Negotiate :: "bytes \<Rightarrow> bool \<Rightarrow> bytes conn_op"

text \<open>\<open>rnd\<close> are the random bytes drawn for the salt.\<close>

definition static_server :: "AuthServerStatic \<Rightarrow> bytes option \<Rightarrow> AuthServer" where
  "static_server a rnd = \<lparr>as_Salt = AuthServerStatic_Salt rnd, as_AuthMethod = AuthMethod a,
     as_ValidateHash = ValidateHash a, as_Negotiate = Negotiate a\<rparr>"

definition NoneGetter :: bytes where
  "NoneGetter = bytes_of ''userData1''"

definition AuthServerNone :: "bytes option \<Rightarrow> AuthServer" where
  "AuthServerNone rnd = \<lparr>as_Salt = NewSalt rnd, as_AuthMethod = (\<lambda>user. Ok MysqlNativePassword),
     as_ValidateHash = (\<lambda>salt user authResponse remote. Ok NoneGetter), as_Negotiate = (\<lambda>user remote. panicC)\<rparr>"

section \<open>The server's side of the handshake\<close>

record Listener =
  l_authServer :: AuthServer
  l_ServerVersion :: bytes
  l_TLSConfig :: bool
  l_AllowClearTextWithoutTLS :: bool

definition DefaultServerVersion :: bytes where
  "DefaultServerVersion = bytes_of ''5.5.10''"

definition NewFromListener :: "AuthServer \<Rightarrow> Listener" where
  "NewFromListener authServer = \<lparr>l_authServer = authServer, l_ServerVersion = DefaultServerVersion,
     l_TLSConfig = False, l_AllowClearTextWithoutTLS = False\<rparr>"

text \<open>\<^verbatim>\<open>c.writeErrorPacket...(...); return\<close>: a failure to write the error is ignored.\<close>

definition hangUp :: "unit conn_op \<Rightarrow> 'a conn_op" where
  "hangUp m c = (case m c of (c', Panic) \<Rightarrow> (c', Panic) | (c', _) \<Rightarrow> (c', Err (E_text ''connection refused'')))"

text \<open>The result of an interface method, with the error reported to the client.\<close>

definition orReport :: "(message \<Rightarrow> bytes) \<Rightarrow> 'a conn_op \<Rightarrow> 'a conn_op" where
  "orReport render m c = (case m c of
     (c', Ok x) \<Rightarrow> (c', Ok x) | (c', Err e) \<Rightarrow> hangUp (writeErrorPacketFromError render e) c' | (c', Panic) \<Rightarrow> (c', Panic))"

definition wantsNative :: "bytes \<Rightarrow> bytes" where
  "wantsNative authMethod = bytes_of ''Client asked for auth '' @ authMethod @ bytes_of '', but server wants auth mysql_native_password''"

definition noClearText :: bytes where
  "noClearText = bytes_of ''Cannot use clear text authentication over non-SSL connections.''"

definition setUser :: "bytes \<Rightarrow> bytes \<Rightarrow> unit conn_op" where
  "setUser user userData c = (c\<lparr>c_User := user, c_UserData := userData\<rparr>, Ok ())"

definition authenticate :: "Listener \<Rightarrow> (message \<Rightarrow> bytes) \<Rightarrow> bool \<Rightarrow> bytes \<Rightarrow> bytes \<times> bytes \<times> bytes \<Rightarrow> unit conn_op" where
  "authenticate l render remote salt = (\<lambda>(user, authMethod, authResponse).
     bindC (orReport render (\<lambda>c. (c, as_AuthMethod (l_authServer l) user))) (\<lambda>authServerMethod.
     if authServerMethod = MysqlNativePassword \<and> authMethod = MysqlNativePassword then
       bindC (orReport render (\<lambda>c. (c, as_ValidateHash (l_authServer l) salt user authResponse remote))) (setUser user)
     else if authServerMethod = MysqlNativePassword then
       hangUp (writeErrorPacket (of_int CRServerHandshakeErr) SSUnknownSQLState (wantsNative authMethod))
     else (\<lambda>c.
       if \<not> l_AllowClearTextWithoutTLS l \<and> c_Capabilities c AND CapabilityClientSSL = 0 then
         hangUp (writeErrorPacket (of_int CRServerHandshakeErr) SSUnknownSQLState noClearText) c
       else bindC (writeAuthSwitchRequest authServerMethod
                    (if authServerMethod = MysqlDialog then authServerDialogSwitchData else [])) (\<lambda>_.
         bindC (orReport render (as_Negotiate (l_authServer l) user remote)) (setUser user)) c)))"

definition readResponse :: "Listener \<Rightarrow> (bytes \<times> bytes \<times> bytes) conn_op" where
  "readResponse l =
     bindC readPacketDirect (\<lambda>response.
     bindC (parseClientHandshakePacket (l_TLSConfig l) True response) (\<lambda>first c.
       if 0 < c_Capabilities c AND CapabilityClientSSL then
         bindC readEphemeralPacket (\<lambda>response.
         bindC (parseClientHandshakePacket (l_TLSConfig l) False response) (\<lambda>second.
         bindC recycleReadPacket (\<lambda>_. okC second))) c
       else (c, Ok first)))"

definition serverHandshake :: "Listener \<Rightarrow> (message \<Rightarrow> bytes) \<Rightarrow> bool \<Rightarrow> unit conn_op" where
  "serverHandshake l render remote =
     bindC (writeHandshakeV10 (l_ServerVersion l) (as_Salt (l_authServer l)) (l_TLSConfig l)) (\<lambda>salt.
     bindC (readResponse l) (\<lambda>response.
     bindC (authenticate l render remote salt response) (\<lambda>_ c.
       writeOKPacket 0 0 (c_StatusFlags c) 0 c)))"

section \<open>Serving commands\<close>

datatype serving = Continue | Return

text \<open>\<^verbatim>\<open>if err := m(); err != nil { log; return }\<close> at the end of a command.\<close>

definition answer :: "unit conn_op \<Rightarrow> serving conn_op" where
  "answer m c = (case m c of (c', Ok _) \<Rightarrow> (c', Ok Continue) | (c', Err _) \<Rightarrow> (c', Ok Return) | (c', Panic) \<Rightarrow> (c', Panic))"

record query_state =
  q_conn :: Conn
  q_fieldSent :: bool
  q_sendFinished :: bool

type_synonym query_op = "query_state \<Rightarrow> query_state \<times> (conn_error, unit) result"

text \<open>\<^verbatim>\<open>ComQuery(c, query, callback)\<close>\<close>

type_synonym handler = "bytes \<Rightarrow> (Result \<Rightarrow> query_op) \<Rightarrow> query_op"

definition onConn :: "unit conn_op \<Rightarrow> query_op" where
  "onConn m q = (case m (q_conn q) of (c, r) \<Rightarrow> (q\<lparr>q_conn := c\<rparr>, r))"

definition queryCallback :: "Result \<Rightarrow> query_op" where
  "queryCallback qr q =
     (if q_sendFinished q then (q, Err E_EOF)
      else if \<not> q_fieldSent q then
        let q = q\<lparr>q_fieldSent := True\<rparr> in
        if r_Fields qr = [] then
          onConn (\<lambda>c. writeOKPacket (r_RowsAffected qr) (r_InsertID qr) (c_StatusFlags c) 0 c) (q\<lparr>q_sendFinished := True\<rparr>)
        else bindC (onConn (writeFields qr)) (\<lambda>_. onConn (writeRows qr)) q
      else onConn (writeRows qr) q)"

definition noResults :: conn_error where
  "noResults = SQLError ERUnknownError SSUnknownSQLState (Lit ''unexpected: query ended without no results and no error'')"

definition serveQuery :: "handler \<Rightarrow> (message \<Rightarrow> bytes) \<Rightarrow> bytes \<Rightarrow> serving conn_op" where
  "serveQuery h render query c =
     (case h query queryCallback \<lparr>q_conn = c, q_fieldSent = False, q_sendFinished = False\<rparr> of
        (q, Panic) \<Rightarrow> (q_conn q, Panic)
      | (q, r) \<Rightarrow>
          if \<not> q_fieldSent q then
            let err = (case r of Err e \<Rightarrow> if e = E_EOF then noResults else e | _ \<Rightarrow> noResults) in
            answer (writeErrorPacketFromError render err) (q_conn q)
          else (case r of
              Err e \<Rightarrow> (q_conn q, Ok Return)
            | _ \<Rightarrow> if \<not> q_sendFinished q then answer (writeEndResult False) (q_conn q) else (q_conn q, Ok Continue)))"

text \<open>The \<^verbatim>\<open>%v\<close> form of a slice of bytes.\<close>

fun join :: "bytes list \<Rightarrow> bytes" where
  "join [] = []"
| "join [s] = s"
| "join (s # ss) = s @ [32] @ join ss"

definition show_bytes :: "bytes \<Rightarrow> bytes" where
  "show_bytes bs = bytes_of ''['' @ join (map (\<lambda>b. decimal (unat b)) bs) @ bytes_of '']''"

definition ERUnknownComError :: int where "ERUnknownComError = 1047"
definition SSUnknownComError :: bytes where "SSUnknownComError = bytes_of ''08S01''"

definition writeUnknownCom :: "bytes \<Rightarrow> unit conn_op" where
  "writeUnknownCom text = writeErrorPacket (of_int ERUnknownComError) SSUnknownComError text"

text \<open>This branch does not recycle the packet that was read.\<close>

definition serveSetOption :: "bytes \<Rightarrow> serving conn_op" where
  "serveSetOption data =
     (let unhandled = writeUnknownCom (bytes_of ''error handling packet: '' @ show_bytes data) in
      case parseComSetOption data of
        Ok (operation, _) \<Rightarrow>
          if operation = 0 then
            setC (\<lambda>c. c\<lparr>c_Capabilities := c_Capabilities c OR CapabilityClientMultiStatements\<rparr>) (answer (writeEndResult False))
          else if operation = 1 then
            setC (\<lambda>c. c\<lparr>c_Capabilities := c_Capabilities c AND NOT CapabilityClientMultiStatements\<rparr>) (answer (writeEndResult False))
          else bindC (answer unhandled) (\<lambda>s. if s = Return then okC Return else answer (writeEndResult False))
      | Err _ \<Rightarrow> answer unhandled
      | Panic \<Rightarrow> panicC)"

definition writeStatusOK :: "unit conn_op" where
  "writeStatusOK c = writeOKPacket 0 0 (c_StatusFlags c) 0 c"

definition dispatch :: "handler \<Rightarrow> (message \<Rightarrow> bytes) \<Rightarrow> bytes \<Rightarrow> serving conn_op" where
  "dispatch h render data =
     (if data = [] then panicC
      else if hd data = ComQuit then bindC recycleReadPacket (\<lambda>_. okC Return)
      else if hd data = ComInitDB then
        tryC (parseComInitDB data) E_EOF (\<lambda>db.
        bindC recycleReadPacket (\<lambda>_. setC (\<lambda>c. c\<lparr>c_SchemaName := db\<rparr>) (answer writeStatusOK)))
      else if hd data = ComQuery then
        tryC (parseComQuery data) E_EOF (\<lambda>query. bindC recycleReadPacket (\<lambda>_. serveQuery h render query))
      else if hd data = ComPing then bindC recycleReadPacket (\<lambda>_. answer writeStatusOK)
      else if hd data = ComSetOption then serveSetOption data
      else bindC recycleReadPacket (\<lambda>_.
        answer (writeUnknownCom (bytes_of ''command handling not implemented yet: '' @ decimal (unat (hd data))))))"

text \<open>One turn of the loop of \<open>handle\<close>, and the loop; the deferred function catches a panic and closes the connection.\<close>

definition serveCommand :: "handler \<Rightarrow> (message \<Rightarrow> bytes) \<Rightarrow> serving conn_op" where
  "serveCommand h render c =
     (case readEphemeralPacket (c\<lparr>c_sequence := 0\<rparr>) of
        (c, Ok data) \<Rightarrow> dispatch h render data c
      | (c, Err _) \<Rightarrow> (c, Ok Return)
      | (c, Panic) \<Rightarrow> (c, Panic))"

partial_function (option) serveLoop :: "handler \<Rightarrow> (message \<Rightarrow> bytes) \<Rightarrow> Conn \<Rightarrow> Conn option" where
  "serveLoop h render c =
     (case serveCommand h render c of
        (c', Ok Continue) \<Rightarrow> serveLoop h render c'
      | (c', _) \<Rightarrow> Some c')"

definition handle :: "Listener \<Rightarrow> handler \<Rightarrow> (Conn \<Rightarrow> Conn) \<Rightarrow> (message \<Rightarrow> bytes) \<Rightarrow> bool \<Rightarrow> u32 \<Rightarrow> Conn \<Rightarrow> Conn option" where
  "handle l h NewConnection render remote connectionID c =
     (case serverHandshake l render remote (NewConnection (c\<lparr>c_ConnectionID := connectionID\<rparr>)) of
        (c, Ok _) \<Rightarrow> map_option (\<lambda>c. c\<lparr>c_down := True\<rparr>) (serveLoop h render c)
      | (c, _) \<Rightarrow> Some (c\<lparr>c_down := True\<rparr>))"

section \<open>The client\<close>

definition CRVersionTooOld :: conn_error where
  "CRVersionTooOld = NewSQLError CRVersionError SSUnknownSQLState (Lit ''cannot connect to servers earlier than 4.1'')"

text \<open>\<open>tlsConfig\<close>: the client's certificates could be loaded.  The writer is reset to the TLS connection.\<close>

definition switchToSSL :: "bool \<Rightarrow> u32 \<Rightarrow> byte \<Rightarrow> ConnParams \<Rightarrow> unit conn_op" where
  "switchToSSL tlsConfig capabilities characterSet params =
     (if 0 < p_Flags params AND ucast CapabilityClientSSL then
        if capabilities AND CapabilityClientSSL = 0 then
          failC (NewSQLError CRSSLConnectionError SSUnknownSQLState (Lit ''server doesn't support SSL but client asked for it''))
        else if \<not> tlsConfig then
          failC (NewSQLError CRSSLConnectionError SSUnknownSQLState (Lit ''error loading client cert and ca''))
        else bindC (writeSSLRequest capabilities characterSet params) (\<lambda>_ c.
          (c\<lparr>c_wbuf := [], c_werr := False, c_Capabilities := c_Capabilities c OR CapabilityClientSSL\<rparr>, Ok ()))
      else okC ())"

definition cannotParse :: conn_error where
  "cannotParse = NewSQLError CRServerHandshakeErr SSUnknownSQLState (Lit ''initial server response cannot be parsed'')"

text \<open>\<^verbatim>\<open>response[0]\<close> panics on an empty packet.\<close>

definition acceptOK :: "ConnParams \<Rightarrow> bytes \<Rightarrow> unit conn_op" where
  "acceptOK params response =
     (if response = [] then panicC
      else if hd response = OKPacket then setC (\<lambda>c. c\<lparr>c_User := p_Uname params\<rparr>) (okC ())
      else if hd response = ErrPacket then (\<lambda>c. (c, ParseErrorPacket response))
      else failC cannotParse)"

definition handshakeErr :: "string \<Rightarrow> conn_error" where
  "handshakeErr text = NewSQLError CRServerHandshakeErr SSUnknownSQLState (Lit text)"

definition readAuthResult :: "ConnParams \<Rightarrow> unit conn_op" where
  "readAuthResult params =
     bindC (wrapErr serverLost readPacket) (\<lambda>response.
       if response \<noteq> [] \<and> hd response = AuthSwitchRequestPacket then
         bindC (wrapErr (\<lambda>_. handshakeErr ''cannot parse auth switch request'') (\<lambda>c. (c, parseAuthSwitchRequest response)))
           (\<lambda>(pluginName, _).
             if pluginName \<noteq> MysqlClearPassword then failC (handshakeErr ''server asked for unsupported auth method'')
             else bindC (writeClearTextPassword params) (\<lambda>_. bindC (wrapErr serverLost readPacket) (acceptOK params)))
       else acceptOK params response)"

definition selectDatabase :: "u32 \<Rightarrow> ConnParams \<Rightarrow> unit conn_op" where
  "selectDatabase capabilities params =
     (if capabilities AND CapabilityClientConnectWithDB = 0 \<and> p_DbName params \<noteq> [] then
        bindC (writeComInitDB (p_DbName params)) (\<lambda>_.
        bindC (wrapErr serverLost readPacket) (\<lambda>response.
          if response = [] then panicC
          else if hd response = OKPacket then okC ()
          else if hd response = ErrPacket then (\<lambda>c. (c, ParseErrorPacket response))
          else failC (handshakeErr ''initial server response is asking for more information, not implemented yet'')))
      else okC ())"

definition clientHandshake :: "bool \<Rightarrow> byte \<Rightarrow> ConnParams \<Rightarrow> unit conn_op" where
  "clientHandshake tlsConfig characterSet params =
     bindC (wrapErr serverLost readPacket) (\<lambda>data.
     bindC (parseInitialHandshakePacket data) (\<lambda>(capabilities, salt).
     if capabilities AND CapabilityClientProtocol41 = 0 then failC CRVersionTooOld
     else setC (\<lambda>c. c\<lparr>c_Capabilities := capabilities AND CapabilityClientDeprecateEOF\<rparr>) (
       bindC (switchToSSL tlsConfig capabilities characterSet params) (\<lambda>_.
       bindC (writeHandshakeResponse41 capabilities (scramblePassword salt (p_Pass params)) characterSet params) (\<lambda>_.
       bindC (readAuthResult params) (\<lambda>_. selectDatabase capabilities params))))))"

definition writeComQuit :: "unit conn_op" where
  "writeComQuit c =
     bindC (startEphemeralPacket 1) (\<lambda>data.
     bindC (fill [\<lambda>d p. writeByte d p ComQuit] data)
       (\<lambda>pos. wrapErr serverGone (writeEphemeralPacket True))) (c\<lparr>c_sequence := 0\<rparr>)"

definition Conn_Close :: "Conn \<Rightarrow> Conn" where
  "Conn_Close c = c\<lparr>c_Closed := True, c_down := True\<rparr>"

definition CRNamedPipeStateError :: int where "CRNamedPipeStateError = 2018"
definition ERQueryInterrupted :: int where "ERQueryInterrupted = 1317"

fun IsConnErr :: "conn_error \<Rightarrow> bool" where
  "IsConnErr (SQLError num _ _) \<longleftrightarrow> CRUnknownError \<le> num \<and> num \<le> CRNamedPipeStateError \<or> num = ERQueryInterrupted"
| "IsConnErr _ \<longleftrightarrow> False"

end
