(* ===== verification/Mysql_Session.thy ===== *)
theory Mysql_Session
  imports Mysql_Server
begin

text \<open>
  Client and server together.  A run of both is given by the bytes each sends: the client reads what the server wrote and
  the server reads what the client wrote.  The theorems compose the packet lemmas of \<open>Mysql_Result\<close> and
  \<open>Mysql_Handshake\<close> into whole exchanges.
\<close>

section \<open>A command\<close>

lemma wrapped_send:
  "bindC a (\<lambda>d. bindC (f d) (\<lambda>p. w)) c = (c', Ok x) \<Longrightarrow> bindC a (\<lambda>d. bindC (f d) (\<lambda>p. wrapErr g w)) c = (c', Ok x)"
  by (simp only: bindC_Ok_iff wrapErr_Ok_iff)

lemma WriteComQuery_sent:
  assumes "ready c" "c_wbuf c = []" "int (length query) + 1 < 2 ^ 63"
  shows "\<exists>c'. WriteComQuery query c = (c', Ok ()) \<and> sent True [ComQuery # query] (c\<lparr>c_sequence := 0\<rparr>) c'"
proof -
  let ?fs = "[\<lambda>d p. writeByte d p ComQuery, \<lambda>d p. writeEOFString d p query]"
  have "sends (\<lambda>_. True) True (bindC (startEphemeralPacket (nat (int (length query) + 1)))
      (\<lambda>data. bindC (fill ?fs data) (\<lambda>pos. writeEphemeralPacket True))) [concat [[ComQuery], query]]"
    by (rule sends_fill) (use assms(3) in \<open>simp_all add: puts_intros\<close>)
  moreover have "ready (c\<lparr>c_sequence := 0\<rparr>)" "c_wbuf (c\<lparr>c_sequence := 0\<rparr>) = []"
    using assms(1,2) by (simp_all add: ready_def up_def)
  ultimately obtain c' where "bindC (startEphemeralPacket (nat (int (length query) + 1)))
      (\<lambda>data. bindC (fill ?fs data) (\<lambda>pos. writeEphemeralPacket True)) (c\<lparr>c_sequence := 0\<rparr>) = (c', Ok ())"
    "sent True [ComQuery # query] (c\<lparr>c_sequence := 0\<rparr>) c'"
    unfolding sends_def by fastforce
  then show ?thesis
    unfolding WriteComQuery_def by - (rule exI [of _ c'], rule conjI, rule wrapped_send)
qed

lemma sent_facts:
  assumes "sent True ps c c'" "c_wbuf c = []"
  shows "c_output c' = c_output c @ stream (c_sequence c) ps" "ready c'" "read_ready c'" "c_wbuf c' = []"
    "c_sequence c' = after_packets (c_sequence c) ps" "c_input c' = c_input c" "c_Capabilities c' = c_Capabilities c"
    "c_StatusFlags c' = c_StatusFlags c" "c_SchemaName c' = c_SchemaName c" "c_User c' = c_User c"
  using assms by (auto simp: sent_def wire_def ready_def read_ready_def others_def dest: arg_cong [of _ _ c_input]
      arg_cong [of _ _ c_Capabilities] arg_cong [of _ _ c_StatusFlags] arg_cong [of _ _ c_SchemaName] arg_cong [of _ _ c_User])

lemma received_facts:
  assumes "received ps rest c c'" "up c"
  shows "c_output c' = c_output c" "ready c'" "read_ready c'" "c_wbuf c' = c_wbuf c" "c_input c' = rest"
    "c_sequence c' = after_packets (c_sequence c) ps" "c_Capabilities c' = c_Capabilities c" "c_StatusFlags c' = c_StatusFlags c"
    "c_SchemaName c' = c_SchemaName c"
proof -
  have "others_in c' = others_in c" using assms(1) by (simp add: received_def)
  note e = others_in_fields [OF this]
  then show "c_output c' = c_output c" "c_wbuf c' = c_wbuf c" "c_Capabilities c' = c_Capabilities c"
    "c_StatusFlags c' = c_StatusFlags c" "c_SchemaName c' = c_SchemaName c"
    by simp_all
  from e show "ready c'" using assms by (simp add: received_def read_ready_def ready_def up_def)
qed (use assms in \<open>simp_all add: received_def\<close>)

text \<open>A command packet that has arrived whole is dispatched, and can be recycled.\<close>

lemma serve_packet:
  assumes "ready s" "c_input s = frames 0 d @ rest" "d \<noteq> []"
  shows "\<exists>s1 s2. serveCommand h render s = dispatch h render d s1 \<and> recycleReadPacket s1 = (s2, Ok ()) \<and>
    received [d] rest (s\<lparr>c_sequence := 0\<rparr>) s2"
proof -
  have "read_ready (s\<lparr>c_sequence := 0\<rparr>)" "c_input (s\<lparr>c_sequence := 0\<rparr>) = frames (c_sequence (s\<lparr>c_sequence := 0\<rparr>)) d @ rest"
    using assms(1,2) by (simp_all add: ready_def read_ready_def)
  from readEphemeral_frames [OF this assms(3)] show ?thesis by (auto simp: serveCommand_def)
qed

lemma serve_ComQuery:
  assumes "ready s" "c_input s = frames 0 (ComQuery # query) @ rest"
  shows "\<exists>s2. serveCommand h render s = serveQuery h render query s2 \<and> received [ComQuery # query] rest (s\<lparr>c_sequence := 0\<rparr>) s2"
proof -
  obtain s1 s2 where s: "serveCommand h render s = dispatch h render (ComQuery # query) s1" "recycleReadPacket s1 = (s2, Ok ())"
    "received [ComQuery # query] rest (s\<lparr>c_sequence := 0\<rparr>) s2"
    using serve_packet [OF assms, of h render] by auto
  have "parseComQuery (ComQuery # query) = Ok query"
    by (simp add: parseComQuery_def go_slice_def nat_add_distrib)
  with s(1,2) have "serveCommand h render s = serveQuery h render query s2"
    by (simp add: dispatch_def ComQuery_def ComQuit_def ComInitDB_def)
  with s(3) show ?thesis by blast
qed

section \<open>What a handler streams\<close>

text \<open>A handler that passes the results \<open>rs\<close> to the callback one after the other.\<close>

fun sendAll :: "(Result \<Rightarrow> query_op) \<Rightarrow> Result list \<Rightarrow> query_op" where
  "sendAll cb [] = okC ()"
| "sendAll cb (r # rs) = bindC (cb r) (\<lambda>_. sendAll cb rs)"

definition streamed :: "Result \<Rightarrow> Result list \<Rightarrow> Result" where
  "streamed r rs = r\<lparr>r_Rows := r_Rows r @ concat (map r_Rows rs)\<rparr>"

lemma sendAll_rows:
  assumes "\<forall>r \<in> set rs. \<forall>row \<in> set (r_Rows r). int (length (row_bytes row)) < 2 ^ 63"
    and "ready (q_conn q)" "q_fieldSent q" "\<not> q_sendFinished q"
  shows "\<exists>c'. sendAll queryCallback rs q = (q\<lparr>q_conn := c'\<rparr>, Ok ()) \<and>
    sent False (map row_bytes (concat (map r_Rows rs))) (q_conn q) c'"
  using assms
proof (induction rs arbitrary: q)
  case Nil
  then show ?case by (intro exI [of _ "q_conn q"]) (simp add: sent_def)
next
  case (Cons r rs)
  obtain c1 where 1: "writeRows r (q_conn q) = (c1, Ok ())" "sent False (map row_bytes (r_Rows r)) (q_conn q) c1"
    using sends_writeRowsLoop [of "r_Rows r" "\<lambda>_. True"] Cons.prems by (auto simp: sends_def writeRows_def)
  have "ready c1" using 1(2) by (simp add: sent_def)
  then obtain c2 where "sendAll queryCallback rs (q\<lparr>q_conn := c1\<rparr>) = (q\<lparr>q_conn := c2\<rparr>, Ok ())"
    "sent False (map row_bytes (concat (map r_Rows rs))) c1 c2"
    using Cons.IH [of "q\<lparr>q_conn := c1\<rparr>"] Cons.prems by auto
  moreover from this(2) 1(2) have "sent False (map row_bytes (concat (map r_Rows (r # rs)))) (q_conn q) c2"
    using sent_trans by fastforce
  moreover have "queryCallback r q = (q\<lparr>q_conn := c1\<rparr>, Ok ())"
    using 1(1) Cons.prems by (simp add: queryCallback_def onConn_def)
  ultimately show ?case by auto
qed

lemma serveQuery_streams:
  assumes "ready s" "result_ok (streamed r rs)" "\<And>cb. h query cb = sendAll cb (r # rs)"
  shows "\<exists>s'. serveQuery h render query s = (s', Ok Continue) \<and>
    sent True (result_packets (c_Capabilities s) (c_StatusFlags s) (streamed r rs)) s s'"
proof -
  let ?cap = "c_Capabilities s" and ?fl = "c_StatusFlags s"
  let ?q = "\<lparr>q_conn = s, q_fieldSent = False, q_sendFinished = False\<rparr>"
  have ok: "r_Fields r \<noteq> []" "\<forall>f \<in> set (r_Fields r). column_ok f"
    "\<forall>x \<in> set (r # rs). \<forall>row \<in> set (r_Rows x). int (length (row_bytes row)) < 2 ^ 63"
    using assms(2) by (auto simp: result_ok_def streamed_def row_ok_def)
  have settings_here: "settings ?cap ?fl s" by (simp add: settings_def)
  obtain c1 where 1: "writeFields r s = (c1, Ok ())" "sent False ([lenEncInt_bytes (word_of_nat (length (r_Fields r)))] @
      map (\<lambda>f. concat (column_fields f)) (r_Fields r) @ eof_packets ?cap ?fl) s c1"
    using sends_writeFields [OF ok(2), of ?cap ?fl] assms(1) settings_here by (auto simp: sends_def)
  have "ready c1" using 1(2) by (simp add: sent_def)
  then obtain c2 where 2: "sendAll queryCallback (r # rs) (?q\<lparr>q_conn := c1, q_fieldSent := True\<rparr>) =
      (?q\<lparr>q_conn := c2, q_fieldSent := True\<rparr>, Ok ())"
    "sent False (map row_bytes (concat (map r_Rows (r # rs)))) c1 c2"
    using sendAll_rows [OF ok(3), of "?q\<lparr>q_conn := c1, q_fieldSent := True\<rparr>"] by auto
  have "queryCallback r ?q = queryCallback r (?q\<lparr>q_conn := c1, q_fieldSent := True\<rparr>)"
    using ok(1) 1(1) by (simp add: queryCallback_def onConn_def)
  then have run: "h query queryCallback ?q = (?q\<lparr>q_conn := c2, q_fieldSent := True\<rparr>, Ok ())"
    using 2(1) by (simp add: assms(3) bindC_def)
  have set2: "settings ?cap ?fl c2" "ready c2"
    using sent_settings [OF 1(2)] sent_settings [OF 2(2)] 2(2) settings_here by (simp_all add: sent_def)
  obtain c3 where 3: "writeEndResult False c2 = (c3, Ok ())" "sent True [end_packet ?cap ?fl] c2 c3"
    using writeEndResult_sent [OF set2] by blast
  have "sent True (result_packets ?cap ?fl (streamed r rs)) s c3"
    using 1(2) 2(2) 3(2) by (simp add: sent_def result_packets_def streamed_def stream_append after_packets_append)
  moreover have "serveQuery h render query s = (c3, Ok Continue)"
    using run 3(1) by (simp add: serveQuery_def answer_def)
  ultimately show ?thesis by blast
qed

section \<open>A query from end to end\<close>

text \<open>
  C2: A query from end to end: when the server's handler streams a result in any number of pieces, the client that sends
  the query receives exactly that result, as \<open>received_result\<close> describes it; each side reads all the other side wrote, and
  both connections are ready for the next command.\<close>

theorem query_end_to_end:
  assumes "ready c" "c_wbuf c = []" "ready s" "c_wbuf s = []"
    and "keepsEOF (c_Capabilities c) = keepsEOF (c_Capabilities s)" "int (length query) + 1 < 2 ^ 63"
    and "result_ok (streamed r rs)" "maxrows < 0 \<or> int (length (r_Rows (streamed r rs))) \<le> maxrows"
    and "\<And>cb. h query cb = sendAll cb (r # rs)"
  shows "\<exists>request reply c' s'.
    ExecuteFetch query maxrows True (c\<lparr>c_input := reply\<rparr>) = (c', Ok (received_result (streamed r rs))) \<and>
    c_output c' = c_output c @ request \<and> c_input c' = [] \<and> ready c' \<and> c_wbuf c' = [] \<and>
    serveCommand h render (s\<lparr>c_input := request\<rparr>) = (s', Ok Continue) \<and>
    c_output s' = c_output s @ reply \<and> c_input s' = [] \<and> ready s' \<and> c_wbuf s' = []"
proof -
  let ?d = "ComQuery # query" and ?ps = "result_packets (c_Capabilities s) (c_StatusFlags s) (streamed r rs)"
  let ?request = "frames 0 ?d" and ?n = "after_packet 0 ?d"
  have "ready (s\<lparr>c_input := ?request\<rparr>)" using assms(3) by (simp add: ready_def up_def)
  then obtain s2 where s2: "serveCommand h render (s\<lparr>c_input := ?request\<rparr>) = serveQuery h render query s2"
    "received [?d] [] (s\<lparr>c_input := ?request, c_sequence := 0\<rparr>) s2"
    using serve_ComQuery [of "s\<lparr>c_input := ?request\<rparr>" query "[]" h render] by auto
  have up: "up (s\<lparr>c_input := ?request, c_sequence := 0\<rparr>)" using assms(3) by (simp add: ready_def up_def)
  note f2 = received_facts [OF s2(2) up, simplified]
  obtain s' where s': "serveQuery h render query s2 = (s', Ok Continue)" "sent True ?ps s2 s'"
    using serveQuery_streams [where h = h and query = query, OF f2(2) assms(7,9)] f2(7,8) by auto
  note f3 = sent_facts [OF s'(2)]
  let ?reply = "stream ?n ?ps"
  have "ready (c\<lparr>c_input := ?reply\<rparr>)" using assms(1) by (simp add: ready_def up_def)
  then obtain c1 where c1: "WriteComQuery query (c\<lparr>c_input := ?reply\<rparr>) = (c1, Ok ())"
    "sent True [?d] (c\<lparr>c_input := ?reply, c_sequence := 0\<rparr>) c1"
    using WriteComQuery_sent [of "c\<lparr>c_input := ?reply\<rparr>" query] assms(2,6) by auto
  note g = sent_facts [OF c1(2), simplified, OF assms(2)]
  have "eof_mode (keepsEOF (c_Capabilities s)) (others_in c1)" using g(7) assms(5) by (simp add: eof_mode_def others_in_def)
  from receivesD [OF receives_ReadQueryResult [OF assms(7,8), where fl = "c_StatusFlags s"] this g(3), where rest = "[]"]
  obtain c' where c': "ReadQueryResult maxrows True c1 = (c', Ok (received_result (streamed r rs)))" "received ?ps [] c1 c'"
    using g(5,6) by auto
  note g2 = received_facts [OF c'(2) ready_up [OF g(2)]]
  have "ExecuteFetch query maxrows True (c\<lparr>c_input := ?reply\<rparr>) = (c', Ok (received_result (streamed r rs)))"
    using c1(1) c'(1) by (simp add: ExecuteFetch_def)
  then show ?thesis
    using s2(1) s'(1) f2 f3 g g2 assms(4)
    by (intro exI [of _ ?request] exI [of _ ?reply] exI [of _ c'] exI [of _ s']) simp
qed

definition sample_handler :: handler where
  "sample_handler query cb = sendAll cb [sample_result]"

theorem query_end_to_end_witness:
  "\<exists>request reply c' s'.
    ExecuteFetch [113] (- 1) True ((newConn [] Net_EOF)\<lparr>c_input := reply\<rparr>) = (c', Ok (received_result (streamed sample_result []))) \<and>
    c_output c' = c_output (newConn [] Net_EOF) @ request \<and> c_input c' = [] \<and> ready c' \<and> c_wbuf c' = [] \<and>
    serveCommand sample_handler (\<lambda>_. []) ((newConn [] Net_EOF)\<lparr>c_input := request\<rparr>) = (s', Ok Continue) \<and>
    c_output s' = c_output (newConn [] Net_EOF) @ reply \<and> c_input s' = [] \<and> ready s' \<and> c_wbuf s' = []"
proof -
  have "streamed sample_result [] = sample_result" by (simp add: streamed_def)
  then show ?thesis
    by (intro query_end_to_end newConn_ready) (simp_all add: newConn_def sample_result_ok sample_handler_def fun_eq_iff)
qed


section \<open>Replies of one packet\<close>

lemma one_packet_reply:
  assumes "ready c" "c_wbuf c = []" "ready s" "c_wbuf s = []" "int (length query) + 1 < 2 ^ 63" "p \<noteq> []"
    and "\<And>s2. ready s2 \<Longrightarrow> c_wbuf s2 = [] \<Longrightarrow> c_StatusFlags s2 = c_StatusFlags s \<Longrightarrow>
      \<exists>s'. serveQuery h render query s2 = (s', Ok Continue) \<and> sent True [p] s2 s'"
    and "parseComQueryResponse p = Err e \<and> res = Err e \<or> parseComQueryResponse p = Ok (a, l, 0) \<and>
      res = Ok \<lparr>r_Fields = [], r_RowsAffected = a, r_InsertID = l, r_Rows = []\<rparr>"
  shows "\<exists>request reply c' s'. ExecuteFetch query maxrows wantfields (c\<lparr>c_input := reply\<rparr>) = (c', res) \<and>
    c_output c' = c_output c @ request \<and> c_input c' = [] \<and> ready c' \<and> c_wbuf c' = [] \<and>
    serveCommand h render (s\<lparr>c_input := request\<rparr>) = (s', Ok Continue) \<and>
    c_output s' = c_output s @ reply \<and> c_input s' = [] \<and> ready s' \<and> c_wbuf s' = []"
proof -
  let ?d = "ComQuery # query"
  let ?request = "frames 0 ?d" and ?reply = "frames (after_packet 0 ?d) p"
  have "ready (s\<lparr>c_input := ?request\<rparr>)" using assms(3) by (simp add: ready_def up_def)
  then obtain s2 where s2: "serveCommand h render (s\<lparr>c_input := ?request\<rparr>) = serveQuery h render query s2"
    "received [?d] [] (s\<lparr>c_input := ?request, c_sequence := 0\<rparr>) s2"
    using serve_ComQuery [of "s\<lparr>c_input := ?request\<rparr>" query "[]" h render] by auto
  have up: "up (s\<lparr>c_input := ?request, c_sequence := 0\<rparr>)" using assms(3) by (simp add: ready_def up_def)
  note f2 = received_facts [OF s2(2) up, simplified]
  obtain s' where s': "serveQuery h render query s2 = (s', Ok Continue)" "sent True [p] s2 s'"
    using assms(7) [OF f2(2)] f2(4,8) assms(4) by auto
  note f3 = sent_facts [OF s'(2)]
  have "ready (c\<lparr>c_input := ?reply\<rparr>)" using assms(1) by (simp add: ready_def up_def)
  then obtain c1 where c1: "WriteComQuery query (c\<lparr>c_input := ?reply\<rparr>) = (c1, Ok ())"
    "sent True [?d] (c\<lparr>c_input := ?reply, c_sequence := 0\<rparr>) c1"
    using WriteComQuery_sent [of "c\<lparr>c_input := ?reply\<rparr>" query] assms(2,5) by auto
  note g = sent_facts [OF c1(2), simplified, OF assms(2)]
  obtain c2 c' where c': "readEphemeralPacket c1 = (c2, Ok p)" "recycleReadPacket c2 = (c', Ok ())" "received [p] [] c1 c'"
    using readEphemeral_frames [OF g(3), of p "[]"] g(5,6) assms(6) by auto
  then have "readComQueryResponse c1 = (c', parseComQueryResponse p)" by (simp add: readComQueryResponse_def readRecycled_def)
  then have "ExecuteFetch query maxrows wantfields (c\<lparr>c_input := ?reply\<rparr>) = (c', res)"
    using c1(1) assms(8) by (auto simp: ExecuteFetch_def ReadQueryResult_def)
  then show ?thesis
    using s2(1) s'(1) f2 f3 g received_facts [OF c'(3) ready_up [OF g(2)]] assms(4)
    by (intro exI [of _ ?request] exI [of _ ?reply] exI [of _ c'] exI [of _ s']) simp
qed

text \<open>
  An error from end to end: when the handler fails with an SQL error before it has sent anything, the client's query
  returns that error with its code (as 16 bits), state and formatted message, and both connections are ready for the next
  command.\<close>

theorem error_end_to_end:
  assumes "ready c" "c_wbuf c = []" "ready s" "c_wbuf s = []" "int (length query) + 1 < 2 ^ 63"
    and "length state = 5" "int (length (render msg)) + 9 < 2 ^ 63"
    and "\<And>cb q. h query cb q = (q, Err (SQLError num state msg))"
  shows "\<exists>request reply c' s'.
    ExecuteFetch query maxrows wantfields (c\<lparr>c_input := reply\<rparr>) =
      (c', Err (SQLError (uint (of_int num :: u16)) state (Raw (render msg)))) \<and>
    c_output c' = c_output c @ request \<and> c_input c' = [] \<and> ready c' \<and> c_wbuf c' = [] \<and>
    serveCommand h render (s\<lparr>c_input := request\<rparr>) = (s', Ok Continue) \<and>
    c_output s' = c_output s @ reply \<and> c_input s' = [] \<and> ready s' \<and> c_wbuf s' = []"
proof -
  let ?p = "concat (error_fields (of_int num) state (render msg))"
  have ne: "?p \<noteq> []" by (simp add: error_fields_def)
  have serve: "\<exists>s'. serveQuery h render query s2 = (s', Ok Continue) \<and> sent True [?p] s2 s'"
    if r: "ready s2" "c_wbuf s2 = []" for s2
  proof -
    obtain s' where "writeErrorPacket (of_int num) state (render msg) s2 = (s', Ok ())" "sent True [?p] s2 s'"
      using sends_writeErrorPacket [OF assms(6,7), of "\<lambda>_. True" "of_int num"] r by (auto simp: sends_def)
    then show ?thesis by (simp add: serveQuery_def assms(8) answer_def writeErrorPacketFromError_def)
  qed
  have "parseComQueryResponse ?p = Err (SQLError (uint (of_int num :: u16)) state (Raw (render msg)))"
    using ParseErrorPacket_fields [OF assms(6,7), of "of_int num"]
    by (simp add: parseComQueryResponse_def error_fields_def ErrPacket_def OKPacket_def)
  then show ?thesis by (intro one_packet_reply [OF assms(1-5) ne] serve) simp_all
qed

definition failing_handler :: handler where
  "failing_handler query cb q = (q, Err (SQLError ERUnknownError SSUnknownSQLState (Raw [110, 111])))"

definition plain :: "message \<Rightarrow> bytes" where
  "plain m = (case m of Raw b \<Rightarrow> b | OfErr _ \<Rightarrow> [] | Lit s \<Rightarrow> bytes_of s)"

theorem error_end_to_end_witness:
  "\<exists>request reply c' s'.
    ExecuteFetch [113] (- 1) True ((newConn [] Net_EOF)\<lparr>c_input := reply\<rparr>) =
      (c', Err (SQLError (uint (of_int ERUnknownError :: u16)) SSUnknownSQLState (Raw (plain (Raw [110, 111]))))) \<and>
    c_output c' = c_output (newConn [] Net_EOF) @ request \<and> c_input c' = [] \<and> ready c' \<and> c_wbuf c' = [] \<and>
    serveCommand failing_handler plain ((newConn [] Net_EOF)\<lparr>c_input := request\<rparr>) = (s', Ok Continue) \<and>
    c_output s' = c_output (newConn [] Net_EOF) @ reply \<and> c_input s' = [] \<and> ready s' \<and> c_wbuf s' = []"
  by (rule error_end_to_end [OF newConn_ready _ newConn_ready])
    (simp_all add: newConn_def failing_handler_def SSUnknownSQLState_def plain_def)

text \<open>
  A statement without a result set from end to end: the client receives the numbers of affected rows and the insert id
  that the handler reported.\<close>

theorem update_end_to_end:
  assumes "ready c" "c_wbuf c = []" "ready s" "c_wbuf s = []" "int (length query) + 1 < 2 ^ 63"
    and "r_Fields r = []" "\<And>cb. h query cb = cb r"
  shows "\<exists>request reply c' s'.
    ExecuteFetch query maxrows wantfields (c\<lparr>c_input := reply\<rparr>) =
      (c', Ok \<lparr>r_Fields = [], r_RowsAffected = r_RowsAffected r, r_InsertID = r_InsertID r, r_Rows = []\<rparr>) \<and>
    c_output c' = c_output c @ request \<and> c_input c' = [] \<and> ready c' \<and> c_wbuf c' = [] \<and>
    serveCommand h render (s\<lparr>c_input := request\<rparr>) = (s', Ok Continue) \<and>
    c_output s' = c_output s @ reply \<and> c_input s' = [] \<and> ready s' \<and> c_wbuf s' = []"
proof -
  let ?p = "concat (ok_fields OKPacket (r_RowsAffected r) (r_InsertID r) (c_StatusFlags s) 0)"
  have ne: "?p \<noteq> []" by (simp add: ok_fields_def)
  have serve: "\<exists>s'. serveQuery h render query s2 = (s', Ok Continue) \<and> sent True [?p] s2 s'"
    if r: "ready s2" "c_wbuf s2 = []" "c_StatusFlags s2 = c_StatusFlags s" for s2
  proof -
    obtain s' where "writeOKPacket (r_RowsAffected r) (r_InsertID r) (c_StatusFlags s) 0 s2 = (s', Ok ())" "sent True [?p] s2 s'"
      using sends_writeOKPacket [of "\<lambda>_. True" "r_RowsAffected r" "r_InsertID r" "c_StatusFlags s" 0] r by (auto simp: sends_def)
    then show ?thesis using r(3) by (simp add: serveQuery_def assms(6,7) queryCallback_def onConn_def Let_def)
  qed
  have "parseComQueryResponse ?p = Ok (r_RowsAffected r, r_InsertID r, 0)"
    using parseOKPacket_fields [of OKPacket "r_RowsAffected r" "r_InsertID r" "c_StatusFlags s" 0]
    by (simp add: parseComQueryResponse_def ok_fields_def)
  then show ?thesis by (intro one_packet_reply [OF assms(1-5) ne] serve) simp_all
qed

definition update_handler :: handler where
  "update_handler query cb = cb \<lparr>r_Fields = [], r_RowsAffected = 3, r_InsertID = 9, r_Rows = []\<rparr>"

theorem update_end_to_end_witness:
  "\<exists>request reply c' s'.
    ExecuteFetch [113] (- 1) True ((newConn [] Net_EOF)\<lparr>c_input := reply\<rparr>) =
      (c', Ok \<lparr>r_Fields = [], r_RowsAffected = 3, r_InsertID = 9, r_Rows = []\<rparr>) \<and>
    c_output c' = c_output (newConn [] Net_EOF) @ request \<and> c_input c' = [] \<and> ready c' \<and> c_wbuf c' = [] \<and>
    serveCommand update_handler plain ((newConn [] Net_EOF)\<lparr>c_input := request\<rparr>) = (s', Ok Continue) \<and>
    c_output s' = c_output (newConn [] Net_EOF) @ reply \<and> c_input s' = [] \<and> ready s' \<and> c_wbuf s' = []"
  using update_end_to_end [OF newConn_ready _ newConn_ready, where h = update_handler and query = "[113]"
      and r = "\<lparr>r_Fields = [], r_RowsAffected = 3, r_InsertID = 9, r_Rows = []\<rparr>"]
  by (simp add: newConn_def update_handler_def)

text \<open>
  The server does not survive \<^verbatim>\<open>COM_SET_OPTION\<close>: whatever the option, the packet it read is still in use when the answer
  is started, so the command ends in the panic \<^verbatim>\<open>startEphemeralPacket cannot be used while a packet is already started\<close>.\<close>

theorem set_option_panics:
  assumes "ready s" "c_input s = frames 0 (ComSetOption # d) @ rest"
  shows "snd (serveCommand h render s) = Panic"
proof -
  obtain s1 s2 where s: "serveCommand h render s = dispatch h render (ComSetOption # d) s1" "recycleReadPacket s1 = (s2, Ok ())"
    using serve_packet [OF assms, of h render] by auto
  have used: "c_policy s1 \<noteq> ephemeralUnused"
    using s(2) by (auto simp: recycleReadPacket_def split: ephemeral_policy.splits)
  have stuck: "startEphemeralPacket n s' = (s', Panic)" if "c_policy s' = c_policy s1" for n s'
    using that used by (simp add: startEphemeralPacket_def)
  have "writeEndResult False s' = (s', Panic)" "writeUnknownCom msg s' = (s', Panic)" if "c_policy s' = c_policy s1" for s' msg
    using stuck [OF that]
    by (simp_all add: writeEndResult_def writeEOFPacket_def writeOKPacketWithEOFHeader_def writeUnknownCom_def writeErrorPacket_def
        Let_def)
  then have "snd (serveSetOption (ComSetOption # d) s1) = Panic"
    by (simp add: serveSetOption_def answer_def Let_def split: result.split)
  then show ?thesis
    by (simp add: s(1) dispatch_def ComSetOption_def ComQuery_def ComQuit_def ComInitDB_def ComPing_def)
qed

theorem set_option_panics_witness:
  "snd (serveCommand sample_handler plain (newConn (frames 0 [ComSetOption, 0, 0]) Net_EOF)) = Panic"
  by (rule set_option_panics [OF newConn_ready, where rest = "[]"]) (simp add: newConn_def)


section \<open>The command loop ends\<close>

text \<open>Writing leaves the input alone.\<close>

definition keeps_input :: "'a conn_op \<Rightarrow> bool" where
  "keeps_input m \<longleftrightarrow> (\<forall>c c' r. m c = (c', r) \<longrightarrow> c_input c' = c_input c)"

named_theorems keeps "operations that keep the input"

lemma keeps_inputD: "keeps_input m \<Longrightarrow> m c = (c', r) \<Longrightarrow> c_input c' = c_input c"
  by (simp add: keeps_input_def)

lemma keeps_bindC [keeps]: "keeps_input m \<Longrightarrow> (\<And>x. keeps_input (f x)) \<Longrightarrow> keeps_input (bindC m f)"
  unfolding keeps_input_def bindC_def by (fastforce split: prod.splits result.splits)

lemma keeps_wrapErr [keeps]: "keeps_input m \<Longrightarrow> keeps_input (wrapErr g m)"
  unfolding keeps_input_def wrapErr_def by (fastforce split: prod.splits result.splits)

lemma keeps_setC [keeps]: "(\<And>c. c_input (g c) = c_input c) \<Longrightarrow> keeps_input m \<Longrightarrow> keeps_input (setC g m)"
  unfolding keeps_input_def setC_def by simp

lemma keeps_if [keeps]: "keeps_input m \<Longrightarrow> keeps_input n \<Longrightarrow> keeps_input (if b then m else n)"
  by simp

lemma keeps_base [keeps]: "keeps_input (okC x)" "keeps_input (failC e)" "keeps_input panicC" "keeps_input recycleReadPacket"
  "keeps_input (connWrite p)" "keeps_input bufioFlush" "keeps_input (bufioDirect p)" "keeps_input (startEphemeralPacket n)"
  by (auto simp: keeps_input_def recycle_input connWrite_def bufioFlush_def bufioDirect_def startEphemeralPacket_def split: if_splits)

lemma keeps_return [keeps]: "keeps_input (\<lambda>c. (c, r))"
  by (simp add: keeps_input_def)

lemma keeps_bufioWrite [keeps]: "keeps_input (bufioWrite p)"
proof -
  have "c_input c' = c_input (c\<lparr>c_wbuf := b\<rparr>)" if "bindC bufioFlush (\<lambda>_. bufioDirect q) (c\<lparr>c_wbuf := b\<rparr>) = (c', r)" for c c' b q r
    by (rule keeps_inputD [OF keeps_bindC that]) (simp_all add: keeps)
  then show ?thesis
    unfolding keeps_input_def bufioWrite_def Let_def using keeps_inputD [OF keeps_base(7)] by (fastforce split: if_splits)
qed

lemma keeps_fill [keeps]: "keeps_input (fill fs data)"
  by (auto simp: keeps_input_def fill_def storePacket_def split: result.splits ephemeral_policy.splits)

lemma writePacketLoop_binds:
  "writePacketLoop data c =
     (let n = min (length data) MaxPacketSize; incr = (\<lambda>c. c\<lparr>c_sequence := c_sequence c + 1\<rparr>) in
      bindC (bufioWrite (header_of n (c_sequence c))) (\<lambda>_. bindC (bufioWrite (take n data)) (\<lambda>_. setC incr (
        if drop n data = [] then
          (if n = MaxPacketSize then (\<lambda>c. bindC (bufioWrite (header_of 0 (c_sequence c))) (\<lambda>_. setC incr (okC ())) c)
           else okC ())
        else writePacketLoop (drop n data)))) c)"
  by (subst writePacketLoop.simps) (simp add: bindC_def setC_def Let_def split: prod.split result.split)

lemma keeps_writePacketLoop: "keeps_input (writePacketLoop data)"
proof (induction "length data" arbitrary: data rule: less_induct)
  case less
  let ?n = "min (length data) MaxPacketSize"
  have "keeps_input (writePacketLoop (drop ?n data))" if "drop ?n data \<noteq> []"
  proof (rule less)
    have "0 < MaxPacketSize" by (rule MaxPacketSize_pos)
    moreover have "MaxPacketSize < length data" "length (drop ?n data) = length data - MaxPacketSize" using that by auto
    ultimately show "length (drop ?n data) < length data" by linarith
  qed
  then have rest: "drop ?n data \<noteq> [] \<Longrightarrow> keeps_input (writePacketLoop (drop ?n data))" .
  let ?incr = "\<lambda>c :: Conn. c\<lparr>c_sequence := c_sequence c + 1\<rparr>"
  have "keeps_input (bindC (bufioWrite p) (\<lambda>_. setC ?incr (okC ())))" for p
    by (intro keeps) simp
  then have tail: "keeps_input (\<lambda>c. bindC (bufioWrite (header_of 0 (c_sequence c))) (\<lambda>_. setC ?incr (okC ())) c)"
    unfolding keeps_input_def by blast
  have "keeps_input (bindC (bufioWrite h) (\<lambda>_. bindC (bufioWrite (take ?n data)) (\<lambda>_. setC ?incr (
        if drop ?n data = [] then (if ?n = MaxPacketSize
          then (\<lambda>c. bindC (bufioWrite (header_of 0 (c_sequence c))) (\<lambda>_. setC ?incr (okC ())) c) else okC ())
        else writePacketLoop (drop ?n data)))))" for h
    using rest tail by (intro keeps_bindC keeps_bufioWrite keeps_setC) (simp_all only: keeps if_split simp_thms, simp_all)
  then show ?case
    unfolding keeps_input_def [of "writePacketLoop data"] writePacketLoop_binds [of data] Let_def
    using keeps_inputD by blast
qed

lemma keeps_writeEphemeralPacket [keeps]: "keeps_input (writeEphemeralPacket direct)"
  unfolding keeps_input_def
proof (intro allI impI)
  fix c c' r
  assume w: "writeEphemeralPacket direct c = (c', r)"
  define m where "m = (case c_policy c of
      ephemeralWriteGlobalBuffer \<Rightarrow> writeTo direct (take (c_buflen c) (c_buffer c))
    | ephemeralWriteSingleBuffer \<Rightarrow> writeTo direct (c_packet c)
    | ephemeralWriteBigBuffer \<Rightarrow> bindC (writePacket (c_packet c)) (\<lambda>_. if direct then flush else okC ())
    | _ \<Rightarrow> panicC)"
  have "keeps_input (writeTo direct p)" "keeps_input (bindC (writePacket p) (\<lambda>_. if direct then flush else okC ()))" for p
    unfolding writeTo_def writePacket_def flush_def by (intro keeps keeps_writePacketLoop)+
  then have k: "keeps_input m" unfolding m_def by (cases "c_policy c") (simp_all only: ephemeral_policy.case keeps)
  obtain c1 r1 where m: "m c = (c1, r1)" by fastforce
  have "c' = c1\<lparr>c_policy := ephemeralUnused\<rparr>"
    using w m unfolding writeEphemeralPacket_def m_def Let_def by (cases "c_policy c") auto
  with keeps_inputD [OF k m] show "c_input c' = c_input c" by simp
qed

lemma keeps_flush [keeps]: "keeps_input flush"
  unfolding flush_def by (intro keeps)

lemma keeps_packets [keeps]:
  "keeps_input (writeOKPacket a l f w)" "keeps_input (writeErrorPacket code state msg)" "keeps_input (writeEOFPacket f w)"
  "keeps_input (writeOKPacketWithEOFHeader a l f w)" "keeps_input (sendColumnCount n)" "keeps_input (writeRow row)"
  unfolding writeOKPacket_def writeErrorPacket_def writeEOFPacket_def writeOKPacketWithEOFHeader_def sendColumnCount_def
    writeRow_def Let_def
  by (intro keeps; simp)+

lemma keeps_errors [keeps]: "keeps_input (writeErrorPacketFromError render err)" "keeps_input (writeUnknownCom t)"
  by (simp_all add: writeErrorPacketFromError_def writeUnknownCom_def keeps split: conn_error.split)

lemma keeps_columns [keeps]: "keeps_input (writeColumnDefinition f)" "keeps_input (writeColumns fs)"
proof -
  show def: "keeps_input (writeColumnDefinition f)" for f
    unfolding writeColumnDefinition_def Let_def by (simp add: keeps split: prod.split)
  show "keeps_input (writeColumns fs)" by (induction fs) (simp_all only: writeColumns.simps keeps def)
qed

lemma keeps_rows [keeps]: "keeps_input (writeRows r)"
proof -
  have "keeps_input (writeRowsLoop rows)" for rows by (induction rows) (simp_all only: writeRowsLoop.simps keeps)
  then show ?thesis by (simp add: writeRows_def)
qed

lemma keeps_results [keeps]: "keeps_input (writeFields r)" "keeps_input (writeEndResult more_results)" "keeps_input writeStatusOK"
proof -
  have "keeps_input (\<lambda>c. if c_Capabilities c AND CapabilityClientDeprecateEOF = 0 then writeEOFPacket (c_StatusFlags c) 0 c else (c, Ok ()))"
    using keeps_inputD [OF keeps_packets(3)] unfolding keeps_input_def by (auto split: if_splits)
  then show "keeps_input (writeFields r)" unfolding writeFields_def by (intro keeps)
  have "keeps_input (bindC (writeEOFPacket f 0) (\<lambda>_. flush))" for f by (intro keeps)
  from keeps_inputD [OF this] keeps_inputD [OF keeps_packets(4)] show "keeps_input (writeEndResult more_results)"
    unfolding keeps_input_def writeEndResult_def Let_def by (auto split: if_splits)
  show "keeps_input writeStatusOK"
    using keeps_inputD [OF keeps_packets(1)] unfolding keeps_input_def writeStatusOK_def by blast
qed

text \<open>A handler that calls the callback, or anything else that does not add to the input, adds nothing itself.\<close>

definition no_input :: "query_op \<Rightarrow> bool" where
  "no_input m \<longleftrightarrow> (\<forall>q q' r. m q = (q', r) \<longrightarrow> length (c_input (q_conn q')) \<le> length (c_input (q_conn q)))"

lemma no_input_onConn: "keeps_input m \<Longrightarrow> no_input (onConn m)"
  unfolding no_input_def onConn_def by (auto split: prod.splits dest: keeps_inputD)

lemma no_input_bindC: "no_input m \<Longrightarrow> (\<And>x. no_input (f x)) \<Longrightarrow> no_input (bindC m f)"
  unfolding no_input_def bindC_def by (fastforce split: prod.splits result.splits intro: order_trans)

lemma no_input_callback: "no_input (queryCallback qr)"
proof -
  have ok: "keeps_input (\<lambda>c. writeOKPacket (r_RowsAffected qr) (r_InsertID qr) (c_StatusFlags c) 0 c)"
    using keeps_inputD [OF keeps_packets(1)] unfolding keeps_input_def by blast
  have 1: "no_input (onConn (\<lambda>c. writeOKPacket (r_RowsAffected qr) (r_InsertID qr) (c_StatusFlags c) 0 c))"
    by (rule no_input_onConn [OF ok])
  have 2: "no_input (bindC (onConn (writeFields qr)) (\<lambda>_. onConn (writeRows qr)))" "no_input (onConn (writeRows qr))"
    by (intro no_input_bindC no_input_onConn keeps)+
  show ?thesis
    unfolding no_input_def queryCallback_def Let_def
    using 1 2 unfolding no_input_def by (force split: if_splits)
qed

lemma answer_input: "keeps_input m \<Longrightarrow> keeps_input (answer m)"
  unfolding keeps_input_def answer_def by (fastforce split: prod.splits result.splits)

lemma serveQuery_input:
  assumes "no_input (h query queryCallback)" "serveQuery h render query c = (c', r)"
  shows "length (c_input c') \<le> length (c_input c)"
proof -
  obtain q x where q: "h query queryCallback \<lparr>q_conn = c, q_fieldSent = False, q_sendFinished = False\<rparr> = (q, x)" by fastforce
  then have le: "length (c_input (q_conn q)) \<le> length (c_input c)" using assms(1) by (fastforce simp: no_input_def)
  have "c_input c' = c_input (q_conn q)"
    using assms(2) q keeps_inputD [OF answer_input [OF keeps_errors(1)]] keeps_inputD [OF answer_input [OF keeps_results(2)]]
    by (auto simp: serveQuery_def Let_def split: result.splits if_splits)
  with le show ?thesis by simp
qed

lemma serveSetOption_input: "keeps_input (serveSetOption data)"
proof -
  have "keeps_input (bindC (answer (writeUnknownCom t)) (\<lambda>s. if s = Return then okC Return else answer (writeEndResult False)))" for t
    by (intro keeps_bindC keeps_if keeps_base answer_input keeps_errors keeps_results)
  then show ?thesis
    unfolding serveSetOption_def Let_def
    by (cases "parseComSetOption data") (auto split: prod.split intro!: keeps_setC keeps_if keeps_base answer_input keeps_errors keeps_results)
qed

text \<open>The same for an operation that may shorten the input.\<close>

definition shrinks :: "'a conn_op \<Rightarrow> bool" where
  "shrinks m \<longleftrightarrow> (\<forall>c c' r. m c = (c', r) \<longrightarrow> length (c_input c') \<le> length (c_input c))"

lemma shrinks_keeps: "keeps_input m \<Longrightarrow> shrinks m"
  by (simp add: shrinks_def keeps_inputD)

lemma shrinks_bindC: "shrinks m \<Longrightarrow> (\<And>x. shrinks (f x)) \<Longrightarrow> shrinks (bindC m f)"
  unfolding shrinks_def bindC_def by (fastforce split: prod.splits result.splits intro: order_trans)

lemma shrinks_tryC: "(\<And>x. shrinks (f x)) \<Longrightarrow> shrinks (tryC r e f)"
  by (cases r) (simp_all add: shrinks_def)

lemma shrinks_if: "shrinks m \<Longrightarrow> shrinks n \<Longrightarrow> shrinks (if b then m else n)"
  by simp

lemma dispatch_shrinks:
  assumes "\<And>query. no_input (h query queryCallback)"
  shows "shrinks (dispatch h render data)"
proof -
  have q: "shrinks (serveQuery h render query)" for query
    unfolding shrinks_def using serveQuery_input [where h = h, OF assms] by blast
  show ?thesis
    unfolding dispatch_def
    by (intro shrinks_if shrinks_tryC shrinks_bindC q shrinks_keeps keeps_base keeps_setC answer_input keeps_results keeps_errors
        serveSetOption_input) simp
qed

text \<open>
  C25: The command loop ends for every input: whatever bytes the client has sent before it stops, the server answers each
  command and returns, as long as the handler itself does not add to the input.\<close>

theorem serveLoop_ends:
  assumes "\<And>query. no_input (h query queryCallback)"
  shows "\<exists>c'. serveLoop h render c = Some c'"
proof (induction "length (c_input c)" arbitrary: c rule: less_induct)
  case less
  obtain c1 r where step: "serveCommand h render c = (c1, r)" by fastforce
  show ?case
  proof (cases "r = Ok Continue")
    case True
    obtain c0 data where "readEphemeralPacket (c\<lparr>c_sequence := 0\<rparr>) = (c0, Ok data)" "dispatch h render data c0 = (c1, r)"
      using step True by (auto simp: serveCommand_def split: prod.splits result.splits)
    then have "length (c_input c1) < length (c_input c)"
      using readEphemeral_consumes [of "c\<lparr>c_sequence := 0\<rparr>"] dispatch_shrinks [where h = h, OF assms] by (fastforce simp: shrinks_def)
    then obtain c' where "serveLoop h render c1 = Some c'" using less by blast
    then show ?thesis using step True by (subst serveLoop.simps) simp
  next
    case False
    then show ?thesis using step by (subst serveLoop.simps) (auto split: result.split serving.split)
  qed
qed

theorem serveLoop_ends_witness: "\<exists>c'. serveLoop sample_handler plain (newConn [1, 0, 0, 0, 14] Net_EOF) = Some c'"
proof (rule serveLoop_ends)
  have "no_input (okC ())" by (simp add: no_input_def)
  then show "no_input (sample_handler query queryCallback)" for query
    by (simp only: sample_handler_def sendAll.simps no_input_bindC no_input_callback)
qed

end
