(* ===== verification/Mysql_Login.thy ===== *)
theory Mysql_Login
  imports Mysql_Session
begin

text \<open>
  The handshake of client and server from end to end.  What the server relies on in its authentication server is the
  locale \<open>native_auth\<close>; the login lemma is proved there once and used for both implementations.
\<close>

section \<open>Both sides of the handshake\<close>

definition names_ok :: "ConnParams \<Rightarrow> bool" where
  "names_ok params \<longleftrightarrow> 0 \<notin> set (p_Uname params) \<and> 0 \<notin> set (p_DbName params) \<and>
     length (p_Uname params) + length (p_DbName params) + 120 < MaxPacketSize"

lemma response_ok_names:
  "names_ok params \<Longrightarrow> response_ok (server_capabilities tls) (scramblePassword salt pw) params"
  by (simp add: response_ok_def names_ok_def length_scramble server_capabilities_bits)

text \<open>The flags of the client's answer depend only on the greeting.\<close>

definition answer_flags :: "bool \<Rightarrow> ConnParams \<Rightarrow> u32" where
  "answer_flags tls params = response_flags ((newConn [] Net_EOF)\<lparr>c_Capabilities := server_capabilities tls AND CapabilityClientDeprecateEOF\<rparr>)
     (server_capabilities tls) params"

lemma response_flags_cong: "c_Capabilities c = c_Capabilities d \<Longrightarrow> response_flags c cap params = response_flags d cap params"
  by (simp add: response_flags_def client_flags_def)

definition answer_packet :: "bool \<Rightarrow> bytes \<Rightarrow> byte \<Rightarrow> ConnParams \<Rightarrow> bytes" where
  "answer_packet tls salt cs params = concat (response_fields (answer_flags tls params) (server_capabilities tls)
     (scramblePassword salt (p_Pass params)) cs params)"

lemma greeting_length:
  assumes "length salt = 20" "length stale = 10" "length version + 100 < MaxPacketSize"
  shows "length (concat (handshake_fields version connID salt cap status stale)) < MaxPacketSize"
  using assms by (simp add: handshake_fields_def native_name)

lemma acceptOK_ok: "acceptOK params (concat (ok_fields OKPacket a l fl w)) c = (c\<lparr>c_User := p_Uname params\<rparr>, Ok ())"
  by (simp add: acceptOK_def ok_fields_def)

lemma client_login:
  assumes "ready c" "c_wbuf c = []" "c_sequence c = 0" "names_ok params" "\<not> SslEnabled params"
    and "0 \<notin> set version" "length salt = 20" "length stale = 10" "length version + 100 < MaxPacketSize"
    and "c_input c = frames 0 (concat (handshake_fields version connID salt (server_capabilities tls) status stale)) @
      frames 2 (concat (ok_fields OKPacket 0 0 fl 0))"
  shows "\<exists>c'. clientHandshake tlsConfig cs params c = (c', Ok ()) \<and>
    c_output c' = c_output c @ frames 1 (answer_packet tls salt cs params) \<and> c_input c' = [] \<and> ready c' \<and> c_wbuf c' = [] \<and>
    c_User c' = p_Uname params \<and> c_Capabilities c' = server_capabilities tls AND CapabilityClientDeprecateEOF"
proof -
  let ?cap = "server_capabilities tls" and ?scr = "scramblePassword salt (p_Pass params)"
  let ?p0 = "concat (handshake_fields version connID salt ?cap status stale)" and ?ok = "concat (ok_fields OKPacket 0 0 fl 0)"
  let ?c1 = "c\<lparr>c_input := frames 2 ?ok, c_sequence := 1, c_ServerVersion := version, c_ConnectionID := connID,
    c_CharacterSet := CharacterSetUtf8, c_Capabilities := ?cap AND CapabilityClientDeprecateEOF\<rparr>"
  let ?c2 = "?c1\<lparr>c_SchemaName := (if with_db ?cap params then p_DbName params else c_SchemaName ?c1)\<rparr>"
  have r0: "readPacket c = (c\<lparr>c_input := frames 2 ?ok, c_sequence := 1\<rparr>, Ok ?p0)"
    using readPacket_frames [of c ?p0 "frames 2 ?ok"] assms(3,10) greeting_length [OF assms(7-9)] by (simp add: after_packet_small)
  have parse: "parseInitialHandshakePacket ?p0 d = (d\<lparr>c_ServerVersion := version, c_ConnectionID := connID,
      c_CharacterSet := CharacterSetUtf8\<rparr>, Ok (?cap, salt))" for d
    by (rule parse_handshake_fields) (use assms(6-9) in \<open>simp_all add: MaxPacketSize_def\<close>)
  have "ready ?c1" "c_wbuf ?c1 = []" using assms(1,2) by (simp_all add: ready_def up_def)
  from writeHandshakeResponse41_sent [OF this response_ok_names [OF assms(4)], of tls salt "p_Pass params" cs]
  obtain c3 where w: "writeHandshakeResponse41 ?cap ?scr cs params ?c1 = (c3, Ok ())"
    "sent True [concat (response_fields (response_flags ?c1 ?cap params) ?cap ?scr cs params)] ?c2 c3"
    by blast
  have pk: "concat (response_fields (response_flags ?c1 ?cap params) ?cap ?scr cs params) = answer_packet tls salt cs params"
    unfolding answer_packet_def answer_flags_def by (subst response_flags_cong [of ?c1]) simp_all
  have lp: "length (answer_packet tls salt cs params) < MaxPacketSize"
    unfolding answer_packet_def by (rule response_length [OF response_ok_names [OF assms(4)]])
  note g = sent_facts [OF w(2) [unfolded pk], simplified, OF assms(2)]
  have seq: "c_sequence c3 = 2" using g(5) lp by (simp add: after_packet_small)
  have r3: "readPacket c3 = (c3\<lparr>c_input := [], c_sequence := after_packet 2 ?ok\<rparr>, Ok ?ok)"
    using readPacket_frames [of c3 ?ok "[]"] g(6) seq by simp
  have na: "hd ?ok \<noteq> AuthSwitchRequestPacket" by (simp add: ok_fields_def OKPacket_def AuthSwitchRequestPacket_def)
  have "clientHandshake tlsConfig cs params c = (c3\<lparr>c_input := [], c_sequence := after_packet 2 ?ok, c_User := p_Uname params\<rparr>, Ok ())"
    using assms(5) w(1) r3 na server_capabilities_bits [of tls]
    by (simp add: clientHandshake_def r0 parse switchToSSL_def SslEnabled_def readAuthResult_def selectDatabase_def acceptOK_ok)
  then show ?thesis using g by (auto simp: ready_def up_def)
qed

lemma server_login:
  assumes "ready s" "c_wbuf s = []" "c_sequence s = 0" "names_ok params" "\<not> l_TLSConfig l"
    and "as_Salt (l_authServer l) = Ok salt" "length salt = 20" "length (l_ServerVersion l) + 100 < MaxPacketSize"
    and "as_AuthMethod (l_authServer l) (p_Uname params) = Ok MysqlNativePassword"
    and "as_ValidateHash (l_authServer l) salt (p_Uname params) (scramblePassword salt (p_Pass params)) remote = Ok ud"
    and "c_input s = frames 1 (answer_packet False salt cs params)"
  shows "\<exists>s' stale. serverHandshake l render remote s = (s', Ok ()) \<and> length stale = 10 \<and>
    c_output s' = c_output s @ frames 0 (concat (handshake_fields (l_ServerVersion l) (c_ConnectionID s) salt
      (server_capabilities False) (c_StatusFlags s) stale)) @ frames 2 (concat (ok_fields OKPacket 0 0 (c_StatusFlags s) 0)) \<and>
    c_input s' = [] \<and> ready s' \<and> c_wbuf s' = [] \<and> c_User s' = p_Uname params \<and>
    c_SchemaName s' = (if p_DbName params \<noteq> [] then p_DbName params else c_SchemaName s) \<and>
    c_Capabilities s' = session_flags (answer_flags False params)"
proof -
  let ?cap = "server_capabilities False" and ?scr = "scramblePassword salt (p_Pass params)"
  let ?p = "answer_packet False salt cs params"
  have ver: "int (length (l_ServerVersion l)) < 2 ^ 62" using assms(8) by (simp add: MaxPacketSize_def)
  obtain s1 stale where s1: "length stale = 10" "writeHandshakeV10 (l_ServerVersion l) (Ok salt) False s = (s1, Ok salt)"
    "sent True [concat (handshake_fields (l_ServerVersion l) (c_ConnectionID s) salt ?cap (c_StatusFlags s) stale)] s s1"
    using writeHandshakeV10_sent [OF assms(1,2,7) ver] by blast
  note f1 = sent_facts [OF s1(3) assms(2)]
  have seq1: "c_sequence s1 = 1"
    using f1(5) assms(3) greeting_length [OF assms(7) s1(1) assms(8)] by (simp add: after_packet_small)
  have lp: "length ?p < MaxPacketSize"
    unfolding answer_packet_def by (rule response_length [OF response_ok_names [OF assms(4)]])
  obtain s2 where s2: "readPacketDirect s1 = (s2, Ok ?p)" "received [?p] [] s1 s2"
    using readPacketDirect_frames [of s1 ?p "[]", OF f1(3) _ lp] f1(6) seq1 assms(11) by auto
  note f2 = received_facts [OF s2(2) ready_up [OF f1(2)]]
  let ?s3 = "s2\<lparr>c_Capabilities := session_flags (answer_flags False params), c_CharacterSet := cs,
    c_SchemaName := (if with_db ?cap params then p_DbName params else c_SchemaName s2)\<rparr>"
  have "parseClientHandshakePacket False True ?p s2 = (?s3, Ok (p_Uname params, MysqlNativePassword, ?scr))"
    unfolding answer_packet_def answer_flags_def by (rule parse_response_fields [OF response_ok_names [OF assms(4)]]) simp
  then have resp: "readResponse l s1 = (?s3, Ok (p_Uname params, MysqlNativePassword, ?scr))"
    using assms(5) s2(1) session_flags_bits(2) unfolding answer_flags_def by (simp add: readResponse_def)
  let ?s4 = "?s3\<lparr>c_User := p_Uname params, c_UserData := ud\<rparr>"
  have auth: "authenticate l render remote salt (p_Uname params, MysqlNativePassword, ?scr) ?s3 = (?s4, Ok ())"
    using assms(9,10) by (simp add: authenticate_def orReport_def setUser_def)
  have "ready ?s4" "c_wbuf ?s4 = []" using f2(2,4) f1(4) by (simp_all add: ready_def up_def)
  then obtain s5 where s5: "writeOKPacket 0 0 (c_StatusFlags s) 0 ?s4 = (s5, Ok ())"
    "sent True [concat (ok_fields OKPacket 0 0 (c_StatusFlags s) 0)] ?s4 s5"
    using sends_writeOKPacket [of "\<lambda>_. True" 0 0 "c_StatusFlags s" 0] by (auto simp: sends_def)
  note f5 = sent_facts [OF s5(2)]
  have "c_StatusFlags ?s4 = c_StatusFlags s" using f1(8) f2(8) by simp
  then have run: "serverHandshake l render remote s = (s5, Ok ())"
    using assms(5,6) s1(2) resp auth s5(1) by (simp add: serverHandshake_def)
  have "c_sequence s2 = 2" using f2(6) seq1 lp by (simp add: after_packet_small)
  moreover have "with_db ?cap params \<longleftrightarrow> p_DbName params \<noteq> []" by (simp add: with_db_def server_capabilities_bits)
  ultimately show ?thesis using run s1(1) f1 f2 f5 assms(3) by (intro exI [of _ s5] exI [of _ stale]) simp
qed


section \<open>The contract of an authentication server\<close>

text \<open>\<open>srv a rnd\<close> is the server with the configuration \<open>a\<close>, which draws the bytes \<open>rnd\<close> for its salt; \<open>native a\<close> says that it
  wants the native password method, \<open>admits a remote user pw\<close> that the password is right.\<close>

locale native_auth =
  fixes srv :: "'a \<Rightarrow> bytes option \<Rightarrow> AuthServer" and native :: "'a \<Rightarrow> bool"
    and admits :: "'a \<Rightarrow> bool \<Rightarrow> bytes \<Rightarrow> bytes \<Rightarrow> bool"
  assumes salt: "length rnd = 20 \<Longrightarrow> \<exists>salt. as_Salt (srv a (Some rnd)) = Ok salt \<and> length salt = 20"
    and wanted: "native a \<Longrightarrow> as_AuthMethod (srv a r) user = Ok MysqlNativePassword"
    and validate: "admits a remote user pw \<Longrightarrow> \<exists>ud. as_ValidateHash (srv a r) salt user (scramblePassword salt pw) remote = Ok ud"
begin

lemma login:
  assumes "ready c" "c_wbuf c = []" "c_sequence c = 0" "ready s" "c_wbuf s = []" "c_sequence s = 0"
    and "names_ok params" "\<not> SslEnabled params" "\<not> l_TLSConfig l"
    and "0 \<notin> set (l_ServerVersion l)" "length (l_ServerVersion l) + 100 < MaxPacketSize"
    and "l_authServer l = srv a (Some rnd)" "length rnd = 20" "native a" "admits a remote (p_Uname params) (p_Pass params)"
  shows "\<exists>fromClient fromServer c' s'.
    clientHandshake tlsConfig cs params (c\<lparr>c_input := fromServer\<rparr>) = (c', Ok ()) \<and> c_output c' = c_output c @ fromClient \<and>
    serverHandshake l render remote (s\<lparr>c_input := fromClient\<rparr>) = (s', Ok ()) \<and> c_output s' = c_output s @ fromServer \<and>
    c_input c' = [] \<and> ready c' \<and> c_wbuf c' = [] \<and> c_input s' = [] \<and> ready s' \<and> c_wbuf s' = [] \<and>
    c_User c' = p_Uname params \<and> c_User s' = p_Uname params \<and>
    c_SchemaName s' = (if p_DbName params \<noteq> [] then p_DbName params else c_SchemaName s) \<and>
    keepsEOF (c_Capabilities c') = keepsEOF (c_Capabilities s')"
proof -
  obtain slt where slt: "as_Salt (l_authServer l) = Ok slt" "length slt = 20" using salt [OF assms(13)] assms(12) by auto
  obtain ud where ud: "as_ValidateHash (l_authServer l) slt (p_Uname params) (scramblePassword slt (p_Pass params)) remote = Ok ud"
    using validate [OF assms(15)] assms(12) by auto
  have m: "as_AuthMethod (l_authServer l) (p_Uname params) = Ok MysqlNativePassword" using wanted [OF assms(14)] assms(12) by simp
  let ?fc = "frames 1 (answer_packet False slt cs params)"
  have "ready (s\<lparr>c_input := ?fc\<rparr>)" using assms(4) by (simp add: ready_def up_def)
  from server_login [OF this, of params l slt remote ud cs render, simplified, OF assms(5,6,7,9) slt assms(11) m ud]
  obtain s' stale where s': "serverHandshake l render remote (s\<lparr>c_input := ?fc\<rparr>) = (s', Ok ())" "length stale = 10"
    "c_output s' = c_output s @ frames 0 (concat (handshake_fields (l_ServerVersion l) (c_ConnectionID s) slt
      (server_capabilities False) (c_StatusFlags s) stale)) @ frames 2 (concat (ok_fields OKPacket 0 0 (c_StatusFlags s) 0))"
    "c_input s' = []" "ready s'" "c_wbuf s' = []" "c_User s' = p_Uname params"
    "c_SchemaName s' = (if p_DbName params \<noteq> [] then p_DbName params else c_SchemaName s)"
    "c_Capabilities s' = session_flags (answer_flags False params)"
    by auto
  let ?fs = "frames 0 (concat (handshake_fields (l_ServerVersion l) (c_ConnectionID s) slt
      (server_capabilities False) (c_StatusFlags s) stale)) @ frames 2 (concat (ok_fields OKPacket 0 0 (c_StatusFlags s) 0))"
  have "ready (c\<lparr>c_input := ?fs\<rparr>)" using assms(1) by (simp add: ready_def up_def)
  from client_login [OF this, of params "l_ServerVersion l" slt stale "c_ConnectionID s" False "c_StatusFlags s" "c_StatusFlags s"
      tlsConfig cs, simplified, OF assms(2,3,7,8,10) slt(2) s'(2) assms(11)]
  obtain c' where c': "clientHandshake tlsConfig cs params (c\<lparr>c_input := ?fs\<rparr>) = (c', Ok ())" "c_output c' = c_output c @ ?fc"
    "c_input c' = []" "ready c'" "c_wbuf c' = []" "c_User c' = p_Uname params"
    "c_Capabilities c' = server_capabilities False AND CapabilityClientDeprecateEOF"
    by auto
  have "keepsEOF (c_Capabilities c') = keepsEOF (c_Capabilities s')"
    unfolding s'(9) c'(7) answer_flags_def session_flags_bits by simp
  then show ?thesis using s' c' by blast
qed

end

definition static_admits :: "AuthServerStatic \<Rightarrow> bool \<Rightarrow> bytes \<Rightarrow> bytes \<Rightarrow> bool" where
  "static_admits a remote user pw \<longleftrightarrow> (\<exists>entry \<in> set (case a_Entries a user of None \<Rightarrow> [] | Some entries \<Rightarrow> entries).
     matchSourceHost remote (e_SourceHost entry) \<and>
     (e_Password entry = pw \<or> pw \<noteq> [] \<and> e_MysqlNativePassword entry = native_form pw))"

lemma NewSalt_length: "length rnd = 20 \<Longrightarrow> \<exists>salt. NewSalt (Some rnd) = Ok salt \<and> length salt = 20"
  by (simp add: NewSalt_def)

interpretation static_login: native_auth static_server "\<lambda>a. a_Method a = MysqlNativePassword" static_admits
proof
  fix a :: AuthServerStatic and remote user pw r salt
  assume "static_admits a remote user pw"
  then obtain entries entry where "a_Entries a user = Some entries" "entry \<in> set entries"
    "matchSourceHost remote (e_SourceHost entry)" "e_Password entry = pw \<or> pw \<noteq> [] \<and> e_MysqlNativePassword entry = native_form pw"
    by (cases "a_Entries a user") (auto simp: static_admits_def)
  then show "\<exists>ud. as_ValidateHash (static_server a r) salt user (scramblePassword salt pw) remote = Ok ud"
    by (simp add: static_server_def ValidateHash_accepts)
qed (auto simp: static_server_def AuthServerStatic_Salt_def AuthMethod_def NewSalt_length)

interpretation none_login: native_auth "\<lambda>a :: unit. AuthServerNone" "\<lambda>_. True" "\<lambda>_ _ _ _. True"
  by unfold_locales (simp_all add: AuthServerNone_def NewSalt_length)

section \<open>Properties\<close>

text \<open>
  C3: A login from end to end: a client that knows the password of a user of the static table logs in.  Client and server
  complete the handshake reading exactly what the other side wrote; both record the user, the server selects the database
  the client asked for, and they agree whether EOF packets are used, so that queries can follow.\<close>

theorem login_static:
  assumes "ready c" "c_wbuf c = []" "c_sequence c = 0" "ready s" "c_wbuf s = []" "c_sequence s = 0"
    and "names_ok params" "\<not> SslEnabled params" "\<not> l_TLSConfig l"
    and "0 \<notin> set (l_ServerVersion l)" "length (l_ServerVersion l) + 100 < MaxPacketSize"
    and "l_authServer l = static_server a (Some rnd)" "length rnd = 20"
    and "a_Method a = MysqlNativePassword" "static_admits a remote (p_Uname params) (p_Pass params)"
  shows "\<exists>fromClient fromServer c' s'.
    clientHandshake tlsConfig cs params (c\<lparr>c_input := fromServer\<rparr>) = (c', Ok ()) \<and> c_output c' = c_output c @ fromClient \<and>
    serverHandshake l render remote (s\<lparr>c_input := fromClient\<rparr>) = (s', Ok ()) \<and> c_output s' = c_output s @ fromServer \<and>
    c_input c' = [] \<and> ready c' \<and> c_wbuf c' = [] \<and> c_input s' = [] \<and> ready s' \<and> c_wbuf s' = [] \<and>
    c_User c' = p_Uname params \<and> c_User s' = p_Uname params \<and>
    c_SchemaName s' = (if p_DbName params \<noteq> [] then p_DbName params else c_SchemaName s) \<and>
    keepsEOF (c_Capabilities c') = keepsEOF (c_Capabilities s')"
  by (rule static_login.login [OF assms])

definition sample_listener :: Listener where
  "sample_listener = NewFromListener (static_server (sample_auth (native_form [112]) [120]) (Some (replicate 20 7)))"

theorem login_static_witness:
  "\<exists>fromClient fromServer c' s'.
    clientHandshake False 33 sample_params ((newConn [] Net_EOF)\<lparr>c_input := fromServer\<rparr>) = (c', Ok ()) \<and>
    c_output c' = c_output (newConn [] Net_EOF) @ fromClient \<and>
    serverHandshake sample_listener plain False ((newConn [] Net_EOF)\<lparr>c_input := fromClient\<rparr>) = (s', Ok ()) \<and>
    c_output s' = c_output (newConn [] Net_EOF) @ fromServer \<and>
    c_input c' = [] \<and> ready c' \<and> c_wbuf c' = [] \<and> c_input s' = [] \<and> ready s' \<and> c_wbuf s' = [] \<and>
    c_User c' = p_Uname sample_params \<and> c_User s' = p_Uname sample_params \<and>
    c_SchemaName s' = (if p_DbName sample_params \<noteq> [] then p_DbName sample_params else c_SchemaName (newConn [] Net_EOF)) \<and>
    keepsEOF (c_Capabilities c') = keepsEOF (c_Capabilities s')"
  by (rule login_static [OF newConn_ready _ _ newConn_ready, where a = "sample_auth (native_form [112]) [120]" and rnd = "replicate 20 7"])
    (simp_all add: newConn_def names_ok_def sample_params_def MaxPacketSize_def SslEnabled_def sample_listener_def
      NewFromListener_def DefaultServerVersion_def bytes_of_def sample_auth_def NewAuthServerStatic_def static_admits_def
      matchSourceHost_def)

end
