(* ===== verification/Sql_Lexer.thy ===== *)
theory Sql_Lexer
  imports Match Sqltypes
begin

text \<open>
  The tokenizer of the SQL parser (\<^verbatim>\<open>mygate/mysql/sqlparser/token.go\<close>), the extraction of MySQL's executable comments
  (\<^verbatim>\<open>comments.go\<close>) and the printing of literals (\<^verbatim>\<open>sqltypes/value.go\<close>).

  The token numbers come from the grammar; a token is \<open>TEOF\<close> (0), a character, or the name of a grammar constant.
  The tokenizer keeps the unread part of its buffer, the chunks later reads will return, and one character of look-ahead.
\<close>

section \<open>Literals\<close>

definition DontEscape :: byte where "DontEscape = 255"
definition nullstr :: bytes where "nullstr = [110, 117, 108, 108]"

definition encodeRef :: "(byte \<times> byte) list" where
  "encodeRef = [(0, 48), (39, 39), (34, 34), (8, 98), (10, 110), (13, 114), (9, 116), (26, 90), (92, 92)]"

definition SQLEncodeMap :: "byte \<Rightarrow> byte" where
  "SQLEncodeMap ch = (case map_of encodeRef ch of Some to \<Rightarrow> to | None \<Rightarrow> DontEscape)"

definition SQLDecodeMap :: "byte \<Rightarrow> byte" where
  "SQLDecodeMap ch = (case map_of (map (\<lambda>(a, b). (b, a)) encodeRef) ch of Some from \<Rightarrow> from | None \<Rightarrow> DontEscape)"

definition encodeChar :: "byte \<Rightarrow> bytes" where
  "encodeChar ch = (let encodedChar = SQLEncodeMap ch in if encodedChar = DontEscape then [ch] else [92, encodedChar])"

definition encodeBytesSQL :: "bytes \<Rightarrow> bytes" where
  "encodeBytesSQL val = 39 # concat (map encodeChar val) @ [39]"

definition EncodeSQL :: "SqlValue \<Rightarrow> bytes" where
  "EncodeSQL v = (if v_typ v = T_Null then nullstr else if IsQuoted (v_typ v) then encodeBytesSQL (v_val v) else v_val v)"

section \<open>The tokenizer\<close>

datatype token = TEOF | TChar u16 | Tok string

definition eofChar :: u16 where "eofChar = 0x100"

datatype lexError = ReadError string | SyntaxError string int bytes

record tkn =
  t_buf :: bytes
  t_stream :: "(bytes \<times> string option) list"
  t_lastChar :: u16
  t_Position :: int
  t_posVarIndex :: nat
  t_ForceEOF :: bool
  t_AllowComments :: bool
  t_multi :: bool
  t_lastToken :: bytes
  t_LastError :: "lexError option"

definition zero_tkn :: tkn where
  "zero_tkn = \<lparr>t_buf = [], t_stream = [], t_lastChar = 0, t_Position = 0, t_posVarIndex = 0, t_ForceEOF = False,
     t_AllowComments = False, t_multi = False, t_lastToken = [], t_LastError = None\<rparr>"

definition NewStringTokenizer :: "bytes \<Rightarrow> tkn" where
  "NewStringTokenizer sql = zero_tkn\<lparr>t_buf := sql\<rparr>"

text \<open>The reader is the list of what its reads return: the bytes, and an error other than \<^verbatim>\<open>io.EOF\<close>.\<close>

definition NewTokenizer :: "(bytes \<times> string option) list \<Rightarrow> tkn" where
  "NewTokenizer chunks = zero_tkn\<lparr>t_stream := chunks\<rparr>"

text \<open>The grammar's name for each keyword.\<close>

definition keywords_map :: "string \<rightharpoonup> string" where
  "keywords_map = map_of
   [
    (''accessible'', ''UNUSED''), (''add'', ''ADD''), (''against'', ''AGAINST''), (''all'', ''ALL''),
    (''alter'', ''ALTER''), (''analyze'', ''ANALYZE''), (''and'', ''AND''), (''as'', ''AS''), (''asc'', ''ASC''),
    (''asensitive'', ''UNUSED''), (''auto_increment'', ''AUTO_INCREMENT''), (''before'', ''UNUSED''),
    (''begin'', ''BEGIN''), (''between'', ''BETWEEN''), (''bigint'', ''BIGINT''), (''binary'', ''BINARY''),
    (''_binary'', ''UNDERSCORE_BINARY''), (''bit'', ''BIT''), (''blob'', ''BLOB''), (''bool'', ''BOOL''),
    (''boolean'', ''BOOLEAN''), (''both'', ''UNUSED''), (''by'', ''BY''), (''call'', ''UNUSED''),
    (''cascade'', ''UNUSED''), (''case'', ''CASE''), (''cast'', ''CAST''), (''change'', ''UNUSED''),
    (''char'', ''CHAR''), (''character'', ''CHARACTER''), (''charset'', ''CHARSET''), (''check'', ''UNUSED''),
    (''collate'', ''COLLATE''), (''column'', ''COLUMN''), (''comment'', ''COMMENT_KEYWORD''),
    (''commit'', ''COMMIT''), (''condition'', ''UNUSED''), (''constraint'', ''CONSTRAINT''),
    (''continue'', ''UNUSED''), (''convert'', ''CONVERT''), (''substr'', ''SUBSTR''), (''substring'', ''SUBSTRING''),
    (''create'', ''CREATE''), (''cross'', ''CROSS''), (''current_date'', ''CURRENT_DATE''),
    (''current_time'', ''CURRENT_TIME''), (''current_timestamp'', ''CURRENT_TIMESTAMP''),
    (''current_user'', ''UNUSED''), (''cursor'', ''UNUSED''), (''database'', ''DATABASE''),
    (''databases'', ''DATABASES''), (''day_hour'', ''UNUSED''), (''day_microsecond'', ''UNUSED''),
    (''day_minute'', ''UNUSED''), (''day_second'', ''UNUSED''), (''date'', ''DATE''), (''datetime'', ''DATETIME''),
    (''dec'', ''UNUSED''), (''decimal'', ''DECIMAL''), (''declare'', ''UNUSED''), (''default'', ''DEFAULT''),
    (''delayed'', ''UNUSED''), (''delete'', ''DELETE''), (''desc'', ''DESC''), (''describe'', ''DESCRIBE''),
    (''deterministic'', ''UNUSED''), (''distinct'', ''DISTINCT''), (''distinctrow'', ''UNUSED''), (''div'', ''DIV''),
    (''double'', ''DOUBLE''), (''drop'', ''DROP''), (''duplicate'', ''DUPLICATE''), (''each'', ''UNUSED''),
    (''else'', ''ELSE''), (''elseif'', ''UNUSED''), (''enclosed'', ''UNUSED''), (''end'', ''END''),
    (''enum'', ''ENUM''), (''escape'', ''ESCAPE''), (''escaped'', ''UNUSED''), (''exists'', ''EXISTS''),
    (''exit'', ''UNUSED''), (''explain'', ''EXPLAIN''), (''expansion'', ''EXPANSION''), (''false'', ''FALSE''),
    (''fetch'', ''UNUSED''), (''float'', ''FLOAT_TYPE''), (''float4'', ''UNUSED''), (''float8'', ''UNUSED''),
    (''for'', ''FOR''), (''force'', ''FORCE''), (''foreign'', ''FOREIGN''), (''from'', ''FROM''),
    (''fulltext'', ''FULLTEXT''), (''generated'', ''UNUSED''), (''geometry'', ''GEOMETRY''),
    (''geometrycollection'', ''GEOMETRYCOLLECTION''), (''get'', ''UNUSED''), (''global'', ''GLOBAL''),
    (''grant'', ''UNUSED''), (''group'', ''GROUP''), (''group_concat'', ''GROUP_CONCAT''), (''having'', ''HAVING''),
    (''high_priority'', ''UNUSED''), (''hour_microsecond'', ''UNUSED''), (''hour_minute'', ''UNUSED''),
    (''hour_second'', ''UNUSED''), (''if'', ''IF''), (''ignore'', ''IGNORE''), (''in'', ''IN''),
    (''index'', ''INDEX''), (''infile'', ''UNUSED''), (''inout'', ''UNUSED''), (''inner'', ''INNER''),
    (''insensitive'', ''UNUSED''), (''insert'', ''INSERT''), (''int'', ''INT''), (''int1'', ''UNUSED''),
    (''int2'', ''UNUSED''), (''int3'', ''UNUSED''), (''int4'', ''UNUSED''), (''int8'', ''UNUSED''),
    (''integer'', ''INTEGER''), (''interval'', ''INTERVAL''), (''into'', ''INTO''), (''io_after_gtids'', ''UNUSED''),
    (''is'', ''IS''), (''iterate'', ''UNUSED''), (''join'', ''JOIN''), (''json'', ''JSON''), (''key'', ''KEY''),
    (''keys'', ''KEYS''), (''key_block_size'', ''KEY_BLOCK_SIZE''), (''kill'', ''UNUSED''),
    (''language'', ''LANGUAGE''), (''last_insert_id'', ''LAST_INSERT_ID''), (''leading'', ''UNUSED''),
    (''leave'', ''UNUSED''), (''left'', ''LEFT''), (''less'', ''LESS''), (''like'', ''LIKE''), (''limit'', ''LIMIT''),
    (''linear'', ''UNUSED''), (''lines'', ''UNUSED''), (''linestring'', ''LINESTRING''), (''load'', ''UNUSED''),
    (''localtime'', ''LOCALTIME''), (''localtimestamp'', ''LOCALTIMESTAMP''), (''lock'', ''LOCK''),
    (''long'', ''UNUSED''), (''longblob'', ''LONGBLOB''), (''longtext'', ''LONGTEXT''), (''loop'', ''UNUSED''),
    (''low_priority'', ''UNUSED''), (''master_bind'', ''UNUSED''), (''match'', ''MATCH''),
    (''maxvalue'', ''MAXVALUE''), (''mediumblob'', ''MEDIUMBLOB''), (''mediumint'', ''MEDIUMINT''),
    (''mediumtext'', ''MEDIUMTEXT''), (''middleint'', ''UNUSED''), (''minute_microsecond'', ''UNUSED''),
    (''minute_second'', ''UNUSED''), (''mod'', ''MOD''), (''mode'', ''MODE''), (''modifies'', ''UNUSED''),
    (''multilinestring'', ''MULTILINESTRING''), (''multipoint'', ''MULTIPOINT''),
    (''multipolygon'', ''MULTIPOLYGON''), (''names'', ''NAMES''), (''natural'', ''NATURAL''), (''nchar'', ''NCHAR''),
    (''next'', ''NEXT''), (''not'', ''NOT''), (''no_write_to_binlog'', ''UNUSED''), (''null'', ''NULL''),
    (''numeric'', ''NUMERIC''), (''offset'', ''OFFSET''), (''on'', ''ON''), (''optimize'', ''OPTIMIZE''),
    (''optimizer_costs'', ''UNUSED''), (''option'', ''UNUSED''), (''optionally'', ''UNUSED''), (''or'', ''OR''),
    (''order'', ''ORDER''), (''out'', ''UNUSED''), (''outer'', ''OUTER''), (''outfile'', ''UNUSED''),
    (''partition'', ''PARTITION''), (''point'', ''POINT''), (''polygon'', ''POLYGON''), (''precision'', ''UNUSED''),
    (''primary'', ''PRIMARY''), (''procedure'', ''PROCEDURE''), (''query'', ''QUERY''), (''range'', ''UNUSED''),
    (''read'', ''UNUSED''), (''reads'', ''UNUSED''), (''read_write'', ''UNUSED''), (''real'', ''REAL''),
    (''references'', ''UNUSED''), (''regexp'', ''REGEXP''), (''release'', ''UNUSED''), (''rename'', ''RENAME''),
    (''reorganize'', ''REORGANIZE''), (''repair'', ''REPAIR''), (''repeat'', ''UNUSED''), (''replace'', ''REPLACE''),
    (''require'', ''UNUSED''), (''resignal'', ''UNUSED''), (''restrict'', ''UNUSED''), (''return'', ''UNUSED''),
    (''revoke'', ''UNUSED''), (''right'', ''RIGHT''), (''rlike'', ''REGEXP''), (''rollback'', ''ROLLBACK''),
    (''schema'', ''SCHEMA''), (''schemas'', ''UNUSED''), (''second_microsecond'', ''UNUSED''),
    (''select'', ''SELECT''), (''sensitive'', ''UNUSED''), (''separator'', ''SEPARATOR''), (''session'', ''SESSION''),
    (''set'', ''SET''), (''share'', ''SHARE''), (''show'', ''SHOW''), (''signal'', ''UNUSED''),
    (''signed'', ''SIGNED''), (''smallint'', ''SMALLINT''), (''spatial'', ''SPATIAL''), (''specific'', ''UNUSED''),
    (''sql'', ''UNUSED''), (''sqlexception'', ''UNUSED''), (''sqlstate'', ''UNUSED''), (''sqlwarning'', ''UNUSED''),
    (''sql_big_result'', ''UNUSED''), (''sql_cache'', ''SQL_CACHE''), (''sql_calc_found_rows'', ''UNUSED''),
    (''sql_no_cache'', ''SQL_NO_CACHE''), (''sql_small_result'', ''UNUSED''), (''ssl'', ''UNUSED''),
    (''start'', ''START''), (''starting'', ''UNUSED''), (''status'', ''STATUS''), (''stored'', ''UNUSED''),
    (''straight_join'', ''STRAIGHT_JOIN''), (''stream'', ''STREAM''), (''table'', ''TABLE''),
    (''tables'', ''TABLES''), (''terminated'', ''UNUSED''), (''text'', ''TEXT''), (''than'', ''THAN''),
    (''then'', ''THEN''), (''time'', ''TIME''), (''timestamp'', ''TIMESTAMP''), (''tinyblob'', ''TINYBLOB''),
    (''tinyint'', ''TINYINT''), (''tinytext'', ''TINYTEXT''), (''to'', ''TO''), (''trailing'', ''UNUSED''),
    (''transaction'', ''TRANSACTION''), (''trigger'', ''TRIGGER''), (''true'', ''TRUE''),
    (''truncate'', ''TRUNCATE''), (''undo'', ''UNUSED''), (''union'', ''UNION''), (''unique'', ''UNIQUE''),
    (''unlock'', ''UNUSED''), (''unsigned'', ''UNSIGNED''), (''update'', ''UPDATE''), (''usage'', ''UNUSED''),
    (''use'', ''USE''), (''using'', ''USING''), (''utc_date'', ''UTC_DATE''), (''utc_time'', ''UTC_TIME''),
    (''utc_timestamp'', ''UTC_TIMESTAMP''), (''values'', ''VALUES''), (''variables'', ''VARIABLES''),
    (''varbinary'', ''VARBINARY''), (''varchar'', ''VARCHAR''), (''varcharacter'', ''UNUSED''),
    (''varying'', ''UNUSED''), (''virtual'', ''UNUSED''), (''view'', ''VIEW''), (''when'', ''WHEN''),
    (''where'', ''WHERE''), (''while'', ''UNUSED''), (''with'', ''WITH''), (''write'', ''UNUSED''),
    (''xor'', ''UNUSED''), (''year'', ''YEAR''), (''year_month'', ''UNUSED''), (''zerofill'', ''ZEROFILL'')]"

definition isLetter :: "u16 \<Rightarrow> bool" where
  "isLetter ch \<longleftrightarrow> 97 \<le> ch \<and> ch \<le> 122 \<or> 65 \<le> ch \<and> ch \<le> 90 \<or> ch = 95 \<or> ch = 64"

definition isDigit :: "u16 \<Rightarrow> bool" where
  "isDigit ch \<longleftrightarrow> 48 \<le> ch \<and> ch \<le> 57"

definition digitVal :: "u16 \<Rightarrow> nat" where
  "digitVal ch =
     (if 48 \<le> ch \<and> ch \<le> 57 then unat ch - 48
      else if 97 \<le> ch \<and> ch \<le> 102 then unat ch - 97 + 10
      else if 65 \<le> ch \<and> ch \<le> 70 then unat ch - 65 + 10
      else 16)"

definition refill :: "tkn \<Rightarrow> tkn" where
  "refill t = (if t_buf t = [] then
     (case t_stream t of
        [] \<Rightarrow> t
      | (chunk, err) # chunks \<Rightarrow>
          (let t = t\<lparr>t_buf := chunk, t_stream := chunks\<rparr> in
           case err of None \<Rightarrow> t | Some e \<Rightarrow> t\<lparr>t_LastError := Some (ReadError e)\<rparr>)) else t)"

definition tkn_next :: "tkn \<Rightarrow> tkn" where
  "tkn_next t0 = (let t = refill t0 in
     case t_buf t of
       [] \<Rightarrow> if t_lastChar t \<noteq> eofChar then t\<lparr>t_Position := t_Position t + 1, t_lastChar := eofChar\<rparr> else t
     | b # bs \<Rightarrow> t\<lparr>t_Position := t_Position t + 1, t_lastChar := ucast b, t_buf := bs\<rparr>)"

text \<open>\<open>None\<close> is the panic.\<close>

definition consumeNext :: "bytes \<Rightarrow> tkn \<Rightarrow> (bytes \<times> tkn) option" where
  "consumeNext buffer t = (if t_lastChar t = eofChar then None else Some (buffer @ [ucast (t_lastChar t)], tkn_next t))"

text \<open>What is left to read, the look-ahead included; every \<open>tkn_next\<close> before the end shortens it.\<close>

definition tkn_size :: "tkn \<Rightarrow> nat" where
  "tkn_size t = length (t_buf t) + sum_list (map (\<lambda>c. length (fst c)) (t_stream t)) + length (t_stream t) + (if t_lastChar t = eofChar then 0 else 1)"

lemma byte_not_eof [simp]: "(ucast (b :: byte) :: u16) \<noteq> eofChar" "eofChar \<noteq> (ucast (b :: byte) :: u16)"
proof -
  have "unat (ucast b :: u16) < 256" using unat_byte_less [of b] by (simp add: unsigned_ucast_eq take_bit_nat_eq_self)
  then have "(ucast b :: u16) \<noteq> 256" by (auto simp: word_unat_eq_iff)
  then show "(ucast b :: u16) \<noteq> eofChar" "eofChar \<noteq> (ucast b :: u16)" by (auto simp: eofChar_def)
qed

lemma next_le: "tkn_size (tkn_next t) \<le> tkn_size t"
  by (auto simp: tkn_next_def tkn_size_def refill_def Let_def split: list.splits option.splits prod.splits)

lemma next_less: "t_lastChar t \<noteq> eofChar \<Longrightarrow> tkn_size (tkn_next t) < tkn_size t"
  by (auto simp: tkn_next_def tkn_size_def refill_def Let_def split: list.splits option.splits prod.splits)

lemma consume_less: "consumeNext buffer t = Some (b, t') \<Longrightarrow> tkn_size t' < tkn_size t"
  by (auto simp: consumeNext_def next_less split: if_splits)


section \<open>The loops of the scanner\<close>

function skipStatement :: "tkn \<Rightarrow> tkn" where
  "skipStatement t = (if t_lastChar t \<noteq> 59 \<and> t_lastChar t \<noteq> eofChar then skipStatement (tkn_next t) else t)"
  by pat_completeness auto
termination by (relation "measure tkn_size") (auto simp: next_less)

definition isBlank :: "u16 \<Rightarrow> bool" where
  "isBlank ch \<longleftrightarrow> ch = 32 \<or> ch = 10 \<or> ch = 13 \<or> ch = 9"

function skipBlank :: "tkn \<Rightarrow> tkn" where
  "skipBlank t = (if isBlank (t_lastChar t) then skipBlank (tkn_next t) else t)"
  by pat_completeness auto
termination by (relation "measure tkn_size") (auto intro!: next_less simp: isBlank_def eofChar_def)

text \<open>The loops that collect the characters of a name or a bind variable; the end of the input is no such character.\<close>

function scanWhile :: "(u16 \<Rightarrow> bool) \<Rightarrow> bytes \<Rightarrow> tkn \<Rightarrow> bytes \<times> tkn" where
  "scanWhile P buffer t =
     (if P (t_lastChar t) \<and> t_lastChar t \<noteq> eofChar then scanWhile P (buffer @ [ucast (t_lastChar t)]) (tkn_next t) else (buffer, t))"
  by pat_completeness auto
termination by (relation "measure (\<lambda>(P, buffer, t). tkn_size t)") (auto simp: next_less)

function scanMantissa :: "nat \<Rightarrow> bytes \<Rightarrow> tkn \<Rightarrow> (bytes \<times> tkn) option" where
  "scanMantissa base buffer t =
     (if digitVal (t_lastChar t) < base then
        (case consumeNext buffer t of None \<Rightarrow> None | Some (buffer, t) \<Rightarrow> scanMantissa base buffer t)
      else Some (buffer, t))"
  by pat_completeness auto
termination by (relation "measure (\<lambda>(base, buffer, t). tkn_size t)") (auto dest: consume_less)

text \<open>\<open>backTickSeen\<close>: the previous character was a backtick.\<close>

function literalIdentifierLoop :: "bool \<Rightarrow> bytes \<Rightarrow> tkn \<Rightarrow> tkn \<times> bool \<times> bytes" where
  "literalIdentifierLoop backTickSeen buffer t =
     (if backTickSeen then
        if t_lastChar t \<noteq> 96 then (t, True, buffer) else literalIdentifierLoop False (buffer @ [96]) (tkn_next t)
      else if t_lastChar t = 96 then literalIdentifierLoop True buffer (tkn_next t)
      else if t_lastChar t = eofChar then (t, False, buffer)
      else literalIdentifierLoop False (buffer @ [ucast (t_lastChar t)]) (tkn_next t))"
  by pat_completeness auto
termination
  by (relation "measure (\<lambda>(s, buffer, t). tkn_size t)") (auto intro!: next_less simp: eofChar_def)

text \<open>\<open>stringRun\<close> is the scan ahead in the buffer to the next delimiter or backslash.\<close>

definition stringRun :: "u16 \<Rightarrow> tkn \<Rightarrow> bytes" where
  "stringRun delim t = takeWhile (\<lambda>b. ucast b \<noteq> delim \<and> ucast b \<noteq> (92 :: u16)) (t_buf t)"

definition advance :: "nat \<Rightarrow> tkn \<Rightarrow> tkn" where
  "advance n t = t\<lparr>t_buf := drop n (t_buf t), t_Position := t_Position t + int n\<rparr>"

lemma advance_le: "tkn_size (advance n t) \<le> tkn_size t"
  by (simp add: advance_def tkn_size_def)

text \<open>One turn of the loop of \<open>scanString\<close>: it goes on (\<open>Inl\<close>), or ends with a closed string or an error.\<close>

definition scanStringEsc :: "u16 \<Rightarrow> u16 \<Rightarrow> bytes \<Rightarrow> tkn \<Rightarrow> (bytes \<times> tkn) + (tkn \<times> bool \<times> bytes)" where
  "scanStringEsc delim ch buffer t =
     (if ch = 92 then
        if t_lastChar t = eofChar then Inr (t, False, buffer)
        else let decodedChar = SQLDecodeMap (ucast (t_lastChar t));
                 ch = (if decodedChar = DontEscape then t_lastChar t else ucast decodedChar)
             in Inl (buffer @ [ucast ch], tkn_next t)
      else if ch = delim \<and> t_lastChar t \<noteq> delim then Inr (t, True, buffer)
      else Inl (buffer @ [ucast ch], tkn_next t))"

definition scanStringStep :: "u16 \<Rightarrow> bytes \<Rightarrow> tkn \<Rightarrow> (bytes \<times> tkn) + (tkn \<times> bool \<times> bytes)" where
  "scanStringStep delim buffer t =
     (let ch = t_lastChar t in
      if ch = eofChar then Inr (t, False, buffer)
      else if ch \<noteq> delim \<and> ch \<noteq> 92 then
        let ahead = stringRun delim t;
            buffer = buffer @ [ucast ch] @ ahead;
            t = advance (length ahead) t
        in case t_buf t of
             [] \<Rightarrow> Inl (buffer, tkn_next t)
           | b # _ \<Rightarrow> scanStringEsc delim (ucast b) buffer (tkn_next (advance 1 t))
      else scanStringEsc delim ch buffer (tkn_next t))"

lemma scanStringEsc_le: "scanStringEsc delim ch buffer t = Inl (b, t') \<Longrightarrow> tkn_size t' \<le> tkn_size t"
  by (auto simp: scanStringEsc_def Let_def next_le split: if_splits)

lemma scanStringStep_less:
  assumes "scanStringStep delim buffer t = Inl (b, t')"
  shows "tkn_size t' < tkn_size t"
proof -
  have ne: "t_lastChar t \<noteq> eofChar" using assms by (auto simp: scanStringStep_def)
  have adv: "tkn_size (tkn_next (advance n t)) < tkn_size t" for n
    by (rule less_le_trans [OF next_less advance_le]) (use ne in \<open>simp add: advance_def\<close>)
  have adv2: "tkn_size (tkn_next (advance m (advance n t))) < tkn_size t" for m n
    using adv [of "m + n"] by (simp add: advance_def add.commute add.left_commute)
  show ?thesis
    using assms ne adv adv2 next_less [OF ne]
    by (auto simp: scanStringStep_def Let_def split: if_splits list.splits dest!: scanStringEsc_le intro: le_less_trans)
qed

function scanString :: "u16 \<Rightarrow> bytes \<Rightarrow> tkn \<Rightarrow> tkn \<times> bool \<times> bytes" where
  "scanString delim buffer t =
     (case scanStringStep delim buffer t of Inl (buffer, t) \<Rightarrow> scanString delim buffer t | Inr r \<Rightarrow> r)"
  by pat_completeness auto
termination
  by (relation "measure (\<lambda>(delim, buffer, t). tkn_size t)") (auto dest: scanStringStep_less)

function commentType1Loop :: "bytes \<Rightarrow> tkn \<Rightarrow> (bytes \<times> tkn) option" where
  "commentType1Loop buffer t =
     (if t_lastChar t \<noteq> eofChar then
        if t_lastChar t = 10 then consumeNext buffer t
        else (case consumeNext buffer t of None \<Rightarrow> None | Some (buffer, t) \<Rightarrow> commentType1Loop buffer t)
      else Some (buffer, t))"
  by pat_completeness auto
termination by (relation "measure (\<lambda>(buffer, t). tkn_size t)") (auto dest: consume_less)

text \<open>The loop shared by both kinds of block comment; the flag says whether the comment was closed.\<close>

function commentType2Loop :: "bytes \<Rightarrow> tkn \<Rightarrow> (bool \<times> bytes \<times> tkn) option" where
  "commentType2Loop buffer t =
     (if t_lastChar t = 42 then
        (case consumeNext buffer t of
           None \<Rightarrow> None
         | Some (buffer, t) \<Rightarrow>
             if t_lastChar t = 47 then map_option (Pair True) (consumeNext buffer t) else commentType2Loop buffer t)
      else if t_lastChar t = eofChar then Some (False, buffer, t)
      else (case consumeNext buffer t of None \<Rightarrow> None | Some (buffer, t) \<Rightarrow> commentType2Loop buffer t))"
  by pat_completeness auto
termination by (relation "measure (\<lambda>(buffer, t). tkn_size t)") (auto dest: consume_less)

declare skipStatement.simps [simp del] skipBlank.simps [simp del] scanWhile.simps [simp del] scanMantissa.simps [simp del]
  literalIdentifierLoop.simps [simp del] scanString.simps [simp del] commentType1Loop.simps [simp del]
  commentType2Loop.simps [simp del]


section \<open>Executable comments\<close>

definition digitStarts :: "nat list" where
  "digitStarts = [0x30, 0x660, 0x6F0, 0x7C0, 0x966, 0x9E6, 0xA66, 0xAE6, 0xB66, 0xBE6, 0xC66, 0xCE6, 0xD66, 0xDE6, 0xE50, 0xED0,
     0xF20, 0x1040, 0x1090, 0x17E0, 0x1810, 0x1946, 0x19D0, 0x1A80, 0x1A90, 0x1B50, 0x1BB0, 0x1C40, 0x1C50, 0xA620, 0xA8D0,
     0xA900, 0xA9D0, 0xA9F0, 0xAA50, 0xABF0, 0xFF10, 0x104A0, 0x11066, 0x110F0, 0x11136, 0x111D0, 0x112F0, 0x11450, 0x114D0,
     0x11650, 0x116C0, 0x11730, 0x118E0, 0x11C50, 0x11D50, 0x16A60, 0x16B50, 0x1D7CE, 0x1D7D8, 0x1D7E2, 0x1D7EC, 0x1D7F6, 0x1E950]"

text \<open>\<^verbatim>\<open>unicode.IsDigit\<close> and \<^verbatim>\<open>unicode.IsSpace\<close>: each decimal system has ten digits in a row.\<close>

definition unicode_IsDigit :: "nat \<Rightarrow> bool" where
  "unicode_IsDigit r \<longleftrightarrow> (\<exists>d \<in> set digitStarts. d \<le> r \<and> r < d + 10)"

definition unicode_IsSpace :: "nat \<Rightarrow> bool" where
  "unicode_IsSpace r \<longleftrightarrow> r \<in> {9, 10, 11, 12, 13, 32, 0x85, 0xA0, 0x1680, 0x2028, 0x2029, 0x202F, 0x205F, 0x3000} \<or>
     0x2000 \<le> r \<and> r \<le> 0x200A"

lemma DecodeRune_pos: "s \<noteq> [] \<Longrightarrow> 0 < snd (DecodeRune s)"
  by (auto simp: DecodeRune_def DecodeRune2_def DecodeRune3_def DecodeRune4_def split: list.splits)

text \<open>\<^verbatim>\<open>strings.IndexFunc\<close> with the function that counts: the offset of the first rune that is no digit, or of the sixth
  rune; \<open>None\<close> is \<open>-1\<close>.\<close>

function versionEnd :: "nat \<Rightarrow> nat \<Rightarrow> bytes \<Rightarrow> nat option" where
  "versionEnd digitCount offset s =
     (if s = [] then None
      else let (r, w) = DecodeRune s; digitCount = digitCount + 1 in
        if \<not> unicode_IsDigit r \<or> digitCount = 6 then Some offset else versionEnd digitCount (offset + w) (drop w s))"
  by pat_completeness auto
termination
proof (relation "measure (\<lambda>(d, off, s). length s)", simp, clarsimp)
  fix s :: bytes and r w
  assume "s \<noteq> []" "(r, w) = DecodeRune s"
  then have "0 < w" "0 < length s" using DecodeRune_pos [of s] by (metis snd_conv, simp)
  then show "length s - w < length s" by simp
qed

function TrimLeftSpace :: "bytes \<Rightarrow> bytes" where
  "TrimLeftSpace s =
     (if s \<noteq> [] \<and> unicode_IsSpace (fst (DecodeRune s)) then TrimLeftSpace (drop (snd (DecodeRune s)) s) else s)"
  by pat_completeness auto
termination
proof (relation "measure length", simp, clarsimp)
  fix s :: bytes
  assume "s \<noteq> []"
  then show "length s - snd (DecodeRune s) < length s" using DecodeRune_pos [of s] by (cases s) auto
qed

text \<open>A width of 0, which \<^verbatim>\<open>DecodeLastRune\<close> only returns for the empty string, would not shorten the string.\<close>

function TrimRightSpace :: "bytes \<Rightarrow> bytes" where
  "TrimRightSpace s =
     (let (r, w) = DecodeLastRune s in
      if s \<noteq> [] \<and> 0 < w \<and> unicode_IsSpace r then TrimRightSpace (take (length s - w) s) else s)"
  by pat_completeness auto
termination by (relation "measure length") auto

declare versionEnd.simps [simp del] TrimLeftSpace.simps [simp del] TrimRightSpace.simps [simp del]

definition TrimSpace :: "bytes \<Rightarrow> bytes" where
  "TrimSpace s = TrimRightSpace (TrimLeftSpace s)"

text \<open>The caller passes a comment with both markers; \<open>None\<close> is the panic of the slice up to \<open>-1\<close>.\<close>

definition ExtractMysqlComment :: "bytes \<Rightarrow> (bytes \<times> bytes) option" where
  "ExtractMysqlComment comment =
     (if length comment < 5 then None
      else let sql = take (length comment - 5) (drop 3 comment) in
        case versionEnd 0 0 sql of
          None \<Rightarrow> None
        | Some e \<Rightarrow> Some (take e sql, TrimSpace (drop e sql)))"

section \<open>Tokens\<close>

datatype scanned = Token token bytes | Special bytes | Panicked

definition lower :: "byte \<Rightarrow> byte" where
  "lower b = (if 65 \<le> b \<and> b \<le> 90 then b + 32 else b)"

definition text_of :: "bytes \<Rightarrow> string" where
  "text_of bs = map (\<lambda>b. char_of (unat b)) bs"

definition scanIdentifier :: "byte \<Rightarrow> tkn \<Rightarrow> tkn \<times> scanned" where
  "scanIdentifier firstByte t =
     (let (buffer, t) = scanWhile (\<lambda>ch. isLetter ch \<or> isDigit ch) [firstByte] t;
          lowered = map lower buffer in
      (t, case keywords_map (text_of lowered) of
            Some keywordID \<Rightarrow> Token (Tok keywordID) lowered
          | None \<Rightarrow> if text_of lowered = ''dual'' then Token (Tok ''ID'') lowered else Token (Tok ''ID'') buffer))"

definition scanHex :: "tkn \<Rightarrow> tkn \<times> scanned" where
  "scanHex t = (case scanMantissa 16 [] t of
     None \<Rightarrow> (t, Panicked)
   | Some (buffer, t) \<Rightarrow>
       if t_lastChar t \<noteq> 39 then (t, Token (Tok ''LEX_ERROR'') buffer)
       else let t = tkn_next t in
         if odd (length buffer) then (t, Token (Tok ''LEX_ERROR'') buffer) else (t, Token (Tok ''HEX'') buffer))"

definition scanBitLiteral :: "tkn \<Rightarrow> tkn \<times> scanned" where
  "scanBitLiteral t = (case scanMantissa 2 [] t of
     None \<Rightarrow> (t, Panicked)
   | Some (buffer, t) \<Rightarrow>
       if t_lastChar t \<noteq> 39 then (t, Token (Tok ''LEX_ERROR'') buffer)
       else (tkn_next t, Token (Tok ''BIT_LITERAL'') buffer))"

definition scanLiteralIdentifier :: "tkn \<Rightarrow> tkn \<times> scanned" where
  "scanLiteralIdentifier t = (case literalIdentifierLoop False [] t of
     (t, closed, buffer) \<Rightarrow>
       (t, Token (Tok (if \<not> closed \<or> buffer = [] then ''LEX_ERROR'' else ''ID'')) buffer))"

definition scanBindVar :: "tkn \<Rightarrow> tkn \<times> scanned" where
  "scanBindVar t =
     (let buffer = [ucast (t_lastChar t)]; t = tkn_next t;
          (name, buffer, t) = (if t_lastChar t = 58 then (''LIST_ARG'', buffer @ [ucast (t_lastChar t)], tkn_next t)
            else (''VALUE_ARG'', buffer, t)) in
      if \<not> isLetter (t_lastChar t) then (t, Token (Tok ''LEX_ERROR'') buffer)
      else let (buffer, t) = scanWhile (\<lambda>ch. isLetter ch \<or> isDigit ch \<or> ch = 46) buffer t in (t, Token (Tok name) buffer))"

definition number_exit :: "string \<Rightarrow> bytes \<times> tkn \<Rightarrow> tkn \<times> scanned" where
  "number_exit name = (\<lambda>(buffer, t). (t, Token (Tok (if isLetter (t_lastChar t) then ''LEX_ERROR'' else name)) buffer))"

definition orPanic :: "tkn \<Rightarrow> 'a option \<Rightarrow> ('a \<Rightarrow> tkn \<times> scanned) \<Rightarrow> tkn \<times> scanned" where
  "orPanic t x k = (case x of None \<Rightarrow> (t, Panicked) | Some y \<Rightarrow> k y)"

definition number_exponent :: "string \<Rightarrow> bytes \<times> tkn \<Rightarrow> tkn \<times> scanned" where
  "number_exponent name = (\<lambda>(buffer, t).
     if t_lastChar t = 101 \<or> t_lastChar t = 69 then
       orPanic t (consumeNext buffer t) (\<lambda>(buffer, t).
       orPanic t (if t_lastChar t = 43 \<or> t_lastChar t = 45 then consumeNext buffer t else Some (buffer, t)) (\<lambda>(buffer, t).
       orPanic t (scanMantissa 10 buffer t) (number_exit ''FLOAT'')))
     else number_exit name (buffer, t))"

definition number_decimal :: "bytes \<times> tkn \<Rightarrow> tkn \<times> scanned" where
  "number_decimal = (\<lambda>(buffer, t). orPanic t (scanMantissa 10 buffer t) (\<lambda>(buffer, t).
     if t_lastChar t = 46 then
       orPanic t (consumeNext buffer t) (\<lambda>(buffer, t).
       orPanic t (scanMantissa 10 buffer t) (number_exponent ''FLOAT''))
     else number_exponent ''INTEGRAL'' (buffer, t)))"

definition scanNumber :: "bool \<Rightarrow> tkn \<Rightarrow> tkn \<times> scanned" where
  "scanNumber seenDecimalPoint t =
     (if seenDecimalPoint then orPanic t (scanMantissa 10 [46] t) (number_exponent ''FLOAT'')
      else if t_lastChar t = 48 then
        orPanic t (consumeNext [] t) (\<lambda>(buffer, t).
          if t_lastChar t = 120 \<or> t_lastChar t = 88 then
            orPanic t (consumeNext buffer t) (\<lambda>(buffer, t). orPanic t (scanMantissa 16 buffer t) (number_exit ''HEXNUM''))
          else number_decimal (buffer, t))
      else number_decimal ([], t))"

definition scanCommentType1 :: "bytes \<Rightarrow> tkn \<Rightarrow> tkn \<times> scanned" where
  "scanCommentType1 pre t = orPanic t (commentType1Loop pre t) (\<lambda>(buffer, t). (t, Token (Tok ''COMMENT'') buffer))"

definition scanCommentType2 :: "tkn \<Rightarrow> tkn \<times> scanned" where
  "scanCommentType2 t = orPanic t (commentType2Loop [47, 42] t) (\<lambda>(closed, buffer, t).
     (t, Token (Tok (if closed then ''COMMENT'' else ''LEX_ERROR'')) buffer))"

definition scanMySQLSpecificComment :: "tkn \<Rightarrow> tkn \<times> scanned" where
  "scanMySQLSpecificComment t = orPanic t (commentType2Loop [47, 42, 33] (tkn_next t)) (\<lambda>(closed, buffer, t).
     if \<not> closed then (t, Token (Tok ''LEX_ERROR'') buffer)
     else orPanic t (ExtractMysqlComment buffer) (\<lambda>(_, sql). (t, Special sql)))"

definition scanStringToken :: "u16 \<Rightarrow> tkn \<Rightarrow> tkn \<times> scanned" where
  "scanStringToken delim t = (case scanString delim [] t of
     (t, closed, buffer) \<Rightarrow> (t, Token (Tok (if closed then ''STRING'' else ''LEX_ERROR'')) buffer))"

definition VALUE_ARG_pos :: "tkn \<Rightarrow> tkn \<times> scanned" where
  "VALUE_ARG_pos t = (let t = t\<lparr>t_posVarIndex := t_posVarIndex t + 1\<rparr> in
     (t, Token (Tok ''VALUE_ARG'') ([58, 118] @ decimal (t_posVarIndex t))))"

definition single :: "tkn \<Rightarrow> u16 \<Rightarrow> tkn \<times> scanned" where
  "single t ch = (t, Token (TChar ch) [])"

definition oper :: "tkn \<Rightarrow> string \<Rightarrow> tkn \<times> scanned" where
  "oper t name = (tkn_next t, Token (Tok name) [])"

text \<open>The inner \<^verbatim>\<open>switch\<close> of \<open>Scan\<close>: \<open>ch\<close> is read and \<open>t\<close> looks at the character after it.\<close>

definition scanSlash :: "tkn \<Rightarrow> tkn \<times> scanned" where
  "scanSlash t =
     (if t_lastChar t = 47 then scanCommentType1 [47, 47] (tkn_next t)
      else if t_lastChar t = 42 then
        let t = tkn_next t in if t_lastChar t = 33 then scanMySQLSpecificComment t else scanCommentType2 t
      else single t 47)"

definition scanMinus :: "tkn \<Rightarrow> tkn \<times> scanned" where
  "scanMinus t =
     (if t_lastChar t = 45 then scanCommentType1 [45, 45] (tkn_next t)
      else if t_lastChar t = 62 then
        let t = tkn_next t in
        if t_lastChar t = 62 then oper t ''JSON_UNQUOTE_EXTRACT_OP'' else (t, Token (Tok ''JSON_EXTRACT_OP'') [])
      else single t 45)"

definition scanLess :: "tkn \<Rightarrow> tkn \<times> scanned" where
  "scanLess t =
     (if t_lastChar t = 62 then oper t ''NE''
      else if t_lastChar t = 60 then oper t ''SHIFT_LEFT''
      else if t_lastChar t = 61 then
        let t = tkn_next t in if t_lastChar t = 62 then oper t ''NULL_SAFE_EQUAL'' else (t, Token (Tok ''LE'') [])
      else single t 60)"

definition scanGreater :: "tkn \<Rightarrow> tkn \<times> scanned" where
  "scanGreater t =
     (if t_lastChar t = 61 then oper t ''GE'' else if t_lastChar t = 62 then oper t ''SHIFT_RIGHT'' else single t 62)"

definition scanOther :: "u16 \<Rightarrow> tkn \<Rightarrow> tkn \<times> scanned" where
  "scanOther ch t =
     (if ch = eofChar then (t, Token TEOF [])
      else if ch \<in> {61, 44, 59, 40, 41, 43, 42, 37, 94, 126} then single t ch
      else if ch = 38 then if t_lastChar t = 38 then oper t ''AND'' else single t ch
      else if ch = 124 then if t_lastChar t = 124 then oper t ''OR'' else single t ch
      else if ch = 63 then VALUE_ARG_pos t
      else if ch = 46 then if isDigit (t_lastChar t) then scanNumber True t else single t ch
      else if ch = 47 then scanSlash t
      else if ch = 35 then scanCommentType1 [35] t
      else if ch = 45 then scanMinus t
      else if ch = 60 then scanLess t
      else if ch = 62 then scanGreater t
      else if ch = 33 then if t_lastChar t = 61 then oper t ''NE'' else single t ch
      else if ch = 39 \<or> ch = 34 then scanStringToken ch t
      else if ch = 96 then scanLiteralIdentifier t
      else (t, Token (Tok ''LEX_ERROR'') [ucast ch]))"

definition scanWord :: "u16 \<Rightarrow> tkn \<Rightarrow> tkn \<times> scanned" where
  "scanWord ch t =
     (if (ch = 88 \<or> ch = 120) \<and> t_lastChar t = 39 then scanHex (tkn_next t)
      else if (ch = 66 \<or> ch = 98) \<and> t_lastChar t = 39 then scanBitLiteral (tkn_next t)
      else scanIdentifier (ucast ch) t)"

definition scanSwitch :: "tkn \<Rightarrow> tkn \<times> scanned" where
  "scanSwitch t = (let ch = t_lastChar t in
     if isLetter ch then scanWord ch (tkn_next t)
     else if isDigit ch then scanNumber False t
     else if ch = 58 then scanBindVar t
     else if ch = 59 \<and> t_multi t then (t, Token TEOF [])
     else scanOther ch (tkn_next t))"

text \<open>\<open>Scan\<close> after the executable comment, if there was one, is used up.\<close>

definition scanToken :: "tkn \<Rightarrow> tkn \<times> scanned" where
  "scanToken t =
     (let t = (if t_lastChar t = 0 then tkn_next t else t) in
      if t_ForceEOF t then (skipStatement t, Token TEOF [])
      else scanSwitch (skipBlank t))"


section \<open>Every scan consumes\<close>

lemma skipStatement_le: "tkn_size (skipStatement t) \<le> tkn_size t"
  by (induction t rule: skipStatement.induct, subst skipStatement.simps) (auto intro: order_trans [OF _ next_le])

lemma skipBlank_le: "tkn_size (skipBlank t) \<le> tkn_size t"
  by (induction t rule: skipBlank.induct, subst skipBlank.simps) (auto intro: order_trans [OF _ next_le])

lemma scanWhile_le: "tkn_size (snd (scanWhile P buffer t)) \<le> tkn_size t"
  by (induction P buffer t rule: scanWhile.induct, subst scanWhile.simps) (auto intro: order_trans [OF _ next_le])

lemma scanWhile_dest: "scanWhile P buffer t = (b, t') \<Longrightarrow> tkn_size t' \<le> tkn_size t"
  using scanWhile_le [of P buffer t] by simp

lemma scanMantissa_le: "scanMantissa base buffer t = Some (b, t') \<Longrightarrow> tkn_size t' \<le> tkn_size t"
proof (induction base buffer t rule: scanMantissa.induct)
  case (1 base buffer t)
  show ?case
    using 1(2) consume_less [of buffer t]
    by (subst (asm) scanMantissa.simps)
      (auto split: if_splits option.splits intro!: less_imp_le elim!: le_less_trans [OF 1(1), rotated 3])
qed

lemma literalIdentifierLoop_le: "tkn_size (fst (literalIdentifierLoop s buffer t)) \<le> tkn_size t"
  by (induction s buffer t rule: literalIdentifierLoop.induct, subst literalIdentifierLoop.simps)
    (auto intro: order_trans [OF _ next_le])

lemma scanString_le: "tkn_size (fst (scanString delim buffer t)) \<le> tkn_size t"
proof (induction delim buffer t rule: scanString.induct)
  case (1 delim buffer t)
  have adv: "tkn_size (tkn_next (advance n t)) \<le> tkn_size t" for n
    by (rule order_trans [OF next_le advance_le])
  have adv2: "tkn_size (tkn_next (advance m (advance n t))) \<le> tkn_size t" for m n
    using order_trans [OF next_le order_trans [OF advance_le advance_le]] by blast
  have fin: "tkn_size u \<le> tkn_size t" if "scanStringStep delim buffer t = Inr (u, c, b)" for u c b
    using that adv adv2 next_le [of t]
    by (auto simp: scanStringStep_def scanStringEsc_def Let_def split: if_splits list.splits)
  show ?case
    by (subst scanString.simps)
      (auto split: sum.splits dest: fin intro: order_trans [OF 1 less_imp_le [OF scanStringStep_less]])
qed

lemma commentType1Loop_le: "commentType1Loop buffer t = Some (b, t') \<Longrightarrow> tkn_size t' \<le> tkn_size t"
proof (induction buffer t rule: commentType1Loop.induct)
  case (1 buffer t)
  show ?case
    using 1(2) consume_less [of buffer t]
    by (subst (asm) commentType1Loop.simps)
      (auto split: if_splits option.splits dest: 1(1) intro: less_imp_le order_trans)
qed

text \<open>A block comment holds no more bytes than were read for it.\<close>

lemma consume_length:
  "consumeNext buffer t = Some (b, t') \<Longrightarrow> length b + tkn_size t' \<le> length buffer + tkn_size t \<and> length buffer \<le> length b"
  using next_less [of t] by (auto simp: consumeNext_def split: if_splits)

lemma commentType2Loop_le:
  "commentType2Loop buffer t = Some (c, b, t') \<Longrightarrow>
     length b + tkn_size t' \<le> length buffer + tkn_size t \<and> length buffer \<le> length b"
proof (induction buffer t rule: commentType2Loop.induct)
  case (1 buffer t)
  show ?case
    using 1(3) consume_length [of buffer t]
    by (subst (asm) commentType2Loop.simps)
      (fastforce split: if_splits option.splits dest: 1(1,2) consume_length)
qed

text \<open>What a scan may leave: the tokenizer and the text of an executable comment are shorter than what was there.\<close>

definition within :: "nat \<Rightarrow> tkn \<times> scanned \<Rightarrow> bool" where
  "within n = (\<lambda>(t, r). case r of
     Token _ _ \<Rightarrow> tkn_size t \<le> n | Special sql \<Rightarrow> tkn_size t + length sql + 3 \<le> n | Panicked \<Rightarrow> True)"

lemma within_mono: "within m r \<Longrightarrow> m \<le> n \<Longrightarrow> within n r"
  by (auto simp: within_def split: scanned.splits)

lemma within_token [simp]: "within n (t, Token tok v) \<longleftrightarrow> tkn_size t \<le> n" "within n (t, Panicked)"
  by (auto simp: within_def)

lemma within_orPanic:
  "(\<And>y. x = Some y \<Longrightarrow> within n (k y)) \<Longrightarrow> within n (orPanic t x k)"
  by (auto simp: orPanic_def split: option.splits)

lemma within_exit: "tkn_size (snd bt) \<le> n \<Longrightarrow> within n (number_exit name bt)"
  by (cases bt) (simp add: number_exit_def)

lemma consume_le: "consumeNext buffer t = Some (b, t') \<Longrightarrow> tkn_size t' \<le> tkn_size t"
  using consume_less [of buffer t b t'] by simp

lemma within_exponent: "tkn_size (snd bt) \<le> n \<Longrightarrow> within n (number_exponent name bt)"
  by (cases bt)
    (auto simp: number_exponent_def split: if_splits intro!: within_orPanic within_exit dest!: consume_le scanMantissa_le)

lemma within_decimal: "tkn_size (snd bt) \<le> n \<Longrightarrow> within n (number_decimal bt)"
  by (cases bt)
    (auto simp: number_decimal_def intro!: within_orPanic within_exponent dest!: consume_le scanMantissa_le)

lemma TrimSpace_le: "length (TrimSpace s) \<le> length s"
proof -
  have l: "length (TrimLeftSpace s) \<le> length s" for s
    by (induction s rule: TrimLeftSpace.induct, subst TrimLeftSpace.simps) (auto intro: order_trans)
  have r: "length (TrimRightSpace s) \<le> length s" for s
    by (induction s rule: TrimRightSpace.induct, subst TrimRightSpace.simps) (fastforce simp: Let_def split: prod.splits)
  show ?thesis unfolding TrimSpace_def by (rule order_trans [OF r l])
qed

lemma Extract_le: "ExtractMysqlComment c = Some (v, sql) \<Longrightarrow> length sql + 5 \<le> length c"
  by (auto simp: ExtractMysqlComment_def Let_def split: if_splits option.splits intro!: order_trans [OF add_le_mono1 [OF TrimSpace_le]])

lemma within_special: "t_lastChar t \<noteq> eofChar \<Longrightarrow> within (tkn_size t) (scanMySQLSpecificComment t)"
  using next_less [of t]
  by (auto simp: scanMySQLSpecificComment_def within_def orPanic_def split: option.splits prod.splits
      dest!: commentType2Loop_le Extract_le)

lemma within_comment2: "tkn_size t < n \<Longrightarrow> within n (scanCommentType2 t)"
  by (auto simp: scanCommentType2_def orPanic_def split: option.splits dest!: commentType2Loop_le)

lemma within_comment1: "tkn_size t \<le> n \<Longrightarrow> within n (scanCommentType1 pre t)"
  by (auto simp: scanCommentType1_def intro!: within_orPanic dest!: commentType1Loop_le)

lemma scanMantissa_less:
  "scanMantissa base buffer t = Some (b, t') \<Longrightarrow> digitVal (t_lastChar t) < base \<Longrightarrow> tkn_size t' < tkn_size t"
  by (subst (asm) scanMantissa.simps) (auto split: option.splits dest!: consume_less scanMantissa_le)

lemma isDigit_Val: "isDigit ch \<Longrightarrow> digitVal ch < 10"
proof -
  assume "isDigit ch"
  then have "48 \<le> unat ch" "unat ch \<le> 57" by (auto simp: isDigit_def word_le_nat_alt)
  then show ?thesis using \<open>isDigit ch\<close> by (auto simp: isDigit_def digitVal_def)
qed

lemma within_number_True: "tkn_size t \<le> n \<Longrightarrow> within n (scanNumber True t)"
  by (auto simp: scanNumber_def intro!: within_orPanic within_exponent dest!: scanMantissa_le)

lemma within_number:
  assumes "isDigit (t_lastChar t)" "tkn_size t \<le> Suc n"
  shows "within n (scanNumber False t)"
proof (cases "t_lastChar t = 48")
  case True
  then show ?thesis using assms(2)
    by (auto simp: scanNumber_def
        intro!: within_orPanic within_decimal within_exit dest!: consume_less scanMantissa_le)
next
  case False
  have "within n (number_decimal ([], t))"
    unfolding number_decimal_def prod.case
  proof (rule within_orPanic, clarify)
    fix b t'
    assume "scanMantissa 10 [] t = Some (b, t')"
    then have "tkn_size t' \<le> n" using scanMantissa_less isDigit_Val [OF assms(1)] assms(2) by fastforce
    then show "within n (if t_lastChar t' = 46 then orPanic t' (consumeNext b t') (\<lambda>(buffer, t).
        orPanic t (scanMantissa 10 buffer t) (number_exponent ''FLOAT'')) else number_exponent ''INTEGRAL'' (b, t'))"
      by (auto intro!: within_orPanic within_exponent dest!: consume_le scanMantissa_le)
  qed
  with False show ?thesis by (simp add: scanNumber_def)
qed

lemma within_string: "tkn_size t \<le> n \<Longrightarrow> within n (scanStringToken delim t)"
  using scanString_le [of delim "[]" t] by (auto simp: scanStringToken_def split: prod.splits)

lemma within_literal: "tkn_size t \<le> n \<Longrightarrow> within n (scanLiteralIdentifier t)"
  using literalIdentifierLoop_le [of False "[]" t] by (auto simp: scanLiteralIdentifier_def split: prod.splits)

lemma within_bindVar: "tkn_size t \<le> Suc n \<Longrightarrow> t_lastChar t \<noteq> eofChar \<Longrightarrow> within n (scanBindVar t)"
  using next_less [of t] next_le [of "tkn_next t"]
  by (cases "t_lastChar (tkn_next t) = 58") (auto simp: scanBindVar_def Let_def split: prod.splits dest!: scanWhile_dest)

lemma next_le': "tkn_size t \<le> n \<Longrightarrow> tkn_size (tkn_next t) \<le> n"
  using next_le order_trans by blast

lemma within_hex: "tkn_size t \<le> n \<Longrightarrow> within n (scanHex t)"
  by (auto simp: scanHex_def Let_def split: option.splits dest!: scanMantissa_le intro!: next_le')

lemma within_bit: "tkn_size t \<le> n \<Longrightarrow> within n (scanBitLiteral t)"
  by (auto simp: scanBitLiteral_def split: option.splits dest!: scanMantissa_le intro!: next_le')

lemma within_identifier: "tkn_size t \<le> n \<Longrightarrow> within n (scanIdentifier b t)"
  by (simp add: scanIdentifier_def Let_def split: prod.splits option.splits) (auto dest!: scanWhile_dest)

lemma within_word: "tkn_size t \<le> n \<Longrightarrow> within n (scanWord ch t)"
  by (simp add: scanWord_def within_hex within_bit within_identifier next_le')

lemma within_slash: "tkn_size t \<le> n \<Longrightarrow> within n (scanSlash t)"
proof -
  assume n: "tkn_size t \<le> n"
  have "within n (scanCommentType2 (tkn_next t))" if "t_lastChar t = 42"
    using that n next_less [of t] by (intro within_comment2) (simp add: eofChar_def)
  moreover have "within n (scanMySQLSpecificComment (tkn_next t))" if "t_lastChar (tkn_next t) = 33"
    using that n next_le [of t] by (intro within_mono [OF within_special]) (simp_all add: eofChar_def)
  ultimately show ?thesis
    using n by (auto simp: scanSlash_def Let_def single_def intro: next_le' within_comment1)
qed

lemma within_single: "tkn_size t \<le> n \<Longrightarrow> within n (single t ch)"
  by (simp add: single_def)

lemma within_oper: "tkn_size t \<le> n \<Longrightarrow> within n (oper t name)"
  by (simp add: oper_def next_le')

lemma within_posVar: "tkn_size t \<le> n \<Longrightarrow> within n (VALUE_ARG_pos t)"
  by (simp add: VALUE_ARG_pos_def Let_def tkn_size_def)

lemma within_compare:
  assumes "tkn_size t \<le> n"
  shows "within n (scanMinus t)" "within n (scanLess t)" "within n (scanGreater t)"
  using assms by (simp_all add: scanMinus_def scanLess_def scanGreater_def Let_def within_comment1 within_oper within_single next_le')

lemma within_other: "tkn_size t \<le> n \<Longrightarrow> within n (scanOther ch t)"
  by (simp add: scanOther_def within_oper within_single within_posVar within_compare within_number_True within_slash
      within_comment1 within_string within_literal)

text \<open>A token other than the end of the input leaves less to read.\<close>

definition progress :: "tkn \<Rightarrow> tkn \<times> scanned \<Rightarrow> bool" where
  "progress t = (\<lambda>(t', r). case r of
     Token tok _ \<Rightarrow> tkn_size t' \<le> tkn_size t \<and> (tok \<noteq> TEOF \<longrightarrow> tkn_size t' < tkn_size t)
   | Special sql \<Rightarrow> tkn_size t' + length sql + 3 \<le> tkn_size t
   | Panicked \<Rightarrow> True)"

lemma within_progress: "within n r \<Longrightarrow> n < tkn_size t \<Longrightarrow> progress t r"
  by (auto simp: within_def progress_def split: scanned.splits prod.splits)

lemma progress_mono: "progress u r \<Longrightarrow> tkn_size u \<le> tkn_size t \<Longrightarrow> progress t r"
  by (auto simp: progress_def split: scanned.splits prod.splits)

lemma char_not_eof [simp]: "\<not> isLetter eofChar" "\<not> isDigit eofChar" "\<not> isBlank eofChar"
  by (simp_all add: isLetter_def isDigit_def isBlank_def eofChar_def)

lemma scanSwitch_progress: "progress v (scanSwitch v)"
proof (cases "t_lastChar v = eofChar")
  case True
  then have "scanSwitch v = (tkn_next v, Token TEOF [])"
    by (simp add: scanSwitch_def scanOther_def) (simp add: eofChar_def)
  then show ?thesis using next_le [of v] by (simp add: progress_def)
next
  case False
  let ?n = "tkn_size (tkn_next v)"
  from False have ne: "?n < tkn_size v" by (rule next_less)
  then obtain k where k: "tkn_size v = Suc k" "k < tkn_size v" by (cases "tkn_size v") auto
  have "within ?n (scanWord ch (tkn_next v))" "within ?n (scanOther ch (tkn_next v))" for ch
    by (simp_all add: within_word within_other)
  then have n: "progress v (scanWord ch (tkn_next v))" "progress v (scanOther ch (tkn_next v))" for ch
    using ne by (blast intro: within_progress)+
  have "isDigit (t_lastChar v) \<Longrightarrow> within k (scanNumber False v)" "within k (scanBindVar v)"
    using k False by (simp_all add: within_number within_bindVar)
  then have "isDigit (t_lastChar v) \<Longrightarrow> progress v (scanNumber False v)" "progress v (scanBindVar v)"
    using k(2) by (blast intro: within_progress)+
  moreover have "progress v (v, Token TEOF [])" by (simp add: progress_def)
  ultimately show ?thesis using n by (simp add: scanSwitch_def Let_def)
qed

lemma scanToken_progress: "progress t (scanToken t)"
proof -
  define u where "u = (if t_lastChar t = 0 then tkn_next t else t)"
  have u: "tkn_size u \<le> tkn_size t" unfolding u_def using next_le [of t] by simp
  have "progress t (scanSwitch (skipBlank u))"
    by (rule progress_mono [OF scanSwitch_progress]) (use skipBlank_le [of u] u in simp)
  moreover have "progress t (skipStatement u, Token TEOF [])"
    using skipStatement_le [of u] u by (simp add: progress_def)
  ultimately show ?thesis by (simp add: scanToken_def Let_def flip: u_def)
qed


section \<open>Scan and Lex\<close>

text \<open>
  A tokenizer with its chain of \<open>specialComment\<close> tokenizers, outermost first. An executable comment is scanned by a
  tokenizer of its own until that one is at its end; the result \<open>None\<close> is a panic (on a nil tokenizer too).
\<close>

definition tkn_total :: "tkn list \<Rightarrow> nat" where
  "tkn_total ts = sum_list (map (\<lambda>t. tkn_size t + 1) ts)"

lemma tkn_total_simps [simp]: "tkn_total [] = 0" "tkn_total (t # ts) = tkn_size t + 1 + tkn_total ts"
  by (simp_all add: tkn_total_def)

lemma size_new [simp]: "tkn_size (NewStringTokenizer sql) = length sql + 1"
  by (simp add: NewStringTokenizer_def zero_tkn_def tkn_size_def eofChar_def)

function Scan :: "tkn list \<Rightarrow> tkn list \<times> (token \<times> bytes) option" where
  "Scan [] = ([], None)"
| "Scan (t # specialComment) =
     (let (cs, tokval) = (if specialComment = [] then ([], Some (TEOF, [])) else Scan specialComment) in
      case tokval of
        None \<Rightarrow> (t # cs, None)
      | Some (tok, val) \<Rightarrow>
          if tok \<noteq> TEOF then (t # cs, Some (tok, val))
          else (case scanToken t of
                  (t, Token tok val) \<Rightarrow> ([t], Some (tok, val))
                | (t, Special sql) \<Rightarrow> Scan [t, NewStringTokenizer sql]
                | (t, Panicked) \<Rightarrow> ([t], None)))"
  by pat_completeness auto
termination
proof (relation "measure tkn_total", goal_cases)
  case (3 t)
  then show ?case using scanToken_progress [of t] by (auto simp: progress_def)
qed auto

declare Scan.simps [simp del]

lemma Scan_outer:
  "Scan [t] = (case scanToken t of
     (t, Token tok val) \<Rightarrow> ([t], Some (tok, val))
   | (t, Special sql) \<Rightarrow> Scan [t, NewStringTokenizer sql]
   | (t, Panicked) \<Rightarrow> ([t], None))"
  by (simp add: Scan.simps(2) [of t "[]"])

lemma Scan_inner:
  "Scan (t # c # cs) = (case Scan (c # cs) of
     (cs', None) \<Rightarrow> (t # cs', None)
   | (cs', Some (tok, val)) \<Rightarrow> if tok \<noteq> TEOF then (t # cs', Some (tok, val)) else Scan [t])"
  by (simp add: Scan.simps(2) [of t "c # cs"] Scan_outer split: prod.split option.split)

lemma Scan_progress_gen:
  "Scan ts = (ts', Some (tok, val)) \<Longrightarrow> tkn_total ts' \<le> tkn_total ts \<and> (tok \<noteq> TEOF \<longrightarrow> tkn_total ts' < tkn_total ts)"
proof (induction "tkn_total ts" arbitrary: ts ts' tok val rule: less_induct)
  case less
  consider (nil) "ts = []" | (outer) t where "ts = [t]" | (inner) t c cs where "ts = t # c # cs"
    by (metis list.exhaust)
  then show ?case
  proof cases
    case nil
    then show ?thesis using less.prems by (simp add: Scan.simps)
  next
    case outer
    obtain t' r where r: "scanToken t = (t', r)" by fastforce
    have p: "progress t (t', r)" using scanToken_progress [of t] r by simp
    show ?thesis
    proof (cases r)
      case (Special sql)
      then have "tkn_total [t', NewStringTokenizer sql] < tkn_total ts" using p outer by (simp add: progress_def)
      then show ?thesis using less.hyps [of "[t', NewStringTokenizer sql]"] less.prems outer r Special
        by (fastforce simp: Scan_outer)
    qed (use less.prems outer r p in \<open>auto simp: Scan_outer progress_def\<close>)
  next
    case inner
    have lt: "tkn_total (c # cs) < tkn_total ts" "tkn_total [t] < tkn_total ts" using inner by simp_all
    obtain cs' tv where s: "Scan (c # cs) = (cs', tv)" by fastforce
    show ?thesis
    proof (cases "\<exists>tok val. tv = Some (tok, val) \<and> tok \<noteq> TEOF")
      case True
      then show ?thesis using less.hyps [OF lt(1)] less.prems inner s by (fastforce simp: Scan_inner)
    next
      case False
      then have "Scan [t] = (ts', Some (tok, val))" using less.prems inner s by (auto simp: Scan_inner split: option.splits)
      then show ?thesis using less.hyps [OF lt(2)] lt(2) by fastforce
    qed
  qed
qed

text \<open>\<open>Lex\<close> asks for tokens until one is no comment; \<open>progress\<close> makes it end.\<close>

function Lex :: "tkn list \<Rightarrow> tkn list \<times> (token \<times> bytes) option" where
  "Lex ts = (case Scan ts of
     ([], _) \<Rightarrow> ([], None)
   | (t # cs, None) \<Rightarrow> (t # cs, None)
   | (t # cs, Some (typ, val)) \<Rightarrow>
       if typ = Tok ''COMMENT'' \<and> \<not> t_AllowComments t then Lex (t # cs)
       else (t\<lparr>t_lastToken := val\<rparr> # cs, Some (typ, val)))"
  by pat_completeness auto
termination by (relation "measure tkn_total") (auto dest: Scan_progress_gen [OF sym])

declare Lex.simps [simp del]

text \<open>\<open>Error\<close> keeps the message, the position and the last token, and skips to the end of the statement.\<close>

definition tkn_Error :: "string \<Rightarrow> tkn list \<Rightarrow> tkn list" where
  "tkn_Error err ts = (case ts of
     [] \<Rightarrow> []
   | t # cs \<Rightarrow>
       let t = t\<lparr>t_LastError := Some (SyntaxError err (t_Position t) (t_lastToken t))\<rparr> in
       (if t_lastChar t \<noteq> 59 then skipStatement t else t) # cs)"

definition tkn_reset :: "tkn list \<Rightarrow> tkn list" where
  "tkn_reset ts = (case ts of [] \<Rightarrow> [] | t # _ \<Rightarrow> [t\<lparr>t_posVarIndex := 0, t_ForceEOF := False\<rparr>])"

end
