(* ===== verification/Sql_Tokens.thy ===== *)
theory Sql_Tokens
  imports Sql_Lexer
begin

text \<open>
  What the tokenizer of \<open>Sql_Lexer\<close> promises. A tokenizer that reads from a stream sees the input in pieces; \<open>input\<close> is the
  text that is left, and every loop is described on it, whatever the pieces are. Shown here: the string scanner with its
  scan ahead in the buffer equals a character by character reference, a printed literal is scanned back, scanning goes on
  until the end of the input, and the only panic is that of a short executable comment.
\<close>

section \<open>The text that is left\<close>

definition input :: "tkn \<Rightarrow> bytes" where
  "input t = (if t_lastChar t = eofChar then [] else [ucast (t_lastChar t)]) @ t_buf t @ concat (map fst (t_stream t))"

text \<open>A reader returns no empty piece before its end; at the end nothing is left.\<close>

definition tkn_wf :: "tkn \<Rightarrow> bool" where
  "tkn_wf t \<longleftrightarrow> (\<forall>c \<in> set (t_stream t). fst c \<noteq> []) \<and>
     (if t_lastChar t = eofChar then t_buf t = [] \<and> t_stream t = [] else t_lastChar t < 256)"

lemma char_round: "ch < 256 \<Longrightarrow> (ucast (ucast (ch :: u16) :: byte) :: u16) = ch"
proof -
  assume "ch < 256"
  then have "unat ch < 256" by (simp add: word_less_nat_alt)
  then show ?thesis by (simp add: word_unat_eq_iff unsigned_ucast_eq unsigned_take_bit_eq take_bit_nat_def)
qed

lemma byte_round [simp]: "(ucast (ucast (b :: byte) :: u16) :: byte) = b"
  by (rule bit_word_eqI) (simp add: bit_ucast_iff)

lemma ucast_byte_eq [simp]: "(ucast (a :: byte) :: u16) = ucast (b :: byte) \<longleftrightarrow> a = b"
  by (metis byte_round)

lemma ucast_byte_less [simp]: "(ucast (b :: byte) :: u16) < 256"
  using unat_byte_less [of b] by (simp add: word_less_nat_alt unsigned_ucast_eq take_bit_nat_def)

lemma look: "tkn_wf t \<Longrightarrow> t_lastChar t = (case input t of [] \<Rightarrow> eofChar | b # _ \<Rightarrow> ucast b)"
  by (auto simp: tkn_wf_def input_def char_round split: if_splits)

lemma refill_input: "t_buf (refill t) @ concat (map fst (t_stream (refill t))) = t_buf t @ concat (map fst (t_stream t))"
  by (auto simp: refill_def Let_def split: list.splits option.splits)

lemma refill_keeps [simp]: "t_lastChar (refill t) = t_lastChar t"
  by (auto simp: refill_def Let_def split: list.splits option.splits)

lemma next_wf [simp]: "tkn_wf t \<Longrightarrow> tkn_wf (tkn_next t)"
  by (auto simp: tkn_wf_def tkn_next_def refill_def Let_def split: list.splits option.splits if_splits)

lemma next_input [simp]: "tkn_wf t \<Longrightarrow> input (tkn_next t) = tl (input t)"
  by (auto simp: tkn_wf_def input_def tkn_next_def refill_def Let_def split: list.splits option.splits if_splits)

lemma look_Nil: "tkn_wf t \<Longrightarrow> input t = [] \<Longrightarrow> t_lastChar t = eofChar"
  by (simp add: look)

lemma look_Cons: "tkn_wf t \<Longrightarrow> input t = b # r \<Longrightarrow> t_lastChar t = ucast b"
  by (simp add: look)

lemma new_input: "[] \<notin> fst ` set chunks \<Longrightarrow>
    tkn_wf (NewTokenizer chunks) \<and> input (NewTokenizer chunks) = 0 # concat (map fst chunks)"
  by (force simp: tkn_wf_def input_def NewTokenizer_def zero_tkn_def eofChar_def)

section \<open>Strings\<close>

definition unescape :: "byte \<Rightarrow> byte" where
  "unescape e = (if SQLDecodeMap e = DontEscape then e else SQLDecodeMap e)"

text \<open>The reference: one character at a time; the result is whether the string was closed, its value and the rest.\<close>

fun stringRef :: "byte \<Rightarrow> bytes \<Rightarrow> bytes \<Rightarrow> bool \<times> bytes \<times> bytes" where
  "stringRef d acc [] = (False, acc, [])"
| "stringRef d acc [c] = (if c = 92 then (False, acc, []) else if c = d then (True, acc, []) else (False, acc @ [c], []))"
| "stringRef d acc (c # e # cs) =
     (if c = 92 then stringRef d (acc @ [unescape e]) cs
      else if c = d then if e = d then stringRef d (acc @ [d]) cs else (True, acc, e # cs)
      else stringRef d (acc @ [c]) (e # cs))"

lemma stringRef_plain: "c \<noteq> 92 \<Longrightarrow> c \<noteq> d \<Longrightarrow> stringRef d acc (c # cs) = stringRef d (acc @ [c]) cs"
  by (cases cs) simp_all

lemma stringRef_run: "\<forall>c \<in> set run. c \<noteq> d \<and> c \<noteq> 92 \<Longrightarrow> stringRef d acc (run @ cs) = stringRef d (acc @ run) cs"
  by (induction run arbitrary: acc) (simp_all add: stringRef_plain)

definition string_result :: "(bytes \<times> tkn) + (tkn \<times> bool \<times> bytes) \<Rightarrow> byte \<Rightarrow> (bool \<times> bytes \<times> bytes) \<times> bool" where
  "string_result r d = (case r of
     Inl (b, t) \<Rightarrow> (stringRef d b (input t), tkn_wf t)
   | Inr (t, closed, b) \<Rightarrow> ((closed, b, input t), tkn_wf t))"

lemma ucast_backslash [simp]: "(ucast (c :: byte) :: u16) = 92 \<longleftrightarrow> c = 92"
  using ucast_byte_eq [of c 92] by simp

lemma scanStringEsc_ref:
  assumes "tkn_wf u" "c = d \<or> c = 92"
  shows "string_result (scanStringEsc (ucast d) (ucast c) acc u) d = (stringRef d acc (c # input u), True)"
proof (cases "input u")
  case Nil
  then show ?thesis using assms look_Nil [OF assms(1)] by (auto simp: scanStringEsc_def string_result_def)
next
  case (Cons e es)
  then show ?thesis using assms look_Cons [OF assms(1) Cons]
    by (auto simp: scanStringEsc_def string_result_def Let_def unescape_def)
qed

lemma advance_input:
  assumes "tkn_wf t" "t_lastChar t \<noteq> eofChar"
  shows "tkn_wf (advance n t)" "tl (input (advance n t)) = drop n (t_buf t) @ concat (map fst (t_stream t))"
  using assms by (auto simp: advance_def tkn_wf_def input_def)

lemma scanStringStep_ref:
  assumes "tkn_wf t"
  shows "string_result (scanStringStep (ucast d) acc t) d = (stringRef d acc (input t), True)"
proof (cases "input t")
  case Nil
  then show ?thesis using assms look_Nil [OF assms] by (simp add: scanStringStep_def string_result_def)
next
  case (Cons c cs)
  have lc: "t_lastChar t = ucast c" by (rule look_Cons [OF assms Cons])
  show ?thesis
  proof (cases "c = d \<or> c = 92")
    case True
    then show ?thesis using scanStringEsc_ref [of "tkn_next t" c d acc] assms lc Cons
      by (auto simp: scanStringStep_def Let_def)
  next
    case False
    define run where "run = stringRun (ucast d) t"
    have run': "run = takeWhile (\<lambda>b. b \<noteq> d \<and> b \<noteq> 92) (t_buf t)" by (simp add: run_def stringRun_def)
    have plain: "\<forall>b \<in> set run. b \<noteq> d \<and> b \<noteq> 92" by (auto simp: run_def stringRun_def dest: set_takeWhileD)
    have "t_buf t = run @ drop (length run) (t_buf t)"
      by (simp add: run_def stringRun_def flip: dropWhile_eq_drop)
    then obtain r where r: "t_buf t = run @ r" "drop (length run) (t_buf t) = r" by metis
    have inp: "input t = c # run @ r @ concat (map fst (t_stream t))"
      using lc Cons r(1) by (auto simp: input_def)
    have ref: "stringRef d acc (input t) = stringRef d (acc @ c # run) (r @ concat (map fst (t_stream t)))"
      using False plain by (simp add: inp stringRef_plain stringRef_run)
    have a: "tkn_wf (advance n t)" "tl (input (advance n t)) = drop n (t_buf t) @ concat (map fst (t_stream t))" for n
      using advance_input [OF assms, of n] lc by simp_all
    show ?thesis
    proof (cases r)
      case Nil
      then have "scanStringStep (ucast d) acc t = Inl (acc @ c # run, tkn_next (advance (length run) t))"
        using False lc r(2) by (simp add: scanStringStep_def Let_def advance_def flip: run_def)
      then show ?thesis using a [of "length run"] r(2) Nil ref by (simp add: string_result_def)
    next
      case (Cons b bs)
      have "t_buf t ! length run = b" "length run < length (t_buf t)" using r(1) Cons by simp_all
      then have "b = d \<or> b = 92"
        using nth_length_takeWhile [of "\<lambda>b. b \<noteq> d \<and> b \<noteq> 92" "t_buf t"] by (auto simp flip: run')
      moreover have bs: "drop (Suc (length run)) (t_buf t) = bs" using r Cons by simp
      moreover have "scanStringStep (ucast d) acc t =
          scanStringEsc (ucast d) (ucast b) (acc @ c # run) (tkn_next (advance (Suc (length run)) t))"
        using False lc r(2) bs Cons by (simp add: scanStringStep_def Let_def advance_def add_ac flip: run_def)
      ultimately show ?thesis
        using scanStringEsc_ref [of "tkn_next (advance (Suc (length run)) t)" b d "acc @ c # run"] a [of "Suc (length run)"] r(1) Cons ref
        by (simp only: next_input next_wf append_Cons)
    qed
  qed
qed

lemma scanString_ref:
  assumes "tkn_wf t" "scanString (ucast d) acc t = (t', closed, b)"
  shows "stringRef d acc (input t) = (closed, b, input t') \<and> tkn_wf t'"
  using assms
proof (induction "ucast d :: u16" acc t rule: scanString.induct)
  case (1 acc t)
  note s = scanStringStep_ref [OF 1(2), of d acc]
  show ?case
  proof (cases "scanStringStep (ucast d) acc t")
    case (Inl p)
    then show ?thesis using s 1(1) [OF Inl] 1(3) by (cases p) (auto simp: string_result_def scanString.simps [of "ucast d" acc t])
  next
    case (Inr p)
    then show ?thesis using s 1(3) by (cases p) (auto simp: string_result_def scanString.simps [of "ucast d" acc t])
  qed
qed


text \<open>C30: The scanner copies whole runs of the buffer at once; it reads what the reference reads, and leaves what it leaves.\<close>

theorem scanString_equals_reference:
  assumes "tkn_wf t"
  shows "(case scanString (ucast delim) [] t of (t', closed, buffer) \<Rightarrow> (closed, buffer, input t')) = stringRef delim [] (input t)"
  using scanString_ref [OF assms, of delim "[]"] by (auto split: prod.splits)

theorem scanString_equals_reference_witness:
  "(case scanString (ucast (39 :: byte)) [] (NewStringTokenizer [97, 39, 39, 98, 39]) of
      (t', closed, buffer) \<Rightarrow> (closed, buffer, input t')) = (True, [0, 97, 39, 98], [])"
proof -
  have "tkn_wf (NewStringTokenizer [97, 39, 39, 98, 39])"
    by (simp add: tkn_wf_def NewStringTokenizer_def zero_tkn_def eofChar_def)
  from scanString_equals_reference [OF this, of 39] show ?thesis
    by (simp add: input_def NewStringTokenizer_def zero_tkn_def eofChar_def)
qed

section \<open>Literals\<close>

lemma encodeChar_cases:
  "encodeChar ch = [ch] \<and> ch \<noteq> 39 \<and> ch \<noteq> 92 \<or> (\<exists>e. encodeChar ch = [92, e] \<and> unescape e = ch)"
  by (simp add: encodeChar_def SQLEncodeMap_def encodeRef_def DontEscape_def unescape_def SQLDecodeMap_def)

lemma stringRef_escape: "stringRef d acc (92 # e # cs) = stringRef d (acc @ [unescape e]) cs"
  by simp

lemma stringRef_encoded: "stringRef 39 acc (concat (map encodeChar val) @ cs) = stringRef 39 (acc @ val) cs"
proof (induction val arbitrary: acc)
  case (Cons ch val)
  then show ?case using encodeChar_cases [of ch] by (elim disjE exE conjE) (simp_all add: stringRef_plain)
qed simp

lemma stringRef_literal:
  "rest = [] \<or> hd rest \<noteq> 39 \<Longrightarrow> stringRef 39 [] (concat (map encodeChar val) @ 39 # rest) = (True, val, rest)"
  by (cases rest) (simp_all add: stringRef_encoded)

lemma skipBlank_id: "\<not> isBlank (t_lastChar t) \<Longrightarrow> skipBlank t = t"
  by (simp add: skipBlank.simps)

text \<open>The first scan of a new tokenizer reads the first character; here one that is no blank.\<close>

lemma scanToken_new:
  assumes "[] \<notin> fst ` set chunks" "concat (map fst chunks) = b # cs" "\<not> isBlank (ucast b)"
  obtains t where "scanToken (NewTokenizer chunks) = scanSwitch t" "tkn_wf t" "input t = b # cs" "t_lastChar t = ucast b"
    "\<not> t_multi t"
proof
  let ?t = "tkn_next (NewTokenizer chunks)"
  note new = new_input [of chunks, OF assms(1)]
  show wf: "tkn_wf ?t" "input ?t = b # cs" using new assms(2) by simp_all
  then show lc: "t_lastChar ?t = ucast b" by (rule look_Cons)
  have "\<not> t_ForceEOF ?t" "\<not> t_multi ?t"
    by (auto simp: tkn_next_def refill_def NewTokenizer_def zero_tkn_def Let_def split: list.splits option.splits)
  then show "scanToken (NewTokenizer chunks) = scanSwitch ?t" "\<not> t_multi ?t"
    using lc assms(3) by (simp_all add: scanToken_def skipBlank_id Let_def) (simp add: NewTokenizer_def zero_tkn_def)
qed

text \<open>C27: A string or binary value printed as an SQL literal is scanned back as that value, whatever pieces the text is read in
  and whatever follows it, except another quote.\<close>

theorem literal_roundtrip:
  assumes "[] \<notin> fst ` set chunks"
    and "concat (map fst chunks) = EncodeSQL v @ rest" "rest = [] \<or> hd rest \<noteq> 39"
    and "IsQuoted (v_typ v)" "v_typ v \<noteq> T_Null"
  shows "\<exists>t. Scan [NewTokenizer chunks] = ([t], Some (Tok ''STRING'', v_val v)) \<and> input t = rest"
proof -
  let ?lit = "concat (map encodeChar (v_val v)) @ 39 # rest"
  have lit: "concat (map fst chunks) = 39 # ?lit"
    using assms(2,4,5) by (simp add: EncodeSQL_def encodeBytesSQL_def)
  obtain t where t: "scanToken (NewTokenizer chunks) = scanSwitch t" "tkn_wf t" "input t = 39 # ?lit" "t_lastChar t = 39"
    using scanToken_new [OF assms(1) lit] by (auto simp: isBlank_def)
  obtain t' closed b where s: "scanString 39 [] (tkn_next t) = (t', closed, b)" by (cases "scanString 39 [] (tkn_next t)") auto
  have "stringRef 39 [] (input (tkn_next t)) = (closed, b, input t') \<and> tkn_wf t'"
    using scanString_ref [of "tkn_next t" 39 "[]" t' closed b] s t(2) by simp
  then have r: "closed" "b = v_val v" "input t' = rest"
    using t(2,3) stringRef_literal [OF assms(3), of "v_val v"] by simp_all
  have "scanSwitch t = (t', Token (Tok ''STRING'') (v_val v))"
    using t(4) s r by (simp add: scanSwitch_def isLetter_def isDigit_def scanOther_def scanStringToken_def eofChar_def)
  then show ?thesis using t(1) r(3) by (simp add: Scan_outer)
qed

theorem literal_roundtrip_witness:
  "\<exists>t. Scan [NewTokenizer [([39, 105, 116], None), ([92, 39, 115, 39], None), ([59], None)]] =
     ([t], Some (Tok ''STRING'', [105, 116, 39, 115])) \<and> input t = [59]"
  using literal_roundtrip [of "[([39, 105, 116], None), ([92, 39, 115, 39], None), ([59], None)]"
      "\<lparr>v_typ = T_VarChar, v_val = [105, 116, 39, 115]\<rparr>" "[59]"]
  by (simp add: EncodeSQL_def encodeBytesSQL_def encodeChar_def SQLEncodeMap_def encodeRef_def DontEscape_def IsQuoted_def type_flag_defs)



section \<open>Progress\<close>

lemma Lex_progress:
  "Lex ts = (ts', Some (tok, val)) \<Longrightarrow> tok \<noteq> TEOF \<Longrightarrow> tkn_total ts' < tkn_total ts"
proof (induction ts rule: Lex.induct)
  case (1 ts)
  obtain us r where s: "Scan ts = (us, r)" by fastforce
  show ?case
  proof (cases us)
    case Nil
    then show ?thesis using 1(2) s by (simp add: Lex.simps [of ts])
  next
    case (Cons u cs)
    show ?thesis
    proof (cases r)
      case None
      then show ?thesis using 1(2) s Cons by (simp add: Lex.simps [of ts])
    next
      case (Some p)
      then obtain tk v where p: "r = Some (tk, v)" by (cases p) simp
      note le = Scan_progress_gen [OF s [unfolded p]]
      show ?thesis
      proof (cases "tk = Tok ''COMMENT'' \<and> \<not> t_AllowComments u")
        case True
        then have "Lex (u # cs) = (ts', Some (tok, val))" using 1(2) s Cons p by (simp add: Lex.simps [of ts])
        then show ?thesis using 1 s Cons p True le by fastforce
      next
        case False
        then show ?thesis using 1(2,3) s Cons p le by (auto simp: Lex.simps [of ts] tkn_size_def)
      qed
    qed
  qed
qed



section \<open>Text without exclamation marks is scanned without a panic\<close>

definition ok :: "tkn \<Rightarrow> bool" where
  "ok t \<longleftrightarrow> tkn_wf t \<and> 33 \<notin> set (input t)"

definition fine :: "tkn \<times> scanned \<Rightarrow> bool" where
  "fine = (\<lambda>(t, r). ok t \<and> (case r of Token _ _ \<Rightarrow> True | _ \<Rightarrow> False))"

lemma fine_Token [simp]: "fine (t, Token tok v) \<longleftrightarrow> ok t"
  by (simp add: fine_def)

lemma ok_next [simp]: "ok t \<Longrightarrow> ok (tkn_next t)"
  by (cases "input t") (auto simp: ok_def)

lemma ok_look: "ok t \<Longrightarrow> t_lastChar t \<noteq> 33"
  using ucast_byte_eq [of _ 33] by (cases "input t") (auto simp: ok_def look eofChar_def)

lemma ok_consume: "ok t \<Longrightarrow> t_lastChar t \<noteq> eofChar \<Longrightarrow> \<exists>b t'. consumeNext buffer t = Some (b, t') \<and> ok t'"
  by (simp add: consumeNext_def)

lemma ok_consumed: "consumeNext buffer t = Some (b, t') \<Longrightarrow> ok t \<Longrightarrow> ok t'"
  by (auto simp: consumeNext_def split: if_splits)

lemma ok_skipStatement: "ok t \<Longrightarrow> ok (skipStatement t)"
  by (induction t rule: skipStatement.induct, subst skipStatement.simps) auto

lemma ok_skipBlank: "ok t \<Longrightarrow> ok (skipBlank t)"
  by (induction t rule: skipBlank.induct, subst skipBlank.simps) auto

lemma ok_scanWhile: "ok t \<Longrightarrow> ok (snd (scanWhile P buffer t))"
  by (induction P buffer t rule: scanWhile.induct, subst scanWhile.simps) auto

lemma ok_scanWhile_dest: "scanWhile P buffer t = (b, t') \<Longrightarrow> ok t \<Longrightarrow> ok t'"
  using ok_scanWhile [of t P buffer] by simp

lemma digitVal_eof [simp]: "digitVal eofChar = 16"
  by (simp add: digitVal_def eofChar_def)

lemma ok_scanMantissa: "ok t \<Longrightarrow> base \<le> 16 \<Longrightarrow> \<exists>b t'. scanMantissa base buffer t = Some (b, t') \<and> ok t'"
proof (induction base buffer t rule: scanMantissa.induct)
  case (1 base buffer t)
  show ?case
  proof (cases "digitVal (t_lastChar t) < base")
    case True
    then have "t_lastChar t \<noteq> eofChar" using 1(3) by auto
    then obtain b t' where "consumeNext buffer t = Some (b, t')" "ok t'" using ok_consume 1(2) by blast
    then show ?thesis using 1 True by (simp add: scanMantissa.simps [of base buffer t])
  qed (use 1(2) in \<open>simp add: scanMantissa.simps [of base buffer t]\<close>)
qed

lemma ok_literal: "ok t \<Longrightarrow> ok (fst (literalIdentifierLoop s buffer t))"
  by (induction s buffer t rule: literalIdentifierLoop.induct, subst literalIdentifierLoop.simps) auto

lemma ok_comment1: "ok t \<Longrightarrow> \<exists>b t'. commentType1Loop buffer t = Some (b, t') \<and> ok t'"
proof (induction buffer t rule: commentType1Loop.induct)
  case (1 buffer t)
  show ?case
  proof (cases "t_lastChar t = eofChar")
    case False
    then obtain b t' where "consumeNext buffer t = Some (b, t')" "ok t'" using ok_consume 1(2) by blast
    then show ?thesis using 1 False by (simp add: commentType1Loop.simps [of buffer t])
  qed (use 1(2) in \<open>simp add: commentType1Loop.simps [of buffer t]\<close>)
qed

lemma ok_comment2: "ok t \<Longrightarrow> \<exists>c b t'. commentType2Loop buffer t = Some (c, b, t') \<and> ok t'"
proof (induction buffer t rule: commentType2Loop.induct)
  case (1 buffer t)
  show ?case
  proof (cases "t_lastChar t = eofChar")
    case False
    then obtain b t' where c: "consumeNext buffer t = Some (b, t')" "ok t'" using ok_consume 1(3) by blast
    have "\<exists>b' t''. consumeNext b t' = Some (b', t'') \<and> ok t''" if "t_lastChar t' = 47"
      using that ok_consume [OF c(2)] by (simp add: eofChar_def)
    then show ?thesis using 1(1,2) c False by (fastforce simp: commentType2Loop.simps [of buffer t])
  next
    case True
    then have "t_lastChar t \<noteq> 42" by (simp add: eofChar_def)
    with True show ?thesis using 1(3) by (auto simp: commentType2Loop.simps [of buffer t])
  qed
qed

lemma stringRef_subset: "set (snd (snd (stringRef d acc cs))) \<subseteq> set cs"
  by (induction d acc cs rule: stringRef.induct) auto

lemma ok_string:
  assumes "ok t"
  shows "ok (fst (scanString (ucast (d :: byte)) buffer t))"
proof -
  obtain t' closed b where s: "scanString (ucast d) buffer t = (t', closed, b)" by (cases "scanString (ucast d) buffer t") auto
  then show ?thesis using scanString_ref [OF _ s] stringRef_subset [of d buffer "input t"] assms by (auto simp: ok_def)
qed

lemma fine_orPanic: "\<exists>b t'. x = Some (b, t') \<and> ok t' \<Longrightarrow> (\<And>b t'. ok t' \<Longrightarrow> fine (k (b, t'))) \<Longrightarrow> fine (orPanic t x k)"
  by (auto simp: orPanic_def)

lemma fine_exit: "ok (snd bt) \<Longrightarrow> fine (number_exit name bt)"
  by (cases bt) (simp add: number_exit_def)

lemma fine_mantissa: "ok t \<Longrightarrow> base \<le> 16 \<Longrightarrow> (\<And>b t'. ok t' \<Longrightarrow> fine (k (b, t'))) \<Longrightarrow> fine (orPanic u (scanMantissa base buffer t) k)"
  by (rule fine_orPanic [OF ok_scanMantissa])

lemma fine_consume:
  "ok t \<Longrightarrow> t_lastChar t \<noteq> eofChar \<Longrightarrow> (\<And>b t'. ok t' \<Longrightarrow> fine (k (b, t'))) \<Longrightarrow> fine (orPanic u (consumeNext buffer t) k)"
  by (rule fine_orPanic [OF ok_consume])

lemma eof_not [simp]: "(43 :: u16) \<noteq> eofChar" "(45 :: u16) \<noteq> eofChar" "(46 :: u16) \<noteq> eofChar" "(48 :: u16) \<noteq> eofChar"
  "(69 :: u16) \<noteq> eofChar" "(101 :: u16) \<noteq> eofChar" "(88 :: u16) \<noteq> eofChar" "(120 :: u16) \<noteq> eofChar"
  by (simp_all add: eofChar_def)

lemmas eof_not_sym [simp] = eof_not [symmetric]

lemma fine_exponent: "ok (snd bt) \<Longrightarrow> fine (number_exponent name bt)"
proof (cases bt)
  case (Pair b t)
  assume "ok (snd bt)"
  then have t: "ok t" using Pair by simp
  have sign: "\<exists>b'' t''. (if t_lastChar t' = 43 \<or> t_lastChar t' = 45 then consumeNext b' t' else Some (b', t')) = Some (b'', t'') \<and> ok t''"
    if "ok t'" for b' t' using that ok_consume [OF that, of b'] by auto
  show ?thesis using t unfolding Pair number_exponent_def prod.case
    by (auto intro!: fine_consume fine_orPanic [OF sign] fine_mantissa fine_exit)
qed

lemma fine_decimal: "ok (snd bt) \<Longrightarrow> fine (number_decimal bt)"
  by (cases bt) (auto simp: number_decimal_def intro!: fine_consume fine_mantissa fine_exponent)

lemma fine_number: "ok t \<Longrightarrow> fine (scanNumber seen t)"
  by (auto simp: scanNumber_def intro!: fine_consume fine_mantissa fine_exponent fine_decimal fine_exit)

lemma ok_posVar [simp]: "ok (t\<lparr>t_posVarIndex := n\<rparr>) = ok t" "ok (t\<lparr>t_lastToken := v\<rparr>) = ok t"
  by (simp_all add: ok_def tkn_wf_def input_def)

lemma fine_word: "ok t \<Longrightarrow> fine (scanWord ch t)"
proof -
  assume t: "ok t"
  have "fine (scanHex u)" "fine (scanBitLiteral u)" if "ok u" for u
    using ok_scanMantissa [OF that, of 16 "[]"] ok_scanMantissa [OF that, of 2 "[]"]
    by (auto simp: scanHex_def scanBitLiteral_def Let_def)
  moreover have "fine (scanIdentifier b t)" for b
    using ok_scanWhile [OF t] by (simp add: scanIdentifier_def Let_def split: prod.splits option.splits) (metis snd_conv)
  ultimately show ?thesis using t by (simp add: scanWord_def)
qed

lemma fine_bindVar: "ok t \<Longrightarrow> fine (scanBindVar t)"
  by (cases "t_lastChar (tkn_next t) = 58") (auto simp: scanBindVar_def Let_def split: prod.splits dest: ok_scanWhile_dest)

lemma fine_comment1: "ok t \<Longrightarrow> fine (scanCommentType1 pre t)"
  using ok_comment1 [of t pre] by (auto simp: scanCommentType1_def orPanic_def)

lemma fine_slash: "ok t \<Longrightarrow> fine (scanSlash t)"
  using ok_comment2 [of "tkn_next t" "[47, 42]"] ok_look [of "tkn_next t"]
  by (auto simp: scanSlash_def scanCommentType2_def orPanic_def single_def Let_def fine_comment1)

lemma fine_compare: "ok t \<Longrightarrow> fine (scanMinus t)" "ok t \<Longrightarrow> fine (scanLess t)" "ok t \<Longrightarrow> fine (scanGreater t)"
  by (simp_all add: scanMinus_def scanLess_def scanGreater_def single_def oper_def Let_def fine_comment1)

lemma fine_quoted: "ok t \<Longrightarrow> ch = 39 \<or> ch = 34 \<Longrightarrow> fine (scanStringToken ch t)"
  using ok_string [of t 39 "[]"] ok_string [of t 34 "[]"] by (auto simp: scanStringToken_def split: prod.splits)

lemma fine_other: "ok t \<Longrightarrow> fine (scanOther ch t)"
proof -
  assume t: "ok t"
  have "fine (scanLiteralIdentifier t)"
    using ok_literal [OF t, of False "[]"] by (auto simp: scanLiteralIdentifier_def split: prod.splits)
  then show ?thesis
    using t by (simp add: scanOther_def single_def oper_def VALUE_ARG_pos_def Let_def fine_number fine_slash fine_comment1 fine_compare fine_quoted)
qed

lemma scanToken_fine: "ok t \<Longrightarrow> fine (scanToken t)"
proof -
  assume t: "ok t"
  have "fine (scanSwitch v)" if "ok v" for v
    using that by (simp add: scanSwitch_def Let_def fine_word fine_number fine_bindVar fine_other)
  then show ?thesis using t by (simp add: scanToken_def Let_def ok_skipStatement ok_skipBlank)
qed

lemma Scan_fine: "ok t \<Longrightarrow> \<exists>t' tok val. Scan [t] = ([t'], Some (tok, val)) \<and> ok t'"
  using scanToken_fine [of t] by (auto simp: Scan_outer fine_def split: prod.splits scanned.splits)

lemma Lex_fine: "ok t \<Longrightarrow> \<exists>t' tok val. Lex [t] = ([t'], Some (tok, val)) \<and> ok t'"
proof (induction "tkn_size t" arbitrary: t rule: less_induct)
  case less
  obtain t' tok val where s: "Scan [t] = ([t'], Some (tok, val))" "ok t'" using Scan_fine [OF less.prems] by blast
  show ?case
  proof (cases "tok = Tok ''COMMENT'' \<and> \<not> t_AllowComments t'")
    case True
    then have "tkn_size t' < tkn_size t" using Scan_progress_gen [OF s(1)] by simp
    then show ?thesis using less.hyps s True by (simp add: Lex.simps [of "[t]"])
  next
    case False
    then show ?thesis using s False by (auto simp: Lex.simps [of "[t]"])
  qed
qed




section \<open>Executable comments\<close>

lemma commentType2Loop_body:
  assumes "tkn_wf t" "input t = body @ 42 # 47 # rest" "42 \<notin> set body"
  shows "\<exists>t'. commentType2Loop buffer t = Some (True, buffer @ body @ [42, 47], t') \<and> tkn_wf t' \<and> input t' = rest"
  using assms
proof (induction body arbitrary: buffer t)
  case Nil
  have "t_lastChar t = 42" "t_lastChar (tkn_next t) = 47"
    using look_Cons [of t 42] look_Cons [of "tkn_next t" 47] Nil by simp_all
  then show ?case using Nil
    by (simp add: commentType2Loop.simps [of buffer t] consumeNext_def) (simp add: eofChar_def)
next
  case (Cons c body)
  have lc: "t_lastChar t = ucast c" using look_Cons Cons.prems by simp
  then have "t_lastChar t \<noteq> 42" using ucast_byte_eq [of c 42] Cons.prems(3) by simp
  then show ?case using lc Cons.IH [of "tkn_next t" "buffer @ [c]"] Cons.prems
    by (simp add: commentType2Loop.simps [of buffer t] consumeNext_def)
qed

definition asciiDigit :: "byte \<Rightarrow> bool" where
  "asciiDigit b \<longleftrightarrow> 48 \<le> b \<and> b \<le> 57"

lemma DecodeRune_digit: "asciiDigit b \<Longrightarrow> DecodeRune (b # s) = (unat b, 1) \<and> unicode_IsDigit (unat b)"
proof -
  assume "asciiDigit b"
  then have "48 \<le> unat b" "unat b \<le> 57" by (auto simp: asciiDigit_def word_le_nat_alt)
  then show ?thesis by (simp add: DecodeRune_def unicode_IsDigit_def digitStarts_def word_less_nat_alt)
qed

lemma versionEnd_digits: "\<forall>b \<in> set ds. asciiDigit b \<Longrightarrow> k + length ds \<le> 5 \<Longrightarrow> versionEnd k off ds = None"
proof (induction ds arbitrary: k off)
  case (Cons b ds)
  then show ?case by (simp add: versionEnd.simps [of k off "b # ds"] DecodeRune_digit)
qed (simp add: versionEnd.simps)

text \<open>An executable comment of at most five digits and nothing else makes the tokenizer panic: no rune ends the version, so
  the text is cut at index -1.\<close>

theorem special_comment_panics:
  assumes "[] \<notin> fst ` set chunks" "concat (map fst chunks) = [47, 42, 33] @ ds @ [42, 47] @ rest"
    and "\<forall>b \<in> set ds. asciiDigit b" "length ds \<le> 5"
  shows "snd (Scan [NewTokenizer chunks]) = None"
proof -
  obtain t where t: "scanToken (NewTokenizer chunks) = scanSwitch t" "tkn_wf t"
      "input t = 47 # 42 # 33 # ds @ 42 # 47 # rest" "t_lastChar t = 47"
    using scanToken_new [of chunks 47 "42 # 33 # ds @ 42 # 47 # rest"] assms(1,2) by (auto simp: isBlank_def)
  let ?u = "tkn_next (tkn_next t)"
  have lc: "t_lastChar (tkn_next t) = 42" "t_lastChar ?u = 33"
    using look_Cons [of "tkn_next t" 42] look_Cons [of ?u 33] t(2,3) by simp_all
  have "42 \<notin> set ds" using assms(3) by (auto simp: asciiDigit_def)
  then obtain v where v: "commentType2Loop [47, 42, 33] (tkn_next ?u) = Some (True, [47, 42, 33] @ ds @ [42, 47], v)"
    using commentType2Loop_body [of "tkn_next ?u" ds rest "[47, 42, 33]"] t(2,3) by auto
  have "ExtractMysqlComment ([47, 42, 33] @ ds @ [42, 47]) = None"
    using versionEnd_digits [of ds 0 0] assms(3,4) by (simp add: ExtractMysqlComment_def)
  then have "scanMySQLSpecificComment ?u = (v, Panicked)"
    using v by (simp add: scanMySQLSpecificComment_def orPanic_def)
  then have "scanSwitch t = (v, Panicked)"
    using t(4) lc by (simp add: scanSwitch_def isLetter_def isDigit_def scanOther_def eofChar_def scanSlash_def)
  then show ?thesis using t(1) by (simp add: Scan_outer)
qed

theorem special_comment_panics_witness:
  "snd (Scan [NewTokenizer [([47, 42, 33, 53, 48], None), ([49, 42, 47], None)]]) = None"
  by (rule special_comment_panics [of _ "[53, 48, 49]" "[]"]) (simp_all add: asciiDigit_def)

end
