(* ===== verification/Sql_Ident.thy ===== *)
theory Sql_Ident
  imports Sql_Tokens
begin

text \<open>
  The printing of identifiers (\<^verbatim>\<open>formatID\<close> and \<^verbatim>\<open>compliantName\<close> of \<^verbatim>\<open>mygate/mysql/sqlparser/ast.go\<close>) against the tokenizer:
  a printed ASCII identifier is scanned back as an identifier. The code narrows each rune to 16 bits before it asks
  whether it is a letter; \<open>plainRune_narrows\<close> shows what that does to a rune beyond the first plane.
\<close>

section \<open>Printing\<close>

text \<open>\<^verbatim>\<open>range\<close> over a string: the offset and the rune of each step.\<close>

function runes :: "nat \<Rightarrow> bytes \<Rightarrow> (nat \<times> nat) list" where
  "runes off s = (if s = [] then [] else (off, fst (DecodeRune s)) # runes (off + snd (DecodeRune s)) (drop (snd (DecodeRune s)) s))"
  by pat_completeness auto
termination
  by (relation "measure (\<lambda>(off, s). length s)") (auto intro!: diff_less DecodeRune_pos)

declare runes.simps [simp del]

definition plainRune :: "nat \<times> nat \<Rightarrow> bool" where
  "plainRune = (\<lambda>(i, c). isLetter (word_of_nat c) \<or> i \<noteq> 0 \<and> isDigit (word_of_nat c))"

definition quoteRune :: "nat \<times> nat \<Rightarrow> bytes" where
  "quoteRune = (\<lambda>(_, c). EncodeRune c @ (if c = 96 then [96] else []))"

definition formatID :: "bytes \<Rightarrow> bytes \<Rightarrow> bytes" where
  "formatID original lowered =
     (if list_all plainRune (runes 0 original) \<and> keywords_map (text_of lowered) = None then original
      else 96 # concat (map quoteRune (runes 0 original)) @ [96])"

definition compliantName :: "bytes \<Rightarrow> bytes" where
  "compliantName s = concat (map (\<lambda>ic. if plainRune ic then EncodeRune (snd ic) else [95]) (runes 0 s))"

section \<open>ASCII text\<close>

definition ascii :: "bytes \<Rightarrow> bool" where
  "ascii s \<longleftrightarrow> (\<forall>b \<in> set s. b < 0x80)"

definition identChar :: "u16 \<Rightarrow> bool" where
  "identChar ch \<longleftrightarrow> isLetter ch \<or> isDigit ch"

lemma plain_ascii: "ascii s \<Longrightarrow> list_all plainRune (runes off s) \<Longrightarrow> \<forall>b \<in> set s. identChar (ucast b)"
proof (induction s arbitrary: off)
  case (Cons b s)
  have d: "DecodeRune (b # s) = (unat b, 1)" "ascii s" using Cons.prems by (simp_all add: ascii_def DecodeRune_def)
  then show ?case using Cons.prems(2) Cons.IH [of "Suc off"]
    by (auto simp: runes.simps [of off "b # s"] plainRune_def identChar_def)
qed simp

lemma plain_first: "ascii (b # s) \<Longrightarrow> list_all plainRune (runes 0 (b # s)) \<Longrightarrow> isLetter (ucast b)"
  by (simp add: runes.simps [of 0 "b # s"] ascii_def DecodeRune_def plainRune_def)

definition doubled :: "byte \<Rightarrow> bytes" where
  "doubled b = (if b = 96 then [96, 96] else [b])"

lemma quote_ascii: "ascii s \<Longrightarrow> concat (map quoteRune (runes off s)) = concat (map doubled s)"
proof (induction s arbitrary: off)
  case (Cons b s)
  have d: "DecodeRune (b # s) = (unat b, 1)" "ascii s" "unat b < 128"
    using Cons.prems by (simp_all add: ascii_def DecodeRune_def word_less_nat_alt)
  have "(unat b = 96) = (b = 96)" using word_unat_eq_iff [of b 96] by simp
  then show ?case using d Cons.IH [of "Suc off"]
    by (simp add: runes.simps [of off "b # s"] quoteRune_def doubled_def EncodeRune_def byte_of_def)
qed (simp add: runes.simps)

section \<open>Scanning\<close>

lemma scanWhile_input:
  assumes "tkn_wf t" "input t = xs @ rest" "\<forall>b \<in> set xs. P (ucast b)" "rest = [] \<or> \<not> P (ucast (hd rest))"
  shows "\<exists>t'. scanWhile P buffer t = (buffer @ xs, t') \<and> tkn_wf t' \<and> input t' = rest"
  using assms
proof (induction xs arbitrary: buffer t)
  case Nil
  then show ?case using look [of t] by (cases rest) (simp_all add: scanWhile.simps [of P buffer t])
next
  case (Cons b xs)
  then have "t_lastChar t = ucast b" using look_Cons by simp
  then show ?case using Cons.IH [of "tkn_next t" "buffer @ [b]"] Cons.prems by (simp add: scanWhile.simps [of P buffer t])
qed

lemma literalLoop_input:
  assumes "tkn_wf t" "input t = concat (map doubled xs) @ 96 # rest" "rest = [] \<or> hd rest \<noteq> 96"
  shows "\<exists>t'. literalIdentifierLoop False buffer t = (t', True, buffer @ xs) \<and> tkn_wf t' \<and> input t' = rest"
  using assms
proof (induction xs arbitrary: buffer t)
  case Nil
  let ?u = "tkn_next t"
  have "t_lastChar t = 96" using look_Cons [of t 96] Nil by simp
  moreover have "t_lastChar ?u \<noteq> 96"
    using look [of ?u] ucast_byte_eq [of "hd rest" 96] Nil by (cases rest) (simp_all add: eofChar_def)
  ultimately show ?case using Nil
    by (simp add: literalIdentifierLoop.simps [of False buffer t] literalIdentifierLoop.simps [of True buffer ?u])
next
  case (Cons b xs)
  show ?case
  proof (cases "b = 96")
    case True
    let ?u = "tkn_next t"
    have "t_lastChar t = 96" "t_lastChar ?u = 96"
      using look_Cons [of t 96] look_Cons [of ?u 96] Cons.prems True by (simp_all add: doubled_def)
    then show ?thesis using Cons.IH [of "tkn_next ?u" "buffer @ [96]"] Cons.prems True
      by (simp add: literalIdentifierLoop.simps [of False buffer t] literalIdentifierLoop.simps [of True buffer ?u] doubled_def)
  next
    case False
    then have "t_lastChar t = ucast b" using look_Cons [of t b] Cons.prems by (simp add: doubled_def)
    moreover from this have "t_lastChar t \<noteq> 96" using False ucast_byte_eq [of b 96] by simp
    ultimately show ?thesis using Cons.IH [of "tkn_next t" "buffer @ [b]"] Cons.prems False
      by (simp add: literalIdentifierLoop.simps [of False buffer t] doubled_def)
  qed
qed

lemma identChar_eta: "(\<lambda>ch. isLetter ch \<or> isDigit ch) = identChar"
  by (auto simp: identChar_def)

lemma letter_not_blank: "isLetter ch \<Longrightarrow> \<not> isBlank ch"
  by (auto simp: isLetter_def isBlank_def)

text \<open>What may follow a printed identifier: no character of an identifier, no backquote and no quote.\<close>

definition ends_ident :: "bytes \<Rightarrow> bool" where
  "ends_ident rest \<longleftrightarrow> rest = [] \<or> \<not> identChar (ucast (hd rest)) \<and> hd rest \<noteq> 96 \<and> hd rest \<noteq> 39"

lemma scanWord_plain:
  assumes "tkn_wf t" "input t = xs @ rest" "\<forall>x \<in> set xs. identChar (ucast x)" "ends_ident rest"
    and "keywords_map (text_of (map lower (b # xs))) = None"
  shows "\<exists>t' v. scanWord (ucast b) t = (t', Token (Tok ''ID'') v) \<and> input t' = rest \<and>
    v = (if text_of (map lower (b # xs)) = ''dual'' then map lower (b # xs) else b # xs)"
proof -
  have "t_lastChar t \<noteq> 39"
  proof (cases "xs @ rest")
    case Nil
    then show ?thesis using look [OF assms(1)] assms(2) by (simp add: eofChar_def)
  next
    case (Cons c cs)
    then have "c \<noteq> 39" using assms(3,4) by (cases xs) (auto simp: ends_ident_def identChar_def isLetter_def isDigit_def)
    then show ?thesis using look_Cons [OF assms(1)] assms(2) Cons ucast_byte_eq [of c 39] by simp
  qed
  moreover obtain t' where "scanWhile identChar [b] t = (b # xs, t')" "input t' = rest"
    using scanWhile_input [of t xs rest identChar "[b]"] assms by (auto simp: ends_ident_def)
  ultimately show ?thesis using assms(5)
    by (simp add: scanWord_def scanIdentifier_def identChar_eta)
qed

text \<open>C31: A printed identifier of ASCII characters, read in any pieces and followed by something that does not belong to it, is
  scanned back as an identifier of the same name; the name \<^verbatim>\<open>dual\<close> alone comes back in lower case.\<close>

theorem identifier_roundtrip:
  assumes "[] \<notin> fst ` set chunks" "concat (map fst chunks) = formatID name (map lower name) @ rest"
    and "ascii name" "name \<noteq> []" "ends_ident rest"
  shows "\<exists>t v. Scan [NewTokenizer chunks] = ([t], Some (Tok ''ID'', v)) \<and> input t = rest \<and>
    (v = name \<or> text_of (map lower name) = ''dual'' \<and> v = map lower name)"
proof (cases "list_all plainRune (runes 0 name) \<and> keywords_map (text_of (map lower name)) = None")
  case True
  obtain b xs where n: "name = b # xs" using assms(4) by (cases name) auto
  have c: "concat (map fst chunks) = b # xs @ rest" using assms(2) True n by (simp add: formatID_def)
  have l: "isLetter (ucast b)" using plain_first True assms(3) n by blast
  obtain t where t: "scanToken (NewTokenizer chunks) = scanSwitch t" "tkn_wf t" "input t = b # xs @ rest" "t_lastChar t = ucast b"
    using scanToken_new [OF assms(1) c letter_not_blank [OF l]] by blast
  have "\<forall>x \<in> set xs. identChar (ucast x)" using plain_ascii [of name 0] True assms(3) n by simp
  then obtain t' v where "scanWord (ucast b) (tkn_next t) = (t', Token (Tok ''ID'') v)" "input t' = rest"
      "v = (if text_of (map lower name) = ''dual'' then map lower name else name)"
    using scanWord_plain [of "tkn_next t" xs rest b] t(2,3) assms(5) True n by auto
  then show ?thesis using t(1,4) l by (simp add: Scan_outer scanSwitch_def)
next
  case False
  have c: "concat (map fst chunks) = 96 # concat (map doubled name) @ 96 # rest"
    using assms(2,3) False by (simp only: formatID_def if_False quote_ascii append_Cons append_assoc append_Nil)
  obtain t where t: "scanToken (NewTokenizer chunks) = scanSwitch t" "tkn_wf t"
      "input t = 96 # concat (map doubled name) @ 96 # rest" "t_lastChar t = 96"
    using scanToken_new [OF assms(1) c] by (auto simp: isBlank_def)
  obtain t' where "literalIdentifierLoop False [] (tkn_next t) = (t', True, name)" "input t' = rest"
    using literalLoop_input [of "tkn_next t" name rest "[]"] t(2,3) assms(5) by (auto simp: ends_ident_def)
  then have "scanSwitch t = (t', Token (Tok ''ID'') name)"
    using t(4) assms(4) by (simp add: scanSwitch_def isLetter_def isDigit_def scanOther_def eofChar_def scanLiteralIdentifier_def)
  then show ?thesis using t(1) \<open>input t' = rest\<close> by (simp add: Scan_outer)
qed

theorem identifier_roundtrip_witness:
  "\<exists>t v. Scan [NewTokenizer [([96, 97], None), ([96, 96, 98, 96, 32], None)]] = ([t], Some (Tok ''ID'', v)) \<and> input t = [32] \<and>
    (v = [97, 96, 98] \<or> text_of (map lower [97, 96, 98]) = ''dual'' \<and> v = map lower [97, 96, 98])"
  by (rule identifier_roundtrip)
    (simp_all add: formatID_def runes.simps DecodeRune_def plainRune_def quoteRune_def EncodeRune_def byte_of_def
      isLetter_def isDigit_def ascii_def ends_ident_def identChar_def)

text \<open>The letter test sees only 16 bits of a rune: U+10061, which the tokenizer rejects, passes for the letter a and needs
  no backquotes.\<close>

lemma plainRune_narrows: "list_all plainRune (runes 0 [0xF0, 0x90, 0x81, 0xA1])"
  by (simp add: runes.simps DecodeRune_def DecodeRune4_def in_range_def cont_def plainRune_def isLetter_def)

end
