(* ===== verification/Meta_Types.thy ===== *)
theory Meta_Types
  imports Prelude
begin

text \<open>
  The metadata of a cluster, as the protocol messages have it (\<^verbatim>\<open>proto/metapb\<close>,
  \<^verbatim>\<open>proto/masterpb\<close>): replicas, partitions with their slot range, the report of a partition that
  a partition server sends in a heartbeat, and the routes the zone master returns.  The messages
  are values; a Go pointer to one is an option where the code tests it for nil.  The four addresses
  of a replica are one string list, and statistics are left out: no modelled operation
  reads them.
\<close>

section \<open>Identifiers\<close>

type_synonym DBID = u32
type_synonym SpaceID = u32
type_synonym PartitionID = u64
type_synonym SlotID = u32
type_synonym ReplicaID = u64
type_synonym NodeID = u32

section \<open>Messages\<close>

datatype PartitionStatus = PA_INVALID | PA_NOTREAD | PA_READONLY | PA_READWRITE | PA_SPLITTING

datatype SpaceStatus = SS_Invalid | SS_Init | SS_Prepare | SS_Running | SS_Delete | SS_Deleting

record PartitionEpoch =
  ConfVersion :: u64
  Version :: u64

record Replica =
  rep_ID :: ReplicaID
  rep_NodeID :: NodeID
  rep_Addrs :: "string list"
  rep_Zone :: string

record meta_Partition =
  pt_ID :: PartitionID
  pt_DB :: DBID
  pt_Space :: SpaceID
  StartSlot :: SlotID
  EndSlot :: SlotID
  Replicas :: "Replica list"
  pt_Status :: PartitionStatus
  Epoch :: PartitionEpoch

record meta_Node =
  nd_ID :: NodeID
  nd_Ip :: string
  nd_Zone :: string
  nd_Addrs :: "string list"

text \<open>
  The report of one partition.  A follower's own progress counters are not read by the masters,
  so a follower is its replica.
\<close>

record RaftStatus =
  rs_Replica :: Replica
  rs_Term :: u64
  Followers :: "Replica list"

record PartitionInfo =
  pi_ID :: PartitionID
  IsLeader :: bool
  pi_Status :: PartitionStatus
  pi_Epoch :: PartitionEpoch
  pi_RaftStatus :: "RaftStatus option"

record Route =
  rt_Partition :: meta_Partition
  rt_Nodes :: "meta_Node list"
  rt_Leader :: NodeID

text \<open>The zero value of a partition, which the code fills in where it builds a search pivot.\<close>

definition zero_Epoch :: PartitionEpoch where
  "zero_Epoch = \<lparr>ConfVersion = 0, Version = 0\<rparr>"

definition zero_Partition :: meta_Partition where
  "zero_Partition = \<lparr>pt_ID = 0, pt_DB = 0, pt_Space = 0, StartSlot = 0, EndSlot = 0,
     Replicas = [], pt_Status = PA_INVALID, Epoch = zero_Epoch\<rparr>"

end
