(* ===== verification/Zm_Partition.thy ===== *)
theory Zm_Partition
  imports Meta_Types
begin

text \<open>
  The zone master's view of a partition (\<^verbatim>\<open>zm/partition.go\<close>) and its cache of partitions: the
  replica group and the leader, as heartbeats report them, and the task flag that keeps membership changes
  30 seconds apart.  A method that takes the lock of its object is a function from the object to
  the object; \<^verbatim>\<open>time.Now\<close> is the argument \<open>now\<close>, in nanoseconds since Go's zero time.
\<close>

section \<open>The partition\<close>

record zm_Partition = meta_Partition +
  Leader :: "Replica option"
  taskFlag :: bool
  taskTimeout :: int
  LastHeartbeat :: int

abbreviation (input) no_time :: int where
  "no_time \<equiv> 0"

definition NewPartitionByMeta :: "meta_Partition \<Rightarrow> zm_Partition" where
  "NewPartitionByMeta m = meta_Partition.extend m
     \<lparr>Leader = None, taskFlag = False, taskTimeout = no_time, LastHeartbeat = no_time\<rparr>"

definition meta_of :: "zm_Partition \<Rightarrow> meta_Partition" where
  "meta_of p = meta_Partition.truncate p"

text \<open>
  \<^verbatim>\<open>UpdateReplicaGroupByCond\<close>: the outcome is the partition, what was written to the topology
  service (its answer is ignored), and the results \<^verbatim>\<open>verExpired\<close> and \<^verbatim>\<open>updateOk\<close>.  A report without a raft status
  is dereferenced, a panic.
\<close>

definition UpdateReplicaGroupByCond ::
  "zm_Partition \<Rightarrow> PartitionInfo \<Rightarrow> Replica \<Rightarrow> int
     \<Rightarrow> ('e, zm_Partition \<times> PartitionInfo list \<times> bool \<times> bool) result" where
  "UpdateReplicaGroupByCond p info leaderReplica now =
     (if ConfVersion (pi_Epoch info) < ConfVersion (Epoch p) \<or>
         (ConfVersion (pi_Epoch info) = ConfVersion (Epoch p) \<and> Leader p \<noteq> None)
      then Ok (p, [], True, False)
      else case pi_RaftStatus info of
        None \<Rightarrow> Panic
      | Some rs \<Rightarrow>
          Ok (p\<lparr>Epoch := pi_Epoch info, pt_Status := pi_Status info,
                Replicas := rs_Replica rs # Followers rs,
                taskFlag := False, taskTimeout := no_time, LastHeartbeat := now,
                Leader := Some leaderReplica\<rparr>, [info], False, True))"

text \<open>\<^verbatim>\<open>ValidateAndUpdateLeaderByCond\<close>: the results are \<^verbatim>\<open>verExpired\<close>, \<^verbatim>\<open>illegal\<close> and \<^verbatim>\<open>updateOk\<close>.\<close>

fun has_replica :: "ReplicaID \<Rightarrow> Replica list \<Rightarrow> bool" where
  "has_replica i [] = False"
| "has_replica i (r # rs) = (if rep_ID r = i then True else has_replica i rs)"

definition ValidateAndUpdateLeaderByCond ::
  "zm_Partition \<Rightarrow> PartitionInfo \<Rightarrow> Replica \<Rightarrow> int \<Rightarrow> zm_Partition \<times> bool \<times> bool \<times> bool" where
  "ValidateAndUpdateLeaderByCond p info leaderReplica now =
     (if ConfVersion (pi_Epoch info) \<noteq> ConfVersion (Epoch p) then (p, True, False, False)
      else if Leader p = None then (p, False, False, False)
      else if \<not> has_replica (rep_ID leaderReplica) (Replicas p) then (p, False, True, False)
      else (p\<lparr>LastHeartbeat := now, Leader := Some leaderReplica\<rparr>, False, False, True))"

definition countReplicas :: "zm_Partition \<Rightarrow> nat" where
  "countReplicas p = length (Replicas p)"

definition pickLeaderNodeId :: "zm_Partition \<Rightarrow> NodeID" where
  "pickLeaderNodeId p = (case Leader p of Some l \<Rightarrow> rep_NodeID l | None \<Rightarrow> 0)"

fun find_replica :: "ReplicaID \<Rightarrow> Replica list \<Rightarrow> Replica option" where
  "find_replica i [] = None"
| "find_replica i (r # rs) = (if rep_ID r = i then Some r else find_replica i rs)"

definition findReplicaById :: "zm_Partition \<Rightarrow> ReplicaID \<Rightarrow> Replica option" where
  "findReplicaById p replicaId = find_replica replicaId (Replicas p)"

text \<open>
  \<^verbatim>\<open>getAllReplicas\<close> appends the address of its loop variable: when the loop is over every pointer
  reads what the variable held at the end.
\<close>

definition getAllReplicas :: "zm_Partition \<Rightarrow> Replica list" where
  "getAllReplicas p =
     (let cell = foldl (\<lambda>_ metaReplica. Some metaReplica) None (Replicas p);
          pointers = map (\<lambda>_. ()) (Replicas p)
      in map (\<lambda>_. the cell) pointers)"

definition takeChangeMemberTask :: "zm_Partition \<Rightarrow> int \<Rightarrow> zm_Partition \<times> bool" where
  "takeChangeMemberTask p now =
     (if taskFlag p = False \<or> now - taskTimeout p \<ge> 30 * 1000000000
      then (p\<lparr>taskFlag := True, taskTimeout := now\<rparr>, True)
      else (p, False))"

definition Partition_Update :: "zm_Partition \<Rightarrow> meta_Partition \<Rightarrow> zm_Partition" where
  "Partition_Update p m = meta_Partition.extend m
     \<lparr>Leader = Leader p, taskFlag = taskFlag p, taskTimeout = taskTimeout p, LastHeartbeat = LastHeartbeat p\<rparr>"

section \<open>The cache\<close>

type_synonym PartitionCache = "PartitionID \<rightharpoonup> zm_Partition"

definition NewPartitionCache :: PartitionCache where
  "NewPartitionCache = Map.empty"

definition FindPartitionById :: "PartitionCache \<Rightarrow> PartitionID \<Rightarrow> zm_Partition option" where
  "FindPartitionById c i = c i"

definition AddPartition :: "PartitionCache \<Rightarrow> zm_Partition \<Rightarrow> PartitionCache" where
  "AddPartition c p = c(pt_ID p \<mapsto> p)"

definition DelPartition :: "PartitionCache \<Rightarrow> PartitionID \<Rightarrow> PartitionCache" where
  "DelPartition c i = c(i := None)"

definition PartitionCache_Clear :: "PartitionCache \<Rightarrow> PartitionCache" where
  "PartitionCache_Clear c = Map.empty"

section \<open>Lemmas\<close>

lemma has_replica_iff: "has_replica i rs \<longleftrightarrow> (\<exists>r\<in>set rs. rep_ID r = i)"
  by (induction rs) auto

lemma find_replica_sound: "find_replica i rs = Some r \<Longrightarrow> r \<in> set rs \<and> rep_ID r = i"
  by (induction rs) (auto split: if_splits)

lemma getAllReplicas_eq:
  "getAllReplicas p = replicate (length (Replicas p)) (last (Replicas p))"
proof -
  have "foldl (\<lambda>_ r. Some r) z rs = (if rs = [] then z else Some (last rs))" for z and rs :: "Replica list"
    by (induction rs arbitrary: z) auto
  then show ?thesis by (cases "Replicas p") (auto simp: getAllReplicas_def map_replicate_const)
qed

text \<open>The identity and the slots of a partition are fixed, and its configuration version never goes back.\<close>

definition same_partition :: "zm_Partition \<Rightarrow> zm_Partition \<Rightarrow> bool" where
  "same_partition p q = (pt_ID q = pt_ID p \<and> StartSlot q = StartSlot p \<and> EndSlot q = EndSlot p \<and>
     ConfVersion (Epoch p) \<le> ConfVersion (Epoch q))"

lemma same_partition_refl [simp]: "same_partition p p"
  by (simp add: same_partition_def)

lemma same_partition_trans: "same_partition p q \<Longrightarrow> same_partition q r \<Longrightarrow> same_partition p r"
  by (auto simp: same_partition_def)

lemma Update_same:
  "UpdateReplicaGroupByCond p info l now = Ok (p', w, e, u) \<Longrightarrow> same_partition p p'"
  by (auto simp: UpdateReplicaGroupByCond_def same_partition_def split: if_splits option.splits)

lemma Validate_same: "same_partition p (fst (ValidateAndUpdateLeaderByCond p info l now))"
  by (simp add: ValidateAndUpdateLeaderByCond_def same_partition_def)

lemma take_same: "same_partition p (fst (takeChangeMemberTask p now))"
  by (simp add: takeChangeMemberTask_def same_partition_def)

text \<open>A task that was taken is not given out again for 30 seconds.\<close>

lemma takeChangeMemberTask_once:
  assumes "takeChangeMemberTask p now = (p', True)" "now' - now < 30 * 1000000000"
  shows "takeChangeMemberTask p' now' = (p', False)"
  using assms by (auto simp: takeChangeMemberTask_def split: if_splits)

end
