(* ===== verification/Zm_Tree.thy ===== *)
theory Zm_Tree
  imports Zm_Partition
begin

text \<open>
  The search tree of a space in the zone master (\<^verbatim>\<open>zm/partition.go\<close>, \<^verbatim>\<open>PartitionTree\<close>; its uses in
  \<^verbatim>\<open>zm/space.go\<close>): the partitions of a space, ordered by start slot in a
  \<^verbatim>\<open>github.com/google/btree\<close>.  The library is outside the repository: its operations are a record
  (\<open>itree_ops\<close>) and its documented behaviour is the locale \<open>item_btree\<close>, over the list of the
  items of a tree in the order of their \<^verbatim>\<open>Less\<close>.  The items are the partitions as they are at the
  time of the call; heartbeats change their replicas and leader, never their slots or identifier.
\<close>

section \<open>The library\<close>

text \<open>An iteration is the list of items it hands to its callback until that returns false.\<close>

record ('t, 'i) itree_ops =
  it_New :: 't
  it_Len :: "'t \<Rightarrow> nat"
  it_ReplaceOrInsert :: "'t \<Rightarrow> 'i \<Rightarrow> 't"
  it_Delete :: "'t \<Rightarrow> 'i \<Rightarrow> 't"
  it_AscendGreaterOrEqual :: "'t \<Rightarrow> 'i \<Rightarrow> 'i list"
  it_DescendLessOrEqual :: "'t \<Rightarrow> 'i \<Rightarrow> 'i list"

locale item_btree =
  fixes ops :: "('t, 'i) itree_ops"
    and less :: "'i \<Rightarrow> 'i \<Rightarrow> bool"
    and ok :: "'t \<Rightarrow> bool"
    and items :: "'t \<Rightarrow> 'i list"
  assumes New: "ok (it_New ops)" "items (it_New ops) = []"
    and items_sorted: "ok t \<Longrightarrow> sorted_wrt less (items t)"
    and Len: "ok t \<Longrightarrow> it_Len ops t = length (items t)"
    and Replace_ok: "ok t \<Longrightarrow> ok (it_ReplaceOrInsert ops t x)"
    and Replace_items: "ok t \<Longrightarrow>
      set (items (it_ReplaceOrInsert ops t x)) = insert x {y \<in> set (items t). less x y \<or> less y x}"
    and Delete_ok: "ok t \<Longrightarrow> ok (it_Delete ops t x)"
    and Delete_items: "ok t \<Longrightarrow>
      set (items (it_Delete ops t x)) = {y \<in> set (items t). less x y \<or> less y x}"
    and Ascend: "ok t \<Longrightarrow> it_AscendGreaterOrEqual ops t x = filter (\<lambda>y. \<not> less y x) (items t)"
    and Descend: "ok t \<Longrightarrow> it_DescendLessOrEqual ops t x = rev (filter (\<lambda>y. \<not> less x y) (items t))"

section \<open>The operations\<close>

text \<open>\<^verbatim>\<open>PartitionItem.Less\<close>: larger start slots come first.\<close>

definition PartitionItem_Less :: "zm_Partition \<Rightarrow> zm_Partition \<Rightarrow> bool" where
  "PartitionItem_Less r other = (StartSlot r > StartSlot other)"

definition Contains :: "zm_Partition \<Rightarrow> SlotID \<Rightarrow> bool" where
  "Contains r slot = (slot \<ge> StartSlot r \<and> slot < EndSlot r)"

definition NewPartitionTree :: "('t, zm_Partition) itree_ops \<Rightarrow> 't" where
  "NewPartitionTree ops = it_New ops"

definition tree_length :: "('t, zm_Partition) itree_ops \<Rightarrow> 't \<Rightarrow> nat" where
  "tree_length ops t = it_Len ops t"

text \<open>\<^verbatim>\<open>find\<close>: the callback keeps the first item and stops.\<close>

definition tree_find :: "('t, zm_Partition) itree_ops \<Rightarrow> 't \<Rightarrow> zm_Partition \<Rightarrow> zm_Partition option" where
  "tree_find ops t rng =
     (let result = (case it_AscendGreaterOrEqual ops t rng of [] \<Rightarrow> None | i # _ \<Rightarrow> Some i)
      in case result of None \<Rightarrow> None
         | Some i \<Rightarrow> if \<not> Contains i (StartSlot rng) then None else Some i)"

text \<open>\<^verbatim>\<open>update\<close>: the callback collects the items until one starts at or after the end.\<close>

fun collect_overlaps :: "SlotID \<Rightarrow> zm_Partition list \<Rightarrow> zm_Partition list" where
  "collect_overlaps e [] = []"
| "collect_overlaps e (over # rest) =
     (if e \<le> StartSlot over then [] else over # collect_overlaps e rest)"

definition tree_update :: "('t, zm_Partition) itree_ops \<Rightarrow> 't \<Rightarrow> zm_Partition \<Rightarrow> 't" where
  "tree_update ops t rng =
     (let result = (case tree_find ops t rng of None \<Rightarrow> rng | Some i \<Rightarrow> i);
          overlaps = collect_overlaps (EndSlot rng) (it_DescendLessOrEqual ops t result);
          t' = fold (\<lambda>item s. it_Delete ops s item) overlaps t
      in it_ReplaceOrInsert ops t' rng)"

definition tree_remove :: "('t, zm_Partition) itree_ops \<Rightarrow> 't \<Rightarrow> zm_Partition \<Rightarrow> 't" where
  "tree_remove ops t rng =
     (case tree_find ops t rng of
        None \<Rightarrow> t
      | Some result \<Rightarrow> if pt_ID result \<noteq> pt_ID rng then t else it_Delete ops t result)"

definition slot_pivot :: "SlotID \<Rightarrow> zm_Partition" where
  "slot_pivot slot = NewPartitionByMeta (zero_Partition\<lparr>StartSlot := slot\<rparr>)"

lemma slot_pivot_simps [simp]: "StartSlot (slot_pivot s) = s" "EndSlot (slot_pivot s) = 0"
  by (simp_all add: slot_pivot_def NewPartitionByMeta_def zero_Partition_def meta_Partition.defs)

definition tree_search :: "('t, zm_Partition) itree_ops \<Rightarrow> 't \<Rightarrow> SlotID \<Rightarrow> zm_Partition option" where
  "tree_search ops t slot = tree_find ops t (slot_pivot slot)"

text \<open>
  \<^verbatim>\<open>ascendScan\<close>: the callback stops when its count reaches \<^verbatim>\<open>num\<close>, so a limit of 0 is none.  The
  callers pass 10 and 100; a negative \<^verbatim>\<open>num\<close>, which would panic in \<^verbatim>\<open>make\<close>, is left out.
\<close>

fun scan_until :: "nat \<Rightarrow> nat \<Rightarrow> zm_Partition list \<Rightarrow> zm_Partition list" where
  "scan_until num count [] = []"
| "scan_until num count (i # rest) =
     (let count' = count + 1 in if count' = num then [i] else i # scan_until num count' rest)"

definition ascendScan :: "('t, zm_Partition) itree_ops \<Rightarrow> 't \<Rightarrow> zm_Partition \<Rightarrow> nat
    \<Rightarrow> zm_Partition list option" where
  "ascendScan ops t rng num =
     (case tree_find ops t rng of
        None \<Rightarrow> None
      | Some result \<Rightarrow> Some (scan_until num 0 (it_DescendLessOrEqual ops t result)))"

text \<open>The loop of \<^verbatim>\<open>multipleSearch\<close>: \<^verbatim>\<open>endSlot\<close> is None until \<^verbatim>\<open>isFound\<close>.\<close>

fun contiguous_run :: "SlotID option \<Rightarrow> zm_Partition list \<Rightarrow> zm_Partition list" where
  "contiguous_run endSlot [] = []"
| "contiguous_run endSlot (r # rs) =
     (if (case endSlot of None \<Rightarrow> False | Some e \<Rightarrow> StartSlot r \<noteq> e) then []
      else r # contiguous_run (Some (EndSlot r)) rs)"

definition multipleSearch :: "('t, zm_Partition) itree_ops \<Rightarrow> 't \<Rightarrow> SlotID \<Rightarrow> nat \<Rightarrow> zm_Partition list" where
  "multipleSearch ops t slot num =
     contiguous_run None (case ascendScan ops t (slot_pivot slot) num of None \<Rightarrow> [] | Some results \<Rightarrow> results)"

text \<open>\<^verbatim>\<open>Space.AscendScanPartition\<close>: nil when there is nothing.\<close>

definition AscendScanPartition :: "('t, zm_Partition) itree_ops \<Rightarrow> 't \<Rightarrow> SlotID \<Rightarrow> nat
    \<Rightarrow> zm_Partition list option" where
  "AscendScanPartition ops t pivotSlot batchNum =
     (case ascendScan ops t (slot_pivot pivotSlot) batchNum of
        None \<Rightarrow> None
      | Some items \<Rightarrow> if length items = 0 then None else Some items)"

section \<open>Disjoint ranges\<close>

text \<open>
  The invariant of the tree: every range is non-empty, and in the order of the tree each range ends
  at or before the start of those before it.
\<close>

definition nonempty_range :: "zm_Partition \<Rightarrow> bool" where
  "nonempty_range p = (StartSlot p < EndSlot p)"

definition disjoint_ranges :: "zm_Partition \<Rightarrow> zm_Partition \<Rightarrow> bool" where
  "disjoint_ranges p q = (EndSlot p \<le> StartSlot q \<or> EndSlot q \<le> StartSlot p)"

definition ranges_ok :: "zm_Partition list \<Rightarrow> bool" where
  "ranges_ok ps = ((\<forall>p\<in>set ps. nonempty_range p) \<and>
     (\<forall>p\<in>set ps. \<forall>q\<in>set ps. p = q \<or> disjoint_ranges p q))"

definition tree_ok :: "('t \<Rightarrow> bool) \<Rightarrow> ('t \<Rightarrow> zm_Partition list) \<Rightarrow> 't \<Rightarrow> bool" where
  "tree_ok ok items t = (ok t \<and> ranges_ok (items t))"

lemma Contains_disjoint:
  "Contains p s \<Longrightarrow> Contains q s \<Longrightarrow> \<not> disjoint_ranges p q"
  by (auto simp: Contains_def disjoint_ranges_def)

lemma ranges_ok_unique:
  "ranges_ok ps \<Longrightarrow> p \<in> set ps \<Longrightarrow> q \<in> set ps \<Longrightarrow> Contains p s \<Longrightarrow> Contains q s \<Longrightarrow> p = q"
  using Contains_disjoint unfolding ranges_ok_def by blast

lemma ranges_ok_start_inj:
  assumes "ranges_ok ps" "p \<in> set ps" "q \<in> set ps" "StartSlot p = StartSlot q"
  shows "p = q"
  using assms ranges_ok_unique [of ps p q "StartSlot p"]
  by (auto simp: ranges_ok_def nonempty_range_def Contains_def)

lemma collect_overlaps_eq: "collect_overlaps e ps = takeWhile (\<lambda>p. StartSlot p < e) ps"
  by (induction ps) (auto simp: not_less)

lemma takeWhile_sorted_filter:
  "sorted_wrt (\<lambda>p q. StartSlot p < StartSlot q) ps \<Longrightarrow>
     takeWhile (\<lambda>p. StartSlot p < e) ps = filter (\<lambda>p. StartSlot p < e) ps"
proof (induction ps)
  case (Cons p ps)
  then show ?case by (cases "StartSlot p < e") (auto intro!: filter_False [symmetric] dest: less_trans)
qed simp

lemma scan_until_eq: "count < num \<Longrightarrow> scan_until num count ps = take (num - count) ps"
proof (induction ps arbitrary: count)
  case (Cons p ps)
  have "Suc count < num \<or> Suc count = num" using Cons.prems by linarith
  then show ?case using Cons.IH [of "Suc count"] Cons.prems by (auto simp: Let_def take_Cons')
qed simp

text \<open>The run of \<^verbatim>\<open>multipleSearch\<close> is a prefix, its ranges join up, and it stops at the first gap.\<close>

lemma contiguous_run_prefix:
  "\<exists>rest. ps = contiguous_run e ps @ rest"
  "successively (\<lambda>p q. EndSlot p = StartSlot q) (contiguous_run e ps)"
  "contiguous_run (Some s) ps \<noteq> [] \<Longrightarrow> StartSlot (hd (contiguous_run (Some s) ps)) = s"
proof (induction ps arbitrary: e s)
  case (Cons p ps)
  { case 1 then show ?case using Cons(1) [of "Some (EndSlot p)"] by auto }
  { case 2 then show ?case using Cons(2) [of "Some (EndSlot p)"] Cons(3) [of "EndSlot p"]
      by (cases "contiguous_run (Some (EndSlot p)) ps = []") (auto simp: successively_Cons) }
  { case 3 then show ?case by (auto split: if_splits) }
qed auto

lemma contiguous_run_set: "set (contiguous_run e ps) \<subseteq> set ps"
  using contiguous_run_prefix(1) [of ps e] by (metis set_append sup_ge1)

lemma contiguous_run_stops:
  "contiguous_run e ps = zs @ [z] \<Longrightarrow> ps = zs @ [z] @ rest \<Longrightarrow> rest \<noteq> [] \<Longrightarrow> StartSlot (hd rest) \<noteq> EndSlot z"
proof (induction zs arbitrary: e ps)
  case Nil
  then show ?case by (cases rest) (auto split: if_splits)
next
  case (Cons a zs)
  then show ?case by (auto split: if_splits)
qed

section \<open>The tree under its contract\<close>

locale partition_tree = item_btree ops PartitionItem_Less ok items
  for ops :: "('t, zm_Partition) itree_ops" and ok and items
begin

abbreviation tok :: "'t \<Rightarrow> bool" where
  "tok \<equiv> tree_ok ok items"

lemma items_descending: "ok t \<Longrightarrow> sorted_wrt (\<lambda>p q. StartSlot p > StartSlot q) (items t)"
  using items_sorted [of t] by (rule sorted_wrt_mono_rel [rotated]) (auto simp: PartitionItem_Less_def)

lemma scan_below:
  assumes "ok t"
  shows "it_AscendGreaterOrEqual ops t rng = filter (\<lambda>y. StartSlot y \<le> StartSlot rng) (items t)"
    and "sorted_wrt (\<lambda>p q. StartSlot p > StartSlot q) (it_AscendGreaterOrEqual ops t rng)"
proof -
  show eq: "it_AscendGreaterOrEqual ops t rng = filter (\<lambda>y. StartSlot y \<le> StartSlot rng) (items t)"
    using Ascend [OF assms] by (simp add: PartitionItem_Less_def not_less)
  show "sorted_wrt (\<lambda>p q. StartSlot p > StartSlot q) (it_AscendGreaterOrEqual ops t rng)"
    unfolding eq using items_descending [OF assms] by (rule sorted_wrt_filter)
qed

lemma scan_head:
  assumes t: "tok t" and scan: "it_AscendGreaterOrEqual ops t rng = h # rest"
    and q: "q \<in> set (items t)" "Contains q (StartSlot rng)"
  shows "h = q"
proof -
  have ok: "ok t" and ranges: "ranges_ok (items t)" using t by (auto simp: tree_ok_def)
  have mem: "q \<in> set (h # rest)" unfolding scan [symmetric] scan_below(1) [OF ok]
    using q by (simp add: Contains_def)
  have "h \<in> set (it_AscendGreaterOrEqual ops t rng)" unfolding scan by simp
  then have h: "h \<in> set (items t)" "StartSlot h \<le> StartSlot rng" unfolding scan_below(1) [OF ok] by simp_all
  have "\<forall>x\<in>set rest. StartSlot x < StartSlot h" using scan_below(2) [OF ok, of rng] unfolding scan by simp
  then have "q = h \<or> StartSlot q < StartSlot h" using mem by auto
  moreover have "\<not> StartSlot q < StartSlot h"
  proof
    assume less: "StartSlot q < StartSlot h"
    then have "q \<noteq> h" by auto
    then have "disjoint_ranges q h" using ranges q(1) h(1) unfolding ranges_ok_def by blast
    moreover have "nonempty_range h" using ranges h(1) unfolding ranges_ok_def by blast
    ultimately have "EndSlot q \<le> StartSlot h" using less unfolding disjoint_ranges_def nonempty_range_def
      by auto
    then show False using h(2) q(2) unfolding Contains_def by auto
  qed
  ultimately show ?thesis by simp
qed

lemma find_iff:
  assumes "tok t"
  shows "tree_find ops t rng = Some p \<longleftrightarrow> p \<in> set (items t) \<and> Contains p (StartSlot rng)"
proof (cases "it_AscendGreaterOrEqual ops t rng")
  case Nil
  have "ok t" using assms by (simp add: tree_ok_def)
  then have "\<forall>q\<in>set (items t). \<not> StartSlot q \<le> StartSlot rng"
    using scan_below(1) [of t rng] unfolding Nil by (auto simp: filter_empty_conv [symmetric])
  then have "\<not> (p \<in> set (items t) \<and> Contains p (StartSlot rng))" by (auto simp: Contains_def)
  then show ?thesis by (simp add: tree_find_def Nil)
next
  case (Cons h rest)
  have "ok t" using assms by (simp add: tree_ok_def)
  then have "h \<in> set (items t)"
    using scan_below(1) [of t rng] Cons by (metis (no_types, lifting) filter_is_subset list.set_intros(1) subsetD)
  moreover have "tree_find ops t rng = (if \<not> Contains h (StartSlot rng) then None else Some h)"
    by (simp add: tree_find_def Cons)
  ultimately show ?thesis using scan_head [OF assms Cons, of p] by (metis option.distinct(1) option.inject)
qed

lemma find_None:
  "tok t \<Longrightarrow> tree_find ops t rng = None \<longleftrightarrow> (\<forall>p\<in>set (items t). \<not> Contains p (StartSlot rng))"
  using find_iff [of t rng] by (metis not_Some_eq)

lemma search_iff:
  "tok t \<Longrightarrow> tree_search ops t slot = Some p \<longleftrightarrow> p \<in> set (items t) \<and> Contains p slot"
  using find_iff [of t "slot_pivot slot" p] by (simp add: tree_search_def slot_pivot_def NewPartitionByMeta_def zm_Partition.defs meta_Partition.defs)

lemma new_tree_ok: "tok (NewPartitionTree ops)" "items (NewPartitionTree ops) = []"
  using New by (auto simp: tree_ok_def NewPartitionTree_def ranges_ok_def)

lemma descend_eq:
  assumes "ok t"
  shows "it_DescendLessOrEqual ops t r = rev (filter (\<lambda>y. StartSlot r \<le> StartSlot y) (items t))"
    and "sorted_wrt (\<lambda>p q. StartSlot p < StartSlot q) (it_DescendLessOrEqual ops t r)"
proof -
  show eq: "it_DescendLessOrEqual ops t r = rev (filter (\<lambda>y. StartSlot r \<le> StartSlot y) (items t))"
    using Descend [OF assms] by (simp add: PartitionItem_Less_def not_less)
  show "sorted_wrt (\<lambda>p q. StartSlot p < StartSlot q) (it_DescendLessOrEqual ops t r)"
    using items_descending [OF assms] unfolding eq by (simp add: sorted_wrt_rev sorted_wrt_filter)
qed

lemma delete_all:
  assumes "ok t"
  shows "ok (fold (\<lambda>x s. it_Delete ops s x) xs t) \<and>
    set (items (fold (\<lambda>x s. it_Delete ops s x) xs t)) =
      {y \<in> set (items t). \<forall>x\<in>set xs. StartSlot y \<noteq> StartSlot x}"
  using assms
proof (induction xs arbitrary: t)
  case (Cons x xs)
  have "ok (it_Delete ops t x)" using Cons.prems by (rule Delete_ok)
  then show ?case
    using Cons.IH [of "it_Delete ops t x"] Delete_items [OF Cons.prems, of x]
    by (auto simp: PartitionItem_Less_def)
qed simp

lemma update_overlaps:
  assumes "tok t" "nonempty_range rng"
  shows "set (collect_overlaps (EndSlot rng) (it_DescendLessOrEqual ops t
           (case tree_find ops t rng of None \<Rightarrow> rng | Some i \<Rightarrow> i)))
       = {p \<in> set (items t). \<not> disjoint_ranges p rng}" (is "?L = ?R")
proof -
  let ?r = "case tree_find ops t rng of None \<Rightarrow> rng | Some i \<Rightarrow> i"
  have ok: "ok t" and ranges: "ranges_ok (items t)" using assms by (auto simp: tree_ok_def)
  have L: "?L = {p \<in> set (items t). StartSlot ?r \<le> StartSlot p \<and> StartSlot p < EndSlot rng}"
    using takeWhile_sorted_filter [OF descend_eq(2) [OF ok, of ?r]]
    by (auto simp: collect_overlaps_eq descend_eq(1) [OF ok])
  have "StartSlot ?r \<le> StartSlot p \<longleftrightarrow> StartSlot rng < EndSlot p" if p: "p \<in> set (items t)" for p
  proof (cases "tree_find ops t rng")
    case None
    then have "\<not> Contains p (StartSlot rng)" using find_None [OF assms(1)] p by blast
    then show ?thesis using None ranges p
      by (auto simp: Contains_def ranges_ok_def nonempty_range_def)
  next
    case (Some i)
    then have i: "i \<in> set (items t)" "Contains i (StartSlot rng)" using find_iff [OF assms(1)] by auto
    have "p = i \<or> disjoint_ranges p i" "nonempty_range p" "nonempty_range i"
      using ranges p i(1) unfolding ranges_ok_def by blast+
    then show ?thesis using Some i(2)
      by (auto simp: Contains_def disjoint_ranges_def nonempty_range_def)
  qed
  then show ?thesis unfolding L by (auto simp: disjoint_ranges_def not_le)
qed

lemma update_ok:
  assumes "tok t" "nonempty_range rng"
  shows "tok (tree_update ops t rng) \<and>
    set (items (tree_update ops t rng)) = insert rng {p \<in> set (items t). disjoint_ranges p rng}"
proof -
  let ?ov = "collect_overlaps (EndSlot rng) (it_DescendLessOrEqual ops t
           (case tree_find ops t rng of None \<Rightarrow> rng | Some i \<Rightarrow> i))"
  let ?t = "fold (\<lambda>x s. it_Delete ops s x) ?ov t"
  have ok: "ok t" and ranges: "ranges_ok (items t)" using assms by (auto simp: tree_ok_def)
  have "set (items ?t) = {y \<in> set (items t). \<forall>x\<in>set ?ov. StartSlot y \<noteq> StartSlot x}"
    using delete_all [OF ok] by blast
  also have "\<dots> = {y \<in> set (items t). disjoint_ranges y rng}"
    unfolding update_overlaps [OF assms] using ranges_ok_start_inj [OF ranges] by blast
  finally have deleted: "set (items ?t) = {y \<in> set (items t). disjoint_ranges y rng}" .
  have upd: "tree_update ops t rng = it_ReplaceOrInsert ops ?t rng"
    by (simp add: tree_update_def Let_def)
  have okt: "ok ?t" using delete_all [OF ok] by blast
  have ne: "StartSlot y \<noteq> StartSlot rng" if "y \<in> set (items t)" "disjoint_ranges y rng" for y
    using that ranges assms(2) by (auto simp: ranges_ok_def nonempty_range_def disjoint_ranges_def)
  have items: "set (items (tree_update ops t rng)) = insert rng {p \<in> set (items t). disjoint_ranges p rng}"
    unfolding upd Replace_items [OF okt] deleted using ne
    by (auto simp: PartitionItem_Less_def neq_iff)
  moreover have "disjoint_ranges p q \<longleftrightarrow> disjoint_ranges q p" for p q
    by (auto simp: disjoint_ranges_def)
  ultimately have "ranges_ok (items (tree_update ops t rng))"
    using ranges assms(2) unfolding ranges_ok_def by auto
  then show ?thesis using items Replace_ok [OF okt] upd by (simp add: tree_ok_def)
qed

lemma remove_ok:
  assumes "tok t"
  shows "tok (tree_remove ops t rng) \<and> set (items (tree_remove ops t rng)) =
    {p \<in> set (items t). \<not> (Contains p (StartSlot rng) \<and> pt_ID p = pt_ID rng)}"
proof (cases "\<exists>i. tree_find ops t rng = Some i \<and> pt_ID i = pt_ID rng")
  case True
  then obtain i where i: "tree_find ops t rng = Some i" "pt_ID i = pt_ID rng" by blast
  have ok: "ok t" and ranges: "ranges_ok (items t)" using assms by (auto simp: tree_ok_def)
  have mem: "i \<in> set (items t)" "Contains i (StartSlot rng)" using i(1) find_iff [OF assms] by auto
  have rem: "tree_remove ops t rng = it_Delete ops t i" using i by (simp add: tree_remove_def)
  have "set (items (it_Delete ops t i)) = {p \<in> set (items t). p \<noteq> i}"
    using Delete_items [OF ok, of i] ranges_ok_start_inj [OF ranges _ mem(1)]
    by (auto simp: PartitionItem_Less_def)
  moreover have "p = i \<longleftrightarrow> Contains p (StartSlot rng) \<and> pt_ID p = pt_ID rng" if "p \<in> set (items t)" for p
    using ranges_ok_unique [OF ranges that mem(1) _ mem(2)] mem(2) i(2) by blast
  ultimately show ?thesis using ranges Delete_ok [OF ok] unfolding rem tree_ok_def ranges_ok_def by auto
next
  case False
  then have "tree_remove ops t rng = t" by (auto simp: tree_remove_def split: option.split)
  moreover have "\<not> (Contains p (StartSlot rng) \<and> pt_ID p = pt_ID rng)" if "p \<in> set (items t)" for p
    using False that find_iff [OF assms, of rng p] by blast
  ultimately show ?thesis using assms by auto
qed

text \<open>The partitions from a given one on, in the order of their slots.\<close>

definition from_on :: "'t \<Rightarrow> zm_Partition \<Rightarrow> zm_Partition list" where
  "from_on t i = rev (filter (\<lambda>y. StartSlot i \<le> StartSlot y) (items t))"

lemma from_on_props:
  assumes "ok t" "i \<in> set (items t)"
  shows "sorted_wrt (\<lambda>p q. StartSlot p < StartSlot q) (from_on t i)"
    and "from_on t i = i # tl (from_on t i)"
    and "set (from_on t i) = {p \<in> set (items t). StartSlot i \<le> StartSlot p}"
proof -
  show asc: "sorted_wrt (\<lambda>p q. StartSlot p < StartSlot q) (from_on t i)"
    using descend_eq [OF assms(1), of i] by (simp add: from_on_def)
  show set: "set (from_on t i) = {p \<in> set (items t). StartSlot i \<le> StartSlot p}"
    by (auto simp: from_on_def)
  have mem: "i \<in> set (from_on t i)" using assms(2) set by simp
  then obtain h rest where h: "from_on t i = h # rest" by (cases "from_on t i") auto
  have "h \<in> set (from_on t i)" using h by simp
  then have "StartSlot i \<le> StartSlot h" unfolding set by simp
  moreover have "i = h \<or> StartSlot h < StartSlot i" using mem asc unfolding h by auto
  ultimately show "from_on t i = i # tl (from_on t i)" using h by auto
qed

lemma ascendScan_eq:
  assumes "tok t" "0 < num"
  shows "ascendScan ops t (slot_pivot slot) num =
    (case tree_search ops t slot of None \<Rightarrow> None | Some i \<Rightarrow> Some (take num (from_on t i)))"
proof -
  have "ok t" using assms(1) by (simp add: tree_ok_def)
  then show ?thesis using assms(2) descend_eq(1) [of t]
    by (simp add: ascendScan_def tree_search_def from_on_def scan_until_eq split: option.split)
qed

lemma multipleSearch_eq:
  assumes "tok t" "0 < num"
  shows "multipleSearch ops t slot num =
    (case tree_search ops t slot of None \<Rightarrow> [] | Some i \<Rightarrow> contiguous_run None (take num (from_on t i)))"
  using ascendScan_eq [OF assms] by (simp add: multipleSearch_def split: option.split)

lemma multipleSearch_mem:
  assumes "tok t" "0 < num" "p \<in> set (multipleSearch ops t slot num)"
  shows "p \<in> set (items t)"
proof -
  obtain i where i: "tree_search ops t slot = Some i" "p \<in> set (contiguous_run None (take num (from_on t i)))"
    using assms(3) unfolding multipleSearch_eq [OF assms(1,2)]
    by (cases "tree_search ops t slot") auto
  have "p \<in> set (from_on t i)"
    using i(2) contiguous_run_set [of None "take num (from_on t i)"] by (blast dest: in_set_takeD)
  moreover have "ok t" "i \<in> set (items t)"
    using assms(1) search_iff [OF assms(1)] i(1) by (auto simp: tree_ok_def)
  ultimately show ?thesis using from_on_props(3) by blast
qed

text \<open>After a partition the nearest one comes first: if any starts where it ends, that one does.\<close>

lemma from_on_adjacent:
  assumes t: "tok t" and i: "i \<in> set (items t)" and all: "from_on t i = zs @ z # rest"
    and p: "p \<in> set (items t)" "StartSlot p = EndSlot z"
  shows "rest \<noteq> [] \<and> StartSlot (hd rest) = EndSlot z"
proof -
  have ok: "ok t" and ranges: "ranges_ok (items t)" using t by (auto simp: tree_ok_def)
  note props = from_on_props [OF ok i]
  have zi: "z \<in> set (items t)" "StartSlot i \<le> StartSlot z"
    using props(3) unfolding all by auto
  have "StartSlot z < EndSlot z" using ranges zi(1) by (simp add: ranges_ok_def nonempty_range_def)
  then have zp: "StartSlot z < StartSlot p" using p(2) by simp
  then have "p \<in> set (from_on t i)" using props(3) p zi(2) by auto
  moreover have "p \<notin> set (zs @ [z])"
    using props(1) zp unfolding all by (auto simp: sorted_wrt_append)
  ultimately have prest: "p \<in> set rest" unfolding all by auto
  then obtain n ns where rest: "rest = n # ns" by (cases rest) auto
  have "n \<in> set (from_on t i)" unfolding all rest by simp
  then have ni: "n \<in> set (items t)" using props(3) by auto
  have zn: "StartSlot z < StartSlot n" "StartSlot n \<le> StartSlot p"
    using props(1) prest unfolding all rest by (auto simp: sorted_wrt_append)
  have "z \<noteq> n" using zn(1) by auto
  then have "disjoint_ranges z n" using ranges zi(1) ni unfolding ranges_ok_def by blast
  moreover have "nonempty_range n" using ranges ni unfolding ranges_ok_def by blast
  ultimately have "EndSlot z \<le> StartSlot n" using zn(1)
    by (auto simp: disjoint_ranges_def nonempty_range_def)
  then show ?thesis using zn(2) p(2) rest by simp
qed

lemma multipleSearch_maximal:
  assumes t: "tok t" and num: "0 < num"
    and short: "length (multipleSearch ops t slot num) < num"
    and z: "multipleSearch ops t slot num = zs @ [z]"
    and p: "p \<in> set (items t)"
  shows "StartSlot p \<noteq> EndSlot z"
proof
  assume start: "StartSlot p = EndSlot z"
  obtain i where i: "tree_search ops t slot = Some i"
    using z unfolding multipleSearch_eq [OF t num] by (cases "tree_search ops t slot") auto
  let ?all = "from_on t i"
  have run: "contiguous_run None (take num ?all) = zs @ [z]" using multipleSearch_eq [OF t num] i z by simp
  obtain rest where take: "take num ?all = zs @ [z] @ rest"
    using contiguous_run_prefix(1) [of "take num ?all" None] unfolding run by auto
  have all: "?all = zs @ z # (rest @ drop num ?all)" using take append_take_drop_id [of num ?all] by simp
  have "i \<in> set (items t)" using search_iff [OF t] i by blast
  then have adj: "rest @ drop num ?all \<noteq> [] \<and> StartSlot (hd (rest @ drop num ?all)) = EndSlot z"
    using from_on_adjacent [OF t _ all p start] by blast
  have "length (zs @ [z]) < num" using short z by simp
  then have "rest \<noteq> []" using take adj by (auto simp: min_def split: if_splits dest!: arg_cong [where f = length])
  then show False using contiguous_run_stops [OF run take] adj by simp
qed

end


section \<open>A sorted list keeps the contract\<close>

text \<open>The items of the instance are a list in the order of \<^verbatim>\<open>Less\<close>, descending start slots.\<close>

fun dl_ins :: "zm_Partition \<Rightarrow> zm_Partition list \<Rightarrow> zm_Partition list" where
  "dl_ins x [] = [x]"
| "dl_ins x (y # ys) =
     (if StartSlot x > StartSlot y then x # y # ys
      else if StartSlot x = StartSlot y then x # ys else y # dl_ins x ys)"

definition list_itree :: "(zm_Partition list, zm_Partition) itree_ops" where
  "list_itree = \<lparr>it_New = [], it_Len = length, it_ReplaceOrInsert = (\<lambda>t x. dl_ins x t),
     it_Delete = (\<lambda>t x. filter (\<lambda>y. StartSlot y \<noteq> StartSlot x) t),
     it_AscendGreaterOrEqual = (\<lambda>t x. filter (\<lambda>y. \<not> PartitionItem_Less y x) t),
     it_DescendLessOrEqual = (\<lambda>t x. rev (filter (\<lambda>y. \<not> PartitionItem_Less x y) t))\<rparr>"

lemma dl_ins_set:
  "sorted_wrt PartitionItem_Less ys \<Longrightarrow>
     set (dl_ins x ys) = insert x {y \<in> set ys. PartitionItem_Less x y \<or> PartitionItem_Less y x}"
  by (induction ys) (auto simp: PartitionItem_Less_def)

lemma dl_ins_sorted: "sorted_wrt PartitionItem_Less ys \<Longrightarrow> sorted_wrt PartitionItem_Less (dl_ins x ys)"
proof (induction ys)
  case (Cons y ys)
  have "sorted_wrt PartitionItem_Less ys" using Cons.prems by simp
  then show ?case using Cons dl_ins_set [of ys x] by (auto simp: PartitionItem_Less_def)
qed simp

interpretation lt: partition_tree list_itree "sorted_wrt PartitionItem_Less" "\<lambda>t. t"
  by unfold_locales
    (auto simp: list_itree_def dl_ins_set dl_ins_sorted sorted_wrt_filter, auto simp: PartitionItem_Less_def)

section \<open>Properties\<close>

text \<open>
  A search returns exactly the partition whose range contains the slot: for every slot the
  answer is a partition of the tree that contains it, and any such partition is the answer.
\<close>

theorem search_correct:
  assumes "partition_tree ops ok items" "tree_ok ok items t"
  shows "tree_search ops t slot = Some p \<longleftrightarrow> p \<in> set (items t) \<and> Contains p slot"
  using assms by (rule partition_tree.search_iff)

theorem search_correct_witness:
  "tree_search list_itree (dl_ins ((slot_pivot 0)\<lparr>EndSlot := 7\<rparr>) []) 3 = Some ((slot_pivot 0)\<lparr>EndSlot := 7\<rparr>)"
proof -
  have "tree_ok (sorted_wrt PartitionItem_Less) (\<lambda>t. t) (dl_ins ((slot_pivot 0)\<lparr>EndSlot := 7\<rparr>) [])"
    by (simp add: tree_ok_def ranges_ok_def nonempty_range_def slot_pivot_simps)
  then show ?thesis
    using search_correct [OF lt.partition_tree_axioms, where slot = 3 and p = "(slot_pivot 0)\<lparr>EndSlot := 7\<rparr>"]
    by (simp add: Contains_def slot_pivot_simps)
qed

text \<open>
  C19: Updating the tree with a non-empty range removes exactly the partitions whose ranges overlap
  it, adds the new one, and keeps the ranges of the tree disjoint.
\<close>

theorem update_disjoint:
  assumes "partition_tree ops ok items" "tree_ok ok items t" "nonempty_range rng"
  shows "tree_ok ok items (tree_update ops t rng) \<and>
    set (items (tree_update ops t rng)) = insert rng {p \<in> set (items t). disjoint_ranges p rng}"
  using assms by (rule partition_tree.update_ok)

theorem update_disjoint_witness:
  "tree_ok (sorted_wrt PartitionItem_Less) (\<lambda>t. t)
     (tree_update list_itree [(slot_pivot 0)\<lparr>EndSlot := 7\<rparr>] ((slot_pivot 5)\<lparr>EndSlot := 9\<rparr>))"
proof -
  have "tree_ok (sorted_wrt PartitionItem_Less) (\<lambda>t. t) [(slot_pivot 0)\<lparr>EndSlot := 7\<rparr>]"
    "nonempty_range ((slot_pivot 5)\<lparr>EndSlot := 9\<rparr>)"
    by (simp_all add: tree_ok_def ranges_ok_def nonempty_range_def slot_pivot_simps)
  then show ?thesis using update_disjoint [OF lt.partition_tree_axioms] by blast
qed

text \<open>
  Removing a partition takes out the partition that contains its start slot if that has the
  same identifier, and nothing else.
\<close>

theorem remove_exact:
  assumes "partition_tree ops ok items" "tree_ok ok items t"
  shows "tree_ok ok items (tree_remove ops t rng) \<and> set (items (tree_remove ops t rng)) =
    {p \<in> set (items t). \<not> (Contains p (StartSlot rng) \<and> pt_ID p = pt_ID rng)}"
  using assms by (rule partition_tree.remove_ok)

end
