(* ===== verification/Zm_Space.thy ===== *)
theory Zm_Space
  imports Zm_Tree
begin

text \<open>
  The slots of a space from its creation to a routed request: how the master splits the slot
  range into partitions (\<^verbatim>\<open>util.SlotSplit\<close>, called by \<^verbatim>\<open>gm/cluster.go\<close> \<^verbatim>\<open>CreateSpace\<close>), how the
  zone master's worker walks the search tree of a space until every partition has a replica
  (\<^verbatim>\<open>zm/worker.go\<close>), and the routes it answers a router with (\<^verbatim>\<open>GetRoute\<close> of \<^verbatim>\<open>zm/rpc_server.go\<close>).
\<close>

section \<open>Splitting the slots\<close>

text \<open>
  \<^verbatim>\<open>SlotSplit(start, end, n)\<close>: nil is None.  The difference \<^verbatim>\<open>end - start\<close> is taken in 32 bits before
  it is widened, and the loop variable is cut to 32 bits.
\<close>

definition SlotSplit :: "u32 \<Rightarrow> u32 \<Rightarrow> u64 \<Rightarrow> u32 list option" where
  "SlotSplit start end' n =
     (if n \<le> 0 then None
      else if ucast (end' - start) + 1 < n then None
      else
        let (mn, mx) = (if start \<le> end' then (start, end') else (end', start)) in
        if n = 1 then Some [mn]
        else if n = 2 then Some [mn, mx]
        else
          let step = (mx - mn) div ucast (n - 1)
          in Some ([mn] @ map (\<lambda>i. mn + of_nat i * step) [1..<unat (n - 1)] @ [mx]))"

text \<open>The loop of \<^verbatim>\<open>CreateSpace\<close>: one partition from each boundary to the following one.\<close>

definition slot_ranges :: "u32 list \<Rightarrow> (u32 \<times> u32) list" where
  "slot_ranges slots = zip slots (tl slots)"

section \<open>The worker\<close>

text \<open>
  The loop of \<^verbatim>\<open>SpaceStateTransitionWorker.run\<close> over the partitions of a space, in batches; it
  returns the partitions it looked at.  A batch that is full is followed by one that starts at
  the batch's end, so a limit of 1 would never return: None.
\<close>

partial_function (option) worker_scan ::
  "('t, zm_Partition) itree_ops \<Rightarrow> 't \<Rightarrow> nat \<Rightarrow> SlotID \<Rightarrow> zm_Partition list option" where
  "worker_scan ops t batchNum pivotSlot =
     (case AscendScanPartition ops t pivotSlot batchNum of
        None \<Rightarrow> Some []
      | Some partitions \<Rightarrow>
          if length partitions < batchNum then Some partitions
          else Option.bind (worker_scan ops t batchNum (StartSlot (last partitions)))
                 (\<lambda>rest. Some (partitions @ rest)))"

text \<open>
  What the worker does with a space: an event for each partition without replicas it saw, and the
  status \<^verbatim>\<open>SS_Running\<close> when there was none.
\<close>

definition worker_run :: "('t, zm_Partition) itree_ops \<Rightarrow> 't \<Rightarrow> SpaceStatus
    \<Rightarrow> (zm_Partition list \<times> SpaceStatus) option" where
  "worker_run ops t status =
     (if status = SS_Init then
        Option.bind (worker_scan ops t 100 0) (\<lambda>partitions.
          let created = filter (\<lambda>p. length (Replicas p) = 0) partitions;
              noReplica = (created \<noteq> [])
          in Some (created, if \<not> noReplica then SS_Running else status))
      else Some ([], status))"

section \<open>Routes\<close>

text \<open>
  \<^verbatim>\<open>GetRoute\<close> after the database and the space were found: at most ten routes, and the error
  \<^verbatim>\<open>ErrRouteNotFound\<close> (None) when there is none.  \<open>servers\<close> is \<^verbatim>\<open>PsCache.FindServerById\<close>.
\<close>

definition route_of :: "(NodeID \<Rightarrow> meta_Node option) \<Rightarrow> zm_Partition \<Rightarrow> Route" where
  "route_of servers p =
     \<lparr>rt_Partition = meta_of p,
      rt_Nodes = List.map_filter (\<lambda>replica. servers (rep_NodeID replica)) (Replicas p),
      rt_Leader = pickLeaderNodeId p\<rparr>"

definition GetRoute :: "('t, zm_Partition) itree_ops \<Rightarrow> (NodeID \<Rightarrow> meta_Node option) \<Rightarrow> 't \<Rightarrow> SlotID
    \<Rightarrow> Route list option" where
  "GetRoute ops servers t slot =
     (let partitions = multipleSearch ops t slot 10
      in if length partitions = 0 then None else Some (map (route_of servers) partitions))"

section \<open>The boundaries\<close>

lemma unat_u32_less: "unat (x :: u32) < 4294967296"
proof -
  have "unat x < 2 ^ LENGTH(32)" by (rule unsigned_less)
  then show ?thesis by simp
qed

lemma unat_u32_of_nat: "k < 4294967296 \<Longrightarrow> unat (of_nat k :: u32) = k"
  by (simp add: unat_of_nat)

lemma slot_steps:
  assumes "s \<le> (e :: u32)" "1 < k" "k \<le> unat (e - s)"
  defines "step \<equiv> (e - s) div of_nat k"
  shows "\<And>i. i < k \<Longrightarrow> unat (s + of_nat i * step) = unat s + i * unat step"
    and "0 < unat step" and "\<And>i. i < k \<Longrightarrow> unat s + i * unat step < unat e"
proof -
  have d: "unat (e - s) = unat e - unat s" "unat s \<le> unat e"
    using assms(1) by (simp_all add: unat_sub word_le_nat_alt)
  have kw: "unat (of_nat k :: u32) = k"
    using assms(3) unat_u32_less [of "e - s"] by (intro unat_u32_of_nat) linarith
  have st: "unat step = (unat e - unat s) div k"
    unfolding step_def by (simp add: unat_div kw d(1))
  show pos: "0 < unat step" using assms(2,3) d(1) by (simp add: st div_greater_zero_iff)
  have mult: "k * unat step \<le> unat e - unat s" by (simp add: st)
  show le: "unat s + i * unat step < unat e" if "i < k" for i
  proof -
    have "Suc i * unat step \<le> k * unat step" using that by (intro mult_le_mono1) simp
    then have "i * unat step + unat step \<le> unat e - unat s" using mult by simp
    then show ?thesis using pos d(2) by linarith
  qed
  show "unat (s + of_nat i * step) = unat s + i * unat step" if "i < k" for i
  proof -
    have "i < 4294967296" using that assms(3) unat_u32_less [of "e - s"] by linarith
    then have iw: "unat (of_nat i :: u32) = i" by (rule unat_u32_of_nat)
    have "unat s + i * unat step < 4294967296" using le [OF that] unat_u32_less [of e] by linarith
    then show ?thesis by (simp add: unat_word_ariths iw)
  qed
qed

lemma sorted_boundaries:
  assumes "s < (e :: u32)" "0 < k" "\<And>i. i < k \<Longrightarrow> unat (f i) = unat s + i * d" "0 < d"
    "\<And>i. i < k \<Longrightarrow> unat s + i * d < unat e"
  shows "sorted_wrt (<) (map f [0..<k] @ [e])"
proof -
  have "f i < f j" if "i < j" "j < k" for i j
    using assms(3) [of i] assms(3) [of j] that assms(4) by (simp add: word_less_nat_alt)
  moreover have "f i < e" if "i < k" for i
    using assms(3,5) [OF that] by (simp add: word_less_nat_alt)
  moreover have "sorted_wrt (\<lambda>i j. f i < f j) [0..<k]" if "\<And>i j. i < j \<Longrightarrow> j < k \<Longrightarrow> f i < f j"
    using that by (simp add: sorted_wrt_iff_nth_less)
  ultimately show ?thesis unfolding sorted_wrt_append sorted_wrt_map by auto
qed

lemma SlotSplit_props:
  assumes "s \<le> e" "2 \<le> n" "n \<le> ucast (e - s) + 1"
  shows "\<exists>slots. SlotSplit s e n = Some (s # slots @ [e]) \<and> length slots = unat n - 2 \<and>
    sorted_wrt (<) (s # slots @ [e])"
proof -
  have n: "2 \<le> unat n" "\<not> n \<le> 0" "n \<noteq> 1" using assms(2) by (auto simp: word_le_nat_alt)
  have diff: "unat (ucast (e - s) + 1 :: u64) = unat (e - s) + 1"
    using unat_u32_less [of "e - s"] by (simp add: unat_word_ariths unsigned_ucast_eq take_bit_nat_eq_self)
  have k: "unat n - 1 \<le> unat (e - s)" using assms(3) diff by (simp add: word_le_nat_alt)
  have nw: "unat (n - 1) = unat n - 1" using n(1) by (subst unat_sub) (auto simp: word_le_nat_alt)
  have ne: "s < e" using k n(1) assms(1) by (cases "s = e") auto
  have guard: "\<not> ucast (e - s) + 1 < n" using assms(3) by simp
  show ?thesis
  proof (cases "n = 2")
    case True
    then show ?thesis using n guard assms(1) ne by (intro exI [of _ "[]"]) (simp add: SlotSplit_def)
  next
    case False
    define k where "k = unat n - 1"
    have "unat n \<noteq> unat (2 :: u64)" using False by (metis unsigned_word_eqI)
    then have k1: "1 < k" using n(1) unfolding k_def by simp
    have cast: "(ucast (n - 1) :: u32) = of_nat k"
      unfolding k_def nw [symmetric] by simp
    let ?step = "(e - s) div of_nat k"
    let ?f = "\<lambda>i. s + of_nat i * ?step"
    have split: "SlotSplit s e n = Some ([s] @ map ?f [1..<k] @ [e])"
      using n guard assms(1) False by (simp add: SlotSplit_def cast nw k_def Let_def)
    have "[0..<k] = 0 # [1..<k]" using k1 by (simp add: upt_conv_Cons)
    then have whole: "map ?f [0..<k] = s # map ?f [1..<k]" by simp
    note steps = slot_steps [OF assms(1) k1 k [folded k_def]]
    have "sorted_wrt (<) (map ?f [0..<k] @ [e])"
      using sorted_boundaries [OF ne _ steps(1) steps(2) steps(3)] k1 by simp
    then have "sorted_wrt (<) (s # map ?f [1..<k] @ [e])" unfolding whole by simp
    moreover have "length (map ?f [1..<k]) = unat n - 2" using n(1) by (simp add: k_def)
    ultimately show ?thesis using split by (metis append_Cons append_Nil)
  qed
qed

text \<open>Consecutive boundaries partition the slots between the outermost two.\<close>

lemma slot_ranges_cover:
  fixes x :: u32
  assumes "sorted_wrt (<) (s # slots @ [e])" "s \<le> x" "x < e"
  shows "\<exists>(a, b)\<in>set (slot_ranges (s # slots @ [e])). a \<le> x \<and> x < b"
  using assms
proof (induction slots arbitrary: s)
  case (Cons b slots)
  show ?case
  proof (cases "x < b")
    case False
    then show ?thesis using Cons.IH [of b] Cons.prems by (auto simp: slot_ranges_def)
  qed (use Cons.prems in \<open>auto simp: slot_ranges_def\<close>)
qed (auto simp: slot_ranges_def)

lemma slot_ranges_mem:
  "(a, b) \<in> set (slot_ranges slots) \<Longrightarrow> a \<in> set slots \<and> b \<in> set slots"
  unfolding slot_ranges_def by (cases slots) (auto dest: set_zip_leftD set_zip_rightD)

lemma slot_ranges_less:
  "sorted_wrt (<) (slots :: u32 list) \<Longrightarrow> (a, b) \<in> set (slot_ranges slots) \<Longrightarrow> a < b"
proof (induction slots)
  case (Cons s slots)
  then show ?case by (cases slots) (auto simp: slot_ranges_def)
qed (simp add: slot_ranges_def)

lemma slot_ranges_sorted:
  "sorted_wrt (<) (slots :: u32 list) \<Longrightarrow> sorted_wrt (\<lambda>r q. snd r \<le> fst q) (slot_ranges slots)"
proof (induction slots)
  case (Cons s slots)
  show ?case
  proof (cases slots)
    case rest: (Cons b rest)
    have "b \<le> fst q" if "q \<in> set (slot_ranges slots)" for q
      using slot_ranges_mem [of "fst q" "snd q" slots] that Cons.prems rest by auto
    then show ?thesis using Cons rest by (simp add: slot_ranges_def)
  qed (simp add: slot_ranges_def)
qed (simp add: slot_ranges_def)

section \<open>Building the tree and walking it\<close>

definition build_tree :: "('t, zm_Partition) itree_ops \<Rightarrow> zm_Partition list \<Rightarrow> 't" where
  "build_tree ops ps = fold (\<lambda>p t. tree_update ops t p) ps (NewPartitionTree ops)"

lemma AscendScanPartition_eq:
  assumes "partition_tree ops ok items" "tree_ok ok items t" "0 < num"
  shows "AscendScanPartition ops t slot num =
    (case tree_search ops t slot of None \<Rightarrow> None
     | Some i \<Rightarrow> Some (take num (partition_tree.from_on items t i)))"
proof (cases "tree_search ops t slot")
  case None
  then show ?thesis using partition_tree.ascendScan_eq [OF assms] by (simp add: AscendScanPartition_def)
next
  case (Some i)
  have "ok t" "i \<in> set (items t)"
    using assms(2) Some partition_tree.search_iff [OF assms(1,2)] by (auto simp: tree_ok_def)
  then have "partition_tree.from_on items t i \<noteq> []"
    using partition_tree.from_on_props(2) [OF assms(1)] by (metis list.distinct(1))
  then show ?thesis
    using Some partition_tree.ascendScan_eq [OF assms] assms(3) by (simp add: AscendScanPartition_def)
qed

context partition_tree
begin

lemma build_tree_ok:
  assumes "ranges_ok ps"
  shows "tok (build_tree ops ps) \<and> set (items (build_tree ops ps)) = set ps"
proof -
  have "tok (fold (\<lambda>p t. tree_update ops t p) qs t) \<and>
        set (items (fold (\<lambda>p t. tree_update ops t p) qs t)) = set qs \<union> set (items t)"
    if "tok t" "ranges_ok ps" "set qs \<union> set (items t) \<subseteq> set ps" for qs t
    using that
  proof (induction qs arbitrary: t)
    case (Cons q qs)
    have q: "q \<in> set ps" "nonempty_range q" using Cons.prems by (auto simp: ranges_ok_def)
    have "p = q \<or> disjoint_ranges p q" if "p \<in> set (items t)" for p
      using that Cons.prems q(1) unfolding ranges_ok_def by blast
    then have "set (items (tree_update ops t q)) = insert q (set (items t))" "tok (tree_update ops t q)"
      using update_ok [OF Cons.prems(1) q(2)] by auto
    then show ?case using Cons.IH [of "tree_update ops t q"] Cons.prems by auto
  qed simp
  from this [OF new_tree_ok(1) assms, of ps] show ?thesis using new_tree_ok(2) by (simp add: build_tree_def)
qed

text \<open>From the end of a full batch on, the scan goes on with the rest.\<close>

lemma from_on_from_on:
  assumes "tok t" "i \<in> set (items t)" "from_on t i = xs @ z # ys"
  shows "from_on t z = z # ys"
proof -
  have ok: "ok t" using assms(1) by (simp add: tree_ok_def)
  note props = from_on_props [OF ok assms(2)]
  have z: "StartSlot i \<le> StartSlot z" using props(3) unfolding assms(3) by auto
  have "filter (\<lambda>y. StartSlot z \<le> StartSlot y) (from_on t i)
      = rev (filter (\<lambda>y. StartSlot i \<le> StartSlot y \<and> StartSlot z \<le> StartSlot y) (items t))"
    by (simp add: from_on_def rev_filter conj_commute)
  also have "\<dots> = from_on t z" unfolding from_on_def using z
    by (intro arg_cong [where f = rev] filter_cong) auto
  finally have "from_on t z = filter (\<lambda>y. StartSlot z \<le> StartSlot y) (xs @ z # ys)" using assms(3) by simp
  moreover have "filter (\<lambda>y. StartSlot z \<le> StartSlot y) xs = []" "filter (\<lambda>y. StartSlot z \<le> StartSlot y) ys = ys"
    using props(1) unfolding assms(3) by (auto simp: sorted_wrt_append filter_empty_conv filter_id_conv)
  ultimately show ?thesis by simp
qed

lemma worker_scan_visits:
  assumes "tok t" "1 < num" "tree_search ops t slot = Some i"
  shows "\<exists>ps. worker_scan ops t num slot = Some ps \<and> set ps = set (from_on t i)"
  using assms(3)
proof (induction "length (from_on t i)" arbitrary: i slot rule: less_induct)
  case less
  let ?all = "from_on t i"
  have scan: "AscendScanPartition ops t slot num = Some (take num ?all)"
    using AscendScanPartition_eq [OF partition_tree_axioms assms(1), of num slot] assms(2) less.prems by simp
  show ?case
  proof (cases "length ?all < num")
    case True
    then show ?thesis using scan by (subst worker_scan.simps) simp
  next
    case False
    have ok: "ok t" and i: "i \<in> set (items t)"
      using assms(1) search_iff [OF assms(1)] less.prems by (auto simp: tree_ok_def)
    have len: "length (take num ?all) = num" using False by simp
    then have ne: "take num ?all \<noteq> []" using assms(2) by auto
    define z where "z = last (take num ?all)"
    have split: "?all = butlast (take num ?all) @ z # drop num ?all"
      unfolding z_def using append_butlast_last_id [OF ne] append_take_drop_id [of num ?all]
      by (metis append.assoc append_Cons append_Nil)
    have zall: "from_on t z = z # drop num ?all" by (rule from_on_from_on [OF assms(1) i split])
    have zi: "z \<in> set (items t)" using split from_on_props(3) [OF ok i] by (metis (mono_tags, lifting) in_set_conv_decomp mem_Collect_eq)
    have "Contains z (StartSlot z)" using zi assms(1)
      by (auto simp: Contains_def tree_ok_def ranges_ok_def nonempty_range_def)
    then have "tree_search ops t (StartSlot z) = Some z" using search_iff [OF assms(1)] zi by blast
    moreover have "length (from_on t z) < length ?all" using zall len assms(2) False by simp
    ultimately obtain ps where ps: "worker_scan ops t num (StartSlot z) = Some ps" "set ps = set (from_on t z)"
      using less.hyps by blast
    have "worker_scan ops t num slot = Some (take num ?all @ ps)"
      using scan len ps(1) by (subst worker_scan.simps) (simp add: z_def)
    moreover have "set (take num ?all @ ps) = set ?all"
      unfolding set_append ps(2) zall using split ne z_def append_take_drop_id [of num ?all]
      by (metis Un_insert_right insert_absorb last_in_set list.simps(15) set_append UnCI)
    ultimately show ?thesis by blast
  qed
qed

end

section \<open>Properties\<close>

abbreviation range_of :: "zm_Partition \<Rightarrow> u32 \<times> u32" where
  "range_of p \<equiv> (StartSlot p, EndSlot p)"

lemma split_ranges_ok:
  assumes "sorted_wrt (<) slots" "map range_of ps = slot_ranges slots"
  shows "ranges_ok ps"
proof -
  have sorted: "sorted_wrt (\<lambda>p q. EndSlot p \<le> StartSlot q) ps"
    using slot_ranges_sorted [OF assms(1)] unfolding assms(2) [symmetric] by (simp add: sorted_wrt_map)
  have "nonempty_range p" if "p \<in> set ps" for p
  proof -
    have "range_of p \<in> set (slot_ranges slots)" unfolding assms(2) [symmetric] using that by simp
    then show ?thesis using slot_ranges_less [OF assms(1)] by (simp add: nonempty_range_def)
  qed
  moreover have "p = q \<or> disjoint_ranges p q" if "p \<in> set ps" "q \<in> set ps" for p q
  proof -
    have "p = q \<or> EndSlot p \<le> StartSlot q \<or> EndSlot q \<le> StartSlot p"
      using that sorted by (induction ps) auto
    then show ?thesis by (auto simp: disjoint_ranges_def)
  qed
  ultimately show ?thesis unfolding ranges_ok_def by blast
qed

lemma split_covers:
  assumes "sorted_wrt (<) (s # slots @ [e])" "map range_of ps = slot_ranges (s # slots @ [e])"
  shows "(\<exists>p\<in>set ps. Contains p x) \<longleftrightarrow> s \<le> x \<and> x < e"
proof -
  have sets: "range_of ` set ps = set (slot_ranges (s # slots @ [e]))"
    using arg_cong [OF assms(2), of set] by simp
  have inner: "s \<le> y \<and> y \<le> e" if "y \<in> set (s # slots @ [e])" for y
    using that assms(1) by (auto simp: sorted_wrt_append)
  show ?thesis
  proof
    assume "\<exists>p\<in>set ps. Contains p x"
    then obtain p where p: "p \<in> set ps" "Contains p x" by blast
    have "range_of p \<in> set (slot_ranges (s # slots @ [e]))" unfolding sets [symmetric] using p(1) by (rule imageI)
    then have "StartSlot p \<in> set (s # slots @ [e])" "EndSlot p \<in> set (s # slots @ [e])"
      using slot_ranges_mem by (simp_all only:)
    then have "s \<le> StartSlot p" "EndSlot p \<le> e" using inner by (simp_all only:)
    then show "s \<le> x \<and> x < e" using p(2) by (auto simp: Contains_def)
  next
    assume "s \<le> x \<and> x < e"
    then have "\<exists>(a, b)\<in>range_of ` set ps. a \<le> x \<and> x < b"
      unfolding sets using slot_ranges_cover [OF assms(1)] by (simp only:)
    then show "\<exists>p\<in>set ps. Contains p x" by (auto simp: Contains_def)
  qed
qed

lemma minus_1_u32: "(- 1 :: u32) = 0xFFFFFFFF"
  by simp

text \<open>
  C39: Splitting a slot range gives as many boundaries as asked for, from its first to its end, and
  strictly increasing: the partitions made from them are not empty and do not overlap.
\<close>

theorem SlotSplit_increasing:
  assumes "s \<le> e" "2 \<le> n" "n \<le> ucast (e - s) + 1"
  shows "\<exists>slots. SlotSplit s e n = Some slots \<and> length slots = unat n \<and>
    hd slots = s \<and> last slots = e \<and> sorted_wrt (<) slots"
proof -
  have "2 \<le> unat n" using assms(2) by (simp add: word_le_nat_alt)
  moreover obtain slots where "SlotSplit s e n = Some (s # slots @ [e])" "length slots = unat n - 2"
    "sorted_wrt (<) (s # slots @ [e])" using SlotSplit_props [OF assms] by blast
  ultimately show ?thesis by (intro exI [of _ "s # slots @ [e]"]) simp
qed

theorem SlotSplit_increasing_witness:
  "\<exists>slots. SlotSplit 0 0xFFFFFFFF 4 = Some slots \<and> length slots = unat (4 :: u64) \<and>
    hd slots = 0 \<and> last slots = 0xFFFFFFFF \<and> sorted_wrt (<) slots"
  using SlotSplit_increasing [of 0 "0xFFFFFFFF" 4] by simp

text \<open>
  C7: The slots of a new space are routed: with the partitions that \<^verbatim>\<open>CreateSpace\<close> makes from
  \<^verbatim>\<open>SlotSplit(0, MaxUint32, n)\<close> put into the search tree in any order, a search finds, for every
  slot but the largest, a partition that contains it; the slot \<^verbatim>\<open>MaxUint32\<close> is in no partition.
\<close>

theorem created_slots_routed:
  assumes "partition_tree ops ok items" "2 \<le> n" "n \<le> 0x100000000"
    and "SlotSplit 0 0xFFFFFFFF n = Some slots" "map range_of ps = slot_ranges slots"
    and "set qs = set ps"
  shows "if x = 0xFFFFFFFF then tree_search ops (build_tree ops qs) x = None
    else \<exists>p\<in>set ps. tree_search ops (build_tree ops qs) x = Some p \<and> Contains p x"
proof -
  obtain inner where slots: "slots = 0 # inner @ [0xFFFFFFFF]" "sorted_wrt (<) slots"
    using SlotSplit_props [of 0 "0xFFFFFFFF" n] assms(2-4) by auto
  have "ranges_ok ps" by (rule split_ranges_ok [OF slots(2) assms(5)])
  then have "ranges_ok qs" using assms(6) by (simp add: ranges_ok_def)
  then have tree: "tree_ok ok items (build_tree ops qs)" "set (items (build_tree ops qs)) = set ps"
    using partition_tree.build_tree_ok [OF assms(1), of qs] assms(6) by auto
  have found: "tree_search ops (build_tree ops qs) x = Some p \<longleftrightarrow> p \<in> set ps \<and> Contains p x" for p
    using partition_tree.search_iff [OF assms(1) tree(1)] tree(2) by blast
  have cover: "(\<exists>p\<in>set ps. Contains p x) \<longleftrightarrow> x < 0xFFFFFFFF"
    using split_covers [of 0 inner "0xFFFFFFFF" ps x] slots assms(5) by simp
  have max: "x < 0xFFFFFFFF \<longleftrightarrow> x \<noteq> 0xFFFFFFFF"
    using word_order.not_eq_extremum [of x] minus_1_u32 by simp
  show ?thesis
  proof (cases "x = 0xFFFFFFFF")
    case True
    then have "tree_search ops (build_tree ops qs) x \<noteq> Some p" for p using cover found by auto
    then show ?thesis using True by (metis not_Some_eq)
  next
    case False
    then show ?thesis using cover max found by auto
  qed
qed

theorem created_slots_routed_witness:
  "\<exists>p\<in>set [(slot_pivot 0)\<lparr>EndSlot := 0xFFFFFFFF\<rparr>].
     tree_search list_itree (build_tree list_itree [(slot_pivot 0)\<lparr>EndSlot := 0xFFFFFFFF\<rparr>]) 99 = Some p \<and> Contains p 99"
  using created_slots_routed [OF lt.partition_tree_axioms, where n = 2 and slots = "[0, 0xFFFFFFFF]" and x = 99
      and ps = "[(slot_pivot 0)\<lparr>EndSlot := 0xFFFFFFFF\<rparr>]" and qs = "[(slot_pivot 0)\<lparr>EndSlot := 0xFFFFFFFF\<rparr>]"]
  by (simp add: SlotSplit_def slot_ranges_def)

text \<open>
  The worker returns, and looks at every partition: it asks for a replica of exactly the
  partitions that have none, and the space becomes \<^verbatim>\<open>SS_Running\<close> exactly when all have one.  This needs
  a partition that contains slot 0, as a new space has it.
\<close>

theorem worker_run_complete:
  assumes "partition_tree ops ok items" "tree_ok ok items t"
    and "p0 \<in> set (items t)" "StartSlot p0 = 0"
  shows "\<exists>created status. worker_run ops t SS_Init = Some (created, status) \<and>
    set created = {p \<in> set (items t). Replicas p = []} \<and>
    (status = SS_Running \<longleftrightarrow> (\<forall>p\<in>set (items t). Replicas p \<noteq> []))"
proof -
  have "nonempty_range p0" using assms(2,3) by (simp add: tree_ok_def ranges_ok_def)
  then have "Contains p0 0" using assms(4) by (simp add: Contains_def nonempty_range_def)
  then have "tree_search ops t 0 = Some p0"
    using partition_tree.search_iff [OF assms(1,2)] assms(3) by blast
  then obtain ps where ps: "worker_scan ops t 100 0 = Some ps"
      "set ps = set (partition_tree.from_on items t p0)"
    using partition_tree.worker_scan_visits [OF assms(1,2), of 100 0 p0] by auto
  moreover have "set (partition_tree.from_on items t p0) = set (items t)"
    using assms(2-4) by (simp add: partition_tree.from_on_def [OF assms(1)])
  ultimately have all: "set ps = set (items t)" by simp
  let ?created = "filter (\<lambda>p. length (Replicas p) = 0) ps"
  have "worker_run ops t SS_Init = Some (?created, if ?created = [] then SS_Running else SS_Init)"
    by (simp add: worker_run_def ps(1) Let_def)
  moreover have "set ?created = {p \<in> set (items t). Replicas p = []}" using all by auto
  moreover have "?created = [] \<longleftrightarrow> (\<forall>p\<in>set (items t). Replicas p \<noteq> [])"
    using all by (auto simp: filter_empty_conv)
  ultimately show ?thesis by auto
qed

theorem worker_run_complete_witness:
  "\<exists>created status. worker_run list_itree [(slot_pivot 0)\<lparr>EndSlot := 7\<rparr>] SS_Init = Some (created, status) \<and>
    set created = {p \<in> {(slot_pivot 0)\<lparr>EndSlot := 7\<rparr>}. Replicas p = []} \<and>
    (status = SS_Running \<longleftrightarrow> (\<forall>p\<in>{(slot_pivot 0)\<lparr>EndSlot := 7\<rparr>}. Replicas p \<noteq> []))"
proof -
  have "tree_ok (sorted_wrt PartitionItem_Less) (\<lambda>t. t) [(slot_pivot 0)\<lparr>EndSlot := 7\<rparr>]"
    by (simp add: tree_ok_def ranges_ok_def nonempty_range_def)
  then show ?thesis
    using worker_run_complete [OF lt.partition_tree_axioms, of "[(slot_pivot 0)\<lparr>EndSlot := 7\<rparr>]" "(slot_pivot 0)\<lparr>EndSlot := 7\<rparr>"]
    by simp
qed

text \<open>Without a partition at slot 0 the worker sees nothing and the space is called running.\<close>

lemma worker_run_blind:
  assumes "partition_tree ops ok items" "tree_ok ok items t" "\<forall>p\<in>set (items t). StartSlot p \<noteq> 0"
  shows "worker_run ops t SS_Init = Some ([], SS_Running)"
proof -
  have "tree_search ops t 0 \<noteq> Some p" for p
    using partition_tree.search_iff [OF assms(1,2), of 0 p] assms(3) by (auto simp: Contains_def)
  then have none: "tree_search ops t 0 = None" by (metis not_Some_eq)
  have "AscendScanPartition ops t 0 100 = None"
    using AscendScanPartition_eq [OF assms(1,2), of 100 0] none by simp
  then have "worker_scan ops t 100 0 = Some []" by (subst worker_scan.simps) simp
  then show ?thesis by (simp add: worker_run_def)
qed

text \<open>
  The routes for a slot: an answer exists exactly when some partition contains the slot; then
  there are at most ten routes, the first is of the partition that contains the slot, and each
  of the others starts at the slot where the one before it ends.
\<close>

theorem GetRoute_contiguous:
  assumes "partition_tree ops ok items" "tree_ok ok items t"
  shows "case GetRoute ops servers t slot of
      None \<Rightarrow> (\<forall>p\<in>set (items t). \<not> Contains p slot)
    | Some routes \<Rightarrow> (\<exists>p ps. routes = map (route_of servers) (p # ps) \<and> set (p # ps) \<subseteq> set (items t) \<and>
        Contains p slot \<and> length routes \<le> 10 \<and>
        successively (\<lambda>a b. EndSlot (rt_Partition a) = StartSlot (rt_Partition b)) routes)"
proof (cases "tree_search ops t slot")
  case None
  have "\<not> Contains p slot" if "p \<in> set (items t)" for p
    using None partition_tree.search_iff [OF assms, of slot p] that by auto
  moreover have "GetRoute ops servers t slot = None"
    using partition_tree.multipleSearch_eq [OF assms, of 10 slot] None by (simp add: GetRoute_def)
  ultimately show ?thesis by simp
next
  case (Some i)
  let ?run = "contiguous_run None (take 10 (partition_tree.from_on items t i))"
  have i: "ok t" "i \<in> set (items t)" "Contains i slot"
    using partition_tree.search_iff [OF assms, of slot i] Some assms(2) by (auto simp: tree_ok_def)
  have ms: "multipleSearch ops t slot 10 = ?run"
    using partition_tree.multipleSearch_eq [OF assms, of 10 slot] Some by simp
  obtain rest where "partition_tree.from_on items t i = i # rest"
    using partition_tree.from_on_props(2) [OF assms(1) i(1,2)] by blast
  then obtain ps where run: "?run = i # ps" by simp
  have "set (i # ps) \<subseteq> set (items t)"
    using partition_tree.multipleSearch_mem [OF assms, of 10 _ slot] ms run by auto
  moreover have "length (i # ps) \<le> 10"
    using contiguous_run_prefix(1) [of "take 10 (partition_tree.from_on items t i)" None] run
    by (auto dest!: arg_cong [where f = length])
  moreover have "successively (\<lambda>a b. EndSlot (rt_Partition a) = StartSlot (rt_Partition b)) (map (route_of servers) (i # ps))"
    unfolding run [symmetric] successively_map using contiguous_run_prefix(2)
    by (simp add: route_of_def meta_of_def meta_Partition.defs)
  moreover have route: "GetRoute ops servers t slot = Some (map (route_of servers) (i # ps))"
    using ms run by (simp add: GetRoute_def)
  ultimately show ?thesis unfolding route option.case length_map using i(3) by blast
qed

theorem GetRoute_contiguous_witness:
  "case GetRoute list_itree Map.empty [(slot_pivot 0)\<lparr>EndSlot := 7\<rparr>] 3 of None \<Rightarrow> False | Some routes \<Rightarrow> length routes \<le> 10"
proof -
  have "tree_ok (sorted_wrt PartitionItem_Less) (\<lambda>t. t) [(slot_pivot 0)\<lparr>EndSlot := 7\<rparr>]"
    by (simp add: tree_ok_def ranges_ok_def nonempty_range_def)
  from GetRoute_contiguous [OF lt.partition_tree_axioms this, where servers = Map.empty and slot = 3]
  show ?thesis by (auto simp: Contains_def split: option.splits)
qed

end
