(* ===== verification/Router.thy ===== *)
theory Router
  imports Zm_Space
begin

text \<open>
  The router's cache of the partitions of a space (\<^verbatim>\<open>router/model_space.go\<close>,
  \<^verbatim>\<open>router/model_partition.go\<close>).  A cached \<^verbatim>\<open>Partition\<close> is a pair of pointers into a \<^verbatim>\<open>Route\<close>, and \<^verbatim>\<open>addRoutes\<close>
  takes the address of its loop variable, so the routes are kept in cells: one cell for the
  variable of each call, and the list of partitions holds cell numbers.  The answer of the zone master
  (\<^verbatim>\<open>MasterClient.GetRoute\<close>) is an argument; a failed call panics there and is not an answer.
\<close>

section \<open>Binary search\<close>

text \<open>\<^verbatim>\<open>sort.Search\<close> of the Go library: the loop over \<^verbatim>\<open>i\<close> and \<^verbatim>\<open>j\<close>.\<close>

function search_loop :: "(nat \<Rightarrow> bool) \<Rightarrow> nat \<Rightarrow> nat \<Rightarrow> nat" where
  "search_loop f i j =
     (if i < j then
        let h = (i + j) div 2
        in if \<not> f h then search_loop f (h + 1) j else search_loop f i h
      else i)"
  by pat_completeness auto
termination by (relation "measure (\<lambda>(f, i, j). j - i)") auto

declare search_loop.simps [simp del]

definition sort_Search :: "nat \<Rightarrow> (nat \<Rightarrow> bool) \<Rightarrow> nat" where
  "sort_Search n f = search_loop f 0 n"

section \<open>The cache\<close>

record router_Space =
  sp_cells :: "Route list"
  sp_partitions :: "nat list"

definition NewSpace :: router_Space where
  "NewSpace = \<lparr>sp_cells = [], sp_partitions = []\<rparr>"

abbreviation cell_part :: "router_Space \<Rightarrow> nat \<Rightarrow> meta_Partition" where
  "cell_part sp c \<equiv> rt_Partition (sp_cells sp ! c)"

text \<open>\<^verbatim>\<open>space.partitions[i]\<close>, through its pointer.\<close>

definition part_at :: "router_Space \<Rightarrow> nat \<Rightarrow> meta_Partition" where
  "part_at sp i = cell_part sp (sp_partitions sp ! i)"

definition getPartition :: "router_Space \<Rightarrow> SlotID \<Rightarrow> (meta_Partition \<times> nat) option" where
  "getPartition sp slotId =
     (let pos = sort_Search (length (sp_partitions sp)) (\<lambda>i. EndSlot (part_at sp i) \<ge> slotId)
      in if pos \<ge> length (sp_partitions sp) \<or> slotId < StartSlot (part_at sp pos) then None
         else Some (part_at sp pos, pos))"

text \<open>One turn of the loop of \<^verbatim>\<open>addRoutes\<close>: the variable, cell \<open>c\<close>, holds the route.\<close>

definition add_route :: "nat \<Rightarrow> Route \<Rightarrow> router_Space \<Rightarrow> router_Space" where
  "add_route c route sp =
     (let sp = sp\<lparr>sp_cells := (sp_cells sp)[c := route]\<rparr>;
          ps = sp_partitions sp;
          start = StartSlot (rt_Partition route);
          pos = sort_Search (length ps) (\<lambda>i. EndSlot (part_at sp i) \<ge> start)
      in if pos \<ge> length ps then sp\<lparr>sp_partitions := ps @ [c]\<rparr>
         else if EndSlot (part_at sp pos) \<ge> start
         then sp\<lparr>sp_partitions := take pos ps @ [c] @ drop pos ps\<rparr>
         else sp)"

definition zero_Route :: Route where
  "zero_Route = \<lparr>rt_Partition = zero_Partition, rt_Nodes = [], rt_Leader = 0\<rparr>"

definition addRoutes :: "router_Space \<Rightarrow> Route list \<Rightarrow> router_Space" where
  "addRoutes sp routes =
     (let c = length (sp_cells sp)
      in fold (add_route c) routes (sp\<lparr>sp_cells := sp_cells sp @ [zero_Route]\<rparr>))"

text \<open>\<^verbatim>\<open>GetPartition\<close>: \<open>answer\<close> is what the master returns for the slot.\<close>

definition GetPartition :: "router_Space \<Rightarrow> (SlotID \<Rightarrow> Route list) \<Rightarrow> SlotID
    \<Rightarrow> router_Space \<times> meta_Partition option" where
  "GetPartition sp answer slotId =
     (case getPartition sp slotId of
        Some (p, _) \<Rightarrow> (sp, Some p)
      | None \<Rightarrow>
          let sp' = addRoutes sp (answer slotId)
          in (sp', map_option fst (getPartition sp' slotId)))"

definition Space_Delete :: "router_Space \<Rightarrow> meta_Partition \<Rightarrow> router_Space" where
  "Space_Delete sp p =
     (case getPartition sp (StartSlot p) of
        None \<Rightarrow> sp
      | Some (_, pos) \<Rightarrow>
          sp\<lparr>sp_partitions := take pos (sp_partitions sp) @ drop (pos + 1) (sp_partitions sp)\<rparr>)"

section \<open>Binary search finds the first index\<close>

lemma search_loop_bounds: "i \<le> j \<Longrightarrow> i \<le> search_loop f i j \<and> search_loop f i j \<le> j"
proof (induction f i j rule: search_loop.induct)
  case (1 f i j)
  show ?case
  proof (cases "i < j")
    case True
    then have h: "i \<le> (i + j) div 2" "(i + j) div 2 < j" by auto
    show ?thesis using True h "1.IH"(1) [OF True refl] "1.IH"(2) [OF True refl]
      by (subst (1 2) search_loop.simps) (auto simp: Let_def)
  qed (use "1.prems" in \<open>simp add: search_loop.simps\<close>)
qed

lemma search_loop_first:
  assumes "\<And>a b. a \<le> b \<Longrightarrow> b < j \<Longrightarrow> f a \<Longrightarrow> f b" "i \<le> j"
  shows "(\<forall>k. i \<le> k \<and> k < search_loop f i j \<longrightarrow> \<not> f k) \<and>
    (search_loop f i j < j \<longrightarrow> f (search_loop f i j))"
  using assms
proof (induction f i j rule: search_loop.induct)
  case (1 f i j)
  show ?case
  proof (cases "i < j")
    case True
    define h where "h = (i + j) div 2"
    have h: "i \<le> h" "h < j" using True by (auto simp: h_def)
    show ?thesis
    proof (cases "f h")
      case fh: True
      have eq: "search_loop f i j = search_loop f i h"
        using True fh by (subst search_loop.simps) (simp add: h_def)
      have "(\<forall>k. i \<le> k \<and> k < search_loop f i h \<longrightarrow> \<not> f k) \<and> (search_loop f i h < h \<longrightarrow> f (search_loop f i h))"
        using "1.IH"(2) [OF True h_def] fh "1.prems"(1) h by auto
      then show ?thesis using eq fh search_loop_bounds [OF h(1), of f] by (metis le_neq_implies_less)
    next
      case False
      have eq: "search_loop f i j = search_loop f (h + 1) j"
        using True False by (subst search_loop.simps) (simp add: h_def)
      have "(\<forall>k. h + 1 \<le> k \<and> k < search_loop f (h + 1) j \<longrightarrow> \<not> f k) \<and>
          (search_loop f (h + 1) j < j \<longrightarrow> f (search_loop f (h + 1) j))"
        using "1.IH"(1) [OF True h_def False] "1.prems"(1) h by auto
      moreover have "\<not> f k" if "k \<le> h" for k using "1.prems"(1) [OF that h(2)] False by blast
      ultimately show ?thesis unfolding eq by (metis Suc_eq_plus1 not_less_eq_eq)
    qed
  qed (use "1.prems" in \<open>auto simp: search_loop.simps\<close>)
qed

lemma sort_Search_first:
  assumes "\<forall>a b. a \<le> b \<and> b < n \<and> f a \<longrightarrow> f b"
  shows "sort_Search n f \<le> n" "\<And>k. k < sort_Search n f \<Longrightarrow> \<not> f k" "sort_Search n f < n \<Longrightarrow> f (sort_Search n f)"
  using search_loop_first [of n f 0] search_loop_bounds [of 0 n f] assms by (auto simp: sort_Search_def)

lemma sort_Search_const: "sort_Search n (\<lambda>i. b) = (if b then 0 else n)"
proof (cases b)
  case True
  then show ?thesis using sort_Search_first(2) [of n "\<lambda>i. b" 0] by auto
next
  case False
  then have "\<not> sort_Search n (\<lambda>i. b) < n" using sort_Search_first(3) [of n "\<lambda>i. b"] by blast
  then show ?thesis using sort_Search_first(1) [of n "\<lambda>i. b"] False by simp
qed

section \<open>Lookups in a cache of disjoint ranges\<close>

definition cached :: "router_Space \<Rightarrow> meta_Partition list" where
  "cached sp = map (cell_part sp) (sp_partitions sp)"

definition cache_ok :: "router_Space \<Rightarrow> bool" where
  "cache_ok sp = ((\<forall>p\<in>set (cached sp). StartSlot p < EndSlot p) \<and>
     sorted_wrt (\<lambda>p q. EndSlot p \<le> StartSlot q) (cached sp))"

lemma part_at_cached [simp]: "i < length (sp_partitions sp) \<Longrightarrow> part_at sp i = cached sp ! i"
  by (simp add: part_at_def cached_def)

lemma length_cached [simp]: "length (cached sp) = length (sp_partitions sp)"
  by (simp add: cached_def)

lemma cache_ok_ends:
  assumes "cache_ok sp" "a < b" "b < length (sp_partitions sp)"
  shows "EndSlot (cached sp ! a) \<le> StartSlot (cached sp ! b)" "EndSlot (cached sp ! a) < EndSlot (cached sp ! b)"
proof -
  show "EndSlot (cached sp ! a) \<le> StartSlot (cached sp ! b)"
    using assms by (auto simp: cache_ok_def sorted_wrt_iff_nth_less)
  moreover have "StartSlot (cached sp ! b) < EndSlot (cached sp ! b)"
    using assms(1,3) by (simp add: cache_ok_def)
  ultimately show "EndSlot (cached sp ! a) < EndSlot (cached sp ! b)" by simp
qed

lemma getPartition_iff:
  assumes "cache_ok sp"
  shows "getPartition sp x = Some (p, i) \<longleftrightarrow> i < length (sp_partitions sp) \<and> p = cached sp ! i \<and>
    StartSlot p \<le> x \<and> x \<le> EndSlot p \<and> (\<forall>k<i. EndSlot (cached sp ! k) < x)"
proof -
  let ?n = "length (sp_partitions sp)"
  let ?f = "\<lambda>i. EndSlot (part_at sp i) \<ge> x"
  let ?pos = "sort_Search ?n ?f"
  have "?f b" if "a \<le> b" "b < ?n" "?f a" for a b
    using that cache_ok_ends(2) [OF assms, of a b] by (cases "a = b") auto
  then have mono: "\<forall>a b. a \<le> b \<and> b < ?n \<and> ?f a \<longrightarrow> ?f b" by blast
  note first = sort_Search_first [of ?n ?f, OF mono]
  have below: "EndSlot (cached sp ! k) < x" if "k < ?pos" for k
    using first(1) first(2) [OF that] that by simp
  have unique: "i = ?pos" if "i < ?n" "x \<le> EndSlot (cached sp ! i)" "\<forall>k<i. EndSlot (cached sp ! k) < x" for i
  proof (rule antisym)
    show "i \<le> ?pos"
    proof (rule ccontr)
      assume "\<not> i \<le> ?pos"
      then have pos: "?pos < i" "?pos < ?n" using that(1) by simp_all
      have "EndSlot (cached sp ! ?pos) < x" using that(3) pos(1) by simp
      moreover have "x \<le> EndSlot (cached sp ! ?pos)" using first(3) [OF pos(2)] pos(2) by simp
      ultimately show False by simp
    qed
    show "?pos \<le> i"
    proof (rule ccontr)
      assume "\<not> ?pos \<le> i"
      then have "EndSlot (cached sp ! i) < x" using below [of i] by simp
      then show False using that(2) by simp
    qed
  qed
  have eq: "getPartition sp x = (if ?pos \<ge> ?n \<or> x < StartSlot (part_at sp ?pos) then None
      else Some (part_at sp ?pos, ?pos))" by (simp add: getPartition_def Let_def)
  show ?thesis
  proof
    assume "getPartition sp x = Some (p, i)"
    then have i: "i = ?pos" "?pos < ?n" "p = part_at sp ?pos" "StartSlot p \<le> x"
      unfolding eq by (auto split: if_splits)
    then show "i < ?n \<and> p = cached sp ! i \<and> StartSlot p \<le> x \<and> x \<le> EndSlot p \<and> (\<forall>k<i. EndSlot (cached sp ! k) < x)"
      using first(3) below by auto
  next
    assume r: "i < ?n \<and> p = cached sp ! i \<and> StartSlot p \<le> x \<and> x \<le> EndSlot p \<and> (\<forall>k<i. EndSlot (cached sp ! k) < x)"
    then have "i = ?pos" using unique by blast
    then show "getPartition sp x = Some (p, i)" unfolding eq using r by auto
  qed
qed

section \<open>One variable for all the routes\<close>

lemma add_route_alias:
  assumes "sp_cells sp = [r]" "sp_partitions sp = replicate m 0"
  shows "add_route 0 route sp = \<lparr>sp_cells = [route], sp_partitions = replicate (Suc m) 0\<rparr>"
proof -
  let ?sp = "sp\<lparr>sp_cells := [route]\<rparr>"
  have part: "part_at ?sp i = rt_Partition route" if "i < m" for i
    using assms(2) that by (simp add: part_at_def)
  have "search_loop (\<lambda>i. StartSlot (rt_Partition route) \<le> EndSlot (part_at ?sp i)) a b =
      search_loop (\<lambda>i. StartSlot (rt_Partition route) \<le> EndSlot (rt_Partition route)) a b" if "b \<le> m" for a b
    using that
  proof (induction "b - a" arbitrary: a b rule: less_induct)
    case less
    then show ?case using part [of "(a + b) div 2"]
      by (subst (1 2) search_loop.simps) (auto simp: Let_def)
  qed
  then have pos: "sort_Search m (\<lambda>i. StartSlot (rt_Partition route) \<le> EndSlot (part_at ?sp i)) =
      (if StartSlot (rt_Partition route) \<le> EndSlot (rt_Partition route) then 0 else m)"
    using sort_Search_const [of m] by (simp add: sort_Search_def)
  show ?thesis
    using assms pos part [of 0] by (cases m) (auto simp: add_route_def Let_def replicate_append_same)
qed

lemma addRoutes_cells:
  assumes "routes \<noteq> []"
  shows "addRoutes NewSpace routes =
    \<lparr>sp_cells = [last routes], sp_partitions = replicate (length routes) 0\<rparr>"
proof -
  have "fold (add_route 0) routes \<lparr>sp_cells = [r], sp_partitions = replicate m 0\<rparr> =
      \<lparr>sp_cells = [last (r # routes)], sp_partitions = replicate (m + length routes) 0\<rparr>" for r m
  proof (induction routes arbitrary: r m)
    case (Cons route routes)
    then show ?case using Cons.IH [of route "Suc m"] add_route_alias [of "\<lparr>sp_cells = [r], sp_partitions = replicate m 0\<rparr>" r m route] by simp
  qed simp
  from this [of zero_Route 0] show ?thesis using assms by (simp add: addRoutes_def NewSpace_def Let_def)
qed

section \<open>Properties\<close>

text \<open>
  A lookup in a cache of disjoint ranges: a slot inside a cached partition is found there, unless
  it is the slot at which another cached partition ends.
\<close>

theorem getPartition_finds:
  assumes "cache_ok sp" "p \<in> set (cached sp)" "StartSlot p \<le> x" "x < EndSlot p"
    and "\<forall>q\<in>set (cached sp). EndSlot q \<noteq> x"
  shows "map_option fst (getPartition sp x) = Some p"
proof -
  obtain i where i: "i < length (sp_partitions sp)" "p = cached sp ! i"
    using assms(2) by (metis in_set_conv_nth length_cached)
  have "EndSlot (cached sp ! k) < x" if "k < i" for k
  proof -
    have "EndSlot (cached sp ! k) \<le> x" using cache_ok_ends(1) [OF assms(1) that i(1)] assms(3) i(2) by simp
    moreover have "cached sp ! k \<in> set (cached sp)" using that i(1) by simp
    ultimately show ?thesis using assms(5) by auto
  qed
  then have "getPartition sp x = Some (p, i)" using getPartition_iff [OF assms(1), of x p i] i assms(3,4) by simp
  then show ?thesis by simp
qed

abbreviation example_route :: Route where
  "example_route \<equiv> zero_Route\<lparr>rt_Partition := zero_Partition\<lparr>EndSlot := 7\<rparr>\<rparr>"

abbreviation example_cache :: router_Space where
  "example_cache \<equiv> \<lparr>sp_cells = [example_route,
     zero_Route\<lparr>rt_Partition := zero_Partition\<lparr>StartSlot := 7, EndSlot := 9\<rparr>\<rparr>], sp_partitions = [0, 1]\<rparr>"

theorem getPartition_finds_witness:
  "map_option fst (getPartition example_cache 8) = Some (zero_Partition\<lparr>StartSlot := 7, EndSlot := 9\<rparr>)"
  by (rule getPartition_finds) (simp_all add: cache_ok_def cached_def zero_Partition_def)

text \<open>
  C32: At a boundary the router and the zone master disagree: the range of a partition excludes its
  end slot, but the lookup accepts it, so the slot at which one cached partition ends and the
  one after it starts is routed to the first, which does not contain it.
\<close>

theorem getPartition_boundary:
  assumes "cache_ok sp" "Suc i < length (sp_partitions sp)"
    and "EndSlot (cached sp ! i) = x" "StartSlot (cached sp ! Suc i) = x"
  shows "map_option fst (getPartition sp x) = Some (cached sp ! i) \<and>
    \<not> x < EndSlot (cached sp ! i) \<and> x < EndSlot (cached sp ! Suc i)"
proof -
  have "StartSlot (cached sp ! i) < EndSlot (cached sp ! i)" "StartSlot (cached sp ! Suc i) < EndSlot (cached sp ! Suc i)"
    using assms(1,2) by (simp_all add: cache_ok_def)
  moreover have "EndSlot (cached sp ! k) < x" if "k < i" for k
    using cache_ok_ends(2) [OF assms(1) that] assms(2,3) by simp
  ultimately have "getPartition sp x = Some (cached sp ! i, i)"
    using getPartition_iff [OF assms(1), of x "cached sp ! i" i] assms(2,3) by simp
  then show ?thesis using assms(3,4) \<open>StartSlot (cached sp ! Suc i) < EndSlot (cached sp ! Suc i)\<close> by simp
qed

theorem getPartition_boundary_witness:
  "map_option fst (getPartition example_cache 7) = Some (cached example_cache ! 0) \<and>
    \<not> 7 < EndSlot (cached example_cache ! 0) \<and> 7 < EndSlot (cached example_cache ! Suc 0)"
  by (rule getPartition_boundary) (simp_all add: cache_ok_def cached_def zero_Partition_def)

text \<open>
  All the partitions that one answer of the master adds to an empty cache read the answer's
  final route: a slot is found only in that route's range.
\<close>

lemma getPartition_alias:
  assumes "routes \<noteq> []"
  shows "map_option fst (getPartition (addRoutes NewSpace routes) x) =
    (let p = rt_Partition (last routes) in if StartSlot p \<le> x \<and> x \<le> EndSlot p then Some p else None)"
proof -
  let ?sp = "\<lparr>sp_cells = [last routes], sp_partitions = replicate (length routes) 0\<rparr>"
  have part: "part_at ?sp i = rt_Partition (last routes)" if "i < length routes" for i
    using that by (simp add: part_at_def)
  have "sort_Search (length routes) (\<lambda>i. EndSlot (part_at ?sp i) \<ge> x) =
      (if EndSlot (rt_Partition (last routes)) \<ge> x then 0 else length routes)" (is "?pos = _")
  proof -
    have "\<forall>a b. a \<le> b \<and> b < length routes \<and> EndSlot (part_at ?sp a) \<ge> x \<longrightarrow> EndSlot (part_at ?sp b) \<ge> x"
      using part by auto
    note first = sort_Search_first [OF this]
    show ?thesis
    proof (cases "EndSlot (rt_Partition (last routes)) \<ge> x")
      case True
      then have "\<not> 0 < ?pos" using first(2) [of 0] part [of 0] assms by auto
      then show ?thesis using True by simp
    next
      case False
      then have "\<not> ?pos < length routes" using first(3) part [of ?pos] by auto
      then show ?thesis using False first(1) by simp
    qed
  qed
  then show ?thesis using part [of 0] assms
    by (simp add: addRoutes_cells [OF assms] getPartition_def Let_def not_less not_le)
qed

lemma getPartition_NewSpace: "getPartition NewSpace x = None"
  by (simp add: getPartition_def NewSpace_def sort_Search_def search_loop.simps)

text \<open>
  The routes the zone master returns for a slot are lost by the router: when a further partition
  starts where the slot's partition ends, the answer has several routes, and a router with an
  empty cache finds no partition for the slot it asked about.
\<close>

theorem router_loses_route:
  assumes "partition_tree ops ok items" "tree_ok ok items t"
    and "p \<in> set (items t)" "Contains p slot" "q \<in> set (items t)" "StartSlot q = EndSlot p"
    and "GetRoute ops servers t slot = Some routes"
  shows "snd (GetPartition NewSpace (\<lambda>_. routes) slot) = None"
proof -
  have some: "tree_search ops t slot = Some p"
    using partition_tree.search_iff [OF assms(1,2)] assms(3,4) by blast
  have tree: "ok t" "ranges_ok (items t)" using assms(2) by (auto simp: tree_ok_def)
  let ?ms = "multipleSearch ops t slot 10"
  have routes: "routes = map (route_of servers) ?ms" "?ms \<noteq> []"
    using assms(7) by (auto simp: GetRoute_def Let_def split: if_splits)
  let ?all = "partition_tree.from_on items t p"
  have run: "?ms = contiguous_run None (take 10 ?all)"
    using partition_tree.multipleSearch_eq [OF assms(1,2), of 10 slot] some by simp
  note props = partition_tree.from_on_props [OF assms(1) tree(1) assms(3)]
  obtain rest where rest: "take 10 ?all = ?ms @ rest" using contiguous_run_prefix(1) run by metis
  obtain more where ms: "?ms = p # more" using rest routes(2) props(2)
    by (metis hd_append2 hd_take list.collapse list.sel(1) zero_less_numeral)
  have "more \<noteq> []"
    using partition_tree.multipleSearch_maximal [OF assms(1,2), of 10 slot "[]" p q] ms assms(5,6) by auto
  define z where "z = last ?ms"
  have "z \<in> set more" using ms \<open>more \<noteq> []\<close> by (simp add: z_def)
  moreover have "sorted_wrt (\<lambda>p q. StartSlot p < StartSlot q) ?ms"
    using sorted_wrt_take [OF props(1), of 10] unfolding rest by (simp add: sorted_wrt_append)
  ultimately have less: "StartSlot p < StartSlot z" unfolding ms by simp
  have "z \<in> set (items t)"
    using partition_tree.multipleSearch_mem [OF assms(1,2), of 10 z slot] routes(2) by (simp add: z_def)
  moreover have "p \<noteq> z" using less by auto
  ultimately have "disjoint_ranges p z" "nonempty_range z" using tree(2) assms(3) unfolding ranges_ok_def by blast+
  then have "slot < StartSlot z" using less assms(4) by (auto simp: disjoint_ranges_def nonempty_range_def Contains_def)
  moreover have "last routes = route_of servers z" using routes by (simp add: z_def last_map)
  ultimately have "\<not> StartSlot (rt_Partition (last routes)) \<le> slot"
    by (simp add: route_of_def meta_of_def meta_Partition.defs not_le)
  then show ?thesis using getPartition_alias [of routes slot] routes
    by (simp add: GetPartition_def getPartition_NewSpace Let_def)
qed

abbreviation example_tree :: "zm_Partition list" where
  "example_tree \<equiv> [(slot_pivot 7)\<lparr>EndSlot := 9\<rparr>, (slot_pivot 0)\<lparr>EndSlot := 7\<rparr>]"

theorem router_loses_route_witness:
  "\<exists>routes. GetRoute list_itree Map.empty example_tree 3 = Some routes \<and>
     snd (GetPartition NewSpace (\<lambda>_. routes) 3) = None"
proof -
  have ok: "tree_ok (sorted_wrt PartitionItem_Less) (\<lambda>t. t) example_tree"
    by (simp add: tree_ok_def ranges_ok_def nonempty_range_def disjoint_ranges_def PartitionItem_Less_def)
  have "GetRoute list_itree Map.empty example_tree 3 \<noteq> None"
    by (simp add: GetRoute_def multipleSearch_def ascendScan_def tree_find_def list_itree_def
        PartitionItem_Less_def Contains_def Let_def)
  then obtain routes where "GetRoute list_itree Map.empty example_tree 3 = Some routes" by blast
  then show ?thesis
    using router_loses_route [OF lt.partition_tree_axioms ok, of "(slot_pivot 0)\<lparr>EndSlot := 7\<rparr>" 3 "(slot_pivot 7)\<lparr>EndSlot := 9\<rparr>"]
    by (simp add: Contains_def)
qed

end
