(* ===== verification/Topo_Ids.thy ===== *)
theory Topo_Ids
  imports Prelude
begin

text \<open>
  Identifiers: the counter both masters keep in the topology service (\<^verbatim>\<open>topo/topo_idgen.go\<close>) and
  the generators that hand out identifiers from blocks of it (\<^verbatim>\<open>gm/id_generator.go\<close>,
  \<^verbatim>\<open>zm/id_generator.go\<close>).  The service is outside the repository: its calls are a record over an
  abstract state, and the locale \<open>id_backend\<close> states what \<^verbatim>\<open>topo/backend.go\<close> documents of them for
  the counter's file; \<open>id_backend_up\<close> adds that the calls succeed.
\<close>

section \<open>The counter file\<close>

definition BytesToUint64 :: "bytes \<Rightarrow> u64" where
  "BytesToUint64 b = (if length b \<noteq> 8 then 0 else be_fold 0 b)"

definition Uint64ToBytes :: "u64 \<Rightarrow> bytes" where
  "Uint64ToBytes v = be_bytes 8 v"

lemma Uint64ToBytes_roundtrip [simp]: "BytesToUint64 (Uint64ToBytes v) = v"
proof -
  have "unat v < 2 ^ LENGTH(64)" by (rule unsigned_less)
  then have "unat v < 256 ^ 8" by simp
  from be_fold_be_bytes [OF this] show ?thesis by (simp add: BytesToUint64_def Uint64ToBytes_def del: be_bytes.simps)
qed

lemma Uint64ToBytes_length [simp]: "length (Uint64ToBytes v) = 8"
  by (simp add: Uint64ToBytes_def del: be_bytes.simps)

lemma Uint64ToBytes_0: "Uint64ToBytes 0 = replicate 8 0"
  by (simp add: Uint64ToBytes_def numeral_eq_Suc)

text \<open>The errors of \<^verbatim>\<open>topo/topo_server.go\<close> and \<^verbatim>\<open>etcd3topo/error.go\<close>; \<open>ErrClient\<close> stands for an error of the client library that is passed on.\<close>

datatype topo_err = ErrNodeExists | ErrNoNode | ErrNotEmpty | ErrTimeout | ErrInterrupted | ErrBadVersion | ErrPartialResult
  | ErrNoUpdateNeeded | ErrZoneNotExists | ErrInvalidPath | ErrClient | ErrBadResponse

record 'b topo_ops =
  be_Get :: "'b \<Rightarrow> 'b \<times> (topo_err, bytes \<times> nat) result"
  be_Create :: "'b \<Rightarrow> bytes \<Rightarrow> 'b \<times> (topo_err, nat) result"
  be_Update :: "'b \<Rightarrow> bytes \<Rightarrow> nat \<Rightarrow> 'b \<times> (topo_err, nat) result"

text \<open>
  The loop of \<^verbatim>\<open>GenerateNewId\<close>.  It gives up when its counter reaches 3, so the body runs at most
  twice; the argument is the number of runs left.
\<close>

fun gen_loop :: "'b topo_ops \<Rightarrow> u64 \<Rightarrow> nat \<Rightarrow> 'b \<Rightarrow> 'b \<times> (topo_err, u64 \<times> u64) result" where
  "gen_loop ops step 0 st = (st, Err ErrBadVersion)"
| "gen_loop ops step (Suc left) st =
     (case be_Get ops st of (st1, r) \<Rightarrow>
       (case r of
          Panic \<Rightarrow> (st1, Panic)
        | Err e \<Rightarrow>
            if e \<noteq> ErrNoNode then (st1, Err e)
            else gen_loop ops step left (fst (be_Create ops st1 (replicate 8 0)))
        | Ok (contents, version) \<Rightarrow>
            if length contents = 0 then (st1, Err ErrNoNode)
            else
              let start = BytesToUint64 contents; end' = start + step in
              (case be_Update ops st1 (Uint64ToBytes end') version of (st2, u) \<Rightarrow>
                (case u of
                   Panic \<Rightarrow> (st2, Panic)
                 | Err e \<Rightarrow> if e \<noteq> ErrBadVersion then (st2, Err e) else gen_loop ops step left st2
                 | Ok _ \<Rightarrow> (st2, Ok (start, end'))))))"

definition GenerateNewId :: "'b topo_ops \<Rightarrow> u64 \<Rightarrow> 'b \<Rightarrow> 'b \<times> (topo_err, u64 \<times> u64) result" where
  "GenerateNewId ops step st = gen_loop ops step 2 st"

section \<open>The contract of the service\<close>

text \<open>
  \<open>cfile\<close> is the counter's file: its contents and version.  An update with a version that is not
  current is refused; one that fails otherwise may have been applied.
\<close>

locale id_backend =
  fixes ops :: "'b topo_ops" and cfile :: "'b \<Rightarrow> (bytes \<times> nat) option"
  assumes Get_keeps: "cfile (fst (be_Get ops st)) = cfile st"
    and Get_Ok: "snd (be_Get ops st) = Ok cv \<Longrightarrow> cfile st = Some cv"
    and Create_Ok: "snd (be_Create ops st c) = Ok v \<Longrightarrow> cfile st = None \<and> cfile (fst (be_Create ops st c)) = Some (c, v)"
    and Update_Ok: "cfile st = Some (c0, v0) \<Longrightarrow> snd (be_Update ops st c v) = Ok w \<Longrightarrow>
      v = v0 \<and> cfile (fst (be_Update ops st c v)) = Some (c, w)"
    and Update_BadVersion: "snd (be_Update ops st c v) = Err ErrBadVersion \<Longrightarrow> cfile (fst (be_Update ops st c v)) = cfile st"
begin

text \<open>A block that was handed out started at the counter, and the counter is moved to its end.\<close>

lemma gen_loop_block:
  assumes "gen_loop ops step n st = (st', Ok (s, e))"
  shows "e = s + step \<and> (\<exists>w. cfile st' = Some (Uint64ToBytes e, w))"
  using assms
proof (induction n arbitrary: st)
  case (Suc n)
  obtain st1 g where get: "be_Get ops st = (st1, g)" by (cases "be_Get ops st")
  show ?case
  proof (cases g)
    case (Ok cv)
    obtain c v where cv: "cv = (c, v)" by (cases cv)
    obtain st2 u where upd: "be_Update ops st1 (Uint64ToBytes (BytesToUint64 c + step)) v = (st2, u)"
      by (cases "be_Update ops st1 (Uint64ToBytes (BytesToUint64 c + step)) v")
    show ?thesis
    proof (cases u)
      case u: (Ok w)
      then have "st' = st2 \<and> s = BytesToUint64 c \<and> e = BytesToUint64 c + step"
        using Suc.prems get Ok cv upd by (auto simp: Let_def split: if_splits)
      moreover have "cfile st2 = Some (Uint64ToBytes (BytesToUint64 c + step), w)"
        using Update_Ok [of st1 c v "Uint64ToBytes (BytesToUint64 c + step)" v w] upd u
          Get_Ok [of st] Get_keeps [of st] get Ok cv by simp
      ultimately show ?thesis by simp
    qed (use Suc get Ok cv upd in \<open>auto simp: Let_def split: if_splits\<close>)
  qed (use Suc get in \<open>auto split: if_splits\<close>)
qed simp

end

locale id_backend_up = id_backend +
  assumes Get_up: "snd (be_Get ops st) = (case cfile st of Some cv \<Rightarrow> Ok cv | None \<Rightarrow> Err ErrNoNode)"
    and Create_up: "cfile st = None \<Longrightarrow> \<exists>v. snd (be_Create ops st c) = Ok v"
    and Update_up: "cfile st = Some (c0, v) \<Longrightarrow> \<exists>w. snd (be_Update ops st c v) = Ok w"
begin

text \<open>\<open>counter v st\<close>: the counter is \<open>v\<close>; a missing file counts as 0.\<close>

definition counter :: "u64 \<Rightarrow> 'a \<Rightarrow> bool" where
  "counter v st = (case cfile st of None \<Rightarrow> v = 0 | Some (c, _) \<Rightarrow> c = Uint64ToBytes v)"

lemma gen_loop_present:
  assumes "cfile st = Some (Uint64ToBytes v, ver)"
  shows "\<exists>st' w. gen_loop ops step (Suc n) st = (st', Ok (v, v + step)) \<and> cfile st' = Some (Uint64ToBytes (v + step), w)"
proof -
  obtain st1 where get: "be_Get ops st = (st1, Ok (Uint64ToBytes v, ver))" using Get_up [of st] assms
    by (metis option.simps(5) prod.collapse)
  have st1: "cfile st1 = Some (Uint64ToBytes v, ver)" using Get_keeps [of st] assms get by simp
  obtain st2 w where upd: "be_Update ops st1 (Uint64ToBytes (v + step)) ver = (st2, Ok w)"
    using Update_up [OF st1] by (metis prod.collapse)
  have "cfile st2 = Some (Uint64ToBytes (v + step), w)" using Update_Ok [OF st1, of "Uint64ToBytes (v + step)" ver w] upd by simp
  moreover have "Uint64ToBytes v \<noteq> []" using Uint64ToBytes_length [of v] by (metis list.size(3) zero_neq_numeral)
  ultimately show ?thesis using get upd by simp
qed

lemma GenerateNewId_up:
  assumes "counter v st"
  shows "\<exists>st'. GenerateNewId ops step st = (st', Ok (v, v + step)) \<and> counter (v + step) st'"
proof (cases "cfile st")
  case (Some cv)
  then obtain ver where present: "cfile st = Some (Uint64ToBytes v, ver)" using assms by (cases cv) (simp add: counter_def)
  show ?thesis using gen_loop_present [OF present, of step 1]
    by (auto simp: GenerateNewId_def numeral_2_eq_2 counter_def simp del: gen_loop.simps)
next
  case None
  then have v: "v = 0" using assms by (simp add: counter_def)
  obtain st1 where get: "be_Get ops st = (st1, Err ErrNoNode)" using Get_up [of st] None
    by (metis option.simps(4) prod.collapse)
  have "cfile st1 = None" using Get_keeps [of st] None get by simp
  then obtain w where "cfile (fst (be_Create ops st1 (replicate 8 0))) = Some (replicate 8 0, w)"
    using Create_up [of st1] Create_Ok [of st1] by blast
  then have present: "cfile (fst (be_Create ops st1 (replicate 8 0))) = Some (Uint64ToBytes 0, w)" by (simp add: Uint64ToBytes_0)
  have "gen_loop ops step 2 st = gen_loop ops step (Suc 0) (fst (be_Create ops st1 (replicate 8 0)))"
    using get by (subst numeral_2_eq_2) (subst gen_loop.simps(2), simp del: gen_loop.simps)
  then show ?thesis using gen_loop_present [OF present, of step 0] v
    by (auto simp: GenerateNewId_def counter_def simp del: gen_loop.simps)
qed

end

section \<open>The generators\<close>

record id_gen =
  ig_base :: u64
  ig_end :: u64

definition new_gen :: id_gen where
  "new_gen = \<lparr>ig_base = 0, ig_end = 0\<rparr>"

definition GEN_STEP :: u64 where
  "GEN_STEP = 100"

text \<open>
  One call of the zone master's \<^verbatim>\<open>GenID\<close> with no other call in between: \<^verbatim>\<open>AddUint64\<close>, then \<^verbatim>\<open>base\<close> is
  read again.
\<close>

definition zm_GenID :: "'b topo_ops \<Rightarrow> id_gen \<times> 'b \<Rightarrow> (id_gen \<times> 'b) \<times> (topo_err, u64) result" where
  "zm_GenID ops s =
     (case s of (g, st) \<Rightarrow>
        if ig_base g = ig_end g then
          (case GenerateNewId ops GEN_STEP st of
             (st', Ok (start, end')) \<Rightarrow> ((\<lparr>ig_base = start + 1, ig_end = end'\<rparr>, st'), Ok (start + 1))
           | (st', Err e) \<Rightarrow> ((g, st'), Err e)
           | (st', Panic) \<Rightarrow> ((g, st'), Panic))
        else ((g\<lparr>ig_base := ig_base g + 1\<rparr>, st), Ok (ig_base g + 1)))"

text \<open>
  The global master's \<^verbatim>\<open>GenID\<close> returns the start of a new block itself.  On an error it unlocks its
  mutex and then its deferred unlock runs: unlocking an unlocked mutex ends the process.
\<close>

definition gm_GenID :: "'b topo_ops \<Rightarrow> id_gen \<times> 'b \<Rightarrow> (id_gen \<times> 'b) \<times> (topo_err, u64) result" where
  "gm_GenID ops s =
     (case s of (g, st) \<Rightarrow>
        if ig_base g = ig_end g then
          (case GenerateNewId ops GEN_STEP st of
             (st', Ok (start, end')) \<Rightarrow> ((\<lparr>ig_base = start, ig_end = end'\<rparr>, st'), Ok start)
           | (st', Err e) \<Rightarrow> ((g, st'), Panic)
           | (st', Panic) \<Rightarrow> ((g, st'), Panic))
        else ((g\<lparr>ig_base := ig_base g + 1\<rparr>, st), Ok (ig_base g + 1)))"

text \<open>The answers of a sequence of calls.\<close>

fun gen_ids :: "('s \<Rightarrow> 's \<times> 'r) \<Rightarrow> nat \<Rightarrow> 's \<Rightarrow> 's \<times> 'r list" where
  "gen_ids f 0 s = (s, [])"
| "gen_ids f (Suc k) s = (case f s of (s1, r) \<Rightarrow> case gen_ids f k s1 of (s2, rs) \<Rightarrow> (s2, r # rs))"

lemma gen_ids_add:
  "gen_ids f (j + k) s = (case gen_ids f j s of (s1, rs) \<Rightarrow> case gen_ids f k s1 of (s2, qs) \<Rightarrow> (s2, rs @ qs))"
  by (induction j arbitrary: s) (auto split: prod.splits)

lemma u64_plus_neq: "unat (n :: u64) + k < 2 ^ 64 \<Longrightarrow> 0 < k \<Longrightarrow> n + of_nat k \<noteq> n"
proof -
  assume a: "unat n + k < 2 ^ 64" "0 < k"
  then have k: "unat (of_nat k :: u64) = k" by (simp add: unat_of_nat)
  have "unat (n + of_nat k) = unat n + k" using a k by (simp add: unat_word_ariths)
  then show ?thesis using a by auto
qed

lemma unat_plus_of_nat: "unat (n :: u64) + k < 2 ^ 64 \<Longrightarrow> unat (n + of_nat k) = unat n + k"
proof -
  assume a: "unat n + k < 2 ^ 64"
  then have "unat (of_nat k :: u64) = k" by (simp add: unat_of_nat)
  then show ?thesis using a by (simp add: unat_word_ariths)
qed

text \<open>Within a block the calls of either generator count up.\<close>

definition counts_up :: "(id_gen \<times> 'b \<Rightarrow> (id_gen \<times> 'b) \<times> (topo_err, u64) result) \<Rightarrow> bool" where
  "counts_up f = (\<forall>b e st. b \<noteq> e \<longrightarrow>
     f (\<lparr>ig_base = b, ig_end = e\<rparr>, st) = ((\<lparr>ig_base = b + 1, ig_end = e\<rparr>, st), Ok (b + 1)))"

lemma counts_up_gens [simp]: "counts_up (zm_GenID ops)" "counts_up (gm_GenID ops)"
  by (simp_all add: counts_up_def zm_GenID_def gm_GenID_def)

lemma block_ids:
  assumes "counts_up f" "unat b + m < 2 ^ 64" "k \<le> m"
  shows "gen_ids f k (\<lparr>ig_base = b, ig_end = b + of_nat m\<rparr>, st) =
    ((\<lparr>ig_base = b + of_nat k, ig_end = b + of_nat m\<rparr>, st), map (\<lambda>i. Ok (b + of_nat (Suc i))) [0..<k])"
  using assms(3)
proof (induction k)
  case (Suc k)
  have "unat (b + of_nat k) = unat b + k" "unat (b + of_nat m) = unat b + m"
    using unat_plus_of_nat [of b] Suc.prems assms(2) by simp_all
  then have ne: "b + of_nat k \<noteq> b + of_nat m" using Suc.prems by auto
  have "f (\<lparr>ig_base = b + of_nat k, ig_end = b + of_nat m\<rparr>, st) =
      ((\<lparr>ig_base = b + of_nat k + 1, ig_end = b + of_nat m\<rparr>, st), Ok (b + of_nat k + 1))"
    using assms(1) ne unfolding counts_up_def by blast
  then have "gen_ids f (k + 1) (\<lparr>ig_base = b, ig_end = b + of_nat m\<rparr>, st) =
      ((\<lparr>ig_base = b + of_nat (Suc k), ig_end = b + of_nat m\<rparr>, st), map (\<lambda>i. Ok (b + of_nat (Suc i))) [0..<Suc k])"
    unfolding gen_ids_add using Suc by (simp add: algebra_simps)
  then show ?case by simp
qed simp

context id_backend_up
begin

lemma zm_first:
  assumes "counter n st"
  shows "\<exists>st'. zm_GenID ops (\<lparr>ig_base = b, ig_end = b\<rparr>, st) = ((\<lparr>ig_base = n + 1, ig_end = n + 100\<rparr>, st'), Ok (n + 1)) \<and>
    counter (n + 100) st'"
  using GenerateNewId_up [OF assms, of GEN_STEP] by (auto simp: zm_GenID_def GEN_STEP_def)

lemma gm_first:
  assumes "counter n st"
  shows "\<exists>st'. gm_GenID ops (\<lparr>ig_base = b, ig_end = b\<rparr>, st) = ((\<lparr>ig_base = n, ig_end = n + 100\<rparr>, st'), Ok n) \<and>
    counter (n + 100) st'"
  using GenerateNewId_up [OF assms, of GEN_STEP] by (auto simp: gm_GenID_def GEN_STEP_def)

lemma zm_whole_block:
  assumes "counter n st" "unat n + 100 < 2 ^ 64" "0 < k" "k \<le> 100"
  shows "\<exists>st'. gen_ids (zm_GenID ops) k (\<lparr>ig_base = b, ig_end = b\<rparr>, st) =
    ((\<lparr>ig_base = n + of_nat k, ig_end = n + 100\<rparr>, st'), map (\<lambda>i. Ok (n + of_nat (Suc i))) [0..<k]) \<and> counter (n + 100) st'"
proof -
  obtain st' where st': "zm_GenID ops (\<lparr>ig_base = b, ig_end = b\<rparr>, st) = ((\<lparr>ig_base = n + 1, ig_end = n + 100\<rparr>, st'), Ok (n + 1))"
      "counter (n + 100) st'" using zm_first [OF assms(1)] by blast
  have u: "unat (n + 1) = unat n + 1" using unat_plus_of_nat [of n 1] assms(2) by simp
  have e: "n + 1 + of_nat 99 = n + 100" by simp
  have "gen_ids (zm_GenID ops) (k - 1) (\<lparr>ig_base = n + 1, ig_end = n + 1 + of_nat 99\<rparr>, st') =
      ((\<lparr>ig_base = n + 1 + of_nat (k - 1), ig_end = n + 1 + of_nat 99\<rparr>, st'),
       map (\<lambda>i. Ok (n + 1 + of_nat (Suc i))) [0..<k - 1])"
    by (rule block_ids) (use u assms in auto)
  then have tail: "gen_ids (zm_GenID ops) (k - 1) (\<lparr>ig_base = n + 1, ig_end = n + 100\<rparr>, st') =
      ((\<lparr>ig_base = n + of_nat k, ig_end = n + 100\<rparr>, st'), map (\<lambda>i. Ok (n + of_nat (Suc (Suc i)))) [0..<k - 1])"
    using assms(3) unfolding e by (cases k) (simp_all add: algebra_simps)
  have "gen_ids (zm_GenID ops) (Suc (k - 1)) (\<lparr>ig_base = b, ig_end = b\<rparr>, st) =
      ((\<lparr>ig_base = n + of_nat k, ig_end = n + 100\<rparr>, st'), Ok (n + 1) # map (\<lambda>i. Ok (n + of_nat (Suc (Suc i)))) [0..<k - 1])"
    using st'(1) tail by simp
  moreover have "map (\<lambda>i. Ok (n + of_nat (Suc i)) :: (topo_err, u64) result) [0..<k] = Ok (n + 1) # map (\<lambda>i. Ok (n + of_nat (Suc (Suc i)))) [0..<k - 1]"
    using assms(3) by (cases k) (simp_all add: upt_conv_Cons map_Suc_upt [symmetric] del: upt_Suc)
  ultimately show ?thesis using st'(2) assms(3) by (intro exI [of _ st']) simp
qed

lemma zm_ids_aux:
  assumes "counter n st" "unat n + k + 100 < 2 ^ 64"
  shows "snd (gen_ids (zm_GenID ops) k (\<lparr>ig_base = b, ig_end = b\<rparr>, st)) = map (\<lambda>i. Ok (n + of_nat (Suc i))) [0..<k]"
  using assms
proof (induction k arbitrary: n st b rule: less_induct)
  case (less k)
  show ?case
  proof (cases "k \<le> 100")
    case True
    then show ?thesis using zm_whole_block [OF less.prems(1), of k b] less.prems(2) by (cases "k = 0") auto
  next
    case False
    define j where "j = k - 100"
    have k: "k = 100 + j" "j < k" using False by (simp_all add: j_def)
    obtain st' where block: "gen_ids (zm_GenID ops) 100 (\<lparr>ig_base = b, ig_end = b\<rparr>, st) =
        ((\<lparr>ig_base = n + 100, ig_end = n + 100\<rparr>, st'), map (\<lambda>i. Ok (n + of_nat (Suc i))) [0..<100])" "counter (n + 100) st'"
      using zm_whole_block [OF less.prems(1), of 100 b] less.prems(2) by auto
    have "unat (n + 100) = unat n + 100" using unat_plus_of_nat [of n 100] less.prems(2) by simp
    then have "snd (gen_ids (zm_GenID ops) j (\<lparr>ig_base = n + 100, ig_end = n + 100\<rparr>, st')) =
        map (\<lambda>i. Ok (n + 100 + of_nat (Suc i))) [0..<j]"
      using less.IH [OF k(2) block(2)] less.prems(2) k(1) by simp
    moreover have "map (\<lambda>i. Ok (n + of_nat (Suc i)) :: (topo_err, u64) result) [0..<100 + j] =
        map (\<lambda>i. Ok (n + of_nat (Suc i))) [0..<100] @ map (\<lambda>i. Ok (n + 100 + of_nat (Suc i))) [0..<j]"
      by (rule nth_equalityI) (auto simp: nth_append of_nat_diff algebra_simps)
    ultimately show ?thesis unfolding k(1) gen_ids_add block(1)
      by (cases "gen_ids (zm_GenID ops) j (\<lparr>ig_base = n + 100, ig_end = n + 100\<rparr>, st')") simp
  qed
qed

end

section \<open>A service that keeps the contract\<close>

definition cell_backend :: "(bytes \<times> nat) option topo_ops" where
  "cell_backend = \<lparr>
     be_Get = (\<lambda>st. (st, case st of Some cv \<Rightarrow> Ok cv | None \<Rightarrow> Err ErrNoNode)),
     be_Create = (\<lambda>st c. case st of None \<Rightarrow> (Some (c, 1), Ok 1) | Some _ \<Rightarrow> (st, Err ErrNodeExists)),
     be_Update = (\<lambda>st c v. case st of
         Some (c0, w) \<Rightarrow> if v = w then (Some (c, Suc w), Ok (Suc w)) else (st, Err ErrBadVersion)
       | None \<Rightarrow> (st, Err ErrNoNode))\<rparr>"

interpretation cb: id_backend_up cell_backend "\<lambda>st. st"
  by unfold_locales (auto simp: cell_backend_def split: option.splits if_splits)

section \<open>Properties\<close>

text \<open>
  A block that is handed out: whatever calls fail on the way, the block that \<^verbatim>\<open>GenerateNewId\<close> returns has the
  size asked for, and the counter is then at its end.
\<close>

theorem GenerateNewId_block:
  assumes "id_backend ops cfile" "GenerateNewId ops step st = (st', Ok (s, e))"
  shows "e = s + step \<and> (\<exists>w. cfile st' = Some (Uint64ToBytes e, w))"
  using id_backend.gen_loop_block [OF assms(1)] assms(2) by (simp add: GenerateNewId_def)

theorem GenerateNewId_block_witness:
  "(100 :: u64) = 0 + 100 \<and> (\<exists>w. Some (Uint64ToBytes 100, 2) = Some (Uint64ToBytes 100, w :: nat))"
proof -
  have "GenerateNewId cell_backend 100 None = (Some (Uint64ToBytes 100, 2), Ok (0, 100))"
    by (simp add: GenerateNewId_def numeral_2_eq_2 cell_backend_def BytesToUint64_def numeral_eq_Suc Let_def)
  from GenerateNewId_block [OF cb.id_backend_axioms this] show ?thesis .
qed

text \<open>
  The zone master's identifiers: called in sequence, with a service that is up and no other
  client, the calls return consecutive identifiers, across all the blocks they use; none is
  returned twice.
\<close>

theorem zm_ids_consecutive:
  assumes "id_backend_up ops cfile" "cfile st = Some (Uint64ToBytes n, v)" "unat n + k + 100 < 2 ^ 64"
  shows "snd (gen_ids (zm_GenID ops) k (new_gen, st)) = map (\<lambda>i. Ok (n + of_nat (Suc i))) [0..<k]"
  unfolding new_gen_def
  by (rule id_backend_up.zm_ids_aux [OF assms(1) _ assms(3)])
    (simp add: id_backend_up.counter_def [OF assms(1)] assms(2))

theorem zm_ids_consecutive_witness:
  "snd (gen_ids (zm_GenID cell_backend) 250 (new_gen, Some (Uint64ToBytes 7, 1))) =
     map (\<lambda>i. Ok (7 + of_nat (Suc i))) [0..<250]"
  by (rule zm_ids_consecutive [OF cb.id_backend_up_axioms]) simp_all

text \<open>
  The global master's identifiers repeat: the end of every block is returned as its final identifier and again
  as the first of the following block, so that of 102 calls in sequence the final two return the same.
\<close>

theorem gm_id_repeated:
  assumes "id_backend_up ops cfile" "cfile st = Some (Uint64ToBytes n, v)" "unat n + 200 < 2 ^ 64"
  shows "snd (gen_ids (gm_GenID ops) 102 (new_gen, st)) =
    map (\<lambda>i. Ok (n + of_nat i)) [0..<101] @ [Ok (n + 100)]"
proof -
  have c: "id_backend_up.counter cfile n st" by (simp add: id_backend_up.counter_def [OF assms(1)] assms(2))
  obtain st1 where one: "gm_GenID ops (new_gen, st) = ((\<lparr>ig_base = n, ig_end = n + 100\<rparr>, st1), Ok n)"
      "id_backend_up.counter cfile (n + 100) st1"
    using id_backend_up.gm_first [OF assms(1) c, of 0] by (auto simp: new_gen_def)
  have block: "gen_ids (gm_GenID ops) 100 (\<lparr>ig_base = n, ig_end = n + 100\<rparr>, st1) =
      ((\<lparr>ig_base = n + 100, ig_end = n + 100\<rparr>, st1), map (\<lambda>i. Ok (n + of_nat (Suc i))) [0..<100])"
    using block_ids [OF counts_up_gens(2), of n 100 100 ops st1] assms(3) by simp
  obtain st2 where again: "gm_GenID ops (\<lparr>ig_base = n + 100, ig_end = n + 100\<rparr>, st1) =
      ((\<lparr>ig_base = n + 100, ig_end = n + 100 + 100\<rparr>, st2), Ok (n + 100))"
    using id_backend_up.gm_first [OF assms(1) one(2), of "n + 100"] by blast
  have "gen_ids (gm_GenID ops) (Suc (100 + Suc 0)) (new_gen, st) =
      ((\<lparr>ig_base = n + 100, ig_end = n + 100 + 100\<rparr>, st2), Ok n # map (\<lambda>i. Ok (n + of_nat (Suc i))) [0..<100] @ [Ok (n + 100)])"
    unfolding gen_ids.simps(2) [of _ "100 + Suc 0"] one(1) gen_ids_add by (simp add: block again)
  moreover have "Ok n # map (\<lambda>i. Ok (n + of_nat (Suc i))) [0..<100] = (map (\<lambda>i. Ok (n + of_nat i)) [0..<101] :: (topo_err, u64) result list)"
    by (rule nth_equalityI) (auto simp: nth_Cons split: nat.splits)
  ultimately show ?thesis by simp
qed

theorem gm_id_repeated_witness:
  "snd (gen_ids (gm_GenID cell_backend) 102 (new_gen, Some (Uint64ToBytes 7, 1))) =
     map (\<lambda>i. Ok (7 + of_nat i)) [0..<101] @ [Ok (7 + 100)]"
  by (rule gm_id_repeated [OF cb.id_backend_up_axioms]) simp_all

text \<open>An error of the service ends the global master.\<close>

lemma gm_error_fatal:
  "ig_base g = ig_end g \<Longrightarrow> GenerateNewId ops GEN_STEP st = (st', Err e) \<Longrightarrow> snd (gm_GenID ops (g, st)) = Panic"
  by (simp add: gm_GenID_def)

end
