(* ===== verification/Topo_Race.thy ===== *)
theory Topo_Race
  imports Topo_Ids
begin

text \<open>
  Identifiers under concurrency.  First the counter itself: any number of masters run the body of
  \<^verbatim>\<open>GenerateNewId\<close> at the same time, and its steps, the read and the conditional update, interleave
  freely.  Then the callers of one \<^verbatim>\<open>GenID\<close> in the zone master, which test \<^verbatim>\<open>base\<close> against \<^verbatim>\<open>end\<close>
  and add to \<^verbatim>\<open>base\<close> outside the lock.
\<close>

section \<open>Masters sharing the counter\<close>

datatype client = Idle | HasRead u64 nat

record counter_state =
  ct_value :: u64
  ct_version :: nat
  ct_client :: "nat \<Rightarrow> client"
  ct_blocks :: "(u64 \<times> u64) list"

text \<open>A client reads; its update succeeds on the current version and is refused on another.\<close>

inductive counter_step :: "u64 \<Rightarrow> counter_state \<Rightarrow> counter_state \<Rightarrow> bool" for step where
  get: "counter_step step s (s\<lparr>ct_client := (ct_client s)(c := HasRead (ct_value s) (ct_version s))\<rparr>)"
| update: "ct_client s c = HasRead start ver \<Longrightarrow> ver = ct_version s \<Longrightarrow>
    counter_step step s (s\<lparr>ct_value := start + step, ct_version := Suc (ct_version s),
      ct_client := (ct_client s)(c := Idle), ct_blocks := ct_blocks s @ [(start, start + step)]\<rparr>)"
| refused: "ct_client s c = HasRead start ver \<Longrightarrow> ver \<noteq> ct_version s \<Longrightarrow>
    counter_step step s (s\<lparr>ct_client := (ct_client s)(c := Idle)\<rparr>)"

definition counter_init :: "u64 \<Rightarrow> counter_state" where
  "counter_init v = \<lparr>ct_value = v, ct_version = 0, ct_client = (\<lambda>_. Idle), ct_blocks = []\<rparr>"

definition counter_inv :: "u64 \<Rightarrow> u64 \<Rightarrow> counter_state \<Rightarrow> bool" where
  "counter_inv step v s = (ct_value s = v + of_nat (length (ct_blocks s)) * step \<and>
     (\<forall>i<length (ct_blocks s). ct_blocks s ! i = (v + of_nat i * step, v + of_nat (Suc i) * step)) \<and>
     (\<forall>c start ver. ct_client s c = HasRead start ver \<longrightarrow>
        ver \<le> ct_version s \<and> (ver = ct_version s \<longrightarrow> start = ct_value s)))"

lemma counter_inv_step:
  assumes "counter_step step s s'" "counter_inv step v s"
  shows "counter_inv step v s'"
  using assms(1)
proof cases
  case (update c start ver)
  have start: "start = ct_value s" using update(2,3) assms(2) unfolding counter_inv_def by blast
  have val: "ct_value s = v + of_nat (length (ct_blocks s)) * step" using assms(2) by (simp add: counter_inv_def)
  have "\<forall>i<length (ct_blocks s'). ct_blocks s' ! i = (v + of_nat i * step, v + of_nat (Suc i) * step)"
    using assms(2) start val update(1)
    by (auto simp: counter_inv_def nth_append less_Suc_eq algebra_simps)
  moreover have "ver' \<le> ct_version s' \<and> (ver' = ct_version s' \<longrightarrow> start' = ct_value s')"
    if "ct_client s' c' = HasRead start' ver'" for c' start' ver'
  proof -
    have "ct_client s c' = HasRead start' ver'" using that update(1) by (simp split: if_splits)
    then have "ver' \<le> ct_version s" using assms(2) unfolding counter_inv_def by blast
    then show ?thesis using update(1) by simp
  qed
  ultimately show ?thesis using start val update(1) by (simp add: counter_inv_def algebra_simps)
qed (use assms(2) in \<open>auto simp: counter_inv_def\<close>)

lemma counter_inv_run: "(counter_step step)\<^sup>*\<^sup>* (counter_init v) s \<Longrightarrow> counter_inv step v s"
proof (induction rule: rtranclp_induct)
  case base
  then show ?case by (simp add: counter_init_def counter_inv_def)
qed (rule counter_inv_step)

section \<open>Callers of one generator\<close>

datatype caller = Enter | WantLock | HoldLock | BeforeAdd | BeforeRead | Returned u64

record gen_state =
  gs_base :: u64
  gs_end :: u64
  gs_lock :: "nat option"
  gs_counter :: u64
  gs_caller :: "nat \<Rightarrow> caller"

text \<open>
  The statements of the zone master's \<^verbatim>\<open>GenID\<close> that touch the shared generator; the service is up, so a new block is the
  one from its counter.
\<close>

definition goto :: "nat \<Rightarrow> caller \<Rightarrow> gen_state \<Rightarrow> gen_state" where
  "goto t pc s = s\<lparr>gs_caller := (gs_caller s)(t := pc)\<rparr>"

inductive genid_step :: "gen_state \<Rightarrow> gen_state \<Rightarrow> bool" where
  nonempty: "gs_caller s t = Enter \<Longrightarrow> gs_base s \<noteq> gs_end s \<Longrightarrow> genid_step s (goto t BeforeAdd s)"
| empty: "gs_caller s t = Enter \<Longrightarrow> gs_base s = gs_end s \<Longrightarrow> genid_step s (goto t WantLock s)"
| lock: "gs_caller s t = WantLock \<Longrightarrow> gs_lock s = None \<Longrightarrow> genid_step s (goto t HoldLock (s\<lparr>gs_lock := Some t\<rparr>))"
| refill: "gs_caller s t = HoldLock \<Longrightarrow> gs_base s = gs_end s \<Longrightarrow>
    genid_step s (goto t BeforeAdd (s\<lparr>gs_base := gs_counter s, gs_end := gs_counter s + GEN_STEP,
      gs_counter := gs_counter s + GEN_STEP, gs_lock := None\<rparr>))"
| recheck: "gs_caller s t = HoldLock \<Longrightarrow> gs_base s \<noteq> gs_end s \<Longrightarrow>
    genid_step s (goto t BeforeAdd (s\<lparr>gs_lock := None\<rparr>))"
| add: "gs_caller s t = BeforeAdd \<Longrightarrow> genid_step s (goto t BeforeRead (s\<lparr>gs_base := gs_base s + 1\<rparr>))"
| ret: "gs_caller s t = BeforeRead \<Longrightarrow> genid_step s (goto t (Returned (gs_base s)) s)"

definition gen_start :: "u64 \<Rightarrow> gen_state" where
  "gen_start n = \<lparr>gs_base = 0, gs_end = 0, gs_lock = None, gs_counter = n, gs_caller = (\<lambda>_. Enter)\<rparr>"

section \<open>Properties\<close>



text \<open>
  Two callers of one generator may get the same identifier: from the start there is a run of the zone
  master's \<^verbatim>\<open>GenID\<close> in which two callers return the same value, since \<^verbatim>\<open>base\<close> is read again after the
  atomic addition.
\<close>

theorem zm_GenID_race:
  "\<exists>s. genid_step\<^sup>*\<^sup>* (gen_start n) s \<and> gs_caller s 0 = Returned (n + 2) \<and> gs_caller s 1 = Returned (n + 2)"
proof -
  let ?b = "\<lambda>base f. \<lparr>gs_base = base, gs_end = n + GEN_STEP, gs_lock = None, gs_counter = n + GEN_STEP, gs_caller = f\<rparr>"
  let ?f = "\<lambda>a b. (\<lambda>_. Enter)(0 := a, Suc 0 := b)"
  let ?g = "\<lambda>a b. \<lparr>gs_base = 0, gs_end = 0, gs_lock = a, gs_counter = n, gs_caller = (\<lambda>_. Enter)(0 := b)\<rparr>"
  have f: "?f a Enter = (\<lambda>_. Enter)(0 := a)" for a by auto
  have n: "n \<noteq> n + GEN_STEP" by (simp add: GEN_STEP_def)
  have "genid_step (gen_start n) (?g None WantLock)"
    using empty [of "gen_start n" 0] by (simp add: gen_start_def goto_def)
  also have "genid_step\<^sup>*\<^sup>* \<dots> (?g (Some 0) HoldLock)"
    using lock [of "?g None WantLock" 0] by (auto simp: goto_def)
  also have "genid_step\<^sup>*\<^sup>* \<dots> (?b n (?f BeforeAdd Enter))"
    using refill [of "?g (Some 0) HoldLock" 0] by (auto simp: goto_def f)
  also have "genid_step\<^sup>*\<^sup>* \<dots> (?b n (?f BeforeAdd BeforeAdd))"
    using nonempty [of "?b n (?f BeforeAdd Enter)" 1] n by (auto simp: goto_def)
  also have "genid_step\<^sup>*\<^sup>* \<dots> (?b (n + 1) (?f BeforeRead BeforeAdd))"
    using add [of "?b n (?f BeforeAdd BeforeAdd)" 0] by (auto simp: goto_def fun_upd_twist)
  also have "genid_step\<^sup>*\<^sup>* \<dots> (?b (n + 2) (?f BeforeRead BeforeRead))"
    using add [of "?b (n + 1) (?f BeforeRead BeforeAdd)" 1] by (auto simp: goto_def add.assoc)
  also have "genid_step\<^sup>*\<^sup>* \<dots> (?b (n + 2) (?f (Returned (n + 2)) BeforeRead))"
    using ret [of "?b (n + 2) (?f BeforeRead BeforeRead)" 0] by (auto simp: goto_def fun_upd_twist)
  also have "genid_step\<^sup>*\<^sup>* \<dots> (?b (n + 2) (?f (Returned (n + 2)) (Returned (n + 2))))"
    using ret [of "?b (n + 2) (?f (Returned (n + 2)) BeforeRead)" 1] by (auto simp: goto_def)
  finally show ?thesis by (intro exI conjI) auto
qed

end
