(* ===== verification/Zm_Wheel.thy ===== *)
theory Zm_Wheel
  imports Prelude "HOL-Library.Multiset"
begin

text \<open>
  The time wheel of the zone master (\<^verbatim>\<open>zm/time_wheel.go\<close>): delayed callbacks in a ring of lists.  The
  channels are served by one goroutine, so each request is one function on the wheel.  A duration is a number of
  nanoseconds, and \<^verbatim>\<open>int(d.Seconds())\<close> its whole seconds.  The callbacks that a tick starts
  are the list of their arguments.
\<close>

section \<open>The wheel\<close>

record ('k, 'd) Task =
  tk_delay :: int
  tk_circle :: int
  tk_key :: 'k
  tk_data :: 'd

record ('k, 'd) TimeWheel =
  tw_interval :: int
  tw_slots :: "('k, 'd) Task list list"
  tw_timer :: "'k \<rightharpoonup> nat"
  tw_currentPos :: nat
  tw_slotNum :: nat

definition NewTimeWheel :: "int \<Rightarrow> int \<Rightarrow> ('k, 'd) TimeWheel option" where
  "NewTimeWheel interval slotNum =
     (if interval \<le> 0 \<or> slotNum \<le> 0 then None
      else Some \<lparr>tw_interval = interval, tw_slots = replicate (nat slotNum) [], tw_timer = Map.empty,
                 tw_currentPos = 0, tw_slotNum = nat slotNum\<rparr>)"

definition Seconds :: "int \<Rightarrow> int" where
  "Seconds d = d div 1000000000"

text \<open>\<^verbatim>\<open>getPositionAndCircle\<close>: an interval below one second is a division by zero, a panic.\<close>

definition getPositionAndCircle :: "('k, 'd) TimeWheel \<Rightarrow> int \<Rightarrow> (unit, nat \<times> int) result" where
  "getPositionAndCircle tw d =
     (let delaySeconds = Seconds d; intervalSeconds = Seconds (tw_interval tw) in
      if intervalSeconds = 0 then Panic
      else Ok (nat ((int (tw_currentPos tw) + delaySeconds div intervalSeconds) mod int (tw_slotNum tw)),
               delaySeconds div intervalSeconds div int (tw_slotNum tw)))"

definition addTask :: "('k, 'd) Task \<Rightarrow> ('k, 'd) TimeWheel \<Rightarrow> (unit, ('k, 'd) TimeWheel) result" where
  "addTask task tw =
     result_bind (getPositionAndCircle tw (tk_delay task)) (\<lambda>(pos, circle).
       Ok (tw\<lparr>tw_slots := (tw_slots tw)[pos := tw_slots tw ! pos @ [task\<lparr>tk_circle := circle\<rparr>]],
              tw_timer := (tw_timer tw)(tk_key task \<mapsto> pos)\<rparr>))"

text \<open>\<^verbatim>\<open>AddTimer\<close> ignores a delay that is not positive.\<close>

definition AddTimer :: "int \<Rightarrow> 'k \<Rightarrow> 'd \<Rightarrow> ('k, 'd) TimeWheel \<Rightarrow> (unit, ('k, 'd) TimeWheel) result" where
  "AddTimer delay key d tw =
     (if delay \<le> 0 then Ok tw else addTask \<lparr>tk_delay = delay, tk_circle = 0, tk_key = key, tk_data = d\<rparr> tw)"

text \<open>\<^verbatim>\<open>scanAndRunTask\<close>: the tasks that stay, the arguments of the callbacks, and the keys removed.\<close>

fun scanAndRunTask :: "('k, 'd) Task list \<Rightarrow> ('k \<rightharpoonup> nat) \<Rightarrow> ('k, 'd) Task list \<times> 'd list \<times> ('k \<rightharpoonup> nat)" where
  "scanAndRunTask [] timer = ([], [], timer)"
| "scanAndRunTask (task # rest) timer =
     (if tk_circle task > 0 then
        (case scanAndRunTask rest timer of (keep, run, timer') \<Rightarrow>
           (task\<lparr>tk_circle := tk_circle task - 1\<rparr> # keep, run, timer'))
      else
        (case scanAndRunTask rest (timer(tk_key task := None)) of (keep, run, timer') \<Rightarrow>
           (keep, tk_data task # run, timer')))"

definition tickHandler :: "('k, 'd) TimeWheel \<Rightarrow> ('k, 'd) TimeWheel \<times> 'd list" where
  "tickHandler tw =
     (case scanAndRunTask (tw_slots tw ! tw_currentPos tw) (tw_timer tw) of (keep, run, timer) \<Rightarrow>
        (tw\<lparr>tw_slots := (tw_slots tw)[tw_currentPos tw := keep], tw_timer := timer,
            tw_currentPos := (if int (tw_currentPos tw) = int (tw_slotNum tw) - 1 then 0 else tw_currentPos tw + 1)\<rparr>,
         run))"

text \<open>
  \<^verbatim>\<open>removeTask\<close>: after \<^verbatim>\<open>l.Remove(e)\<close> the element has no successor, so the loop ends at the first task
  with the key.
\<close>

fun remove_key :: "'k \<Rightarrow> ('k, 'd) Task list \<Rightarrow> ('k, 'd) Task list" where
  "remove_key key [] = []"
| "remove_key key (task # rest) = (if tk_key task = key then rest else task # remove_key key rest)"

definition removeTask :: "'k \<Rightarrow> ('k, 'd) TimeWheel \<Rightarrow> ('k, 'd) TimeWheel" where
  "removeTask key tw =
     (case tw_timer tw key of
        None \<Rightarrow> tw
      | Some position \<Rightarrow>
          let l = tw_slots tw ! position in
          tw\<lparr>tw_slots := (tw_slots tw)[position := remove_key key l],
             tw_timer := (if \<exists>t\<in>set l. tk_key t = key then (tw_timer tw)(key := None) else tw_timer tw)\<rparr>)"

section \<open>The timers it implements\<close>

text \<open>
  What a wheel promises: a collection of timers, each with its key, its argument and the number of
  ticks it still waits.  A tick starts those that wait no more and lowers the others.
\<close>

definition wheel_ok :: "('k, 'd) TimeWheel \<Rightarrow> bool" where
  "wheel_ok tw = (length (tw_slots tw) = tw_slotNum tw \<and> tw_currentPos tw < tw_slotNum tw \<and>
     1000000000 \<le> tw_interval tw \<and> (\<forall>l\<in>set (tw_slots tw). \<forall>t\<in>set l. 0 \<le> tk_circle t))"

definition remaining :: "('k, 'd) TimeWheel \<Rightarrow> nat \<Rightarrow> ('k, 'd) Task \<Rightarrow> int" where
  "remaining tw pos t = (int pos - int (tw_currentPos tw)) mod int (tw_slotNum tw) + tk_circle t * int (tw_slotNum tw)"

definition slot_timers :: "('k, 'd) TimeWheel \<Rightarrow> nat \<Rightarrow> ('k \<times> 'd \<times> int) multiset" where
  "slot_timers tw pos = image_mset (\<lambda>t. (tk_key t, tk_data t, remaining tw pos t)) (mset (tw_slots tw ! pos))"

definition timers :: "('k, 'd) TimeWheel \<Rightarrow> ('k \<times> 'd \<times> int) multiset" where
  "timers tw = (\<Sum>pos\<in>{..<tw_slotNum tw}. slot_timers tw pos)"

definition waits :: "('k \<times> 'd \<times> int) \<Rightarrow> int" where
  "waits x = snd (snd x)"

definition closer :: "('k \<times> 'd \<times> int) \<Rightarrow> ('k \<times> 'd \<times> int)" where
  "closer x = (fst x, fst (snd x), snd (snd x) - 1)"

lemma scan_props:
  "fst (scanAndRunTask l timer) = map (\<lambda>t. t\<lparr>tk_circle := tk_circle t - 1\<rparr>) (filter (\<lambda>t. tk_circle t > 0) l)"
  "fst (snd (scanAndRunTask l timer)) = map tk_data (filter (\<lambda>t. \<not> tk_circle t > 0) l)"
  by (induction l timer rule: scanAndRunTask.induct) (auto split: prod.splits)

lemma neg_mod: "- n \<le> x \<Longrightarrow> x < 0 \<Longrightarrow> x mod n = x + n" for x n :: int
proof -
  assume "- n \<le> x" "x < 0"
  then have "(x + n) mod n = x + n" by (intro mod_pos_pos_trivial) auto
  then show ?thesis by simp
qed

text \<open>How the distance to a slot changes when the hand moves on.\<close>

lemma distance_step:
  assumes "c < n" "p < n"
  shows "(int p - int (if int c = int n - 1 then 0 else c + 1)) mod int n =
    (if p = c then int n - 1 else (int p - int c) mod int n - 1)"
proof -
  have hand: "int (if int c = int n - 1 then 0 else c + 1) = (int c + 1) mod int n"
    using assms(1) by (auto simp: mod_pos_pos_trivial)
  have "(int p - (int c + 1) mod int n) mod int n = (int p - int c - 1) mod int n"
    by (simp add: mod_diff_right_eq algebra_simps)
  also have "\<dots> = (if p = c then int n - 1 else (int p - int c) mod int n - 1)"
  proof (cases "p < c")
    case True
    have "(int p - int c) mod int n = int p - int c + int n"
      using True assms by (intro neg_mod) auto
    moreover have "(int p - int c - 1) mod int n = int p - int c - 1 + int n"
      using True assms by (intro neg_mod) auto
    ultimately show ?thesis using True by simp
  next
    case False
    then show ?thesis using assms neg_mod [of "int n" "-1"] by (auto simp: mod_pos_pos_trivial)
  qed
  finally show ?thesis unfolding hand .
qed

text \<open>A tick, slot by slot.\<close>

lemma tick_fields:
  "tw_slotNum (fst (tickHandler tw)) = tw_slotNum tw"
  "tw_interval (fst (tickHandler tw)) = tw_interval tw"
  "tw_currentPos (fst (tickHandler tw)) =
     (if int (tw_currentPos tw) = int (tw_slotNum tw) - 1 then 0 else tw_currentPos tw + 1)"
  "tw_slots (fst (tickHandler tw)) = (tw_slots tw)[tw_currentPos tw :=
     map (\<lambda>t. t\<lparr>tk_circle := tk_circle t - 1\<rparr>) (filter (\<lambda>t. tk_circle t > 0) (tw_slots tw ! tw_currentPos tw))]"
  "snd (tickHandler tw) = map tk_data (filter (\<lambda>t. \<not> tk_circle t > 0) (tw_slots tw ! tw_currentPos tw))"
  using scan_props [of "tw_slots tw ! tw_currentPos tw" "tw_timer tw"]
  by (auto simp: tickHandler_def split: prod.splits)

lemma tick_ok: "wheel_ok tw \<Longrightarrow> wheel_ok (fst (tickHandler tw))"
  by (auto simp: wheel_ok_def tick_fields dest!: set_update_subset_insert [THEN subsetD])

lemma tick_slot:
  assumes "wheel_ok tw" "pos < tw_slotNum tw"
  shows "slot_timers (fst (tickHandler tw)) pos =
    image_mset closer (filter_mset (\<lambda>x. 0 < waits x) (slot_timers tw pos))"
proof -
  let ?c = "tw_currentPos tw" and ?n = "tw_slotNum tw" and ?l = "tw_slots tw ! pos"
  have ok: "?c < ?n" "length (tw_slots tw) = ?n" "\<forall>t\<in>set ?l. 0 \<le> tk_circle t"
    using assms by (auto simp: wheel_ok_def)
  note dist = distance_step [OF ok(1) assms(2)]
  have old: "remaining tw pos t = (if pos = ?c then 0 else (int pos - int ?c) mod int ?n) + tk_circle t * int ?n" for t
    by (simp add: remaining_def)
  show ?thesis
  proof (cases "pos = ?c")
    case True
    have "closer (tk_key t, tk_data t, remaining tw pos t) =
        (tk_key t, tk_data t, remaining (fst (tickHandler tw)) pos (t\<lparr>tk_circle := tk_circle t - 1\<rparr>))" for t
      using dist True by (simp add: closer_def remaining_def tick_fields algebra_simps)
    moreover have "0 < remaining tw pos t \<longleftrightarrow> 0 < tk_circle t" for t
      unfolding old using True ok(1) by (simp add: zero_less_mult_iff)
    ultimately show ?thesis using True ok(2) assms(2)
      by (simp add: slot_timers_def tick_fields waits_def filter_map comp_def flip: mset_filter mset_map)
  next
    case False
    have pos0: "0 < (int pos - int ?c) mod int ?n"
    proof (cases "pos < ?c")
      case True
      then show ?thesis using neg_mod [of "int ?n" "int pos - int ?c"] ok(1) assms(2) by simp
    next
      case ge: False
      then have "(int pos - int ?c) mod int ?n = int pos - int ?c" using assms(2) by (intro mod_pos_pos_trivial) auto
      then show ?thesis using ge False by simp
    qed
    have same: "closer (tk_key t, tk_data t, remaining tw pos t) =
        (tk_key t, tk_data t, remaining (fst (tickHandler tw)) pos t)" for t
      using dist False by (simp add: closer_def remaining_def tick_fields)
    have "0 < remaining tw pos t" if "t \<in> set ?l" for t
      unfolding old using pos0 ok(3) that False by (simp add: add_pos_nonneg)
    then have "filter (\<lambda>t. 0 < remaining tw pos t) ?l = ?l" by (intro filter_True) blast
    then show ?thesis using False
      by (simp add: slot_timers_def tick_fields waits_def filter_map comp_def same flip: mset_filter mset_map)
  qed
qed

lemma fired_slot:
  assumes "wheel_ok tw"
  shows "mset (snd (tickHandler tw)) =
    image_mset (\<lambda>x. fst (snd x)) (filter_mset (\<lambda>x. waits x = 0) (slot_timers tw (tw_currentPos tw)))"
proof -
  let ?l = "tw_slots tw ! tw_currentPos tw"
  have ok: "tw_currentPos tw < tw_slotNum tw" "\<forall>t\<in>set ?l. 0 \<le> tk_circle t" using assms by (auto simp: wheel_ok_def)
  have "remaining tw (tw_currentPos tw) t = 0 \<longleftrightarrow> \<not> tk_circle t > 0" if "t \<in> set ?l" for t
    using ok that by (auto simp: remaining_def)
  then have "filter (\<lambda>t. remaining tw (tw_currentPos tw) t = 0) ?l = filter (\<lambda>t. \<not> tk_circle t > 0) ?l"
    by (intro filter_cong) auto
  then show ?thesis
    by (simp add: slot_timers_def tick_fields waits_def filter_map comp_def flip: mset_filter mset_map)
qed

lemma other_slots_wait:
  assumes "wheel_ok tw" "pos < tw_slotNum tw" "pos \<noteq> tw_currentPos tw"
  shows "filter_mset (\<lambda>x. waits x = 0) (slot_timers tw pos) = {#}"
proof -
  have ok: "tw_currentPos tw < tw_slotNum tw" "\<forall>t\<in>set (tw_slots tw ! pos). 0 \<le> tk_circle t"
    using assms by (auto simp: wheel_ok_def)
  have "(int pos - int (tw_currentPos tw)) mod int (tw_slotNum tw) \<noteq> 0"
  proof
    assume "(int pos - int (tw_currentPos tw)) mod int (tw_slotNum tw) = 0"
    then have "int pos mod int (tw_slotNum tw) = int (tw_currentPos tw) mod int (tw_slotNum tw)"
      by (simp add: mod_eq_dvd_iff dvd_eq_mod_eq_0)
    then show False using assms(2,3) ok(1) by (simp add: mod_pos_pos_trivial)
  qed
  moreover have "0 \<le> (int pos - int (tw_currentPos tw)) mod int (tw_slotNum tw)" using ok(1) by simp
  ultimately have "remaining tw pos t \<noteq> 0" if "t \<in> set (tw_slots tw ! pos)" for t
    using ok that unfolding remaining_def by (smt (verit) mult_nonneg_nonneg of_nat_0_le_iff)
  then have "filter (\<lambda>t. remaining tw pos t = 0) (tw_slots tw ! pos) = []" by (intro filter_False) blast
  then show ?thesis by (simp add: slot_timers_def waits_def filter_map comp_def flip: mset_filter mset_map)
qed

lemma filter_mset_sum: "finite A \<Longrightarrow> filter_mset P (\<Sum>i\<in>A. f i) = (\<Sum>i\<in>A. filter_mset P (f i))"
  by (induction A rule: finite_induct) auto

lemma image_mset_sum: "finite A \<Longrightarrow> image_mset g (\<Sum>i\<in>A. f i) = (\<Sum>i\<in>A. image_mset g (f i))"
  by (induction A rule: finite_induct) auto

lemma tick_timers:
  assumes "wheel_ok tw"
  shows "timers (fst (tickHandler tw)) = image_mset closer (filter_mset (\<lambda>x. 0 < waits x) (timers tw))"
    and "mset (snd (tickHandler tw)) = image_mset (\<lambda>x. fst (snd x)) (filter_mset (\<lambda>x. waits x = 0) (timers tw))"
proof -
  show "timers (fst (tickHandler tw)) = image_mset closer (filter_mset (\<lambda>x. 0 < waits x) (timers tw))"
    unfolding timers_def using tick_slot [OF assms]
    by (simp add: filter_mset_sum image_mset_sum tick_fields)
  have c: "tw_currentPos tw \<in> {..<tw_slotNum tw}" using assms by (simp add: wheel_ok_def)
  have "filter_mset (\<lambda>x. waits x = 0) (timers tw) = filter_mset (\<lambda>x. waits x = 0) (slot_timers tw (tw_currentPos tw))"
  proof -
    have "(\<Sum>q\<in>{..<tw_slotNum tw} - {tw_currentPos tw}. filter_mset (\<lambda>x. waits x = 0) (slot_timers tw q)) = {#}"
      by (rule sum.neutral) (use other_slots_wait [OF assms] in blast)
    moreover have "filter_mset (\<lambda>x. waits x = 0) (timers tw) = (\<Sum>q\<in>{..<tw_slotNum tw}. filter_mset (\<lambda>x. waits x = 0) (slot_timers tw q))"
      unfolding timers_def by (rule filter_mset_sum) simp
    ultimately show ?thesis using sum.remove [OF finite_lessThan c, of "\<lambda>q. filter_mset (\<lambda>x. waits x = 0) (slot_timers tw q)"]
      by (simp only: add_0_right)
  qed
  then show "mset (snd (tickHandler tw)) = image_mset (\<lambda>x. fst (snd x)) (filter_mset (\<lambda>x. waits x = 0) (timers tw))"
    using fired_slot [OF assms] by simp
qed

text \<open>Adding a timer: the position and the circles stand for the ticks to wait.\<close>

definition ticks :: "('k, 'd) TimeWheel \<Rightarrow> int \<Rightarrow> int" where
  "ticks tw delay = Seconds delay div Seconds (tw_interval tw)"

lemma add_timers:
  assumes "wheel_ok tw" "0 \<le> tk_delay task"
  shows "\<exists>tw'. addTask task tw = Ok tw' \<and> wheel_ok tw' \<and>
    timers tw' = add_mset (tk_key task, tk_data task, ticks tw (tk_delay task)) (timers tw)"
proof -
  let ?n = "int (tw_slotNum tw)" and ?c = "int (tw_currentPos tw)" and ?k = "ticks tw (tk_delay task)"
  define pos where "pos = nat ((?c + ?k) mod ?n)"
  let ?t = "task\<lparr>tk_circle := ?k div ?n\<rparr>"
  let ?tw = "tw\<lparr>tw_slots := (tw_slots tw)[pos := tw_slots tw ! pos @ [?t]], tw_timer := (tw_timer tw)(tk_key task \<mapsto> pos)\<rparr>"
  have n: "0 < ?n" "length (tw_slots tw) = tw_slotNum tw" using assms(1) by (auto simp: wheel_ok_def)
  have "1 \<le> Seconds (tw_interval tw)"
    using assms(1) zdiv_mono1 [of 1000000000 "tw_interval tw" 1000000000] by (simp add: wheel_ok_def Seconds_def)
  moreover from this have k: "0 \<le> ?k" unfolding ticks_def Seconds_def using assms(2)
    by (intro pos_imp_zdiv_nonneg_iff [THEN iffD2]) (auto simp: pos_imp_zdiv_nonneg_iff)
  ultimately have add: "addTask task tw = Ok ?tw"
    by (simp add: addTask_def getPositionAndCircle_def Let_def ticks_def pos_def)
  have p: "int pos = (?c + ?k) mod ?n" "pos < tw_slotNum tw" unfolding pos_def using n(1) by (simp_all add: nat_less_iff)
  have "(int pos - ?c) mod ?n = ?k mod ?n" unfolding p(1) by (simp add: mod_diff_left_eq)
  then have rem: "remaining tw pos ?t = ?k" by (simp add: remaining_def)
  have "remaining ?tw = remaining tw" by (intro ext) (simp add: remaining_def)
  then have slots: "slot_timers ?tw q = (if q = pos then add_mset (tk_key task, tk_data task, ?k) (slot_timers tw q) else slot_timers tw q)"
    if "q < tw_slotNum tw" for q
    using that rem p(2) n(2) by (simp add: slot_timers_def nth_list_update)
  have mem: "pos \<in> {..<tw_slotNum tw}" using p(2) by simp
  have "(\<Sum>q\<in>{..<tw_slotNum tw} - {pos}. slot_timers ?tw q) = (\<Sum>q\<in>{..<tw_slotNum tw} - {pos}. slot_timers tw q)"
    using slots by (intro sum.cong) auto
  then have "timers ?tw = add_mset (tk_key task, tk_data task, ?k) (timers tw)"
    unfolding timers_def using slots [OF p(2)] sum.remove [OF finite_lessThan mem, of "slot_timers ?tw"]
      sum.remove [OF finite_lessThan mem, of "slot_timers tw"] by simp
  moreover have "\<forall>t\<in>set (tw_slots tw ! pos). 0 \<le> tk_circle t"
  proof -
    have "tw_slots tw ! pos \<in> set (tw_slots tw)" using n(2) p(2) by simp
    then show ?thesis using assms(1) unfolding wheel_ok_def by blast
  qed
  then have "wheel_ok ?tw" using assms(1) k n
    by (auto simp: wheel_ok_def div_int_pos_iff dest!: set_update_subset_insert [THEN subsetD])
  ultimately show ?thesis using add by blast
qed

text \<open>Ticks in a row: the callbacks of each.\<close>

fun run_ticks :: "nat \<Rightarrow> ('k, 'd) TimeWheel \<Rightarrow> ('k, 'd) TimeWheel \<times> 'd list list" where
  "run_ticks 0 tw = (tw, [])"
| "run_ticks (Suc k) tw =
     (case tickHandler tw of (tw1, run) \<Rightarrow> case run_ticks k tw1 of (tw2, runs) \<Rightarrow> (tw2, run # runs))"

lemma run_ticks_fired:
  fixes tw :: "('k, 'd) TimeWheel"
  assumes "wheel_ok tw" "i < k"
  shows "mset (snd (run_ticks k tw) ! i) = image_mset (\<lambda>x. fst (snd x)) (filter_mset (\<lambda>x. waits x = int i) (timers tw))"
  using assms
proof (induction k arbitrary: tw i)
  case (Suc k)
  obtain tw1 run where tick: "tickHandler tw = (tw1, run)" by (cases "tickHandler tw")
  have ok: "wheel_ok tw1" using tick_ok [OF Suc.prems(1)] tick by simp
  show ?case
  proof (cases i)
    case 0
    then show ?thesis using tick tick_timers(2) [OF Suc.prems(1)] by (simp split: prod.splits)
  next
    case (Suc j)
    have "mset (snd (run_ticks k tw1) ! j) = image_mset (\<lambda>x. fst (snd x)) (filter_mset (\<lambda>x. waits x = int j) (timers tw1))"
      using Suc.IH [OF ok, of j] Suc Suc.prems(2) by simp
    also have "timers tw1 = image_mset closer (filter_mset (\<lambda>x. 0 < waits x) (timers tw))"
      using tick_timers(1) [OF Suc.prems(1)] tick by simp
    also have "image_mset (\<lambda>x. fst (snd x)) (filter_mset (\<lambda>x. waits x = int j) (image_mset closer (filter_mset (\<lambda>x. 0 < waits x) (timers tw)))) =
        image_mset (\<lambda>x. fst (snd x)) (filter_mset (\<lambda>x. waits x = int i) (timers tw))"
    proof -
      have "(\<lambda>x. fst (snd x)) \<circ> closer = (\<lambda>x :: 'k \<times> 'd \<times> int. fst (snd x))" by (auto simp: closer_def)
      moreover have "(\<lambda>x :: 'k \<times> 'd \<times> int. waits (closer x) = int j \<and> 0 < waits x) = (\<lambda>x. waits x = int i)"
        using Suc by (auto simp: closer_def waits_def)
      ultimately show ?thesis
        by (simp add: filter_mset_image_mset image_mset.compositionality filter_filter_mset conj_commute)
    qed
    finally show ?thesis using tick Suc by (cases "run_ticks k tw1") simp
  qed
qed simp

section \<open>Properties\<close>


abbreviation example_wheel :: "(nat, nat) TimeWheel" where
  "example_wheel \<equiv> \<lparr>tw_interval = 1000000000, tw_slots = [[], []], tw_timer = Map.empty, tw_currentPos = 0, tw_slotNum = 2\<rparr>"


text \<open>
  A timer fires on time: a timer whose delay is \<open>k\<close> intervals starts its callback once, on tick \<open>k + 1\<close>
  after it was added, and the other callbacks of every tick are those it would have had without it.
\<close>

theorem timer_fires_on_time:
  assumes "wheel_ok tw" "0 < delay" "int k = ticks tw delay" "i < n"
  shows "\<exists>tw'. AddTimer delay key d tw = Ok tw' \<and>
    mset (snd (run_ticks n tw') ! i) = (if i = k then {#d#} else {#}) + mset (snd (run_ticks n tw) ! i)"
proof -
  obtain tw' where tw': "AddTimer delay key d tw = Ok tw'" "wheel_ok tw'"
      "timers tw' = add_mset (key, d, ticks tw delay) (timers tw)"
    using add_timers [OF assms(1), of "\<lparr>tk_delay = delay, tk_circle = 0, tk_key = key, tk_data = d\<rparr>"] assms(2)
    by (auto simp: AddTimer_def)
  have "mset (snd (run_ticks n tw') ! i) = (if i = k then {#d#} else {#}) + mset (snd (run_ticks n tw) ! i)"
    using run_ticks_fired [OF tw'(2) assms(4)] run_ticks_fired [OF assms(1,4)] tw'(3) assms(3) [symmetric]
    by (simp add: waits_def)
  then show ?thesis using tw'(1) by blast
qed

theorem timer_fires_on_time_witness:
  "\<exists>tw'. AddTimer 5000000000 1 42 example_wheel = Ok tw' \<and>
    mset (snd (run_ticks 9 tw') ! 5) = (if (5 :: nat) = 5 then {#42#} else {#}) + mset (snd (run_ticks 9 example_wheel) ! 5)"
  by (rule timer_fires_on_time [where k = 5]) (simp_all add: wheel_ok_def ticks_def Seconds_def)

text \<open>An interval below a second makes the first timer panic.\<close>

lemma short_interval_panics: "0 \<le> tw_interval tw \<Longrightarrow> tw_interval tw < 1000000000 \<Longrightarrow> 0 < delay \<Longrightarrow> AddTimer delay key d tw = Panic"
  by (simp add: AddTimer_def addTask_def getPositionAndCircle_def Seconds_def Let_def div_pos_pos_trivial)

text \<open>
  A timer that is added again under its key cannot be taken back: with two timers of one key in
  different slots, \<^verbatim>\<open>RemoveTimer\<close> removes the later one and forgets the key.
\<close>

lemma removeTask_forgets:
  assumes "tw_timer tw key = Some p" "t \<in> set (tw_slots tw ! p)" "tk_key t = key"
  shows "removeTask key (removeTask key tw) = removeTask key tw"
  using assms by (auto simp: removeTask_def Let_def)

end
