(* ===== verification/Util_Number.thy ===== *)
theory Util_Number
  imports Encoding_Key
begin

text \<open>
  Prefix coded numbers (\<^verbatim>\<open>util/number.go\<close>): numeric terms of an index, which drop a number of low
  bits and hold seven bits per byte, such that the bytes sort as the numbers.  A \<^verbatim>\<open>float64\<close> is its bit
  pattern, as in \<open>Encoding_Key\<close>.
\<close>

section \<open>The functions\<close>

definition ShiftStartFlag :: byte where
  "ShiftStartFlag = 0x20"

datatype number_err = CannotShift | InvalidPrefix

text \<open>The loop of \<^verbatim>\<open>NewPrefixCodedInt64\<close> fills the slice from its end, seven bits at a time.\<close>

fun septets :: "nat \<Rightarrow> u64 \<Rightarrow> bytes" where
  "septets 0 sortBits = []"
| "septets (Suc nChars) sortBits = septets nChars (drop_bit 7 sortBits) @ [ucast (sortBits AND 0x7f)]"

definition NewPrefixCodedInt64 :: "i64 \<Rightarrow> nat \<Rightarrow> (number_err, bytes) result" where
  "NewPrefixCodedInt64 x shift =
     (if shift > 63 then Err CannotShift
      else
        let nChars = (63 - shift) div 7 + 1;
            sortBits = drop_bit shift (x XOR 0x8000000000000000)
        in Ok ((ShiftStartFlag + of_nat shift) # septets nChars sortBits))"

definition PrefixCodedInt64 :: "i64 \<Rightarrow> nat \<Rightarrow> (number_err, bytes) result" where
  "PrefixCodedInt64 x shift = (case NewPrefixCodedInt64 x shift of Ok rv \<Rightarrow> Ok rv | _ \<Rightarrow> Panic)"

definition Float64ToInt64 :: "u64 \<Rightarrow> i64" where
  "Float64ToInt64 f = (let fasint = f in if sint fasint < 0 then fasint XOR 0x7fffffffffffffff else fasint)"

definition Int64ToFloat64 :: "i64 \<Rightarrow> u64" where
  "Int64ToFloat64 i = (if sint i < 0 then i XOR 0x7fffffffffffffff else i)"

definition PrefixCodedFloat64 :: "u64 \<Rightarrow> nat \<Rightarrow> (number_err, bytes) result" where
  "PrefixCodedFloat64 f shift = (case NewPrefixCodedInt64 (Float64ToInt64 f) shift of Ok rv \<Rightarrow> Ok rv | _ \<Rightarrow> Panic)"

text \<open>\<^verbatim>\<open>Shift\<close>: the byte \<^verbatim>\<open>shift\<close> is never negative, and 63 is refused.\<close>

definition Value_Shift :: "bytes \<Rightarrow> (number_err, nat) result" where
  "Value_Shift p =
     (case p of
        [] \<Rightarrow> Err InvalidPrefix
      | b # _ \<Rightarrow> let shift = b - ShiftStartFlag in if shift < 63 then Ok (unat shift) else Err InvalidPrefix)"

fun septet_bits :: "u64 \<Rightarrow> bytes \<Rightarrow> u64" where
  "septet_bits bits [] = bits"
| "septet_bits bits (b # bs) = septet_bits (push_bit 7 bits OR ucast b) bs"

definition Value_Int64 :: "bytes \<Rightarrow> (number_err, i64) result" where
  "Value_Int64 p =
     result_bind (Value_Shift p) (\<lambda>shift.
       Ok (push_bit shift (septet_bits 0 (drop 1 p)) XOR 0x8000000000000000))"

definition Value_Float64 :: "bytes \<Rightarrow> (number_err, u64) result" where
  "Value_Float64 p = result_bind (Value_Int64 p) (\<lambda>i. Ok (Int64ToFloat64 i))"

section \<open>Septets\<close>

text \<open>The number that a list of septets stands for, most significant first.\<close>

fun nat7 :: "bytes \<Rightarrow> nat" where
  "nat7 [] = 0"
| "nat7 (b # bs) = unat b * 128 ^ length bs + nat7 bs"

lemma nat7_append: "nat7 (xs @ [b]) = nat7 xs * 128 + unat b"
  by (induction xs) (simp_all add: algebra_simps)

lemma and_mask7: "v AND 0x7f = (v :: u64) mod 128"
  using take_bit_eq_mask [of 7 v] by (simp add: mask_eq_exp_minus_1 take_bit_eq_mod)

lemma unat_septet: "unat (ucast (v AND 0x7f :: u64) :: byte) = unat v mod 128"
proof -
  have "v AND 0x7f = v mod 128" by (simp add: and_mask7)
  then have "unat (v AND 0x7f) = unat v mod 128" by (simp add: unat_mod_distrib)
  then show ?thesis by (simp add: unsigned_ucast_eq take_bit_eq_mod)
qed

lemma septets_props:
  "length (septets n v) = n" "nat7 (septets n v) = unat v mod 128 ^ n" "\<forall>b\<in>set (septets n v). b < 0x80"
proof (induction n arbitrary: v)
  case (Suc n)
  { case 1 show ?case using Suc(1) by simp }
  { case 2
    have "unat (drop_bit 7 v) = unat v div 128" by (simp add: drop_bit_eq_div unat_div_distrib)
    then show ?case using Suc(2) [of "drop_bit 7 v"]
      by (simp add: nat7_append unat_septet mod_mult2_eq mult.commute) }
  { case 3
    have "unat (ucast (v AND 0x7f) :: byte) < 128" unfolding unat_septet by simp
    then have "(ucast (v AND 0x7f) :: byte) < 0x80" by (simp add: word_less_nat_alt)
    then show ?case using Suc(3) by auto }
qed simp_all

lemma nat7_bound: "\<forall>b\<in>set bs. b < 0x80 \<Longrightarrow> nat7 bs < 128 ^ length bs"
proof (induction bs)
  case (Cons b bs)
  have "unat b < 128" using Cons.prems by (simp add: word_less_nat_alt)
  then show ?case using digit_less [of "unat b" 128 "nat7 bs" "128 ^ length bs"] Cons by simp
qed simp

lemma before_nat7:
  "length xs = length ys \<Longrightarrow> \<forall>b\<in>set xs. b < 0x80 \<Longrightarrow> \<forall>b\<in>set ys. b < 0x80 \<Longrightarrow> before xs ys \<longleftrightarrow> nat7 xs < nat7 ys"
proof (induction xs ys rule: list_induct2)
  case (Cons x xs y ys)
  have bounds: "nat7 xs < 128 ^ length ys" "nat7 ys < 128 ^ length ys"
    using nat7_bound [of xs] nat7_bound [of ys] Cons by auto
  consider "x < y" | "x = y" | "y < x" by fastforce
  then show ?case
  proof cases
    case 1
    then show ?thesis using digit_less [of "unat x" "unat y", OF _ bounds(1)] Cons.hyps by (simp add: word_less_nat_alt)
  next
    case 2
    then show ?thesis using Cons by simp
  next
    case 3
    then have "\<not> x < y" "x \<noteq> y" by auto
    then show ?thesis using 3 digit_less [of "unat y" "unat x", OF _ bounds(2)] Cons.hyps by (simp add: word_less_nat_alt)
  qed
qed simp

lemma septet_bits_eq:
  "\<forall>b\<in>set bs. b < 0x80 \<Longrightarrow> septet_bits v bs = v * 128 ^ length bs + of_nat (nat7 bs)"
proof (induction bs arbitrary: v)
  case (Cons b bs)
  have b: "unat b < 128" using Cons.prems by (simp add: word_less_nat_alt)
  have "unat (take_bit 7 b) = unat b" using b by (simp add: unsigned_take_bit_eq take_bit_nat_eq_self)
  then have take: "take_bit 7 b = b" by (rule unsigned_word_eqI)
  have "\<not> bit b n" if "7 \<le> n" for n using that bit_take_bit_iff [of 7 b n] unfolding take by simp
  then have "push_bit 7 v AND ucast b = 0" by (intro bit_word_eqI) (auto simp: bit_simps not_le)
  then have "push_bit 7 v OR ucast b = push_bit 7 v + ucast b" by (simp add: disjunctive_add_eq_or)
  then show ?case using Cons by (simp add: push_bit_eq_mult algebra_simps unsigned_of_nat)
qed simp

section \<open>Order and value of the sort bits\<close>

lemma bit_sign: "bit (0x8000000000000000 :: u64) n \<longleftrightarrow> n = 63"
proof -
  have "(0x8000000000000000 :: u64) = 2 ^ 63" by simp
  then show ?thesis using bit_exp_iff [of 63 n, where 'a = u64] by (simp only:) (auto simp: possible_bit_word)
qed

lemma low_mask: "(0x7fffffffffffffff :: u64) = mask 63"
  by (simp add: mask_eq_exp_minus_1)

lemma bit_flip_sign: "bit (x XOR 0x8000000000000000) 63 = (\<not> bit (x :: u64) 63)"
  by (simp only: bit_xor_iff bit_sign) simp

lemma uint_flip_sign: "uint (x XOR 0x8000000000000000) = sint x + 2 ^ 63" for x :: i64
proof -
  have "(x XOR 0x8000000000000000) AND mask 63 = x AND mask 63"
    by (rule bit_word_eqI) (simp only: bit_and_iff bit_xor_iff bit_sign bit_mask_iff, auto)
  then have "f64_mag (x XOR 0x8000000000000000) = f64_mag x"
    unfolding f64_mag_def low_mask by simp
  then show ?thesis using f64_mag_eq [of x] f64_mag_eq [of "x XOR 0x8000000000000000"] bit_flip_sign [of x]
    by (cases "bit x 63") (simp_all add: sint_eq)
qed

lemma sint_Float64ToInt64: "sint (Float64ToInt64 f) = f64_rank f"
proof (cases "bit f 63")
  case True
  have neg: "sint f < 0" using True uint_lt2p [of f] by (simp add: sint_eq)
  have "(0x7fffffffffffffff :: u64) = NOT 0x8000000000000000" by simp
  then have g: "f XOR 0x7fffffffffffffff = NOT (f XOR 0x8000000000000000)" by (simp only: bit.xor_compl_right)
  have "sint (f XOR 0x8000000000000000) = f64_mag f"
    using uint_flip_sign [of f] bit_flip_sign [of f] True by (simp add: sint_eq f64_mag_eq)
  then have "sint (f XOR 0x7fffffffffffffff) = - 1 - f64_mag f" unfolding g sint_not by simp
  then show ?thesis using True neg by (simp add: Float64ToInt64_def f64_rank_def)
next
  case False
  then have "\<not> sint f < 0" by (simp add: sint_eq)
  then show ?thesis using False by (simp add: Float64ToInt64_def f64_rank_def f64_mag_eq sint_eq)
qed

lemma Float64ToInt64_inverse: "Int64ToFloat64 (Float64ToInt64 f) = f"
proof (cases "bit f 63")
  case True
  then have "sint f < 0" using uint_lt2p [of f] by (simp add: sint_eq)
  moreover have "bit (f XOR 0x7fffffffffffffff) 63" unfolding low_mask using True by (simp add: bit_simps)
  then have "sint (f XOR 0x7fffffffffffffff) < 0" using uint_lt2p [of "f XOR 0x7fffffffffffffff"] by (simp add: sint_eq)
  ultimately show ?thesis by (simp add: Float64ToInt64_def Int64ToFloat64_def xor.assoc)
next
  case False
  then have "\<not> sint f < 0" by (simp add: sint_eq)
  then show ?thesis by (simp add: Float64ToInt64_def Int64ToFloat64_def)
qed

text \<open>The encoding as one list, and the number its septets stand for.\<close>

definition sort_bits :: "i64 \<Rightarrow> nat \<Rightarrow> u64" where
  "sort_bits x shift = drop_bit shift (x XOR 0x8000000000000000)"

definition code :: "i64 \<Rightarrow> nat \<Rightarrow> bytes" where
  "code x shift = (ShiftStartFlag + of_nat shift) # septets ((63 - shift) div 7 + 1) (sort_bits x shift)"

lemma New_code: "shift \<le> 63 \<Longrightarrow> NewPrefixCodedInt64 x shift = Ok (code x shift)"
  by (simp add: NewPrefixCodedInt64_def code_def sort_bits_def Let_def del: septets.simps)

lemma unat_sort_bits: "unat (sort_bits x shift) = nat (sint x + 2 ^ 63) div 2 ^ shift"
proof -
  have "unat (x XOR 0x8000000000000000) = nat (sint x + 2 ^ 63)"
    using arg_cong [OF uint_flip_sign [of x], of nat] by simp
  then show ?thesis unfolding sort_bits_def using unat_drop_bit_eq [of shift "x XOR 0x8000000000000000"]
    by (simp only: drop_bit_eq_div)
qed

lemma nat7_code:
  assumes "shift \<le> 63"
  shows "nat7 (septets ((63 - shift) div 7 + 1) (sort_bits x shift)) = unat (sort_bits x shift)"
proof -
  define n where "n = (63 - shift) div 7 + 1"
  have "sint x < 2 ^ 63" using sint_lt [of x] by simp
  then have "nat (sint x + 2 ^ 63) < 2 ^ 64" by simp
  then have "unat (sort_bits x shift) < 2 ^ (64 - shift)"
    unfolding unat_sort_bits using assms by (subst div_less_iff_less_mult) (auto simp: power_add [symmetric] simp del: power_add)
  also have "\<dots> \<le> 2 ^ (7 * n)" unfolding n_def using assms by (intro power_increasing) auto
  also have "\<dots> = 128 ^ n" by (simp add: power_mult)
  finally show ?thesis using septets_props(2) [of n] unfolding n_def by (simp del: septets.simps)
qed

lemma code_less_iff:
  assumes "shift \<le> 63"
  shows "code x shift < code y shift \<longleftrightarrow> unat (sort_bits x shift) < unat (sort_bits y shift)"
proof -
  let ?n = "(63 - shift) div 7 + 1"
  let ?xs = "septets ?n (sort_bits x shift)" and ?ys = "septets ?n (sort_bits y shift)"
  have len: "length ?xs = length ?ys" by (simp only: septets_props(1))
  have "?xs < ?ys \<longleftrightarrow> before ?xs ?ys"
    using before_less before_total_eq [OF len] by (metis order.asym order_less_irrefl)
  also have "\<dots> \<longleftrightarrow> unat (sort_bits x shift) < unat (sort_bits y shift)"
    using before_nat7 [OF len septets_props(3) septets_props(3)] nat7_code [OF assms] by simp
  finally show ?thesis by (simp add: code_def del: septets.simps)
qed

lemma sort_bits_less_iff:
  assumes "shift \<le> 63"
  shows "unat (sort_bits x shift) < unat (sort_bits y shift) \<longleftrightarrow> sint x div 2 ^ shift < sint y div 2 ^ shift"
proof -
  have key: "int (unat (sort_bits x shift)) = sint x div 2 ^ shift + 2 ^ (63 - shift)" for x
  proof -
    have pow: "(2::int) ^ 63 = 2 ^ (63 - shift) * 2 ^ shift" using assms by (simp flip: power_add)
    have "- (2 ^ 63) \<le> sint x" using sint_ge [of x] by simp
    then have "int (unat (sort_bits x shift)) = (sint x + 2 ^ 63) div 2 ^ shift"
      unfolding unat_sort_bits zdiv_int by simp
    then show ?thesis unfolding pow by simp
  qed
  show ?thesis using key [of x] key [of y] by linarith
qed

text \<open>The bits that the septets of a code give back.\<close>

lemma push_drop_flip: "s \<le> 63 \<Longrightarrow> push_bit s (sort_bits x s) XOR 0x8000000000000000 = push_bit s (drop_bit s x)"
  unfolding sort_bits_def
  by (rule bit_word_eqI) (simp only: bit_push_bit_iff bit_drop_bit_eq bit_xor_iff bit_sign o_def, auto simp: bit_sign)

lemma septet_bits_code:
  assumes "s \<le> 63"
  shows "septet_bits 0 (drop 1 (code x s)) = sort_bits x s"
  using septet_bits_eq [OF septets_props(3), of 0 "(63 - s) div 7 + 1"] nat7_code [OF assms]
  unfolding code_def by (simp del: septets.simps septet_bits.simps)

lemma Shift_code: "s \<le> 63 \<Longrightarrow> Value_Shift (code x s) = (if s < 63 then Ok s else Err InvalidPrefix)"
  by (simp add: Value_Shift_def code_def Let_def word_less_nat_alt unat_of_nat del: septets.simps)

section \<open>Properties\<close>

text \<open>
  The codes of two integers at the same shift compare, as byte strings, as the integers do after the
  low bits are dropped: at shift 0 the codes sort as the signed integers.
\<close>

theorem prefix_code_order:
  assumes "NewPrefixCodedInt64 x shift = Ok p" and "NewPrefixCodedInt64 y shift = Ok q"
  shows "p < q \<longleftrightarrow> sint x div 2 ^ shift < sint y div 2 ^ shift"
proof -
  have s: "shift \<le> 63" using assms(1) by (auto simp: NewPrefixCodedInt64_def split: if_splits)
  show ?thesis using assms code_less_iff [OF s, of x y] sort_bits_less_iff [OF s, of x y] unfolding New_code [OF s] by simp
qed

text \<open>The same for floating point numbers, by the order of their values (a zero of either sign apart).\<close>

theorem prefix_float_order:
  assumes "PrefixCodedFloat64 f shift = Ok p" and "PrefixCodedFloat64 g shift = Ok q"
  shows "p < q \<longleftrightarrow> f64_rank f div 2 ^ shift < f64_rank g div 2 ^ shift"
proof -
  have s: "shift \<le> 63" using assms(1) by (auto simp: PrefixCodedFloat64_def NewPrefixCodedInt64_def split: if_splits)
  show ?thesis
    using assms code_less_iff [OF s, of "Float64ToInt64 f" "Float64ToInt64 g"]
      sort_bits_less_iff [OF s, of "Float64ToInt64 f" "Float64ToInt64 g"]
    unfolding PrefixCodedFloat64_def New_code [OF s] by (simp add: sint_Float64ToInt64)
qed

text \<open>
  A code at a shift below 63 gives back its shift and the integer with its low bits cleared, at shift 0
  the integer itself.
\<close>

theorem prefix_code_roundtrip:
  assumes "shift < 63"
  shows "\<exists>p. NewPrefixCodedInt64 x shift = Ok p \<and> Value_Shift p = Ok shift \<and>
    Value_Int64 p = Ok (push_bit shift (drop_bit shift x))"
  using assms septet_bits_code [of shift x] push_drop_flip [of shift x]
  by (simp add: New_code Shift_code Value_Int64_def)

text \<open>A floating point number coded at shift 0 is given back bit by bit.\<close>

lemma prefix_float_roundtrip: "\<exists>p. PrefixCodedFloat64 f 0 = Ok p \<and> Value_Float64 p = Ok f"
  using septet_bits_code [of 0 "Float64ToInt64 f"] push_drop_flip [of 0 "Float64ToInt64 f"]
  by (simp add: PrefixCodedFloat64_def New_code Shift_code Value_Float64_def Value_Int64_def Float64ToInt64_inverse)

text \<open>The shift 63 is coded, but no reader accepts the code: \<^verbatim>\<open>Shift\<close> tests for less than 63.\<close>

lemma shift_63_refused: "\<exists>p. NewPrefixCodedInt64 x 63 = Ok p \<and> Value_Int64 p = Err InvalidPrefix"
  by (simp add: New_code Shift_code Value_Int64_def)

section \<open>Witnesses\<close>

lemma codes_of_witnesses:
  "NewPrefixCodedInt64 (- 5) 2 = Ok [0x22, 0x1f, 0x7f, 0x7f, 0x7f, 0x7f, 0x7f, 0x7f, 0x7f, 0x7e]"
  "NewPrefixCodedInt64 9 2 = Ok [0x22, 0x20, 0, 0, 0, 0, 0, 0, 0, 2]"
  "PrefixCodedFloat64 0xbff0000000000000 0 = Ok [0x20, 0, 0x40, 7, 0x7f, 0x7f, 0x7f, 0x7f, 0x7f, 0x7f, 0x7f]"
  "PrefixCodedFloat64 0x3ff0000000000000 0 = Ok [0x20, 1, 0x3f, 0x78, 0, 0, 0, 0, 0, 0, 0]"
  by code_simp+

theorem prefix_code_order_witness:
  "([0x22, 0x1f, 0x7f, 0x7f, 0x7f, 0x7f, 0x7f, 0x7f, 0x7f, 0x7e] :: bytes) < [0x22, 0x20, 0, 0, 0, 0, 0, 0, 0, 2]
   \<longleftrightarrow> sint (- 5 :: i64) div 2 ^ 2 < sint (9 :: i64) div 2 ^ 2"
  by (rule prefix_code_order [OF codes_of_witnesses(1,2)])

theorem prefix_float_order_witness:
  "([0x20, 0, 0x40, 7, 0x7f, 0x7f, 0x7f, 0x7f, 0x7f, 0x7f, 0x7f] :: bytes) < [0x20, 1, 0x3f, 0x78, 0, 0, 0, 0, 0, 0, 0]
   \<longleftrightarrow> f64_rank 0xbff0000000000000 div 2 ^ 0 < f64_rank 0x3ff0000000000000 div 2 ^ 0"
  by (rule prefix_float_order [OF codes_of_witnesses(3,4)])

theorem prefix_code_roundtrip_witness:
  "(\<exists>p. NewPrefixCodedInt64 9 2 = Ok p \<and> Value_Shift p = Ok 2 \<and> Value_Int64 p = Ok 8)"
  using prefix_code_roundtrip [of 2 9] by simp

end
