(* ===== verification/Util_Buffer.thy ===== *)
theory Util_Buffer
  imports Prelude
begin

text \<open>
  The byte buffers of the connections (\<^verbatim>\<open>util/bufalloc/ibuffer.go\<close>, the interface \<^verbatim>\<open>Buffer\<close> of
  \<^verbatim>\<open>buffer.go\<close>).  A buffer is an array with the position up to which it was read and the length of its slice; the bytes
  beyond the slice keep their old values, as in Go.  The interface is the locale \<open>byte_buffer\<close>, a queue of bytes; a reader
  of the standard library is the locale \<open>reader\<close>, which a buffer is itself.  Slices that a buffer returns share
  its array until the following call; the model returns their bytes.  Sizes are unbounded, so
  an allocation never fails.
\<close>

section \<open>The buffer\<close>

datatype io_err = EOF | ErrShortWrite | OtherErr

record ibuffer =
  ib_off :: nat
  ib_arr :: "bytes option"
  ib_len :: nat

definition makeSlice :: "nat \<Rightarrow> bytes" where
  "makeSlice n = replicate n 0"

definition ib_array :: "ibuffer \<Rightarrow> bytes" where
  "ib_array b = (case ib_arr b of None \<Rightarrow> [] | Some a \<Rightarrow> a)"

definition ib_Bytes :: "ibuffer \<Rightarrow> bytes" where
  "ib_Bytes b = drop (ib_off b) (take (ib_len b) (ib_array b))"

definition ib_Len :: "ibuffer \<Rightarrow> nat" where
  "ib_Len b = ib_len b - ib_off b"

definition ib_Cap :: "ibuffer \<Rightarrow> nat" where
  "ib_Cap b = length (ib_array b)"

text \<open>\<^verbatim>\<open>b.buf = b.buf[0:k]\<close>, and \<^verbatim>\<open>copy\<close> to a position of an array.\<close>

definition reslice :: "nat \<Rightarrow> ibuffer \<Rightarrow> (io_err, ibuffer) result" where
  "reslice k b = (if k \<le> ib_Cap b then Ok (b\<lparr>ib_len := k\<rparr>) else Panic)"

definition copy_at :: "nat \<Rightarrow> bytes \<Rightarrow> bytes \<Rightarrow> bytes" where
  "copy_at i src dst = take i dst @ take (length dst - i) src @ drop (i + length src) dst"

definition ib_Truncate :: "int \<Rightarrow> ibuffer \<Rightarrow> (io_err, ibuffer) result" where
  "ib_Truncate n b =
     (if n < 0 \<or> n > int (ib_Len b) then Panic
      else let b = (if n = 0 then b\<lparr>ib_off := 0\<rparr> else b) in reslice (ib_off b + nat n) b)"

definition ib_Reset :: "ibuffer \<Rightarrow> (io_err, ibuffer) result" where
  "ib_Reset b = ib_Truncate 0 b"

text \<open>\<^verbatim>\<open>grow\<close>: room for \<open>n\<close> more bytes and the position where they start.\<close>

definition ib_make_room :: "nat \<Rightarrow> nat \<Rightarrow> ibuffer \<Rightarrow> ibuffer" where
  "ib_make_room m n b =
     (if ib_len b + n > ib_Cap b then
        (if m + n \<le> ib_Cap b div 2
         then b\<lparr>ib_arr := Some (copy_at 0 (ib_Bytes b) (ib_array b)), ib_len := m, ib_off := 0\<rparr>
         else b\<lparr>ib_arr := Some (copy_at 0 (ib_Bytes b) (makeSlice (2 * ib_Cap b + n))), ib_len := 2 * ib_Cap b + n, ib_off := 0\<rparr>)
      else b)"

definition ib_grow :: "nat \<Rightarrow> ibuffer \<Rightarrow> (io_err, ibuffer \<times> nat) result" where
  "ib_grow n b =
     (if ib_arr b = None then Ok (b\<lparr>ib_arr := Some (makeSlice n), ib_len := n\<rparr>, 0)
      else
        let m = ib_Len b in
        result_bind (if m = 0 \<and> ib_off b \<noteq> 0 then ib_Truncate 0 b else Ok b) (\<lambda>b.
          let b = ib_make_room m n b in
          result_bind (reslice (ib_off b + m + n) b) (\<lambda>b. Ok (b, ib_off b + m))))"

definition ib_Alloc :: "int \<Rightarrow> ibuffer \<Rightarrow> (io_err, ibuffer \<times> bytes) result" where
  "ib_Alloc n b =
     (if n < 0 then Panic
      else result_bind (ib_grow (nat n) b) (\<lambda>(b, m). Ok (b, drop m (take (ib_len b) (ib_array b)))))"

definition ib_Grow :: "int \<Rightarrow> ibuffer \<Rightarrow> (io_err, ibuffer) result" where
  "ib_Grow n b = (if n < 0 then Panic else result_bind (ib_grow (nat n) b) (\<lambda>(b, m). reslice m b))"

definition ib_Write :: "bytes \<Rightarrow> ibuffer \<Rightarrow> (io_err, ibuffer \<times> nat) result" where
  "ib_Write p b =
     result_bind (ib_grow (length p) b) (\<lambda>(b, m).
       Ok (b\<lparr>ib_arr := Some (copy_at m (take (ib_len b - m) p) (ib_array b))\<rparr>, min (ib_len b - m) (length p)))"

definition ib_WriteByte :: "byte \<Rightarrow> ibuffer \<Rightarrow> (io_err, ibuffer) result" where
  "ib_WriteByte c b =
     result_bind (ib_grow 1 b) (\<lambda>(b, m).
       if m < ib_len b then Ok (b\<lparr>ib_arr := Some ((ib_array b)[m := c])\<rparr>) else Panic)"

text \<open>\<^verbatim>\<open>Read\<close> into a slice of \<open>k\<close> bytes: the bytes it fills in and the error, if any.\<close>

definition ib_Read :: "nat \<Rightarrow> ibuffer \<Rightarrow> (io_err, ibuffer \<times> bytes \<times> io_err option) result" where
  "ib_Read k b =
     (if ib_off b \<ge> ib_len b then
        result_bind (ib_Truncate 0 b) (\<lambda>b. Ok (b, [], if k = 0 then None else Some EOF))
      else let data = take k (ib_Bytes b) in Ok (b\<lparr>ib_off := ib_off b + length data\<rparr>, data, None))"

definition ib_Next :: "int \<Rightarrow> ibuffer \<Rightarrow> (io_err, ibuffer \<times> bytes) result" where
  "ib_Next n b =
     (let n = (if n > int (ib_Len b) then int (ib_Len b) else n) in
      if n < 0 then Panic
      else Ok (b\<lparr>ib_off := ib_off b + nat n\<rparr>, take (nat n) (ib_Bytes b)))"

definition ib_ReadByte :: "ibuffer \<Rightarrow> (io_err, ibuffer \<times> byte option) result" where
  "ib_ReadByte b =
     (if ib_off b \<ge> ib_len b then result_bind (ib_Truncate 0 b) (\<lambda>b. Ok (b, None))
      else if ib_len b \<le> ib_Cap b then Ok (b\<lparr>ib_off := ib_off b + 1\<rparr>, Some (ib_array b ! ib_off b)) else Panic)"

definition ib_ReadBytes :: "byte \<Rightarrow> ibuffer \<Rightarrow> ibuffer \<times> bytes \<times> io_err option" where
  "ib_ReadBytes delim b =
     (let s = ib_Bytes b; line = takeWhile (\<lambda>c. c \<noteq> delim) s in
      if length line < length s
      then (b\<lparr>ib_off := ib_off b + length line + 1\<rparr>, line @ [delim], None)
      else (b\<lparr>ib_off := ib_len b\<rparr>, s, Some EOF))"

text \<open>\<^verbatim>\<open>WriteTo\<close>; what the writer answers is an argument: how many bytes it took, and its error.\<close>

definition ib_WriteTo :: "(bytes \<Rightarrow> nat \<times> io_err option) \<Rightarrow> ibuffer \<Rightarrow> (io_err, ibuffer \<times> nat \<times> io_err option) result" where
  "ib_WriteTo w b =
     (if ib_off b < ib_len b then
        (case w (ib_Bytes b) of (m, e) \<Rightarrow>
           if m > ib_Len b then Panic
           else let b' = b\<lparr>ib_off := ib_off b + m\<rparr> in
             (case e of
                Some x \<Rightarrow> Ok (b', m, Some x)
              | None \<Rightarrow> if m \<noteq> ib_Len b then Ok (b', m, Some ErrShortWrite)
                  else result_bind (ib_Truncate 0 b') (\<lambda>b. Ok (b, m, None))))
      else result_bind (ib_Truncate 0 b) (\<lambda>b. Ok (b, 0, None)))"

text \<open>
  \<^verbatim>\<open>ReadFrom\<close>: a loop that ends with the reader's error.  A reader that never reports one keeps it running, so the loop is a
  partial function.
\<close>

definition minRead :: nat where
  "minRead = 128"

definition read_space :: "ibuffer \<Rightarrow> ibuffer" where
  "read_space b =
     (let free = ib_Cap b - ib_len b in
      if free < minRead then
        (let newBuf = (if ib_off b + free < minRead then makeSlice (2 * ib_Cap b + minRead) else ib_array b)
         in b\<lparr>ib_arr := Some (copy_at 0 (ib_Bytes b) newBuf), ib_len := ib_len b - ib_off b, ib_off := 0\<rparr>)
      else b)"

partial_function (option) read_loop :: "(nat \<Rightarrow> 'r \<Rightarrow> 'r \<times> bytes \<times> io_err option) \<Rightarrow> 'r \<Rightarrow> nat \<Rightarrow> ibuffer
    \<Rightarrow> (io_err, ibuffer \<times> 'r \<times> nat \<times> io_err option) result option" where
  "read_loop read r n b =
     (let b = read_space b in
      case read (ib_Cap b - ib_len b) r of (r', data, e) \<Rightarrow>
        let b' = b\<lparr>ib_arr := Some (copy_at (ib_len b) data (ib_array b))\<rparr> in
        case reslice (ib_len b + length data) b' of
          Panic \<Rightarrow> Some Panic
        | Err x \<Rightarrow> Some (Err x)
        | Ok b'' \<Rightarrow>
            (case e of
               None \<Rightarrow> read_loop read r' (n + length data) b''
             | Some EOF \<Rightarrow> Some (Ok (b'', r', n + length data, None))
             | Some x \<Rightarrow> Some (Ok (b'', r', n + length data, Some x))))"

definition ib_ReadFrom :: "(nat \<Rightarrow> 'r \<Rightarrow> 'r \<times> bytes \<times> io_err option) \<Rightarrow> 'r \<Rightarrow> ibuffer
    \<Rightarrow> (io_err, ibuffer \<times> 'r \<times> nat \<times> io_err option) result option" where
  "ib_ReadFrom read r b =
     (case (if ib_off b \<ge> ib_len b then ib_Truncate 0 b else Ok b) of
        Panic \<Rightarrow> Some Panic
      | Err x \<Rightarrow> Some (Err x)
      | Ok b \<Rightarrow> read_loop read r 0 b)"

section \<open>The invariant, and what room is made\<close>

definition ib_ok :: "ibuffer \<Rightarrow> bool" where
  "ib_ok b = (ib_off b \<le> ib_len b \<and> ib_len b \<le> ib_Cap b)"

lemma Bytes_window: "ib_Bytes b = take (ib_Len b) (drop (ib_off b) (ib_array b))"
  by (simp add: ib_Bytes_def ib_Len_def drop_take)

lemma Bytes_length: "ib_ok b \<Longrightarrow> length (ib_Bytes b) = ib_Len b"
  by (simp add: ib_Bytes_def ib_Len_def ib_ok_def ib_Cap_def)

lemma copy_at_length [simp]: "i \<le> length dst \<Longrightarrow> length (copy_at i src dst) = length dst"
  by (simp add: copy_at_def)

lemma copy_at_window:
  assumes "i + length src \<le> length dst"
  shows "take (length src) (drop i (copy_at i src dst)) = src" "take i (copy_at i src dst) = take i dst"
  using assms by (simp_all add: copy_at_def)

lemma makeSlice_length [simp]: "length (makeSlice n) = n"
  by (simp add: makeSlice_def)

lemma Truncate_zero: "ib_ok b \<Longrightarrow> ib_Truncate 0 b = Ok (b\<lparr>ib_off := 0, ib_len := 0\<rparr>)"
  by (simp add: ib_Truncate_def reslice_def)

lemma make_room_spec:
  fixes n :: nat
  assumes "ib_ok b"
  defines "b' \<equiv> ib_make_room (ib_Len b) n b"
  shows "ib_off b' + ib_Len b + n \<le> ib_Cap b'" "take (ib_Len b) (drop (ib_off b') (ib_array b')) = ib_Bytes b"
proof -
  have len: "length (ib_Bytes b) = ib_Len b" "ib_Len b \<le> ib_Cap b" using assms(1) Bytes_length by (auto simp: ib_ok_def ib_Len_def)
  consider (fits) "ib_len b + n \<le> ib_Cap b" | (slide) "ib_len b + n > ib_Cap b" "ib_Len b + n \<le> ib_Cap b div 2"
    | (fresh) "ib_len b + n > ib_Cap b" "ib_Len b + n > ib_Cap b div 2" by linarith
  then have "ib_off b' + ib_Len b + n \<le> ib_Cap b' \<and> take (ib_Len b) (drop (ib_off b') (ib_array b')) = ib_Bytes b"
  proof cases
    case fits
    then show ?thesis using assms(1) by (simp add: b'_def ib_make_room_def Bytes_window ib_ok_def ib_Len_def)
  next
    case slide
    then show ?thesis using len copy_at_window(1) [of 0 "ib_Bytes b" "ib_array b"]
      by (simp add: b'_def ib_make_room_def ib_array_def ib_Cap_def)
  next
    case fresh
    then show ?thesis using len copy_at_window(1) [of 0 "ib_Bytes b" "makeSlice (2 * ib_Cap b + n)"]
      by (simp add: b'_def ib_make_room_def ib_array_def ib_Cap_def)
  qed
  then show "ib_off b' + ib_Len b + n \<le> ib_Cap b'" "take (ib_Len b) (drop (ib_off b') (ib_array b')) = ib_Bytes b" by simp_all
qed

lemma grow_spec:
  assumes "ib_ok b"
  shows "\<exists>b'. ib_grow n b = Ok (b', ib_off b' + ib_Len b) \<and> ib_ok b' \<and> ib_len b' = ib_off b' + ib_Len b + n \<and>
    take (ib_Len b) (drop (ib_off b') (ib_array b')) = ib_Bytes b"
proof (cases "ib_arr b = None")
  case True
  then have "ib_off b = 0" "ib_len b = 0" using assms by (simp_all add: ib_ok_def ib_Cap_def ib_array_def)
  then show ?thesis using True by (simp add: ib_grow_def ib_ok_def ib_Cap_def ib_array_def ib_Len_def ib_Bytes_def)
next
  case False
  obtain b0 where b0: "(if ib_Len b = 0 \<and> ib_off b \<noteq> 0 then ib_Truncate 0 b else Ok b) = Ok b0" "ib_ok b0"
      "ib_Len b0 = ib_Len b" "ib_Bytes b0 = ib_Bytes b"
    using assms by (cases "ib_Len b = 0 \<and> ib_off b \<noteq> 0")
      (auto simp: Truncate_zero ib_ok_def ib_Len_def ib_Bytes_def ib_Cap_def ib_array_def)
  note room = make_room_spec [OF b0(2), of n]
  let ?b = "ib_make_room (ib_Len b) n b0"
  have "ib_grow n b = Ok (?b\<lparr>ib_len := ib_off ?b + ib_Len b + n\<rparr>, ib_off ?b + ib_Len b)"
    using False b0 room(1) by (auto simp add: ib_grow_def Let_def reslice_def)
  then show ?thesis using room b0 by (simp add: ib_ok_def ib_Cap_def ib_array_def)
qed

section \<open>Each call on the contents\<close>

lemma Write_spec:
  assumes "ib_ok b"
  shows "\<exists>b'. ib_Write p b = Ok (b', length p) \<and> ib_ok b' \<and> ib_Bytes b' = ib_Bytes b @ p"
proof -
  obtain b1 where b1: "ib_grow (length p) b = Ok (b1, ib_off b1 + ib_Len b)" "ib_ok b1" "ib_len b1 = ib_off b1 + ib_Len b + length p"
      "take (ib_Len b) (drop (ib_off b1) (ib_array b1)) = ib_Bytes b"
    using grow_spec [OF assms] by blast
  let ?i = "ib_off b1 + ib_Len b" and ?a = "ib_array b1"
  have room: "?i + length p \<le> length ?a" using b1(2,3) by (simp add: ib_ok_def ib_Cap_def)
  note copied = copy_at_window [OF room]
  have front: "take (ib_Len b) (drop (ib_off b1) (copy_at ?i p ?a)) = ib_Bytes b"
    using b1(4) copied(2) by (simp add: take_drop add.commute)
  have "take (ib_Len b + length p) (drop (ib_off b1) (copy_at ?i p ?a)) = ib_Bytes b @ p"
    unfolding take_add drop_drop using front copied(1) by (simp add: add.commute)
  then show ?thesis using b1 room
    by (simp add: ib_Write_def ib_ok_def ib_Cap_def ib_array_def Bytes_window ib_Len_def)
qed

lemma WriteByte_spec:
  assumes "ib_ok b"
  shows "\<exists>b'. ib_WriteByte c b = Ok b' \<and> ib_ok b' \<and> ib_Bytes b' = ib_Bytes b @ [c]"
proof -
  obtain b1 where b1: "ib_grow 1 b = Ok (b1, ib_off b1 + ib_Len b)" "ib_ok b1" "ib_len b1 = ib_off b1 + ib_Len b + 1"
      "take (ib_Len b) (drop (ib_off b1) (ib_array b1)) = ib_Bytes b"
    using grow_spec [OF assms] by blast
  let ?i = "ib_off b1 + ib_Len b" and ?a = "ib_array b1"
  have i: "?i < length ?a" using b1(2,3) by (simp add: ib_ok_def ib_Cap_def)
  have "take (ib_Len b + 1) (drop (ib_off b1) (?a[?i := c])) = ib_Bytes b @ [c]"
    using b1(4) i by (simp add: take_Suc_conv_app_nth drop_update_swap)
  then show ?thesis using b1 i by (simp add: ib_WriteByte_def ib_ok_def ib_Cap_def ib_array_def Bytes_window ib_Len_def)
qed

lemma Truncate_spec:
  assumes "ib_ok b" "0 \<le> n" "n \<le> int (ib_Len b)"
  shows "\<exists>b'. ib_Truncate n b = Ok b' \<and> ib_ok b' \<and> ib_Bytes b' = take (nat n) (ib_Bytes b)"
  using assms
  by (auto simp: ib_Truncate_def reslice_def ib_ok_def ib_Cap_def ib_Len_def ib_Bytes_def ib_array_def Let_def drop_take min_def)

lemma advance_spec:
  assumes "ib_ok b" "k \<le> ib_Len b"
  shows "ib_ok (b\<lparr>ib_off := ib_off b + k\<rparr>)" "ib_Bytes (b\<lparr>ib_off := ib_off b + k\<rparr>) = drop k (ib_Bytes b)"
  using assms by (auto simp: ib_ok_def ib_Cap_def ib_array_def ib_Bytes_def ib_Len_def add.commute)

lemma empty_Bytes: "ib_ok b \<Longrightarrow> (ib_off b \<ge> ib_len b) = (ib_Bytes b = [])"
  by (auto simp: ib_Bytes_def ib_ok_def ib_Cap_def)

lemma emptied: "ib_ok b \<Longrightarrow> ib_Bytes b = [] \<Longrightarrow> \<exists>b'. ib_Truncate 0 b = Ok b' \<and> ib_ok b' \<and> ib_Bytes b' = []"
  by (simp add: Truncate_zero ib_ok_def ib_Bytes_def)

lemma Read_spec:
  assumes "ib_ok b"
  shows "\<exists>b'. ib_Read k b = Ok (b', take k (ib_Bytes b), if ib_Bytes b = [] \<and> k \<noteq> 0 then Some EOF else None) \<and>
    ib_ok b' \<and> ib_Bytes b' = drop k (ib_Bytes b)"
proof (cases "ib_Bytes b = []")
  case True
  then show ?thesis using emptied [OF assms True] empty_Bytes [OF assms] by (auto simp: ib_Read_def)
next
  case False
  have "length (take k (ib_Bytes b)) \<le> ib_Len b" "drop (length (take k (ib_Bytes b))) (ib_Bytes b) = drop k (ib_Bytes b)"
    using Bytes_length [OF assms] by (auto simp: min_def)
  then show ?thesis using False empty_Bytes [OF assms] advance_spec [OF assms] by (auto simp: ib_Read_def Let_def)
qed

lemma Next_spec:
  assumes "ib_ok b" "0 \<le> n"
  shows "\<exists>b'. ib_Next n b = Ok (b', take (nat n) (ib_Bytes b)) \<and> ib_ok b' \<and> ib_Bytes b' = drop (nat n) (ib_Bytes b)"
proof (cases "n > int (ib_Len b)")
  case True
  then have "length (ib_Bytes b) \<le> nat n" "length (ib_Bytes b) = ib_Len b" using Bytes_length [OF assms(1)] by simp_all
  then show ?thesis using True advance_spec [OF assms(1), of "ib_Len b"] by (auto simp: ib_Next_def Let_def)
next
  case False
  then show ?thesis using assms(2) advance_spec [OF assms(1), of "nat n"] by (auto simp: ib_Next_def Let_def)
qed

lemma ReadByte_spec:
  assumes "ib_ok b"
  shows "\<exists>b'. ib_ReadByte b = Ok (b', case ib_Bytes b of [] \<Rightarrow> None | c # _ \<Rightarrow> Some c) \<and> ib_ok b' \<and> ib_Bytes b' = drop 1 (ib_Bytes b)"
proof (cases "ib_Bytes b")
  case Nil
  then show ?thesis using emptied [OF assms] empty_Bytes [OF assms] by (auto simp: ib_ReadByte_def)
next
  case (Cons c cs)
  have "ib_off b < length (take (ib_len b) (ib_array b))"
    using Cons unfolding ib_Bytes_def by (metis drop_eq_Nil leI list.distinct(1))
  then have "ib_array b ! ib_off b = c" using Cons by (simp add: ib_Bytes_def Cons_nth_drop_Suc [symmetric])
  moreover have "1 \<le> ib_Len b" using Cons Bytes_length [OF assms] by simp
  ultimately show ?thesis using Cons empty_Bytes [OF assms] advance_spec [OF assms, of 1] assms by (auto simp: ib_ReadByte_def ib_ok_def)
qed

lemma ReadBytes_spec:
  assumes "ib_ok b" "ib_ReadBytes delim b = (b', line, e)"
  shows "ib_ok b' \<and> ib_Bytes b = line @ ib_Bytes b' \<and>
    (if delim \<in> set (ib_Bytes b) then e = None \<and> (\<exists>xs. line = xs @ [delim] \<and> delim \<notin> set xs) else e = Some EOF \<and> ib_Bytes b' = [])"
proof -
  let ?s = "ib_Bytes b" and ?l = "takeWhile (\<lambda>c. c \<noteq> delim) (ib_Bytes b)"
  show ?thesis
  proof (cases "length ?l < length ?s")
    case True
    then have nth: "?s ! length ?l = delim" using nth_length_takeWhile [of "\<lambda>c. c \<noteq> delim" ?s] by simp
    have at: "?s = ?l @ delim # drop (Suc (length ?l)) ?s"
      using id_take_nth_drop [OF True] unfolding nth takeWhile_eq_take [symmetric] .
    have "delim \<in> set ?s" using nth_mem [OF True] nth by simp
    note at = at this
    have "Suc (length ?l) \<le> ib_Len b" using True Bytes_length [OF assms(1)] by simp
    then show ?thesis using True assms(2) at advance_spec [OF assms(1), of "Suc (length ?l)"] set_takeWhileD [of _ "\<lambda>c. c \<noteq> delim" ?s]
      by (auto simp: ib_ReadBytes_def Let_def)
  next
    case False
    then have "takeWhile (\<lambda>c. c \<noteq> delim) ?s = ?s" using length_takeWhile_le [of "\<lambda>c. c \<noteq> delim" ?s]
      by (metis le_neq_implies_less takeWhile_eq_take take_all order.refl)
    then have no: "delim \<notin> set ?s" using set_takeWhileD [of delim "\<lambda>c. c \<noteq> delim" ?s] by auto
    have "b' = b\<lparr>ib_off := ib_off b + ib_Len b\<rparr>" using assms False by (auto simp: ib_ReadBytes_def Let_def ib_ok_def ib_Len_def)
    then show ?thesis using False no assms(2) advance_spec [OF assms(1), of "ib_Len b"] Bytes_length [OF assms(1)]
      by (simp add: ib_ReadBytes_def Let_def)
  qed
qed

lemma Grow_spec:
  assumes "ib_ok b" "0 \<le> n"
  shows "\<exists>b'. ib_Grow n b = Ok b' \<and> ib_ok b' \<and> ib_Bytes b' = ib_Bytes b \<and> ib_len b' + nat n \<le> ib_Cap b'"
proof -
  obtain b1 where b1: "ib_grow (nat n) b = Ok (b1, ib_off b1 + ib_Len b)" "ib_ok b1" "ib_len b1 = ib_off b1 + ib_Len b + nat n"
      "take (ib_Len b) (drop (ib_off b1) (ib_array b1)) = ib_Bytes b"
    using grow_spec [OF assms(1)] by blast
  then show ?thesis using assms(2)
    by (auto simp: ib_Grow_def reslice_def ib_ok_def ib_Cap_def ib_array_def Bytes_window ib_Len_def)
qed

lemma read_space_spec:
  assumes "ib_ok b"
  shows "ib_ok (read_space b) \<and> ib_Bytes (read_space b) = ib_Bytes b \<and> ib_len (read_space b) < ib_Cap (read_space b)"
proof -
  note len = Bytes_length [OF assms]
  have le: "ib_Len b \<le> ib_Cap b" using assms by (auto simp: ib_ok_def ib_Len_def)
  have copied: "take (ib_Len b) (copy_at 0 (ib_Bytes b) xs) = ib_Bytes b" if "ib_Len b \<le> length xs" for xs
    using copy_at_window(1) [of 0 "ib_Bytes b" xs] that len by simp
  consider (room) "ib_Cap b - ib_len b \<ge> minRead" | (slide) "ib_Cap b - ib_len b < minRead" "ib_off b + (ib_Cap b - ib_len b) \<ge> minRead"
    | (fresh) "ib_Cap b - ib_len b < minRead" "ib_off b + (ib_Cap b - ib_len b) < minRead" by linarith
  then show ?thesis
  proof cases
    case room
    then show ?thesis using assms by (simp add: read_space_def minRead_def)
  next
    case slide
    then show ?thesis using copied [of "ib_array b"] le assms
      by (auto simp: read_space_def Let_def minRead_def Bytes_window ib_array_def ib_Cap_def ib_ok_def ib_Len_def)
  next
    case fresh
    then show ?thesis using copied [of "makeSlice (2 * ib_Cap b + minRead)"] le assms
      by (auto simp: read_space_def Let_def minRead_def Bytes_window ib_array_def ib_Cap_def ib_ok_def ib_Len_def)
  qed
qed

lemma append_data_spec:
  assumes "ib_ok b" "ib_len b + length data \<le> ib_Cap b"
  defines "b' \<equiv> b\<lparr>ib_arr := Some (copy_at (ib_len b) data (ib_array b))\<rparr>"
  shows "\<exists>b''. reslice (ib_len b + length data) b' = Ok b'' \<and> ib_ok b'' \<and> ib_Bytes b'' = ib_Bytes b @ data"
proof -
  have "ib_len b + length data \<le> length (ib_array b)" using assms(2) by (simp add: ib_Cap_def)
  note copied = copy_at_window [OF this]
  have "take (ib_len b + length data) (copy_at (ib_len b) data (ib_array b)) = take (ib_len b) (ib_array b) @ data"
    unfolding take_add using copied by simp
  then show ?thesis using assms
    by (simp add: reslice_def ib_ok_def ib_Cap_def ib_array_def ib_Bytes_def b'_def)
qed

section \<open>Readers\<close>

text \<open>
  The contract of \<^verbatim>\<open>io.Reader\<close> as \<^verbatim>\<open>ReadFrom\<close> relies on it: a call returns the bytes that come first, at most as many as
  asked for; the end is reported when nothing is left; and it is reported after finitely many calls.
\<close>

locale reader =
  fixes read :: "nat \<Rightarrow> 'r \<Rightarrow> 'r \<times> bytes \<times> io_err option" and rest :: "'r \<Rightarrow> bytes" and rank :: "'r \<Rightarrow> nat" and ok :: "'r \<Rightarrow> bool"
  assumes read_data: "ok r \<Longrightarrow> 0 < k \<Longrightarrow> read k r = (r', data, e) \<Longrightarrow> ok r' \<and> length data \<le> k \<and> rest r = data @ rest r'"
    and read_end: "ok r \<Longrightarrow> 0 < k \<Longrightarrow> read k r = (r', data, Some EOF) \<Longrightarrow> rest r' = []"
    and read_progress: "ok r \<Longrightarrow> 0 < k \<Longrightarrow> read k r = (r', data, None) \<Longrightarrow> rank r' < rank r"
begin

lemma read_loop_appends:
  assumes "ok r" "ib_ok b"
  shows "\<exists>b' r' data e. read_loop read r n b = Some (Ok (b', r', n + length data, e)) \<and> ok r' \<and> ib_ok b' \<and>
    ib_Bytes b' = ib_Bytes b @ data \<and> rest r = data @ rest r' \<and> (e = None \<longrightarrow> rest r' = []) \<and>
    (e \<noteq> None \<longrightarrow> (\<exists>k r0 r1 d. ok r0 \<and> 0 < k \<and> read k r0 = (r1, d, e) \<and> e \<noteq> Some EOF))"
  using assms
proof (induction "rank r" arbitrary: r b n rule: less_induct)
  case less
  let ?b = "read_space b"
  note space = read_space_spec [OF less.prems(2)]
  obtain r1 d e where rd: "read (ib_Cap ?b - ib_len ?b) r = (r1, d, e)" by (cases "read (ib_Cap ?b - ib_len ?b) r")
  have k: "0 < ib_Cap ?b - ib_len ?b" using space by simp
  note d = read_data [OF less.prems(1) k rd]
  obtain b1 where b1: "reslice (ib_len ?b + length d) (?b\<lparr>ib_arr := Some (copy_at (ib_len ?b) d (ib_array ?b))\<rparr>) = Ok b1"
      "ib_ok b1" "ib_Bytes b1 = ib_Bytes b @ d"
    using append_data_spec [of ?b d] space d by (auto simp: le_diff_conv2)
  show ?case
  proof (cases e)
    case None
    then have "rank r1 < rank r" "ok r1" using read_progress [OF less.prems(1) k] rd d by simp_all
    from less.hyps [OF this b1(2), of "n + length d"] obtain b' r' data e' where
      "read_loop read r1 (n + length d) b1 = Some (Ok (b', r', n + length d + length data, e'))" "ok r'" "ib_ok b'"
      "ib_Bytes b' = ib_Bytes b1 @ data" "rest r1 = data @ rest r'" "e' = None \<longrightarrow> rest r' = []"
      "e' \<noteq> None \<longrightarrow> (\<exists>k r0 r1 d. ok r0 \<and> 0 < k \<and> read k r0 = (r1, d, e') \<and> e' \<noteq> Some EOF)" by blast
    then show ?thesis using None rd b1 d
      by (intro exI [of _ b'] exI [of _ r'] exI [of _ "d @ data"] exI [of _ e'])
        (simp add: read_loop.simps [of read r n b] Let_def add.assoc)
  next
    case (Some x)
    have "\<exists>k r0 r1 d. ok r0 \<and> 0 < k \<and> read k r0 = (r1, d, Some x)" using less.prems(1) k rd Some by blast
    then show ?thesis using Some rd b1 d read_end [OF less.prems(1) k, of r1 d]
      by (intro exI [of _ b1] exI [of _ r1] exI [of _ d] exI [of _ "if x = EOF then None else Some x"])
        (auto simp: read_loop.simps [of read r n b] Let_def split: io_err.splits)
  qed
qed

lemma ReadFrom_appends:
  assumes "ok r" "ib_ok b"
  shows "\<exists>b' r' data e. ib_ReadFrom read r b = Some (Ok (b', r', length data, e)) \<and> ok r' \<and> ib_ok b' \<and>
    ib_Bytes b' = ib_Bytes b @ data \<and> rest r = data @ rest r' \<and> (e = None \<longrightarrow> rest r' = []) \<and>
    (e \<noteq> None \<longrightarrow> (\<exists>k r0 r1 d. ok r0 \<and> 0 < k \<and> read k r0 = (r1, d, e) \<and> e \<noteq> Some EOF))"
proof -
  obtain b0 where b0: "(if ib_off b \<ge> ib_len b then ib_Truncate 0 b else Ok b) = Ok b0" "ib_ok b0" "ib_Bytes b0 = ib_Bytes b"
    using emptied [OF assms(2)] empty_Bytes [OF assms(2)] assms(2) by (cases "ib_Bytes b = []") auto
  then show ?thesis using read_loop_appends [OF assms(1) b0(2), of 0] by (simp add: ib_ReadFrom_def)
qed

end

text \<open>A reader over a list of bytes, and a buffer as a reader.\<close>

definition bytes_Read :: "nat \<Rightarrow> bytes \<Rightarrow> bytes \<times> bytes \<times> io_err option" where
  "bytes_Read k xs = (drop k xs, take k xs, if xs = [] then Some EOF else None)"

interpretation br: reader bytes_Read id length "\<lambda>_. True"
  by unfold_locales (auto simp: bytes_Read_def split: if_splits)

definition ib_reader :: "nat \<Rightarrow> ibuffer \<Rightarrow> ibuffer \<times> bytes \<times> io_err option" where
  "ib_reader k b = (case ib_Read k b of Ok (b', data, e) \<Rightarrow> (b', data, e) | _ \<Rightarrow> (b, [], Some OtherErr))"

lemma ib_reader_cases:
  assumes "ib_ok b" "0 < k" "ib_reader k b = (b', data, e)"
  shows "ib_ok b' \<and> data = take k (ib_Bytes b) \<and> ib_Bytes b' = drop k (ib_Bytes b) \<and> e = (if ib_Bytes b = [] then Some EOF else None)"
  using Read_spec [OF assms(1), of k] assms(2,3) by (auto simp: ib_reader_def)

interpretation ibr: reader ib_reader ib_Bytes "\<lambda>b. length (ib_Bytes b)" ib_ok
proof unfold_locales
  fix r k r' data e assume "ib_ok r" "0 < (k :: nat)" "ib_reader k r = (r', data, e)"
  from ib_reader_cases [OF this] show "ib_ok r' \<and> length data \<le> k \<and> ib_Bytes r = data @ ib_Bytes r'" by simp
next
  fix r k r' data assume "ib_ok r" "0 < (k :: nat)" "ib_reader k r = (r', data, Some EOF)"
  from ib_reader_cases [OF this] show "ib_Bytes r' = []" by (simp split: if_splits)
next
  fix r k r' data assume "ib_ok r" "0 < (k :: nat)" "ib_reader k r = (r', data, None)"
  from ib_reader_cases [OF this] \<open>0 < k\<close> show "length (ib_Bytes r') < length (ib_Bytes r)" by (simp split: if_splits)
qed

section \<open>The interface\<close>

text \<open>
  The calls of \<^verbatim>\<open>Buffer\<close> that move bytes, as a queue: what is written comes out in that order.
\<close>

record 'b Buffer =
  bf_Write :: "bytes \<Rightarrow> 'b \<Rightarrow> (io_err, 'b \<times> nat) result"
  bf_WriteByte :: "byte \<Rightarrow> 'b \<Rightarrow> (io_err, 'b) result"
  bf_Read :: "nat \<Rightarrow> 'b \<Rightarrow> (io_err, 'b \<times> bytes \<times> io_err option) result"
  bf_Next :: "int \<Rightarrow> 'b \<Rightarrow> (io_err, 'b \<times> bytes) result"
  bf_ReadByte :: "'b \<Rightarrow> (io_err, 'b \<times> byte option) result"
  bf_ReadBytes :: "byte \<Rightarrow> 'b \<Rightarrow> 'b \<times> bytes \<times> io_err option"
  bf_Grow :: "int \<Rightarrow> 'b \<Rightarrow> (io_err, 'b) result"

datatype buffer_call = CWrite bytes | CWriteByte byte | CRead nat | CNext nat | CReadByte | CReadBytes byte | CGrow nat

definition buffer_step :: "'b Buffer \<Rightarrow> buffer_call \<Rightarrow> 'b \<Rightarrow> (io_err, 'b \<times> bytes) result" where
  "buffer_step ops c b = (case c of
      CWrite p \<Rightarrow> result_bind (bf_Write ops p b) (\<lambda>(b, _). Ok (b, []))
    | CWriteByte x \<Rightarrow> result_bind (bf_WriteByte ops x b) (\<lambda>b. Ok (b, []))
    | CRead k \<Rightarrow> result_bind (bf_Read ops k b) (\<lambda>(b, d, _). Ok (b, d))
    | CNext k \<Rightarrow> bf_Next ops (int k) b
    | CReadByte \<Rightarrow> result_bind (bf_ReadByte ops b) (\<lambda>(b, x). Ok (b, case x of None \<Rightarrow> [] | Some x \<Rightarrow> [x]))
    | CReadBytes d \<Rightarrow> (case bf_ReadBytes ops d b of (b, line, _) \<Rightarrow> Ok (b, line))
    | CGrow k \<Rightarrow> result_bind (bf_Grow ops (int k) b) (\<lambda>b. Ok (b, [])))"

fun buffer_run :: "'b Buffer \<Rightarrow> buffer_call list \<Rightarrow> 'b \<Rightarrow> (io_err, 'b \<times> bytes) result" where
  "buffer_run ops [] b = Ok (b, [])"
| "buffer_run ops (c # cs) b =
     result_bind (buffer_step ops c b) (\<lambda>(b, d). result_bind (buffer_run ops cs b) (\<lambda>(b, ds). Ok (b, d @ ds)))"

fun written :: "buffer_call \<Rightarrow> bytes" where
  "written (CWrite p) = p"
| "written (CWriteByte x) = [x]"
| "written _ = []"

locale byte_buffer =
  fixes ops :: "'b Buffer" and contents :: "'b \<Rightarrow> bytes" and ok :: "'b \<Rightarrow> bool"
  assumes Write: "ok b \<Longrightarrow> \<exists>b'. bf_Write ops p b = Ok (b', length p) \<and> ok b' \<and> contents b' = contents b @ p"
    and WriteByte: "ok b \<Longrightarrow> \<exists>b'. bf_WriteByte ops x b = Ok b' \<and> ok b' \<and> contents b' = contents b @ [x]"
    and Read: "ok b \<Longrightarrow> \<exists>b' e. bf_Read ops k b = Ok (b', take k (contents b), e) \<and> ok b' \<and> contents b' = drop k (contents b)"
    and Next: "ok b \<Longrightarrow> \<exists>b'. bf_Next ops (int k) b = Ok (b', take k (contents b)) \<and> ok b' \<and> contents b' = drop k (contents b)"
    and ReadByte: "ok b \<Longrightarrow> \<exists>b'. bf_ReadByte ops b = Ok (b', case contents b of [] \<Rightarrow> None | x # _ \<Rightarrow> Some x) \<and> ok b' \<and> contents b' = drop 1 (contents b)"
    and ReadBytes: "ok b \<Longrightarrow> bf_ReadBytes ops d b = (b', line, e) \<Longrightarrow> ok b' \<and> contents b = line @ contents b'"
    and Grow: "ok b \<Longrightarrow> \<exists>b'. bf_Grow ops (int k) b = Ok b' \<and> ok b' \<and> contents b' = contents b"
begin

lemma step_queue:
  assumes "ok b"
  shows "\<exists>b' d. buffer_step ops c b = Ok (b', d) \<and> ok b' \<and> d @ contents b' = contents b @ written c"
proof (cases c)
  case (CWrite p)
  then show ?thesis using Write [OF assms, of p] by (auto simp: buffer_step_def)
next
  case (CWriteByte x)
  then show ?thesis using WriteByte [OF assms, of x] by (auto simp: buffer_step_def)
next
  case (CRead k)
  then show ?thesis using Read [OF assms, of k] by (auto simp: buffer_step_def)
next
  case (CNext k)
  then show ?thesis using Next [OF assms, of k] by (auto simp: buffer_step_def)
next
  case CReadByte
  then show ?thesis using ReadByte [OF assms] by (cases "contents b") (auto simp: buffer_step_def)
next
  case (CReadBytes d)
  then show ?thesis using ReadBytes [OF assms, of d] by (cases "bf_ReadBytes ops d b") (auto simp: buffer_step_def)
next
  case (CGrow k)
  then show ?thesis using Grow [OF assms, of k] by (auto simp: buffer_step_def)
qed

lemma run_queue:
  assumes "ok b"
  shows "\<exists>b' out. buffer_run ops cs b = Ok (b', out) \<and> ok b' \<and> out @ contents b' = contents b @ concat (map written cs)"
  using assms
proof (induction cs arbitrary: b)
  case (Cons c cs)
  obtain b1 d where b1: "buffer_step ops c b = Ok (b1, d)" "ok b1" "d @ contents b1 = contents b @ written c"
    using step_queue [OF Cons.prems] by blast
  then obtain b' out where "buffer_run ops cs b1 = Ok (b', out)" "ok b'" "out @ contents b' = contents b1 @ concat (map written cs)"
    using Cons.IH by blast
  moreover have "(d @ out) @ contents b' = contents b @ concat (map written (c # cs))"
  proof -
    have "(d @ out) @ contents b' = (d @ contents b1) @ concat (map written cs)" using \<open>out @ contents b' = _\<close> by simp
    then show ?thesis using b1(3) by simp
  qed
  ultimately show ?case using b1 by simp
qed simp

end

definition ib_Buffer :: "ibuffer Buffer" where
  "ib_Buffer = \<lparr>bf_Write = ib_Write, bf_WriteByte = ib_WriteByte, bf_Read = ib_Read, bf_Next = ib_Next, bf_ReadByte = ib_ReadByte,
     bf_ReadBytes = ib_ReadBytes, bf_Grow = ib_Grow\<rparr>"

interpretation ib: byte_buffer ib_Buffer ib_Bytes ib_ok
proof unfold_locales
  fix b :: ibuffer and k :: nat assume b: "ib_ok b"
  show "\<exists>b' e. bf_Read ib_Buffer k b = Ok (b', take k (ib_Bytes b), e) \<and> ib_ok b' \<and> ib_Bytes b' = drop k (ib_Bytes b)"
    using Read_spec [OF b, of k] by (auto simp: ib_Buffer_def)
  show "\<exists>b'. bf_Next ib_Buffer (int k) b = Ok (b', take k (ib_Bytes b)) \<and> ib_ok b' \<and> ib_Bytes b' = drop k (ib_Bytes b)"
    using Next_spec [OF b, of "int k"] by (simp add: ib_Buffer_def)
  show "\<exists>b'. bf_Grow ib_Buffer (int k) b = Ok b' \<and> ib_ok b' \<and> ib_Bytes b' = ib_Bytes b"
    using Grow_spec [OF b, of "int k"] by (auto simp: ib_Buffer_def)
next
  fix b b' :: ibuffer and d line e assume "ib_ok b" "bf_ReadBytes ib_Buffer d b = (b', line, e)"
  then show "ib_ok b' \<and> ib_Bytes b = line @ ib_Bytes b'" using ReadBytes_spec by (simp add: ib_Buffer_def)
qed (use Write_spec WriteByte_spec ReadByte_spec in \<open>simp_all add: ib_Buffer_def\<close>)

section \<open>Properties\<close>


abbreviation empty_ibuffer :: ibuffer where
  "empty_ibuffer \<equiv> \<lparr>ib_off = 0, ib_arr = None, ib_len = 0\<rparr>"

lemma empty_ibuffer_ok: "ib_ok empty_ibuffer" "ib_Bytes empty_ibuffer = []"
  by (simp_all add: ib_ok_def ib_Bytes_def ib_array_def)


text \<open>
  Reading one buffer into another returns, empties the first and appends its bytes to the second.
\<close>

theorem buffer_copied:
  assumes "ib_ok a" "ib_ok b"
  shows "\<exists>b' a'. ib_ReadFrom ib_reader a b = Some (Ok (b', a', length (ib_Bytes a), None)) \<and>
    ib_Bytes b' = ib_Bytes b @ ib_Bytes a \<and> ib_Bytes a' = [] \<and> ib_ok a' \<and> ib_ok b'"
proof -
  obtain b' a' data e where r: "ib_ReadFrom ib_reader a b = Some (Ok (b', a', length data, e))" "ib_ok a'" "ib_ok b'"
      "ib_Bytes b' = ib_Bytes b @ data" "ib_Bytes a = data @ ib_Bytes a'" "e = None \<longrightarrow> ib_Bytes a' = []"
      "e \<noteq> None \<longrightarrow> (\<exists>k r0 r1 d. ib_ok r0 \<and> 0 < k \<and> ib_reader k r0 = (r1, d, e) \<and> e \<noteq> Some EOF)"
    using ibr.ReadFrom_appends [OF assms] by blast
  have "e = None" using r(7) ib_reader_cases by (metis (full_types))
  then show ?thesis using r by auto
qed

theorem buffer_copied_witness:
  "\<exists>b' a'. ib_ReadFrom ib_reader \<lparr>ib_off = 1, ib_arr = Some [9, 1, 2, 0], ib_len = 3\<rparr> empty_ibuffer = Some (Ok (b', a', 2, None)) \<and>
    ib_Bytes b' = [1, 2] \<and> ib_Bytes a' = []"
proof -
  have "ib_ok \<lparr>ib_off = 1, ib_arr = Some [9, 1, 2, 0], ib_len = 3\<rparr>" "ib_Bytes \<lparr>ib_off = 1, ib_arr = Some [9, 1, 2, 0], ib_len = 3\<rparr> = [1, 2]"
    by (simp_all add: ib_ok_def ib_Cap_def ib_array_def ib_Bytes_def)
  with buffer_copied [OF this(1) empty_ibuffer_ok(1)] show ?thesis by (auto simp: empty_ibuffer_ok(2))
qed

text \<open>Room that was asked for is there, and asking for a negative number of bytes panics, as the interface says.\<close>

lemma Grow_guarantee:
  "ib_ok b \<Longrightarrow> 0 \<le> n \<Longrightarrow> \<exists>b'. ib_Grow n b = Ok b' \<and> ib_Bytes b' = ib_Bytes b \<and> ib_len b' + nat n \<le> ib_Cap b'"
  "n < 0 \<Longrightarrow> ib_Grow n b = Panic" "n < 0 \<Longrightarrow> ib_Alloc n b = Panic"
  using Grow_spec [of b n] by (auto simp: ib_Grow_def ib_Alloc_def)

end
