(* ===== verification/Topo_Etcd.thy ===== *)
theory Topo_Etcd
  imports Topo_Ids
begin

text \<open>
  The topology store over etcd (\<^verbatim>\<open>topo/etcd3topo/file.go\<close>, \<^verbatim>\<open>transaction.go\<close>, \<^verbatim>\<open>error.go\<close>).  The etcd
  client is outside the repository: its calls are a record, and the locale \<open>etcd\<close> says what
  etcd documents of them, over a database of keys with a value, the number of writes since its creation
  (\<^verbatim>\<open>Version\<close>) and the revision of its latest write (\<^verbatim>\<open>ModRevision\<close>).  A call that returns an error
  may or may not have been carried out.  A topology file is a key, its version the key's revision; the
  client of a cell is an argument.
\<close>

section \<open>The etcd client\<close>

datatype 'p etcd_cmp = CmpVersion 'p int | CmpModRevision 'p int

datatype ('p, 'c) etcd_op = OpPut 'p 'c | OpGet 'p | OpDelete 'p

record 'c etcd_kv =
  kv_Value :: 'c
  kv_Version :: int
  kv_ModRevision :: int

datatype 'c etcd_resp = ResponsePut int | ResponseRange "'c etcd_kv list" | ResponseDeleteRange nat

datatype etcd_err = EtcdNotFound | EtcdOther | Canceled | DeadlineExceeded

record ('e, 'p, 'c) etcd_client =
  ec_Txn :: "'e \<Rightarrow> 'p etcd_cmp list \<Rightarrow> ('p, 'c) etcd_op list \<Rightarrow> ('p, 'c) etcd_op list
    \<Rightarrow> 'e \<times> (etcd_err, bool \<times> int \<times> 'c etcd_resp list) result"
  ec_Put :: "'e \<Rightarrow> 'p \<Rightarrow> 'c \<Rightarrow> 'e \<times> (etcd_err, int) result"
  ec_Get :: "'e \<Rightarrow> 'p \<Rightarrow> 'e \<times> (etcd_err, 'c etcd_kv list) result"
  ec_Delete :: "'e \<Rightarrow> 'p \<Rightarrow> 'e \<times> (etcd_err, nat) result"

text \<open>What etcd does: a transaction that writes gets the revision after the database's.\<close>

record ('p, 'c) etcd_db =
  db_Revision :: int
  db_kvs :: "'p \<rightharpoonup> 'c etcd_kv"

definition cmp_holds :: "('p, 'c) etcd_db \<Rightarrow> 'p etcd_cmp \<Rightarrow> bool" where
  "cmp_holds db c = (case c of
      CmpVersion p v \<Rightarrow> (case db_kvs db p of None \<Rightarrow> v = 0 | Some kv \<Rightarrow> kv_Version kv = v)
    | CmpModRevision p r \<Rightarrow> (case db_kvs db p of None \<Rightarrow> r = 0 | Some kv \<Rightarrow> kv_ModRevision kv = r))"

definition put_kv :: "int \<Rightarrow> 'c \<Rightarrow> 'c etcd_kv option \<Rightarrow> 'c etcd_kv" where
  "put_kv rv c old = \<lparr>kv_Value = c, kv_Version = (case old of None \<Rightarrow> 1 | Some kv \<Rightarrow> kv_Version kv + 1), kv_ModRevision = rv\<rparr>"

fun run_op :: "int \<Rightarrow> ('p, 'c) etcd_op \<Rightarrow> ('p \<rightharpoonup> 'c etcd_kv) \<Rightarrow> ('p \<rightharpoonup> 'c etcd_kv) \<times> 'c etcd_resp" where
  "run_op rv (OpPut p c) m = (m(p \<mapsto> put_kv rv c (m p)), ResponsePut rv)"
| "run_op rv (OpGet p) m = (m, ResponseRange (case m p of None \<Rightarrow> [] | Some kv \<Rightarrow> [kv]))"
| "run_op rv (OpDelete p) m = (m(p := None), ResponseDeleteRange (case m p of None \<Rightarrow> 0 | Some _ \<Rightarrow> 1))"

fun run_ops :: "int \<Rightarrow> ('p, 'c) etcd_op list \<Rightarrow> ('p \<rightharpoonup> 'c etcd_kv) \<Rightarrow> ('p \<rightharpoonup> 'c etcd_kv) \<times> 'c etcd_resp list" where
  "run_ops rv [] m = (m, [])"
| "run_ops rv (oper # opers) m =
     (case run_op rv oper m of (m1, r) \<Rightarrow> (case run_ops rv opers m1 of (m2, rs) \<Rightarrow> (m2, r # rs)))"

text \<open>A database with the revision of its latest write; a call that changes nothing keeps it.\<close>

definition do_ops :: "('p, 'c) etcd_op list \<Rightarrow> ('p, 'c) etcd_db \<Rightarrow> ('p, 'c) etcd_db \<times> int \<times> 'c etcd_resp list" where
  "do_ops opers db =
     (case run_ops (db_Revision db + 1) opers (db_kvs db) of (m, rs) \<Rightarrow>
        let rv = (if m = db_kvs db then db_Revision db else db_Revision db + 1)
        in (\<lparr>db_Revision = rv, db_kvs = m\<rparr>, rv, rs))"

definition do_txn :: "'p etcd_cmp list \<Rightarrow> ('p, 'c) etcd_op list \<Rightarrow> ('p, 'c) etcd_op list \<Rightarrow> ('p, 'c) etcd_db
    \<Rightarrow> ('p, 'c) etcd_db \<times> bool \<times> int \<times> 'c etcd_resp list" where
  "do_txn cmps thens elses db =
     (let succeeded = list_all (cmp_holds db) cmps
      in case do_ops (if succeeded then thens else elses) db of (db', rv, rs) \<Rightarrow> (db', succeeded, rv, rs))"

text \<open>Revisions and versions of the keys are positive, and no key is newer than the database.\<close>

definition db_ok :: "('p, 'c) etcd_db \<Rightarrow> bool" where
  "db_ok db = (0 \<le> db_Revision db \<and>
     (\<forall>p kv. db_kvs db p = Some kv \<longrightarrow> 0 < kv_Version kv \<and> 0 < kv_ModRevision kv \<and> kv_ModRevision kv \<le> db_Revision db))"

text \<open>The documented behaviour of one call: what it does when it succeeds, and what may have happened when it does not.\<close>

definition call_ok :: "('e \<Rightarrow> ('p, 'c) etcd_db) \<Rightarrow> 'e \<Rightarrow> ('p, 'c) etcd_db \<times> 'r \<Rightarrow> 'e \<times> (etcd_err, 'r) result \<Rightarrow> bool" where
  "call_ok db st outcome res = (case res of
      (st', Ok r) \<Rightarrow> (db st', r) = outcome
    | (st', Err _) \<Rightarrow> db st' = db st \<or> db st' = fst outcome
    | (_, Panic) \<Rightarrow> False)"

locale etcd =
  fixes cli :: "('e, 'p, 'c) etcd_client" and db :: "'e \<Rightarrow> ('p, 'c) etcd_db"
  assumes Db_ok: "db_ok (db st)"
    and Txn_ok: "call_ok db st (do_txn cmps thens elses (db st)) (ec_Txn cli st cmps thens elses)"
    and Put_ok: "call_ok db st (case do_ops [OpPut p c] (db st) of (d, rv, _) \<Rightarrow> (d, rv)) (ec_Put cli st p c)"
    and Get_ok: "call_ok db st (db st, case db_kvs (db st) p of None \<Rightarrow> [] | Some kv \<Rightarrow> [kv]) (ec_Get cli st p)"
    and Delete_ok: "call_ok db st (case do_ops [OpDelete p] (db st) of (d, _, _) \<Rightarrow>
      (d, if p \<in> dom (db_kvs (db st)) then 1 else 0)) (ec_Delete cli st p)"

section \<open>The store\<close>

definition convertError :: "etcd_err \<Rightarrow> topo_err" where
  "convertError e = (case e of
      EtcdNotFound \<Rightarrow> ErrNoNode | EtcdOther \<Rightarrow> ErrClient | Canceled \<Rightarrow> ErrInterrupted | DeadlineExceeded \<Rightarrow> ErrTimeout)"

text \<open>How the results of the client's calls are turned into those of the store.\<close>

definition answer :: "('r \<Rightarrow> (topo_err, 'a) result) \<Rightarrow> 'e \<times> (etcd_err, 'r) result \<Rightarrow> 'e \<times> (topo_err, 'a) result" where
  "answer f res = (case res of
      (st, Ok r) \<Rightarrow> (st, f r)
    | (st, Err e) \<Rightarrow> (st, Err (convertError e))
    | (st, Panic) \<Rightarrow> (st, Panic))"

definition srv_Create :: "('e, 'p, 'c) etcd_client \<Rightarrow> 'e \<Rightarrow> 'p \<Rightarrow> 'c \<Rightarrow> 'e \<times> (topo_err, int) result" where
  "srv_Create cli st nodePath contents =
     answer (\<lambda>(succeeded, rv, _). if \<not> succeeded then Err ErrNodeExists else Ok rv)
       (ec_Txn cli st [CmpVersion nodePath 0] [OpPut nodePath contents] [])"

definition srv_Update :: "('e, 'p, 'c) etcd_client \<Rightarrow> 'e \<Rightarrow> 'p \<Rightarrow> 'c \<Rightarrow> int option \<Rightarrow> 'e \<times> (topo_err, int) result" where
  "srv_Update cli st nodePath contents version = (case version of
      Some v \<Rightarrow> answer (\<lambda>(succeeded, rv, _). if \<not> succeeded then Err ErrBadVersion else Ok rv)
        (ec_Txn cli st [CmpModRevision nodePath v] [OpPut nodePath contents] [])
    | None \<Rightarrow> answer Ok (ec_Put cli st nodePath contents))"

definition srv_Get :: "('e, 'p, 'c) etcd_client \<Rightarrow> 'e \<Rightarrow> 'p \<Rightarrow> 'e \<times> (topo_err, 'c \<times> int) result" where
  "srv_Get cli st nodePath =
     answer (\<lambda>kvs. if length kvs \<noteq> 1 then Err ErrNoNode else Ok (kv_Value (kvs ! 0), kv_ModRevision (kvs ! 0)))
       (ec_Get cli st nodePath)"

definition srv_Delete :: "('e, 'p, 'c) etcd_client \<Rightarrow> 'e \<Rightarrow> 'p \<Rightarrow> int option \<Rightarrow> 'e \<times> (topo_err, unit) result" where
  "srv_Delete cli st nodePath version = (case version of
      Some v \<Rightarrow> answer (\<lambda>(succeeded, _, responses).
          if \<not> succeeded then
            (case responses of
               ResponseRange (_ # _) # _ \<Rightarrow> Err ErrBadVersion
             | _ \<Rightarrow> Err ErrNoNode)
          else Ok ())
        (ec_Txn cli st [CmpModRevision nodePath v] [OpDelete nodePath] [OpGet nodePath])
    | None \<Rightarrow> answer (\<lambda>deleted. if deleted \<noteq> 1 then Err ErrNoNode else Ok ()) (ec_Delete cli st nodePath))"

text \<open>
  A file that lives as long as its lease (\<^verbatim>\<open>ephemeral.go\<close>).  The other calls join the root of the cell and the path
  of the file to a key; \<^verbatim>\<open>newUniqueEphemeral\<close> takes the path as it is, so its key is \<open>unrooted\<close> of the one
  that a later \<^verbatim>\<open>Get\<close> reads.  What the grant of the lease answers is an argument.
\<close>

definition newUniqueEphemeral :: "('e, 'p, 'c) etcd_client \<Rightarrow> 'e \<Rightarrow> 'p \<Rightarrow> 'c \<Rightarrow> 'e \<times> (topo_err, int) result" where
  "newUniqueEphemeral cli st newKey contents =
     (case ec_Txn cli st [CmpVersion newKey 0] [OpPut newKey contents] [] of
        (st', Err e) \<Rightarrow> (if e = Canceled \<or> e = DeadlineExceeded then fst (ec_Delete cli st' newKey) else st', Err (convertError e))
      | (st', Panic) \<Rightarrow> (st', Panic)
      | (st', Ok (succeeded, rv, _)) \<Rightarrow> (st', if \<not> succeeded then Err ErrBadResponse else Ok rv))"

definition CreateUniqueEphemeral :: "(etcd_err, unit) result \<Rightarrow> ('p \<Rightarrow> 'p) \<Rightarrow> ('e, 'p, 'c) etcd_client \<Rightarrow> 'e \<Rightarrow> 'p \<Rightarrow> 'c
    \<Rightarrow> 'e \<times> (topo_err, int) result" where
  "CreateUniqueEphemeral lease unrooted cli st filePath contents =
     (case answer Ok (st, lease) of
        (st, Ok _) \<Rightarrow> newUniqueEphemeral cli st (unrooted filePath) contents
      | (st, Err e) \<Rightarrow> (st, Err e)
      | (st, Panic) \<Rightarrow> (st, Panic))"

section \<open>Transactions\<close>

record ('p, 'c) etcd3Transaction =
  tx_cmps :: "'p etcd_cmp list"
  tx_thenOps :: "('p, 'c) etcd_op list"
  tx_elseOps :: "('p, 'c) etcd_op list"

definition NewTransaction :: "('p, 'c) etcd3Transaction" where
  "NewTransaction = \<lparr>tx_cmps = [], tx_thenOps = [], tx_elseOps = []\<rparr>"

definition txn_Put :: "'p \<Rightarrow> 'c \<Rightarrow> int option \<Rightarrow> ('p, 'c) etcd3Transaction \<Rightarrow> ('p, 'c) etcd3Transaction" where
  "txn_Put nodePath contents version t =
     t\<lparr>tx_cmps := tx_cmps t @ (case version of
           None \<Rightarrow> []
         | Some ver \<Rightarrow> if ver = 0 then [CmpVersion nodePath ver] else [CmpModRevision nodePath ver]),
       tx_thenOps := tx_thenOps t @ [OpPut nodePath contents]\<rparr>"

definition txn_Delete :: "'p \<Rightarrow> int option \<Rightarrow> ('p, 'c) etcd3Transaction \<Rightarrow> ('p, 'c) etcd3Transaction" where
  "txn_Delete nodePath version t =
     t\<lparr>tx_cmps := tx_cmps t @ (case version of None \<Rightarrow> [] | Some ver \<Rightarrow> [CmpModRevision nodePath ver]),
       tx_thenOps := tx_thenOps t @ [OpDelete nodePath],
       tx_elseOps := tx_elseOps t @ [OpGet nodePath]\<rparr>"

text \<open>The result of one operation: of a write its version, of a deletion nil, of a read nil.\<close>

definition op_result :: "'c etcd_resp \<Rightarrow> int option" where
  "op_result r = (case r of ResponsePut newVer \<Rightarrow> Some newVer | _ \<Rightarrow> None)"

definition txn_Commit :: "('e, 'p, 'c) etcd_client \<Rightarrow> ('p, 'c) etcd3Transaction \<Rightarrow> 'e
    \<Rightarrow> 'e \<times> (topo_err, int option list) result" where
  "txn_Commit cli t st =
     answer (\<lambda>(succeeded, _, opResps). if \<not> succeeded then Err ErrNodeExists else Ok (map op_result opResps))
       (ec_Txn cli st (tx_cmps t) (tx_thenOps t) (tx_elseOps t))"

section \<open>Revisions\<close>

text \<open>One transaction of any client.\<close>

inductive etcd_step :: "('p, 'c) etcd_db \<Rightarrow> ('p, 'c) etcd_db \<Rightarrow> bool" where
  txn: "etcd_step db (fst (do_txn cmps thens elses db))"

text \<open>Every key of the later map has the new revision or is as it was before.\<close>

lemma run_ops_kept:
  assumes "fst (run_ops rv opers m) p = Some kv" "\<forall>q kw. m q = Some kw \<longrightarrow> 0 < kv_Version kw"
  shows "m p = Some kv \<or> kv_ModRevision kv = rv \<and> 0 < kv_Version kv"
  using assms
proof (induction rv opers m rule: run_ops.induct)
  case (2 rv oper opers m)
  obtain m1 r where op: "run_op rv oper m = (m1, r)" by (cases "run_op rv oper m")
  have pos: "\<forall>q kw. m1 q = Some kw \<longrightarrow> 0 < kv_Version kw"
    and one: "\<And>kw. m1 p = Some kw \<Longrightarrow> m p = Some kw \<or> kv_ModRevision kw = rv \<and> 0 < kv_Version kw"
    using op 2(3) by (cases oper; force simp: put_kv_def split: option.splits if_splits)+
  have "fst (run_ops rv opers m1) p = Some kv" using 2(2) op by (simp split: prod.splits)
  from "2.IH" [OF op [symmetric] this pos] show ?case using one by blast
qed simp

text \<open>A key whose revision is not newer than an earlier database was in that database with the same value.\<close>

definition newer_db :: "('p, 'c) etcd_db \<Rightarrow> ('p, 'c) etcd_db \<Rightarrow> bool" where
  "newer_db d d' = (db_Revision d \<le> db_Revision d' \<and>
     (\<forall>p kv. db_kvs d' p = Some kv \<longrightarrow> kv_ModRevision kv \<le> db_Revision d \<longrightarrow> db_kvs d p = Some kv))"

lemma newer_db_trans: "newer_db a b \<Longrightarrow> newer_db b c \<Longrightarrow> newer_db a c"
  unfolding newer_db_def by (metis order_trans)

lemma fst_do_ops:
  "fst (do_ops opers db) =
     (let m = fst (run_ops (db_Revision db + 1) opers (db_kvs db))
      in \<lparr>db_Revision = (if m = db_kvs db then db_Revision db else db_Revision db + 1), db_kvs = m\<rparr>)"
  by (simp add: do_ops_def Let_def split: prod.splits)

lemma do_ops_newer:
  assumes "db_ok db"
  shows "db_ok (fst (do_ops opers db)) \<and> newer_db db (fst (do_ops opers db))"
proof (cases "fst (run_ops (db_Revision db + 1) opers (db_kvs db)) = db_kvs db")
  case True
  then show ?thesis using assms by (simp add: fst_do_ops Let_def newer_db_def db_ok_def)
next
  case False
  have "db_kvs db p = Some kv \<or> kv_ModRevision kv = db_Revision db + 1 \<and> 0 < kv_Version kv"
    if "fst (run_ops (db_Revision db + 1) opers (db_kvs db)) p = Some kv" for p kv
    using run_ops_kept [OF that] assms by (simp add: db_ok_def)
  then show ?thesis using False assms by (fastforce simp: fst_do_ops Let_def newer_db_def db_ok_def)
qed

lemma fst_do_txn:
  "fst (do_txn cmps thens elses db) = fst (do_ops (if list_all (cmp_holds db) cmps then thens else elses) db)"
  by (simp add: do_txn_def Let_def split: prod.splits)

lemma etcd_run_newer:
  assumes "etcd_step\<^sup>*\<^sup>* d d'" "db_ok d"
  shows "db_ok d' \<and> newer_db d d'"
  using assms
proof (induction rule: rtranclp_induct)
  case base
  then show ?case by (simp add: newer_db_def)
next
  case (step y z)
  then have "db_ok y" "newer_db d y" by auto
  with step.hyps(2) show ?case by cases (auto simp: fst_do_txn intro: newer_db_trans dest: do_ops_newer)
qed

section \<open>What the store's calls do\<close>

lemma convertError_simps [simp]:
  "convertError e \<noteq> ErrBadVersion" "convertError e \<noteq> ErrNodeExists"
  by (simp_all add: convertError_def split: etcd_err.splits)

text \<open>A single put under the revision after the database's.\<close>

lemma do_put:
  assumes "db_ok db"
  shows "do_ops [OpPut p c] db = (let rv = db_Revision db + 1 in
     (\<lparr>db_Revision = rv, db_kvs = (db_kvs db)(p \<mapsto> put_kv rv c (db_kvs db p))\<rparr>, rv, [ResponsePut rv]))"
proof -
  have "(db_kvs db)(p \<mapsto> put_kv (db_Revision db + 1) c (db_kvs db p)) \<noteq> db_kvs db"
  proof
    assume "(db_kvs db)(p \<mapsto> put_kv (db_Revision db + 1) c (db_kvs db p)) = db_kvs db"
    then have "db_kvs db p = Some (put_kv (db_Revision db + 1) c (db_kvs db p))" by (metis fun_upd_same)
    then show False using assms by (fastforce simp: db_ok_def put_kv_def)
  qed
  then show ?thesis by (simp add: do_ops_def Let_def)
qed

lemma cmp_absent: "db_ok db \<Longrightarrow> cmp_holds db (CmpVersion p 0) \<longleftrightarrow> db_kvs db p = None"
  by (fastforce simp: cmp_holds_def db_ok_def split: option.splits)

context etcd
begin

lemma Create_Ok:
  assumes "srv_Create cli st p c = (st', Ok v)"
  shows "db_kvs (db st) p = None \<and> db_kvs (db st') = (db_kvs (db st))(p \<mapsto> put_kv v c None)"
  using assms Txn_ok [of st "[CmpVersion p 0]" "[OpPut p c]" "[]"] do_put [OF Db_ok, of p c st] cmp_absent [OF Db_ok, of st p]
  by (auto simp: srv_Create_def answer_def call_ok_def do_txn_def Let_def split: prod.splits result.splits if_splits)

lemma Create_Exists:
  assumes "srv_Create cli st p c = (st', Err ErrNodeExists)"
  shows "db_kvs (db st) p \<noteq> None \<and> db_kvs (db st') = db_kvs (db st)"
  using assms Txn_ok [of st "[CmpVersion p 0]" "[OpPut p c]" "[]"]
  by (auto simp: srv_Create_def answer_def call_ok_def do_txn_def do_ops_def Let_def cmp_holds_def
      split: prod.splits result.splits if_splits option.splits)

lemma Update_Ok:
  assumes "srv_Update cli st p c (Some v) = (st', Ok w)"
  shows "cmp_holds (db st) (CmpModRevision p v) \<and> w = db_Revision (db st) + 1 \<and>
    db_kvs (db st') = (db_kvs (db st))(p \<mapsto> put_kv w c (db_kvs (db st) p))"
  using assms Txn_ok [of st "[CmpModRevision p v]" "[OpPut p c]" "[]"] do_put [OF Db_ok, of p c st]
  by (auto simp: srv_Update_def answer_def call_ok_def do_txn_def Let_def
      split: prod.splits result.splits if_splits)

lemma Update_any:
  assumes "srv_Update cli st p c None = (st', Ok w)"
  shows "db_kvs (db st') = (db_kvs (db st))(p \<mapsto> put_kv w c (db_kvs (db st) p))"
  using assms Put_ok [of st p c] do_put [OF Db_ok, of p c st]
  by (auto simp: srv_Update_def answer_def call_ok_def Let_def split: prod.splits result.splits)

lemma Update_put:
  assumes "srv_Update cli st p c version = (st', Ok w)"
  shows "db_kvs (db st') = (db_kvs (db st))(p \<mapsto> put_kv w c (db_kvs (db st) p))"
  using assms by (cases version) (auto dest: Update_any Update_Ok)

lemma Update_no_panic: "snd (srv_Update cli st p c version) \<noteq> Panic"
  using Txn_ok [of st "[CmpModRevision p (the version)]" "[OpPut p c]" "[]"] Put_ok [of st p c]
  by (cases version) (auto simp: srv_Update_def answer_def call_ok_def split: prod.splits result.splits if_splits)

lemma Update_BadVersion:
  assumes "srv_Update cli st p c (Some v) = (st', Err ErrBadVersion)"
  shows "\<not> cmp_holds (db st) (CmpModRevision p v) \<and> db_kvs (db st') = db_kvs (db st)"
  using assms Txn_ok [of st "[CmpModRevision p v]" "[OpPut p c]" "[]"]
  by (auto simp: srv_Update_def answer_def call_ok_def do_txn_def do_ops_def Let_def
      split: prod.splits result.splits if_splits)

lemma Get_keeps: "db (fst (srv_Get cli st p)) = db st"
  using Get_ok [of st p]
  by (auto simp: srv_Get_def answer_def call_ok_def split: prod.splits result.splits)

lemma Get_Ok:
  assumes "srv_Get cli st p = (st', Ok (c, v))"
  shows "\<exists>kv. db_kvs (db st) p = Some kv \<and> kv_Value kv = c \<and> kv_ModRevision kv = v"
  using assms Get_ok [of st p]
  by (auto simp: srv_Get_def answer_def call_ok_def split: prod.splits result.splits if_splits option.splits)

lemma Delete_Ok:
  assumes "srv_Delete cli st p (Some v) = (st', Ok ())"
  shows "cmp_holds (db st) (CmpModRevision p v) \<and> db_kvs (db st') = (db_kvs (db st))(p := None)"
  using assms Txn_ok [of st "[CmpModRevision p v]" "[OpDelete p]" "[OpGet p]"]
  by (auto simp: srv_Delete_def answer_def call_ok_def do_txn_def do_ops_def Let_def
      split: prod.splits result.splits if_splits list.splits etcd_resp.splits)

lemma Delete_Bad:
  assumes "srv_Delete cli st p (Some v) = (st', Err ErrBadVersion)"
  shows "db_kvs (db st) p \<noteq> None \<and> \<not> cmp_holds (db st) (CmpModRevision p v) \<and> db_kvs (db st') = db_kvs (db st)"
  using assms Txn_ok [of st "[CmpModRevision p v]" "[OpDelete p]" "[OpGet p]"]
  by (auto simp: srv_Delete_def answer_def call_ok_def do_txn_def do_ops_def Let_def
      split: prod.splits result.splits if_splits list.splits etcd_resp.splits option.splits)

end

section \<open>The counter of identifiers\<close>

text \<open>
  The file of the identifier generators is a file of the store; the calls that \<^verbatim>\<open>GenerateNewId\<close> makes satisfy
  the contract that \<open>Topo_Ids\<close> assumes of them.
\<close>

definition id_ops :: "('e, 'p, bytes) etcd_client \<Rightarrow> 'p \<Rightarrow> 'e topo_ops" where
  "id_ops cli p = \<lparr>
     be_Get = (\<lambda>st. case srv_Get cli st p of (st', r) \<Rightarrow> (st', result_bind r (\<lambda>(c, v). Ok (c, nat v)))),
     be_Create = (\<lambda>st c. case srv_Create cli st p c of (st', r) \<Rightarrow> (st', result_bind r (\<lambda>v. Ok (nat v)))),
     be_Update = (\<lambda>st c v. case srv_Update cli st p c (Some (int v)) of (st', r) \<Rightarrow> (st', result_bind r (\<lambda>w. Ok (nat w))))\<rparr>"

definition id_file :: "('e \<Rightarrow> ('p, bytes) etcd_db) \<Rightarrow> 'p \<Rightarrow> 'e \<Rightarrow> (bytes \<times> nat) option" where
  "id_file db p st = map_option (\<lambda>kv. (kv_Value kv, nat (kv_ModRevision kv))) (db_kvs (db st) p)"

locale etcd_ids = etcd cli db for cli :: "('e, 'p, bytes) etcd_client" and db +
  fixes idgen :: 'p

sublocale etcd_ids \<subseteq> id_backend "id_ops cli idgen" "id_file db idgen"
proof
  fix st c v w cv c0 v0
  show "id_file db idgen (fst (be_Get (id_ops cli idgen) st)) = id_file db idgen st"
    using Get_keeps [of st idgen] by (auto simp: id_ops_def id_file_def split: prod.splits)
  show "id_file db idgen st = Some cv" if "snd (be_Get (id_ops cli idgen) st) = Ok cv"
    using that Get_Ok [of st idgen] by (fastforce simp: id_ops_def id_file_def result_bind_Ok_iff split: prod.splits)
  show "id_file db idgen st = None \<and> id_file db idgen (fst (be_Create (id_ops cli idgen) st c)) = Some (c, v)"
    if "snd (be_Create (id_ops cli idgen) st c) = Ok v"
    using that Create_Ok [of st idgen c]
    by (fastforce simp: id_ops_def id_file_def result_bind_Ok_iff put_kv_def split: prod.splits)
  show "v = v0 \<and> id_file db idgen (fst (be_Update (id_ops cli idgen) st c v)) = Some (c, w)"
    if "id_file db idgen st = Some (c0, v0)" "snd (be_Update (id_ops cli idgen) st c v) = Ok w"
    using that Update_Ok [of st idgen c "int v"]
    by (fastforce simp: id_ops_def id_file_def result_bind_Ok_iff put_kv_def cmp_holds_def split: prod.splits)
  show "id_file db idgen (fst (be_Update (id_ops cli idgen) st c v)) = id_file db idgen st"
    if "snd (be_Update (id_ops cli idgen) st c v) = Err ErrBadVersion"
    using that Update_BadVersion [of st idgen c "int v"]
    by (cases "snd (srv_Update cli st idgen c (Some (int v)))") (auto simp: id_ops_def id_file_def split: prod.splits)
qed

section \<open>A database in memory\<close>

text \<open>A client whose calls always succeed: the documented behaviour itself, on databases with valid revisions.\<close>

typedef ('p, 'c) ok_db = "{db :: ('p, 'c) etcd_db. db_ok db}"
  morphisms db_of ok_db
  by (intro exI [of _ "\<lparr>db_Revision = 0, db_kvs = Map.empty\<rparr>"]) (simp add: db_ok_def)

lemma db_of_ok [simp]: "db_ok (db_of d)"
  using db_of [of d] by simp

lemma db_of_ops: "db_of (ok_db (fst (do_ops opers (db_of d)))) = fst (do_ops opers (db_of d))"
  using do_ops_newer [OF db_of_ok] by (intro ok_db_inverse) auto

definition mem_etcd :: "(('p, 'c) ok_db, 'p, 'c) etcd_client" where
  "mem_etcd = \<lparr>
     ec_Txn = (\<lambda>d cmps thens elses. case do_txn cmps thens elses (db_of d) of (d', r) \<Rightarrow> (ok_db d', Ok r)),
     ec_Put = (\<lambda>d p c. case do_ops [OpPut p c] (db_of d) of (d', rv, _) \<Rightarrow> (ok_db d', Ok rv)),
     ec_Get = (\<lambda>d p. (d, Ok (case db_kvs (db_of d) p of None \<Rightarrow> [] | Some kv \<Rightarrow> [kv]))),
     ec_Delete = (\<lambda>d p. (ok_db (fst (do_ops [OpDelete p] (db_of d))), Ok (if p \<in> dom (db_kvs (db_of d)) then 1 else 0)))\<rparr>"

interpretation me: etcd mem_etcd db_of
proof
  fix d :: "('p, 'c) ok_db" and p :: 'p and c :: 'c and cmps thens elses
  show "db_ok (db_of d)" by simp
  show "call_ok db_of d (do_txn cmps thens elses (db_of d)) (ec_Txn mem_etcd d cmps thens elses)"
    using fst_do_txn [of cmps thens elses "db_of d"] db_of_ops [of "if list_all (cmp_holds (db_of d)) cmps then thens else elses" d]
    by (auto simp: mem_etcd_def call_ok_def split: prod.splits)
  show "call_ok db_of d (case do_ops [OpPut p c] (db_of d) of (d', rv, _) \<Rightarrow> (d', rv)) (ec_Put mem_etcd d p c)"
    using db_of_ops [of "[OpPut p c]" d] by (auto simp: mem_etcd_def call_ok_def split: prod.splits)
  show "call_ok db_of d (db_of d, case db_kvs (db_of d) p of None \<Rightarrow> [] | Some kv \<Rightarrow> [kv]) (ec_Get mem_etcd d p)"
    by (simp add: mem_etcd_def call_ok_def)
  show "call_ok db_of d (case do_ops [OpDelete p] (db_of d) of (d', _, _) \<Rightarrow>
      (d', if p \<in> dom (db_kvs (db_of d)) then 1 else 0)) (ec_Delete mem_etcd d p)"
    using db_of_ops [of "[OpDelete p]" d] by (auto simp: mem_etcd_def call_ok_def split: prod.splits)
qed

text \<open>On it the identifier counter is always available.\<close>

interpretation mem_ids: etcd_ids mem_etcd db_of idgen for idgen :: 'p
  by unfold_locales

interpretation mem_up: id_backend_up "id_ops mem_etcd idgen" "id_file db_of idgen" for idgen :: 'p
proof
  fix d :: "('p, bytes) ok_db" and c c0 :: bytes and v :: nat
  show "snd (be_Get (id_ops mem_etcd idgen) d) = (case id_file db_of idgen d of Some cv \<Rightarrow> Ok cv | None \<Rightarrow> Err ErrNoNode)"
    by (simp add: id_ops_def id_file_def srv_Get_def answer_def mem_etcd_def split: option.splits)
  show "\<exists>v. snd (be_Create (id_ops mem_etcd idgen) d c) = Ok v" if "id_file db_of idgen d = None"
    using that by (simp add: id_ops_def id_file_def srv_Create_def answer_def mem_etcd_def do_txn_def do_put cmp_absent Let_def)
  show "\<exists>w. snd (be_Update (id_ops mem_etcd idgen) d c v) = Ok w" if some: "id_file db_of idgen d = Some (c0, v)"
  proof -
    obtain kv where kv: "db_kvs (db_of d) idgen = Some kv" "nat (kv_ModRevision kv) = v"
      using some by (auto simp: id_file_def)
    moreover have "0 < kv_ModRevision kv" using kv db_of_ok [of d] by (auto simp: db_ok_def)
    ultimately have "cmp_holds (db_of d) (CmpModRevision idgen (int v))" by (auto simp: cmp_holds_def)
    then show ?thesis
      by (simp add: id_ops_def srv_Update_def answer_def mem_etcd_def do_txn_def do_put Let_def)
  qed
qed

section \<open>Properties\<close>

text \<open>
  C20: No update is lost: a client that read a file and updates it with the version it read succeeds only when
  no client has written the file in between, and then the file has its contents and no other file changed,
  whatever transactions of other clients ran in between.
\<close>

theorem no_lost_update:
  assumes "etcd cli db"
    and "srv_Get cli st p = (st1, Ok (c, v))" "etcd_step\<^sup>*\<^sup>* (db st) (db st2)"
    and "srv_Update cli st2 p c' (Some v) = (st3, Ok w)"
  shows "\<exists>kv. db_kvs (db st2) p = Some kv \<and> kv_Value kv = c \<and>
    db_kvs (db st3) = (db_kvs (db st2))(p \<mapsto> put_kv w c' (Some kv)) \<and> v < w"
proof -
  obtain kv where kv: "db_kvs (db st) p = Some kv" "kv_Value kv = c" "kv_ModRevision kv = v"
    using etcd.Get_Ok [OF assms(1,2)] by blast
  have ok: "db_ok (db st)" "db_ok (db st2)" using etcd.Db_ok [OF assms(1)] by auto
  have v: "0 < v" "v \<le> db_Revision (db st)" using ok(1) kv by (auto simp: db_ok_def)
  have newer: "newer_db (db st) (db st2)" using etcd_run_newer [OF assms(3) ok(1)] by simp
  have upd: "cmp_holds (db st2) (CmpModRevision p v)" "w = db_Revision (db st2) + 1"
      "db_kvs (db st3) = (db_kvs (db st2))(p \<mapsto> put_kv w c' (db_kvs (db st2) p))"
    using etcd.Update_Ok [OF assms(1,4)] by auto
  obtain kw where kw: "db_kvs (db st2) p = Some kw" "kv_ModRevision kw = v"
    using upd(1) v by (auto simp: cmp_holds_def split: option.splits)
  then have "kw = kv" using newer kv v by (auto simp: newer_db_def)
  then show ?thesis using kw kv upd v newer by (auto simp: newer_db_def)
qed

text \<open>A database with the value 3 in the file 0, written at revision 5.\<close>

abbreviation demo_db :: "(nat, nat) ok_db" where
  "demo_db \<equiv> ok_db \<lparr>db_Revision = 5, db_kvs = [0 \<mapsto> \<lparr>kv_Value = 3, kv_Version = 1, kv_ModRevision = 5\<rparr>]\<rparr>"

lemma db_of_demo: "db_of demo_db = \<lparr>db_Revision = 5, db_kvs = [0 \<mapsto> \<lparr>kv_Value = 3, kv_Version = 1, kv_ModRevision = 5\<rparr>]\<rparr>"
  by (rule ok_db_inverse) (simp add: db_ok_def)

theorem no_lost_update_witness:
  "\<exists>kv. db_kvs (db_of demo_db) 0 = Some kv \<and> kv_Value kv = (3 :: nat) \<and>
     db_kvs (db_of (fst (srv_Update mem_etcd demo_db 0 7 (Some 5)))) = (db_kvs (db_of demo_db))(0 \<mapsto> put_kv 6 7 (Some kv)) \<and> (5 :: int) < 6"
proof (rule no_lost_update [OF me.etcd_axioms])
  show "srv_Get mem_etcd demo_db 0 = (demo_db, Ok (3, 5))"
    by (simp add: srv_Get_def answer_def mem_etcd_def db_of_demo)
  show "srv_Update mem_etcd demo_db 0 7 (Some 5) = (fst (srv_Update mem_etcd demo_db 0 7 (Some 5)), Ok 6)"
    by (auto simp: srv_Update_def answer_def mem_etcd_def db_of_demo do_txn_def do_ops_def cmp_holds_def put_kv_def Let_def
        dest: map_upd_eqD1)
qed simp

end
