(* ===== verification/Topo_Meta.thy ===== *)
theory Topo_Meta
  imports Topo_Etcd Meta_Types
begin

text \<open>
  Databases, spaces and partitions in the topology store (\<^verbatim>\<open>topo/topo_db.go\<close>, \<^verbatim>\<open>topo_space.go\<close>,
  \<^verbatim>\<open>topo_partition.go\<close>).  The path of a file is the constructor of what it holds with its identifiers, which
  \<^verbatim>\<open>path.Join\<close> prints in different directories; its contents are the message that \<^verbatim>\<open>proto.Marshal\<close> encodes.  The
  listings and watches, which only pass on what etcd reports, are left out, as are contexts that are nil.
\<close>

section \<open>Files\<close>

record meta_DB =
  mdb_ID :: DBID
  mdb_Name :: string

record meta_Space =
  ms_ID :: SpaceID
  ms_Name :: string
  ms_DB :: DBID
  ms_DbName :: string
  ms_Status :: SpaceStatus
  ms_KeyPolicy :: "string \<times> string"
  ms_Schema :: string

record meta_Task =
  mt_Id :: string
  mt_Type :: string

datatype topo_path = DbFile DBID | SpaceFile DBID SpaceID | PartitionFile PartitionID | ZonesFile PartitionID | TaskFile string string

datatype topo_content = DbContent meta_DB | SpaceContent meta_Space | PartitionContent meta_Partition | ZonesContent string
  | TaskContent meta_Task

text \<open>\<^verbatim>\<open>DBTopo\<close>, \<^verbatim>\<open>SpaceTopo\<close> and \<^verbatim>\<open>PartitionTopo\<close>: a message with the version of its file, nil before it is stored.\<close>

record 'm topo =
  tp_Version :: "int option"
  tp_Meta :: 'm

type_synonym DBTopo = "meta_DB topo"
type_synonym SpaceTopo = "meta_Space topo"
type_synonym PartitionTopo = "meta_Partition topo"

type_synonym 'e topo_client = "('e, topo_path, topo_content) etcd_client"

text \<open>The common steps of the calls below.\<close>

definition then_ok :: "'e \<times> ('x, 'a) result \<Rightarrow> ('a \<Rightarrow> ('x, 'b) result) \<Rightarrow> 'e \<times> ('x, 'b) result" where
  "then_ok res f = (case res of (st, r) \<Rightarrow> (st, result_bind r f))"

section \<open>Databases\<close>

definition topo_AddDB :: "'e topo_client \<Rightarrow> 'e \<Rightarrow> meta_DB \<Rightarrow> 'e \<times> (topo_err, DBTopo) result" where
  "topo_AddDB cli st db =
     then_ok (srv_Create cli st (DbFile (mdb_ID db)) (DbContent db))
       (\<lambda>version. Ok \<lparr>tp_Version = Some version, tp_Meta = db\<rparr>)"

definition topo_GetDB :: "'e topo_client \<Rightarrow> 'e \<Rightarrow> DBID \<Rightarrow> 'e \<times> (topo_err, DBTopo) result" where
  "topo_GetDB cli st dbId =
     then_ok (srv_Get cli st (DbFile dbId)) (\<lambda>(contents, version).
       case contents of DbContent dbMeta \<Rightarrow> Ok \<lparr>tp_Version = Some version, tp_Meta = dbMeta\<rparr> | _ \<Rightarrow> Err ErrClient)"

definition topo_UpdateDB :: "'e topo_client \<Rightarrow> 'e \<Rightarrow> DBTopo \<Rightarrow> 'e \<times> (topo_err, DBTopo) result" where
  "topo_UpdateDB cli st db =
     then_ok (srv_Update cli st (DbFile (mdb_ID (tp_Meta db))) (DbContent (tp_Meta db)) (tp_Version db))
       (\<lambda>newVersion. Ok (db\<lparr>tp_Version := Some newVersion\<rparr>))"

definition topo_DeleteDB :: "'e topo_client \<Rightarrow> 'e \<Rightarrow> DBTopo \<Rightarrow> 'e \<times> (topo_err, unit) result" where
  "topo_DeleteDB cli st db = srv_Delete cli st (DbFile (mdb_ID (tp_Meta db))) (tp_Version db)"

section \<open>Spaces\<close>

definition space_file :: "meta_Space \<Rightarrow> topo_path" where
  "space_file s = SpaceFile (ms_DB s) (ms_ID s)"

definition topo_GetSpace :: "'e topo_client \<Rightarrow> 'e \<Rightarrow> DBID \<Rightarrow> SpaceID \<Rightarrow> 'e \<times> (topo_err, SpaceTopo) result" where
  "topo_GetSpace cli st dbId spaceId =
     then_ok (srv_Get cli st (SpaceFile dbId spaceId)) (\<lambda>(contents, version).
       case contents of SpaceContent spaceMeta \<Rightarrow> Ok \<lparr>tp_Version = Some version, tp_Meta = spaceMeta\<rparr> | _ \<Rightarrow> Err ErrClient)"

text \<open>
  \<^verbatim>\<open>AddSpace\<close> calls \<^verbatim>\<open>txn.Create\<close>, which the interface \<^verbatim>\<open>Transaction\<close> does not have; what it adds to the
  transaction is an argument.  A result that is not of a write makes the type assertion panic.
\<close>

definition topo_AddSpace :: "(topo_path \<Rightarrow> topo_content \<Rightarrow> (topo_path, topo_content) etcd3Transaction \<Rightarrow> (topo_path, topo_content) etcd3Transaction)
    \<Rightarrow> 'e topo_client \<Rightarrow> 'e \<Rightarrow> meta_Space \<Rightarrow> meta_Partition list \<Rightarrow> 'e \<times> (topo_err, SpaceTopo \<times> PartitionTopo list) result" where
  "topo_AddSpace create cli st space partitions =
     (if partitions = [] then (st, Err ErrNoNode)
      else
        let txn = create (space_file space) (SpaceContent space) NewTransaction;
            txn = fold (\<lambda>p. create (PartitionFile (pt_ID p)) (PartitionContent p)) partitions txn
        in then_ok (txn_Commit cli txn st) (\<lambda>opResults.
             if length opResults \<noteq> 1 + length partitions then Err ErrNoNode
             else if list_ex (\<lambda>r. r = None) opResults then Panic
             else Ok (\<lparr>tp_Version = opResults ! 0, tp_Meta = space\<rparr>,
               map (\<lambda>i. \<lparr>tp_Version = opResults ! (i + 1), tp_Meta = partitions ! i\<rparr>) [0..<length partitions])))"

definition topo_UpdateSpace :: "'e topo_client \<Rightarrow> 'e \<Rightarrow> SpaceTopo \<Rightarrow> 'e \<times> (topo_err, SpaceTopo) result" where
  "topo_UpdateSpace cli st space =
     (case srv_Update cli st (space_file (tp_Meta space)) (SpaceContent (tp_Meta space)) (tp_Version space) of
        (st', Err _) \<Rightarrow> (st', Err ErrNoNode)
      | (st', Ok newVersion) \<Rightarrow> (st', Ok (space\<lparr>tp_Version := Some newVersion\<rparr>))
      | (st', Panic) \<Rightarrow> (st', Panic))"

definition topo_DeleteSpace :: "'e topo_client \<Rightarrow> 'e \<Rightarrow> SpaceTopo \<Rightarrow> 'e \<times> (topo_err, unit) result" where
  "topo_DeleteSpace cli st space = srv_Delete cli st (space_file (tp_Meta space)) (tp_Version space)"

section \<open>Partitions\<close>

definition topo_GetPartition :: "'e topo_client \<Rightarrow> 'e \<Rightarrow> PartitionID \<Rightarrow> 'e \<times> (topo_err, PartitionTopo) result" where
  "topo_GetPartition cli st partitionId =
     then_ok (srv_Get cli st (PartitionFile partitionId)) (\<lambda>(contents, version).
       case contents of PartitionContent p \<Rightarrow> Ok \<lparr>tp_Version = Some version, tp_Meta = p\<rparr> | _ \<Rightarrow> Err ErrClient)"

definition topo_UpdatePartition :: "'e topo_client \<Rightarrow> 'e \<Rightarrow> PartitionTopo \<Rightarrow> 'e \<times> (topo_err, PartitionTopo) result" where
  "topo_UpdatePartition cli st p =
     then_ok (srv_Update cli st (PartitionFile (pt_ID (tp_Meta p))) (PartitionContent (tp_Meta p)) (tp_Version p))
       (\<lambda>newVersion. Ok (p\<lparr>tp_Version := Some newVersion\<rparr>))"

definition topo_DeletePartition :: "'e topo_client \<Rightarrow> 'e \<Rightarrow> PartitionTopo \<Rightarrow> 'e \<times> (topo_err, unit) result" where
  "topo_DeletePartition cli st p = srv_Delete cli st (PartitionFile (pt_ID (tp_Meta p))) (tp_Version p)"

text \<open>The zones of a partition, one string with bars between the names (\<^verbatim>\<open>strings.Join\<close>, \<^verbatim>\<open>strings.Split\<close>).\<close>

fun join_with :: "char \<Rightarrow> string list \<Rightarrow> string" where
  "join_with sep [] = []"
| "join_with sep [s] = s"
| "join_with sep (s # t # ss) = s @ sep # join_with sep (t # ss)"

fun split_at :: "char \<Rightarrow> string \<Rightarrow> string list" where
  "split_at sep [] = [[]]"
| "split_at sep (c # cs) = (if c = sep then [] # split_at sep cs
     else (case split_at sep cs of [] \<Rightarrow> [[c]] | s # ss \<Rightarrow> (c # s) # ss))"

definition buildZonesData :: "string list \<Rightarrow> string" where
  "buildZonesData zones = join_with CHR ''|'' zones"

definition parseZonesData :: "string \<Rightarrow> string list" where
  "parseZonesData data = split_at CHR ''|'' data"

definition topo_SetZonesForPartition :: "'e topo_client \<Rightarrow> 'e \<Rightarrow> PartitionID \<Rightarrow> string list \<Rightarrow> 'e \<times> (topo_err, unit) result" where
  "topo_SetZonesForPartition cli st partitionId zones =
     (if zones = [] then (st, Err ErrNoNode)
      else then_ok (srv_Update cli st (ZonesFile partitionId) (ZonesContent (buildZonesData zones)) None) (\<lambda>_. Ok ()))"

definition topo_GetZonesForPartition :: "'e topo_client \<Rightarrow> 'e \<Rightarrow> PartitionID \<Rightarrow> 'e \<times> (topo_err, string list) result" where
  "topo_GetZonesForPartition cli st partitionId =
     then_ok (srv_Get cli st (ZonesFile partitionId)) (\<lambda>(contents, _).
       case contents of ZonesContent s \<Rightarrow> Ok (parseZonesData s) | _ \<Rightarrow> Err ErrClient)"

section \<open>Tasks\<close>

text \<open>
  A task of a type and an identifier, kept under a lease (\<^verbatim>\<open>topo/topo_task.go\<close>).
\<close>

definition topo_AddTask :: "(etcd_err, unit) result \<Rightarrow> (topo_path \<Rightarrow> topo_path) \<Rightarrow> 'e topo_client \<Rightarrow> 'e \<Rightarrow> meta_Task \<Rightarrow> 'e \<times> (topo_err, unit) result" where
  "topo_AddTask lease unrooted cli st task =
     then_ok (CreateUniqueEphemeral lease unrooted cli st (TaskFile (mt_Type task) (mt_Id task)) (TaskContent task)) (\<lambda>_. Ok ())"

definition topo_GetTask :: "'e topo_client \<Rightarrow> 'e \<Rightarrow> string \<Rightarrow> string \<Rightarrow> 'e \<times> (topo_err, meta_Task) result" where
  "topo_GetTask cli st taskType taskId =
     (if taskType = [] \<or> taskId = [] then (st, Err ErrNoNode)
      else then_ok (srv_Get cli st (TaskFile taskType taskId)) (\<lambda>(contents, _).
        case contents of TaskContent task \<Rightarrow> Ok task | _ \<Rightarrow> Err ErrClient))"

section \<open>Transactions of new files\<close>

text \<open>The files that a new space has in the store, and a store to which they were added under one revision.\<close>

definition files_of :: "meta_Space \<Rightarrow> meta_Partition list \<Rightarrow> (topo_path \<times> topo_content) list" where
  "files_of space ps = (space_file space, SpaceContent space) # map (\<lambda>p. (PartitionFile (pt_ID p), PartitionContent p)) ps"

definition add_files :: "int \<Rightarrow> ('p \<times> 'c) list \<Rightarrow> ('p \<rightharpoonup> 'c etcd_kv) \<Rightarrow> ('p \<rightharpoonup> 'c etcd_kv)" where
  "add_files rv fs m = m ++ map_of (map (\<lambda>(f, c). (f, put_kv rv c None)) fs)"

lemma run_ops_puts:
  assumes "distinct (map fst fs)" "\<forall>f\<in>fst ` set fs. m f = None"
  shows "run_ops rv (map (\<lambda>(f, c). OpPut f c) fs) m = (add_files rv fs m, replicate (length fs) (ResponsePut rv))"
  using assms
proof (induction fs arbitrary: m)
  case (Cons fc fs)
  obtain f c where fc: "fc = (f, c)" by (cases fc)
  have f: "f \<notin> fst ` set fs" "m f = None" using Cons.prems fc by auto
  then have "\<forall>g\<in>fst ` set fs. (m(f \<mapsto> put_kv rv c None)) g = None" using Cons.prems(2) by auto
  then have "run_ops rv (map (\<lambda>(f, c). OpPut f c) fs) (m(f \<mapsto> put_kv rv c None)) =
      (add_files rv fs (m(f \<mapsto> put_kv rv c None)), replicate (length fs) (ResponsePut rv))"
    using Cons by simp
  moreover have "add_files rv fs (m(f \<mapsto> put_kv rv c None)) = add_files rv ((f, c) # fs) m"
    unfolding add_files_def using f(1)
    by (simp add: map_add_upd_left dom_map_of_conv_image_fst image_image split_beta)
  ultimately show ?case using f fc by simp
qed (simp add: add_files_def)

lemma do_ops_puts:
  assumes "distinct (map fst fs)" "\<forall>f\<in>fst ` set fs. db_kvs d f = None" "fs \<noteq> []"
  shows "do_ops (map (\<lambda>(f, c). OpPut f c) fs) d =
    (\<lparr>db_Revision = db_Revision d + 1, db_kvs = add_files (db_Revision d + 1) fs (db_kvs d)\<rparr>,
     db_Revision d + 1, replicate (length fs) (ResponsePut (db_Revision d + 1)))"
proof -
  obtain f c gs where fs: "fs = (f, c) # gs" using assms(3) by (cases fs) auto
  have "add_files (db_Revision d + 1) fs (db_kvs d) f \<noteq> None" by (simp add: fs add_files_def map_add_def)
  then have "add_files (db_Revision d + 1) fs (db_kvs d) \<noteq> db_kvs d" using assms(2) fs by auto
  then show ?thesis using run_ops_puts [OF assms(1,2)] by (simp add: do_ops_def Let_def)
qed

lemma fold_creates:
  "fold (\<lambda>(f, c). txn_Put f c (Some 0)) fs t =
     t\<lparr>tx_cmps := tx_cmps t @ map (\<lambda>f. CmpVersion f 0) (map fst fs),
       tx_thenOps := tx_thenOps t @ map (\<lambda>(f, c). OpPut f c) fs\<rparr>"
  by (induction fs arbitrary: t) (auto simp: txn_Put_def)

lemma space_files_distinct: "distinct (map pt_ID ps) \<Longrightarrow> distinct (map fst (files_of space ps))"
  by (auto simp: files_of_def space_file_def distinct_map inj_on_def)

lemma AddSpace_txn:
  "fold (\<lambda>p. (\<lambda>f c. txn_Put f c (Some 0)) (PartitionFile (pt_ID p)) (PartitionContent p)) ps
      (txn_Put (space_file space) (SpaceContent space) (Some 0) NewTransaction) =
   \<lparr>tx_cmps = map (\<lambda>f. CmpVersion f 0) (map fst (files_of space ps)),
     tx_thenOps = map (\<lambda>(f, c). OpPut f c) (files_of space ps), tx_elseOps = []\<rparr>"
  using fold_creates [of "files_of space ps" NewTransaction]
  by (simp add: files_of_def fold_map o_def NewTransaction_def txn_Put_def)

abbreviation creates :: "(topo_path \<times> topo_content) list \<Rightarrow> (topo_path, topo_content) etcd_op list" where
  "creates fs \<equiv> map (\<lambda>(f, c). OpPut f c) fs"

abbreviation absents :: "(topo_path \<times> topo_content) list \<Rightarrow> topo_path etcd_cmp list" where
  "absents fs \<equiv> map (\<lambda>f. CmpVersion f 0) (map fst fs)"

lemma do_txn_creates:
  assumes "db_ok d" "distinct (map fst fs)" "fs \<noteq> []"
  shows "do_txn (absents fs) (creates fs) [] d =
    (if \<forall>f\<in>fst ` set fs. db_kvs d f = None
     then (\<lparr>db_Revision = db_Revision d + 1, db_kvs = add_files (db_Revision d + 1) fs (db_kvs d)\<rparr>,
       True, db_Revision d + 1, replicate (length fs) (ResponsePut (db_Revision d + 1)))
     else (d, False, db_Revision d, []))"
proof -
  have "list_all (cmp_holds d) (absents fs) \<longleftrightarrow> (\<forall>f\<in>fst ` set fs. db_kvs d f = None)"
    using cmp_absent [OF assms(1)] by (auto simp: list_all_iff)
  then show ?thesis using do_ops_puts [OF assms(2) _ assms(3), of d]
    by (simp add: do_txn_def do_ops_def [of "[]"] Let_def)
qed

text \<open>What \<^verbatim>\<open>AddSpace\<close> returns for the results of the single writes.\<close>

definition space_results :: "meta_Space \<Rightarrow> meta_Partition list \<Rightarrow> int option list \<Rightarrow> (topo_err, SpaceTopo \<times> PartitionTopo list) result" where
  "space_results space ps opResults =
     (if length opResults \<noteq> 1 + length ps then Err ErrNoNode
      else if list_ex (\<lambda>r. r = None) opResults then Panic
      else Ok (\<lparr>tp_Version = opResults ! 0, tp_Meta = space\<rparr>,
        map (\<lambda>i. \<lparr>tp_Version = opResults ! (i + 1), tp_Meta = ps ! i\<rparr>) [0..<length ps]))"

lemma AddSpace_eq:
  assumes "ps \<noteq> []"
  shows "topo_AddSpace (\<lambda>f c. txn_Put f c (Some 0)) cli st space ps =
    then_ok (answer (\<lambda>(succeeded, _, opResps). if \<not> succeeded then Err ErrNodeExists else Ok (map op_result opResps))
      (ec_Txn cli st (absents (files_of space ps)) (creates (files_of space ps)) [])) (space_results space ps)"
  using assms AddSpace_txn [of ps space]
  by (simp add: topo_AddSpace_def txn_Commit_def Let_def space_results_def [abs_def])

lemma space_results_ok:
  "space_results space ps (replicate (Suc (length ps)) (Some v)) =
     Ok (\<lparr>tp_Version = Some v, tp_Meta = space\<rparr>, map (\<lambda>p. \<lparr>tp_Version = Some v, tp_Meta = p\<rparr>) ps)"
proof -
  have "map (\<lambda>i. \<lparr>tp_Version = replicate (Suc (length ps)) (Some v) ! (i + 1), tp_Meta = ps ! i\<rparr>) [0..<length ps] =
      map (\<lambda>p. \<lparr>tp_Version = Some v, tp_Meta = p\<rparr>) ps"
    by (rule nth_equalityI) (simp_all del: replicate_Suc)
  then show ?thesis unfolding space_results_def by (simp only: length_replicate) (simp add: list_ex_iff)
qed

lemma AddSpace_effect:
  assumes "etcd cli db" "distinct (map pt_ID ps)" "ps \<noteq> []"
    and "topo_AddSpace (\<lambda>f c. txn_Put f c (Some 0)) cli st space ps = (st', r)"
  shows "case r of
      Ok (sp, pts) \<Rightarrow> (\<forall>f\<in>fst ` set (files_of space ps). db_kvs (db st) f = None) \<and>
        db_kvs (db st') = add_files (the (tp_Version sp)) (files_of space ps) (db_kvs (db st)) \<and>
        tp_Meta sp = space \<and> tp_Version sp \<noteq> None \<and> pts = map (\<lambda>p. \<lparr>tp_Version = tp_Version sp, tp_Meta = p\<rparr>) ps
    | Err e \<Rightarrow> db_kvs (db st') = db_kvs (db st) \<or>
        (\<exists>rv. e \<noteq> ErrNodeExists \<and> db_kvs (db st') = add_files rv (files_of space ps) (db_kvs (db st)))
    | Panic \<Rightarrow> False"
proof -
  let ?fs = "files_of space ps"
  have len: "length ?fs = Suc (length ps)" "?fs \<noteq> []" by (simp_all add: files_of_def)
  note txn = do_txn_creates [OF etcd.Db_ok [OF assms(1)] space_files_distinct [OF assms(2)] len(2), of st]
  have call: "call_ok db st (do_txn (absents ?fs) (creates ?fs) [] (db st)) (ec_Txn cli st (absents ?fs) (creates ?fs) [])"
    by (rule etcd.Txn_ok [OF assms(1)])
  obtain st1 r1 where r1: "ec_Txn cli st (absents ?fs) (creates ?fs) [] = (st1, r1)"
    by (cases "ec_Txn cli st (absents ?fs) (creates ?fs) []")
  note result = assms(4) [unfolded AddSpace_eq [OF assms(3)] r1]
  show ?thesis
  proof (cases r1)
    case (Ok a)
    obtain succeeded rv rs where a: "a = (succeeded, rv, rs)" by (cases a)
    then have d: "(db st1, succeeded, rv, rs) = do_txn (absents ?fs) (creates ?fs) [] (db st)"
      using call r1 Ok by (simp add: call_ok_def)
    show ?thesis
    proof (cases "\<forall>f\<in>fst ` set ?fs. db_kvs (db st) f = None")
      case True
      then have "map op_result rs = replicate (Suc (length ps)) (Some rv)" "succeeded"
          "db_kvs (db st1) = add_files rv ?fs (db_kvs (db st))"
        using d unfolding txn len by (simp_all add: op_result_def)
      then show ?thesis using result Ok a True space_results_ok [of space ps rv]
        by (auto simp: then_ok_def answer_def)
    next
      case False
      from d [unfolded txn if_not_P [OF False]] show ?thesis using result Ok a by (auto simp: then_ok_def answer_def)
    qed
  next
    case (Err e)
    then have "db st1 = db st \<or> db st1 = fst (do_txn (absents ?fs) (creates ?fs) [] (db st))" using call r1 by (simp add: call_ok_def)
    then have "db_kvs (db st1) = db_kvs (db st) \<or> (\<exists>rv. db_kvs (db st1) = add_files rv ?fs (db_kvs (db st)))"
      unfolding txn by (auto split: if_splits)
    then show ?thesis using result Err by (auto simp: then_ok_def answer_def)
  qed (use call r1 in \<open>simp add: call_ok_def\<close>)
qed

text \<open>The successful case, for the callers.\<close>

lemma AddSpace_atomic_txn:
  assumes "etcd cli db" "distinct (map pt_ID ps)" "ps \<noteq> []"
    and "topo_AddSpace (\<lambda>f c. txn_Put f c (Some 0)) cli st space ps = (st', Ok (sp, pts))"
  shows "db_kvs (db st') = add_files (the (tp_Version sp)) (files_of space ps) (db_kvs (db st))"
  using AddSpace_effect [OF assms] by simp

section \<open>Properties\<close>


abbreviation new_store :: "(topo_path, topo_content) ok_db" where
  "new_store \<equiv> ok_db \<lparr>db_Revision = 0, db_kvs = Map.empty\<rparr>"

abbreviation example_space :: meta_Space where
  "example_space \<equiv> \<lparr>ms_ID = 2, ms_Name = ''s'', ms_DB = 1, ms_DbName = ''d'', ms_Status = SS_Init, ms_KeyPolicy = (''k'', ''f''), ms_Schema = ''x''\<rparr>"


text \<open>
  A database that was added is read back, with its version, until somebody changes it.
\<close>

theorem db_roundtrip:
  assumes "etcd cli db" "topo_AddDB cli st d = (st1, Ok t)" "topo_GetDB cli st1 (mdb_ID d) = (st2, Ok t')"
  shows "t' = t \<and> tp_Meta t = d"
proof -
  obtain v where v: "srv_Create cli st (DbFile (mdb_ID d)) (DbContent d) = (st1, Ok v)" "t = \<lparr>tp_Version = Some v, tp_Meta = d\<rparr>"
    using assms(2) by (auto simp: topo_AddDB_def then_ok_def result_bind_Ok_iff split: prod.splits)
  obtain c w where w: "srv_Get cli st1 (DbFile (mdb_ID d)) = (st2, Ok (c, w))"
    and t': "(case c of DbContent m \<Rightarrow> Ok \<lparr>tp_Version = Some w, tp_Meta = m\<rparr> | _ \<Rightarrow> Err ErrClient) = Ok t'"
    using assms(3) by (auto simp: topo_GetDB_def then_ok_def result_bind_Ok_iff split: prod.splits)
  have "c = DbContent d \<and> w = v"
    using etcd.Create_Ok [OF assms(1) v(1)] etcd.Get_Ok [OF assms(1) w] by (auto simp: put_kv_def)
  then show ?thesis using v t' by auto
qed

theorem db_roundtrip_witness:
  "snd (topo_GetDB mem_etcd (fst (topo_AddDB mem_etcd new_store \<lparr>mdb_ID = 7, mdb_Name = ''db''\<rparr>)) 7) = Ok \<lparr>tp_Version = Some 1, tp_Meta = \<lparr>mdb_ID = 7, mdb_Name = ''db''\<rparr>\<rparr>"
proof -
  have new: "db_of new_store = \<lparr>db_Revision = 0, db_kvs = Map.empty\<rparr>" by (rule ok_db_inverse) (simp add: db_ok_def)
  let ?d = "\<lparr>mdb_ID = 7, mdb_Name = ''db''\<rparr> :: meta_DB"
  let ?new = "\<lparr>db_Revision = 1, db_kvs = [DbFile 7 \<mapsto> put_kv 1 (DbContent ?d) None]\<rparr>"
  have add: "topo_AddDB mem_etcd new_store ?d = (ok_db ?new, Ok \<lparr>tp_Version = Some 1, tp_Meta = ?d\<rparr>)"
    by (simp add: topo_AddDB_def srv_Create_def answer_def then_ok_def mem_etcd_def new do_txn_def do_ops_def cmp_holds_def Let_def)
  have "db_of (ok_db ?new) = ?new" by (rule ok_db_inverse) (simp add: db_ok_def put_kv_def)
  then have get: "topo_GetDB mem_etcd (ok_db ?new) 7 = (ok_db ?new, Ok \<lparr>tp_Version = Some 1, tp_Meta = ?d\<rparr>)"
    by (simp add: topo_GetDB_def srv_Get_def answer_def then_ok_def mem_etcd_def put_kv_def)
  show ?thesis using db_roundtrip [OF me.etcd_axioms add, of "ok_db ?new" "\<lparr>tp_Version = Some 1, tp_Meta = ?d\<rparr>"] get by (simp add: add)
qed

lemma split_at_plain: "sep \<notin> set s \<Longrightarrow> split_at sep s = [s]"
  by (induction s) auto

lemma split_at_sep: "sep \<notin> set s \<Longrightarrow> split_at sep (s @ sep # r) = s # split_at sep r"
  by (induction s) auto

text \<open>The zones of a partition are read back as they were written, as long as no name has a bar.\<close>

theorem zones_roundtrip:
  assumes "zones \<noteq> []" "\<forall>z\<in>set zones. CHR ''|'' \<notin> set z"
  shows "parseZonesData (buildZonesData zones) = zones"
  using assms unfolding parseZonesData_def buildZonesData_def
  by (induction "CHR ''|''" zones rule: join_with.induct) (auto simp: split_at_plain split_at_sep)

theorem zones_roundtrip_witness: "parseZonesData (buildZonesData [''a'', ''zone'']) = [''a'', ''zone'']"
  by (rule zones_roundtrip) simp_all

text \<open>\<^verbatim>\<open>UpdateSpace\<close> hides why it failed: a version that is not current is reported as a missing node.\<close>

lemma UpdateSpace_hides:
  assumes "topo_UpdateSpace cli st sp = (st', Err e)"
  shows "e = ErrNoNode"
  using assms by (auto simp: topo_UpdateSpace_def split: prod.splits result.splits)

end
