(* ===== verification/Gm_Cluster.thy ===== *)
theory Gm_Cluster
  imports Topo_Meta Zm_Space
begin

text \<open>
  The global master (\<^verbatim>\<open>gm/cluster.go\<close>, \<^verbatim>\<open>db.go\<close>, \<^verbatim>\<open>space.go\<close>, \<^verbatim>\<open>partition.go\<close>): its caches of databases, spaces and
  partitions, the requests that change them together with the topology store, and what the watches of
  the store do to them.  A pointer is the object it points to: no object is in two places that both
  change it.  A cache that Go leaves nil is None, and a call on it panics.  The topology store is the etcd
  client of \<open>Topo_Etcd\<close>, and \<open>gen\<close> is the identifier generator (\<open>gm_GenID\<close> of \<open>Topo_Ids\<close>) over its own state.
\<close>

section \<open>Objects and caches\<close>

datatype gm_err = ErrInternalError | ErrSysBusy | ErrNoMSLeader | ErrDupDb | ErrDbNotExists | ErrDupSpace
  | ErrSpaceNotExists | ErrGenIdFailed | TopoError topo_err

record gm_Partition =
  gp_Topo :: PartitionTopo
  gp_ReplicaLeader :: "Replica option"
  gp_Term :: u64

record gm_Space =
  gs_Topo :: SpaceTopo
  gs_partitions :: "PartitionID \<rightharpoonup> gm_Partition"

record SpaceCache =
  sc_name2Ids :: "string \<rightharpoonup> SpaceID"
  sc_spaces :: "SpaceID \<rightharpoonup> gm_Space"

record gm_DB =
  gd_Topo :: DBTopo
  gd_SpaceCache :: "SpaceCache option"

record DBCache =
  dc_dbs :: "DBID \<rightharpoonup> gm_DB"
  dc_name2Ids :: "string \<rightharpoonup> DBID"

abbreviation gd_ID :: "gm_DB \<Rightarrow> DBID" where "gd_ID db \<equiv> mdb_ID (tp_Meta (gd_Topo db))"
abbreviation gd_Name :: "gm_DB \<Rightarrow> string" where "gd_Name db \<equiv> mdb_Name (tp_Meta (gd_Topo db))"
abbreviation gsp_ID :: "gm_Space \<Rightarrow> SpaceID" where "gsp_ID s \<equiv> ms_ID (tp_Meta (gs_Topo s))"
abbreviation gsp_Name :: "gm_Space \<Rightarrow> string" where "gsp_Name s \<equiv> ms_Name (tp_Meta (gs_Topo s))"
abbreviation gp_Meta :: "gm_Partition \<Rightarrow> meta_Partition" where "gp_Meta p \<equiv> tp_Meta (gp_Topo p)"

definition NewDBCache :: DBCache where
  "NewDBCache = \<lparr>dc_dbs = Map.empty, dc_name2Ids = Map.empty\<rparr>"

definition FindDbByName :: "DBCache \<Rightarrow> string \<Rightarrow> gm_DB option" where
  "FindDbByName c dbName = (case dc_name2Ids c dbName of None \<Rightarrow> None | Some i \<Rightarrow> dc_dbs c i)"

definition FindDbById :: "DBCache \<Rightarrow> DBID \<Rightarrow> gm_DB option" where
  "FindDbById c dbId = dc_dbs c dbId"

definition AddDb :: "gm_DB \<Rightarrow> DBCache \<Rightarrow> DBCache" where
  "AddDb db c = \<lparr>dc_dbs = (dc_dbs c)(gd_ID db \<mapsto> db), dc_name2Ids = (dc_name2Ids c)(gd_Name db \<mapsto> gd_ID db)\<rparr>"

definition cache_DeleteDb :: "gm_DB \<Rightarrow> DBCache \<Rightarrow> DBCache" where
  "cache_DeleteDb db c = \<lparr>dc_dbs = (dc_dbs c)(gd_ID db := None), dc_name2Ids = (dc_name2Ids c)(gd_Name db := None)\<rparr>"

definition NewSpaceCache :: SpaceCache where
  "NewSpaceCache = \<lparr>sc_name2Ids = Map.empty, sc_spaces = Map.empty\<rparr>"

definition FindSpaceByName :: "SpaceCache \<Rightarrow> string \<Rightarrow> gm_Space option" where
  "FindSpaceByName c spaceName = (case sc_name2Ids c spaceName of None \<Rightarrow> None | Some i \<Rightarrow> sc_spaces c i)"

definition FindSpaceById :: "SpaceCache \<Rightarrow> SpaceID \<Rightarrow> gm_Space option" where
  "FindSpaceById c spaceId = sc_spaces c spaceId"

definition cache_AddSpace :: "gm_Space \<Rightarrow> SpaceCache \<Rightarrow> SpaceCache" where
  "cache_AddSpace s c = \<lparr>sc_name2Ids = (sc_name2Ids c)(gsp_Name s \<mapsto> gsp_ID s), sc_spaces = (sc_spaces c)(gsp_ID s \<mapsto> s)\<rparr>"

definition cache_DeleteSpace :: "gm_Space \<Rightarrow> SpaceCache \<Rightarrow> SpaceCache" where
  "cache_DeleteSpace s c = (case sc_spaces c (gsp_ID s) of
      None \<Rightarrow> c
    | Some oldSpace \<Rightarrow> \<lparr>sc_name2Ids = (sc_name2Ids c)(gsp_Name oldSpace := None), sc_spaces = (sc_spaces c)(gsp_ID s := None)\<rparr>)"

type_synonym gm_PartitionCache = "PartitionID \<rightharpoonup> gm_Partition"

definition gm_AddPartition :: "gm_Partition \<Rightarrow> gm_PartitionCache \<Rightarrow> gm_PartitionCache" where
  "gm_AddPartition p c = c(pt_ID (gp_Meta p) \<mapsto> p)"

definition gm_DeletePartition :: "PartitionID \<Rightarrow> gm_PartitionCache \<Rightarrow> gm_PartitionCache" where
  "gm_DeletePartition i c = c(i := None)"

section \<open>The cluster\<close>

record ('e, 'i) Cluster =
  DbCache :: DBCache
  gm_PartitionCache :: gm_PartitionCache
  gm_topo :: 'e
  gm_ids :: 'i

type_synonym ('e, 'i, 'a) cluster_op = "('e, 'i) Cluster \<Rightarrow> ('e, 'i) Cluster \<times> (gm_err, 'a) result"

text \<open>Sequencing of calls that return an error, and the calls of the store and of the generator in it.\<close>

definition bindS :: "('s \<Rightarrow> 's \<times> ('x, 'a) result) \<Rightarrow> ('a \<Rightarrow> 's \<Rightarrow> 's \<times> ('x, 'b) result) \<Rightarrow> 's \<Rightarrow> 's \<times> ('x, 'b) result" where
  "bindS m f s = (case m s of (s', Ok a) \<Rightarrow> f a s' | (s', Err e) \<Rightarrow> (s', Err e) | (s', Panic) \<Rightarrow> (s', Panic))"

definition onTopo :: "('e \<Rightarrow> 'e \<times> (topo_err, 'a) result) \<Rightarrow> ('e, 'i, 'a) cluster_op" where
  "onTopo f st = (case f (gm_topo st) of (e, r) \<Rightarrow>
     (st\<lparr>gm_topo := e\<rparr>, case r of Ok a \<Rightarrow> Ok a | Err x \<Rightarrow> Err (TopoError x) | Panic \<Rightarrow> Panic))"

definition GenID :: "('i \<Rightarrow> 'i \<times> (topo_err, u64) result) \<Rightarrow> ('e, 'i, u64) cluster_op" where
  "GenID gen st = (case gen (gm_ids st) of (i, r) \<Rightarrow>
     (st\<lparr>gm_ids := i\<rparr>, case r of Ok a \<Rightarrow> Ok a | Err _ \<Rightarrow> Err ErrGenIdFailed | Panic \<Rightarrow> Panic))"

definition on_dbs :: "(DBCache \<Rightarrow> DBCache) \<Rightarrow> ('e, 'i) Cluster \<Rightarrow> ('e, 'i) Cluster" where
  "on_dbs f st = st\<lparr>DbCache := f (DbCache st)\<rparr>"

section \<open>Databases\<close>

definition NewDB :: "('i \<Rightarrow> 'i \<times> (topo_err, u64) result) \<Rightarrow> string \<Rightarrow> ('e, 'i, gm_DB) cluster_op" where
  "NewDB gen dbName = bindS (GenID gen) (\<lambda>dbId st.
     (st, Ok \<lparr>gd_Topo = \<lparr>tp_Version = None, tp_Meta = \<lparr>mdb_ID = ucast dbId, mdb_Name = dbName\<rparr>\<rparr>,
        gd_SpaceCache = Some NewSpaceCache\<rparr>))"

definition CreateDb :: "'e topo_client \<Rightarrow> ('i \<Rightarrow> 'i \<times> (topo_err, u64) result) \<Rightarrow> string \<Rightarrow> ('e, 'i, gm_DB) cluster_op" where
  "CreateDb cli gen dbName st =
     (if FindDbByName (DbCache st) dbName \<noteq> None then (st, Err ErrDupDb)
      else bindS (NewDB gen dbName) (\<lambda>db.
        bindS (onTopo (\<lambda>e. topo_AddDB cli e (tp_Meta (gd_Topo db)))) (\<lambda>t st.
          let db = db\<lparr>gd_Topo := t\<rparr> in (on_dbs (AddDb db) st, Ok db))) st)"

definition db_rename :: "string \<Rightarrow> gm_DB \<Rightarrow> gm_DB" where
  "db_rename newName db = db\<lparr>gd_Topo := (gd_Topo db)\<lparr>tp_Meta := (tp_Meta (gd_Topo db))\<lparr>mdb_Name := newName\<rparr>\<rparr>\<rparr>"

definition RenameDb :: "'e topo_client \<Rightarrow> string \<Rightarrow> string \<Rightarrow> ('e, 'i, unit) cluster_op" where
  "RenameDb cli srcDbName destDbName st =
     (case FindDbByName (DbCache st) srcDbName of
        None \<Rightarrow> (st, Err ErrDbNotExists)
      | Some srcDb \<Rightarrow>
          if FindDbByName (DbCache st) destDbName \<noteq> None then (st, Err ErrDupDb)
          else
            let st = on_dbs (cache_DeleteDb srcDb) st; srcDb = db_rename destDbName srcDb
            in bindS (onTopo (\<lambda>e. topo_UpdateDB cli e (gd_Topo srcDb)))
                 (\<lambda>t st. (on_dbs (AddDb (srcDb\<lparr>gd_Topo := t\<rparr>)) st, Ok ())) st)"

definition DeleteDb :: "'e topo_client \<Rightarrow> string \<Rightarrow> ('e, 'i, unit) cluster_op" where
  "DeleteDb cli dbName st =
     (case FindDbByName (DbCache st) dbName of
        None \<Rightarrow> (st, Err ErrDbNotExists)
      | Some db \<Rightarrow>
          bindS (onTopo (\<lambda>e. topo_DeleteDB cli e (gd_Topo db))) (\<lambda>_ st. (on_dbs (cache_DeleteDb db) st, Ok ())) st)"

section \<open>Spaces\<close>

record PartitionPolicy =
  pol_Key :: string
  pol_Function :: string
  pol_Number :: u64

definition gm_NewSpace :: "('i \<Rightarrow> 'i \<times> (topo_err, u64) result) \<Rightarrow> DBID \<Rightarrow> string \<Rightarrow> string \<Rightarrow> string \<Rightarrow> PartitionPolicy
    \<Rightarrow> ('e, 'i, gm_Space) cluster_op" where
  "gm_NewSpace gen dbId dbName spaceName spaceSchema policy = bindS (GenID gen) (\<lambda>spaceId st.
     (st, Ok \<lparr>gs_Topo = \<lparr>tp_Version = None, tp_Meta = \<lparr>ms_ID = ucast spaceId, ms_Name = spaceName, ms_DB = dbId, ms_DbName = dbName,
          ms_Status = SS_Init, ms_KeyPolicy = (pol_Key policy, pol_Function policy), ms_Schema = spaceSchema\<rparr>\<rparr>,
        gs_partitions = Map.empty\<rparr>))"

definition gm_NewPartition :: "('i \<Rightarrow> 'i \<times> (topo_err, u64) result) \<Rightarrow> DBID \<Rightarrow> SpaceID \<Rightarrow> SlotID \<times> SlotID
    \<Rightarrow> ('e, 'i, gm_Partition) cluster_op" where
  "gm_NewPartition gen dbId spaceId slots = bindS (GenID gen) (\<lambda>partId st.
     (st, Ok \<lparr>gp_Topo = \<lparr>tp_Version = None, tp_Meta = \<lparr>pt_ID = partId, pt_DB = dbId, pt_Space = spaceId, StartSlot = fst slots,
          EndSlot = snd slots, Replicas = [], pt_Status = PA_READONLY, Epoch = zero_Epoch\<rparr>\<rparr>,
        gp_ReplicaLeader = None, gp_Term = 0\<rparr>))"

fun new_partitions :: "('i \<Rightarrow> 'i \<times> (topo_err, u64) result) \<Rightarrow> DBID \<Rightarrow> SpaceID \<Rightarrow> (SlotID \<times> SlotID) list
    \<Rightarrow> ('e, 'i, gm_Partition list) cluster_op" where
  "new_partitions gen dbId spaceId [] st = (st, Ok [])"
| "new_partitions gen dbId spaceId (r # rs) st =
     bindS (gm_NewPartition gen dbId spaceId r) (\<lambda>p.
       bindS (new_partitions gen dbId spaceId rs) (\<lambda>ps st. (st, Ok (p # ps)))) st"

text \<open>\<^verbatim>\<open>Space.add\<close>: the partitions of the space are new objects, beside the ones that go to the partition cache.\<close>

definition space_add :: "'e topo_client \<Rightarrow> (topo_path \<Rightarrow> topo_content \<Rightarrow> (topo_path, topo_content) etcd3Transaction \<Rightarrow> (topo_path, topo_content) etcd3Transaction)
    \<Rightarrow> gm_Space \<Rightarrow> gm_Partition list \<Rightarrow> ('e, 'i, gm_Space) cluster_op" where
  "space_add cli create s partitions =
     bindS (onTopo (\<lambda>e. topo_AddSpace create cli e (tp_Meta (gs_Topo s)) (map gp_Meta partitions))) (\<lambda>(t, pts) st.
       (st, Ok (s\<lparr>gs_Topo := t,
          gs_partitions := map_of (rev (map (\<lambda>p. (pt_ID (tp_Meta p), \<lparr>gp_Topo = p, gp_ReplicaLeader = None, gp_Term = 0\<rparr>)) pts))\<rparr>)))"

text \<open>A database in the cache changed in place.\<close>

definition store_db :: "string \<Rightarrow> gm_DB \<Rightarrow> DBCache \<Rightarrow> DBCache" where
  "store_db dbName db c = (case dc_name2Ids c dbName of None \<Rightarrow> c | Some i \<Rightarrow> c\<lparr>dc_dbs := (dc_dbs c)(i \<mapsto> db)\<rparr>)"

definition CreateSpace :: "'e topo_client \<Rightarrow> (topo_path \<Rightarrow> topo_content \<Rightarrow> (topo_path, topo_content) etcd3Transaction \<Rightarrow> (topo_path, topo_content) etcd3Transaction)
    \<Rightarrow> ('i \<Rightarrow> 'i \<times> (topo_err, u64) result) \<Rightarrow> string \<Rightarrow> string \<Rightarrow> string \<Rightarrow> PartitionPolicy \<Rightarrow> ('e, 'i, gm_Space) cluster_op" where
  "CreateSpace cli create gen dbName spaceName spaceSchema policy st =
     (case FindDbByName (DbCache st) dbName of
        None \<Rightarrow> (st, Err ErrDbNotExists)
      | Some db \<Rightarrow>
        (case gd_SpaceCache db of
           None \<Rightarrow> (st, Panic)
         | Some sc \<Rightarrow>
           if FindSpaceByName sc spaceName \<noteq> None then (st, Err ErrDupSpace)
           else
             bindS (gm_NewSpace gen (gd_ID db) dbName spaceName spaceSchema policy) (\<lambda>space st.
               case SlotSplit 0 0xFFFFFFFF (pol_Number policy + 1) of
                 None \<Rightarrow> (st, Err ErrInternalError)
               | Some slots \<Rightarrow>
                   bindS (new_partitions gen (gd_ID db) (gsp_ID space) (slot_ranges slots)) (\<lambda>partitions.
                     bindS (space_add cli create space partitions) (\<lambda>space st.
                       (on_dbs (store_db dbName (db\<lparr>gd_SpaceCache := Some (cache_AddSpace space sc)\<rparr>)) st
                          \<lparr>gm_PartitionCache := fold gm_AddPartition partitions (gm_PartitionCache st)\<rparr>, Ok space))) st) st))"

definition space_rename :: "string \<Rightarrow> gm_Space \<Rightarrow> gm_Space" where
  "space_rename newName s = s\<lparr>gs_Topo := (gs_Topo s)\<lparr>tp_Meta := (tp_Meta (gs_Topo s))\<lparr>ms_Name := newName\<rparr>\<rparr>\<rparr>"

definition RenameSpace :: "'e topo_client \<Rightarrow> string \<Rightarrow> string \<Rightarrow> string \<Rightarrow> ('e, 'i, unit) cluster_op" where
  "RenameSpace cli dbName srcSpaceName destSpaceName st =
     (case FindDbByName (DbCache st) dbName of
        None \<Rightarrow> (st, Err ErrDbNotExists)
      | Some db \<Rightarrow>
        (case gd_SpaceCache db of
           None \<Rightarrow> (st, Panic)
         | Some sc \<Rightarrow>
           (case FindSpaceByName sc srcSpaceName of
              None \<Rightarrow> (st, Err ErrSpaceNotExists)
            | Some srcSpace \<Rightarrow>
                if FindSpaceByName sc destSpaceName \<noteq> None then (st, Err ErrDupSpace)
                else
                  let sc = cache_DeleteSpace srcSpace sc; srcSpace = space_rename destSpaceName srcSpace;
                      put = (\<lambda>sc. on_dbs (store_db dbName (db\<lparr>gd_SpaceCache := Some sc\<rparr>)))
                  in bindS (onTopo (\<lambda>e. topo_UpdateSpace cli e (gs_Topo srcSpace)))
                       (\<lambda>t st. (put (cache_AddSpace (srcSpace\<lparr>gs_Topo := t\<rparr>) sc) st, Ok ())) (put sc st))))"

definition gm_DeleteSpace :: "'e topo_client \<Rightarrow> string \<Rightarrow> string \<Rightarrow> ('e, 'i, unit) cluster_op" where
  "gm_DeleteSpace cli dbName spaceName st =
     (case FindDbByName (DbCache st) dbName of
        None \<Rightarrow> (st, Err ErrDbNotExists)
      | Some db \<Rightarrow>
        (case gd_SpaceCache db of
           None \<Rightarrow> (st, Panic)
         | Some sc \<Rightarrow>
           (case FindSpaceByName sc spaceName of
              None \<Rightarrow> (st, Err ErrSpaceNotExists)
            | Some space \<Rightarrow>
                bindS (onTopo (\<lambda>e. topo_DeleteSpace cli e (gs_Topo space))) (\<lambda>_ st.
                  (on_dbs (store_db dbName (db\<lparr>gd_SpaceCache := Some (cache_DeleteSpace space sc)\<rparr>)) st
                     \<lparr>gm_PartitionCache := gm_PartitionCache st |` (- pt_ID ` gp_Meta ` ran (gs_partitions space))\<rparr>, Ok ())) st)))"

section \<open>Watches and recovery\<close>

text \<open>
  What the goroutines of \<^verbatim>\<open>watchDBChange\<close> and \<^verbatim>\<open>watchPartitionChange\<close> do with a change: a deletion, an error, after
  which they end, or the new contents of a file.  A database they add has no space cache.
\<close>

datatype db_watch = DbNoNode DBID | DbWatchErr | DbData DBTopo

definition watch_db :: "db_watch \<Rightarrow> DBCache \<Rightarrow> DBCache" where
  "watch_db ev c = (case ev of
      DbNoNode i \<Rightarrow> (case FindDbById c i of None \<Rightarrow> c | Some oldDB \<Rightarrow> cache_DeleteDb oldDB c)
    | DbWatchErr \<Rightarrow> c
    | DbData t \<Rightarrow>
        let new = \<lparr>gd_Topo = t, gd_SpaceCache = None\<rparr> in
        (case FindDbById c (mdb_ID (tp_Meta t)) of
           None \<Rightarrow> AddDb new c
         | Some oldDB \<Rightarrow> AddDb new (cache_DeleteDb oldDB c)))"

datatype partition_watch = PartitionNoNode PartitionID | PartitionWatchErr | PartitionData PartitionTopo

definition watch_partition :: "partition_watch \<Rightarrow> gm_PartitionCache \<Rightarrow> gm_PartitionCache" where
  "watch_partition ev c = (case ev of
      PartitionNoNode i \<Rightarrow> gm_DeletePartition i c
    | PartitionWatchErr \<Rightarrow> c
    | PartitionData t \<Rightarrow>
        let new = \<lparr>gp_Topo = t, gp_ReplicaLeader = None, gp_Term = 0\<rparr> in
        (case c (pt_ID (tp_Meta t)) of
           None \<Rightarrow> gm_AddPartition new c
         | Some old \<Rightarrow> gm_AddPartition new (gm_DeletePartition (pt_ID (gp_Meta old)) c)))"

text \<open>Recovery at the start of the master: databases and partitions as the watches list them.\<close>

definition recoveryDBCache :: "DBTopo list \<Rightarrow> DBCache \<Rightarrow> DBCache" where
  "recoveryDBCache dbsTopo c = fold (\<lambda>t. AddDb \<lparr>gd_Topo = t, gd_SpaceCache = None\<rparr>) dbsTopo c"

fun recover_spaces :: "'e topo_client \<Rightarrow> DBID \<Rightarrow> SpaceTopo list \<Rightarrow> ('e, 'i, unit) cluster_op" where
  "recover_spaces cli dbId [] st = (st, Ok ())"
| "recover_spaces cli dbId (s # ss) st =
     (let st = (if FindDbById (DbCache st) (ms_DB (tp_Meta s)) = None then fst (onTopo (\<lambda>e. topo_DeleteSpace cli e s) st) else st)
      in case dc_dbs (DbCache st) dbId of
           None \<Rightarrow> recover_spaces cli dbId ss st
         | Some db \<Rightarrow>
             (case gd_SpaceCache db of
                None \<Rightarrow> (st, Panic)
              | Some sc \<Rightarrow>
                  let sc = cache_AddSpace \<lparr>gs_Topo = s, gs_partitions = Map.empty\<rparr> sc
                  in recover_spaces cli dbId ss
                       (on_dbs (\<lambda>c. c\<lparr>dc_dbs := (dc_dbs c)(dbId \<mapsto> db\<lparr>gd_SpaceCache := Some sc\<rparr>)\<rparr>) st)))"

text \<open>\<open>dbs\<close> is the order in which the databases of the cache are visited, \<open>alls\<close> what the store lists as its spaces.\<close>

fun recoverySpaceCache :: "'e topo_client \<Rightarrow> (topo_err, SpaceTopo list) result \<Rightarrow> DBID list \<Rightarrow> ('e, 'i, unit) cluster_op" where
  "recoverySpaceCache cli alls [] st = (st, Ok ())"
| "recoverySpaceCache cli alls (dbId # dbs) st =
     (case alls of
        Err e \<Rightarrow> (st, Err (TopoError e))
      | Panic \<Rightarrow> (st, Panic)
      | Ok spaces \<Rightarrow> bindS (recover_spaces cli dbId spaces) (\<lambda>_. recoverySpaceCache cli alls dbs) st)"

definition recoveryPartitionCache :: "PartitionTopo list \<Rightarrow> DBCache \<Rightarrow> gm_PartitionCache \<Rightarrow> (gm_err, gm_PartitionCache) result" where
  "recoveryPartitionCache ts dbs c =
     fold (\<lambda>t r. result_bind r (\<lambda>c.
       case FindDbById dbs (pt_DB (tp_Meta t)) of
         None \<Rightarrow> Ok c
       | Some db \<Rightarrow> (case gd_SpaceCache db of
           None \<Rightarrow> Panic
         | Some sc \<Rightarrow> if FindSpaceById sc (pt_Space (tp_Meta t)) = None then Ok c
             else Ok (gm_AddPartition \<lparr>gp_Topo = t, gp_ReplicaLeader = None, gp_Term = 0\<rparr> c)))) ts (Ok c)"

section \<open>The index of names\<close>

text \<open>
  Every name leads to a database of that name.  This is what \<^verbatim>\<open>FindDbByName\<close> reports as never happened
  when it does not hold.
\<close>

definition names_ok :: "DBCache \<Rightarrow> bool" where
  "names_ok c = (\<forall>n i. dc_name2Ids c n = Some i \<longrightarrow> (\<exists>db. dc_dbs c i = Some db \<and> gd_ID db = i \<and> gd_Name db = n))"

lemma names_okD: "names_ok c \<Longrightarrow> dc_name2Ids c n = Some i \<Longrightarrow> \<exists>db. dc_dbs c i = Some db \<and> gd_ID db = i \<and> gd_Name db = n"
  by (simp add: names_ok_def)

lemma FindDbByName_ok:
  assumes "names_ok c" "FindDbByName c n = Some db"
  shows "dc_name2Ids c n = Some (gd_ID db) \<and> dc_dbs c (gd_ID db) = Some db \<and> gd_Name db = n"
  using assms names_okD [OF assms(1)] by (fastforce simp: FindDbByName_def split: option.splits)

text \<open>Adding a database is safe when no name leads to its identifier, deleting one that is in the cache always is.\<close>

lemma AddDb_ok:
  assumes "names_ok c" "dc_dbs c (gd_ID db) = None"
  shows "names_ok (AddDb db c)"
  using assms names_okD [OF assms(1)] by (fastforce simp: names_ok_def AddDb_def)

lemma DeleteDb_ok:
  assumes "names_ok c" "dc_dbs c (gd_ID db) = Some db"
  shows "names_ok (cache_DeleteDb db c) \<and> dc_dbs (cache_DeleteDb db c) (gd_ID db) = None"
  using assms unfolding names_ok_def cache_DeleteDb_def by simp (metis option.inject)

lemma store_db_ok:
  assumes "names_ok c" "FindDbByName c n = Some db" "gd_Topo db' = gd_Topo db"
  shows "names_ok (store_db n db' c)"
  using assms FindDbByName_ok [OF assms(1,2)] names_okD [OF assms(1)] by (fastforce simp: names_ok_def store_db_def)

lemma db_rename_simps [simp]: "gd_ID (db_rename n db) = gd_ID db" "gd_Name (db_rename n db) = n"
  by (simp_all add: db_rename_def)

text \<open>In the cache every object is under its own identifier.\<close>

definition ids_ok :: "DBCache \<Rightarrow> bool" where
  "ids_ok c = (\<forall>i db. dc_dbs c i = Some db \<longrightarrow> gd_ID db = i)"

lemma ids_ok_ops [simp]:
  "ids_ok c \<Longrightarrow> ids_ok (AddDb db c)" "ids_ok c \<Longrightarrow> ids_ok (cache_DeleteDb db c)"
  by (auto simp: ids_ok_def AddDb_def cache_DeleteDb_def)

lemma watch_db_ok:
  assumes "names_ok c" "ids_ok c"
  shows "names_ok (watch_db ev c) \<and> ids_ok (watch_db ev c)"
proof (cases ev)
  case (DbNoNode i)
  show ?thesis
  proof (cases "dc_dbs c i")
    case (Some old)
    then have "gd_ID old = i" using assms(2) by (simp add: ids_ok_def)
    then show ?thesis using assms DbNoNode Some DeleteDb_ok [OF assms(1), of old] by (simp add: watch_db_def FindDbById_def)
  qed (use assms DbNoNode in \<open>simp add: watch_db_def FindDbById_def\<close>)
next
  case (DbData t)
  show ?thesis
  proof (cases "dc_dbs c (mdb_ID (tp_Meta t))")
    case None
    then show ?thesis using assms DbData by (auto simp: watch_db_def FindDbById_def intro: AddDb_ok)
  next
    case (Some old)
    then have "gd_ID old = mdb_ID (tp_Meta t)" using assms(2) by (simp add: ids_ok_def)
    then show ?thesis using assms DbData Some DeleteDb_ok [OF assms(1), of old]
      by (auto simp: watch_db_def FindDbById_def intro!: AddDb_ok)
  qed
qed (use assms in \<open>simp add: watch_db_def\<close>)

section \<open>Runs\<close>

lemma bindS_post:
  assumes "P st" "\<And>st. P st \<Longrightarrow> P (fst (m st))" "\<And>a st. P st \<Longrightarrow> R (fst (f a st))" "\<And>st. P st \<Longrightarrow> R st"
  shows "R (fst (bindS m f st))"
  using assms(1) assms(2) [of st] assms(3,4) by (auto simp: bindS_def split: prod.splits result.splits)

lemma calls_DbCache [simp]:
  "DbCache (fst (onTopo f st)) = DbCache st" "DbCache (fst (GenID gen st)) = DbCache st"
  by (simp_all add: onTopo_def GenID_def split: prod.splits)

lemma bindS_keeps:
  assumes "\<And>st. DbCache (fst (m st)) = DbCache st" "\<And>a st. DbCache (fst (f a st)) = DbCache st"
  shows "DbCache (fst (bindS m f st)) = DbCache st"
  by (rule bindS_post [where P = "\<lambda>s. DbCache s = DbCache st"]) (simp_all add: assms)

lemma new_objects_DbCache [simp]:
  "DbCache (fst (NewDB gen n st)) = DbCache st" "DbCache (fst (gm_NewSpace gen i n s sch pol st)) = DbCache st"
  "DbCache (fst (gm_NewPartition gen i j r st)) = DbCache st" "DbCache (fst (space_add cli create sp ps st)) = DbCache st"
  by (simp_all add: NewDB_def gm_NewSpace_def gm_NewPartition_def space_add_def split_beta bindS_keeps)

lemma new_partitions_DbCache [simp]: "DbCache (fst (new_partitions gen i j rs st)) = DbCache st"
  by (induction rs arbitrary: st) (simp_all add: bindS_keeps)

definition cache_fine :: "DBCache \<Rightarrow> bool" where
  "cache_fine c = (names_ok c \<and> ids_ok c)"

lemma on_dbs_DbCache [simp]: "DbCache (on_dbs f st) = f (DbCache st)"
  by (simp add: on_dbs_def)

lemma cache_fine_AddDb: "cache_fine c \<Longrightarrow> dc_dbs c (gd_ID db) = None \<Longrightarrow> cache_fine (AddDb db c)"
  by (simp add: cache_fine_def AddDb_ok)

lemma cache_fine_DeleteDb:
  "cache_fine c \<Longrightarrow> FindDbByName c n = Some db \<Longrightarrow>
     cache_fine (cache_DeleteDb db c) \<and> dc_dbs (cache_DeleteDb db c) (gd_ID db) = None"
  using FindDbByName_ok DeleteDb_ok by (fastforce simp: cache_fine_def)

lemma cache_fine_store:
  "cache_fine c \<Longrightarrow> FindDbByName c n = Some db \<Longrightarrow> cache_fine (store_db n (db\<lparr>gd_SpaceCache := x\<rparr>) c)"
  using FindDbByName_ok [of c n db] store_db_ok [of c n db "db\<lparr>gd_SpaceCache := x\<rparr>"]
  by (auto simp: cache_fine_def ids_ok_def store_db_def)

text \<open>The generator gives no identifier that a database of the cache has.\<close>

definition fresh_db :: "('i \<Rightarrow> 'i \<times> (topo_err, u64) result) \<Rightarrow> ('e, 'i) Cluster \<Rightarrow> bool" where
  "fresh_db gen st = (\<forall>x. snd (gen (gm_ids st)) = Ok x \<longrightarrow> dc_dbs (DbCache st) (ucast x) = None)"

text \<open>A request, or a change that a watch reports.\<close>

inductive gm_step :: "'e topo_client \<Rightarrow> (topo_path \<Rightarrow> topo_content \<Rightarrow> (topo_path, topo_content) etcd3Transaction \<Rightarrow> (topo_path, topo_content) etcd3Transaction)
    \<Rightarrow> ('i \<Rightarrow> 'i \<times> (topo_err, u64) result) \<Rightarrow> ('e, 'i) Cluster \<Rightarrow> ('e, 'i) Cluster \<Rightarrow> bool"
  for cli create gen where
  create_db: "fresh_db gen st \<Longrightarrow> gm_step cli create gen st (fst (CreateDb cli gen n st))"
| rename_db: "gm_step cli create gen st (fst (RenameDb cli n n' st))"
| delete_db: "gm_step cli create gen st (fst (DeleteDb cli n st))"
| create_space: "gm_step cli create gen st (fst (CreateSpace cli create gen n s schema policy st))"
| rename_space: "gm_step cli create gen st (fst (RenameSpace cli n s s' st))"
| delete_space: "gm_step cli create gen st (fst (gm_DeleteSpace cli n s st))"
| watch_db: "gm_step cli create gen st (on_dbs (watch_db ev) st)"
| watch_partition: "gm_step cli create gen st (st\<lparr>gm_PartitionCache := watch_partition pev (gm_PartitionCache st)\<rparr>)"

lemma topo_AddDB_meta: "snd (topo_AddDB cli e m) = Ok t \<Longrightarrow> tp_Meta t = m"
  by (auto simp: topo_AddDB_def then_ok_def result_bind_Ok_iff split: prod.splits)

lemma topo_UpdateDB_meta: "snd (topo_UpdateDB cli e d) = Ok t \<Longrightarrow> tp_Meta t = tp_Meta d"
  by (auto simp: topo_UpdateDB_def then_ok_def result_bind_Ok_iff split: prod.splits)

lemma CreateDb_fine:
  assumes "cache_fine (DbCache st)" "fresh_db gen st"
  shows "cache_fine (DbCache (fst (CreateDb cli gen n st)))"
proof (cases "snd (gen (gm_ids st))")
  case (Ok x)
  obtain i where gen: "gen (gm_ids st) = (i, Ok x)" using Ok by (cases "gen (gm_ids st)") simp
  let ?d = "\<lparr>mdb_ID = ucast x, mdb_Name = n\<rparr>"
  obtain e r where add: "topo_AddDB cli (gm_topo st) ?d = (e, r)" by (cases "topo_AddDB cli (gm_topo st) ?d")
  have "tp_Meta t = ?d" if "r = Ok t" for t using topo_AddDB_meta [of cli "gm_topo st" ?d t] add that by simp
  then show ?thesis using assms gen add Ok
    by (auto simp: CreateDb_def NewDB_def GenID_def onTopo_def bindS_def fresh_db_def Let_def
        intro!: cache_fine_AddDb split: result.splits)
qed (use assms in \<open>auto simp: CreateDb_def NewDB_def GenID_def bindS_def split: prod.splits\<close>)

lemma RenameDb_fine:
  assumes "cache_fine (DbCache st)"
  shows "cache_fine (DbCache (fst (RenameDb cli n n' st)))"
proof (cases "FindDbByName (DbCache st) n")
  case (Some db)
  note del = cache_fine_DeleteDb [OF assms Some]
  obtain e r where upd: "topo_UpdateDB cli (gm_topo st) (gd_Topo (db_rename n' db)) = (e, r)"
    by (cases "topo_UpdateDB cli (gm_topo st) (gd_Topo (db_rename n' db))")
  have "tp_Meta t = tp_Meta (gd_Topo (db_rename n' db))" if "r = Ok t" for t
    using topo_UpdateDB_meta [of cli "gm_topo st" "gd_Topo (db_rename n' db)" t] upd that by simp
  then show ?thesis using assms Some upd del
    by (auto simp: RenameDb_def onTopo_def bindS_def on_dbs_def Let_def intro!: cache_fine_AddDb split: result.splits)
qed (use assms in \<open>simp add: RenameDb_def\<close>)

lemma DeleteDb_fine:
  assumes "cache_fine (DbCache st)"
  shows "cache_fine (DbCache (fst (DeleteDb cli n st)))"
  using assms cache_fine_DeleteDb [OF assms]
  by (auto simp: DeleteDb_def onTopo_def bindS_def split: option.splits prod.splits result.splits)

text \<open>What a request on the spaces of a database may do to the cache of databases.\<close>

lemma bindS_fine:
  assumes "DbCache st = c" "\<And>st. DbCache (fst (m st)) = DbCache st"
    "\<And>a st. DbCache st = c \<Longrightarrow> cache_fine (DbCache (fst (f a st)))" "cache_fine c"
  shows "cache_fine (DbCache (fst (bindS m f st)))"
  by (rule bindS_post [where P = "\<lambda>s. DbCache s = c"]) (use assms in auto)

lemma CreateSpace_fine:
  assumes "cache_fine (DbCache st)"
  shows "cache_fine (DbCache (fst (CreateSpace cli create gen n s schema policy st)))"
proof (cases "FindDbByName (DbCache st) n")
  case (Some db)
  note store = cache_fine_store [OF assms Some]
  show ?thesis
  proof (cases "gd_SpaceCache db")
    case (Some sc)
    have "cache_fine (DbCache (fst (bindS (new_partitions gen i j rs) (\<lambda>ps. bindS (space_add cli create sp ps) (\<lambda>sp st.
        (on_dbs (store_db n (db\<lparr>gd_SpaceCache := Some (cache_AddSpace sp sc)\<rparr>)) st
          \<lparr>gm_PartitionCache := fold gm_AddPartition ps (gm_PartitionCache st)\<rparr>, Ok sp))) st')))"
      if "DbCache st' = DbCache st" for i j rs sp st'
      using that assms store by (intro bindS_fine [where c = "DbCache st"]) simp_all
    then show ?thesis using assms Some \<open>FindDbByName (DbCache st) n = Some db\<close>
      by (auto simp: CreateSpace_def split: option.splits intro!: bindS_fine [where c = "DbCache st"])
  qed (use assms Some in \<open>simp add: CreateSpace_def\<close>)
qed (use assms in \<open>simp add: CreateSpace_def\<close>)

lemma store_db_twice [simp]: "store_db n x (store_db n y c) = store_db n x c"
  by (simp add: store_db_def split: option.splits)

lemma DeleteSpace_fine:
  assumes "cache_fine (DbCache st)"
  shows "cache_fine (DbCache (fst (gm_DeleteSpace cli n s st)))"
proof (cases "FindDbByName (DbCache st) n")
  case (Some db)
  note store = cache_fine_store [OF assms Some]
  show ?thesis
  proof (cases "gd_SpaceCache db")
    case (Some sc)
    then show ?thesis using assms store \<open>FindDbByName (DbCache st) n = Some db\<close>
      by (auto simp: gm_DeleteSpace_def split: option.splits intro!: bindS_fine [where c = "DbCache st"])
  qed (use assms Some in \<open>simp add: gm_DeleteSpace_def\<close>)
qed (use assms in \<open>simp add: gm_DeleteSpace_def\<close>)

lemma RenameSpace_fine:
  assumes "cache_fine (DbCache st)"
  shows "cache_fine (DbCache (fst (RenameSpace cli n s s' st)))"
proof (cases "FindDbByName (DbCache st) n")
  case (Some db)
  note store = cache_fine_store [OF assms Some]
  show ?thesis
  proof (cases "gd_SpaceCache db")
    case (Some sc)
    show ?thesis
    proof (cases "FindSpaceByName sc s")
      case (Some sp)
      have "cache_fine (DbCache (fst (bindS (onTopo f)
          (\<lambda>t st. (on_dbs (store_db n (db\<lparr>gd_SpaceCache := Some (g t)\<rparr>)) st, Ok ()))
          (on_dbs (store_db n (db\<lparr>gd_SpaceCache := Some x\<rparr>)) st))))" for f :: "'a \<Rightarrow> 'a \<times> (topo_err, SpaceTopo) result" and g x
        by (rule bindS_fine [where c = "store_db n (db\<lparr>gd_SpaceCache := Some x\<rparr>) (DbCache st)"]) (simp_all add: store)
      then show ?thesis using assms Some \<open>gd_SpaceCache db = Some sc\<close> \<open>FindDbByName (DbCache st) n = Some db\<close>
        by (simp add: RenameSpace_def Let_def)
    qed (use assms Some \<open>FindDbByName (DbCache st) n = Some db\<close> in \<open>simp add: RenameSpace_def\<close>)
  qed (use assms Some in \<open>simp add: RenameSpace_def\<close>)
qed (use assms in \<open>simp add: RenameSpace_def\<close>)

lemma watch_fine: "cache_fine c \<Longrightarrow> cache_fine (watch_db ev c)"
  by (simp add: cache_fine_def watch_db_ok)

lemma gm_step_fine: "gm_step cli create gen st st' \<Longrightarrow> cache_fine (DbCache st) \<Longrightarrow> cache_fine (DbCache st')"
  by (erule gm_step.cases)
    (simp_all add: CreateDb_fine RenameDb_fine DeleteDb_fine CreateSpace_fine RenameSpace_fine DeleteSpace_fine watch_fine)

section \<open>What a space gets\<close>

text \<open>The partitions that are made for a space.\<close>

lemma new_partitions_ranges:
  assumes "new_partitions gen dbId spaceId rs st = (st', Ok ps)"
  shows "map (\<lambda>p. (StartSlot (gp_Meta p), EndSlot (gp_Meta p))) ps = rs \<and>
    (\<forall>p\<in>set ps. pt_DB (gp_Meta p) = dbId \<and> pt_Space (gp_Meta p) = spaceId \<and> Replicas (gp_Meta p) = [])"
  using assms
proof (induction rs arbitrary: st st' ps)
  case (Cons r rs)
  then obtain st1 p where p: "gm_NewPartition gen dbId spaceId r st = (st1, Ok p)"
    by (auto simp: bindS_def split: prod.splits result.splits)
  then obtain st2 qs where "new_partitions gen dbId spaceId rs st1 = (st2, Ok qs)" "ps = p # qs"
    using Cons.prems by (auto simp: bindS_def split: prod.splits result.splits)
  then show ?case using Cons.IH [of st1 st2 qs] p
    by (auto simp: gm_NewPartition_def bindS_def split: prod.splits result.splits)
qed simp

text \<open>Every space in the cache is in its initial state, and no partition of it has a replica.\<close>

definition space_waiting :: "gm_Space \<Rightarrow> bool" where
  "space_waiting s = (ms_Status (tp_Meta (gs_Topo s)) = SS_Init \<and> (\<forall>p\<in>ran (gs_partitions s). Replicas (gp_Meta p) = []))"

definition spaces_bare :: "DBCache \<Rightarrow> bool" where
  "spaces_bare c = (\<forall>db\<in>ran (dc_dbs c). \<forall>sc. gd_SpaceCache db = Some sc \<longrightarrow> (\<forall>s\<in>ran (sc_spaces sc). space_waiting s))"

lemma ran_upd_sub: "ran (m(k \<mapsto> v)) \<subseteq> insert v (ran m)"
  by (auto simp: ran_def)

lemma ran_del_sub: "ran (m(k := None)) \<subseteq> ran m"
  by (auto simp: ran_def)

lemma bare_AddDb: "spaces_bare c \<Longrightarrow> (\<And>sc s. gd_SpaceCache db = Some sc \<Longrightarrow> s \<in> ran (sc_spaces sc) \<Longrightarrow> space_waiting s) \<Longrightarrow> spaces_bare (AddDb db c)"
  using ran_upd_sub [of "dc_dbs c"] by (fastforce simp: spaces_bare_def AddDb_def)

lemma bare_DeleteDb: "spaces_bare c \<Longrightarrow> spaces_bare (cache_DeleteDb db c)"
  using ran_del_sub [of "dc_dbs c"] by (fastforce simp: spaces_bare_def cache_DeleteDb_def)

lemma bare_find:
  assumes "spaces_bare c" "FindDbByName c n = Some db" "gd_SpaceCache db = Some sc" "s \<in> ran (sc_spaces sc)"
  shows "space_waiting s"
proof -
  have "db \<in> ran (dc_dbs c)" using assms(2) by (auto simp: FindDbByName_def ran_def split: option.splits)
  then show ?thesis using assms by (simp add: spaces_bare_def)
qed

lemma bare_store:
  assumes "spaces_bare c" "\<And>s. s \<in> ran (sc_spaces sc) \<Longrightarrow> space_waiting s"
  shows "spaces_bare (store_db n (db\<lparr>gd_SpaceCache := Some sc\<rparr>) c)"
  using assms ran_upd_sub [of "dc_dbs c"] by (fastforce simp: spaces_bare_def store_db_def split: option.splits)

lemma bare_space_ops:
  "(\<And>s. s \<in> ran (sc_spaces sc) \<Longrightarrow> space_waiting s) \<Longrightarrow> t \<in> ran (sc_spaces (cache_DeleteSpace sp sc)) \<Longrightarrow> space_waiting t"
  "(\<And>s. s \<in> ran (sc_spaces sc) \<Longrightarrow> space_waiting s) \<Longrightarrow> space_waiting sp \<Longrightarrow> t \<in> ran (sc_spaces (cache_AddSpace sp sc)) \<Longrightarrow> space_waiting t"
  using ran_del_sub [of "sc_spaces sc"] ran_upd_sub [of "sc_spaces sc"]
  by (fastforce simp: cache_DeleteSpace_def cache_AddSpace_def split: option.splits)+

lemma bindS_Ok: "bindS m f st = (st', Ok b) \<longleftrightarrow> (\<exists>s a. m st = (s, Ok a) \<and> f a s = (st', Ok b))"
  by (auto simp: bindS_def split: prod.splits result.splits)

lemma bindS_keep:
  assumes "\<And>s a. m st = (s, Ok a) \<Longrightarrow> R (fst (f a s))" "R (fst (m st))"
  shows "R (fst (bindS m f st))"
  using assms by (auto simp: bindS_def split: prod.splits result.splits)

lemma AddSpace_metas:
  assumes "snd (topo_AddSpace create cli e sp ps) = Ok (t, pts)"
  shows "tp_Meta t = sp \<and> map tp_Meta pts = ps"
  using assms by (auto simp: topo_AddSpace_def then_ok_def result_bind_Ok_iff Let_def o_def map_nth split: prod.splits if_splits)

lemma space_add_Ok:
  assumes "space_add cli create s ps st = (st', Ok s')"
  shows "tp_Meta (gs_Topo s') = tp_Meta (gs_Topo s) \<and> gm_PartitionCache st' = gm_PartitionCache st \<and>
    (\<forall>p\<in>ran (gs_partitions s'). gp_Meta p \<in> gp_Meta ` set ps)"
proof -
  obtain e t pts where add: "topo_AddSpace create cli (gm_topo st) (tp_Meta (gs_Topo s)) (map gp_Meta ps) = (e, Ok (t, pts))"
    and st': "st' = st\<lparr>gm_topo := e\<rparr>" and s': "s' = s\<lparr>gs_Topo := t,
      gs_partitions := map_of (rev (map (\<lambda>p. (pt_ID (tp_Meta p), \<lparr>gp_Topo = p, gp_ReplicaLeader = None, gp_Term = 0\<rparr>)) pts))\<rparr>"
    using assms by (auto simp: space_add_def bindS_Ok onTopo_def split: prod.splits result.splits)
  have metas: "tp_Meta t = tp_Meta (gs_Topo s)" "map tp_Meta pts = map gp_Meta ps"
    using AddSpace_metas [of create cli "gm_topo st" "tp_Meta (gs_Topo s)" "map gp_Meta ps" t pts] add by simp_all
  have "tp_Meta p \<in> gp_Meta ` set ps" if "p \<in> set pts" for p using metas(2) that by (metis imageI list.set_map)
  then show ?thesis using metas st' s' by (auto simp: ran_def dest!: map_of_SomeD)
qed

text \<open>What the steps of the request change.\<close>

lemma ids_only: "\<exists>i. fst (GenID gen st) = st\<lparr>gm_ids := i\<rparr>" "\<exists>i. fst (gm_NewSpace gen d n s sch pol st) = st\<lparr>gm_ids := i\<rparr>"
    "\<exists>i. fst (gm_NewPartition gen d j r st) = st\<lparr>gm_ids := i\<rparr>"
  by (auto simp: GenID_def gm_NewSpace_def gm_NewPartition_def bindS_def split: prod.splits result.splits)

lemma new_partitions_ids: "\<exists>i. fst (new_partitions gen d j rs st) = st\<lparr>gm_ids := i\<rparr>"
proof (induction rs arbitrary: st)
  case (Cons r rs)
  have "\<exists>i. fst (bindS (new_partitions gen d j rs) (\<lambda>ps st. (st, Ok (p # ps))) (st\<lparr>gm_ids := k\<rparr>)) = st\<lparr>gm_ids := i\<rparr>" for p k
    using Cons [of "st\<lparr>gm_ids := k\<rparr>"] by (auto simp: bindS_def split: prod.splits result.splits)
  then show ?case using ids_only(3) [of gen d j r st]
    by (auto simp: bindS_def [of "gm_NewPartition gen d j r"] split: prod.splits result.splits)
next
  case Nil
  show ?case by (simp, rule exI [of _ "gm_ids st"]) simp
qed

lemma space_add_topo: "\<exists>e. fst (space_add cli create sp ps st) = st\<lparr>gm_topo := e\<rparr>"
  by (auto simp: space_add_def bindS_def onTopo_def split: prod.splits result.splits)

text \<open>A request to create a space changes nothing in the caches, or it succeeds with all its partitions.\<close>

inductive created_space :: "'e topo_client \<Rightarrow> (topo_path \<Rightarrow> topo_content \<Rightarrow> (topo_path, topo_content) etcd3Transaction \<Rightarrow> (topo_path, topo_content) etcd3Transaction)
    \<Rightarrow> ('i \<Rightarrow> 'i \<times> (topo_err, u64) result) \<Rightarrow> string \<Rightarrow> string \<Rightarrow> PartitionPolicy
    \<Rightarrow> ('e, 'i) Cluster \<Rightarrow> ('e, 'i) Cluster \<Rightarrow> gm_Space \<Rightarrow> gm_Partition list \<Rightarrow> bool"
  for cli create gen n s policy where
  "FindDbByName (DbCache st) n = Some db \<Longrightarrow> gd_SpaceCache db = Some sc \<Longrightarrow>
   SlotSplit 0 0xFFFFFFFF (pol_Number policy + 1) = Some slots \<Longrightarrow> gsp_Name sp0 = s \<and> ms_Status (tp_Meta (gs_Topo sp0)) = SS_Init \<Longrightarrow>
   new_partitions gen (gd_ID db) (gsp_ID sp0) (slot_ranges slots) st0 = (st1, Ok ps) \<Longrightarrow>
   space_add cli create sp0 ps st1 = (st2, Ok sp) \<Longrightarrow>
   DbCache st' = store_db n (db\<lparr>gd_SpaceCache := Some (cache_AddSpace sp sc)\<rparr>) (DbCache st) \<Longrightarrow>
   gm_topo st' = gm_topo st2 \<Longrightarrow> gm_topo st1 = gm_topo st \<Longrightarrow>
   gm_PartitionCache st' = fold gm_AddPartition ps (gm_PartitionCache st) \<Longrightarrow>
   created_space cli create gen n s policy st st' sp ps"

lemma CreateSpace_outcome:
  assumes "CreateSpace cli create gen n s schema policy st = (st', r)"
  shows "(DbCache st' = DbCache st \<and> gm_PartitionCache st' = gm_PartitionCache st \<and> (\<forall>sp. r \<noteq> Ok sp)) \<or>
    (\<exists>sp ps. r = Ok sp \<and> created_space cli create gen n s policy st st' sp ps)"
proof (cases "FindDbByName (DbCache st) n")
  case (Some db)
  note db = this
  show ?thesis
  proof (cases "gd_SpaceCache db")
    case (Some sc)
    note sc = this
    show ?thesis
    proof (cases "FindSpaceByName sc s")
      case None
      obtain st0 r0 where new: "gm_NewSpace gen (gd_ID db) n s schema policy st = (st0, r0)"
        by (cases "gm_NewSpace gen (gd_ID db) n s schema policy st")
      have st0: "DbCache st0 = DbCache st" "gm_PartitionCache st0 = gm_PartitionCache st" "gm_topo st0 = gm_topo st"
        using ids_only(2) [of gen "gd_ID db" n s schema policy st] new by auto
      have name: "gsp_Name sp0 = s \<and> ms_Status (tp_Meta (gs_Topo sp0)) = SS_Init" if "r0 = Ok sp0" for sp0
        using new that by (auto simp: gm_NewSpace_def bindS_def split: prod.splits result.splits)
      show ?thesis
      proof (cases "\<exists>sp0 slots. r0 = Ok sp0 \<and> SlotSplit 0 0xFFFFFFFF (pol_Number policy + 1) = Some slots")
        case True
        then obtain sp0 slots where r0: "r0 = Ok sp0" and slots: "SlotSplit 0 0xFFFFFFFF (pol_Number policy + 1) = Some slots"
          by blast
        obtain st1 r1 where parts: "new_partitions gen (gd_ID db) (gsp_ID sp0) (slot_ranges slots) st0 = (st1, r1)"
          by (cases "new_partitions gen (gd_ID db) (gsp_ID sp0) (slot_ranges slots) st0")
        have st1: "DbCache st1 = DbCache st" "gm_PartitionCache st1 = gm_PartitionCache st" "gm_topo st1 = gm_topo st"
          using new_partitions_ids [of gen "gd_ID db" "gsp_ID sp0" "slot_ranges slots" st0] parts st0 by auto
        show ?thesis
        proof (cases r1)
          case (Ok ps)
          obtain st2 r2 where add: "space_add cli create sp0 ps st1 = (st2, r2)" by (cases "space_add cli create sp0 ps st1")
          have "DbCache st2 = DbCache st" "gm_PartitionCache st2 = gm_PartitionCache st"
            using space_add_topo [of cli create sp0 ps st1] add st1 by auto
          then show ?thesis
            using assms db sc None new r0 slots parts Ok add st1 created_space.intros [OF db sc slots name [OF r0], of gen st0 st1 ps cli create st2 _ st']
            by (cases r2) (auto simp: CreateSpace_def bindS_def on_dbs_def)
        qed (use assms db sc None new r0 slots parts st1 in \<open>auto simp: CreateSpace_def bindS_def\<close>)
      qed (use assms db sc None new st0 in \<open>auto simp: CreateSpace_def bindS_def split: result.splits option.splits\<close>)
    qed (use assms db sc in \<open>auto simp: CreateSpace_def\<close>)
  qed (use assms db in \<open>auto simp: CreateSpace_def\<close>)
qed (use assms in \<open>auto simp: CreateSpace_def\<close>)

lemma created_bare:
  assumes "created_space cli create gen n s policy st st' sp ps" "spaces_bare (DbCache st)"
  shows "spaces_bare (DbCache st') \<and> space_waiting sp"
  using assms(1)
proof cases
  case (1 db sc slots sp0 st0 st1 st2)
  have "\<forall>p\<in>set ps. Replicas (gp_Meta p) = []" using new_partitions_ranges [OF 1(5)] by blast
  then have sp: "space_waiting sp" using space_add_Ok [OF 1(6)] 1(4) by (auto simp: space_waiting_def)
  have "space_waiting t" if "t \<in> ran (sc_spaces (cache_AddSpace sp sc))" for t
    by (rule bare_space_ops(2) [OF _ sp that]) (rule bare_find [OF assms(2) 1(1,2)])
  then show ?thesis unfolding 1(7) using bare_store [OF assms(2)] sp by blast
qed

lemma CreateSpace_bare:
  assumes "spaces_bare (DbCache st)"
  shows "spaces_bare (DbCache (fst (CreateSpace cli create gen n s schema policy st)))"
  using CreateSpace_outcome [OF prod.collapse [symmetric], of cli create gen n s schema policy st] assms created_bare by fastforce

lemma CreateDb_bare:
  assumes "spaces_bare (DbCache st)"
  shows "spaces_bare (DbCache (fst (CreateDb cli gen n st)))"
  using assms unfolding CreateDb_def NewDB_def
  by (auto simp: bindS_def GenID_def onTopo_def Let_def NewSpaceCache_def intro!: bare_AddDb split: prod.splits result.splits)

lemma RenameDb_bare:
  assumes "spaces_bare (DbCache st)"
  shows "spaces_bare (DbCache (fst (RenameDb cli n n' st)))"
proof (cases "FindDbByName (DbCache st) n")
  case (Some db)
  have "spaces_bare (AddDb ((db_rename n' db)\<lparr>gd_Topo := t\<rparr>) (cache_DeleteDb db (DbCache st)))" for t
    using bare_find [OF assms Some] by (intro bare_AddDb bare_DeleteDb assms) (simp add: db_rename_def)
  then show ?thesis using assms Some bare_DeleteDb [OF assms]
    by (auto simp: RenameDb_def onTopo_def bindS_def on_dbs_def Let_def split: prod.splits result.splits)
qed (use assms in \<open>simp add: RenameDb_def\<close>)

lemma DeleteDb_bare:
  assumes "spaces_bare (DbCache st)"
  shows "spaces_bare (DbCache (fst (DeleteDb cli n st)))"
  using assms bare_DeleteDb [OF assms]
  by (auto simp: DeleteDb_def onTopo_def bindS_def split: option.splits prod.splits result.splits)

lemma watch_bare: "spaces_bare c \<Longrightarrow> spaces_bare (watch_db ev c)"
  by (auto simp: watch_db_def Let_def split: db_watch.splits option.splits intro!: bare_AddDb bare_DeleteDb)

lemma space_rename_bare: "tp_Meta t = tp_Meta (gs_Topo (space_rename n s)) \<Longrightarrow> space_waiting ((space_rename n s)\<lparr>gs_Topo := t\<rparr>) = space_waiting s"
  by (simp add: space_waiting_def space_rename_def)

lemma topo_UpdateSpace_meta: "snd (topo_UpdateSpace cli e sp) = Ok t \<Longrightarrow> tp_Meta t = tp_Meta sp"
  by (auto simp: topo_UpdateSpace_def split: prod.splits result.splits)

lemma spaces_ops_bare:
  assumes "spaces_bare (DbCache st)"
  shows "spaces_bare (DbCache (fst (gm_DeleteSpace cli n s st)))" "spaces_bare (DbCache (fst (RenameSpace cli n s s' st)))"
proof -
  have both: "spaces_bare (DbCache (fst (gm_DeleteSpace cli n s st))) \<and> spaces_bare (DbCache (fst (RenameSpace cli n s s' st)))"
  proof (cases "FindDbByName (DbCache st) n")
    case (Some db)
    note db = this
    show ?thesis
    proof (cases "gd_SpaceCache db")
      case (Some sc)
      note bare = bare_find [OF assms db Some]
      have del: "spaces_bare (store_db n (db\<lparr>gd_SpaceCache := Some (cache_DeleteSpace sp sc)\<rparr>) (DbCache st))" for sp
        using bare_space_ops(1) [OF bare] by (intro bare_store assms) blast
      show ?thesis
      proof (cases "FindSpaceByName sc s")
        case sp: (Some sp)
        have nr: "space_waiting sp" using sp by (intro bare) (auto simp: FindSpaceByName_def ran_def split: option.splits)
        have "space_waiting x" if "tp_Meta t = tp_Meta (gs_Topo (space_rename s' sp))"
          "x \<in> ran (sc_spaces (cache_AddSpace ((space_rename s' sp)\<lparr>gs_Topo := t\<rparr>) (cache_DeleteSpace sp sc)))" for x t
        proof (rule bare_space_ops(2) [OF _ _ that(2)])
          show "space_waiting ((space_rename s' sp)\<lparr>gs_Topo := t\<rparr>)" using nr space_rename_bare [OF that(1)] by simp
        qed (rule bare_space_ops(1) [OF bare])
        then have "spaces_bare (store_db n (db\<lparr>gd_SpaceCache := Some (cache_AddSpace ((space_rename s' sp)\<lparr>gs_Topo := t\<rparr>) (cache_DeleteSpace sp sc))\<rparr>) (DbCache st))"
          if "topo_UpdateSpace cli e (gs_Topo (space_rename s' sp)) = (e', Ok t)" for e e' t
          using topo_UpdateSpace_meta [of cli e "gs_Topo (space_rename s' sp)" t] that by (intro bare_store assms) simp
        then show ?thesis using assms db Some sp del
          by (auto simp: gm_DeleteSpace_def RenameSpace_def Let_def bindS_def onTopo_def on_dbs_def split: prod.splits result.splits)
      qed (use assms db Some in \<open>simp add: gm_DeleteSpace_def RenameSpace_def\<close>)
    qed (use assms db in \<open>simp add: gm_DeleteSpace_def RenameSpace_def\<close>)
  qed (use assms in \<open>simp add: gm_DeleteSpace_def RenameSpace_def\<close>)
  then show "spaces_bare (DbCache (fst (gm_DeleteSpace cli n s st)))" "spaces_bare (DbCache (fst (RenameSpace cli n s s' st)))"
    by simp_all
qed

lemma gm_step_bare: "gm_step cli create gen st st' \<Longrightarrow> spaces_bare (DbCache st) \<Longrightarrow> spaces_bare (DbCache st')"
  by (erule gm_step.cases)
    (simp_all add: CreateDb_bare RenameDb_bare DeleteDb_bare CreateSpace_bare spaces_ops_bare watch_bare)

lemma fold_AddPartition_other: "i \<notin> (\<lambda>p. pt_ID (gp_Meta p)) ` set ps \<Longrightarrow> fold gm_AddPartition ps c i = c i"
  by (induction ps arbitrary: c) (auto simp: gm_AddPartition_def)

lemma fold_AddPartition_get:
  "distinct (map (\<lambda>p. pt_ID (gp_Meta p)) ps) \<Longrightarrow> p \<in> set ps \<Longrightarrow> fold gm_AddPartition ps c (pt_ID (gp_Meta p)) = Some p"
  by (induction ps arbitrary: c) (auto simp: gm_AddPartition_def fold_AddPartition_other)

lemma add_files_get:
  assumes "distinct (map fst fs)" "(f, c) \<in> set fs"
  shows "add_files rv fs m f = Some (put_kv rv c None)"
proof -
  have "map_of (map (\<lambda>(f, c). (f, put_kv rv c None)) fs) f = Some (put_kv rv c None)"
    using assms by (intro map_of_is_SomeI) (force simp: o_def split_beta)+
  then show ?thesis by (simp add: add_files_def map_add_def)
qed

text \<open>A successful request has written the files of all partitions.\<close>

lemma space_add_files:
  assumes "etcd cli db" "distinct (map (\<lambda>p. pt_ID (gp_Meta p)) ps)" "p \<in> set ps"
    and "space_add cli (\<lambda>f c. txn_Put f c (Some 0)) sp0 ps st = (st', Ok sp)"
  shows "\<exists>kv. db_kvs (db (gm_topo st')) (PartitionFile (pt_ID (gp_Meta p))) = Some kv \<and> kv_Value kv = PartitionContent (gp_Meta p)"
proof -
  let ?create = "\<lambda>f c. txn_Put f c (Some 0)" and ?fs = "files_of (tp_Meta (gs_Topo sp0)) (map gp_Meta ps)"
  obtain e t pts where add: "topo_AddSpace ?create cli (gm_topo st) (tp_Meta (gs_Topo sp0)) (map gp_Meta ps) = (e, Ok (t, pts))"
      and e: "gm_topo st' = e"
    using assms(4) by (auto simp: space_add_def bindS_Ok onTopo_def split: prod.splits result.splits)
  have ids: "distinct (map pt_ID (map gp_Meta ps))" "map gp_Meta ps \<noteq> []" using assms(2,3) by (auto simp: o_def)
  have "db_kvs (db e) = add_files (the (tp_Version t)) ?fs (db_kvs (db (gm_topo st)))"
    using AddSpace_atomic_txn [OF assms(1) ids add] by simp
  moreover have "(PartitionFile (pt_ID (gp_Meta p)), PartitionContent (gp_Meta p)) \<in> set ?fs"
    using assms(3) by (auto simp: files_of_def)
  ultimately show ?thesis using add_files_get [OF space_files_distinct [OF ids(1)]] e by (simp add: put_kv_def)
qed

text \<open>A space that was created is found in the cache.\<close>

lemma created_space_found:
  assumes "cache_fine (DbCache st)" "created_space cli create gen n s policy st st' sp ps"
  shows "\<exists>d sc. FindDbByName (DbCache st') n = Some d \<and> gd_SpaceCache d = Some sc \<and> FindSpaceByName sc s = Some sp"
  using assms(2)
proof cases
  case (1 d sc slots sp0 st0 st1 st2)
  have sp: "tp_Meta (gs_Topo sp) = tp_Meta (gs_Topo sp0)" using space_add_Ok [OF 1(6)] by simp
  have key: "dc_name2Ids (DbCache st) n = Some (gd_ID d)" using assms(1) FindDbByName_ok [OF _ 1(1)] by (simp add: cache_fine_def)
  have "FindDbByName (DbCache st') n = Some (d\<lparr>gd_SpaceCache := Some (cache_AddSpace sp sc)\<rparr>)"
    unfolding 1(7) by (simp add: FindDbByName_def store_db_def key)
  moreover have "FindSpaceByName (cache_AddSpace sp sc) s = Some sp"
    using sp 1(4) by (simp add: FindSpaceByName_def cache_AddSpace_def)
  ultimately show ?thesis by simp
qed

section \<open>Properties\<close>


text \<open>A generator that counts, for examples.\<close>

abbreviation count_gen :: "nat \<Rightarrow> nat \<times> (topo_err, u64) result" where
  "count_gen \<equiv> \<lambda>i. (Suc i, Ok (of_nat i))"

abbreviation new_cluster :: "((topo_path, topo_content) ok_db, nat) Cluster" where
  "new_cluster \<equiv> \<lparr>DbCache = NewDBCache, gm_PartitionCache = Map.empty, gm_topo = new_store, gm_ids = 7\<rparr>"

lemma db_of_new_store: "db_of new_store = \<lparr>db_Revision = 0, db_kvs = Map.empty\<rparr>"
  by (rule ok_db_inverse) (simp add: db_ok_def)

lemma new_cluster_fine: "cache_fine (DbCache new_cluster)" "spaces_bare (DbCache new_cluster)"
  by (simp_all add: cache_fine_def names_ok_def ids_ok_def NewDBCache_def spaces_bare_def)

abbreviation demo_topo :: DBTopo where
  "demo_topo \<equiv> \<lparr>tp_Version = Some 1, tp_Meta = \<lparr>mdb_ID = 7, mdb_Name = ''d''\<rparr>\<rparr>"

abbreviation db_store :: "(topo_path, topo_content) ok_db" where
  "db_store \<equiv> ok_db \<lparr>db_Revision = 1, db_kvs = [DbFile 7 \<mapsto> put_kv 1 (DbContent \<lparr>mdb_ID = 7, mdb_Name = ''d''\<rparr>) None]\<rparr>"

lemma demo_CreateDb:
  "CreateDb mem_etcd count_gen ''d'' new_cluster =
     (new_cluster\<lparr>DbCache := AddDb \<lparr>gd_Topo = demo_topo, gd_SpaceCache = Some NewSpaceCache\<rparr> NewDBCache, gm_topo := db_store, gm_ids := 8\<rparr>,
      Ok \<lparr>gd_Topo = demo_topo, gd_SpaceCache = Some NewSpaceCache\<rparr>)"
  by (simp add: CreateDb_def NewDB_def GenID_def onTopo_def bindS_def Let_def FindDbByName_def NewDBCache_def on_dbs_def
      topo_AddDB_def srv_Create_def answer_def then_ok_def mem_etcd_def db_of_new_store do_txn_def do_ops_def cmp_holds_def)



text \<open>
  The watch of the databases drops their spaces: after a database was created and the watch has reported it,
  every request to create a space in it panics, because the database that replaces it in the cache has no space cache.
\<close>

theorem watch_drops_spaces:
  assumes "CreateDb cli gen n st = (st1, Ok db)"
  shows "snd (CreateSpace cli' create gen' n s schema policy (on_dbs (watch_db (DbData (gd_Topo db))) st1)) = Panic"
proof -
  obtain x e e' t where db: "db = \<lparr>gd_Topo = t, gd_SpaceCache = Some NewSpaceCache\<rparr>"
    and add: "topo_AddDB cli e \<lparr>mdb_ID = x, mdb_Name = n\<rparr> = (e', Ok t)" and st1: "DbCache st1 = AddDb db (DbCache st)"
    using assms by (auto simp: CreateDb_def NewDB_def GenID_def onTopo_def bindS_def Let_def split: prod.splits result.splits if_splits)
  have "tp_Meta t = \<lparr>mdb_ID = x, mdb_Name = n\<rparr>" using topo_AddDB_meta [of cli e _ t] add by simp
  then show ?thesis using db st1
    by (simp add: CreateSpace_def FindDbByName_def watch_db_def FindDbById_def AddDb_def cache_DeleteDb_def Let_def)
qed

theorem watch_drops_spaces_witness:
  "snd (CreateSpace mem_etcd (\<lambda>f c. txn_Put f c (Some 0)) count_gen ''d'' ''s'' ''x'' \<lparr>pol_Key = ''k'', pol_Function = ''f'', pol_Number = 1\<rparr>
     (on_dbs (watch_db (DbData demo_topo)) (fst (CreateDb mem_etcd count_gen ''d'' new_cluster)))) = Panic"
  using watch_drops_spaces [OF demo_CreateDb] unfolding demo_CreateDb by simp

lemma recovered_no_spaces:
  "\<forall>i db. dc_dbs c i = Some db \<longrightarrow> gd_SpaceCache db = None \<Longrightarrow>
     \<forall>i db. dc_dbs (recoveryDBCache ts c) i = Some db \<longrightarrow> gd_SpaceCache db = None"
  unfolding recoveryDBCache_def
proof (induction ts arbitrary: c)
  case (Cons t ts)
  have "\<forall>i db. dc_dbs (AddDb \<lparr>gd_Topo = t, gd_SpaceCache = None\<rparr> c) i = Some db \<longrightarrow> gd_SpaceCache db = None"
    using Cons.prems by (auto simp: AddDb_def)
  from Cons.IH [OF this] show ?case by simp
qed simp

text \<open>
  A master that restarts with a database and a space in the store panics: the recovered databases have
  no space cache.
\<close>

theorem restart_panics:
  assumes "DbCache st = recoveryDBCache ts NewDBCache" "dbId \<in> dom (dc_dbs (DbCache st))" "spaces \<noteq> []"
  shows "snd (recoverySpaceCache cli (Ok spaces) (dbId # dbs) st) = Panic"
proof -
  have "gd_SpaceCache db = None" if "dc_dbs (DbCache st) i = Some db" for i db
    using recovered_no_spaces [of NewDBCache ts] that unfolding assms(1) by (auto simp: NewDBCache_def)
  moreover obtain db s ss where "dc_dbs (DbCache st) dbId = Some db" "spaces = s # ss"
    using assms(2,3) by (cases spaces) auto
  ultimately show ?thesis by (simp add: bindS_def Let_def)
qed

theorem restart_panics_witness:
  "snd (recoverySpaceCache mem_etcd (Ok [\<lparr>tp_Version = Some 1, tp_Meta = example_space\<rparr>]) [7]
     (new_cluster\<lparr>DbCache := recoveryDBCache [demo_topo] NewDBCache\<rparr>)) = Panic"
  by (rule restart_panics [where ts = "[demo_topo]"]) (simp_all add: recoveryDBCache_def AddDb_def)

text \<open>
  A rename that the store refuses loses the database: the request fails and the cache knows neither its old nor its new name.
\<close>

theorem rename_loses_db:
  assumes "cache_fine (DbCache st)" "FindDbByName (DbCache st) n = Some db" "RenameDb cli n n' st = (st', Err (TopoError e))"
  shows "FindDbByName (DbCache st') n = None \<and> FindDbByName (DbCache st') n' = None \<and> FindDbById (DbCache st') (gd_ID db) = None"
proof -
  have new: "FindDbByName (DbCache st) n' = None" using assms(2,3) by (auto simp: RenameDb_def split: if_splits)
  then have st': "DbCache st' = cache_DeleteDb db (DbCache st)" using assms(2,3)
    by (auto simp: RenameDb_def Let_def bindS_def onTopo_def split: prod.splits result.splits)
  have "dc_name2Ids (DbCache st) n = Some (gd_ID db) \<and> gd_Name db = n"
    using FindDbByName_ok [OF _ assms(2)] assms(1) by (simp add: cache_fine_def)
  then show ?thesis using st' new by (auto simp: FindDbByName_def FindDbById_def cache_DeleteDb_def split: option.splits)
qed

lemma db_of_db_store:
  "db_of db_store = \<lparr>db_Revision = 1, db_kvs = [DbFile 7 \<mapsto> put_kv 1 (DbContent \<lparr>mdb_ID = 7, mdb_Name = ''d''\<rparr>) None]\<rparr>"
  by (rule ok_db_inverse) (simp add: db_ok_def put_kv_def)

theorem rename_loses_db_witness:
  "FindDbByName (DbCache (fst (RenameDb mem_etcd ''d'' ''e'' (new_cluster\<lparr>DbCache :=
      AddDb \<lparr>gd_Topo = demo_topo\<lparr>tp_Version := Some 9\<rparr>, gd_SpaceCache = None\<rparr> NewDBCache, gm_topo := db_store\<rparr>)))) ''d'' = None"
proof -
  let ?db = "\<lparr>gd_Topo = demo_topo\<lparr>tp_Version := Some 9\<rparr>, gd_SpaceCache = None\<rparr> :: gm_DB"
  let ?st = "new_cluster\<lparr>DbCache := AddDb ?db NewDBCache, gm_topo := db_store\<rparr>"
  have fine: "cache_fine (DbCache ?st)"
    using cache_fine_AddDb [of NewDBCache ?db] new_cluster_fine by (simp add: NewDBCache_def)
  have found: "FindDbByName (DbCache ?st) ''d'' = Some ?db"
    by (simp add: FindDbByName_def AddDb_def)
  have free: "FindDbByName (DbCache ?st) ''e'' = None" by (simp add: FindDbByName_def AddDb_def NewDBCache_def)
  have "\<not> cmp_holds (db_of db_store) (CmpModRevision (DbFile 7) 9)"
    by (simp add: db_of_db_store cmp_holds_def) (simp add: put_kv_def)
  then have "snd (topo_UpdateDB mem_etcd db_store (gd_Topo (db_rename ''e'' ?db))) = Err ErrBadVersion"
    by (simp add: topo_UpdateDB_def srv_Update_def answer_def then_ok_def mem_etcd_def db_rename_def do_txn_def do_ops_def Let_def)
  then have "snd (RenameDb mem_etcd ''d'' ''e'' ?st) = Err (TopoError ErrBadVersion)"
    using found free by (auto simp: RenameDb_def Let_def bindS_def onTopo_def on_dbs_def split: prod.splits)
  then have "RenameDb mem_etcd ''d'' ''e'' ?st = (fst (RenameDb mem_etcd ''d'' ''e'' ?st), Err (TopoError ErrBadVersion))"
    by (metis prod.collapse)
  from rename_loses_db [OF fine found this] show ?thesis by simp
qed

abbreviation demo_policy :: PartitionPolicy where
  "demo_policy \<equiv> \<lparr>pol_Key = ''k'', pol_Function = ''f'', pol_Number = 1\<rparr>"

lemma mem_AddSpace:
  assumes "distinct (map pt_ID ps)" "ps \<noteq> []" "\<forall>f\<in>fst ` set (files_of space ps). db_kvs (db_of d) f = None"
  shows "\<exists>e t pts. topo_AddSpace (\<lambda>f c. txn_Put f c (Some 0)) mem_etcd d space ps = (e, Ok (t, pts))"
proof -
  have fs: "files_of space ps \<noteq> []" "length (files_of space ps) = Suc (length ps)" by (simp_all add: files_of_def)
  show ?thesis
    unfolding AddSpace_eq [OF assms(2)]
    using do_txn_creates [OF db_of_ok space_files_distinct [OF assms(1)] fs(1), of d] assms(3) space_results_ok [of space ps]
    by (simp add: mem_etcd_def answer_def then_ok_def fs(2) op_result_def del: replicate_Suc)
qed

lemma demo_CreateSpace:
  assumes "FindDbByName (DbCache st) n = Some db" "gd_SpaceCache db = Some NewSpaceCache"
    and "\<And>i j. db_kvs (db_of (gm_topo st)) (SpaceFile i j) = None" "\<And>k. db_kvs (db_of (gm_topo st)) (PartitionFile k) = None"
  shows "\<exists>sp. snd (CreateSpace mem_etcd (\<lambda>f c. txn_Put f c (Some 0)) count_gen n ''s'' ''x'' demo_policy st) = Ok sp"
proof -
  let ?create = "\<lambda>f c. txn_Put f c (Some 0)"
  have topo: "\<exists>e t pts. topo_AddSpace ?create mem_etcd (gm_topo st) sp [p] = (e, Ok (t, pts))" for sp p
    by (rule mem_AddSpace) (simp_all add: files_of_def space_file_def assms)
  have add: "\<exists>e sp. space_add mem_etcd ?create sp0 [p] (st\<lparr>gm_ids := i\<rparr>) = (st\<lparr>gm_ids := i, gm_topo := e\<rparr>, Ok sp)" for sp0 p i
    using topo [of "tp_Meta (gs_Topo sp0)" "gp_Meta p"] by (auto simp: space_add_def bindS_def onTopo_def)
  have split: "SlotSplit 0 0xFFFFFFFF (pol_Number demo_policy + 1) = Some [0, 0xFFFFFFFF]" by (simp add: SlotSplit_def)
  have new: "gm_NewSpace count_gen d n s x pol st = (st\<lparr>gm_ids := Suc (gm_ids st)\<rparr>, snd (gm_NewSpace count_gen d n s x pol st))"
      "\<exists>sp. snd (gm_NewSpace count_gen d n s x pol st) = Ok sp" for d n s x pol
    by (simp_all add: gm_NewSpace_def GenID_def bindS_def)
  have part: "\<exists>p. gm_NewPartition count_gen d j r st' = (st'\<lparr>gm_ids := Suc (gm_ids st')\<rparr>, Ok p)" for d j r and st' :: "((topo_path, topo_content) ok_db, nat) Cluster"
    by (simp add: gm_NewPartition_def GenID_def bindS_def)
  obtain sp0 where sp0: "gm_NewSpace count_gen (gd_ID db) n ''s'' ''x'' demo_policy st = (st\<lparr>gm_ids := Suc (gm_ids st)\<rparr>, Ok sp0)"
    using new [of "gd_ID db" n "''s''" "''x''" demo_policy] by auto
  obtain p where p: "gm_NewPartition count_gen (gd_ID db) (gsp_ID sp0) (0, 0xFFFFFFFF) (st\<lparr>gm_ids := Suc (gm_ids st)\<rparr>) =
      (st\<lparr>gm_ids := Suc (Suc (gm_ids st))\<rparr>, Ok p)"
    using part [of "gd_ID db" "gsp_ID sp0" "(0, 0xFFFFFFFF)" "st\<lparr>gm_ids := Suc (gm_ids st)\<rparr>"] by auto
  obtain e sp where "space_add mem_etcd ?create sp0 [p] (st\<lparr>gm_ids := Suc (Suc (gm_ids st))\<rparr>) = (st\<lparr>gm_ids := Suc (Suc (gm_ids st)), gm_topo := e\<rparr>, Ok sp)"
    using add by blast
  then show ?thesis using assms(1,2) sp0 p split
    by (simp add: CreateSpace_def FindSpaceByName_def NewSpaceCache_def bindS_def slot_ranges_def)
qed

definition demo_cluster :: "((topo_path, topo_content) ok_db, nat) Cluster" where
  "demo_cluster = fst (CreateDb mem_etcd count_gen ''d'' new_cluster)"

lemma demo_cluster_db:
  "FindDbByName (DbCache demo_cluster) ''d'' = Some \<lparr>gd_Topo = demo_topo, gd_SpaceCache = Some NewSpaceCache\<rparr>" "gm_topo demo_cluster = db_store"
  unfolding demo_cluster_def demo_CreateDb by (simp_all add: FindDbByName_def AddDb_def)

lemma demo_cluster_fine: "cache_fine (DbCache demo_cluster)"
  unfolding demo_cluster_def
  by (rule CreateDb_fine [OF new_cluster_fine(1)]) (simp add: fresh_db_def NewDBCache_def)

lemma demo_space:
  "\<exists>st' sp. CreateSpace mem_etcd (\<lambda>f c. txn_Put f c (Some 0)) count_gen ''d'' ''s'' ''x'' demo_policy demo_cluster = (st', Ok sp)"
proof -
  obtain sp where "snd (CreateSpace mem_etcd (\<lambda>f c. txn_Put f c (Some 0)) count_gen ''d'' ''s'' ''x'' demo_policy demo_cluster) = Ok sp"
    using demo_CreateSpace [OF demo_cluster_db(1)] unfolding demo_cluster_db(2) db_of_db_store by auto
  then show ?thesis by (cases "CreateSpace mem_etcd (\<lambda>f c. txn_Put f c (Some 0)) count_gen ''d'' ''s'' ''x'' demo_policy demo_cluster") auto
qed


end
