(* ===== verification/Gm_Worker.thy ===== *)
theory Gm_Worker
  imports Gm_Cluster
begin

text \<open>
  The worker of the global master that moves spaces from one state to the following (\<^verbatim>\<open>gm/worker.go\<close>), with the operations of
  partitions it calls (\<^verbatim>\<open>gm/partition.go\<close>, \<^verbatim>\<open>partition_info.go\<close>, \<^verbatim>\<open>selector.go\<close>) and the queue it fills
  (\<^verbatim>\<open>gm/processor.go\<close>).  A run reads the reports of all zones, updates the partitions in the cache, and asks
  for replicas to be created or deleted through events.  What the store of a zone answers, which
  zone master leads, the random numbers and the order in which Go visits a map are fields of \<open>gw_env\<close>.  A mutex that the
  running goroutine holds already is an argument: locking it again blocks forever, which is the outcome \<open>Blocks\<close>.
  Mutexes that are always free are left out.
\<close>

section \<open>Outcomes and state\<close>

datatype ('x, 'a) outcome = Returns "('x, 'a) result" | Blocks

datatype gm_event =
    GmPartitionCreate string string string gm_Partition
  | GmPartitionDelete string string PartitionID Replica
  | GmForcePartitionDelete string PartitionID

record ('e, 'i) GM =
  gw_cluster :: "('e, 'i) Cluster"
  gw_eventCh :: "gm_event list"
  gw_isStarted :: bool

type_synonym ('e, 'i, 'a) worker_op = "('e, 'i) GM \<Rightarrow> ('e, 'i) GM \<times> (gm_err, 'a) outcome"

record 'e gw_env =
  ge_cli :: "'e topo_client"
  ge_lease :: "(etcd_err, unit) result"
  ge_unrooted :: "topo_path \<Rightarrow> topo_path"
  ge_zonesMap :: "(topo_err, string list) result"
  ge_zonesName :: "(topo_err, string list) result"
  ge_ids :: "string \<Rightarrow> (topo_err, PartitionID list) result"
  ge_info :: "string \<Rightarrow> PartitionID \<Rightarrow> (topo_err, PartitionInfo option) result"
  ge_master :: "string \<Rightarrow> (topo_err, string) result"
  ge_rand :: "gm_Partition \<Rightarrow> nat"
  ge_order :: "PartitionID list"
  ge_dbs :: "gm_DB list"
  ge_spaces :: "gm_DB \<Rightarrow> gm_Space list"
  ge_partitions :: "gm_Space \<Rightarrow> gm_Partition list"

text \<open>Sequence; going on after an error that is only logged; calls of the store; a mutex.\<close>

definition bindW :: "('e, 'i, 'a) worker_op \<Rightarrow> ('a \<Rightarrow> ('e, 'i, 'b) worker_op) \<Rightarrow> ('e, 'i, 'b) worker_op" where
  "bindW m f st = (case m st of
      (st', Returns (Ok a)) \<Rightarrow> f a st'
    | (st', Returns (Err x)) \<Rightarrow> (st', Returns (Err x))
    | (st', Returns Panic) \<Rightarrow> (st', Returns Panic)
    | (st', Blocks) \<Rightarrow> (st', Blocks))"

definition loggedW :: "('e, 'i, unit) worker_op \<Rightarrow> ('e, 'i, unit) worker_op" where
  "loggedW m st = (case m st of
      (st', Returns (Err x)) \<Rightarrow> (st', Returns (Ok ()))
    | (st', r) \<Rightarrow> (st', r))"

definition topoW :: "('e \<Rightarrow> 'e \<times> (topo_err, 'a) result) \<Rightarrow> ('e, 'i, 'a) worker_op" where
  "topoW f st = (case onTopo f (gw_cluster st) of (c, r) \<Rightarrow> (st\<lparr>gw_cluster := c\<rparr>, Returns r))"

definition retW :: "(gm_err, 'a) result \<Rightarrow> ('e, 'i, 'a) worker_op" where
  "retW r st = (st, Returns r)"

definition lockW :: "bool \<Rightarrow> ('e, 'i, 'a) worker_op \<Rightarrow> ('e, 'i, 'a) worker_op" where
  "lockW held m st = (if held then (st, Blocks) else m st)"

definition topo_result :: "(topo_err, 'a) result \<Rightarrow> (gm_err, 'a) result" where
  "topo_result r = (case r of Ok a \<Rightarrow> Ok a | Err x \<Rightarrow> Err (TopoError x) | Panic \<Rightarrow> Panic)"

section \<open>Events\<close>

definition gm_CHANNEL_LIMIT :: nat where
  "gm_CHANNEL_LIMIT = 1000"

definition gm_PushEvent :: "gm_event \<Rightarrow> ('e, 'i, unit) worker_op" where
  "gm_PushEvent event st =
     (if \<not> gw_isStarted st then (st, Returns (Err ErrInternalError))
      else if length (gw_eventCh st) \<ge> gm_CHANNEL_LIMIT * 9 div 10 then (st, Returns (Err ErrSysBusy))
      else (st\<lparr>gw_eventCh := gw_eventCh st @ [event]\<rparr>, Returns (Ok ())))"

section \<open>Zones\<close>

definition GlobalZone :: string where
  "GlobalZone = ''global''"

definition SelectTarget :: "nat \<Rightarrow> string list \<Rightarrow> string" where
  "SelectTarget r zonesName =
     (if zonesName = [] then ''''
      else let candidateZoneNames = filter (\<lambda>z. z \<noteq> GlobalZone) zonesName
           in if candidateZoneNames = [] then '''' else candidateZoneNames ! (r mod length candidateZoneNames))"

definition getPartitionIdsByZone :: "'e gw_env \<Rightarrow> string \<Rightarrow> (topo_err, PartitionID list) result" where
  "getPartitionIdsByZone env zoneName = (if zoneName = GlobalZone then Ok [] else ge_ids env zoneName)"

text \<open>The address of the zone master that leads, for the two functions that end with an error when there is none.\<close>

definition zm_addr :: "'e gw_env \<Rightarrow> string \<Rightarrow> (gm_err, string) result" where
  "zm_addr env zoneName = result_bind (topo_result (ge_master env zoneName)) (\<lambda>a. if a = '''' then Err ErrNoMSLeader else Ok a)"

section \<open>Partitions\<close>

definition gm_FIXED_REPLICA_NUM :: nat where
  "gm_FIXED_REPLICA_NUM = 3"

definition gm_countReplicas :: "gm_Partition \<Rightarrow> nat" where
  "gm_countReplicas p = length (Replicas (gp_Meta p))"

definition partition_pickReplicaToDelete :: "gm_Partition \<Rightarrow> Replica option" where
  "partition_pickReplicaToDelete p = (case Replicas (gp_Meta p) of
      [] \<Rightarrow> None
    | [r] \<Rightarrow> Some r
    | rs \<Rightarrow> find (\<lambda>r. \<not> (\<exists>l. gp_ReplicaLeader p = Some l \<and> rep_ID r = rep_ID l)) rs)"

text \<open>\<^verbatim>\<open>string(partition.ID)\<close> is the UTF-8 text of the code point with that number.\<close>

definition string_of_rune :: "u64 \<Rightarrow> string" where
  "string_of_rune r = (let n = unat r in map char_of
     (if n < 0x80 then [n]
      else if n < 0x800 then [0xC0 + n div 64, 0x80 + n mod 64]
      else if n \<ge> 0x110000 \<or> (0xD800 \<le> n \<and> n < 0xE000) then [0xEF, 0xBF, 0xBD]
      else if n < 0x10000 then [0xE0 + n div 4096, 0x80 + n div 64 mod 64, 0x80 + n mod 64]
      else [0xF0 + n div 262144, 0x80 + n div 4096 mod 64, 0x80 + n div 64 mod 64, 0x80 + n mod 64]))"

definition getPartitionTask :: "'e gw_env \<Rightarrow> string \<Rightarrow> string \<Rightarrow> ('e, 'i, meta_Task option) worker_op" where
  "getPartitionTask env taskType taskId = bindW (topoW (\<lambda>e. topo_GetTask (ge_cli env) e taskType taskId)) (\<lambda>t. retW (Ok (Some t)))"

definition setPartitionTask :: "'e gw_env \<Rightarrow> meta_Task \<Rightarrow> ('e, 'i, unit) worker_op" where
  "setPartitionTask env task = topoW (\<lambda>e. topo_AddTask (ge_lease env) (ge_unrooted env) (ge_cli env) e task)"

definition grabPartitionTaskLock :: "'e gw_env \<Rightarrow> string \<Rightarrow> string \<Rightarrow> ('e, 'i, bool) worker_op" where
  "grabPartitionTaskLock env taskType taskId =
     bindW (getPartitionTask env taskType taskId) (\<lambda>task.
       if task \<noteq> None then retW (Ok False)
       else bindW (setPartitionTask env \<lparr>mt_Id = taskId, mt_Type = taskType\<rparr>) (\<lambda>_. retW (Ok True)))"

definition setZones :: "bool \<Rightarrow> 'e gw_env \<Rightarrow> string list \<Rightarrow> gm_Partition \<Rightarrow> ('e, 'i, unit) worker_op" where
  "setZones held env zonesName p =
     lockW held (topoW (\<lambda>e. topo_SetZonesForPartition (ge_cli env) e (pt_ID (gp_Meta p)) zonesName))"

definition store_replicas :: "'e gw_env \<Rightarrow> PartitionInfo \<Rightarrow> RaftStatus \<Rightarrow> gm_Partition \<Rightarrow> ('e, 'i, bool) worker_op" where
  "store_replicas env info rs p =
     (let copy = (gp_Topo p)\<lparr>tp_Meta := (gp_Meta p)\<lparr>Replicas := rs_Replica rs # Followers rs, Epoch := pi_Epoch info, pt_Status := pi_Status info\<rparr>\<rparr>
      in bindW (topoW (\<lambda>e. topo_UpdatePartition (ge_cli env) e copy)) (\<lambda>t st.
           let p' = \<lparr>gp_Topo = t, gp_ReplicaLeader = Some (rs_Replica rs), gp_Term = rs_Term rs\<rparr>;
               st' = st\<lparr>gw_cluster := (gw_cluster st)\<lparr>gm_PartitionCache := (gm_PartitionCache (gw_cluster st))(pt_ID (gp_Meta p) \<mapsto> p')\<rparr>\<rparr>
           in bindW (setZones True env (remdups (map rep_Zone (rs_Replica rs # Followers rs))) p') (\<lambda>_. retW (Ok True)) st'))"

definition updateReplicaGroup :: "'e gw_env \<Rightarrow> PartitionInfo \<Rightarrow> gm_Partition \<Rightarrow> ('e, 'i, bool) worker_op" where
  "updateReplicaGroup env info p =
     (let go = (case pi_RaftStatus info of None \<Rightarrow> retW Panic | Some rs \<Rightarrow> store_replicas env info rs p)
      in if \<not> IsLeader info then retW (Ok False)
         else if ConfVersion (pi_Epoch info) < ConfVersion (Epoch (gp_Meta p)) then retW (Ok False)
         else if ConfVersion (pi_Epoch info) = ConfVersion (Epoch (gp_Meta p)) then
           (case gp_ReplicaLeader p of
              None \<Rightarrow> go
            | Some l \<Rightarrow> (case pi_RaftStatus info of
                None \<Rightarrow> retW Panic
              | Some rs \<Rightarrow>
                  if rep_ID (rs_Replica rs) = rep_ID l then retW (Ok False)
                  else if rs_Term rs \<le> gp_Term p then retW (Ok False)
                  else go))
         else go)"

section \<open>Reports\<close>

definition gm_pickLeaderReplica :: "PartitionInfo \<Rightarrow> (gm_err, Replica option) result" where
  "gm_pickLeaderReplica info =
     (if \<not> IsLeader info then Ok None
      else case pi_RaftStatus info of None \<Rightarrow> Panic | Some rs \<Rightarrow> Ok (Some (rs_Replica rs)))"

definition info_pickReplicaToDelete :: "PartitionInfo \<Rightarrow> (gm_err, Replica option) result" where
  "info_pickReplicaToDelete info = (case pi_RaftStatus info of
      None \<Rightarrow> Ok None
    | Some rs \<Rightarrow>
        if \<not> IsLeader info then (case Followers rs of [] \<Rightarrow> Panic | f # _ \<Rightarrow> Ok (Some f))
        else (case find (\<lambda>f. rep_ID f \<noteq> rep_ID (rs_Replica rs)) (Followers rs) of
                Some f \<Rightarrow> Ok (Some f)
              | None \<Rightarrow> Ok (Some (rs_Replica rs))))"

text \<open>The latest report of each partition: one zone's reports, then those of all zones.\<close>

definition add_report :: "PartitionInfo \<Rightarrow> (PartitionID \<rightharpoonup> PartitionInfo) \<Rightarrow> (gm_err, PartitionID \<rightharpoonup> PartitionInfo) result" where
  "add_report info m = (case m (pi_ID info) of
      None \<Rightarrow> Ok (m(pi_ID info \<mapsto> info))
    | Some old \<Rightarrow>
        if ConfVersion (pi_Epoch info) > ConfVersion (pi_Epoch old) then Ok (m(pi_ID info \<mapsto> info))
        else if ConfVersion (pi_Epoch info) = ConfVersion (pi_Epoch old) then
          (case (pi_RaftStatus info, pi_RaftStatus old) of
             (Some new_rs, Some old_rs) \<Rightarrow> if rs_Term new_rs > rs_Term old_rs then Ok (m(pi_ID info \<mapsto> info)) else Ok m
           | _ \<Rightarrow> Panic)
        else Ok m)"

fun zone_reports :: "'e gw_env \<Rightarrow> string \<Rightarrow> PartitionID list \<Rightarrow> (PartitionID \<rightharpoonup> PartitionInfo) \<Rightarrow> (gm_err, PartitionID \<rightharpoonup> PartitionInfo) result" where
  "zone_reports env z [] m = Ok m"
| "zone_reports env z (i # is) m = (case ge_info env z i of
      Ok (Some info) \<Rightarrow> result_bind (add_report info m) (zone_reports env z is)
    | Panic \<Rightarrow> Panic
    | _ \<Rightarrow> zone_reports env z is m)"

fun latest_reports :: "'e gw_env \<Rightarrow> string list \<Rightarrow> (PartitionID \<rightharpoonup> PartitionInfo) \<Rightarrow> (gm_err, PartitionID \<rightharpoonup> PartitionInfo) result" where
  "latest_reports env [] m = Ok m"
| "latest_reports env (z # zs) m = (case getPartitionIdsByZone env z of
      Ok ids \<Rightarrow> result_bind (zone_reports env z ids m) (latest_reports env zs)
    | Panic \<Rightarrow> Panic
    | Err _ \<Rightarrow> latest_reports env zs m)"

section \<open>The worker\<close>

definition addrForCreate :: "'e gw_env \<Rightarrow> string list \<Rightarrow> gm_Partition \<Rightarrow> (gm_err, string \<times> string \<times> string) result" where
  "addrForCreate env zonesName p =
     (let replicaZoneName = SelectTarget (ge_rand env p) zonesName;
          replicaLeaderZone = (case gp_ReplicaLeader p of Some l \<Rightarrow> rep_Zone l | None \<Rightarrow> replicaZoneName)
      in result_bind (zm_addr env replicaZoneName) (\<lambda>replicaZoneAddr.
           result_bind (zm_addr env replicaLeaderZone) (\<lambda>replicaLeaderZoneAddr.
             Ok (replicaZoneAddr, replicaZoneName, replicaLeaderZoneAddr))))"

definition delete_choice :: "gm_Partition option \<Rightarrow> PartitionInfo option \<Rightarrow> (gm_err, string \<times> Replica option) result" where
  "delete_choice p info =
     result_bind
       (case p of
          None \<Rightarrow> Ok ('''', None)
        | Some p \<Rightarrow> (case gp_ReplicaLeader p of
            None \<Rightarrow> Err ErrNoMSLeader
          | Some l \<Rightarrow> Ok (rep_Zone l, partition_pickReplicaToDelete p)))
       (\<lambda>choice. case info of
          None \<Rightarrow> Ok choice
        | Some i \<Rightarrow>
            if \<not> IsLeader i then Err ErrNoMSLeader
            else (case pi_RaftStatus i of
                    None \<Rightarrow> Panic
                  | Some rs \<Rightarrow> result_bind (info_pickReplicaToDelete i) (\<lambda>r. Ok (rep_Zone (rs_Replica rs), r))))"

definition addrForDelete :: "'e gw_env \<Rightarrow> gm_Partition option \<Rightarrow> PartitionInfo option \<Rightarrow> (gm_err, string \<times> Replica \<times> string) result" where
  "addrForDelete env p info =
     result_bind (delete_choice p info) (\<lambda>(replicaLeaderZone, replica). case replica of
        None \<Rightarrow> Panic
      | Some r \<Rightarrow>
          result_bind (zm_addr env (rep_Zone r)) (\<lambda>replicaZoneAddr.
            result_bind (zm_addr env replicaLeaderZone) (\<lambda>replicaLeaderZoneAddr.
              Ok (replicaZoneAddr, r, replicaLeaderZoneAddr))))"

text \<open>Taking the task of a partition and queueing an event, as every branch of the worker does.\<close>

definition grab_and_push :: "'e gw_env \<Rightarrow> gm_Partition \<Rightarrow> gm_event \<Rightarrow> ('e, 'i, unit) worker_op" where
  "grab_and_push env p event =
     bindW (grabPartitionTaskLock env ''partition'' (string_of_rune (pt_ID (gp_Meta p)))) (\<lambda>isGrabed.
       if \<not> isGrabed then retW (Ok ()) else gm_PushEvent event)"

definition ask_create :: "'e gw_env \<Rightarrow> string list \<Rightarrow> gm_Partition \<Rightarrow> ('e, 'i, unit) worker_op" where
  "ask_create env zonesName p =
     bindW (retW (addrForCreate env zonesName p)) (\<lambda>(a, z, l). grab_and_push env p (GmPartitionCreate a z l p))"

definition ask_delete :: "'e gw_env \<Rightarrow> gm_Partition \<Rightarrow> PartitionInfo option \<Rightarrow> ('e, 'i, unit) worker_op" where
  "ask_delete env p info =
     bindW (retW (case info of Some i \<Rightarrow> addrForDelete env None (Some i) | None \<Rightarrow> addrForDelete env (Some p) None)) (\<lambda>(a, r, l).
       grab_and_push env p (GmPartitionDelete a l (case info of Some i \<Rightarrow> pi_ID i | None \<Rightarrow> pt_ID (gp_Meta p)) r))"

definition handleCompensation :: "'e gw_env \<Rightarrow> PartitionInfo \<Rightarrow> ('e, 'i, unit) worker_op" where
  "handleCompensation env info st =
     (case gm_PartitionCache (gw_cluster st) (pi_ID info) of
        None \<Rightarrow>
          bindW (retW (info_pickReplicaToDelete info)) (\<lambda>replica. case replica of
             None \<Rightarrow> retW Panic
           | Some r \<Rightarrow> bindW (retW (zm_addr env (rep_Zone r))) (\<lambda>_. retW Panic)) st
      | Some p \<Rightarrow>
          let confInfo = ConfVersion (pi_Epoch info); confCluster = ConfVersion (Epoch (gp_Meta p)) in
          if confInfo < confCluster then ask_delete env p (Some info) st
          else if confInfo = confCluster then
            (case gp_ReplicaLeader p of
               None \<Rightarrow> (st, Returns (Ok ()))
             | Some l \<Rightarrow> (case pi_RaftStatus info of
                 None \<Rightarrow> (st, Returns Panic)
               | Some rs \<Rightarrow>
                   if rep_ID (rs_Replica rs) \<noteq> rep_ID l \<and> rs_Term rs < gp_Term p then ask_delete env p (Some info) st
                   else (st, Returns (Ok ()))))
          else (st, Returns (Ok ())))"

definition handle_report :: "'e gw_env \<Rightarrow> PartitionInfo \<Rightarrow> ('e, 'i, unit) worker_op" where
  "handle_report env info st =
     bindW (retW (gm_pickLeaderReplica info)) (\<lambda>leader st. case leader of
        None \<Rightarrow> (st, Returns (Ok ()))
      | Some _ \<Rightarrow>
          loggedW (bindW
            (\<lambda>st. case gm_PartitionCache (gw_cluster st) (pi_ID info) of
               None \<Rightarrow> (st, Returns (Ok False))
             | Some p \<Rightarrow> updateReplicaGroup env info p st)
            (\<lambda>_. handleCompensation env info)) st) st"

fun handle_reports :: "'e gw_env \<Rightarrow> (PartitionID \<rightharpoonup> PartitionInfo) \<Rightarrow> PartitionID list \<Rightarrow> ('e, 'i, unit) worker_op" where
  "handle_reports env m [] st = (st, Returns (Ok ()))"
| "handle_reports env m (i # is) st =
     bindW (case m i of None \<Rightarrow> retW (Ok ()) | Some info \<Rightarrow> handle_report env info) (\<lambda>_. handle_reports env m is) st"

section \<open>The states of a space\<close>

text \<open>A space changed in place, in the cache of its database.\<close>

definition with_status :: "SpaceStatus \<Rightarrow> gm_Space \<Rightarrow> gm_Space" where
  "with_status status s = s\<lparr>gs_Topo := (gs_Topo s)\<lparr>tp_Meta := (tp_Meta (gs_Topo s))\<lparr>ms_Status := status\<rparr>\<rparr>\<rparr>"

definition put_space :: "gm_DB \<Rightarrow> gm_Space \<Rightarrow> ('e, 'i) GM \<Rightarrow> ('e, 'i) GM" where
  "put_space db s st =
     (let db' = db\<lparr>gd_SpaceCache := map_option (\<lambda>sc. sc\<lparr>sc_spaces := (sc_spaces sc)(gsp_ID s \<mapsto> s)\<rparr>) (gd_SpaceCache db)\<rparr>
      in st\<lparr>gw_cluster := on_dbs (\<lambda>c. c\<lparr>dc_dbs := (dc_dbs c)(gd_ID db \<mapsto> db')\<rparr>) (gw_cluster st)\<rparr>)"

definition space_update :: "bool \<Rightarrow> 'e gw_env \<Rightarrow> gm_Space \<Rightarrow> ('e, 'i, unit) worker_op" where
  "space_update held env s = lockW held (bindW (topoW (\<lambda>e. topo_UpdateSpace (ge_cli env) e (gs_Topo s))) (\<lambda>_. retW (Ok ())))"

definition space_erase :: "bool \<Rightarrow> 'e gw_env \<Rightarrow> gm_Space \<Rightarrow> ('e, 'i, unit) worker_op" where
  "space_erase held env s = lockW held (topoW (\<lambda>e. topo_DeleteSpace (ge_cli env) e (gs_Topo s)))"

text \<open>
  The loops over the partitions of a space: the first two end with whether all had enough replicas or none had one; every
  error is logged and the loop goes on.
\<close>

fun init_loop :: "'e gw_env \<Rightarrow> string list \<Rightarrow> gm_Partition list \<Rightarrow> bool \<Rightarrow> ('e, 'i, bool) worker_op" where
  "init_loop env zs [] isSpaceReady st = (st, Returns (Ok isSpaceReady))"
| "init_loop env zs (p # ps) isSpaceReady st =
     (if gm_countReplicas p < gm_FIXED_REPLICA_NUM
      then bindW (loggedW (ask_create env zs p)) (\<lambda>_. init_loop env zs ps False) st
      else init_loop env zs ps isSpaceReady st)"

fun deleting_loop :: "'e gw_env \<Rightarrow> gm_Partition list \<Rightarrow> bool \<Rightarrow> ('e, 'i, bool) worker_op" where
  "deleting_loop env [] isSpaceCanDelete st = (st, Returns (Ok isSpaceCanDelete))"
| "deleting_loop env (p # ps) isSpaceCanDelete st =
     (if gm_countReplicas p > 0
      then bindW (loggedW (ask_delete env p None)) (\<lambda>_. deleting_loop env ps False) st
      else deleting_loop env ps isSpaceCanDelete st)"

fun handleSpaceStateSSRunning :: "'e gw_env \<Rightarrow> string list \<Rightarrow> gm_Partition list \<Rightarrow> ('e, 'i, unit) worker_op" where
  "handleSpaceStateSSRunning env zs [] st = (st, Returns (Ok ()))"
| "handleSpaceStateSSRunning env zs (p # ps) st =
     bindW
       (if gm_countReplicas p < gm_FIXED_REPLICA_NUM then loggedW (ask_create env zs p)
        else if gm_countReplicas p > gm_FIXED_REPLICA_NUM then loggedW (ask_delete env p None)
        else retW (Ok ()))
       (\<lambda>_. handleSpaceStateSSRunning env zs ps) st"

definition handleSpaceStateSSInit :: "'e gw_env \<Rightarrow> string list \<Rightarrow> gm_DB \<Rightarrow> gm_Space \<Rightarrow> ('e, 'i, unit) worker_op" where
  "handleSpaceStateSSInit env zs db s =
     (if ge_partitions env s = [] then retW (Ok ())
      else bindW (init_loop env zs (ge_partitions env s) True) (\<lambda>isSpaceReady st.
        if isSpaceReady
        then let s = with_status SS_Running s in loggedW (space_update True env s) (put_space db s st)
        else (st, Returns (Ok ()))))"

definition handleSpaceStateSSDeleting :: "'e gw_env \<Rightarrow> gm_DB \<Rightarrow> gm_Space \<Rightarrow> ('e, 'i, unit) worker_op" where
  "handleSpaceStateSSDeleting env db s =
     (if ge_partitions env s = [] then retW (Ok ())
      else bindW (deleting_loop env (ge_partitions env s) True) (\<lambda>isSpaceCanDelete st.
        if isSpaceCanDelete
        then let s = with_status SS_Delete s in loggedW (space_erase True env s) (put_space db s st)
        else (st, Returns (Ok ()))))"

definition handle_space :: "'e gw_env \<Rightarrow> string list \<Rightarrow> gm_DB \<Rightarrow> gm_Space \<Rightarrow> ('e, 'i, unit) worker_op" where
  "handle_space env zs db s = (case ms_Status (tp_Meta (gs_Topo s)) of
      SS_Init \<Rightarrow> handleSpaceStateSSInit env zs db s
    | SS_Running \<Rightarrow> handleSpaceStateSSRunning env zs (ge_partitions env s)
    | SS_Deleting \<Rightarrow> handleSpaceStateSSDeleting env db s
    | _ \<Rightarrow> retW (Ok ()))"

fun handle_spaces :: "'e gw_env \<Rightarrow> string list \<Rightarrow> gm_DB \<Rightarrow> gm_Space list \<Rightarrow> ('e, 'i, unit) worker_op" where
  "handle_spaces env zs db [] st = (st, Returns (Ok ()))"
| "handle_spaces env zs db (s # ss) st = bindW (handle_space env zs db s) (\<lambda>_. handle_spaces env zs db ss) st"

fun handle_dbs :: "'e gw_env \<Rightarrow> string list \<Rightarrow> gm_DB list \<Rightarrow> ('e, 'i, unit) worker_op" where
  "handle_dbs env zs [] st = (st, Returns (Ok ()))"
| "handle_dbs env zs (db # dbs) st =
     bindW (if gd_SpaceCache db = None then retW Panic else handle_spaces env zs db (ge_spaces env db)) (\<lambda>_. handle_dbs env zs dbs) st"

definition gm_worker_run :: "'e gw_env \<Rightarrow> ('e, 'i, unit) worker_op" where
  "gm_worker_run env st = (case (ge_zonesMap env, ge_zonesName env) of
      (Ok zones, Ok zonesName) \<Rightarrow>
        (case latest_reports env zones Map.empty of
           Ok m \<Rightarrow> bindW (handle_reports env m (ge_order env)) (\<lambda>_. handle_dbs env zonesName (ge_dbs env)) st
         | _ \<Rightarrow> (st, Returns Panic))
    | _ \<Rightarrow> (st, Returns (Ok ())))"

section \<open>What a run leaves as it was\<close>

text \<open>The queue of events and the cached databases with their spaces.\<close>

definition quiet :: "('e, 'i, 'a) worker_op \<Rightarrow> bool" where
  "quiet m = (\<forall>st. gw_eventCh (fst (m st)) = gw_eventCh st \<and> DbCache (gw_cluster (fst (m st))) = DbCache (gw_cluster st))"

named_theorems quiet_intros "operations that change neither the queue nor the cached databases"

lemma quietD:
  assumes "quiet m" "m st = (st', r)"
  shows "gw_eventCh st' = gw_eventCh st" "DbCache (gw_cluster st') = DbCache (gw_cluster st)"
  using assms by (auto simp: quiet_def) (metis fst_conv)+

lemma quiet_retW [quiet_intros]: "quiet (retW r)"
  by (simp add: quiet_def retW_def)

lemma quiet_const [quiet_intros]: "quiet (\<lambda>st. (st, r))"
  by (simp add: quiet_def)

lemma quiet_lockW [quiet_intros]: "quiet m \<Longrightarrow> quiet (lockW held m)"
  by (simp add: quiet_def lockW_def)

lemma quiet_loggedW [quiet_intros]: "quiet m \<Longrightarrow> quiet (loggedW m)"
  unfolding quiet_def
proof
  fix st assume m: "\<forall>st. gw_eventCh (fst (m st)) = gw_eventCh st \<and> DbCache (gw_cluster (fst (m st))) = DbCache (gw_cluster st)"
  have "fst (loggedW m st) = fst (m st)" by (auto simp: loggedW_def split: prod.splits outcome.splits result.splits)
  then show "gw_eventCh (fst (loggedW m st)) = gw_eventCh st \<and> DbCache (gw_cluster (fst (loggedW m st))) = DbCache (gw_cluster st)"
    using m by simp
qed

lemma quiet_topoW [quiet_intros]: "quiet (topoW f)"
  by (auto simp: quiet_def topoW_def onTopo_def split: prod.splits result.splits)

text \<open>The rest of a sequence only has to be quiet for values that the first part returns.\<close>

lemma quiet_bindW_when:
  assumes "quiet m" "\<And>a st st'. m st = (st', Returns (Ok a)) \<Longrightarrow> quiet (f a)"
  shows "quiet (bindW m f)"
  unfolding quiet_def
proof
  fix st
  obtain st' r where m: "m st = (st', r)" by (cases "m st")
  note same = quietD [OF assms(1) m]
  show "gw_eventCh (fst (bindW m f st)) = gw_eventCh st \<and> DbCache (gw_cluster (fst (bindW m f st))) = DbCache (gw_cluster st)"
  proof (cases r)
    case (Returns x)
    show ?thesis
    proof (cases x)
      case (Ok a)
      then have "quiet (f a)" using assms(2) m Returns by simp
      then show ?thesis using same m Returns Ok by (simp add: quiet_def bindW_def)
    qed (use same m Returns in \<open>simp_all add: bindW_def\<close>)
  qed (use same m in \<open>simp add: bindW_def\<close>)
qed

lemma quiet_bindW [quiet_intros]: "quiet m \<Longrightarrow> (\<And>a. quiet (f a)) \<Longrightarrow> quiet (bindW m f)"
  by (rule quiet_bindW_when)

lemma quiet_cong: "(\<And>st. m st = m' st) \<Longrightarrow> quiet m' \<Longrightarrow> quiet m"
  by (simp add: quiet_def)

section \<open>No task is ever taken\<close>

text \<open>
  A task that does not exist is an error of the store, and one that exists is taken already: \<^verbatim>\<open>grabPartitionTaskLock\<close>
  never returns true, so no event reaches the queue.
\<close>

lemma bindW_Ok:
  "bindW m f st = (st', Returns (Ok b)) \<longleftrightarrow> (\<exists>s a. m st = (s, Returns (Ok a)) \<and> f a s = (st', Returns (Ok b)))"
  by (auto simp: bindW_def split: prod.splits outcome.splits result.splits)

lemma grab_never: "grabPartitionTaskLock env taskType taskId st = (st', Returns (Ok b)) \<Longrightarrow> \<not> b"
  by (auto simp: grabPartitionTaskLock_def getPartitionTask_def bindW_Ok retW_def)

lemma grab_quiet [quiet_intros]: "quiet (grabPartitionTaskLock env taskType taskId)"
  unfolding grabPartitionTaskLock_def getPartitionTask_def setPartitionTask_def
  by (intro quiet_intros) (simp add: quiet_intros)

lemma grab_and_push_quiet [quiet_intros]: "quiet (grab_and_push env p event)"
  unfolding grab_and_push_def
proof (rule quiet_bindW_when)
  fix a st st' assume "grabPartitionTaskLock env ''partition'' (string_of_rune (pt_ID (gp_Meta p))) st = (st', Returns (Ok a))"
  then have "\<not> a" by (rule grab_never)
  then show "quiet (if \<not> a then retW (Ok ()) else gm_PushEvent event)" by (simp add: quiet_intros)
qed (rule grab_quiet)

lemma asks_quiet [quiet_intros]: "quiet (ask_create env zs p)" "quiet (ask_delete env p info)"
  unfolding ask_create_def ask_delete_def by (auto intro!: quiet_intros split: prod.splits)

lemma quiet_partitions: "quiet m \<Longrightarrow> quiet (\<lambda>st. m (st\<lparr>gw_cluster := (gw_cluster st)\<lparr>gm_PartitionCache := f st\<rparr>\<rparr>))"
  by (simp add: quiet_def)

lemma store_replicas_quiet [quiet_intros]: "quiet (store_replicas env info rs p)"
  unfolding store_replicas_def Let_def setZones_def
  by (intro quiet_bindW quiet_topoW quiet_partitions quiet_lockW quiet_retW)

lemma updateReplicaGroup_quiet [quiet_intros]: "quiet (updateReplicaGroup env info p)"
  unfolding updateReplicaGroup_def Let_def by (auto intro!: quiet_intros split: option.splits)

lemma handleCompensation_quiet [quiet_intros]: "quiet (handleCompensation env info)"
proof -
  have "quiet (bindW (retW (info_pickReplicaToDelete info)) (\<lambda>replica. case replica of
      None \<Rightarrow> retW Panic | Some r \<Rightarrow> bindW (retW (zm_addr env (rep_Zone r))) (\<lambda>_. retW Panic)) :: ('e, 'i, unit) worker_op)"
    by (auto intro!: quiet_intros split: option.splits)
  then show ?thesis using asks_quiet(2) [of env]
    by (auto simp: quiet_def handleCompensation_def Let_def split: option.splits)
qed

lemma handle_report_quiet [quiet_intros]: "quiet (handle_report env info)"
proof -
  have "quiet (\<lambda>st. case gm_PartitionCache (gw_cluster st) (pi_ID info) of
      None \<Rightarrow> (st, Returns (Ok False)) | Some p \<Rightarrow> updateReplicaGroup env info p st)"
    using updateReplicaGroup_quiet [of env info] by (auto simp: quiet_def split: option.splits)
  then have "quiet (loggedW (bindW (\<lambda>st. case gm_PartitionCache (gw_cluster st) (pi_ID info) of
      None \<Rightarrow> (st, Returns (Ok False)) | Some p \<Rightarrow> updateReplicaGroup env info p st) (\<lambda>_. handleCompensation env info)))"
    by (intro quiet_intros)
  then show ?thesis
    by (intro quiet_cong [OF handle_report_def] quiet_bindW quiet_retW) (auto simp: quiet_def split: option.splits)
qed

lemma handle_reports_quiet [quiet_intros]: "quiet (handle_reports env m is)"
proof (induction "is")
  case (Cons i "is")
  then show ?case by (intro quiet_cong [OF handle_reports.simps(2)]) (auto intro!: quiet_intros split: option.splits)
qed (simp add: quiet_def)

section \<open>Spaces that wait\<close>

lemma init_loop_ready:
  "init_loop env zs ps ready st = (st', Returns (Ok b)) \<Longrightarrow> b = (ready \<and> (\<forall>p\<in>set ps. gm_countReplicas p \<ge> gm_FIXED_REPLICA_NUM))"
proof (induction ps arbitrary: ready st)
  case (Cons p ps)
  then show ?case by (cases "gm_countReplicas p < gm_FIXED_REPLICA_NUM") (auto simp: bindW_Ok)
qed simp

lemma init_loop_quiet: "quiet (init_loop env zs ps ready :: ('e, 'i, bool) worker_op)"
proof (induction ps arbitrary: ready)
  case (Cons p ps)
  show ?case
  proof (cases "gm_countReplicas p < gm_FIXED_REPLICA_NUM")
    case True
    have "quiet (bindW (loggedW (ask_create env zs p)) (\<lambda>_. init_loop env zs ps False) :: ('e, 'i, bool) worker_op)"
      by (intro quiet_bindW quiet_loggedW asks_quiet Cons.IH)
    then show ?thesis using True by (simp add: quiet_def)
  qed (use Cons.IH [of ready] in \<open>simp add: quiet_def\<close>)
qed (simp add: quiet_def)

text \<open>How the run enumerates the maps of the caches.\<close>

definition visits :: "'e gw_env \<Rightarrow> DBCache \<Rightarrow> bool" where
  "visits env c = (set (ge_dbs env) = ran (dc_dbs c) \<and>
     (\<forall>db\<in>set (ge_dbs env). \<forall>sc. gd_SpaceCache db = Some sc \<longrightarrow> set (ge_spaces env db) = ran (sc_spaces sc) \<and>
       (\<forall>s\<in>set (ge_spaces env db). set (ge_partitions env s) = ran (gs_partitions s))))"

lemma waiting_space_quiet:
  assumes "space_waiting s" "set (ge_partitions env s) = ran (gs_partitions s)"
  shows "quiet (handle_space env zs db s :: ('e, 'i, unit) worker_op)"
proof -
  have "quiet (handleSpaceStateSSInit env zs db s :: ('e, 'i, unit) worker_op)"
  proof (cases "ge_partitions env s = []")
    case False
    then obtain p where p: "p \<in> ran (gs_partitions s)" using assms(2) by (cases "ge_partitions env s") auto
    then have "gm_countReplicas p < gm_FIXED_REPLICA_NUM"
      using assms(1) by (simp add: space_waiting_def gm_countReplicas_def gm_FIXED_REPLICA_NUM_def)
    then have "\<not> b" if "init_loop env zs (ge_partitions env s) True (st :: ('e, 'i) GM) = (st', Returns (Ok b))" for st st' b
      using init_loop_ready [OF that] p assms(2) by (auto simp: not_le)
    then have "quiet (\<lambda>st. if b then let s = with_status SS_Running s in loggedW (space_update True env s) (put_space db s st)
        else (st, Returns (Ok ())))" if "init_loop env zs (ge_partitions env s) True (st :: ('e, 'i) GM) = (st', Returns (Ok b))" for st st' b
      using that by (cases b) (auto intro: quiet_const)
    then show ?thesis using False unfolding handleSpaceStateSSInit_def
      by (simp, intro quiet_bindW_when init_loop_quiet) blast
  qed (simp add: handleSpaceStateSSInit_def quiet_intros)
  then show ?thesis using assms(1) by (simp add: handle_space_def space_waiting_def)
qed

lemma waiting_spaces_quiet:
  assumes "\<And>s. s \<in> set ss \<Longrightarrow> space_waiting s \<and> set (ge_partitions env s) = ran (gs_partitions s)"
  shows "quiet (handle_spaces env zs db ss)"
  using assms
proof (induction ss)
  case (Cons s ss)
  show ?case using Cons by (intro quiet_cong [OF handle_spaces.simps(2)] quiet_bindW waiting_space_quiet) auto
qed (simp add: quiet_def)

lemma waiting_dbs_quiet:
  assumes "\<And>db sc. db \<in> set dbs \<Longrightarrow> gd_SpaceCache db = Some sc \<Longrightarrow> quiet (handle_spaces env zs db (ge_spaces env db) :: ('e, 'i, unit) worker_op)"
  shows "quiet (handle_dbs env zs dbs :: ('e, 'i, unit) worker_op)"
  using assms
proof (induction dbs)
  case (Cons db dbs)
  show ?case using Cons.prems [of db] Cons
    by (intro quiet_cong [OF handle_dbs.simps(2)] quiet_bindW) (auto intro: quiet_intros)
qed (simp add: quiet_def)

lemma worker_run_quiet:
  assumes "visits env c" "spaces_bare c"
  shows "quiet (gm_worker_run env)"
proof -
  have "quiet (handle_dbs env zs (ge_dbs env))" for zs
  proof (rule waiting_dbs_quiet, rule waiting_spaces_quiet)
    fix db sc s assume "db \<in> set (ge_dbs env)" "gd_SpaceCache db = Some sc" "s \<in> set (ge_spaces env db)"
    then show "space_waiting s \<and> set (ge_partitions env s) = ran (gs_partitions s)"
      using assms by (auto simp: visits_def spaces_bare_def)
  qed
  then have "quiet (bindW (handle_reports env m (ge_order env)) (\<lambda>_. handle_dbs env zs (ge_dbs env)))" for m zs
    by (intro quiet_bindW handle_reports_quiet)
  then show ?thesis by (auto simp: quiet_def gm_worker_run_def split: result.splits)
qed

section \<open>Runs of the master\<close>

inductive gw_step :: "'e topo_client \<Rightarrow> (topo_path \<Rightarrow> topo_content \<Rightarrow> (topo_path, topo_content) etcd3Transaction \<Rightarrow> (topo_path, topo_content) etcd3Transaction)
    \<Rightarrow> ('i \<Rightarrow> 'i \<times> (topo_err, u64) result) \<Rightarrow> ('e, 'i) GM \<Rightarrow> ('e, 'i) GM \<Rightarrow> bool"
  for cli create gen where
  request: "gm_step cli create gen (gw_cluster st) c \<Longrightarrow> gw_step cli create gen st (st\<lparr>gw_cluster := c\<rparr>)"
| worker: "ge_cli env = cli \<Longrightarrow> visits env (DbCache (gw_cluster st)) \<Longrightarrow> gw_step cli create gen st (fst (gm_worker_run env st))"

lemma gw_step_waiting:
  assumes "gw_step cli create gen (st :: ('e, 'i) GM) st'" "spaces_bare (DbCache (gw_cluster st))"
  shows "spaces_bare (DbCache (gw_cluster st')) \<and> gw_eventCh st' = gw_eventCh st"
  using assms
proof cases
  case (request c)
  then show ?thesis using gm_step_bare assms(2) by simp
next
  case (worker env)
  have "quiet (gm_worker_run env :: ('e, 'i, unit) worker_op)" using worker_run_quiet [OF worker(3) assms(2)] .
  then show ?thesis using worker(1) assms(2) by (simp add: quiet_def)
qed

lemma gw_run_waiting:
  assumes "(gw_step cli create gen)\<^sup>*\<^sup>* st st'" "spaces_bare (DbCache (gw_cluster st))"
  shows "spaces_bare (DbCache (gw_cluster st')) \<and> gw_eventCh st' = gw_eventCh st"
  using assms by (induction rule: rtranclp_induct) (auto dest: gw_step_waiting)

text \<open>The reports that a run reads, and the order by which it keeps one for each partition.\<close>

definition reported :: "'e gw_env \<Rightarrow> string list \<Rightarrow> PartitionInfo set" where
  "reported env zones = {info. \<exists>z\<in>set zones. \<exists>ids. getPartitionIdsByZone env z = Ok ids \<and> (\<exists>i\<in>set ids. ge_info env z i = Ok (Some info))}"

definition report_rank :: "PartitionInfo \<Rightarrow> u64 \<times> u64" where
  "report_rank info = (ConfVersion (pi_Epoch info), case pi_RaftStatus info of None \<Rightarrow> 0 | Some rs \<Rightarrow> rs_Term rs)"

definition rank_le :: "u64 \<times> u64 \<Rightarrow> u64 \<times> u64 \<Rightarrow> bool" where
  "rank_le a b = (fst a < fst b \<or> (fst a = fst b \<and> snd a \<le> snd b))"

text \<open>What is kept of a set of reports: for each partition one of them with the highest rank.\<close>

definition best_of :: "PartitionInfo set \<Rightarrow> (PartitionID \<rightharpoonup> PartitionInfo) \<Rightarrow> bool" where
  "best_of R m = ((\<forall>i b. m i = Some b \<longrightarrow> b \<in> R \<and> pi_ID b = i) \<and>
     (\<forall>r\<in>R. \<exists>b. m (pi_ID r) = Some b \<and> rank_le (report_rank r) (report_rank b)))"

lemma rank_le_refl: "rank_le a a"
  by (simp add: rank_le_def)

lemma rank_le_trans: "rank_le a b \<Longrightarrow> rank_le b c \<Longrightarrow> rank_le a c"
  by (auto simp: rank_le_def)

lemma rank_le_total: "\<not> rank_le a b \<Longrightarrow> rank_le b a"
  by (auto simp: rank_le_def)

lemma add_report_best:
  assumes "best_of R m" "\<forall>r\<in>insert info R. pi_RaftStatus r \<noteq> None"
  shows "\<exists>m'. add_report info m = Ok m' \<and> best_of (insert info R) m'"
proof (cases "m (pi_ID info)")
  case None
  then have "best_of (insert info R) (m(pi_ID info \<mapsto> info))"
    using assms(1) rank_le_refl [of "report_rank info"] unfolding best_of_def by auto
  then show ?thesis using None by (simp add: add_report_def)
next
  case (Some old)
  then have old: "old \<in> R" "pi_ID old = pi_ID info" "\<And>r. r \<in> R \<Longrightarrow> pi_ID r = pi_ID info \<Longrightarrow> rank_le (report_rank r) (report_rank old)"
    using assms(1) unfolding best_of_def by (blast, blast, fastforce)
  obtain rs rs' where rs: "pi_RaftStatus info = Some rs" "pi_RaftStatus old = Some rs'" using assms(2) old(1) by auto
  show ?thesis
  proof (cases "rank_le (report_rank info) (report_rank old)")
    case True
    then have "add_report info m = Ok m" using Some rs by (auto simp: add_report_def rank_le_def report_rank_def)
    moreover have "best_of (insert info R) m" using assms(1) True Some by (auto simp: best_of_def)
    ultimately show ?thesis by blast
  next
    case False
    then have "add_report info m = Ok (m(pi_ID info \<mapsto> info))" using Some rs by (auto simp: add_report_def rank_le_def report_rank_def)
    moreover have "best_of (insert info R) (m(pi_ID info \<mapsto> info))"
      using assms(1) old(3) rank_le_trans [OF _ rank_le_total [OF False]] rank_le_refl [of "report_rank info"]
      unfolding best_of_def by auto
    ultimately show ?thesis by blast
  qed
qed

lemma zone_reports_best:
  assumes "best_of R m" "\<forall>r\<in>R \<union> {info. \<exists>i\<in>set is. ge_info env z i = Ok (Some info)}. pi_RaftStatus r \<noteq> None"
    and "\<forall>i\<in>set is. ge_info env z i \<noteq> Panic"
  shows "\<exists>m'. zone_reports env z is m = Ok m' \<and> best_of (R \<union> {info. \<exists>i\<in>set is. ge_info env z i = Ok (Some info)}) m'"
  using assms
proof (induction "is" arbitrary: m R)
  case (Cons i "is")
  show ?case
  proof (cases "\<exists>info. ge_info env z i = Ok (Some info)")
    case True
    then obtain info where info: "ge_info env z i = Ok (Some info)" by blast
    have set: "R \<union> {info. \<exists>i\<in>set (i # is). ge_info env z i = Ok (Some info)} = insert info R \<union> {info. \<exists>i\<in>set is. ge_info env z i = Ok (Some info)}"
      using info by auto
    obtain m1 where m1: "add_report info m = Ok m1" "best_of (insert info R) m1"
      using add_report_best [OF Cons.prems(1), of info] Cons.prems(2) info by auto
    show ?thesis using Cons.IH [OF m1(2)] Cons.prems(2,3) info m1(1) unfolding set by auto
  next
    case False
    then have set: "R \<union> {info. \<exists>i\<in>set (i # is). ge_info env z i = Ok (Some info)} = R \<union> {info. \<exists>i\<in>set is. ge_info env z i = Ok (Some info)}"
      by auto
    have "zone_reports env z (i # is) m = zone_reports env z is m"
      using False Cons.prems(3) by (auto split: result.splits option.splits)
    then show ?thesis using Cons.IH [OF Cons.prems(1)] Cons.prems(2,3) unfolding set by auto
  qed
qed simp

text \<open>A store that answers: no call of it panics.\<close>

definition answers :: "'e gw_env \<Rightarrow> bool" where
  "answers env = ((\<forall>z. ge_ids env z \<noteq> Panic) \<and> (\<forall>z i. ge_info env z i \<noteq> Panic))"

lemma latest_reports_best:
  assumes "answers env" "best_of R m" "\<forall>r\<in>R \<union> reported env zones. pi_RaftStatus r \<noteq> None"
  shows "\<exists>m'. latest_reports env zones m = Ok m' \<and> best_of (R \<union> reported env zones) m'"
  using assms(2,3)
proof (induction zones arbitrary: m R)
  case Nil
  then show ?case by (simp add: reported_def)
next
  case (Cons z zones)
  show ?case
  proof (cases "getPartitionIdsByZone env z")
    case (Ok ids)
    let ?Z = "{info. \<exists>i\<in>set ids. ge_info env z i = Ok (Some info)}"
    have set: "R \<union> reported env (z # zones) = (R \<union> ?Z) \<union> reported env zones" using Ok by (auto simp: reported_def)
    have "\<forall>i\<in>set ids. ge_info env z i \<noteq> Panic" using assms(1) by (simp add: answers_def)
    then obtain m1 where m1: "zone_reports env z ids m = Ok m1" "best_of (R \<union> ?Z) m1"
      using zone_reports_best [OF Cons.prems(1), of ids env z] Cons.prems(2) unfolding set by auto
    show ?thesis using Cons.IH [OF m1(2)] Cons.prems(2) m1(1) Ok unfolding set by simp
  next
    case (Err x)
    then have set: "R \<union> reported env (z # zones) = R \<union> reported env zones" by (auto simp: reported_def)
    show ?thesis using Cons.IH [OF Cons.prems(1)] Cons.prems(2) Err unfolding set by simp
  next
    case Panic
    then show ?thesis using assms(1) by (simp add: answers_def getPartitionIdsByZone_def split: if_splits)
  qed
qed

text \<open>The calls that make up an update of the replica group.\<close>

lemma store_replicas_outcome:
  assumes "etcd (ge_cli env) db" "store_replicas env info rs p st = (st', r)"
  shows "(r = Blocks \<and> (\<exists>kv. db_kvs (db (gm_topo (gw_cluster st'))) (PartitionFile (pt_ID (gp_Meta p))) = Some kv \<and>
      kv_Value kv = PartitionContent ((gp_Meta p)\<lparr>Replicas := rs_Replica rs # Followers rs, Epoch := pi_Epoch info, pt_Status := pi_Status info\<rparr>)))
    \<or> (\<exists>x. r = Returns (Err x) \<and> gm_PartitionCache (gw_cluster st') = gm_PartitionCache (gw_cluster st))"
proof -
  let ?copy = "(gp_Topo p)\<lparr>tp_Meta := (gp_Meta p)\<lparr>Replicas := rs_Replica rs # Followers rs, Epoch := pi_Epoch info, pt_Status := pi_Status info\<rparr>\<rparr>"
  obtain e r0 where up: "topo_UpdatePartition (ge_cli env) (gm_topo (gw_cluster st)) ?copy = (e, r0)"
    by (cases "topo_UpdatePartition (ge_cli env) (gm_topo (gw_cluster st)) ?copy")
  then obtain r1 where upd: "srv_Update (ge_cli env) (gm_topo (gw_cluster st)) (PartitionFile (pt_ID (gp_Meta p))) (PartitionContent (tp_Meta ?copy)) (tp_Version (gp_Topo p)) = (e, r1)"
    and r0: "r0 = result_bind r1 (\<lambda>v. Ok (?copy\<lparr>tp_Version := Some v\<rparr>))"
    by (auto simp: topo_UpdatePartition_def then_ok_def split: prod.splits)
  show ?thesis
  proof (cases r1)
    case (Ok w)
    have "db_kvs (db e) = (db_kvs (db (gm_topo (gw_cluster st))))(PartitionFile (pt_ID (gp_Meta p)) \<mapsto>
        put_kv w (PartitionContent (tp_Meta ?copy)) (db_kvs (db (gm_topo (gw_cluster st))) (PartitionFile (pt_ID (gp_Meta p)))))"
      using etcd.Update_put [OF assms(1)] upd Ok by blast
    then show ?thesis using assms(2) up r0 Ok
      by (auto simp: store_replicas_def Let_def bindW_def topoW_def onTopo_def setZones_def lockW_def put_kv_def)
  next
    case (Err x)
    then show ?thesis using assms(2) up r0
      by (auto simp: store_replicas_def Let_def bindW_def topoW_def onTopo_def)
  next
    case Panic
    then show ?thesis using etcd.Update_no_panic [OF assms(1)] upd by (metis snd_conv)
  qed
qed

section \<open>Properties\<close>

text \<open>
  C11: A space never leaves its initial state.  Whatever requests come and however often the worker runs, with whatever the
  zones report, no event to create or delete a replica is queued, and every space in the cache keeps
  the status \<^verbatim>\<open>SS_Init\<close> and partitions without replicas: the task of a partition can never be taken, and the
  partitions of a space are not the objects that the reports update.
\<close>

theorem space_stays_initial:
  assumes "(gw_step cli create gen)\<^sup>*\<^sup>* st st'" "spaces_bare (DbCache (gw_cluster st))"
    and "FindDbByName (DbCache (gw_cluster st')) n = Some d" "gd_SpaceCache d = Some sc" "FindSpaceByName sc s = Some sp"
  shows "gw_eventCh st' = gw_eventCh st \<and> ms_Status (tp_Meta (gs_Topo sp)) = SS_Init \<and>
    (\<forall>p\<in>ran (gs_partitions sp). Replicas (gp_Meta p) = [])"
proof -
  have "sp \<in> ran (sc_spaces sc)" using assms(5) by (auto simp: FindSpaceByName_def ran_def split: option.splits)
  then have "space_waiting sp" using gw_run_waiting [OF assms(1,2)] bare_find [OF _ assms(3,4)] by blast
  then show ?thesis using gw_run_waiting [OF assms(1,2)] by (simp add: space_waiting_def)
qed

text \<open>A master with a database, whose worker finds one zone without partitions.\<close>

abbreviation demo_env :: "(topo_path, topo_content) ok_db gw_env" where
  "demo_env \<equiv> \<lparr>ge_cli = mem_etcd, ge_lease = Ok (), ge_unrooted = id, ge_zonesMap = Ok [''z''], ge_zonesName = Ok [''z''],
     ge_ids = (\<lambda>_. Ok []), ge_info = (\<lambda>_ _. Err ErrNoNode), ge_master = (\<lambda>_. Ok ''a''), ge_rand = (\<lambda>_. 0), ge_order = [],
     ge_dbs = [\<lparr>gd_Topo = demo_topo, gd_SpaceCache = Some NewSpaceCache\<rparr>], ge_spaces = (\<lambda>_. []), ge_partitions = (\<lambda>_. [])\<rparr>"

abbreviation demo_gm :: "((topo_path, topo_content) ok_db, nat) Cluster \<Rightarrow> ((topo_path, topo_content) ok_db, nat) GM" where
  "demo_gm c \<equiv> \<lparr>gw_cluster = c, gw_eventCh = [], gw_isStarted = True\<rparr>"

lemma demo_visits: "visits demo_env (DbCache demo_cluster)"
  unfolding demo_cluster_def demo_CreateDb
  by (auto simp: visits_def AddDb_def NewDBCache_def NewSpaceCache_def on_dbs_def ran_def)

lemma demo_worker_run: "fst (gm_worker_run demo_env (demo_gm c)) = demo_gm c"
  by (simp add: gm_worker_run_def getPartitionIdsByZone_def bindW_def)

theorem space_stays_initial_witness:
  "\<exists>st' sp. CreateSpace mem_etcd (\<lambda>f c. txn_Put f c (Some 0)) count_gen ''d'' ''s'' ''x'' demo_policy demo_cluster = (st', Ok sp) \<and>
     gw_eventCh (demo_gm st') = [] \<and> ms_Status (tp_Meta (gs_Topo sp)) = SS_Init"
proof -
  let ?step = "gw_step mem_etcd (\<lambda>f c. txn_Put f c (Some 0)) count_gen"
  obtain st' sp where call: "CreateSpace mem_etcd (\<lambda>f c. txn_Put f c (Some 0)) count_gen ''d'' ''s'' ''x'' demo_policy demo_cluster = (st', Ok sp)"
    using demo_space by (elim exE)
  have "gm_step mem_etcd (\<lambda>f c. txn_Put f c (Some 0)) count_gen new_cluster demo_cluster"
    unfolding demo_cluster_def by (rule gm_step.create_db) (simp add: fresh_db_def NewDBCache_def)
  then have "?step (demo_gm new_cluster) (demo_gm demo_cluster)"
    using gw_step.request [of mem_etcd _ count_gen "demo_gm new_cluster" demo_cluster] by simp
  moreover have "?step (demo_gm demo_cluster) (demo_gm demo_cluster)"
    using gw_step.worker [of demo_env mem_etcd "demo_gm demo_cluster"] demo_visits demo_worker_run [of demo_cluster] by simp
  moreover have "?step (demo_gm demo_cluster) (demo_gm st')"
    using gw_step.request [OF gm_step.create_space, of mem_etcd "\<lambda>f c. txn_Put f c (Some 0)" count_gen "demo_gm demo_cluster" "''d''" "''s''" "''x''" demo_policy] call
    by simp
  ultimately have run: "?step\<^sup>*\<^sup>* (demo_gm new_cluster) (demo_gm st')"
    by (intro converse_rtranclp_into_rtranclp [OF _ converse_rtranclp_into_rtranclp [OF _ r_into_rtranclp]])
  have bare: "spaces_bare (DbCache (gw_cluster (demo_gm new_cluster)))" using new_cluster_fine(2) by simp
  obtain ps where "created_space mem_etcd (\<lambda>f c. txn_Put f c (Some 0)) count_gen ''d'' ''s'' demo_policy demo_cluster st' sp ps"
    using CreateSpace_outcome [OF call] by auto
  then obtain d sc where "FindDbByName (DbCache (gw_cluster (demo_gm st'))) ''d'' = Some d" "gd_SpaceCache d = Some sc" "FindSpaceByName sc ''s'' = Some sp"
    using created_space_found [OF demo_cluster_fine] unfolding GM.select_convs by blast
  then have "gw_eventCh (demo_gm st') = gw_eventCh (demo_gm new_cluster) \<and> ms_Status (tp_Meta (gs_Topo sp)) = SS_Init \<and>
      (\<forall>p\<in>ran (gs_partitions sp). Replicas (gp_Meta p) = [])"
    by (rule space_stays_initial [OF run bare])
  then show ?thesis using call by (intro exI [of _ st'] exI [of _ sp] conjI) simp_all
qed

text \<open>
  C34: The worker keeps the latest report of each partition: of all reports that the zones hold of it, one with the highest
  configuration version and, among those, the highest term.
\<close>

theorem worker_keeps_latest:
  assumes "answers env" "\<forall>r\<in>reported env zones. pi_RaftStatus r \<noteq> None"
  shows "\<exists>m. latest_reports env zones Map.empty = Ok m \<and> (\<forall>i b. m i = Some b \<longrightarrow> b \<in> reported env zones \<and> pi_ID b = i) \<and>
    (\<forall>r\<in>reported env zones. \<exists>b. m (pi_ID r) = Some b \<and> (ConfVersion (pi_Epoch r) < ConfVersion (pi_Epoch b) \<or>
      (ConfVersion (pi_Epoch r) = ConfVersion (pi_Epoch b) \<and> rs_Term (the (pi_RaftStatus r)) \<le> rs_Term (the (pi_RaftStatus b)))))"
proof -
  have "best_of {} Map.empty" by (simp add: best_of_def)
  then obtain m where m: "latest_reports env zones Map.empty = Ok m" "best_of (reported env zones) m"
    using latest_reports_best [OF assms(1), of "{}" Map.empty zones] assms(2) by auto
  have "ConfVersion (pi_Epoch r) < ConfVersion (pi_Epoch b) \<or>
      (ConfVersion (pi_Epoch r) = ConfVersion (pi_Epoch b) \<and> rs_Term (the (pi_RaftStatus r)) \<le> rs_Term (the (pi_RaftStatus b)))"
    if "r \<in> reported env zones" "b \<in> reported env zones" "rank_le (report_rank r) (report_rank b)" for r b
  proof -
    note rb = that
    obtain x y where "pi_RaftStatus r = Some x" "pi_RaftStatus b = Some y" using assms(2) rb(1,2) by blast
    then show ?thesis using rb(3) by (auto simp: rank_le_def report_rank_def)
  qed
  then show ?thesis using m unfolding best_of_def by (intro exI [of _ m]) blast
qed

text \<open>
  C36: An update of a replica group never returns after it has changed anything.  When the report is accepted, the new group is
  written to the store and the call blocks on the mutex it holds, so the worker stops; when it returns false, nothing
  has changed.  The report of a leader with a newer configuration is accepted unless the store refuses it.
\<close>

theorem replica_update_blocks:
  assumes "etcd (ge_cli env) db" "updateReplicaGroup env info p st = (st', r)"
  shows "r \<noteq> Returns (Ok True) \<and> (r = Returns (Ok False) \<longrightarrow> st' = st) \<and>
    (r = Blocks \<longrightarrow> (\<exists>rs kv. pi_RaftStatus info = Some rs \<and> db_kvs (db (gm_topo (gw_cluster st'))) (PartitionFile (pt_ID (gp_Meta p))) = Some kv \<and>
      kv_Value kv = PartitionContent ((gp_Meta p)\<lparr>Replicas := rs_Replica rs # Followers rs, Epoch := pi_Epoch info, pt_Status := pi_Status info\<rparr>))) \<and>
    (IsLeader info \<and> pi_RaftStatus info \<noteq> None \<and> ConfVersion (pi_Epoch info) > ConfVersion (Epoch (gp_Meta p)) \<longrightarrow>
      r = Blocks \<or> (\<exists>x. r = Returns (Err x)))"
proof (cases "pi_RaftStatus info")
  case None
  then have "r = Returns Panic \<or> (r = Returns (Ok False) \<and> st' = st)" using assms(2)
    by (simp add: updateReplicaGroup_def Let_def retW_def split: if_splits option.splits)
  moreover have "r = Returns Panic" if "IsLeader info" "ConfVersion (pi_Epoch info) > ConfVersion (Epoch (gp_Meta p))"
    using assms(2) None that less_not_sym [OF that(2)] by (auto simp: updateReplicaGroup_def Let_def retW_def split: if_splits)
  ultimately show ?thesis using None by auto
next
  case (Some rs)
  have go: "r = Blocks \<and> (\<exists>kv. db_kvs (db (gm_topo (gw_cluster st'))) (PartitionFile (pt_ID (gp_Meta p))) = Some kv \<and>
      kv_Value kv = PartitionContent ((gp_Meta p)\<lparr>Replicas := rs_Replica rs # Followers rs, Epoch := pi_Epoch info, pt_Status := pi_Status info\<rparr>))
    \<or> (\<exists>x. r = Returns (Err x))" if "store_replicas env info rs p st = (st', r)"
    using store_replicas_outcome [OF assms(1) that] by blast
  have "store_replicas env info rs p st = (st', r) \<or>
      (r = Returns (Ok False) \<and> st' = st \<and> \<not> (IsLeader info \<and> ConfVersion (pi_Epoch info) > ConfVersion (Epoch (gp_Meta p))))"
    using assms(2) Some by (simp add: updateReplicaGroup_def Let_def retW_def split: if_splits option.splits) auto
  then show ?thesis using go Some by auto
qed

abbreviation demo_report :: "u64 \<Rightarrow> u64 \<Rightarrow> PartitionInfo" where
  "demo_report v t \<equiv> \<lparr>pi_ID = 5, IsLeader = True, pi_Status = PA_READWRITE, pi_Epoch = \<lparr>ConfVersion = v, Version = 0\<rparr>,
     pi_RaftStatus = Some \<lparr>rs_Replica = \<lparr>rep_ID = 1, rep_NodeID = 1, rep_Addrs = [], rep_Zone = ''z''\<rparr>, rs_Term = t, Followers = []\<rparr>\<rparr>"

abbreviation two_zones :: "(topo_path, topo_content) ok_db gw_env" where
  "two_zones \<equiv> demo_env\<lparr>ge_zonesMap := Ok [''y'', ''z''], ge_ids := (\<lambda>_. Ok [5]),
     ge_info := (\<lambda>z _. Ok (Some (if z = ''z'' then demo_report 2 1 else demo_report 1 7)))\<rparr>"

theorem worker_keeps_latest_witness:
  "\<exists>m b. latest_reports two_zones [''y'', ''z''] Map.empty = Ok m \<and> m 5 = Some b \<and> 2 \<le> ConfVersion (pi_Epoch b)"
proof -
  have "answers two_zones" by (simp add: answers_def)
  moreover have "\<forall>r\<in>reported two_zones [''y'', ''z'']. pi_RaftStatus r \<noteq> None" by (auto simp: reported_def)
  ultimately obtain m where m: "latest_reports two_zones [''y'', ''z''] Map.empty = Ok m"
    "\<forall>r\<in>reported two_zones [''y'', ''z'']. \<exists>b. m (pi_ID r) = Some b \<and> (ConfVersion (pi_Epoch r) < ConfVersion (pi_Epoch b) \<or>
      (ConfVersion (pi_Epoch r) = ConfVersion (pi_Epoch b) \<and> rs_Term (the (pi_RaftStatus r)) \<le> rs_Term (the (pi_RaftStatus b))))"
    using worker_keeps_latest [of two_zones "[''y'', ''z'']"] by blast
  have "demo_report 2 1 \<in> reported two_zones [''y'', ''z'']"
    by (auto simp: reported_def getPartitionIdsByZone_def GlobalZone_def intro!: bexI [of _ "''z''"])
  from m(2) [rule_format, OF this] obtain b where "m 5 = Some b" "2 \<le> ConfVersion (pi_Epoch b)"
    by (elim exE conjE) (auto simp: order.order_iff_strict)
  with m(1) show ?thesis by (intro exI conjI)
qed

abbreviation demo_partition :: gm_Partition where
  "demo_partition \<equiv> \<lparr>gp_Topo = \<lparr>tp_Version = None, tp_Meta = zero_Partition\<lparr>pt_ID := 5\<rparr>\<rparr>, gp_ReplicaLeader = None, gp_Term = 0\<rparr>"

theorem replica_update_blocks_witness:
  "\<exists>st' r. updateReplicaGroup demo_env (demo_report 2 1) demo_partition (demo_gm new_cluster) = (st', r) \<and>
     (r = Blocks \<or> (\<exists>x. r = Returns (Err x)))"
proof -
  obtain st' r where call: "updateReplicaGroup demo_env (demo_report 2 1) demo_partition (demo_gm new_cluster) = (st', r)"
    by (cases "updateReplicaGroup demo_env (demo_report 2 1) demo_partition (demo_gm new_cluster)")
  have "etcd (ge_cli demo_env) db_of" using me.etcd_axioms by simp
  from replica_update_blocks [OF this call] have "r = Blocks \<or> (\<exists>x. r = Returns (Err x))"
    by (simp add: zero_Partition_def zero_Epoch_def)
  with call show ?thesis by (intro exI conjI)
qed

text \<open>
  Partitions whose numbers are not code points share the name of their task: \<^verbatim>\<open>string(partition.ID)\<close> is the replacement
  character for all of them.
\<close>

lemma task_names_collide: "unat i \<ge> 0x110000 \<Longrightarrow> unat j \<ge> 0x110000 \<Longrightarrow> string_of_rune i = string_of_rune j"
  by (simp add: string_of_rune_def Let_def)

end
