(* ===== verification/Zm_Server.thy ===== *)
theory Zm_Server
  imports Zm_Partition
begin

text \<open>
  The zone master's handling of partition servers: the servers and their status
  (\<^verbatim>\<open>zm/partition_server.go\<close>), the event queue of the processor (\<^verbatim>\<open>zm/processor.go\<close>), and the handlers
  \<^verbatim>\<open>PSRegister\<close> and \<^verbatim>\<open>PSHeartbeat\<close> of \<^verbatim>\<open>zm/rpc_server.go\<close>.  A handler is a function from the state of the
  master to a response code and a state, or a panic.  An address \<^verbatim>\<open>ip:port\<close> is the pair of its parts.
\<close>

section \<open>Errors and response codes\<close>

datatype zm_err = ErrSuc | ErrInternalError | ErrSysBusy | ErrParamError | ErrInvalidCfg
  | ErrNotMSLeader | ErrNoMSLeader | ErrDupDb | ErrDbNotExists | ErrDupSpace | ErrSpaceNotExists
  | ErrPSNotExists | ErrGenIdFailed | ErrLocalDbOpsFailed | ErrRouteNotFound
  | ErrRpcEmptyFollowers | ErrRpcNoFollowerLeader | ErrRpcGetClientFailed | ErrRpcInvokeFailed

definition RESP_CODE_OK :: u16 where "RESP_CODE_OK = 0"
definition RESP_CODE_SERVER_ERROR :: u16 where "RESP_CODE_SERVER_ERROR = 500"
definition MASTER_RESP_CODE_EMPTY_FOLLOWERS :: u16 where "MASTER_RESP_CODE_EMPTY_FOLLOWERS = 601"
definition MASTER_RESP_CODE_NOT_LEADER :: u16 where "MASTER_RESP_CODE_NOT_LEADER = 602"
definition MASTER_RESP_CODE_DB_NOTEXISTS :: u16 where "MASTER_RESP_CODE_DB_NOTEXISTS = 603"
definition MASTER_RESP_CODE_SPACE_NOTEXISTS :: u16 where "MASTER_RESP_CODE_SPACE_NOTEXISTS = 604"
definition MASTER_RESP_CODE_ROUTE_NOTEXISTS :: u16 where "MASTER_RESP_CODE_ROUTE_NOTEXISTS = 605"
definition MASTER_RESP_CODE_PS_NOTEXISTS :: u16 where "MASTER_RESP_CODE_PS_NOTEXISTS = 606"
definition MASTER_RESP_CODE_NO_FOLLOWER_LEADER :: u16 where "MASTER_RESP_CODE_NO_FOLLOWER_LEADER = 607"
definition MASTER_RESP_CODE_NO_LEADER :: u16 where "MASTER_RESP_CODE_NO_LEADER = 608"

text \<open>
  \<^verbatim>\<open>Err2RpcCodeMap\<close>: the entries of the composite literal in their order.  Its keys are not
  constants, so a repeated key is no compile error and the later entry stands.
\<close>

definition Err2RpcCodeMap :: "zm_err \<rightharpoonup> u16" where
  "Err2RpcCodeMap = Map.empty
     (ErrSuc \<mapsto> RESP_CODE_OK, ErrInternalError \<mapsto> RESP_CODE_SERVER_ERROR,
      ErrNotMSLeader \<mapsto> MASTER_RESP_CODE_NOT_LEADER, ErrNoMSLeader \<mapsto> MASTER_RESP_CODE_NO_LEADER,
      ErrDbNotExists \<mapsto> MASTER_RESP_CODE_DB_NOTEXISTS,
      ErrSpaceNotExists \<mapsto> MASTER_RESP_CODE_SPACE_NOTEXISTS,
      ErrPSNotExists \<mapsto> MASTER_RESP_CODE_PS_NOTEXISTS,
      ErrSpaceNotExists \<mapsto> MASTER_RESP_CODE_ROUTE_NOTEXISTS,
      ErrRpcEmptyFollowers \<mapsto> MASTER_RESP_CODE_EMPTY_FOLLOWERS,
      ErrRpcNoFollowerLeader \<mapsto> MASTER_RESP_CODE_NO_FOLLOWER_LEADER)"

definition makeRpcRespHeader :: "zm_err \<Rightarrow> u16" where
  "makeRpcRespHeader err =
     (case Err2RpcCodeMap err of Some code \<Rightarrow> code | None \<Rightarrow> RESP_CODE_SERVER_ERROR)"

section \<open>Partition servers\<close>

datatype PSStatus = PS_INVALID | PS_INIT | PS_REGISTERED | PS_OFFLINE | PS_TOMBSTONE | PS_LOGOUT

type_synonym addr = "string \<times> u32"

record PartitionServer =
  ps_Node :: meta_Node
  ps_adminPort :: u32
  ps_status :: PSStatus
  ps_lastHeartbeat :: int
  ps_partitionCache :: PartitionCache

definition NewPartitionServerByMeta :: "u32 \<Rightarrow> meta_Node \<Rightarrow> int \<Rightarrow> PartitionServer" where
  "NewPartitionServerByMeta adminPort node now =
     \<lparr>ps_Node = node, ps_adminPort = adminPort, ps_status = PS_INIT, ps_lastHeartbeat = now,
      ps_partitionCache = NewPartitionCache\<rparr>"

text \<open>\<^verbatim>\<open>NewPartitionServer\<close>: the 64-bit identifier is cut to the 32 bits of a node identifier.\<close>

definition NewPartitionServer :: "(unit, u64) result \<Rightarrow> string \<Rightarrow> (u32 \<Rightarrow> string list) \<Rightarrow> u32 \<Rightarrow> int
    \<Rightarrow> (zm_err, PartitionServer) result" where
  "NewPartitionServer gen ip addrs adminPort now =
     (case gen of
        Err _ \<Rightarrow> Err ErrGenIdFailed
      | Panic \<Rightarrow> Panic
      | Ok newId \<Rightarrow> Ok (NewPartitionServerByMeta adminPort
          \<lparr>nd_ID = ucast newId, nd_Ip = ip, nd_Zone = [], nd_Addrs = addrs adminPort\<rparr> now))"

definition updateHb :: "PartitionServer \<Rightarrow> int \<Rightarrow> PartitionServer" where
  "updateHb p now = p\<lparr>ps_lastHeartbeat := now\<rparr>"

definition ps_addPartition :: "PartitionServer \<Rightarrow> zm_Partition \<Rightarrow> PartitionServer" where
  "ps_addPartition p part = p\<lparr>ps_partitionCache := AddPartition (ps_partitionCache p) part\<rparr>"

definition changeStatus :: "PartitionServer \<Rightarrow> PSStatus \<Rightarrow> PartitionServer" where
  "changeStatus p newStatus =
     (let oldStatus = ps_status p in
      case newStatus of
        PS_INIT \<Rightarrow> if oldStatus \<noteq> PS_INIT then p else p\<lparr>ps_status := newStatus\<rparr>
      | PS_OFFLINE \<Rightarrow> p\<lparr>ps_status := newStatus\<rparr>
      | PS_LOGOUT \<Rightarrow> p\<lparr>ps_status := newStatus\<rparr>
      | _ \<Rightarrow> p)"

definition getRpcAddr :: "PartitionServer \<Rightarrow> addr" where
  "getRpcAddr p = (nd_Ip (ps_Node p), ps_adminPort p)"

type_synonym PSCache = "NodeID \<rightharpoonup> PartitionServer"

definition FindServerById :: "PSCache \<Rightarrow> NodeID \<Rightarrow> PartitionServer option" where
  "FindServerById c psId = (if psId = 0 then None else c psId)"

definition AddServer :: "PSCache \<Rightarrow> PartitionServer \<Rightarrow> PSCache" where
  "AddServer c server = c(nd_ID (ps_Node server) \<mapsto> server)"

section \<open>Events\<close>

datatype zm_event =
    PartitionCreateEvent PartitionID
  | PartitionDeleteEvent PartitionID NodeID Replica
  | ForcePartitionDeleteEvent PartitionID addr Replica

text \<open>
  The state of the master.  \<^verbatim>\<open>PartitionCache\<close> is a pointer: \<^verbatim>\<open>NewCluster\<close> does not set it.
  \<open>zs_topo\<close> is what was written to the topology service.
\<close>

record zm_state =
  MineIsLeader :: bool
  zs_PsCache :: PSCache
  zs_PartitionCache :: "PartitionCache option"
  zs_started :: bool
  zs_eventCh :: "zm_event list"
  zs_topo :: "PartitionInfo list"

definition PARTITION_CHANNEL_LIMIT :: nat where
  "PARTITION_CHANNEL_LIMIT = 1000"

text \<open>\<^verbatim>\<open>PushEvent\<close>: \<^verbatim>\<open>PARTITION_CHANNEL_LIMIT*0.9\<close> is the constant 900.\<close>

definition PushEvent :: "zm_event \<Rightarrow> zm_state \<Rightarrow> zm_state \<times> zm_err option" where
  "PushEvent event st =
     (if \<not> zs_started st then (st, Some ErrInternalError)
      else if length (zs_eventCh st) \<ge> PARTITION_CHANNEL_LIMIT * 9 div 10 then (st, Some ErrSysBusy)
      else (st\<lparr>zs_eventCh := zs_eventCh st @ [event]\<rparr>, None))"

section \<open>Heartbeats\<close>

definition FIXED_REPLICA_NUM :: nat where
  "FIXED_REPLICA_NUM = 1"

text \<open>The pickers.  Indexing the first of no followers panics, and so does reading a missing raft status.\<close>

definition pickLeaderReplica :: "PartitionInfo \<Rightarrow> (zm_err, Replica option) result" where
  "pickLeaderReplica info =
     (if \<not> IsLeader info then Ok None
      else case pi_RaftStatus info of None \<Rightarrow> Panic | Some rs \<Rightarrow> Ok (Some (rs_Replica rs)))"

fun first_other :: "ReplicaID \<Rightarrow> Replica list \<Rightarrow> Replica option" where
  "first_other i [] = None"
| "first_other i (f # fs) = (if rep_ID f = i then first_other i fs else Some f)"

definition pickReplicaToDelete :: "PartitionInfo \<Rightarrow> (zm_err, Replica option) result" where
  "pickReplicaToDelete info =
     (case pi_RaftStatus info of
        None \<Rightarrow> Ok None
      | Some rs \<Rightarrow>
          if \<not> IsLeader info then
            (case Followers rs of [] \<Rightarrow> Panic | f # _ \<Rightarrow> Ok (Some f))
          else (case first_other (rep_ID (rs_Replica rs)) (Followers rs) of
                  Some f \<Rightarrow> Ok (Some f)
                | None \<Rightarrow> Ok (Some (rs_Replica rs))))"

definition store_partition :: "PartitionID \<Rightarrow> zm_Partition \<Rightarrow> zm_state \<Rightarrow> zm_state" where
  "store_partition i p st =
     st\<lparr>zs_PartitionCache := map_option (\<lambda>c. c(i \<mapsto> p)) (zs_PartitionCache st)\<rparr>"

text \<open>Taking the task and then asking for the removal of a replica, as three branches of the handler do.\<close>

definition take_and_delete :: "int \<Rightarrow> PartitionInfo \<Rightarrow> (zm_Partition \<Rightarrow> NodeID) \<Rightarrow> zm_Partition
    \<Rightarrow> zm_state \<Rightarrow> (zm_err, zm_state) result" where
  "take_and_delete now info leaderNode p st =
     (case takeChangeMemberTask p now of (p', taken) \<Rightarrow>
        let st' = store_partition (pi_ID info) p' st in
        if \<not> taken then Ok st'
        else result_bind (pickReplicaToDelete info) (\<lambda>r.
          case r of None \<Rightarrow> Ok st'
          | Some replicaToDelete \<Rightarrow>
              Ok (fst (PushEvent (PartitionDeleteEvent (pi_ID info) (leaderNode p') replicaToDelete) st'))))"

text \<open>The end of the handler's loop body, under \<^verbatim>\<open>needToCheckingReplicasCount\<close>.\<close>

definition check_replica_count :: "int \<Rightarrow> PartitionInfo \<Rightarrow> zm_Partition \<Rightarrow> zm_state \<Rightarrow> (zm_err, zm_state) result" where
  "check_replica_count now info p st =
     (let replicaCount = countReplicas p in
      if replicaCount > FIXED_REPLICA_NUM then take_and_delete now info pickLeaderNodeId p st
      else if replicaCount < FIXED_REPLICA_NUM then
        (case takeChangeMemberTask p now of (p', taken) \<Rightarrow>
           let st' = store_partition (pi_ID info) p' st in
           if \<not> taken then Ok st' else Ok (fst (PushEvent (PartitionCreateEvent (pt_ID p')) st')))
      else Ok st)"

text \<open>\<^verbatim>\<open>UpdateReplicaGroupByCond\<close> and what follows it in both branches that call it.\<close>

definition force_update :: "int \<Rightarrow> PartitionInfo \<Rightarrow> Replica \<Rightarrow> zm_Partition \<Rightarrow> zm_state \<Rightarrow> (zm_err, zm_state) result" where
  "force_update now info leaderReplicaHb p st =
     result_bind (UpdateReplicaGroupByCond p info leaderReplicaHb now) (\<lambda>(p', written, expired, ok).
       let st' = (store_partition (pi_ID info) p' st)\<lparr>zs_topo := zs_topo st @ written\<rparr> in
       if expired \<or> \<not> ok then Ok st' else check_replica_count now info p' st')"

text \<open>The branch of the handler for equal versions, with the leader's replica in the report.\<close>

definition hb_same_version :: "int \<Rightarrow> PartitionInfo \<Rightarrow> Replica \<Rightarrow> zm_Partition \<Rightarrow> zm_state \<Rightarrow> (zm_err, zm_state) result" where
  "hb_same_version now info leaderReplicaHb p st =
     (case ValidateAndUpdateLeaderByCond p info leaderReplicaHb now of
        (p', expired, illegal, ok) \<Rightarrow>
          let st' = store_partition (pi_ID info) p' st in
          if expired then Ok st'
          else if illegal then take_and_delete now info (\<lambda>_. rep_NodeID leaderReplicaHb) p' st'
          else if \<not> ok then force_update now info leaderReplicaHb p' st'
          else check_replica_count now info p' st')"

definition hb_partition :: "int \<Rightarrow> addr \<Rightarrow> PartitionInfo \<Rightarrow> zm_state \<Rightarrow> (zm_err, zm_state) result" where
  "hb_partition now psAddr info st =
     (case zs_PartitionCache st of
        None \<Rightarrow> Panic
      | Some cache \<Rightarrow>
        (case FindPartitionById cache (pi_ID info) of
           None \<Rightarrow> result_bind (pickReplicaToDelete info) (\<lambda>r.
             case r of None \<Rightarrow> Ok st
             | Some replicaToDelete \<Rightarrow>
                 Ok (fst (PushEvent (ForcePartitionDeleteEvent (pi_ID info) psAddr replicaToDelete) st)))
         | Some partitionMS \<Rightarrow>
           let confVerMS = ConfVersion (Epoch partitionMS); confVerHb = ConfVersion (pi_Epoch info) in
           if confVerHb < confVerMS then take_and_delete now info pickLeaderNodeId partitionMS st
           else if confVerHb > confVerMS then
             result_bind (pickLeaderReplica info) (\<lambda>l.
               case l of None \<Rightarrow> Ok st
               | Some leaderReplicaHb \<Rightarrow> force_update now info leaderReplicaHb partitionMS st)
           else
             result_bind (pickLeaderReplica info) (\<lambda>l.
               case l of None \<Rightarrow> Ok st
               | Some leaderReplicaHb \<Rightarrow>
                   hb_same_version now info leaderReplicaHb partitionMS st)))"

fun hb_loop :: "int \<Rightarrow> addr \<Rightarrow> PartitionInfo list \<Rightarrow> zm_state \<Rightarrow> (zm_err, zm_state) result" where
  "hb_loop now psAddr [] st = Ok st"
| "hb_loop now psAddr (info # infos) st =
     result_bind (hb_partition now psAddr info st) (hb_loop now psAddr infos)"

definition PSHeartbeat :: "int \<Rightarrow> NodeID \<Rightarrow> PartitionInfo list \<Rightarrow> zm_state \<Rightarrow> (zm_err, u16 \<times> zm_state) result" where
  "PSHeartbeat now psId partitionInfos st =
     (if \<not> MineIsLeader st then Ok (MASTER_RESP_CODE_NOT_LEADER, st)
      else case FindServerById (zs_PsCache st) psId of
        None \<Rightarrow> Ok (makeRpcRespHeader ErrPSNotExists, st)
      | Some ps \<Rightarrow>
          let st' = st\<lparr>zs_PsCache := (zs_PsCache st)(psId \<mapsto> updateHb ps now)\<rparr>
          in result_bind (hb_loop now (getRpcAddr ps) partitionInfos st')
               (\<lambda>st''. Ok (makeRpcRespHeader ErrSuc, st'')))"

section \<open>Registration\<close>

text \<open>
  \<^verbatim>\<open>PSRegister\<close>: node 0 is a server that has no identifier yet; \<open>gen\<close> is the answer of the identifier
  generator, \<open>addrs\<close> the addresses built from the configuration.  The answer has the response code, the
  node and the server's partitions (\<^verbatim>\<open>GetAllMetaPartitions\<close>, in no particular order).  The write to the topology
  service (\<^verbatim>\<open>persistent\<close>) leaves the server as it is when it fails, and the failure is ignored.
\<close>

definition GetAllMetaPartitions :: "PartitionCache \<Rightarrow> meta_Partition set" where
  "GetAllMetaPartitions c = meta_of ` ran c"

type_synonym register_resp = "u16 \<times> NodeID \<times> meta_Partition set"

definition PSRegister :: "int \<Rightarrow> (unit, u64) result \<Rightarrow> (u32 \<Rightarrow> string list) \<Rightarrow> u32 \<Rightarrow> NodeID \<Rightarrow> string
    \<Rightarrow> zm_state \<Rightarrow> (zm_err, register_resp \<times> zm_state) result" where
  "PSRegister now gen addrs adminPort nodeId ip st =
     (if \<not> MineIsLeader st then Ok ((MASTER_RESP_CODE_NOT_LEADER, 0, {}), st)
      else if nodeId = 0 then
        (case NewPartitionServer gen ip addrs adminPort now of
           Err e \<Rightarrow> Ok ((makeRpcRespHeader e, 0, {}), st)
         | Panic \<Rightarrow> Panic
         | Ok ps \<Rightarrow>
             let ps' = ps\<lparr>ps_status := PS_REGISTERED\<rparr>
             in Ok ((makeRpcRespHeader ErrSuc, nd_ID (ps_Node ps'), {}),
                    st\<lparr>zs_PsCache := AddServer (zs_PsCache st) ps'\<rparr>))
      else case FindServerById (zs_PsCache st) nodeId of
        None \<Rightarrow> Ok ((makeRpcRespHeader ErrPSNotExists, 0, {}), st)
      | Some ps \<Rightarrow>
          let ps' = changeStatus ps PS_REGISTERED
          in Ok ((makeRpcRespHeader ErrSuc, nd_ID (ps_Node ps'), GetAllMetaPartitions (ps_partitionCache ps')),
                 st\<lparr>zs_PsCache := (zs_PsCache st)(nodeId \<mapsto> ps')\<rparr>))"

section \<open>Runs of the master\<close>

text \<open>
  The steps of the master between recovery and shutdown, as far as partition servers cause them: heartbeats,
  registrations, and the processor taking an event from its channel.
\<close>

inductive zm_step :: "zm_state \<Rightarrow> zm_state \<Rightarrow> bool" where
  heartbeat: "PSHeartbeat now psId infos st = Ok (code, st') \<Longrightarrow> zm_step st st'"
| register: "PSRegister now gen addrs port nodeId ip st = Ok (resp, st') \<Longrightarrow> zm_step st st'"
| process: "zs_eventCh st = ev # evs \<Longrightarrow> zm_step st (st\<lparr>zs_eventCh := evs\<rparr>)"

section \<open>What a heartbeat may change\<close>

text \<open>
  \<open>hb_step k st st'\<close>: the same partitions are known, each the same partition as before with a
  configuration version that did not go back, at most \<open>k\<close> events were added to the queue, and it did
  not grow over the limit at which events are refused.
\<close>

definition cache_le :: "PartitionCache \<Rightarrow> PartitionCache \<Rightarrow> bool" where
  "cache_le c c' = (\<forall>i. rel_option same_partition (c i) (c' i))"

definition hb_step :: "nat \<Rightarrow> zm_state \<Rightarrow> zm_state \<Rightarrow> bool" where
  "hb_step k st st' = (rel_option cache_le (zs_PartitionCache st) (zs_PartitionCache st') \<and>
     (\<exists>evs. zs_eventCh st' = zs_eventCh st @ evs \<and> length evs \<le> k) \<and>
     (length (zs_eventCh st) \<le> 900 \<longrightarrow> length (zs_eventCh st') \<le> 900))"

lemma cache_le_refl [simp]: "cache_le c c"
  by (simp add: cache_le_def option.rel_refl)

lemma cache_le_trans: "cache_le a b \<Longrightarrow> cache_le b c \<Longrightarrow> cache_le a c"
proof -
  assume "cache_le a b" "cache_le b c"
  then have "rel_option (same_partition OO same_partition) (a i) (c i)" for i
    unfolding cache_le_def option.rel_compp by blast
  moreover have "same_partition OO same_partition \<le> same_partition" using same_partition_trans by blast
  ultimately show "cache_le a c" unfolding cache_le_def by (meson option.rel_mono predicate2D)
qed

lemma hb_step_refl [simp]: "hb_step k st st"
  by (simp add: hb_step_def option.rel_refl)

lemma hb_step_trans:
  assumes "hb_step j a b" "hb_step k b c"
  shows "hb_step (j + k) a c"
proof -
  have "rel_option (cache_le OO cache_le) (zs_PartitionCache a) (zs_PartitionCache c)"
    using assms unfolding hb_step_def option.rel_compp by blast
  moreover have "cache_le OO cache_le \<le> cache_le" using cache_le_trans by blast
  ultimately have "rel_option cache_le (zs_PartitionCache a) (zs_PartitionCache c)"
    by (meson option.rel_mono predicate2D)
  moreover obtain e f where "zs_eventCh b = zs_eventCh a @ e" "length e \<le> j"
      "zs_eventCh c = zs_eventCh b @ f" "length f \<le> k"
    using assms unfolding hb_step_def by blast
  then have "zs_eventCh c = zs_eventCh a @ (e @ f)" "length (e @ f) \<le> j + k" by simp_all
  moreover have "length (zs_eventCh a) \<le> 900 \<longrightarrow> length (zs_eventCh c) \<le> 900"
    using assms unfolding hb_step_def by blast
  ultimately show ?thesis unfolding hb_step_def by blast
qed

lemma hb_step_cong:
  assumes "hb_step k st st'" "zs_PartitionCache st'' = zs_PartitionCache st'" "zs_eventCh st'' = zs_eventCh st'"
  shows "hb_step k st st''"
  using assms by (simp add: hb_step_def)

lemma PushEvent_step: "hb_step 1 st (fst (PushEvent e st))"
  by (simp add: hb_step_def PushEvent_def PARTITION_CHANNEL_LIMIT_def option.rel_refl)

text \<open>\<open>knows i p st\<close>: partition \<open>i\<close> is known, and \<open>p\<close> is a later version of it.\<close>

definition knows :: "PartitionID \<Rightarrow> zm_Partition \<Rightarrow> zm_state \<Rightarrow> bool" where
  "knows i p st = (\<exists>c q. zs_PartitionCache st = Some c \<and> c i = Some q \<and> same_partition q p)"

lemma knows_later: "knows i p st \<Longrightarrow> same_partition p p' \<Longrightarrow> knows i p' st"
  unfolding knows_def by (blast intro: same_partition_trans)

lemma store_step: "knows i p st \<Longrightarrow> hb_step 0 st (store_partition i p st)"
  by (auto simp: knows_def hb_step_def store_partition_def cache_le_def option.rel_refl)

lemma knows_store: "knows i p st \<Longrightarrow> same_partition p p' \<Longrightarrow> knows i p' (store_partition i p st)"
  by (auto simp: knows_def store_partition_def)

lemma store_push_step: "knows i p st \<Longrightarrow> hb_step 1 st (fst (PushEvent e (store_partition i p st)))"
  using hb_step_trans [OF store_step PushEvent_step] by simp

lemma hb_step_mono: "hb_step j st st' \<Longrightarrow> j \<le> k \<Longrightarrow> hb_step k st st'"
  unfolding hb_step_def by (meson le_trans)

lemma store_step_1: "knows i p st \<Longrightarrow> hb_step 1 st (store_partition i p st)"
  using store_step hb_step_mono [of 0 _ _ 1] by blast

lemma take_and_delete_step:
  assumes "knows (pi_ID info) p st" "take_and_delete now info leaderNode p st = Ok st'"
  shows "hb_step 1 st st'"
proof -
  obtain p' b where take: "takeChangeMemberTask p now = (p', b)" by (cases "takeChangeMemberTask p now")
  have k: "knows (pi_ID info) p' st" using knows_later [OF assms(1) take_same [of p now]] take by simp
  show ?thesis using assms(2) store_step_1 [OF k] store_push_step [OF k]
    by (auto simp: take_and_delete_def take Let_def result_bind_Ok_iff split: if_splits option.splits)
qed

lemma check_replica_count_step:
  assumes "knows (pi_ID info) p st" "check_replica_count now info p st = Ok st'"
  shows "hb_step 1 st st'"
proof -
  obtain p' b where take: "takeChangeMemberTask p now = (p', b)" by (cases "takeChangeMemberTask p now")
  have k: "knows (pi_ID info) p' st" using knows_later [OF assms(1) take_same [of p now]] take by simp
  show ?thesis using assms(2) store_step_1 [OF k] store_push_step [OF k] take_and_delete_step [OF assms(1)]
    by (auto simp: check_replica_count_def take Let_def split: if_splits)
qed

lemma force_update_step:
  assumes "knows (pi_ID info) p st" "force_update now info l p st = Ok st'"
  shows "hb_step 1 st st'"
proof -
  obtain p' w e u where upd: "UpdateReplicaGroupByCond p info l now = (Ok (p', w, e, u) :: (zm_err, _) result)"
    using assms(2) unfolding force_update_def by (auto simp: result_bind_Ok_iff)
  have same: "same_partition p p'" by (rule Update_same [OF upd])
  have k: "knows (pi_ID info) p' st" by (rule knows_later [OF assms(1) same])
  let ?st = "(store_partition (pi_ID info) p' st)\<lparr>zs_topo := zs_topo st @ w\<rparr>"
  have step: "hb_step 0 st ?st" by (rule hb_step_cong [OF store_step [OF k]]) simp_all
  have k': "knows (pi_ID info) p' ?st" using knows_store [OF k same_partition_refl] by (simp add: knows_def)
  have "st' = ?st \<or> check_replica_count now info p' ?st = Ok st'"
    using assms(2) by (auto simp: force_update_def upd Let_def split: if_splits)
  then show ?thesis
    using hb_step_mono [OF step, of 1] hb_step_trans [OF step check_replica_count_step [OF k']] by auto
qed

lemma hb_same_version_step:
  assumes "knows (pi_ID info) p st" "hb_same_version now info l p st = Ok st'"
  shows "hb_step 1 st st'"
proof -
  obtain p' e il u where val: "ValidateAndUpdateLeaderByCond p info l now = (p', e, il, u)"
    by (cases "ValidateAndUpdateLeaderByCond p info l now")
  have same: "same_partition p p'" using Validate_same [of p info l now] val by simp
  have k: "knows (pi_ID info) p' st" by (rule knows_later [OF assms(1) same])
  let ?st = "store_partition (pi_ID info) p' st"
  have k': "knows (pi_ID info) p' ?st" using knows_store [OF k] by simp
  have "hb_step 1 ?st st'" using assms(2) take_and_delete_step [OF k'] force_update_step [OF k'] check_replica_count_step [OF k']
    by (auto simp: hb_same_version_def val Let_def split: if_splits)
  then show ?thesis using hb_step_trans [OF store_step [OF k]] by fastforce
qed

lemma hb_partition_step:
  assumes "hb_partition now a info st = Ok st'"
  shows "hb_step 1 st st'"
proof -
  obtain c where c: "zs_PartitionCache st = Some c"
    using assms by (auto simp: hb_partition_def split: option.splits)
  show ?thesis
  proof (cases "c (pi_ID info)")
    case None
    then show ?thesis using assms c PushEvent_step
      by (auto simp: hb_partition_def FindPartitionById_def result_bind_Ok_iff split: option.splits)
  next
    case (Some p)
    have k: "knows (pi_ID info) p st" using c Some by (simp add: knows_def)
    note steps = take_and_delete_step [OF k] force_update_step [OF k]
    show ?thesis using assms c Some steps hb_same_version_step [OF k]
      by (auto simp: hb_partition_def FindPartitionById_def Let_def result_bind_Ok_iff split: if_splits option.splits)
  qed
qed

lemma hb_loop_step: "hb_loop now a infos st = Ok st' \<Longrightarrow> hb_step (length infos) st st'"
proof (induction infos arbitrary: st)
  case (Cons info infos)
  then obtain st1 where "hb_partition now a info st = Ok st1" "hb_loop now a infos st1 = Ok st'"
    by (auto simp: result_bind_Ok_iff)
  then show ?case using hb_step_trans [OF hb_partition_step Cons.IH] by fastforce
qed simp

lemma PSHeartbeat_step:
  assumes "PSHeartbeat now psId infos st = Ok (code, st')"
  shows "hb_step (length infos) st st'"
proof (cases "MineIsLeader st \<and> FindServerById (zs_PsCache st) psId \<noteq> None")
  case True
  then obtain ps where ps: "FindServerById (zs_PsCache st) psId = Some ps" by blast
  let ?st = "st\<lparr>zs_PsCache := (zs_PsCache st)(psId \<mapsto> updateHb ps now)\<rparr>"
  have "hb_loop now (getRpcAddr ps) infos ?st = Ok st'"
    using assms True ps by (auto simp: PSHeartbeat_def Let_def result_bind_Ok_iff)
  then have "hb_step (length infos) ?st st'" by (rule hb_loop_step)
  then show ?thesis by (simp add: hb_step_def)
qed (use assms in \<open>auto simp: PSHeartbeat_def split: if_splits option.splits\<close>)

lemma PSRegister_keeps:
  "PSRegister now gen addrs port nodeId ip st = Ok (resp, st') \<Longrightarrow>
     zs_PartitionCache st' = zs_PartitionCache st \<and> zs_eventCh st' = zs_eventCh st"
  by (auto simp: PSRegister_def Let_def split: if_splits option.splits result.splits)

text \<open>When there is a replica to pick, the tail of the handler does not panic and changes only the task of the partition.\<close>

definition only_task :: "zm_Partition \<Rightarrow> zm_Partition \<Rightarrow> bool" where
  "only_task p q = (\<exists>b t. q = p\<lparr>taskFlag := b, taskTimeout := t\<rparr>)"

lemma only_task_refl [simp]: "only_task p p"
  unfolding only_task_def by (intro exI [of _ "taskFlag p"] exI [of _ "taskTimeout p"]) simp

lemma take_only_task: "only_task p (fst (takeChangeMemberTask p now))"
  by (auto simp: takeChangeMemberTask_def) (auto simp: only_task_def)

lemma PushEvent_keeps [simp]:
  "zs_PartitionCache (fst (PushEvent e st)) = zs_PartitionCache st" "zs_topo (fst (PushEvent e st)) = zs_topo st"
  "zs_PsCache (fst (PushEvent e st)) = zs_PsCache st"
  by (simp_all add: PushEvent_def)

lemma take_and_delete_keeps:
  assumes "pickReplicaToDelete info = Ok r" "zs_PartitionCache st = Some c"
  shows "\<exists>st' q. take_and_delete now info leaderNode p st = Ok st' \<and>
    zs_PartitionCache st' = Some (c(pi_ID info \<mapsto> q)) \<and> only_task p q \<and> zs_topo st' = zs_topo st"
proof -
  obtain q b where take: "takeChangeMemberTask p now = (q, b)" by (cases "takeChangeMemberTask p now")
  have "only_task p q" using take_only_task [of p now] take by simp
  moreover have "zs_PartitionCache (store_partition (pi_ID info) q st) = Some (c(pi_ID info \<mapsto> q))"
    "zs_topo (store_partition (pi_ID info) q st) = zs_topo st"
    using assms(2) by (simp_all add: store_partition_def)
  ultimately show ?thesis using assms(1)
    by (cases r; cases b) (auto simp: take_and_delete_def take Let_def)
qed

lemma check_replica_count_keeps:
  assumes "pickReplicaToDelete info = Ok r" "zs_PartitionCache st = Some c" "c (pi_ID info) = Some p"
  shows "\<exists>st' q. check_replica_count now info p st = Ok st' \<and>
    zs_PartitionCache st' = Some (c(pi_ID info \<mapsto> q)) \<and> only_task p q \<and> zs_topo st' = zs_topo st"
proof -
  obtain q b where take: "takeChangeMemberTask p now = (q, b)" by (cases "takeChangeMemberTask p now")
  have q: "only_task p q" using take_only_task [of p now] take by simp
  have st: "zs_PartitionCache (store_partition (pi_ID info) q st) = Some (c(pi_ID info \<mapsto> q))"
    "zs_topo (store_partition (pi_ID info) q st) = zs_topo st"
    using assms(2) by (simp_all add: store_partition_def)
  consider "countReplicas p > FIXED_REPLICA_NUM" | "countReplicas p < FIXED_REPLICA_NUM" | "countReplicas p = FIXED_REPLICA_NUM"
    by linarith
  then show ?thesis
  proof cases
    case 1
    then show ?thesis using take_and_delete_keeps [OF assms(1,2)] by (simp add: check_replica_count_def)
  next
    case 2
    then show ?thesis using q st by (cases b) (auto simp: check_replica_count_def take Let_def)
  next
    case 3
    then show ?thesis using assms(2,3)
      by (intro exI [of _ st] exI [of _ p]) (simp add: check_replica_count_def fun_upd_idem)
  qed
qed

section \<open>Properties\<close>


abbreviation example_state :: zm_state where
  "example_state \<equiv> \<lparr>MineIsLeader = True, zs_PsCache = Map.empty, zs_PartitionCache = Some Map.empty,
     zs_started = True, zs_eventCh = [], zs_topo = []\<rparr>"


text \<open>
  A report of the leader with a newer configuration version replaces the replica group: the
  master's partition then has exactly the reported replicas, leader and epoch, and the report is written to
  the topology service.
\<close>

theorem heartbeat_newer:
  assumes "zs_PartitionCache st = Some c" "c (pi_ID info) = Some p"
    and "ConfVersion (Epoch p) < ConfVersion (pi_Epoch info)"
    and "IsLeader info" "pi_RaftStatus info = Some rs"
  shows "\<exists>st' c' q. hb_partition now a info st = Ok st' \<and> zs_PartitionCache st' = Some c' \<and>
    c' (pi_ID info) = Some q \<and> Replicas q = rs_Replica rs # Followers rs \<and>
    Leader q = Some (rs_Replica rs) \<and> Epoch q = pi_Epoch info \<and> zs_topo st' = zs_topo st @ [info]"
proof -
  let ?q = "p\<lparr>Epoch := pi_Epoch info, pt_Status := pi_Status info, Replicas := rs_Replica rs # Followers rs,
      taskFlag := False, taskTimeout := no_time, LastHeartbeat := now, Leader := Some (rs_Replica rs)\<rparr>"
  let ?st = "(store_partition (pi_ID info) ?q st)\<lparr>zs_topo := zs_topo st @ [info]\<rparr>"
  have ver: "\<not> ConfVersion (pi_Epoch info) < ConfVersion (Epoch p)" using assms(3) by simp
  then have "hb_partition now a info st = force_update now info (rs_Replica rs) p st"
    using assms by (simp add: hb_partition_def FindPartitionById_def pickLeaderReplica_def Let_def)
  also have "\<dots> = check_replica_count now info ?q ?st"
    using assms ver by (auto simp: force_update_def UpdateReplicaGroupByCond_def Let_def)
  finally have hb: "hb_partition now a info st = check_replica_count now info ?q ?st" .
  obtain r where pick: "pickReplicaToDelete info = Ok r" using assms(4,5)
    by (cases "first_other (rep_ID (rs_Replica rs)) (Followers rs)") (auto simp: pickReplicaToDelete_def)
  have st: "zs_PartitionCache ?st = Some (c(pi_ID info \<mapsto> ?q))" using assms(1) by (simp add: store_partition_def)
  have "c(pi_ID info \<mapsto> ?q, pi_ID info \<mapsto> x) = c(pi_ID info \<mapsto> x)" for x by simp
  then obtain st' q' where "check_replica_count now info ?q ?st = Ok st'"
      "zs_PartitionCache st' = Some (c(pi_ID info \<mapsto> q'))" "only_task ?q q'" "zs_topo st' = zs_topo ?st"
    using check_replica_count_keeps [OF pick st] by (metis (no_types, lifting) fun_upd_same)
  then show ?thesis unfolding hb by (auto simp: only_task_def)
qed

abbreviation example_replica :: Replica where
  "example_replica \<equiv> \<lparr>rep_ID = 5, rep_NodeID = 3, rep_Addrs = [], rep_Zone = []\<rparr>"

abbreviation example_info :: PartitionInfo where
  "example_info \<equiv> \<lparr>pi_ID = 7, IsLeader = True, pi_Status = PA_READWRITE, pi_Epoch = \<lparr>ConfVersion = 2, Version = 1\<rparr>,
     pi_RaftStatus = Some \<lparr>rs_Replica = example_replica, rs_Term = 1, Followers = []\<rparr>\<rparr>"

abbreviation example_known :: zm_state where
  "example_known \<equiv> example_state\<lparr>zs_PartitionCache := Some [7 \<mapsto> NewPartitionByMeta (zero_Partition\<lparr>pt_ID := 7\<rparr>)]\<rparr>"

lemma New_conf [simp]: "Epoch (NewPartitionByMeta m) = Epoch m"
  by (simp add: NewPartitionByMeta_def meta_Partition.defs)

theorem heartbeat_newer_witness:
  "\<exists>st' c' q. hb_partition 9 (''ip'', 1) example_info example_known = Ok st' \<and> zs_PartitionCache st' = Some c' \<and>
    c' 7 = Some q \<and> Replicas q = [example_replica] \<and> Leader q = Some example_replica \<and>
    Epoch q = \<lparr>ConfVersion = 2, Version = 1\<rparr> \<and> zs_topo st' = [example_info]"
  using heartbeat_newer [of example_known "[7 \<mapsto> NewPartitionByMeta (zero_Partition\<lparr>pt_ID := 7\<rparr>)]" example_info
      "NewPartitionByMeta (zero_Partition\<lparr>pt_ID := 7\<rparr>)" "\<lparr>rs_Replica = example_replica, rs_Term = 1, Followers = []\<rparr>"]
  by (simp add: zero_Partition_def zero_Epoch_def)

text \<open>
  A report that is older than what the master knows changes no replica group: the partition
  keeps everything but its task flag, and the topology service is not written.
\<close>

theorem heartbeat_stale:
  assumes "zs_PartitionCache st = Some c" "c (pi_ID info) = Some p"
    and "ConfVersion (pi_Epoch info) < ConfVersion (Epoch p)" "pickReplicaToDelete info \<noteq> Panic"
  shows "\<exists>st' q. hb_partition now a info st = Ok st' \<and> zs_PartitionCache st' = Some (c(pi_ID info \<mapsto> q)) \<and>
    only_task p q \<and> zs_topo st' = zs_topo st"
proof -
  obtain r where pick: "pickReplicaToDelete info = Ok r"
    using assms(4) by (cases "pickReplicaToDelete info") (auto simp: pickReplicaToDelete_def split: option.splits list.splits if_splits)
  have "hb_partition now a info st = take_and_delete now info pickLeaderNodeId p st"
    using assms(1-3) by (simp add: hb_partition_def FindPartitionById_def)
  then show ?thesis using take_and_delete_keeps [OF pick assms(1)] by simp
qed

text \<open>
  The reports a handler survives: a leader's has a raft status, and another's has none or has a
  follower.
\<close>

definition report_ok :: "PartitionInfo \<Rightarrow> bool" where
  "report_ok info = (case pi_RaftStatus info of None \<Rightarrow> \<not> IsLeader info
     | Some rs \<Rightarrow> IsLeader info \<or> Followers rs \<noteq> [])"

lemma report_ok_picks:
  assumes "report_ok info"
  shows "\<exists>r. pickReplicaToDelete info = Ok r" "\<exists>l. pickLeaderReplica info = Ok l"
proof -
  show "\<exists>r. pickReplicaToDelete info = Ok r"
    using assms by (auto simp: report_ok_def pickReplicaToDelete_def split: option.splits list.splits)
  show "\<exists>l. pickLeaderReplica info = Ok l"
    using assms by (auto simp: report_ok_def pickLeaderReplica_def split: option.splits)
qed

lemma force_update_total:
  assumes "report_ok info" "IsLeader info" "zs_PartitionCache st = Some c"
  shows "\<exists>st'. force_update now info l p st = Ok st'"
proof -
  obtain rs where rs: "pi_RaftStatus info = Some rs" using assms(1,2) by (auto simp: report_ok_def split: option.splits)
  obtain p' w e u where upd: "UpdateReplicaGroupByCond p info l now = (Ok (p', w, e, u) :: (zm_err, _) result)"
    using rs by (cases "UpdateReplicaGroupByCond p info l now :: (zm_err, _) result")
      (auto simp: UpdateReplicaGroupByCond_def split: if_splits)
  let ?st = "(store_partition (pi_ID info) p' st)\<lparr>zs_topo := zs_topo st @ w\<rparr>"
  have "zs_PartitionCache ?st = Some (c(pi_ID info \<mapsto> p'))" using assms(3) by (simp add: store_partition_def)
  then obtain st' where "check_replica_count now info p' ?st = Ok st'"
    using check_replica_count_keeps [of info] report_ok_picks(1) [OF assms(1)] by (metis fun_upd_same)
  then show ?thesis by (auto simp: force_update_def upd Let_def)
qed

lemma hb_same_version_total:
  assumes "report_ok info" "IsLeader info" "zs_PartitionCache st = Some c"
  shows "\<exists>st'. hb_same_version now info l p st = Ok st'"
proof -
  obtain q e il u where val: "ValidateAndUpdateLeaderByCond p info l now = (q, e, il, u)"
    by (cases "ValidateAndUpdateLeaderByCond p info l now")
  obtain r where pick: "pickReplicaToDelete info = Ok r" using report_ok_picks(1) [OF assms(1)] by blast
  let ?st = "store_partition (pi_ID info) q st"
  have st: "zs_PartitionCache ?st = Some (c(pi_ID info \<mapsto> q))" using assms(3) by (simp add: store_partition_def)
  have "\<exists>st'. take_and_delete now info (\<lambda>_. rep_NodeID l) q ?st = Ok st'"
    using take_and_delete_keeps [OF pick st] by blast
  moreover have "\<exists>st'. force_update now info l q ?st = Ok st'"
    using force_update_total [OF assms(1,2) st] by simp
  moreover have "\<exists>st'. check_replica_count now info q ?st = Ok st'"
    using check_replica_count_keeps [OF pick st] by (metis fun_upd_same)
  ultimately show ?thesis by (simp add: hb_same_version_def val Let_def)
qed

lemma hb_partition_total:
  assumes "report_ok info" "zs_PartitionCache st = Some c"
  shows "\<exists>st'. hb_partition now a info st = Ok st'"
proof (cases "c (pi_ID info)")
  case None
  obtain r where "pickReplicaToDelete info = Ok r" using report_ok_picks(1) [OF assms(1)] by blast
  then show ?thesis using None assms(2) by (cases r) (auto simp: hb_partition_def FindPartitionById_def)
next
  case (Some p)
  obtain r l where pick: "pickReplicaToDelete info = Ok r" "pickLeaderReplica info = Ok l"
    using report_ok_picks [OF assms(1)] by blast
  have leader: "IsLeader info" if "l \<noteq> None" using pick(2) that by (auto simp: pickLeaderReplica_def split: if_splits)
  have "\<exists>st'. take_and_delete now info pickLeaderNodeId p st = Ok st'"
    using take_and_delete_keeps [OF pick(1) assms(2)] by blast
  then show ?thesis
    using Some assms pick leader force_update_total [OF assms(1) _ assms(2)] hb_same_version_total [OF assms(1) _ assms(2)]
    by (cases l) (auto simp: hb_partition_def FindPartitionById_def Let_def)
qed

lemma hb_loop_total:
  "\<forall>info\<in>set infos. report_ok info \<Longrightarrow> zs_PartitionCache st = Some c \<Longrightarrow> \<exists>st'. hb_loop now a infos st = Ok st'"
proof (induction infos arbitrary: st c)
  case (Cons info infos)
  obtain st1 where st1: "hb_partition now a info st = Ok st1" using hb_partition_total Cons.prems by fastforce
  then obtain c1 where "zs_PartitionCache st1 = Some c1"
    using hb_partition_step [OF st1] Cons.prems(2) unfolding hb_step_def by (metis rel_option_iff option.exhaust option.rel_distinct(2))
  then show ?case using Cons.IH [of st1 c1] Cons.prems(1) st1 by simp
qed simp

lemma PSHeartbeat_total:
  assumes "\<forall>info\<in>set infos. report_ok info" "zs_PartitionCache st = Some c"
  shows "\<exists>code st'. PSHeartbeat now psId infos st = Ok (code, st')"
proof (cases "FindServerById (zs_PsCache st) psId")
  case (Some ps)
  then show ?thesis
    using hb_loop_total [OF assms(1), of "st\<lparr>zs_PsCache := (zs_PsCache st)(psId \<mapsto> updateHb ps now)\<rparr>" c now "getRpcAddr ps"] assms(2)
    by (auto simp: PSHeartbeat_def Let_def)
qed (simp add: PSHeartbeat_def)

text \<open>
  A partition server that registers again after a reboot keeps whatever status it had: the
  status \<^verbatim>\<open>PS_REGISTERED\<close> is refused by \<^verbatim>\<open>changeStatus\<close>.
\<close>

lemma changeStatus_registered: "changeStatus ps PS_REGISTERED = ps"
  by (simp add: changeStatus_def)

text \<open>No step of a run puts a partition into the cache of a server, so what a server registered with stays.\<close>

definition no_partitions :: "NodeID \<Rightarrow> zm_state \<Rightarrow> bool" where
  "no_partitions i st = (\<exists>ps. zs_PsCache st i = Some ps \<and> nd_ID (ps_Node ps) = i \<and>
     ps_partitionCache ps = Map.empty)"

lemma store_PsCache [simp]: "zs_PsCache (store_partition i p st) = zs_PsCache st"
  by (simp add: store_partition_def)

lemma take_and_delete_PsCache: "take_and_delete now info f p st = Ok st' \<Longrightarrow> zs_PsCache st' = zs_PsCache st"
  by (auto simp: take_and_delete_def Let_def result_bind_Ok_iff split: prod.splits if_splits option.splits)

lemma check_PsCache: "check_replica_count now info p st = Ok st' \<Longrightarrow> zs_PsCache st' = zs_PsCache st"
  by (auto simp: check_replica_count_def Let_def dest: take_and_delete_PsCache split: prod.splits if_splits)

lemma force_update_PsCache: "force_update now info l p st = Ok st' \<Longrightarrow> zs_PsCache st' = zs_PsCache st"
  by (auto simp: force_update_def Let_def result_bind_Ok_iff dest!: check_PsCache split: if_splits)

lemma hb_same_version_PsCache: "hb_same_version now info l p st = Ok st' \<Longrightarrow> zs_PsCache st' = zs_PsCache st"
  by (cases "ValidateAndUpdateLeaderByCond p info l now")
    (auto simp: hb_same_version_def Let_def dest!: take_and_delete_PsCache check_PsCache force_update_PsCache split: if_splits)

lemma hb_partition_PsCache: "hb_partition now a info st = Ok st' \<Longrightarrow> zs_PsCache st' = zs_PsCache st"
  by (auto simp: hb_partition_def Let_def result_bind_Ok_iff
      dest!: take_and_delete_PsCache force_update_PsCache hb_same_version_PsCache split: option.splits if_splits)

lemma hb_loop_PsCache: "hb_loop now a infos st = Ok st' \<Longrightarrow> zs_PsCache st' = zs_PsCache st"
proof (induction infos arbitrary: st)
  case (Cons info infos)
  then obtain st1 where "hb_partition now a info st = Ok st1" "hb_loop now a infos st1 = Ok st'"
    by (auto simp: result_bind_Ok_iff)
  then show ?case using hb_partition_PsCache Cons.IH by metis
qed simp

lemma no_partitions_step:
  assumes "zm_step st st'" "no_partitions i st"
  shows "no_partitions i st'"
  using assms(1)
proof cases
  case (heartbeat now psId infos code)
  then have "st' = st \<or> (\<exists>ps. FindServerById (zs_PsCache st) psId = Some ps \<and>
      zs_PsCache st' = (zs_PsCache st)(psId \<mapsto> updateHb ps now))"
    by (auto simp: PSHeartbeat_def Let_def result_bind_Ok_iff dest!: hb_loop_PsCache split: if_splits option.splits)
  then show ?thesis using assms(2)
    by (auto simp: no_partitions_def updateHb_def FindServerById_def split: if_splits)
next
  case (register now gen addrs port nodeId ip resp)
  then show ?thesis using assms(2)
    by (auto simp: PSRegister_def Let_def no_partitions_def AddServer_def NewPartitionServer_def
        NewPartitionServerByMeta_def NewPartitionCache_def FindServerById_def changeStatus_registered
        split: if_splits option.splits result.splits)
next
  case process
  then show ?thesis using assms(2) by (simp add: no_partitions_def)
qed

lemma no_partitions_run: "zm_step\<^sup>*\<^sup>* st st' \<Longrightarrow> no_partitions i st \<Longrightarrow> no_partitions i st'"
  by (induction rule: rtranclp_induct) (auto intro: no_partitions_step)

text \<open>
  A server that got its identifier from this master is told on every later registration that it
  has no partitions, whatever it reported in its heartbeats.
\<close>

theorem reregister_empty:
  assumes "PSRegister now gen addrs port 0 ip st = Ok ((code, n, parts), st1)" "code = RESP_CODE_OK" "n \<noteq> 0"
    and "zm_step\<^sup>*\<^sup>* st1 st2" "MineIsLeader st2"
  shows "\<exists>st3. PSRegister now' gen' addrs' port' n ip' st2 = Ok ((RESP_CODE_OK, n, {}), st3)"
proof -
  have codes: "RESP_CODE_OK \<noteq> MASTER_RESP_CODE_NOT_LEADER" "RESP_CODE_OK \<noteq> makeRpcRespHeader ErrGenIdFailed"
    "makeRpcRespHeader ErrSuc = RESP_CODE_OK"
    by (simp_all add: makeRpcRespHeader_def Err2RpcCodeMap_def RESP_CODE_OK_def MASTER_RESP_CODE_NOT_LEADER_def RESP_CODE_SERVER_ERROR_def)
  have "no_partitions n st1"
    using assms(1-3) codes
    by (auto simp: PSRegister_def Let_def no_partitions_def AddServer_def NewPartitionServer_def
        NewPartitionServerByMeta_def NewPartitionCache_def split: if_splits result.splits)
  then have "no_partitions n st2" using no_partitions_run [OF assms(4)] by blast
  then obtain ps where ps: "zs_PsCache st2 n = Some ps" "nd_ID (ps_Node ps) = n" "ps_partitionCache ps = Map.empty"
    by (auto simp: no_partitions_def)
  then show ?thesis using assms(3,5) codes
    by (auto simp: PSRegister_def FindServerById_def changeStatus_registered GetAllMetaPartitions_def Let_def)
qed

abbreviation example_server :: PartitionServer where
  "example_server \<equiv> \<lparr>ps_Node = \<lparr>nd_ID = 5, nd_Ip = ''ip'', nd_Zone = [], nd_Addrs = []\<rparr>, ps_adminPort = 1,
     ps_status = PS_REGISTERED, ps_lastHeartbeat = 9, ps_partitionCache = Map.empty\<rparr>"

theorem reregister_empty_witness:
  "\<exists>st3. PSRegister 20 Panic (\<lambda>_. []) 1 5 ''ip'' (example_state\<lparr>zs_PsCache := [5 \<mapsto> example_server]\<rparr>) =
     Ok ((RESP_CODE_OK, 5, {}), st3)"
proof -
  have "PSRegister 9 (Ok 5) (\<lambda>_. []) 1 0 ''ip'' example_state =
      Ok ((RESP_CODE_OK, 5, {}), example_state\<lparr>zs_PsCache := [5 \<mapsto> example_server]\<rparr>)"
    by (simp add: PSRegister_def NewPartitionServer_def NewPartitionServerByMeta_def NewPartitionCache_def AddServer_def
        makeRpcRespHeader_def Err2RpcCodeMap_def)
  then show ?thesis by (rule reregister_empty) simp_all
qed

text \<open>
  The response codes: the code of a missing space is that of a missing route, and a missing
  route is reported as a server error.
\<close>

lemma resp_code_space: "makeRpcRespHeader ErrSpaceNotExists = MASTER_RESP_CODE_ROUTE_NOTEXISTS"
  by (simp add: makeRpcRespHeader_def Err2RpcCodeMap_def)

lemma resp_code_route: "makeRpcRespHeader ErrRouteNotFound = RESP_CODE_SERVER_ERROR"
  by (simp add: makeRpcRespHeader_def Err2RpcCodeMap_def)

end
