(* ===== verification/Ps_Server.thy ===== *)
theory Ps_Server
  imports Zm_Server
begin

text \<open>
  A partition server (\<^verbatim>\<open>ps/server\<close>): its partitions as raft state machines (\<^verbatim>\<open>partition.go\<close>,
  \<^verbatim>\<open>partition_raft.go\<close>), the reference counted addresses of the nodes it replicates with (\<^verbatim>\<open>resolver.go\<close>), and the
  administrative requests that create and delete partitions (\<^verbatim>\<open>server_admin.go\<close>).  The raft
  library and the store engine are outside: their answers are arguments.
\<close>

section \<open>Node addresses\<close>

text \<open>\<^verbatim>\<open>nodeRef\<close>: the heartbeat and the replication address, the first two of a replica's addresses, and a count.\<close>

record nodeRef =
  refCount :: int
  ref_addrs :: "string list"

type_synonym NodeResolver = "NodeID \<rightharpoonup> nodeRef"

definition addNode :: "NodeID \<Rightarrow> string list \<Rightarrow> NodeResolver \<Rightarrow> NodeResolver" where
  "addNode i addrs r =
     (if i = 0 then r
      else case r i of
        None \<Rightarrow> r(i \<mapsto> \<lparr>refCount = 0 + 1, ref_addrs = addrs\<rparr>)
      | Some obj \<Rightarrow> r(i \<mapsto> obj\<lparr>refCount := refCount obj + 1\<rparr>))"

definition deleteNode :: "NodeID \<Rightarrow> NodeResolver \<Rightarrow> NodeResolver" where
  "deleteNode i r =
     (case r i of
        None \<Rightarrow> r
      | Some obj \<Rightarrow>
          let count = refCount obj - 1
          in if count \<le> 0 then r(i := None) else r(i \<mapsto> obj\<lparr>refCount := count\<rparr>))"

definition getNode :: "NodeID \<Rightarrow> NodeResolver \<Rightarrow> nodeRef option" where
  "getNode i r = r i"

section \<open>Partitions\<close>

record ps_partition =
  psp_leader :: u64
  psp_leaderAddr :: string
  psp_meta :: meta_Partition
  psp_closed :: bool

definition newPartition :: "meta_Partition \<Rightarrow> ps_partition" where
  "newPartition meta = \<lparr>psp_leader = 0, psp_leaderAddr = [],
     psp_meta = meta\<lparr>pt_Status := PA_NOTREAD\<rparr>, psp_closed = False\<rparr>"

definition set_status :: "PartitionStatus \<Rightarrow> ps_partition \<Rightarrow> ps_partition" where
  "set_status s p = p\<lparr>psp_meta := (psp_meta p)\<lparr>pt_Status := s\<rparr>\<rparr>"

text \<open>
  \<^verbatim>\<open>start\<close>: its five steps and whether each succeeds.  The statement that creates the raft group tests
  the error of the step before it, so a failure there goes unnoticed.
\<close>

record start_env =
  paths_ok :: bool
  engine_ok :: bool
  applyID_ok :: bool
  wal_ok :: bool
  CreateRaft_ok :: bool

definition partition_start :: "start_env \<Rightarrow> ps_partition \<Rightarrow> ps_partition" where
  "partition_start env p =
     (if \<not> paths_ok env then set_status PA_INVALID p
      else if \<not> engine_ok env then set_status PA_INVALID p
      else if \<not> applyID_ok env then set_status PA_INVALID p
      else if \<not> wal_ok env then set_status PA_INVALID p
      else let err = \<not> wal_ok env
           in if err then set_status PA_INVALID p else set_status PA_READONLY p)"

text \<open>\<^verbatim>\<open>Close\<close> runs once; it also stops the raft group of the partition's identifier.\<close>

definition partition_Close :: "ps_partition \<Rightarrow> ps_partition" where
  "partition_Close p = (if psp_closed p then p else (set_status PA_INVALID p)\<lparr>psp_closed := True\<rparr>)"

text \<open>
  \<^verbatim>\<open>getPartitionInfo\<close>: \<open>term\<close> and \<open>known\<close> are of the raft library's status of the group, the latter the nodes
  it has a replica status for.
\<close>

definition zero_Replica :: Replica where
  "zero_Replica = \<lparr>rep_ID = 0, rep_NodeID = 0, rep_Addrs = [], rep_Zone = []\<rparr>"

fun raft_replicas :: "NodeID \<Rightarrow> u64 \<Rightarrow> (NodeID \<Rightarrow> bool) \<Rightarrow> Replica list \<Rightarrow> RaftStatus \<Rightarrow> RaftStatus" where
  "raft_replicas node trm known [] rs = rs"
| "raft_replicas node trm known (r # replicas) rs =
     raft_replicas node trm known replicas
       (if rep_NodeID r = node then rs\<lparr>rs_Replica := r, rs_Term := trm\<rparr>
        else if known (rep_NodeID r) then rs\<lparr>Followers := Followers rs @ [r]\<rparr>
        else rs)"

definition getPartitionInfo :: "NodeID \<Rightarrow> u64 \<Rightarrow> (NodeID \<Rightarrow> bool) \<Rightarrow> ps_partition \<Rightarrow> PartitionInfo" where
  "getPartitionInfo node trm known p =
     (let leader = (psp_leader p = ucast node)
      in \<lparr>pi_ID = pt_ID (psp_meta p), IsLeader = leader, pi_Status = pt_Status (psp_meta p),
          pi_Epoch = Epoch (psp_meta p),
          pi_RaftStatus = (if leader
            then Some (raft_replicas node trm known (Replicas (psp_meta p))
                   \<lparr>rs_Replica = zero_Replica, rs_Term = 0, Followers = []\<rparr>)
            else None)\<rparr>)"

datatype ps_err = PartitionNotFound PartitionID | NoLeader PartitionID
  | NotLeader PartitionID NodeID string PartitionEpoch | TimeoutError | ServerError | OtherError

definition checkReadable :: "NodeID \<Rightarrow> bool \<Rightarrow> ps_partition \<Rightarrow> ps_err option" where
  "checkReadable node readLeader p =
     (if pt_Status (psp_meta p) = PA_INVALID \<or> pt_Status (psp_meta p) = PA_NOTREAD
      then Some (PartitionNotFound (pt_ID (psp_meta p)))
      else if psp_leader p = 0 then Some (NoLeader (pt_ID (psp_meta p)))
      else if readLeader \<and> psp_leader p \<noteq> ucast node
      then Some (NotLeader (pt_ID (psp_meta p)) (ucast (psp_leader p)) (psp_leaderAddr p) (Epoch (psp_meta p)))
      else None)"

section \<open>The raft state machine\<close>

text \<open>
  \<^verbatim>\<open>HandleLeaderChange\<close>: \<open>trm\<close> is the group's term.  It also triggers a heartbeat when this node leads;
  the answer is whether it does.  The RPC address is the third of a replica's addresses.
\<close>

fun leader_addr :: "u64 \<Rightarrow> Replica list \<Rightarrow> string" where
  "leader_addr l [] = []"
| "leader_addr l (r # rs) =
     (if ucast (rep_NodeID r) = l then (case rep_Addrs r of _ # _ # rpc # _ \<Rightarrow> rpc | _ \<Rightarrow> []) else leader_addr l rs)"

definition HandleLeaderChange :: "NodeID \<Rightarrow> u64 \<Rightarrow> u64 \<Rightarrow> ps_partition \<Rightarrow> ps_partition \<times> bool" where
  "HandleLeaderChange node trm leader p =
     (if psp_leader p = leader then (p, False)
      else
        let m = psp_meta p;
            addr = leader_addr leader (Replicas m);
            ep = (if Version (Epoch m) < trm then (Epoch m)\<lparr>Version := trm\<rparr> else Epoch m);
            mine = (leader = ucast node)
        in (p\<lparr>psp_leader := leader, psp_leaderAddr := addr,
              psp_meta := m\<lparr>Epoch := ep, pt_Status := if mine then PA_READWRITE else PA_READONLY\<rparr>\<rparr>, mine))"

datatype ConfChangeType = ConfAddNode | ConfRemoveNode | ConfOther

definition bump_conf :: "PartitionEpoch \<Rightarrow> PartitionEpoch" where
  "bump_conf e = e\<lparr>ConfVersion := ConfVersion e + 1\<rparr>"

text \<open>
  \<^verbatim>\<open>ApplyMemberChange\<close>: \<open>peer\<close> is \<^verbatim>\<open>confChange.Peer.ID\<close>, \<open>replica\<close> the replica in its context.  Removing from a
  group without replicas asks for a slice of negative capacity, a panic.
\<close>

definition ApplyMemberChange :: "ConfChangeType \<Rightarrow> u64 \<Rightarrow> Replica \<Rightarrow> ps_partition \<times> NodeResolver
    \<Rightarrow> (ps_err, ps_partition \<times> NodeResolver) result" where
  "ApplyMemberChange ty peer replica s =
     (case s of (p, res) \<Rightarrow>
      let m = psp_meta p in
      case ty of
        ConfAddNode \<Rightarrow>
          if \<exists>r\<in>set (Replicas m). peer = ucast (rep_NodeID r) then Ok (p, res)
          else Ok (p\<lparr>psp_meta := m\<lparr>Epoch := bump_conf (Epoch m), Replicas := Replicas m @ [replica]\<rparr>\<rparr>,
                   addNode (rep_NodeID replica) (rep_Addrs replica) res)
      | ConfRemoveNode \<Rightarrow>
          if Replicas m = [] then Panic
          else Ok (p\<lparr>psp_meta := m\<lparr>Epoch := bump_conf (Epoch m),
                      Replicas := filter (\<lambda>r. rep_ID r \<noteq> rep_ID replica) (Replicas m)\<rparr>\<rparr>,
                   deleteNode (rep_NodeID replica) res)
      | ConfOther \<Rightarrow> Ok (p, res))"

definition HandleFatalEvent :: "ps_partition \<Rightarrow> ps_partition" where
  "HandleFatalEvent p = partition_Close p"

section \<open>Administrative requests\<close>

text \<open>
  The server's partitions and resolver, the identifiers whose raft group runs, the partitions with
  data on disk (\<^verbatim>\<open>serverMeta\<close>), the admin event channel, and whether it is stopping.
\<close>

datatype admin_event = CreateReq meta_Partition | DeleteReq PartitionID

record ps_server =
  sv_partitions :: "PartitionID \<rightharpoonup> ps_partition"
  sv_resolver :: NodeResolver
  sv_raft :: "PartitionID set"
  sv_disk :: "PartitionID set"
  sv_stopping :: bool

definition add_replicas :: "Replica list \<Rightarrow> NodeResolver \<Rightarrow> NodeResolver" where
  "add_replicas rs res = fold (\<lambda>r. addNode (rep_NodeID r) (rep_Addrs r)) rs res"

definition delete_replicas :: "Replica list \<Rightarrow> NodeResolver \<Rightarrow> NodeResolver" where
  "delete_replicas rs res = fold (\<lambda>r. deleteNode (rep_NodeID r)) rs res"

text \<open>\<^verbatim>\<open>doPartitionCreate\<close>: \<open>env\<close> says how far the start gets; the raft group runs when it was created.\<close>

definition doPartitionCreate :: "start_env \<Rightarrow> meta_Partition \<Rightarrow> ps_server \<Rightarrow> ps_server" where
  "doPartitionCreate env m s =
     (case sv_partitions s (pt_ID m) of
        Some _ \<Rightarrow> s\<lparr>sv_raft := sv_raft s - {pt_ID m}\<rparr>
      | None \<Rightarrow>
          s\<lparr>sv_partitions := (sv_partitions s)(pt_ID m \<mapsto> partition_start env (newPartition m)),
            sv_resolver := add_replicas (Replicas m) (sv_resolver s),
            sv_disk := (if paths_ok env then insert (pt_ID m) (sv_disk s) else sv_disk s),
            sv_raft := (if paths_ok env \<and> engine_ok env \<and> applyID_ok env \<and> wal_ok env \<and> CreateRaft_ok env
                        then insert (pt_ID m) (sv_raft s) else sv_raft s)\<rparr>)"

definition doPartitionDelete :: "PartitionID \<Rightarrow> ps_server \<Rightarrow> ps_server" where
  "doPartitionDelete i s =
     (let s' = (case sv_partitions s i of
          None \<Rightarrow> s
        | Some p \<Rightarrow>
            s\<lparr>sv_partitions := (sv_partitions s)(i := None), sv_raft := sv_raft s - {i},
              sv_resolver := delete_replicas (Replicas (psp_meta p)) (sv_resolver s)\<rparr>)
      in s'\<lparr>sv_disk := sv_disk s' - {i}\<rparr>)"

definition doAdminEvent :: "start_env \<Rightarrow> admin_event \<Rightarrow> ps_server \<Rightarrow> ps_server" where
  "doAdminEvent env ev s =
     (if sv_stopping s then s
      else case ev of
        CreateReq m \<Rightarrow>
          (case sv_partitions s (pt_ID m) of
             None \<Rightarrow> doPartitionCreate env m s
           | Some p \<Rightarrow>
               if pt_Status (psp_meta p) \<noteq> PA_INVALID then s
               else doPartitionCreate env m
                      (s\<lparr>sv_partitions := (sv_partitions s)(pt_ID m := None),
                         sv_raft := (if psp_closed p then sv_raft s else sv_raft s - {pt_ID m})\<rparr>))
      | DeleteReq i \<Rightarrow> doPartitionDelete i s)"

text \<open>
  After registration (\<^verbatim>\<open>doStart\<close>): without partitions in the answer everything on disk is removed,
  otherwise what is not in the answer.
\<close>

definition destroyExcludePartition :: "meta_Partition set \<Rightarrow> PartitionID set \<Rightarrow> PartitionID set" where
  "destroyExcludePartition ps ids = ids - {i \<in> ids. \<not> (\<exists>p\<in>ps. pt_ID p = i)}"

definition clear_old :: "meta_Partition set \<Rightarrow> PartitionID set \<Rightarrow> PartitionID set" where
  "clear_old initPartitions disk =
     (if initPartitions = {} then {} else destroyExcludePartition initPartitions disk)"

section \<open>Reference counts\<close>

definition ref_count :: "NodeResolver \<Rightarrow> NodeID \<Rightarrow> int" where
  "ref_count r i = (case r i of None \<Rightarrow> 0 | Some obj \<Rightarrow> refCount obj)"

definition counts_ok :: "NodeResolver \<Rightarrow> bool" where
  "counts_ok r = (\<forall>i obj. r i = Some obj \<longrightarrow> 0 < refCount obj)"

abbreviation occurrences :: "NodeID \<Rightarrow> Replica list \<Rightarrow> int" where
  "occurrences n rs \<equiv> int (length (filter (\<lambda>r. rep_NodeID r = n) rs))"

lemma ref_count_nonneg: "counts_ok r \<Longrightarrow> 0 \<le> ref_count r i"
  by (auto simp: ref_count_def counts_ok_def less_imp_le split: option.split)

lemma addNode_count:
  "counts_ok r \<Longrightarrow> counts_ok (addNode i a r)"
  "n \<noteq> 0 \<Longrightarrow> ref_count (addNode i a r) n = ref_count r n + (if i = n then 1 else 0)"
  by (auto simp: addNode_def counts_ok_def ref_count_def split: option.splits) (metis less_imp_le)

lemma deleteNode_count:
  "counts_ok r \<Longrightarrow> counts_ok (deleteNode i r)"
  "counts_ok r \<Longrightarrow> ref_count (deleteNode i r) n =
     (if i = n \<and> 0 < ref_count r n then ref_count r n - 1 else ref_count r n)"
  by (auto simp: deleteNode_def counts_ok_def ref_count_def Let_def split: option.splits) force+

lemma add_replicas_count:
  assumes "counts_ok r"
  shows "counts_ok (add_replicas rs r) \<and> (n \<noteq> 0 \<longrightarrow> ref_count (add_replicas rs r) n = ref_count r n + occurrences n rs)"
  using assms
proof (induction rs arbitrary: r)
  case (Cons a rs)
  show ?case using Cons.IH [OF addNode_count(1) [OF Cons.prems]] addNode_count(2)
    by (auto simp: add_replicas_def)
qed (simp add: add_replicas_def)

lemma delete_replicas_count:
  assumes "counts_ok r" "occurrences n rs \<le> ref_count r n"
  shows "ref_count (delete_replicas rs r) n = ref_count r n - occurrences n rs"
  using assms
proof (induction rs arbitrary: r)
  case (Cons a rs)
  have "occurrences n rs \<le> ref_count (deleteNode (rep_NodeID a) r) n"
    using Cons.prems deleteNode_count(2) [OF Cons.prems(1), of "rep_NodeID a" n]
    by (cases "rep_NodeID a = n") auto
  then show ?case
    using Cons.IH [OF deleteNode_count(1) [OF Cons.prems(1)]] Cons.prems deleteNode_count(2) [OF Cons.prems(1), of "rep_NodeID a" n]
    by (cases "rep_NodeID a = n") (auto simp: delete_replicas_def)
qed (simp add: delete_replicas_def)

lemma delete_replicas_ok: "counts_ok r \<Longrightarrow> counts_ok (delete_replicas rs r)"
  by (induction rs arbitrary: r) (simp_all add: delete_replicas_def deleteNode_count)

text \<open>
  The invariant: the count of every node is the number of replicas on it, over all the
  partitions of the server.
\<close>

definition node_replicas :: "(PartitionID \<rightharpoonup> ps_partition) \<Rightarrow> NodeID \<Rightarrow> int" where
  "node_replicas ps n = (\<Sum>i\<in>dom ps. occurrences n (Replicas (psp_meta (the (ps i)))))"

definition resolver_ok :: "ps_server \<Rightarrow> bool" where
  "resolver_ok s = (finite (dom (sv_partitions s)) \<and> counts_ok (sv_resolver s) \<and>
     (\<forall>n. n \<noteq> 0 \<longrightarrow> ref_count (sv_resolver s) n = node_replicas (sv_partitions s) n))"

lemma node_replicas_add:
  assumes "finite (dom ps)" "ps i = None"
  shows "node_replicas (ps(i \<mapsto> p)) n = node_replicas ps n + occurrences n (Replicas (psp_meta p))"
proof -
  have "(\<Sum>j\<in>dom ps. occurrences n (Replicas (psp_meta (the ((ps(i \<mapsto> p)) j))))) = node_replicas ps n"
    unfolding node_replicas_def using assms(2) by (intro sum.cong) auto
  then show ?thesis using assms by (simp add: node_replicas_def domIff)
qed

lemma node_replicas_delete:
  assumes "finite (dom ps)" "ps i = Some p"
  shows "node_replicas (ps(i := None)) n = node_replicas ps n - occurrences n (Replicas (psp_meta p))"
proof -
  have eq: "(ps(i := None))(i \<mapsto> p) = ps" using assms(2) by auto
  have "finite (dom (ps(i := None)))" "(ps(i := None)) i = None" using assms(1) by simp_all
  then have "node_replicas ((ps(i := None))(i \<mapsto> p)) n =
      node_replicas (ps(i := None)) n + occurrences n (Replicas (psp_meta p))"
    by (rule node_replicas_add)
  then show ?thesis unfolding eq by linarith
qed

lemma start_meta [simp]:
  "Replicas (psp_meta (partition_start env (newPartition m))) = Replicas m"
  by (simp add: partition_start_def set_status_def newPartition_def Let_def)

lemma create_resolver_ok:
  assumes "resolver_ok s"
  shows "resolver_ok (doPartitionCreate env m s)"
proof (cases "sv_partitions s (pt_ID m)")
  case None
  then show ?thesis using assms add_replicas_count [of "sv_resolver s"] node_replicas_add [of "sv_partitions s"]
    by (simp add: resolver_ok_def doPartitionCreate_def)
qed (use assms in \<open>simp add: resolver_ok_def doPartitionCreate_def\<close>)

lemma delete_resolver_ok:
  assumes "resolver_ok s"
  shows "resolver_ok (doPartitionDelete i s)"
proof (cases "sv_partitions s i")
  case (Some p)
  have fin: "finite (dom (sv_partitions s))" and ok: "counts_ok (sv_resolver s)" using assms by (simp_all add: resolver_ok_def)
  have "occurrences n (Replicas (psp_meta p)) \<le> ref_count (sv_resolver s) n" if "n \<noteq> 0" for n
  proof -
    have "0 \<le> node_replicas ((sv_partitions s)(i := None)) n" unfolding node_replicas_def by (intro sum_nonneg) simp
    then show ?thesis using node_replicas_delete [OF fin Some] assms that by (simp add: resolver_ok_def)
  qed
  then have "\<forall>n. n \<noteq> 0 \<longrightarrow> ref_count (delete_replicas (Replicas (psp_meta p)) (sv_resolver s)) n =
      node_replicas ((sv_partitions s)(i := None)) n"
    using delete_replicas_count [OF ok] node_replicas_delete [OF fin Some] assms by (simp add: resolver_ok_def)
  then show ?thesis using Some fin delete_replicas_ok [OF ok]
    by (simp add: resolver_ok_def doPartitionDelete_def)
qed (use assms in \<open>simp add: resolver_ok_def doPartitionDelete_def\<close>)

section \<open>Properties\<close>

text \<open>
  The addresses of the nodes are counted right: any administrative request that does not replace
  an invalid partition keeps, for every node, the count equal to the number of replicas
  on that node in the server's partitions.
\<close>

theorem admin_resolver_ok:
  assumes "resolver_ok s"
    and "\<And>m p. ev = CreateReq m \<Longrightarrow> sv_partitions s (pt_ID m) = Some p \<Longrightarrow> pt_Status (psp_meta p) \<noteq> PA_INVALID"
  shows "resolver_ok (doAdminEvent env ev s)"
proof (cases ev)
  case (CreateReq m)
  then show ?thesis using assms create_resolver_ok [OF assms(1)]
    by (cases "sv_partitions s (pt_ID m)") (auto simp: doAdminEvent_def)
next
  case (DeleteReq i)
  then show ?thesis using assms(1) delete_resolver_ok [OF assms(1)] by (simp add: doAdminEvent_def)
qed

abbreviation idle_server :: ps_server where
  "idle_server \<equiv> \<lparr>sv_partitions = Map.empty, sv_resolver = Map.empty, sv_raft = {}, sv_disk = {}, sv_stopping = False\<rparr>"

abbreviation all_ok :: start_env where
  "all_ok \<equiv> \<lparr>paths_ok = True, engine_ok = True, applyID_ok = True, wal_ok = True, CreateRaft_ok = True\<rparr>"

theorem admin_resolver_ok_witness:
  "resolver_ok (doAdminEvent all_ok (CreateReq (zero_Partition\<lparr>Replicas := [example_replica]\<rparr>)) idle_server)"
  by (rule admin_resolver_ok) (simp_all add: resolver_ok_def counts_ok_def ref_count_def node_replicas_def)

text \<open>The report of a partition has a raft status exactly when this node leads it.\<close>

lemma getPartitionInfo_ok: "report_ok (getPartitionInfo node trm known p)"
  by (simp add: getPartitionInfo_def report_ok_def Let_def)



text \<open>
  A master as \<^verbatim>\<open>NewCluster\<close> makes it has no partition cache, and panics on the first partition that
  is reported to it.
\<close>

lemma heartbeat_no_cache:
  assumes "MineIsLeader st" "zs_PsCache st psId = Some ps" "psId \<noteq> 0" "zs_PartitionCache st = None"
  shows "PSHeartbeat now psId (info # infos) st = Panic"
  using assms by (simp add: PSHeartbeat_def FindServerById_def Let_def hb_partition_def)

text \<open>
  A server that got its identifier from a master loses its data when it restarts: the
  registration succeeds, the answer has no partitions, and the server then removes everything it has on
  disk, whatever happened in between and whatever it reported.
\<close>

theorem restart_wipes_disk:
  assumes "PSRegister now gen addrs port 0 ip st = Ok ((RESP_CODE_OK, n, parts), st1)" "n \<noteq> 0"
    and "zm_step\<^sup>*\<^sup>* st1 st2" "MineIsLeader st2"
  shows "\<exists>st3 initPartitions. PSRegister now' gen' addrs' port' n ip' st2 = Ok ((RESP_CODE_OK, n, initPartitions), st3) \<and>
    clear_old initPartitions disk = {}"
proof -
  have "clear_old {} disk = {}" by (simp add: clear_old_def)
  then show ?thesis using reregister_empty [OF assms(1) refl assms(2-4), of now' gen' addrs' port' ip'] by blast
qed

theorem restart_wipes_disk_witness:
  "\<exists>st3 initPartitions. PSRegister 20 Panic (\<lambda>_. []) 1 5 ''ip'' (example_state\<lparr>zs_PsCache := [5 \<mapsto> example_server]\<rparr>) =
     Ok ((RESP_CODE_OK, 5, initPartitions), st3) \<and> clear_old initPartitions {7} = {}"
proof -
  have "PSRegister 9 (Ok 5) (\<lambda>_. []) 1 0 ''ip'' example_state =
      Ok ((RESP_CODE_OK, 5, {}), example_state\<lparr>zs_PsCache := [5 \<mapsto> example_server]\<rparr>)"
    by (simp add: PSRegister_def NewPartitionServer_def NewPartitionServerByMeta_def NewPartitionCache_def AddServer_def
        makeRpcRespHeader_def Err2RpcCodeMap_def)
  then show ?thesis by (rule restart_wipes_disk) simp_all
qed

section \<open>A membership change reaches the master\<close>

lemma ucast_ucast_u32: "ucast (ucast (x :: u32) :: u64) = x"
  by (rule bit_word_eqI) (simp add: bit_simps)

lemma ucast_u64_inj: "(ucast (x :: u32) :: u64) = ucast y \<Longrightarrow> x = y"
  by (metis (no_types, opaque_lifting) ucast_ucast_u32)

lemma less_succ_u64: "(x :: u64) < 0xFFFFFFFFFFFFFFFF \<Longrightarrow> x < x + 1"
  by (simp add: word_less_nat_alt unat_word_ariths)

lemma raft_replicas_split:
  assumes "\<forall>r\<in>set rs. rep_NodeID r \<noteq> node \<longrightarrow> known (rep_NodeID r)"
  shows "Followers (raft_replicas node trm known rs st) = Followers st @ filter (\<lambda>r. rep_NodeID r \<noteq> node) rs"
    and "rs_Replica (raft_replicas node trm known rs st) = last (rs_Replica st # filter (\<lambda>r. rep_NodeID r = node) rs)"
  using assms by (induction rs arbitrary: st) auto

lemma report_group:
  assumes "psp_leader p = ucast node" "filter (\<lambda>r. rep_NodeID r = node) (Replicas (psp_meta p)) \<noteq> []"
    and "\<forall>r\<in>set (Replicas (psp_meta p)). rep_NodeID r \<noteq> node \<longrightarrow> known (rep_NodeID r)"
    and "\<forall>r\<in>set (Replicas (psp_meta p)). \<forall>q\<in>set (Replicas (psp_meta p)). rep_NodeID r = rep_NodeID q \<longrightarrow> r = q"
  shows "\<exists>rs. pi_RaftStatus (getPartitionInfo node trm known p) = Some rs \<and>
    set (rs_Replica rs # Followers rs) = set (Replicas (psp_meta p))"
proof -
  define group where "group = Replicas (psp_meta p)"
  define mine where "mine = filter (\<lambda>r. rep_NodeID r = node) group"
  define others where "others = filter (\<lambda>r. rep_NodeID r \<noteq> node) group"
  define rs where "rs = raft_replicas node trm known group \<lparr>rs_Replica = zero_Replica, rs_Term = 0, Followers = []\<rparr>"
  have mine: "last mine \<in> set mine" using assms(2) last_in_set unfolding mine_def group_def by blast
  have "x = last mine" if "x \<in> set mine" for x
    using that mine assms(4) unfolding mine_def group_def [symmetric] set_filter mem_Collect_eq by metis
  then have one: "set mine = {last mine}" using mine by blast
  have "mine \<noteq> []" using assms(2) by (simp add: mine_def group_def)
  then have rs: "rs_Replica rs = last mine" "Followers rs = others"
    unfolding rs_def using raft_replicas_split [OF assms(3)] by (simp_all add: group_def mine_def others_def)
  have "set group = set mine \<union> set others" by (auto simp: mine_def others_def)
  then have "set (rs_Replica rs # Followers rs) = set group" unfolding rs one by simp
  moreover have "pi_RaftStatus (getPartitionInfo node trm known p) = Some rs"
    using assms(1) by (simp add: getPartitionInfo_def Let_def rs_def group_def)
  ultimately show ?thesis unfolding group_def by blast
qed


abbreviation example_leader :: "Replica list \<Rightarrow> u64 \<Rightarrow> ps_partition" where
  "example_leader rs v \<equiv> (newPartition (zero_Partition\<lparr>pt_ID := 7, Replicas := rs, Epoch := \<lparr>ConfVersion = v, Version = 0\<rparr>\<rparr>))\<lparr>psp_leader := 3\<rparr>"


text \<open>
  A partition whose raft group could not be created is nevertheless readable.
\<close>

lemma start_ignores_raft: "partition_start (env\<lparr>CreateRaft_ok := b\<rparr>) p = partition_start env p"
  by (simp add: partition_start_def)

text \<open>Creating a partition that exists stops the raft group of the existing one.\<close>

lemma create_existing_stops_raft:
  "sv_partitions s (pt_ID m) = Some p \<Longrightarrow> pt_ID m \<notin> sv_raft (doPartitionCreate env m s)"
  by (simp add: doPartitionCreate_def)

text \<open>Replacing an invalid partition counts its replicas again and does not give up the old counts.\<close>

lemma recreate_leaks:
  assumes "sv_partitions s (pt_ID m) = Some p" "pt_Status (psp_meta p) = PA_INVALID" "\<not> sv_stopping s"
    and "counts_ok (sv_resolver s)" "n \<noteq> 0"
  shows "ref_count (sv_resolver (doAdminEvent env (CreateReq m) s)) n = ref_count (sv_resolver s) n + occurrences n (Replicas m)"
  using assms add_replicas_count [OF assms(4), of "Replicas m" n] by (simp add: doAdminEvent_def doPartitionCreate_def)

end
