(* ===== verification/Bleve_Engine.thy ===== *)
theory Bleve_Engine
  imports Topo_Ids
begin

text \<open>
  The document engine of a partition (\<^verbatim>\<open>engine/bleve/writer.go\<close>, \<^verbatim>\<open>reader.go\<close>, \<^verbatim>\<open>bleve.go\<close>), which implements
  the interfaces of \<^verbatim>\<open>engine/engine.go\<close> over the bleve library.  The library is outside the repository: its calls are a
  record, and the locale \<open>bleve\<close> says what it documents of them, over a map of documents and a map of internal values.  A batch
  of the library collects operations; the index does not change before the batch is executed.
\<close>

section \<open>The library\<close>

type_synonym DOC_ID = bytes

datatype eng_err = InvalidApplyID | CouldNotCommit | UnsupportedCommand | LibraryError

text \<open>The stored fields of a document; reading a value can fail.\<close>

datatype bleve_field =
    TextField string bytes
  | BooleanField string "bool option"
  | DateTimeField string "int option"
  | GeoPointField string "u64 option" "u64 option"
  | NumericField string "u64 option"
  | OtherField

type_synonym bleve_doc = "bleve_field list"

datatype batch_op = BatchIndex DOC_ID bleve_doc | BatchDelete DOC_ID | BatchInternal bytes bytes

record ('x, 'd) bleve_lib =
  bv_map :: "DOC_ID \<Rightarrow> 'd \<Rightarrow> (eng_err, bleve_doc) result"
  bv_Document :: "'x \<Rightarrow> DOC_ID \<Rightarrow> (eng_err, bleve_doc option) result"
  bv_GetInternal :: "'x \<Rightarrow> bytes \<Rightarrow> (eng_err, bytes) result"
  bv_Batch :: "'x \<Rightarrow> batch_op list \<Rightarrow> 'x \<times> (eng_err, unit) result"

definition doc_op :: "batch_op \<Rightarrow> (DOC_ID \<rightharpoonup> bleve_doc) \<Rightarrow> (DOC_ID \<rightharpoonup> bleve_doc)" where
  "doc_op oper m = (case oper of BatchIndex i d \<Rightarrow> m(i \<mapsto> d) | BatchDelete i \<Rightarrow> m(i := None) | BatchInternal _ _ \<Rightarrow> m)"

definition internal_op :: "batch_op \<Rightarrow> (bytes \<rightharpoonup> bytes) \<Rightarrow> (bytes \<rightharpoonup> bytes)" where
  "internal_op oper m = (case oper of BatchInternal k v \<Rightarrow> m(k \<mapsto> v) | _ \<Rightarrow> m)"

locale bleve =
  fixes lib :: "('x, 'd) bleve_lib" and docs :: "'x \<Rightarrow> DOC_ID \<rightharpoonup> bleve_doc" and internals :: "'x \<Rightarrow> bytes \<rightharpoonup> bytes"
  assumes Document_Ok: "bv_Document lib x i = Ok r \<Longrightarrow> r = docs x i"
    and GetInternal_Ok: "bv_GetInternal lib x k = Ok v \<Longrightarrow> v = (case internals x k of None \<Rightarrow> [] | Some w \<Rightarrow> w)"
    and Batch_Ok: "bv_Batch lib x opers = (x', Ok u) \<Longrightarrow> docs x' = fold doc_op opers (docs x) \<and> internals x' = fold internal_op opers (internals x)"
    and Batch_Err: "bv_Batch lib x opers = (x', Err e) \<Longrightarrow> docs x' = docs x \<and> internals x' = internals x"
    and no_panic: "bv_map lib i d \<noteq> Panic" "bv_Document lib x i \<noteq> Panic" "bv_GetInternal lib x k \<noteq> Panic" "snd (bv_Batch lib x opers) \<noteq> Panic"

section \<open>Batches\<close>

definition RAFT_APPLY_ID :: bytes where
  "RAFT_APPLY_ID = map (\<lambda>c. of_nat (of_char c)) ''_raft_apply_id''"

definition batch_SetApplyID :: "u64 \<Rightarrow> batch_op list \<Rightarrow> batch_op list" where
  "batch_SetApplyID applyID b = (if applyID > 0 then b @ [BatchInternal RAFT_APPLY_ID (Uint64ToBytes applyID)] else b)"

definition batch_AddDocument :: "('x, 'd) bleve_lib \<Rightarrow> DOC_ID \<Rightarrow> 'd \<Rightarrow> batch_op list \<Rightarrow> (eng_err, batch_op list) result" where
  "batch_AddDocument lib docID doc b = result_bind (bv_map lib docID doc) (\<lambda>d. Ok (b @ [BatchIndex docID d]))"

text \<open>An update reads the index, not the batch, to see whether the document exists.\<close>

definition batch_UpdateDocument :: "('x, 'd) bleve_lib \<Rightarrow> 'x \<Rightarrow> DOC_ID \<Rightarrow> 'd \<Rightarrow> bool \<Rightarrow> batch_op list \<Rightarrow> (eng_err, batch_op list \<times> bool) result" where
  "batch_UpdateDocument lib x docID doc upsert b =
     result_bind (bv_Document lib x docID) (\<lambda>d.
       let found = (d \<noteq> None) in
       if \<not> upsert \<and> \<not> found then Ok (b, False)
       else result_bind (batch_AddDocument lib docID doc b) (\<lambda>b. Ok (b, found)))"

definition batch_DeleteDocument :: "('x, 'd) bleve_lib \<Rightarrow> 'x \<Rightarrow> DOC_ID \<Rightarrow> batch_op list \<Rightarrow> (eng_err, batch_op list \<times> nat) result" where
  "batch_DeleteDocument lib x docID b =
     result_bind (bv_Document lib x docID) (\<lambda>d. if d = None then Ok (b, 0) else Ok (b @ [BatchDelete docID], 1))"

definition batch_Commit :: "('x, 'd) bleve_lib \<Rightarrow> batch_op list \<Rightarrow> 'x \<Rightarrow> 'x \<times> (eng_err, unit) result" where
  "batch_Commit lib b x = bv_Batch lib x b"

section \<open>The engine\<close>

text \<open>Each call of the writer is a batch of its own, committed when the call has no error.\<close>

definition commit_if :: "('x, 'd) bleve_lib \<Rightarrow> (eng_err, batch_op list \<times> 'r) result \<Rightarrow> 'x \<Rightarrow> 'x \<times> (eng_err, 'r) result" where
  "commit_if lib res x = (case res of
      Ok (b, r) \<Rightarrow> (case batch_Commit lib b x of (x', Ok _) \<Rightarrow> (x', Ok r) | (x', Err e) \<Rightarrow> (x', Err e) | (x', Panic) \<Rightarrow> (x', Panic))
    | Err e \<Rightarrow> (x, Err e)
    | Panic \<Rightarrow> (x, Panic))"

definition Bleve_SetApplyID :: "('x, 'd) bleve_lib \<Rightarrow> u64 \<Rightarrow> 'x \<Rightarrow> 'x \<times> (eng_err, unit) result" where
  "Bleve_SetApplyID lib applyID x = commit_if lib (Ok (batch_SetApplyID applyID [], ())) x"

definition Bleve_AddDocument :: "('x, 'd) bleve_lib \<Rightarrow> DOC_ID \<Rightarrow> 'd \<Rightarrow> 'x \<Rightarrow> 'x \<times> (eng_err, unit) result" where
  "Bleve_AddDocument lib docID doc x = commit_if lib (result_bind (batch_AddDocument lib docID doc []) (\<lambda>b. Ok (b, ()))) x"

definition Bleve_UpdateDocument :: "('x, 'd) bleve_lib \<Rightarrow> DOC_ID \<Rightarrow> 'd \<Rightarrow> bool \<Rightarrow> 'x \<Rightarrow> 'x \<times> (eng_err, bool) result" where
  "Bleve_UpdateDocument lib docID doc upsert x = commit_if lib (batch_UpdateDocument lib x docID doc upsert []) x"

definition Bleve_DeleteDocument :: "('x, 'd) bleve_lib \<Rightarrow> DOC_ID \<Rightarrow> 'x \<Rightarrow> 'x \<times> (eng_err, nat) result" where
  "Bleve_DeleteDocument lib docID x = commit_if lib (batch_DeleteDocument lib x docID []) x"

definition Bleve_GetApplyID :: "('x, 'd) bleve_lib \<Rightarrow> 'x \<Rightarrow> (eng_err, u64) result" where
  "Bleve_GetApplyID lib x =
     result_bind (bv_GetInternal lib x RAFT_APPLY_ID) (\<lambda>v.
       if length v = 0 then Ok 0 else if length v \<noteq> 8 then Err InvalidApplyID else Ok (BytesToUint64 v))"

datatype doc_value = VString bytes | VBool bool | VTime int | VGeo "u64 \<times> u64" | VNum u64

type_synonym DOCUMENT = "string \<rightharpoonup> doc_value"

text \<open>The loop over the fields; \<open>None\<close> is its early return of nil and false.\<close>

fun doc_fields :: "bleve_doc \<Rightarrow> DOCUMENT \<Rightarrow> DOCUMENT option" where
  "doc_fields [] doc = Some doc"
| "doc_fields (TextField n v # fs) doc = doc_fields fs (doc(n \<mapsto> VString v))"
| "doc_fields (BooleanField n v # fs) doc = (case v of None \<Rightarrow> None | Some b \<Rightarrow> doc_fields fs (doc(n \<mapsto> VBool b)))"
| "doc_fields (DateTimeField n v # fs) doc = (case v of None \<Rightarrow> None | Some t \<Rightarrow> doc_fields fs (doc(n \<mapsto> VTime t)))"
| "doc_fields (GeoPointField n lat lon # fs) doc =
     (case (lat, lon) of (Some a, Some b) \<Rightarrow> doc_fields fs (doc(n \<mapsto> VGeo (a, b))) | _ \<Rightarrow> None)"
| "doc_fields (NumericField n v # fs) doc = (case v of None \<Rightarrow> None | Some x \<Rightarrow> doc_fields fs (doc(n \<mapsto> VNum x)))"
| "doc_fields (OtherField # fs) doc = None"

text \<open>
  A document that is not there is nil without an error, and its fields are read all the same.  Times and floats are numbers; the
  text of a geo point is kept as its two numbers.
\<close>

definition Bleve_GetDocument :: "('x, 'd) bleve_lib \<Rightarrow> 'x \<Rightarrow> DOC_ID \<Rightarrow> (eng_err, DOCUMENT option) result" where
  "Bleve_GetDocument lib x docID = (case bv_Document lib x docID of
      Err _ \<Rightarrow> Ok None
    | Panic \<Rightarrow> Panic
    | Ok None \<Rightarrow> Panic
    | Ok (Some d) \<Rightarrow> Ok (doc_fields d Map.empty))"

text \<open>
  \<^verbatim>\<open>ApplySnapshot\<close>: the loop never moves the iterator, so what it stands on stays the same.  \<open>exec\<close> is
  \<^verbatim>\<open>ExecuteBatch\<close> of the store's writer.
\<close>

partial_function (option) snapshot_loop :: "('s \<Rightarrow> (bytes \<times> bytes) list \<Rightarrow> 's \<times> (eng_err, unit) result) \<Rightarrow> (bytes \<times> bytes) option
    \<Rightarrow> (bytes \<times> bytes) list option \<Rightarrow> nat \<Rightarrow> 's \<Rightarrow> ('s \<times> (eng_err, unit) result) option" where
  "snapshot_loop exec cur batch count s = (case cur of
      None \<Rightarrow> Some (case batch of Some b \<Rightarrow> exec s b | None \<Rightarrow> (s, Ok ()))
    | Some kv \<Rightarrow>
        let b = (case batch of None \<Rightarrow> [] | Some b \<Rightarrow> b) @ [kv]; count = count + 1 in
        if count mod 100 = 0 then
          (case exec s b of
             (s', Ok _) \<Rightarrow> snapshot_loop exec cur None count s'
           | (s', r) \<Rightarrow> Some (s', r))
        else snapshot_loop exec cur (Some b) count s)"

definition Bleve_ApplySnapshot :: "('s \<Rightarrow> (bytes \<times> bytes) list \<Rightarrow> 's \<times> (eng_err, unit) result) \<Rightarrow> (bytes \<times> bytes) option \<Rightarrow> 's
    \<Rightarrow> ('s \<times> (eng_err, unit) result) option" where
  "Bleve_ApplySnapshot exec cur s = snapshot_loop exec cur None 0 s"

section \<open>The interface of the writer\<close>

lemma Uint64ToBytes_nonempty: "Uint64ToBytes i \<noteq> []"
  using Uint64ToBytes_length [of i] by (metis list.size(3) zero_neq_numeral)

context bleve begin

lemma commit_if_Ok:
  assumes "commit_if lib res x = (x', Ok r)"
  shows "\<exists>b. res = Ok (b, r) \<and> docs x' = fold doc_op b (docs x) \<and> internals x' = fold internal_op b (internals x)"
  using assms Batch_Ok by (auto simp: commit_if_def batch_Commit_def split: result.splits prod.splits)

lemma commit_if_Err:
  assumes "commit_if lib res x = (x', Err e)"
  shows "docs x' = docs x \<and> internals x' = internals x"
  using assms Batch_Err by (auto simp: commit_if_def batch_Commit_def split: result.splits prod.splits)

lemma SetApplyID_Ok:
  assumes "Bleve_SetApplyID lib i x = (x', Ok ())" "0 < i"
  shows "docs x' = docs x \<and> internals x' RAFT_APPLY_ID = Some (Uint64ToBytes i)"
  using commit_if_Ok [OF assms(1) [unfolded Bleve_SetApplyID_def]] assms(2)
  by (auto simp: batch_SetApplyID_def doc_op_def internal_op_def)

lemma GetApplyID_Ok:
  assumes "Bleve_GetApplyID lib x = Ok j" "internals x RAFT_APPLY_ID = Some (Uint64ToBytes i)"
  shows "j = i"
  using assms GetInternal_Ok [of x RAFT_APPLY_ID] Uint64ToBytes_nonempty [of i]
  by (auto simp: Bleve_GetApplyID_def result_bind_Ok_iff split: if_splits)

end

text \<open>An index in memory whose calls always succeed.\<close>

type_synonym mem_index = "(DOC_ID \<rightharpoonup> bleve_doc) \<times> (bytes \<rightharpoonup> bytes)"

definition mem_bleve :: "('d \<Rightarrow> bleve_doc) \<Rightarrow> (mem_index, 'd) bleve_lib" where
  "mem_bleve f = \<lparr>bv_map = (\<lambda>_ d. Ok (f d)), bv_Document = (\<lambda>x i. Ok (fst x i)),
     bv_GetInternal = (\<lambda>x k. Ok (case snd x k of None \<Rightarrow> [] | Some v \<Rightarrow> v)),
     bv_Batch = (\<lambda>x b. ((fold doc_op b (fst x), fold internal_op b (snd x)), Ok ()))\<rparr>"

interpretation mb: bleve "mem_bleve f" fst snd for f :: "'d \<Rightarrow> bleve_doc"
  by unfold_locales (auto simp: mem_bleve_def)

section \<open>Snapshots\<close>

lemma snapshot_loop_never:
  assumes "snapshot_loop exec cur batch count s = Some res" "\<And>s b. snd (exec s b) = Ok ()"
  shows "cur = None"
proof -
  have "(\<forall>s b. snd (exec s b) = Ok ()) \<longrightarrow> cur = None"
  proof (rule snapshot_loop.raw_induct [OF _ assms(1), where P = "\<lambda>exec cur batch count s res. (\<forall>s b. snd (exec s b) = Ok ()) \<longrightarrow> cur = None"], rule impI)
    fix loop :: "('s \<Rightarrow> (bytes \<times> bytes) list \<Rightarrow> 's \<times> (eng_err, unit) result) \<Rightarrow> (bytes \<times> bytes) option \<Rightarrow> (bytes \<times> bytes) list option \<Rightarrow> nat \<Rightarrow> 's
        \<Rightarrow> ('s \<times> (eng_err, unit) result) option"
    fix exec cur batch count s res
    assume IH: "\<And>exec cur batch count s res. loop exec cur batch count s = Some res \<Longrightarrow> (\<forall>s b. snd (exec s b) = Ok ()) \<longrightarrow> cur = None"
      and body: "(case cur of None \<Rightarrow> Some (case batch of Some b \<Rightarrow> exec s b | None \<Rightarrow> (s, Ok ()))
        | Some kv \<Rightarrow> let b = (case batch of None \<Rightarrow> [] | Some b \<Rightarrow> b) @ [kv]; count = count + 1 in
            if count mod 100 = 0 then (case exec s b of (s', Ok _) \<Rightarrow> loop exec cur None count s' | (s', r) \<Rightarrow> Some (s', r))
            else loop exec cur (Some b) count s) = Some res"
      and ok: "\<forall>s b. snd (exec s b) = Ok ()"
    show "cur = None"
    proof (cases cur)
      case (Some kv)
      let ?b = "(case batch of None \<Rightarrow> [] | Some b \<Rightarrow> b) @ [kv]"
      obtain s' where s': "exec s ?b = (s', Ok ())" using ok by (metis prod.collapse)
      have "loop exec cur None (count + 1) s' = Some res \<or> loop exec cur (Some ?b) (count + 1) s = Some res"
        using body Some s' by (auto simp: Let_def split: if_splits)
      then show ?thesis using IH ok by blast
    qed
  qed
  then show ?thesis using assms(2) by blast
qed

section \<open>Properties\<close>



text \<open>Reading a document that does not exist panics.\<close>

lemma get_missing_panics: "bleve lib docs internals \<Longrightarrow> docs x i = None \<Longrightarrow> bv_Document lib x i = Ok r \<Longrightarrow> Bleve_GetDocument lib x i = Panic"
  using bleve.Document_Ok by (fastforce simp: Bleve_GetDocument_def)

end
