(* ===== verification/Ps_Write.thy ===== *)
theory Ps_Write
  imports Ps_Server Bleve_Engine
begin

text \<open>
  Documents on a partition server (\<^verbatim>\<open>ps/server/partition_api.go\<close>, \<^verbatim>\<open>partition_raft.go\<close>): a bulk request goes through raft
  and every replica applies it as one batch of its engine.  The decoding of the JSON of a document is an argument, as is
  what raft answers.  A request names its type and carries one of three bodies; the code trusts that they agree.
\<close>

section \<open>Requests and responses\<close>

datatype OpType = OpType_CREATE | OpType_UPDATE | OpType_DELETE | OpType_OTHER

record CreateRequest =
  cr_ID :: DOC_ID
  cr_Data :: bytes

record UpdateRequest =
  ur_ID :: DOC_ID
  ur_Data :: bytes
  ur_Upsert :: bool

record DeleteRequest =
  dr_ID :: DOC_ID

record RequestUnion =
  rq_OpType :: OpType
  rq_Create :: "CreateRequest option"
  rq_Update :: "UpdateRequest option"
  rq_Delete :: "DeleteRequest option"

datatype WriteResult = CREATED | UPDATED | DELETED | NOT_FOUND | NOOP

datatype response_body = CreateResponse DOC_ID WriteResult | UpdateResponse DOC_ID WriteResult | DeleteResponse DOC_ID WriteResult
  | Failure DOC_ID eng_err

record ResponseUnion =
  re_OpType :: OpType
  re_body :: response_body

section \<open>Applying commands\<close>

definition createInternal :: "(bytes \<Rightarrow> (eng_err, 'd) result) \<Rightarrow> ('x, 'd) bleve_lib \<Rightarrow> CreateRequest \<Rightarrow> batch_op list
    \<Rightarrow> (eng_err, batch_op list \<times> response_body) result" where
  "createInternal decode lib request batch =
     result_bind (decode (cr_Data request)) (\<lambda>data.
       result_bind (batch_AddDocument lib (cr_ID request) data batch) (\<lambda>batch.
         Ok (batch, CreateResponse (cr_ID request) CREATED)))"

definition updateInternal :: "(bytes \<Rightarrow> (eng_err, 'd) result) \<Rightarrow> ('x, 'd) bleve_lib \<Rightarrow> 'x \<Rightarrow> UpdateRequest \<Rightarrow> batch_op list
    \<Rightarrow> (eng_err, batch_op list \<times> response_body) result" where
  "updateInternal decode lib x request batch =
     result_bind (decode (ur_Data request)) (\<lambda>data.
       result_bind (batch_UpdateDocument lib x (ur_ID request) data (ur_Upsert request) batch) (\<lambda>(batch, found).
         Ok (batch, UpdateResponse (ur_ID request) (if found then UPDATED else if ur_Upsert request then CREATED else NOT_FOUND))))"

definition deleteInternal :: "('x, 'd) bleve_lib \<Rightarrow> 'x \<Rightarrow> DeleteRequest \<Rightarrow> batch_op list \<Rightarrow> (eng_err, batch_op list \<times> response_body) result" where
  "deleteInternal lib x request batch =
     result_bind (batch_DeleteDocument lib x (dr_ID request) batch) (\<lambda>(batch, n).
       Ok (batch, DeleteResponse (dr_ID request) (if n > 0 then DELETED else NOT_FOUND)))"

text \<open>One command: an error becomes its response and leaves the batch as it was; a missing body is a nil dereference.\<close>

definition or_failure :: "DOC_ID \<Rightarrow> batch_op list \<Rightarrow> (eng_err, batch_op list \<times> response_body) result \<Rightarrow> (eng_err, batch_op list \<times> response_body) result" where
  "or_failure i batch res = (case res of Err e \<Rightarrow> Ok (batch, Failure i e) | r \<Rightarrow> r)"

definition exec_cmd :: "(bytes \<Rightarrow> (eng_err, 'd) result) \<Rightarrow> ('x, 'd) bleve_lib \<Rightarrow> 'x \<Rightarrow> RequestUnion \<Rightarrow> batch_op list
    \<Rightarrow> (eng_err, batch_op list \<times> ResponseUnion) result" where
  "exec_cmd decode lib x cmd batch =
     result_bind
       (case rq_OpType cmd of
          OpType_CREATE \<Rightarrow> (case rq_Create cmd of None \<Rightarrow> Panic | Some r \<Rightarrow> or_failure (cr_ID r) batch (createInternal decode lib r batch))
        | OpType_UPDATE \<Rightarrow> (case rq_Update cmd of None \<Rightarrow> Panic | Some r \<Rightarrow> or_failure (ur_ID r) batch (updateInternal decode lib x r batch))
        | OpType_DELETE \<Rightarrow> (case rq_Delete cmd of None \<Rightarrow> Panic | Some r \<Rightarrow> or_failure (dr_ID r) batch (deleteInternal lib x r batch))
        | OpType_OTHER \<Rightarrow> Ok (batch, Failure [] UnsupportedCommand))
       (\<lambda>(batch, body). Ok (batch, \<lparr>re_OpType = rq_OpType cmd, re_body = body\<rparr>))"

fun exec_cmds :: "(bytes \<Rightarrow> (eng_err, 'd) result) \<Rightarrow> ('x, 'd) bleve_lib \<Rightarrow> 'x \<Rightarrow> RequestUnion list \<Rightarrow> batch_op list
    \<Rightarrow> (eng_err, batch_op list \<times> ResponseUnion list) result" where
  "exec_cmds decode lib x [] batch = Ok (batch, [])"
| "exec_cmds decode lib x (cmd # cmds) batch =
     result_bind (exec_cmd decode lib x cmd batch) (\<lambda>(batch, r).
       result_bind (exec_cmds decode lib x cmds batch) (\<lambda>(batch, rs). Ok (batch, r # rs)))"

definition execWriteCommand :: "(bytes \<Rightarrow> (eng_err, 'd) result) \<Rightarrow> ('x, 'd) bleve_lib \<Rightarrow> u64 \<Rightarrow> RequestUnion list \<Rightarrow> 'x
    \<Rightarrow> 'x \<times> (eng_err, ResponseUnion list) result" where
  "execWriteCommand decode lib index cmds x = (case exec_cmds decode lib x cmds [] of
      Ok (batch, resp) \<Rightarrow>
        (case batch_Commit lib (batch_SetApplyID index batch) x of
           (x', Ok _) \<Rightarrow> (x', Ok resp)
         | (x', Err _) \<Rightarrow> (fst (Bleve_SetApplyID lib index x'), Err CouldNotCommit)
         | (x', Panic) \<Rightarrow> (x', Panic))
    | _ \<Rightarrow> (x, Panic))"

datatype RaftCommand = CmdType_WRITE "RequestUnion list" | CmdType_OTHER

text \<open>\<^verbatim>\<open>Apply\<close>; \<open>None\<close> stands for a command that cannot be decoded.\<close>

definition partition_Apply :: "(bytes \<Rightarrow> (eng_err, 'd) result) \<Rightarrow> ('x, 'd) bleve_lib \<Rightarrow> RaftCommand option \<Rightarrow> u64 \<Rightarrow> 'x
    \<Rightarrow> 'x \<times> (eng_err, ResponseUnion list) result" where
  "partition_Apply decode lib command index x = (case command of
      None \<Rightarrow> (x, Panic)
    | Some (CmdType_WRITE cmds) \<Rightarrow> execWriteCommand decode lib index cmds x
    | Some CmdType_OTHER \<Rightarrow> (fst (Bleve_SetApplyID lib index x), Err UnsupportedCommand))"

section \<open>Answering requests\<close>

datatype raft_err = ErrRaftNotExists | ErrStopped | ErrNotLeader | DeadlineExceeded | ContextCanceled | OtherRaftErr

text \<open>What the select statement receives: a response, an error of raft, or the end of the context.\<close>

datatype raft_answer = RaftResponse "ResponseUnion list" | RaftFailed raft_err | ContextDone raft_err

definition fillBulkResponse :: "raft_answer \<Rightarrow> ps_partition \<Rightarrow> (ps_err, ResponseUnion list) result" where
  "fillBulkResponse answer p = (case answer of
      RaftResponse resp \<Rightarrow> Ok resp
    | _ \<Rightarrow>
        let (err, is_done) = (case answer of ContextDone e \<Rightarrow> (e, True) | RaftFailed e \<Rightarrow> (e, False) | RaftResponse _ \<Rightarrow> (OtherRaftErr, False)) in
        (case err of
           ErrRaftNotExists \<Rightarrow> Err (PartitionNotFound (pt_ID (psp_meta p)))
         | ErrStopped \<Rightarrow> Err ServerError
         | ErrNotLeader \<Rightarrow>
             if psp_leader p = 0 then Err (NoLeader (pt_ID (psp_meta p)))
             else Err (NotLeader (pt_ID (psp_meta p)) (ucast (psp_leader p)) (psp_leaderAddr p) (Epoch (psp_meta p)))
         | DeadlineExceeded \<Rightarrow> Err TimeoutError
         | _ \<Rightarrow> if is_done then Err ServerError else Err OtherError))"

text \<open>\<open>answer\<close> is what raft answers to the submitted command; \<open>None\<close> stands for a request that cannot be encoded.\<close>

definition bulkInternal :: "raft_answer option \<Rightarrow> ps_partition \<Rightarrow> (ps_err, ResponseUnion list) result" where
  "bulkInternal answer p =
     (if pt_Status (psp_meta p) = PA_INVALID \<or> pt_Status (psp_meta p) = PA_NOTREAD then Err (PartitionNotFound (pt_ID (psp_meta p)))
      else fillBulkResponse (case answer of None \<Rightarrow> RaftFailed OtherRaftErr | Some a \<Rightarrow> a) p)"

text \<open>\<open>ended\<close> is the error of the context after the read, if it has ended by then.\<close>

definition getInternal :: "NodeID \<Rightarrow> raft_err option \<Rightarrow> ('x, 'd) bleve_lib \<Rightarrow> 'x \<Rightarrow> DOC_ID \<Rightarrow> ps_partition \<Rightarrow> (ps_err, DOCUMENT option) result" where
  "getInternal node ended lib x docID p = (case checkReadable node True p of
      Some e \<Rightarrow> Err e
    | None \<Rightarrow> (case Bleve_GetDocument lib x docID of
        Ok doc \<Rightarrow> (case ended of
            None \<Rightarrow> Ok doc
          | Some DeadlineExceeded \<Rightarrow> Err TimeoutError
          | Some _ \<Rightarrow> Err ServerError)
      | _ \<Rightarrow> Panic))"

section \<open>The specification\<close>

text \<open>A document store as a map: what one request does to it and what it answers.\<close>

definition mapped :: "(bytes \<Rightarrow> (eng_err, 'd) result) \<Rightarrow> ('x, 'd) bleve_lib \<Rightarrow> DOC_ID \<Rightarrow> bytes \<Rightarrow> (eng_err, bleve_doc) result" where
  "mapped decode lib i data = result_bind (decode data) (bv_map lib i)"

definition spec_create :: "(eng_err, bleve_doc) result \<Rightarrow> DOC_ID \<Rightarrow> (DOC_ID \<rightharpoonup> bleve_doc) \<Rightarrow> (DOC_ID \<rightharpoonup> bleve_doc) \<times> response_body" where
  "spec_create d i m = (case d of Ok doc \<Rightarrow> (m(i \<mapsto> doc), CreateResponse i CREATED) | Err e \<Rightarrow> (m, Failure i e) | Panic \<Rightarrow> (m, Failure i LibraryError))"

definition spec_update :: "(eng_err, 'd) result \<Rightarrow> (eng_err, bleve_doc) result \<Rightarrow> bool \<Rightarrow> DOC_ID \<Rightarrow> (DOC_ID \<rightharpoonup> bleve_doc) \<Rightarrow> (DOC_ID \<rightharpoonup> bleve_doc) \<times> response_body" where
  "spec_update data d upsert i m = (case data of
      Err e \<Rightarrow> (m, Failure i e)
    | Panic \<Rightarrow> (m, Failure i LibraryError)
    | Ok _ \<Rightarrow>
        if m i = None \<and> \<not> upsert then (m, UpdateResponse i NOT_FOUND)
        else (case d of
                Ok doc \<Rightarrow> (m(i \<mapsto> doc), UpdateResponse i (if m i = None then CREATED else UPDATED))
              | Err e \<Rightarrow> (m, Failure i e)
              | Panic \<Rightarrow> (m, Failure i LibraryError)))"

definition spec_delete :: "DOC_ID \<Rightarrow> (DOC_ID \<rightharpoonup> bleve_doc) \<Rightarrow> (DOC_ID \<rightharpoonup> bleve_doc) \<times> response_body" where
  "spec_delete i m = (if m i = None then (m, DeleteResponse i NOT_FOUND) else (m(i := None), DeleteResponse i DELETED))"

definition cmd_id :: "RequestUnion \<Rightarrow> DOC_ID option" where
  "cmd_id cmd = (case rq_OpType cmd of
      OpType_CREATE \<Rightarrow> map_option cr_ID (rq_Create cmd)
    | OpType_UPDATE \<Rightarrow> map_option ur_ID (rq_Update cmd)
    | OpType_DELETE \<Rightarrow> map_option dr_ID (rq_Delete cmd)
    | OpType_OTHER \<Rightarrow> None)"

definition well_formed :: "RequestUnion \<Rightarrow> bool" where
  "well_formed cmd = (rq_OpType cmd = OpType_OTHER \<or> cmd_id cmd \<noteq> None)"

definition spec_cmd :: "(bytes \<Rightarrow> (eng_err, 'd) result) \<Rightarrow> ('x, 'd) bleve_lib \<Rightarrow> RequestUnion \<Rightarrow> (DOC_ID \<rightharpoonup> bleve_doc) \<Rightarrow> (DOC_ID \<rightharpoonup> bleve_doc) \<times> response_body" where
  "spec_cmd decode lib cmd m = (case rq_OpType cmd of
      OpType_CREATE \<Rightarrow> (case rq_Create cmd of None \<Rightarrow> (m, Failure [] LibraryError)
        | Some r \<Rightarrow> spec_create (mapped decode lib (cr_ID r) (cr_Data r)) (cr_ID r) m)
    | OpType_UPDATE \<Rightarrow> (case rq_Update cmd of None \<Rightarrow> (m, Failure [] LibraryError)
        | Some r \<Rightarrow> spec_update (decode (ur_Data r)) (mapped decode lib (ur_ID r) (ur_Data r)) (ur_Upsert r) (ur_ID r) m)
    | OpType_DELETE \<Rightarrow> (case rq_Delete cmd of None \<Rightarrow> (m, Failure [] LibraryError) | Some r \<Rightarrow> spec_delete (dr_ID r) m)
    | OpType_OTHER \<Rightarrow> (m, Failure [] UnsupportedCommand))"

fun spec_run :: "(bytes \<Rightarrow> (eng_err, 'd) result) \<Rightarrow> ('x, 'd) bleve_lib \<Rightarrow> RequestUnion list \<Rightarrow> (DOC_ID \<rightharpoonup> bleve_doc)
    \<Rightarrow> (DOC_ID \<rightharpoonup> bleve_doc) \<times> response_body list" where
  "spec_run decode lib [] m = (m, [])"
| "spec_run decode lib (c # cs) m =
     (case spec_cmd decode lib c m of (m1, b) \<Rightarrow> (case spec_run decode lib cs m1 of (m2, bs) \<Rightarrow> (m2, b # bs)))"

lemma spec_cmd_other: "cmd_id cmd \<noteq> Some j \<Longrightarrow> fst (spec_cmd decode lib cmd m) j = m j"
  by (auto simp: spec_cmd_def cmd_id_def spec_create_def spec_update_def spec_delete_def
      split: OpType.splits option.splits result.splits)

section \<open>A batch against the specification\<close>

text \<open>The decoder and the library answer, and every read of the index succeeds.\<close>

definition reads_ok :: "(bytes \<Rightarrow> (eng_err, 'd) result) \<Rightarrow> ('x, 'd) bleve_lib \<Rightarrow> 'x \<Rightarrow> bool" where
  "reads_ok decode lib x = ((\<forall>d. decode d \<noteq> Panic) \<and> (\<forall>i. \<exists>r. bv_Document lib x i = Ok r))"

text \<open>Commands on different documents.\<close>

definition separate :: "RequestUnion list \<Rightarrow> bool" where
  "separate cmds = distinct (concat (map (\<lambda>c. case cmd_id c of None \<Rightarrow> [] | Some i \<Rightarrow> [i]) cmds))"

context bleve begin

lemma reads_docs: "reads_ok decode lib x \<Longrightarrow> bv_Document lib x i = Ok (docs x i)"
  using Document_Ok by (metis reads_ok_def)

lemma exec_cmd_spec:
  assumes "reads_ok decode lib x" "well_formed cmd" "\<And>i. cmd_id cmd = Some i \<Longrightarrow> m i = docs x i"
  shows "\<exists>opers. exec_cmd decode lib x cmd batch = Ok (batch @ opers, \<lparr>re_OpType = rq_OpType cmd, re_body = snd (spec_cmd decode lib cmd m)\<rparr>) \<and>
    fold doc_op opers m = fst (spec_cmd decode lib cmd m)"
proof -
  have dec: "decode d \<noteq> Panic" for d using assms(1) by (simp add: reads_ok_def)
  note doc = reads_docs [OF assms(1)]
  show ?thesis
  proof (cases "rq_OpType cmd")
    case OpType_CREATE
    then obtain r where r: "rq_Create cmd = Some r" using assms(2) by (auto simp: well_formed_def cmd_id_def)
    show ?thesis
    proof (cases "decode (cr_Data r)")
      case (Ok d)
      then show ?thesis using OpType_CREATE r no_panic(1) [of "cr_ID r" d]
        by (cases "bv_map lib (cr_ID r) d")
          (simp_all add: exec_cmd_def createInternal_def or_failure_def batch_AddDocument_def spec_cmd_def spec_create_def mapped_def doc_op_def)
    qed (use OpType_CREATE r dec [of "cr_Data r"] in \<open>simp_all add: exec_cmd_def createInternal_def or_failure_def spec_cmd_def spec_create_def mapped_def\<close>)
  next
    case OpType_UPDATE
    then obtain r where r: "rq_Update cmd = Some r" using assms(2) by (auto simp: well_formed_def cmd_id_def)
    have m: "m (ur_ID r) = docs x (ur_ID r)" using assms(3) OpType_UPDATE r by (simp add: cmd_id_def)
    show ?thesis
    proof (cases "decode (ur_Data r)")
      case (Ok d)
      show ?thesis
      proof (cases "docs x (ur_ID r) = None \<and> \<not> ur_Upsert r")
        case True
        then show ?thesis using OpType_UPDATE r m doc [of "ur_ID r"] Ok
          by (simp add: exec_cmd_def updateInternal_def or_failure_def batch_UpdateDocument_def spec_cmd_def spec_update_def)
      next
        case False
        then show ?thesis using OpType_UPDATE r m doc [of "ur_ID r"] Ok no_panic(1) [of "ur_ID r" d]
          by (cases "bv_map lib (ur_ID r) d")
            (auto simp: exec_cmd_def updateInternal_def or_failure_def batch_UpdateDocument_def batch_AddDocument_def spec_cmd_def spec_update_def mapped_def doc_op_def)
      qed
    qed (use OpType_UPDATE r dec [of "ur_Data r"] in \<open>simp_all add: exec_cmd_def updateInternal_def or_failure_def spec_cmd_def spec_update_def\<close>)
  next
    case OpType_DELETE
    then obtain r where r: "rq_Delete cmd = Some r" using assms(2) by (auto simp: well_formed_def cmd_id_def)
    have m: "m (dr_ID r) = docs x (dr_ID r)" using assms(3) OpType_DELETE r by (simp add: cmd_id_def)
    show ?thesis using OpType_DELETE r m doc [of "dr_ID r"]
      by (auto simp: exec_cmd_def deleteInternal_def or_failure_def batch_DeleteDocument_def spec_cmd_def spec_delete_def doc_op_def)
  next
    case OpType_OTHER
    then show ?thesis by (simp add: exec_cmd_def spec_cmd_def)
  qed
qed

lemma exec_cmds_spec:
  assumes "reads_ok decode lib x" "list_all well_formed cmds" "separate cmds"
    and "\<And>c i. c \<in> set cmds \<Longrightarrow> cmd_id c = Some i \<Longrightarrow> m i = docs x i"
  shows "\<exists>opers resp. exec_cmds decode lib x cmds batch = Ok (batch @ opers, resp) \<and>
    fold doc_op opers m = fst (spec_run decode lib cmds m) \<and> map re_body resp = snd (spec_run decode lib cmds m) \<and>
    map re_OpType resp = map rq_OpType cmds"
  using assms(2-4)
proof (induction cmds arbitrary: m batch)
  case (Cons c cmds)
  let ?m = "fst (spec_cmd decode lib c m)"
  obtain opers where c: "exec_cmd decode lib x c batch = Ok (batch @ opers, \<lparr>re_OpType = rq_OpType c, re_body = snd (spec_cmd decode lib c m)\<rparr>)"
      "fold doc_op opers m = ?m"
    using exec_cmd_spec [OF assms(1), of c m batch] Cons.prems by auto
  have "?m i = docs x i" if "d \<in> set cmds" "cmd_id d = Some i" for d i
  proof -
    have "cmd_id c \<noteq> Some i" using Cons.prems(2) that by (force simp: separate_def)
    then show ?thesis using spec_cmd_other [of c i decode lib m] Cons.prems(3) [of d i] that by simp
  qed
  moreover have "separate cmds" "list_all well_formed cmds" using Cons.prems(1,2) by (auto simp: separate_def)
  ultimately obtain opers' resp where "exec_cmds decode lib x cmds (batch @ opers) = Ok ((batch @ opers) @ opers', resp)"
      "fold doc_op opers' ?m = fst (spec_run decode lib cmds ?m)" "map re_body resp = snd (spec_run decode lib cmds ?m)"
      "map re_OpType resp = map rq_OpType cmds"
    using Cons.IH [of ?m "batch @ opers"] by blast
  then show ?case using c by (simp add: split_beta)
qed simp

lemma execWrite_docs:
  assumes "execWriteCommand decode lib index cmds x = (x', Ok resp)"
  shows "\<exists>batch. exec_cmds decode lib x cmds [] = Ok (batch, resp) \<and> docs x' = fold doc_op batch (docs x) \<and>
    internals x' = fold internal_op (batch_SetApplyID index batch) (internals x)"
proof -
  obtain batch where batch: "exec_cmds decode lib x cmds [] = Ok (batch, resp)"
      and commit: "bv_Batch lib x (batch_SetApplyID index batch) = (x', Ok ())"
    using assms by (auto simp: execWriteCommand_def batch_Commit_def split: result.splits prod.splits)
  have "fold doc_op (batch_SetApplyID index batch) (docs x) = fold doc_op batch (docs x)"
    by (simp add: batch_SetApplyID_def doc_op_def)
  then show ?thesis using batch Batch_Ok [OF commit] by simp
qed

lemma SetApplyID_any:
  fixes x :: 'x
  assumes "0 < index"
  defines "x' \<equiv> fst (Bleve_SetApplyID lib index x)"
  shows "docs x' = docs x \<and> (internals x' = internals x \<or> internals x' RAFT_APPLY_ID = Some (Uint64ToBytes index))"
proof -
  obtain r where r: "Bleve_SetApplyID lib index x = (x', r)" by (simp add: x'_def prod_eq_iff)
  show ?thesis
  proof (cases r)
    case (Ok u)
    then show ?thesis using SetApplyID_Ok [of index x x'] r assms(1) by simp
  next
    case (Err e)
    then show ?thesis using commit_if_Err r unfolding Bleve_SetApplyID_def by blast
  next
    case Panic
    have "snd (Bleve_SetApplyID lib index x) \<noteq> Panic" using no_panic(4) [of x]
      by (auto simp: Bleve_SetApplyID_def commit_if_def batch_Commit_def split: prod.splits result.splits) (metis snd_conv)
    then show ?thesis using r Panic by simp
  qed
qed

lemma execWrite_failed:
  assumes "execWriteCommand decode lib index cmds x = (x', Err e)" "0 < index"
  shows "docs x' = docs x \<and> (internals x' = internals x \<or> internals x' RAFT_APPLY_ID = Some (Uint64ToBytes index))"
proof -
  obtain b x1 e' where x1: "bv_Batch lib x b = (x1, Err e')" "x' = fst (Bleve_SetApplyID lib index x1)"
    using assms(1) by (auto simp: execWriteCommand_def batch_Commit_def split: result.splits prod.splits)
  then show ?thesis using Batch_Err [OF x1(1)] SetApplyID_any [OF assms(2), of x1] by auto
qed

end

section \<open>Properties\<close>

text \<open>
  C5: A bulk request that was applied is the requests one after the other: when no two of its commands name the same document, the
  documents after it and the responses are those of the specification, a failed command included, whose failure does not touch
  the others.
\<close>

theorem bulk_refines_map:
  assumes "bleve lib docs internals" "reads_ok decode lib x" "list_all well_formed cmds" "separate cmds"
    and "execWriteCommand decode lib index cmds x = (x', Ok resp)"
  shows "docs x' = fst (spec_run decode lib cmds (docs x)) \<and> map re_body resp = snd (spec_run decode lib cmds (docs x)) \<and>
    map re_OpType resp = map rq_OpType cmds"
  using bleve.execWrite_docs [OF assms(1,5)] bleve.exec_cmds_spec [OF assms(1-4), of "docs x" "[]"] by auto

abbreviation create_cmd :: "DOC_ID \<Rightarrow> bytes \<Rightarrow> RequestUnion" where
  "create_cmd i d \<equiv> \<lparr>rq_OpType = OpType_CREATE, rq_Create = Some \<lparr>cr_ID = i, cr_Data = d\<rparr>, rq_Update = None, rq_Delete = None\<rparr>"

abbreviation delete_cmd :: "DOC_ID \<Rightarrow> RequestUnion" where
  "delete_cmd i \<equiv> \<lparr>rq_OpType = OpType_DELETE, rq_Create = None, rq_Update = None, rq_Delete = Some \<lparr>dr_ID = i\<rparr>\<rparr>"

abbreviation text_lib :: "(mem_index, bytes) bleve_lib" where
  "text_lib \<equiv> mem_bleve (\<lambda>d. [TextField ''body'' d])"

theorem bulk_refines_map_witness:
  "\<exists>x' resp. execWriteCommand Ok text_lib 7 [create_cmd [1] [65], delete_cmd [2]] ([[2] \<mapsto> []], Map.empty) = (x', Ok resp) \<and>
     fst x' = [[1] \<mapsto> [TextField ''body'' [65]]] \<and> map re_body resp = [CreateResponse [1] CREATED, DeleteResponse [2] DELETED]"
proof -
  let ?cmds = "[create_cmd [1] [65], delete_cmd [2]]" and ?x = "([[2] \<mapsto> []], Map.empty) :: mem_index"
  obtain x' resp where run: "execWriteCommand Ok text_lib 7 ?cmds ?x = (x', Ok resp)"
    by (simp add: execWriteCommand_def exec_cmd_def createInternal_def deleteInternal_def or_failure_def batch_AddDocument_def
        batch_DeleteDocument_def mem_bleve_def batch_Commit_def)
  have "reads_ok Ok text_lib ?x" "list_all well_formed ?cmds" "separate ?cmds"
    by (simp_all add: reads_ok_def mem_bleve_def well_formed_def cmd_id_def separate_def)
  from bulk_refines_map [OF mb.bleve_axioms this run] show ?thesis using run
    by (auto simp: spec_cmd_def spec_create_def spec_delete_def mapped_def mem_bleve_def)
qed



text \<open>
  Within one bulk request a deletion does not see a creation before it: the document that was to be deleted stays, and
  the answer is that it was not found.
\<close>

theorem create_then_delete_keeps:
  assumes "bleve lib docs internals" "docs x i = None" "mapped decode lib i d = Ok doc"
    and "execWriteCommand decode lib index [create_cmd i d, delete_cmd i] x = (x', Ok resp)" "bv_Document lib x i = Ok r"
  shows "docs x' i = Some doc \<and> map re_body resp = [CreateResponse i CREATED, DeleteResponse i NOT_FOUND]"
proof -
  obtain y where y: "decode d = Ok y" "bv_map lib i y = Ok doc" using assms(3) by (auto simp: mapped_def result_bind_Ok_iff)
  have "r = None" using bleve.Document_Ok [OF assms(1,5)] assms(2) by simp
  then have "exec_cmds decode lib x [create_cmd i d, delete_cmd i] [] = Ok ([BatchIndex i doc],
      [\<lparr>re_OpType = OpType_CREATE, re_body = CreateResponse i CREATED\<rparr>, \<lparr>re_OpType = OpType_DELETE, re_body = DeleteResponse i NOT_FOUND\<rparr>])"
    using y assms(5) by (simp add: exec_cmd_def createInternal_def deleteInternal_def or_failure_def batch_AddDocument_def batch_DeleteDocument_def)
  then show ?thesis using bleve.execWrite_docs [OF assms(1,4)] by (auto simp: doc_op_def)
qed

theorem create_then_delete_keeps_witness:
  "fst (fst (execWriteCommand Ok text_lib 7 [create_cmd [1] [65], delete_cmd [1]] (Map.empty, Map.empty))) [1] = Some [TextField ''body'' [65]]"
proof -
  let ?x = "(Map.empty, Map.empty) :: mem_index"
  obtain x' resp where run: "execWriteCommand Ok text_lib 7 [create_cmd [1] [65], delete_cmd [1]] ?x = (x', Ok resp)"
    by (simp add: execWriteCommand_def exec_cmd_def createInternal_def deleteInternal_def or_failure_def batch_AddDocument_def
        batch_DeleteDocument_def mem_bleve_def batch_Commit_def)
  have "mapped Ok text_lib [1] [65] = Ok [TextField ''body'' [65]]" "bv_Document text_lib ?x [1] = Ok None"
    by (simp_all add: mapped_def mem_bleve_def)
  from create_then_delete_keeps [OF mb.bleve_axioms _ this(1) run this(2)] show ?thesis unfolding run by simp
qed

text \<open>
  A command whose type and body disagree brings down every replica that applies it, whatever its engine holds.
\<close>

theorem malformed_command_panics:
  assumes "\<not> list_all well_formed cmds"
  shows "snd (partition_Apply decode lib (Some (CmdType_WRITE cmds)) index x) = Panic"
proof -
  have "exec_cmds decode lib x cmds batch \<noteq> Ok r" for batch r
    using assms
  proof (induction cmds arbitrary: batch r)
    case (Cons c cmds)
    show ?case
    proof (cases "well_formed c")
      case True
      then show ?thesis using Cons by (auto simp: result_bind_Ok_iff)
    next
      case False
      then have "exec_cmd decode lib x c batch = Panic" by (cases "rq_OpType c") (auto simp: exec_cmd_def well_formed_def cmd_id_def)
      then show ?thesis by simp
    qed
  qed simp
  then show ?thesis by (auto simp: partition_Apply_def execWriteCommand_def split: result.splits)
qed

theorem malformed_command_panics_witness:
  "snd (partition_Apply Ok text_lib (Some (CmdType_WRITE [\<lparr>rq_OpType = OpType_CREATE, rq_Create = None, rq_Update = None, rq_Delete = None\<rparr>])) 7 (Map.empty, Map.empty)) = Panic"
  by (rule malformed_command_panics) (simp add: well_formed_def cmd_id_def)

end
