(* ===== verification/Spec2Isabelle.thy ===== *)
theory Spec2Isabelle
  imports Encoding_Value Mem_Trie Mem_Lock Index_Docs Mysql_Login Sql_Ident Router Topo_Race Zm_Wheel Util_Number Util_Buffer Gm_Worker Ps_Write
begin

text \<open>
  BaudEngine, a distributed document database: its storage, its cluster of masters, routers and partition servers, and its MySQL gateway.

  \<^bold>\<open>The program.\<close>  A partition server keeps documents in key-value stores (\<^verbatim>\<open>engine/kernel/store\<close>) under keys whose byte order
  is the order of what they encode (\<^verbatim>\<open>util/encoding\<close>, \<^verbatim>\<open>engine/kernel/index/indexImpl\<close>).  The gateway (\<^verbatim>\<open>mygate/mysql\<close>)
  speaks the MySQL protocol with its clients and hands the text of a query to a handler, which parses it.  The parts meet as
  follows: the index builds its keys from the ordered encodings and reads them back from a store by prefix and range; a
  session of the gateway is a handshake, then a loop of commands, over a packet layer; the tokenizer reads the query text.
  A database is divided into spaces and a space into partitions, each with a range of slots and a group of replicas.  The
  global master (\<^verbatim>\<open>gm\<close>) creates them in the topology store (\<^verbatim>\<open>topo\<close>, over etcd); partition servers (\<^verbatim>\<open>ps\<close>) report
  their partitions in heartbeats to the master of their zone (\<^verbatim>\<open>zm\<close>), which keeps the ranges in a tree and answers the
  routers (\<^verbatim>\<open>router\<close>), which cache the answers.

  \<^bold>\<open>Conventions\<close> (\<open>Prelude\<close>).  Machine integers are words; a byte slice is a list of bytes, and \<^verbatim>\<open>bytes.Compare\<close> is the
  order of lists.  A Go call that can fail returns a \<open>result\<close>: \<open>Ok\<close>, \<open>Err\<close> or \<open>Panic\<close>, so that an index out of range is an
  outcome and never an unspecified value.  State is passed explicitly, in a record for each struct.

  \<^bold>\<open>Key and value encoding\<close> (\<^verbatim>\<open>util/encoding/encoding.go\<close>).
  \<^item> \<open>Codec\<close>: the contract of an encoder and its decoder, as locales: \<open>codec\<close> (decoding what was encoded returns it and the
    rest), \<open>ordered_codec\<close> (encodings compare as the values, whatever follows) and \<open>codec_pair\<close> (two in sequence; a
    \<open>sublocale\<close> makes it an ordered codec again).
  \<^item> \<open>Encoding_Fixed\<close>, \<open>Encoding_Varint\<close>, \<open>Encoding_Bytes\<close>, \<open>Encoding_Key\<close>, \<open>Encoding_Value\<close>: every encoder and decoder, the
    functions that look at the front of an encoding, and the size estimates.  Each pair interprets the locale; the lemmas
    show order, round trip, lengths, and where an estimate or a length function is wrong.

  \<^bold>\<open>In-memory stores\<close> (\<^verbatim>\<open>engine/kernel/store/memstore\<close>).
  \<^item> \<open>Mem_Tree\<close>: the trees come from packages outside the repository; they are a record of operations with their documented
    laws as the locales \<open>mem_tree\<close>, \<open>btree_lib\<close>, \<open>llrb_lib\<close> and \<open>trie_lib\<close>, instantiated by sorted association lists.
  \<^item> \<open>Mem_Tx\<close>: the database, its lock, transactions with their rollback log, \<open>View\<close> and \<open>Update\<close>; what a rollback restores,
    for every order in which Go may iterate over the log.  \<open>Mem_Scan\<close>: the iterations of \<^verbatim>\<open>llrbdb\<close> and \<^verbatim>\<open>btreedb\<close>.
  \<^item> \<open>Match\<close>: the wildcard patterns of \<^verbatim>\<open>util/match\<close> with UTF-8 decoding, on which prefix iteration rests.
  \<^item> \<open>Mem_Store\<close>: \<open>Put\<close>, \<open>Get\<close>, \<open>Delete\<close>, the iterators and batches; the store refines a map (locale \<open>memstore\<close>).
    \<open>Mem_Trie\<close>: what \<^verbatim>\<open>triedb\<close> does differently.
  \<^item> \<open>Mem_Lock\<close>: interleaved transactions as a step relation; the invariant by rule induction gives that a writer is alone
    and that no call panics.

  \<^bold>\<open>Document index\<close> (\<^verbatim>\<open>engine/kernel/index\<close>).
  \<^item> \<open>Index_Keys\<close>: keys and rows of stored fields, postings and term lists, with the order of postings from \<open>codec_pair\<close>.
  \<^item> \<open>Index_Writer\<close>: how documents are added, updated, deleted and read, over a key-value driver with the contract
    \<open>kv_driver\<close> (boltdb and badger are outside the repository) and a registry of analysers.  \<open>Index_Docs\<close>: what each of
    these does to the store: read back, exact deletion, and the update that loses the document.

  \<^bold>\<open>MySQL gateway\<close> (\<^verbatim>\<open>mygate/mysql/server\<close>, \<^verbatim>\<open>mygate/mysql/sqltypes\<close>).
  \<^item> \<open>Mysql_Encoding\<close>: readers and writers of the wire types on slices with 64 bit positions; locale \<open>packet_field\<close> for a
    field that is read back.  \<open>Sqltypes\<close>: types, their wire numbers, values.
  \<^item> \<open>Mysql_Conn\<close>: packets, frames of at most \<open>MaxPacketSize\<close> bytes, sequence numbers and the life of the ephemeral buffer,
    over a connection with the bytes still to arrive and the bytes sent.
  \<^item> \<open>Mysql_Query\<close>: the packets of commands, columns, rows, results and errors; \<open>Mysql_Result\<close>: what each of them carries.
  \<^item> \<open>Mysql_Auth\<close>, \<open>Mysql_Handshake\<close>: salt, SHA-1, scrambled passwords, the table of users, and the handshake packets.
  \<^item> \<open>Mysql_Server\<close>: \<open>handle\<close> of the server and \<open>clientHandshake\<close> of the client, the authentication server and the handler as
    arguments.  The command loop is a partial function into \<open>option\<close>; \<open>serveLoop_ends\<close> shows that it returns on every
    input, because each command that goes on has read a packet.
  \<^item> \<open>Mysql_Session\<close>: both sides of a query, an update and an error, each reading the bytes the other has sent.
    \<open>Mysql_Login\<close>: both sides of the handshake, for every authentication server of the locale \<open>native_auth\<close>.

  \<^bold>\<open>SQL text\<close> (\<^verbatim>\<open>mygate/mysql/sqlparser\<close>).
  \<^item> \<open>Sql_Lexer\<close>: the tokenizer with its buffer, its reader and the tokenizers of executable comments, and the printing of
    literals.  All its loops terminate by the length of what is left to read.
  \<^item> \<open>Sql_Tokens\<close>: every loop in terms of the text that is left, however the reader cuts it; literals scan back, the end is
    reached, and which text makes the tokenizer panic.  \<open>Sql_Ident\<close>: identifiers scan back.

  \<^bold>\<open>Topology store\<close> (\<^verbatim>\<open>topo\<close>, \<^verbatim>\<open>topo/etcd3topo\<close>, \<^verbatim>\<open>proto/metapb\<close>, \<^verbatim>\<open>proto/masterpb\<close>).
  \<^item> \<open>Meta_Types\<close>: the messages.  \<open>Topo_Ids\<close>: the counter of identifiers and the generators of both masters over a store with the
    contract \<open>id_backend\<close>; \<open>Topo_Race\<close>: interleaved clients as step relations, whose blocks are disjoint while two calls of one
    generator can return the same identifier.
  \<^item> \<open>Topo_Etcd\<close>: files with versions, transactions and ephemeral files over an etcd client with the contract \<open>etcd\<close>, which a
    \<open>sublocale\<close> makes an \<open>id_backend\<close> and which is interpreted by a database in memory; no update is lost.
    \<open>Topo_Meta\<close>: databases, spaces, partitions, zones and tasks; a space is added whole or not at all.

  \<^bold>\<open>Global master\<close> (\<^verbatim>\<open>gm\<close>).
  \<^item> \<open>Gm_Cluster\<close>: the caches, the requests on databases and spaces, the watches and the recovery; the index of
    names stays consistent over every run, new spaces tile the slots, and which changes lose entries of the cache.
  \<^item> \<open>Gm_Worker\<close>: the worker that reads the reports of all zones and asks for replicas, with mutexes that block; which report it
    keeps, and that with this code no space ever leaves its initial state.

  \<^bold>\<open>Zone master\<close> (\<^verbatim>\<open>zm\<close>).
  \<^item> \<open>Zm_Partition\<close>: replica groups and their cache.  \<open>Zm_Tree\<close>: the tree of slot ranges over an ordered tree from outside the
    repository (a locale with its laws); ranges stay disjoint.  \<open>Zm_Space\<close>: the split of the slots, the worker that scans the
    ranges, and routes.
  \<^item> \<open>Zm_Server\<close>: registration and heartbeats on every branch, with an invariant over all runs.  \<open>Zm_Wheel\<close>: the wheel of
    timers, which refines countdown timers.

  \<^bold>\<open>Router and partition server.\<close>
  \<^item> \<open>Router\<close> (\<^verbatim>\<open>router/model_space.go\<close>): the cached routes and their search.
  \<^item> \<open>Ps_Server\<close> (\<^verbatim>\<open>ps/server\<close>): partitions, member changes, reports and administrative requests; a member that raft adds
    reaches the master with the following heartbeat, and what a restart clears.
  \<^item> \<open>Bleve_Engine\<close> (\<^verbatim>\<open>engine/bleve\<close>): the document engine over the bleve library, whose documented behaviour is the locale
    \<open>bleve\<close>.  \<open>Ps_Write\<close> (\<^verbatim>\<open>ps/server/partition_api.go\<close>): how a bulk request is applied; it refines a map of documents when its
    commands name different ones, and the position in the raft log is recorded with it.

  \<^bold>\<open>Numbers and buffers.\<close>
  \<^item> \<open>Util_Number\<close> (\<^verbatim>\<open>util/number.go\<close>): prefix coded integers and floats, their order and decoding.
  \<^item> \<open>Util_Buffer\<close> (\<^verbatim>\<open>util/bufalloc\<close>): byte buffers on an array that is moved and replaced; a buffer is a queue (locale
    \<open>byte_buffer\<close>), and reading from any reader (locale \<open>reader\<close>) into it returns.

  \<^bold>\<open>Bounds.\<close>  No definition uses fuel.  Recursion that is not structural has a measure: the bytes left to read or decode, or the
  rounds left; the command loop of the gateway, the scan of the zone master's worker and the reading of a
  buffer from a reader are partial functions into \<open>option\<close> with a theorem that they return, and so is the loop that applies a
  snapshot, which is shown not to return.  \<^verbatim>\<open>int\<close> is 64 bits wide where a position can wrap (\<open>Mysql_Encoding\<close>); the counters of the
  transaction layer and the tokenizer's position are unbounded.

  \<^bold>\<open>Not modelled.\<close>  The pretty printers of \<^verbatim>\<open>util/encoding\<close>, which format keys for debugging; JSON of SQL values; the file and signal
  handling of the user table; TLS, dialling, the listener's accept loop and timeouts, which are calls of the network library; the
  grammar of the parser, whose generated code is not in the repository, and the printers of its syntax tree; document
  mapping, the analysers and search, which work over reflection and third-party analysers; the disk stores, which pass every call
  on to the boltdb and badger libraries; of the masters the HTTP and gRPC handlers around the operations above, the remote
  calls to other nodes, elections and start-up; the listings and watches of the topology store, which pass on what etcd
  reports; raft, which is a library; search, which the engine leaves empty; logging.
\<close>

end
